(* ===== verification/Yacul_Prelude.thy ===== *)
theory Yacul_Prelude
  imports Main "HOL-Library.Word"
begin

text \<open>
  Prelude of the development: what the models of the single components share.
  \<^item> the error values of the code (\<open>CHECK\<close> failures, \<open>LOG(FATAL)\<close>, undefined behaviour)
    and the sequencing of steps that may fail;
  \<^item> \<open>size_t\<close> and the other unsigned integers of the code as natural numbers with the
    wrap-around written out, and when it does not happen;
  \<^item> bytes, pointers and generic facts on lists and words.
\<close>

named_theorems size_simps "wrap-around arithmetic that does not wrap"
named_theorems result_simps "sequencing of steps that may fail"

section \<open>Types\<close>

type_synonym u8 = "8 word"
type_synonym u32 = "32 word"
type_synonym u64 = "64 word"

text \<open>
  How a run of the code can go wrong: a \<open>CHECK\<close> macro that fails (the process aborts), a
  \<open>LOG(FATAL)\<close>, or an access the language leaves undefined (a null, dangling or
  out-of-bounds pointer, a shift by the width of the type, a division by zero), or a call of \<open>std::terminate\<close>.
\<close>

datatype fault = CheckFailed | FatalLog | UndefinedBehaviour | Terminated

type_synonym 'a result = "fault + 'a"

section \<open>Sequencing steps that may fail\<close>

definition rbind :: "'a result \<Rightarrow> ('a \<Rightarrow> 'b result) \<Rightarrow> 'b result" where
  "rbind r f = (case r of Inl e \<Rightarrow> Inl e | Inr x \<Rightarrow> f x)"

text \<open>\<open>CHECK(p)\<close> in front of the rest of a function.\<close>

definition check :: "bool \<Rightarrow> 'a result \<Rightarrow> 'a result" where
  "check p r = (if p then r else Inl CheckFailed)"

text \<open>An access that is defined only when \<open>p\<close> holds.\<close>

definition guard_ub :: "bool \<Rightarrow> 'a result \<Rightarrow> 'a result" where
  "guard_ub p r = (if p then r else Inl UndefinedBehaviour)"

text \<open>Dereferencing: an object that does not live (any more) is undefined behaviour.\<close>

definition deref :: "'a option \<Rightarrow> 'a result" where
  "deref m = (case m of None \<Rightarrow> Inl UndefinedBehaviour | Some x \<Rightarrow> Inr x)"

lemma rbind_Inl [simp, result_simps]: "rbind (Inl e) f = Inl e"
  by (simp add: rbind_def)

lemma rbind_Inr [simp, result_simps]: "rbind (Inr x) f = f x"
  by (simp add: rbind_def)

lemma rbind_eq_Inr [result_simps]:
  "rbind r f = Inr y \<longleftrightarrow> (\<exists>x. r = Inr x \<and> f x = Inr y)"
  by (cases r) auto

lemma rbind_eq_Inl [result_simps]:
  "rbind r f = Inl e \<longleftrightarrow> r = Inl e \<or> (\<exists>x. r = Inr x \<and> f x = Inl e)"
  by (cases r) auto

lemma check_True [simp, result_simps]: "check True r = r"
  by (simp add: check_def)

lemma check_False [simp, result_simps]: "check False r = Inl CheckFailed"
  by (simp add: check_def)

lemma check_eq_Inr [result_simps]: "check p r = Inr y \<longleftrightarrow> p \<and> r = Inr y"
  by (simp add: check_def)

lemma guard_ub_True [simp, result_simps]: "guard_ub True r = r"
  by (simp add: guard_ub_def)

lemma guard_ub_False [simp, result_simps]: "guard_ub False r = Inl UndefinedBehaviour"
  by (simp add: guard_ub_def)

lemma guard_ub_eq_Inr [result_simps]: "guard_ub p r = Inr y \<longleftrightarrow> p \<and> r = Inr y"
  by (simp add: guard_ub_def)

lemma deref_simps [simp, result_simps]:
  "deref (Some x) = Inr x"
  "deref None = Inl UndefinedBehaviour"
  by (simp_all add: deref_def)

lemma deref_eq_Inr [result_simps]: "deref m = Inr x \<longleftrightarrow> m = Some x"
  by (cases m) auto

section \<open>size_t: 64-bit unsigned arithmetic\<close>

definition size_max :: nat where
  "size_max = 2 ^ 64 - 1"

definition sz_add :: "nat \<Rightarrow> nat \<Rightarrow> nat" where
  "sz_add a b = (a + b) mod 2 ^ 64"

definition sz_sub :: "nat \<Rightarrow> nat \<Rightarrow> nat" where
  "sz_sub a b = (a + (2 ^ 64 - b mod 2 ^ 64)) mod 2 ^ 64"

definition sz_mul :: "nat \<Rightarrow> nat \<Rightarrow> nat" where
  "sz_mul a b = (a * b) mod 2 ^ 64"

lemma sz_bounds [simp]: "sz_add a b < 2 ^ 64" "sz_sub a b < 2 ^ 64" "sz_mul a b < 2 ^ 64"
  by (simp_all add: sz_add_def sz_sub_def sz_mul_def)

lemma sz_add_eq [size_simps]: "a + b < 2 ^ 64 \<Longrightarrow> sz_add a b = a + b"
  by (simp add: sz_add_def)

lemma sz_mul_eq [size_simps]: "a * b < 2 ^ 64 \<Longrightarrow> sz_mul a b = a * b"
  by (simp add: sz_mul_def)

lemma sz_sub_eq [size_simps]: "b \<le> a \<Longrightarrow> a < 2 ^ 64 \<Longrightarrow> sz_sub a b = a - b"
proof -
  assume ba: "b \<le> a" and a: "a < 2 ^ 64"
  then have "b mod 2 ^ 64 = b" by simp
  then have "sz_sub a b = (a + (2 ^ 64 - b)) mod 2 ^ 64" by (simp add: sz_sub_def)
  also have "a + (2 ^ 64 - b) = (a - b) + 2 ^ 64" using ba a by simp
  also have "((a - b) + 2 ^ 64) mod 2 ^ 64 = a - b" using a by simp
  finally show ?thesis .
qed

lemma sz_sub_wrap: "a < b \<Longrightarrow> b < 2 ^ 64 \<Longrightarrow> sz_sub a b = 2 ^ 64 - (b - a)"
  by (simp add: sz_sub_def)

lemma sz_add_sub_cancel: "a < 2 ^ 64 \<Longrightarrow> b < 2 ^ 64 \<Longrightarrow> sz_add b (sz_sub a b) = a"
proof (cases "b \<le> a")
  case True
  assume "a < 2 ^ 64"
  with True show ?thesis by (simp add: sz_sub_eq sz_add_eq)
next
  case False
  assume "a < 2 ^ 64" "b < 2 ^ 64"
  with False have "sz_sub a b = 2 ^ 64 - (b - a)" by (simp add: sz_sub_wrap)
  moreover have "b + (2 ^ 64 - (b - a)) = a + 2 ^ 64" using False \<open>b < 2 ^ 64\<close> by simp
  ultimately show ?thesis using \<open>a < 2 ^ 64\<close> by (simp add: sz_add_def)
qed

text \<open>A 32-bit counter that is decremented.\<close>

lemma dec_u32: "0 < n \<Longrightarrow> n < 2 ^ 32 \<Longrightarrow> (n + (2 ^ 32 - 1)) mod 2 ^ 32 = (n - 1 :: nat)"
proof -
  assume "0 < n" "n < 2 ^ 32"
  then have "n + (2 ^ 32 - 1) = (n - 1) + 2 ^ 32" by simp
  then have "(n + (2 ^ 32 - 1)) mod 2 ^ 32 = (n - 1) mod 2 ^ 32" by (metis mod_add_self2)
  with \<open>n < 2 ^ 32\<close> show ?thesis by (simp add: less_imp_diff_less)
qed

section \<open>Lists\<close>

text \<open>Overwriting \<open>length ys\<close> elements of a list from position \<open>i\<close> on: \<open>memcpy\<close>.\<close>

definition splice :: "'a list \<Rightarrow> nat \<Rightarrow> 'a list \<Rightarrow> 'a list" where
  "splice xs i ys = take i xs @ ys @ drop (i + length ys) xs"

definition slice :: "'a list \<Rightarrow> nat \<Rightarrow> nat \<Rightarrow> 'a list" where
  "slice xs i n = take n (drop i xs)"

lemma length_splice [simp]: "i + length ys \<le> length xs \<Longrightarrow> length (splice xs i ys) = length xs"
  by (simp add: splice_def)

lemma length_slice [simp]: "i + n \<le> length xs \<Longrightarrow> length (slice xs i n) = n"
  by (simp add: slice_def)

lemma splice_Nil [simp]: "splice xs i [] = xs"
  by (simp add: splice_def)

lemma slice_0 [simp]: "slice xs i 0 = []"
  by (simp add: slice_def)

lemma slice_splice_same [simp]:
  "i + length ys \<le> length xs \<Longrightarrow> n = length ys \<Longrightarrow> slice (splice xs i ys) i n = ys"
  by (simp add: slice_def splice_def)

lemma slice_splice_before:
  "i + n \<le> j \<Longrightarrow> j + length ys \<le> length xs \<Longrightarrow> slice (splice xs j ys) i n = slice xs i n"
  by (rule nth_equalityI) (auto simp: slice_def splice_def nth_append)

lemma slice_slice: "i + n \<le> m \<Longrightarrow> slice (slice xs j m) i n = slice xs (j + i) n"
  by (simp add: slice_def drop_take min_def add.commute)

lemma slice_append: "slice xs i (n + m) = slice xs i n @ slice xs (i + n) m"
  by (simp add: slice_def take_add) (simp add: add.commute)

section \<open>Words\<close>

lemma unat_power2: "k < LENGTH('a) \<Longrightarrow> unat ((2 :: 'a::len word) ^ k) = 2 ^ k"
proof -
  assume k: "k < LENGTH('a)"
  have "unat ((2 :: 'a word) ^ k) = unat (of_nat (2 ^ k) :: 'a word)" by simp
  also have "\<dots> = 2 ^ k" using k by (simp add: unsigned_of_nat take_bit_nat_eq_self del: of_nat_power)
  finally show ?thesis .
qed

lemma power2_neq_0: "k < LENGTH('a) \<Longrightarrow> (2 :: 'a::len word) ^ k \<noteq> 0"
  using unat_power2 [of k, where 'a = 'a] by (metis power_not_zero unat_0 zero_neq_numeral)

end
