(* ===== verification/Basic_Math.thy ===== *)
theory Basic_Math
  imports Yacul_Prelude
begin

text \<open>
  The arithmetic helpers of \<^verbatim>\<open>src/yacul/basic/basic.h\<close>, for the unsigned instances of their
  template parameter: a value of type \<open>T\<close> is a word of the width of \<open>T\<close>.
  \<open>__builtin_constant_p\<close> is the compiler's answer whether it knows the value of its
  argument; the models take it as an argument \<open>cp\<close>, and the results do not depend on it.
\<close>

unbundle bit_operations_syntax

section \<open>Definitions\<close>

definition IsPowerOfTwo :: "'a::len word \<Rightarrow> bool" where
  "IsPowerOfTwo x \<longleftrightarrow> x > 0 \<and> x AND (x - 1) = 0"

text \<open>\<open>__builtin_clz\<close> and \<open>__builtin_ctzll\<close>: zero bits above the highest (below the lowest)
  set bit.\<close>

fun clz_from :: "'a::len word \<Rightarrow> nat \<Rightarrow> nat" where
  "clz_from x 0 = 0"
| "clz_from x (Suc n) = (if bit x n then 0 else Suc (clz_from x n))"

definition clz :: "'a::len word \<Rightarrow> nat" where
  "clz x = clz_from x LENGTH('a)"

fun ctz_from :: "'a::len word \<Rightarrow> nat \<Rightarrow> nat \<Rightarrow> nat" where
  "ctz_from x i 0 = i"
| "ctz_from x i (Suc n) = (if bit x i then i else ctz_from x (Suc i) n)"

definition ctzll :: "u64 \<Rightarrow> nat" where
  "ctzll x = ctz_from x 0 64"

definition CeilDiv :: "bool \<Rightarrow> 'a::len word \<Rightarrow> 'a word \<Rightarrow> 'a word result" where
  "CeilDiv cp a b =
     (if cp \<and> IsPowerOfTwo b then Inr (drop_bit (ctzll (ucast b)) (a + b - 1))
      else guard_ub (b \<noteq> 0) (Inr ((a + b - 1) div b)))"

definition AlignUp :: "bool \<Rightarrow> 'a::len word \<Rightarrow> 'a word \<Rightarrow> 'a word result" where
  "AlignUp cp a b =
     (if cp \<and> IsPowerOfTwo b then Inr ((a + b - 1) AND NOT (b - 1))
      else guard_ub (b \<noteq> 0) (Inr (((a + b - 1) div b) * b)))"

definition AlignDown :: "bool \<Rightarrow> 'a::len word \<Rightarrow> 'a word \<Rightarrow> 'a word result" where
  "AlignDown cp a b =
     (if cp \<and> IsPowerOfTwo b then Inr (a AND NOT (b - 1))
      else guard_ub (b \<noteq> 0) (Inr ((a div b) * b)))"

definition Log2 :: "'a::len word \<Rightarrow> int" where
  "Log2 x =
     (if x \<le> 0 then -1
      else if LENGTH('a) \<le> 32 then 31 - int (clz (ucast x :: u32))
      else 63 - int (clz (ucast x :: u64)))"

text \<open>\<open>T(1) << n\<close>: a type narrower than \<open>int\<close> is promoted first, so the shift is undefined from
  32 or from the width of \<open>T\<close> on; the result is cut to \<open>T\<close>.\<close>

definition shift_one :: "nat \<Rightarrow> 'a::len word result" where
  "shift_one n = guard_ub (n < max 32 LENGTH('a)) (Inr (push_bit n 1))"

definition NextPowerOfTwo :: "'a::len word \<Rightarrow> 'a word result" where
  "NextPowerOfTwo x =
     (if x \<le> 1 then Inr 1
      else if IsPowerOfTwo x then Inr x
      else if LENGTH('a) \<le> 32 then shift_one (32 - clz (ucast (x - 1) :: u32))
      else shift_one (64 - clz (ucast (x - 1) :: u64)))"

definition PrevPowerOfTwo :: "'a::len word \<Rightarrow> 'a word result" where
  "PrevPowerOfTwo x =
     (if x \<le> 0 then Inr 0
      else if LENGTH('a) \<le> 32 then shift_one (31 - clz (ucast x :: u32))
      else shift_one (63 - clz (ucast x :: u64)))"

section \<open>The highest set bit\<close>

lemma clz_from_le: "clz_from x n \<le> n"
  by (induction n) auto

lemma clz_from_bit:
  "(\<exists>j<n. bit x j) \<Longrightarrow> clz_from x n < n \<and> bit x (n - 1 - clz_from x n)"
proof (induction n)
  case (Suc n)
  then show ?case
  proof (cases "bit x n")
    case False
    with Suc.prems have "\<exists>j<n. bit x j" using less_Suc_eq by blast
    with Suc.IH False show ?thesis by simp
  qed simp
qed simp

lemma clz_from_above: "j < n \<Longrightarrow> n - 1 - clz_from x n < j \<Longrightarrow> \<not> bit x j"
proof (induction n)
  case (Suc n)
  show ?case
  proof (cases "bit x n")
    case False
    show ?thesis
    proof (cases "j = n")
      case True
      with False show ?thesis by simp
    next
      case ne: False
      with Suc.prems have "j < n" by simp
      moreover have "n - 1 - clz_from x n < j" using Suc.prems False by simp
      ultimately show ?thesis by (rule Suc.IH)
    qed
  qed (use Suc.prems in simp)
qed simp

lemma word_has_bit: "(x :: 'a::len word) \<noteq> 0 \<Longrightarrow> \<exists>j<LENGTH('a). bit x j"
  using bit_word_eqI [of x 0] by auto

lemma unat_ge_bit: "bit (x :: 'a::len word) k \<Longrightarrow> 2 ^ k \<le> unat x"
proof -
  assume "bit x k"
  then have "bit (unat x) k" by (simp add: bit_unsigned_iff)
  then have "odd (unat x div 2 ^ k)" by (simp add: bit_iff_odd)
  then have "unat x div 2 ^ k > 0" by (rule odd_pos)
  then show ?thesis by (simp add: div_greater_zero_iff)
qed

lemma unat_less_bits:
  assumes "\<And>j. k \<le> j \<Longrightarrow> \<not> bit (x :: 'a::len word) j"
  shows "unat x < 2 ^ k"
proof -
  have "take_bit k (unat x) = unat x"
    by (rule bit_eqI) (use assms in \<open>auto simp: bit_take_bit_iff bit_unsigned_iff simp flip: not_le\<close>)
  then show ?thesis by (simp add: take_bit_nat_eq_self_iff)
qed

text \<open>The value of \<open>w - 1 - clz x\<close> is the floor of the binary logarithm.\<close>

lemma clz_bounds:
  fixes x :: "'a::len word"
  assumes "x \<noteq> 0"
  shows "clz x < LENGTH('a)"
    and "2 ^ (LENGTH('a) - 1 - clz x) \<le> unat x"
    and "unat x < 2 ^ (LENGTH('a) - clz x)"
proof -
  from clz_from_bit [OF word_has_bit [OF assms]]
  show lt: "clz x < LENGTH('a)"
    and "2 ^ (LENGTH('a) - 1 - clz x) \<le> unat x"
    by (auto simp: clz_def intro: unat_ge_bit)
  show "unat x < 2 ^ (LENGTH('a) - clz x)"
  proof (rule unat_less_bits)
    fix j assume "LENGTH('a) - clz x \<le> j"
    with lt clz_from_above [of j "LENGTH('a)" x] show "\<not> bit x j"
      by (cases "j < LENGTH('a)") (auto simp: clz_def dest: bit_imp_le_length)
  qed
qed

section \<open>Powers of two\<close>

lemma mask_and_power: "(2 :: 'a::len word) ^ k AND (2 ^ k - 1) = 0"
  by (rule bit_word_eqI) (auto simp: bit_and_iff bit_exp_iff Bit_Operations.bit_mask_iff simp flip: mask_eq_exp_minus_1)

lemma IsPowerOfTwo_iff:
  fixes x :: "'a::len word"
  shows "IsPowerOfTwo x \<longleftrightarrow> (\<exists>k<LENGTH('a). x = 2 ^ k)"
proof
  assume p: "IsPowerOfTwo x"
  then have nz: "x \<noteq> 0" by (simp add: IsPowerOfTwo_def word_gt_0)
  let ?k = "LENGTH('a) - 1 - clz x"
  note b = clz_bounds [OF nz]
  have k: "?k < LENGTH('a)" by (simp add: diff_less_Suc)
  have "x = 2 ^ ?k"
  proof (rule ccontr)
    assume ne: "x \<noteq> 2 ^ ?k"
    have pk: "unat ((2 :: 'a word) ^ ?k) = 2 ^ ?k" using k by (rule unat_power2)
    with ne b(2) have "2 ^ ?k < unat x" by (metis le_neq_implies_less word_unat_eq_iff)
    then have ge: "2 ^ ?k \<le> unat (x - 1)" using nz by (simp add: unat_minus_one)
    have lt: "unat x < 2 ^ Suc ?k" using b(1,3) by (simp add: Suc_diff_Suc)
    have bitn: "bit y ?k" if "2 ^ ?k \<le> unat y" "unat y < 2 ^ Suc ?k" for y :: "'a word"
    proof -
      have "unat y div 2 ^ ?k = 1" using that by (auto simp: div_nat_eqI)
      then have "bit (unat y) ?k" by (simp add: bit_iff_odd)
      then show ?thesis by (simp add: bit_unsigned_iff)
    qed
    have "unat (x - 1) < 2 ^ Suc ?k" using nz lt by (simp add: unat_minus_one)
    with ge have "bit (x - 1) ?k" by (rule bitn)
    moreover have "bit x ?k" using b(2) lt by (rule bitn)
    ultimately have "bit (x AND (x - 1)) ?k" by (simp add: bit_and_iff)
    with p show False by (simp add: IsPowerOfTwo_def)
  qed
  with k show "\<exists>k<LENGTH('a). x = 2 ^ k" by blast
next
  assume "\<exists>k<LENGTH('a). x = 2 ^ k"
  then obtain k where "k < LENGTH('a)" "x = 2 ^ k" by blast
  then show "IsPowerOfTwo x"
    by (simp add: IsPowerOfTwo_def mask_and_power word_gt_0 power2_neq_0)
qed

lemma ctz_from_power:
  "i \<le> k \<Longrightarrow> k < i + n \<Longrightarrow> k < LENGTH('a) \<Longrightarrow> ctz_from ((2 :: 'a::len word) ^ k) i n = k"
  by (induction n arbitrary: i) (auto simp: bit_exp_iff)

section \<open>Rounding\<close>

lemma and_not_mask: "(y :: 'a::len word) AND NOT (2 ^ k - 1) = y div 2 ^ k * 2 ^ k"
proof -
  have "y AND NOT (2 ^ k - 1) = push_bit k (drop_bit k y)"
    by (rule bit_word_eqI)
      (auto simp: bit_simps simp flip: mask_eq_exp_minus_1)
  then show ?thesis by (simp add: push_bit_eq_mult drop_bit_eq_div)
qed

text \<open>The optimised branches compute what the division branches do.\<close>

lemma AlignUp_cp: "AlignUp cp a b = AlignUp False a b"
  by (auto simp: AlignUp_def IsPowerOfTwo_iff and_not_mask power2_neq_0)

lemma AlignDown_cp: "AlignDown cp a b = AlignDown False a b"
  by (auto simp: AlignDown_def IsPowerOfTwo_iff and_not_mask power2_neq_0)

lemma CeilDiv_cp:
  fixes a b :: "'a::len word"
  assumes "LENGTH('a) \<le> 64"
  shows "CeilDiv cp a b = CeilDiv False a b"
proof (cases "IsPowerOfTwo b")
  case True
  then obtain k where k: "k < LENGTH('a)" "b = 2 ^ k" by (auto simp: IsPowerOfTwo_iff)
  have "ucast b = (2 :: u64) ^ k"
    using k(2) assms by (metis of_nat_numeral of_nat_power of_nat_unat unat_power2 k(1))
  moreover have "ctz_from ((2 :: u64) ^ k) 0 64 = k"
    using k(1) assms by (intro ctz_from_power) auto
  ultimately show ?thesis using k
    by (simp add: CeilDiv_def ctzll_def drop_bit_eq_div power2_neq_0)
qed (simp add: CeilDiv_def)


lemma nat_round_up:
  fixes a b :: nat
  assumes "0 < b"
  defines "r \<equiv> (a + b - 1) div b * b"
  shows "b dvd r" "a \<le> r" "r < a + b"
proof -
  show "b dvd r" by (simp add: r_def)
  have m: "r + (a + b - 1) mod b = a + b - 1" unfolding r_def by (rule div_mult_mod_eq)
  have "(a + b - 1) mod b < b" using assms(1) by simp
  with m assms(1) show "a \<le> r" "r < a + b" by linarith+
qed

lemma unat_round_sum:
  fixes a b :: "'a::len word"
  assumes "b \<noteq> 0" "unat a + unat b \<le> 2 ^ LENGTH('a)"
  shows "unat (a + b - 1) = unat a + unat b - 1"
proof -
  have b1: "unat (b - 1) = unat b - 1" using assms(1) by (simp add: unat_minus_one)
  have pos: "0 < unat b" using assms(1) by (simp add: unat_gt_0)
  have "a + b - 1 = a + (b - 1)" by simp
  also have "unat \<dots> = unat a + unat (b - 1)"
    using assms(2) b1 pos by (subst unat_add_lem [THEN iffD1]) auto
  finally show ?thesis using b1 pos by simp
qed

lemma AlignUp_round:
  fixes a b :: "'a::len word"
  assumes "b \<noteq> 0" "unat a + unat b \<le> 2 ^ LENGTH('a)"
  shows "\<exists>r. AlignUp cp a b = Inr r \<and> unat r = (unat a + unat b - 1) div unat b * unat b"
proof -
  let ?s = "unat a + unat b - 1"
  have s: "unat (a + b - 1) = ?s" using assms by (rule unat_round_sum)
  have "?s div unat b * unat b \<le> ?s" by simp
  also have "?s < 2 ^ LENGTH('a)" using s by (metis unsigned_less)
  finally have "unat ((a + b - 1) div b * b) = ?s div unat b * unat b"
    by (simp add: unat_mult_lem [THEN iffD1] unat_div s)
  with assms(1) show ?thesis by (subst AlignUp_cp) (simp add: AlignUp_def)
qed

section \<open>Logarithms\<close>

lemma ucast_clz_bounds:
  fixes x :: "'a::len word"
  assumes "x \<noteq> 0" "LENGTH('a) \<le> LENGTH('b::len)"
  defines "c \<equiv> clz (ucast x :: 'b word)"
  shows "c < LENGTH('b)" "2 ^ (LENGTH('b) - 1 - c) \<le> unat x" "unat x < 2 ^ (LENGTH('b) - c)"
proof -
  have u: "unat (ucast x :: 'b word) = unat x"
  proof -
    have "unat x < 2 ^ LENGTH('b)"
      using assms(2) by (meson order_less_le_trans one_le_numeral power_increasing unsigned_less)
    then show ?thesis by (simp add: unsigned_ucast_eq take_bit_nat_eq_self)
  qed
  with assms(1) have "(ucast x :: 'b word) \<noteq> 0" by (metis unat_0 unat_eq_zero)
  from clz_bounds [OF this] u
  show "c < LENGTH('b)" "2 ^ (LENGTH('b) - 1 - c) \<le> unat x" "unat x < 2 ^ (LENGTH('b) - c)"
    by (simp_all add: c_def)
qed


lemma shift_one_power: "k < LENGTH('a) \<Longrightarrow> shift_one k = Inr ((2 :: 'a::len word) ^ k)"
  by (simp add: shift_one_def push_bit_eq_mult less_max_iff_disj)

lemma log_exponent_less: "2 ^ k \<le> unat (x :: 'a::len word) \<Longrightarrow> k < LENGTH('a)"
  by (metis le_less_trans one_less_numeral_iff power_less_imp_less_exp semiring_norm(76) unsigned_less)

lemma Log2_cases:
  fixes x :: "'a::len word"
  assumes "0 < x" "LENGTH('a) \<le> 64"
  obtains k where "Log2 x = int k" "PrevPowerOfTwo x = Inr (2 ^ k)"
    "2 ^ k \<le> unat x" "unat x < 2 ^ Suc k" "k < LENGTH('a)"
proof (cases "LENGTH('a) \<le> 32")
  case True
  let ?c = "clz (ucast x :: u32)"
  have nz: "x \<noteq> 0" "\<not> x \<le> 0" using assms(1) by auto
  have b: "?c < 32" "2 ^ (31 - ?c) \<le> unat x" "unat x < 2 ^ (32 - ?c)"
    using ucast_clz_bounds [OF nz(1), where 'b = 32] True by simp_all
  have k: "31 - ?c < LENGTH('a)" using b(2) by (rule log_exponent_less)
  show thesis
  proof (rule that [of "31 - ?c"])
    show "Log2 x = int (31 - ?c)" using nz True b(1) by (simp add: Log2_def)
    show "PrevPowerOfTwo x = Inr (2 ^ (31 - ?c))"
      using nz True shift_one_power [OF k] by (simp add: PrevPowerOfTwo_def)
    show "unat x < 2 ^ Suc (31 - ?c)" using b by (simp flip: Suc_diff_le)
  qed (use b k in auto)
next
  case False
  let ?c = "clz (ucast x :: u64)"
  have nz: "x \<noteq> 0" "\<not> x \<le> 0" using assms(1) by auto
  have b: "?c < 64" "2 ^ (63 - ?c) \<le> unat x" "unat x < 2 ^ (64 - ?c)"
    using ucast_clz_bounds [OF nz(1), where 'b = 64] assms(2) by simp_all
  have k: "63 - ?c < LENGTH('a)" using b(2) by (rule log_exponent_less)
  show thesis
  proof (rule that [of "63 - ?c"])
    show "Log2 x = int (63 - ?c)" using nz False b(1) by (simp add: Log2_def)
    show "PrevPowerOfTwo x = Inr (2 ^ (63 - ?c))"
      using nz False shift_one_power [OF k] by (simp add: PrevPowerOfTwo_def)
    show "unat x < 2 ^ Suc (63 - ?c)" using b by (simp flip: Suc_diff_le)
  qed (use b k in auto)
qed


lemma NextPowerOfTwo_shift:
  fixes x :: "'a::len word"
  assumes "1 < x" "\<not> IsPowerOfTwo x" "LENGTH('a) \<le> 64"
  obtains n where "NextPowerOfTwo x = shift_one (Suc n)" "2 ^ n < unat x" "unat x < 2 ^ Suc n"
proof -
  have x1: "1 < unat x" using assms(1) by (simp add: word_less_nat_alt)
  have nz: "x - 1 \<noteq> 0" using assms(1) by auto
  have u: "unat (x - 1) = unat x - 1" using assms(1) by (intro unat_minus_one) auto
  obtain n where n: "NextPowerOfTwo x = shift_one (Suc n)"
    and lo: "2 ^ n \<le> unat (x - 1)" and hi: "unat (x - 1) < 2 ^ Suc n"
  proof (cases "LENGTH('a) \<le> 32")
    case True
    let ?c = "clz (ucast (x - 1) :: u32)"
    have b: "?c < 32" "2 ^ (31 - ?c) \<le> unat (x - 1)" "unat (x - 1) < 2 ^ (32 - ?c)"
      using ucast_clz_bounds [OF nz, where 'b = 32] True by simp_all
    have "32 - ?c = Suc (31 - ?c)" using b(1) by simp
    moreover from this have "NextPowerOfTwo x = shift_one (Suc (31 - ?c))"
      using assms(1,2) True by (auto simp: NextPowerOfTwo_def)
    ultimately show thesis using b that [of "31 - ?c"] by simp
  next
    case False
    let ?c = "clz (ucast (x - 1) :: u64)"
    have b: "?c < 64" "2 ^ (63 - ?c) \<le> unat (x - 1)" "unat (x - 1) < 2 ^ (64 - ?c)"
      using ucast_clz_bounds [OF nz, where 'b = 64] assms(3) by simp_all
    have "64 - ?c = Suc (63 - ?c)" using b(1) by simp
    moreover from this have "NextPowerOfTwo x = shift_one (Suc (63 - ?c))"
      using assms(1,2) False by (auto simp: NextPowerOfTwo_def)
    ultimately show thesis using b that [of "63 - ?c"] by simp
  qed
  have "unat x \<noteq> 2 ^ Suc n"
  proof
    assume e: "unat x = 2 ^ Suc n"
    then have k: "Suc n < LENGTH('a)" by (intro log_exponent_less [of _ x]) simp
    then have "x = 2 ^ Suc n" using e unat_power2 [OF k] by (simp add: word_unat_eq_iff)
    with k assms(2) show False unfolding IsPowerOfTwo_iff by blast
  qed
  with lo hi u x1 that [OF n] show thesis by simp
qed

section \<open>Properties\<close>

text \<open>
  \<open>AlignUp(a, b)\<close> of \<^verbatim>\<open>basic.h\<close> is the least multiple of \<open>b\<close> that is not below \<open>a\<close>, on its
  shift-free optimised branch and on its division branch alike, whenever \<open>a + b - 1\<close> does not
  overflow the type; \<open>b = 0\<close> is a division by zero.
\<close>

theorem AlignUp_least_multiple:
  fixes a b :: "'a::len word"
  assumes "b \<noteq> 0" "unat a + unat b \<le> 2 ^ LENGTH('a)"
  shows "\<exists>r. AlignUp cp a b = Inr r \<and> unat b dvd unat r \<and> unat a \<le> unat r \<and> unat r < unat a + unat b"
proof -
  have "0 < unat b" using assms(1) by (simp add: unat_gt_0)
  from nat_round_up [OF this, of "unat a"] AlignUp_round [OF assms, of cp] show ?thesis by auto
qed

theorem AlignUp_least_multiple_witness:
  "\<exists>r. AlignUp True (13 :: u64) 8 = Inr r \<and> unat (8 :: u64) dvd unat r
     \<and> unat (13 :: u64) \<le> unat r \<and> unat r < unat (13 :: u64) + unat (8 :: u64)"
  by (rule AlignUp_least_multiple) simp_all

text \<open>
  \<open>NextPowerOfTwo(x)\<close> is the least power of two that is not below \<open>x\<close> as long as the type can
  represent one; beyond the largest power of two a 32- or 64-bit type shifts by its full width,
  which is undefined behaviour.
\<close>

theorem NextPowerOfTwo_least:
  fixes x :: "'a::len word"
  assumes "0 < x" "LENGTH('a) \<le> 64"
  shows "if unat x \<le> 2 ^ (LENGTH('a) - 1)
     then \<exists>k. NextPowerOfTwo x = Inr (2 ^ k) \<and> k < LENGTH('a) \<and> unat x \<le> 2 ^ k \<and> 2 ^ k < 2 * unat x
     else 32 \<le> LENGTH('a) \<longrightarrow> NextPowerOfTwo x = Inl UndefinedBehaviour"
proof (cases "x \<le> 1 \<or> IsPowerOfTwo x")
  case True
  have "\<exists>k<LENGTH('a). x = 2 ^ k \<and> NextPowerOfTwo x = Inr (2 ^ k)"
  proof (cases "x \<le> 1")
    case True
    with assms(1) have "x = 1" by (simp add: word_le_nat_alt word_less_nat_alt word_unat_eq_iff)
    then show ?thesis by (intro exI [of _ 0]) (simp add: NextPowerOfTwo_def)
  next
    case False
    with True obtain k where k: "k < LENGTH('a)" "x = 2 ^ k" by (auto simp: IsPowerOfTwo_iff)
    moreover have "NextPowerOfTwo x = Inr x" using True False by (simp add: NextPowerOfTwo_def)
    ultimately show ?thesis by auto
  qed
  then obtain k where k: "k < LENGTH('a)" "x = 2 ^ k" "NextPowerOfTwo x = Inr (2 ^ k)" by blast
  then have "unat x = 2 ^ k" by (simp add: unat_power2)
  moreover have "(2 :: nat) ^ k \<le> 2 ^ (LENGTH('a) - 1)"
    using k(1) by (intro power_increasing) auto
  ultimately show ?thesis using k by auto
next
  case False
  then obtain n where n: "NextPowerOfTwo x = shift_one (Suc n)" "2 ^ n < unat x" "unat x < 2 ^ Suc n"
    using NextPowerOfTwo_shift [of x] assms by (metis linorder_not_le)
  have nl: "n < LENGTH('a)" using n(2) by (intro log_exponent_less [of _ x]) simp
  show ?thesis
  proof (cases "unat x \<le> 2 ^ (LENGTH('a) - 1)")
    case True
    with n(2) have "(2 :: nat) ^ n < 2 ^ (LENGTH('a) - 1)" by (rule less_le_trans)
    then have "n < LENGTH('a) - 1" by (rule power_less_imp_less_exp [rotated]) simp
    then have "Suc n < LENGTH('a)" by simp
    with n True show ?thesis by (auto simp: shift_one_power intro!: exI [of _ "Suc n"])
  next
    case big: False
    with n(3) have "(2 :: nat) ^ (LENGTH('a) - 1) < 2 ^ Suc n" by (meson less_trans not_le)
    then have "LENGTH('a) - 1 < Suc n" by (rule power_less_imp_less_exp [rotated]) simp
    with nl n(1) big show ?thesis by (auto simp: shift_one_def guard_ub_def)
  qed
qed

theorem NextPowerOfTwo_least_witness:
  "(\<exists>k. NextPowerOfTwo (37 :: u32) = Inr (2 ^ k) \<and> k < 32 \<and> 37 \<le> (2 :: nat) ^ k \<and> 2 ^ k < (74 :: nat))
   \<and> NextPowerOfTwo (0xC0000000 :: u32) = Inl UndefinedBehaviour"
  using NextPowerOfTwo_least [of "37 :: u32"] NextPowerOfTwo_least [of "0xC0000000 :: u32"] by simp_all

end
