(* ===== verification/Buffer_Heap.thy ===== *)
theory Buffer_Heap
  imports Yacul_Prelude
begin

text \<open>
  The store that \<^verbatim>\<open>src/yacul/memory/buffer.h\<close> and \<^verbatim>\<open>buffer.cc\<close> work on, and the operations of
  \<open>PhysicalBuffer\<close> and of single \<open>Buffer\<close> nodes. Sharing and raw links are the point of this
  component, so objects live in an explicit heap: \<open>phys\<close> maps the address of a
  \<open>PhysicalBuffer\<close> to its fields, \<open>bufs\<close> the address of a \<open>Buffer\<close> to its fields, and \<open>mem\<close> a block
  of raw bytes to its contents; \<open>None\<close> is an object that does not live. A pointer is a block and
  an offset, \<open>None\<close> the null pointer. Reading or writing outside a live block, or through a dead
  object, is \<open>UndefinedBehaviour\<close>. A field \<open>x_\<close> of a class is written \<open>x'\<close>.
\<close>

section \<open>Objects\<close>

type_synonym pid = nat
type_synonym bid = nat

text \<open>The bytes behind the header of a \<open>PhysicalBuffer\<close>, or memory of the caller.\<close>

datatype blk = Own pid | Ext nat

type_synonym ptr = "(blk \<times> nat) option"

record physical =
  ref_count' :: nat
  capacity' :: nat
  flags' :: u32
  external_data' :: ptr
  free_fn' :: "nat option"

record buffer =
  physical' :: "pid option"
  data' :: ptr
  length' :: nat
  next' :: bid
  prev' :: bid

text \<open>
  \<open>next_phys\<close> is the address the next \<open>malloc\<close> returns, \<open>malloc_ok\<close> says for which sizes it succeeds,
  \<open>junk\<close> gives the indeterminate contents of fresh memory, and \<open>free_log\<close> records the calls of the
  callers' \<open>free_fn\<close> functions.
\<close>

record heap =
  mem :: "blk \<Rightarrow> u8 list option"
  phys :: "pid \<Rightarrow> physical option"
  bufs :: "bid \<Rightarrow> buffer option"
  free_log :: "(nat \<times> ptr) list"
  next_phys :: nat
  malloc_ok :: "nat \<Rightarrow> bool"
  junk :: "nat \<Rightarrow> nat \<Rightarrow> u8"

section \<open>Memory\<close>

definition ptr_add :: "ptr \<Rightarrow> nat \<Rightarrow> ptr" where
  "ptr_add q n = map_option (\<lambda>(k, i). (k, sz_add i n)) q"

definition ptr_sub :: "ptr \<Rightarrow> nat \<Rightarrow> ptr" where
  "ptr_sub q n = map_option (\<lambda>(k, i). (k, sz_sub i n)) q"

definition ptr_diff :: "ptr \<Rightarrow> ptr \<Rightarrow> nat result" where
  "ptr_diff q r = (case (q, r) of
       (Some (k, i), Some (l, j)) \<Rightarrow> guard_ub (k = l) (Inr (sz_sub i j))
     | (None, None) \<Rightarrow> Inr 0
     | _ \<Rightarrow> Inl UndefinedBehaviour)"

definition load :: "heap \<Rightarrow> ptr \<Rightarrow> nat \<Rightarrow> u8 list result" where
  "load h q n =
     (if n = 0 then Inr []
      else rbind (deref q) (\<lambda>(k, i). rbind (deref (mem h k))
        (\<lambda>bs. guard_ub (i + n \<le> length bs) (Inr (slice bs i n)))))"

text \<open>\<open>memcpy\<close> of the bytes \<open>vs\<close> to \<open>q\<close>.\<close>

definition store :: "ptr \<Rightarrow> u8 list \<Rightarrow> heap \<Rightarrow> heap result" where
  "store q vs h =
     (if vs = [] then Inr h
      else rbind (deref q) (\<lambda>(k, i). rbind (deref (mem h k))
        (\<lambda>bs. guard_ub (i + length vs \<le> length bs)
           (Inr (h\<lparr>mem := (mem h)(k \<mapsto> splice bs i vs)\<rparr>)))))"

section \<open>PhysicalBuffer\<close>

text \<open>The size of the header in the LP64 layout: counter, capacity, flags and two pointers.\<close>

definition sizeof_PhysicalBuffer :: nat where
  "sizeof_PhysicalBuffer = 40"

definition kFlagExternal :: u32 where
  "kFlagExternal = push_bit 0 1"

definition is_external :: "physical \<Rightarrow> bool" where
  "is_external ph \<longleftrightarrow> and (flags' ph) kFlagExternal \<noteq> 0"

definition PhysicalBuffer_Create :: "nat \<Rightarrow> heap \<Rightarrow> (pid \<times> heap) result" where
  "PhysicalBuffer_Create capacity h =
     (let alloc_size = sz_add sizeof_PhysicalBuffer capacity; p = next_phys h
      in check (malloc_ok h alloc_size)
        (guard_ub (sizeof_PhysicalBuffer \<le> alloc_size)
          (Inr (p, h\<lparr>mem := (mem h)(Own p \<mapsto> map (junk h p) [0..<alloc_size - sizeof_PhysicalBuffer]),
                     phys := (phys h)(p \<mapsto> \<lparr>ref_count' = 1, capacity' = capacity,
                        flags' = 0, external_data' = None, free_fn' = None\<rparr>),
                     next_phys := Suc p\<rparr>))))"

definition PhysicalBuffer_CreateExternal ::
  "ptr \<Rightarrow> nat \<Rightarrow> nat option \<Rightarrow> heap \<Rightarrow> (pid \<times> heap) result" where
  "PhysicalBuffer_CreateExternal external_data capacity free_fn h =
     (let p = next_phys h
      in check (malloc_ok h sizeof_PhysicalBuffer)
        (Inr (p, h\<lparr>phys := (phys h)(p \<mapsto> \<lparr>ref_count' = 1, capacity' = capacity,
                      flags' = kFlagExternal, external_data' = external_data, free_fn' = free_fn\<rparr>),
                   next_phys := Suc p\<rparr>)))"

definition Retain :: "pid \<Rightarrow> heap \<Rightarrow> heap result" where
  "Retain p h = rbind (deref (phys h p)) (\<lambda>ph.
     Inr (h\<lparr>phys := (phys h)(p \<mapsto> ph\<lparr>ref_count' := (ref_count' ph + 1) mod 2 ^ 32\<rparr>)\<rparr>))"

text \<open>\<open>free_fn'\<close> gives the external block back to its owner; \<open>free\<close> ends the header (and the bytes
  behind it).\<close>

definition Destroy :: "pid \<Rightarrow> heap \<Rightarrow> heap result" where
  "Destroy p h = rbind (deref (phys h p)) (\<lambda>ph.
     let h1 = (case free_fn' ph of
                 Some f \<Rightarrow> if is_external ph
                   then h\<lparr>free_log := free_log h @ [(f, external_data' ph)],
                          mem := (case external_data' ph of None \<Rightarrow> mem h | Some (k, _) \<Rightarrow> (mem h)(k := None))\<rparr>
                   else h
               | None \<Rightarrow> h)
     in Inr (h1\<lparr>phys := (phys h1)(p := None), mem := (mem h1)(Own p := None)\<rparr>))"

definition Release :: "pid \<Rightarrow> heap \<Rightarrow> (bool \<times> heap) result" where
  "Release p h = rbind (deref (phys h p)) (\<lambda>ph.
     let old = ref_count' ph;
         h1 = h\<lparr>phys := (phys h)(p \<mapsto> ph\<lparr>ref_count' := (old + (2 ^ 32 - 1)) mod 2 ^ 32\<rparr>)\<rparr>
     in if old = 1 then rbind (Destroy p h1) (\<lambda>h2. Inr (True, h2)) else Inr (False, h1))"

definition PhysicalBuffer_is_shared :: "physical \<Rightarrow> bool" where
  "PhysicalBuffer_is_shared ph \<longleftrightarrow> ref_count' ph > 1"

definition buffer_start :: "pid \<Rightarrow> physical \<Rightarrow> ptr" where
  "buffer_start p ph = (if is_external ph then external_data' ph else Some (Own p, 0))"

section \<open>Buffer: fields and ring links\<close>

definition upd_buf :: "bid \<Rightarrow> (buffer \<Rightarrow> buffer) \<Rightarrow> heap \<Rightarrow> heap result" where
  "upd_buf b f h = rbind (deref (bufs h b)) (\<lambda>x. Inr (h\<lparr>bufs := (bufs h)(b \<mapsto> f x)\<rparr>))"

definition MakeSelfRing :: "bid \<Rightarrow> heap \<Rightarrow> heap result" where
  "MakeSelfRing b h = upd_buf b (\<lambda>x. x\<lparr>next' := b, prev' := b\<rparr>) h"

definition UnlinkFromRing :: "bid \<Rightarrow> heap \<Rightarrow> heap result" where
  "UnlinkFromRing b h =
     rbind (deref (bufs h b)) (\<lambda>x.
     rbind (upd_buf (prev' x) (\<lambda>y. y\<lparr>next' := next' x\<rparr>) h) (\<lambda>h1.
     rbind (deref (bufs h1 b)) (\<lambda>x1.
     upd_buf (next' x1) (\<lambda>y. y\<lparr>prev' := prev' x1\<rparr>) h1)))"

definition StealRingPosition :: "bid \<Rightarrow> bid \<Rightarrow> heap \<Rightarrow> heap result" where
  "StealRingPosition b rhs h =
     rbind (deref (bufs h rhs)) (\<lambda>r.
     if next' r = rhs then MakeSelfRing b h
     else rbind (upd_buf b (\<lambda>x. x\<lparr>next' := next' r, prev' := prev' r\<rparr>) h) (\<lambda>h1.
          rbind (upd_buf (next' r) (\<lambda>y. y\<lparr>prev' := b\<rparr>) h1) (\<lambda>h2.
          rbind (deref (bufs h2 b)) (\<lambda>x.
          upd_buf (prev' x) (\<lambda>y. y\<lparr>next' := b\<rparr>) h2))))"

definition ReleasePhysical :: "bid \<Rightarrow> heap \<Rightarrow> heap result" where
  "ReleasePhysical b h =
     rbind (deref (bufs h b)) (\<lambda>x. case physical' x of
       None \<Rightarrow> Inr h
     | Some p \<Rightarrow> rbind (Release p h) (\<lambda>(_, h1). upd_buf b (\<lambda>y. y\<lparr>physical' := None\<rparr>) h1))"

section \<open>Buffer: construction, copy, move, destruction\<close>

text \<open>An object that a function returns by value is built at the address \<open>d\<close> its caller provides.\<close>

definition new_buffer :: "bid \<Rightarrow> buffer \<Rightarrow> heap \<Rightarrow> heap result" where
  "new_buffer d x h = guard_ub (bufs h d = None) (Inr (h\<lparr>bufs := (bufs h)(d \<mapsto> x)\<rparr>))"

definition Buffer_default :: "bid \<Rightarrow> heap \<Rightarrow> heap result" where
  "Buffer_default d h =
     new_buffer d \<lparr>physical' = None, data' = None, length' = 0, next' = d, prev' = d\<rparr> h"

definition Buffer_destroy :: "bid \<Rightarrow> heap \<Rightarrow> heap result" where
  "Buffer_destroy b h =
     rbind (UnlinkFromRing b h) (\<lambda>h1.
     rbind (ReleasePhysical b h1) (\<lambda>h2.
     Inr (h2\<lparr>bufs := (bufs h2)(b := None)\<rparr>)))"

definition retain_if :: "pid option \<Rightarrow> heap \<Rightarrow> heap result" where
  "retain_if p h = (case p of None \<Rightarrow> Inr h | Some q \<Rightarrow> Retain q h)"

definition Buffer_copy :: "bid \<Rightarrow> bid \<Rightarrow> heap \<Rightarrow> heap result" where
  "Buffer_copy d rhs h =
     rbind (deref (bufs h rhs)) (\<lambda>r.
     rbind (new_buffer d \<lparr>physical' = physical' r, data' = data' r, length' = length' r,
                          next' = d, prev' = d\<rparr> h) (\<lambda>h1.
     rbind (retain_if (physical' r) h1) (\<lambda>h2. MakeSelfRing d h2)))"

definition Buffer_copy_assign :: "bid \<Rightarrow> bid \<Rightarrow> heap \<Rightarrow> heap result" where
  "Buffer_copy_assign b rhs h =
     (if b = rhs then Inr h
      else rbind (UnlinkFromRing b h) (\<lambda>h1.
           rbind (ReleasePhysical b h1) (\<lambda>h2.
           rbind (deref (bufs h2 rhs)) (\<lambda>r.
           rbind (upd_buf b (\<lambda>x. x\<lparr>physical' := physical' r, data' := data' r, length' := length' r\<rparr>) h2) (\<lambda>h3.
           rbind (retain_if (physical' r) h3) (\<lambda>h4. MakeSelfRing b h4))))))"

text \<open>What a moved-from node is left with: no view, and a ring of its own.\<close>

definition clear_moved :: "bid \<Rightarrow> heap \<Rightarrow> heap result" where
  "clear_moved rhs h =
     rbind (upd_buf rhs (\<lambda>r. r\<lparr>physical' := None, data' := None, length' := 0\<rparr>) h) (MakeSelfRing rhs)"

definition Buffer_move :: "bid \<Rightarrow> bid \<Rightarrow> heap \<Rightarrow> heap result" where
  "Buffer_move d rhs h =
     rbind (deref (bufs h rhs)) (\<lambda>r.
     rbind (new_buffer d \<lparr>physical' = physical' r, data' = data' r, length' = length' r,
                          next' = d, prev' = d\<rparr> h) (\<lambda>h1.
     rbind (StealRingPosition d rhs h1) (clear_moved rhs)))"

definition Buffer_move_assign :: "bid \<Rightarrow> bid \<Rightarrow> heap \<Rightarrow> heap result" where
  "Buffer_move_assign b rhs h =
     (if b = rhs then Inr h
      else rbind (UnlinkFromRing b h) (\<lambda>h1.
           rbind (ReleasePhysical b h1) (\<lambda>h2.
           rbind (deref (bufs h2 rhs)) (\<lambda>r.
           rbind (upd_buf b (\<lambda>x. x\<lparr>physical' := physical' r, data' := data' r, length' := length' r\<rparr>) h2) (\<lambda>h3.
           rbind (StealRingPosition b rhs h3) (clear_moved rhs))))))"

end
