(* ===== verification/Buffer_Node.thy ===== *)
theory Buffer_Node
  imports Buffer_Heap
begin

text \<open>
  Single \<open>Buffer\<close> nodes (\<^verbatim>\<open>src/yacul/memory/buffer.h\<close>, \<^verbatim>\<open>buffer.cc\<close>): the factories, the observers,
  the copy-on-write helpers and the operations that change the view or the bytes of one node.
\<close>

section \<open>Factories\<close>

definition Buffer_Create :: "bid \<Rightarrow> nat \<Rightarrow> heap \<Rightarrow> heap result" where
  "Buffer_Create d capacity h =
     rbind (Buffer_default d h) (\<lambda>h1.
     rbind (PhysicalBuffer_Create capacity h1) (\<lambda>(p, h2).
     rbind (deref (phys h2 p)) (\<lambda>ph.
     upd_buf d (\<lambda>x. x\<lparr>physical' := Some p, data' := buffer_start p ph, length' := 0\<rparr>) h2)))"

definition Buffer_CopyFrom :: "bid \<Rightarrow> u8 list \<Rightarrow> heap \<Rightarrow> heap result" where
  "Buffer_CopyFrom d src h =
     rbind (Buffer_Create d (length src) h) (\<lambda>h1.
     if length src \<noteq> 0
     then rbind (deref (bufs h1 d)) (\<lambda>x.
          rbind (deref (physical' x)) (\<lambda>p.
          rbind (deref (phys h1 p)) (\<lambda>ph.
          rbind (store (buffer_start p ph) src h1) (\<lambda>h2.
          upd_buf d (\<lambda>y. y\<lparr>length' := length src\<rparr>) h2))))
     else Inr h1)"

definition Buffer_WrapExternal :: "bid \<Rightarrow> ptr \<Rightarrow> nat \<Rightarrow> nat option \<Rightarrow> heap \<Rightarrow> heap result" where
  "Buffer_WrapExternal d q n free_fn h =
     rbind (Buffer_default d h) (\<lambda>h1.
     rbind (PhysicalBuffer_CreateExternal q n free_fn h1) (\<lambda>(p, h2).
     upd_buf d (\<lambda>x. x\<lparr>physical' := Some p, data' := q, length' := n\<rparr>) h2))"

section \<open>Observers\<close>

definition headroom :: "bid \<Rightarrow> heap \<Rightarrow> nat result" where
  "headroom b h = rbind (deref (bufs h b)) (\<lambda>x. case physical' x of
       None \<Rightarrow> Inr 0
     | Some p \<Rightarrow> rbind (deref (phys h p)) (\<lambda>ph. ptr_diff (data' x) (buffer_start p ph)))"

definition tailroom :: "bid \<Rightarrow> heap \<Rightarrow> nat result" where
  "tailroom b h = rbind (deref (bufs h b)) (\<lambda>x. case physical' x of
       None \<Rightarrow> Inr 0
     | Some p \<Rightarrow> rbind (deref (phys h p)) (\<lambda>ph. rbind (headroom b h) (\<lambda>head.
         Inr (sz_sub (sz_sub (capacity' ph) head) (length' x)))))"

definition Buffer_capacity :: "bid \<Rightarrow> heap \<Rightarrow> nat result" where
  "Buffer_capacity b h = rbind (deref (bufs h b)) (\<lambda>x. case physical' x of
       None \<Rightarrow> Inr 0
     | Some p \<Rightarrow> rbind (deref (phys h p)) (\<lambda>ph. Inr (capacity' ph)))"

definition Buffer_is_shared :: "bid \<Rightarrow> heap \<Rightarrow> bool result" where
  "Buffer_is_shared b h = rbind (deref (bufs h b)) (\<lambda>x. case physical' x of
       None \<Rightarrow> Inr False
     | Some p \<Rightarrow> rbind (deref (phys h p)) (\<lambda>ph. Inr (PhysicalBuffer_is_shared ph)))"

definition Buffer_ToString :: "bid \<Rightarrow> heap \<Rightarrow> u8 list result" where
  "Buffer_ToString b h = rbind (deref (bufs h b)) (\<lambda>x. load h (data' x) (length' x))"

definition Buffer_equal :: "bid \<Rightarrow> bid \<Rightarrow> heap \<Rightarrow> bool result" where
  "Buffer_equal b rhs h = rbind (deref (bufs h b)) (\<lambda>x. rbind (deref (bufs h rhs)) (\<lambda>r.
     if length' x \<noteq> length' r then Inr False
     else if data' x = data' r then Inr True
     else rbind (load h (data' x) (length' x)) (\<lambda>s. rbind (load h (data' r) (length' x)) (\<lambda>t.
       Inr (s = t)))))"

section \<open>Copy on write\<close>

text \<open>
  The common tail of \<open>CowDetach\<close> and \<open>EnsureTailroom\<close>: allocate a new \<open>PhysicalBuffer\<close>, copy the view
  to the same distance \<open>head\<close> from its start, drop the old one.
\<close>

definition reseat :: "nat \<Rightarrow> nat \<Rightarrow> bid \<Rightarrow> heap \<Rightarrow> heap result" where
  "reseat cap head b h =
     rbind (PhysicalBuffer_Create cap h) (\<lambda>(np, h1).
     rbind (deref (phys h1 np)) (\<lambda>nph.
     let new_start = ptr_add (buffer_start np nph) head in
     rbind (deref (bufs h1 b)) (\<lambda>x.
     rbind (if length' x \<noteq> 0
            then rbind (load h1 (data' x) (length' x)) (\<lambda>bs. store new_start bs h1)
            else Inr h1) (\<lambda>h2.
     rbind (ReleasePhysical b h2) (\<lambda>h3.
     upd_buf b (\<lambda>y. y\<lparr>physical' := Some np, data' := new_start\<rparr>) h3)))))"

definition CowDetach :: "bid \<Rightarrow> heap \<Rightarrow> heap result" where
  "CowDetach b h =
     rbind (deref (bufs h b)) (\<lambda>x. case physical' x of
       None \<Rightarrow> Inr h
     | Some p \<Rightarrow> rbind (deref (phys h p)) (\<lambda>ph.
         if \<not> PhysicalBuffer_is_shared ph then Inr h
         else rbind (headroom b h) (\<lambda>head. reseat (capacity' ph) head b h)))"

definition writable_data :: "bid \<Rightarrow> heap \<Rightarrow> (ptr \<times> heap) result" where
  "writable_data b h =
     rbind (CowDetach b h) (\<lambda>h1. rbind (deref (bufs h1 b)) (\<lambda>x. Inr (data' x, h1)))"

definition EnsureTailroom :: "nat \<Rightarrow> bid \<Rightarrow> heap \<Rightarrow> heap result" where
  "EnsureTailroom n b h =
     rbind (deref (bufs h b)) (\<lambda>x.
     rbind (Buffer_is_shared b h) (\<lambda>sh.
     rbind (if sh then Inr False else rbind (tailroom b h) (\<lambda>t. Inr (t \<ge> n))) (\<lambda>fits.
     if fits then Inr h
     else rbind (headroom b h) (\<lambda>current_head.
       let want = sz_add (length' x) n;
           new_cap = max want (sz_add (sz_mul want 3 div 2) 64)
       in reseat new_cap current_head b h))))"

definition Reserve :: "nat \<Rightarrow> bid \<Rightarrow> heap \<Rightarrow> heap result" where
  "Reserve new_capacity b h =
     rbind (deref (bufs h b)) (\<lambda>x.
     rbind (Buffer_capacity b h) (\<lambda>c.
     rbind (if c \<ge> new_capacity then rbind (Buffer_is_shared b h) (\<lambda>s. Inr (\<not> s)) else Inr False) (\<lambda>ok.
     if ok then Inr h
     else EnsureTailroom (if new_capacity > length' x then sz_sub new_capacity (length' x) else 0) b h)))"

section \<open>Changing the view\<close>

definition TrimStart :: "nat \<Rightarrow> bid \<Rightarrow> heap \<Rightarrow> heap result" where
  "TrimStart n b h = rbind (deref (bufs h b)) (\<lambda>x. check (n \<le> length' x)
     (upd_buf b (\<lambda>y. y\<lparr>data' := ptr_add (data' y) n, length' := sz_sub (length' y) n\<rparr>) h))"

definition TrimEnd :: "nat \<Rightarrow> bid \<Rightarrow> heap \<Rightarrow> heap result" where
  "TrimEnd n b h = rbind (deref (bufs h b)) (\<lambda>x. check (n \<le> length' x)
     (upd_buf b (\<lambda>y. y\<lparr>length' := sz_sub (length' y) n\<rparr>) h))"

definition Prepend :: "nat \<Rightarrow> bid \<Rightarrow> heap \<Rightarrow> heap result" where
  "Prepend n b h = rbind (headroom b h) (\<lambda>r. check (n \<le> r)
     (upd_buf b (\<lambda>y. y\<lparr>data' := ptr_sub (data' y) n, length' := sz_add (length' y) n\<rparr>) h))"

definition Append :: "nat \<Rightarrow> bid \<Rightarrow> heap \<Rightarrow> heap result" where
  "Append n b h = rbind (tailroom b h) (\<lambda>r. check (n \<le> r)
     (upd_buf b (\<lambda>y. y\<lparr>length' := sz_add (length' y) n\<rparr>) h))"

definition AppendData :: "u8 list \<Rightarrow> bid \<Rightarrow> heap \<Rightarrow> heap result" where
  "AppendData src b h =
     rbind (EnsureTailroom (length src) b h) (\<lambda>h1.
     rbind (deref (bufs h1 b)) (\<lambda>x.
     rbind (store (ptr_add (data' x) (length' x)) src h1) (\<lambda>h2.
     upd_buf b (\<lambda>y. y\<lparr>length' := sz_add (length' y) (length src)\<rparr>) h2)))"

definition Slice :: "nat \<Rightarrow> nat \<Rightarrow> bid \<Rightarrow> bid \<Rightarrow> heap \<Rightarrow> heap result" where
  "Slice offset n b d h =
     rbind (deref (bufs h b)) (\<lambda>x. check (sz_add offset n \<le> length' x)
       (rbind (Buffer_default d h) (\<lambda>h1.
        rbind (upd_buf d (\<lambda>y. y\<lparr>physical' := physical' x, data' := ptr_add (data' x) offset,
                              length' := n\<rparr>) h1) (\<lambda>h2.
        retain_if (physical' x) h2))))"

definition Slice_from :: "nat \<Rightarrow> bid \<Rightarrow> bid \<Rightarrow> heap \<Rightarrow> heap result" where
  "Slice_from offset b d h =
     rbind (deref (bufs h b)) (\<lambda>x. Slice offset (sz_sub (length' x) offset) b d h)"

definition Clone :: "bid \<Rightarrow> bid \<Rightarrow> heap \<Rightarrow> heap result" where
  "Clone b d h =
     rbind (deref (bufs h b)) (\<lambda>x.
     if physical' x = None \<or> length' x = 0 then Buffer_default d h
     else rbind (load h (data' x) (length' x)) (\<lambda>bs. Buffer_CopyFrom d bs h))"

end
