(* ===== verification/Buffer_Invariant.thy ===== *)
theory Buffer_Invariant
  imports Buffer_Node
begin

text \<open>
  The invariant of the buffer heap and how the primitive steps keep it: every view lies inside
  its live \<open>PhysicalBuffer\<close>, every reference count is the number of views (plus the references
  that a running operation holds and has not attached yet), different \<open>PhysicalBuffer\<close>s own
  different blocks.
\<close>

section \<open>Definitions\<close>

definition views :: "heap \<Rightarrow> pid \<Rightarrow> bid set" where
  "views h p = {b. \<exists>x. bufs h b = Some x \<and> physical' x = Some p}"

definition block :: "pid \<Rightarrow> physical \<Rightarrow> blk option" where
  "block p ph = map_option fst (buffer_start p ph)"

definition block_ok :: "heap \<Rightarrow> pid \<Rightarrow> physical \<Rightarrow> bool" where
  "block_ok h p ph \<longleftrightarrow> (\<exists>k s bs. buffer_start p ph = Some (k, s) \<and> mem h k = Some bs
     \<and> s + capacity' ph \<le> length bs \<and> length bs < 2 ^ 64 \<and> (k = Own p \<or> (\<exists>e. k = Ext e)))"

definition view_in :: "heap \<Rightarrow> buffer \<Rightarrow> pid \<Rightarrow> bool" where
  "view_in h x p \<longleftrightarrow> (\<exists>ph k s i. phys h p = Some ph \<and> buffer_start p ph = Some (k, s)
     \<and> data' x = Some (k, i) \<and> s \<le> i \<and> i + length' x \<le> s + capacity' ph)"

definition wf_pend :: "(pid \<Rightarrow> nat) \<Rightarrow> heap \<Rightarrow> bool" where
  "wf_pend e h \<longleftrightarrow>
     finite (dom (bufs h)) \<and>
     (\<forall>p ph. phys h p = Some ph \<longrightarrow> ref_count' ph = card (views h p) + e p \<and> 0 < ref_count' ph
        \<and> ref_count' ph < 2 ^ 32 \<and> p < next_phys h \<and> block_ok h p ph) \<and>
     (\<forall>p. phys h p = None \<longrightarrow> e p = 0) \<and>
     (\<forall>b x p. bufs h b = Some x \<longrightarrow> physical' x = Some p \<longrightarrow> view_in h x p) \<and>
     (\<forall>p q ph qh. phys h p = Some ph \<longrightarrow> phys h q = Some qh \<longrightarrow> block p ph = block q qh \<longrightarrow> p = q)"

text \<open>Between operations no reference is pending, and a node without storage shows no bytes.\<close>

definition wf_views :: "heap \<Rightarrow> bool" where
  "wf_views h \<longleftrightarrow> wf_pend (\<lambda>_. 0) h \<and>
     (\<forall>b x. bufs h b = Some x \<longrightarrow> physical' x = None \<longrightarrow> data' x = None \<and> length' x = 0)"

text \<open>The bytes a live node shows.\<close>

definition content :: "heap \<Rightarrow> bid \<Rightarrow> u8 list" where
  "content h b = (case Buffer_ToString b h of Inl _ \<Rightarrow> [] | Inr bs \<Rightarrow> bs)"

section \<open>Reading the invariant\<close>

lemma is_external_ref_count [simp]: "is_external (ph\<lparr>ref_count' := n\<rparr>) = is_external ph"
  by (simp add: is_external_def)

lemma buffer_start_ref_count [simp]: "buffer_start p (ph\<lparr>ref_count' := n\<rparr>) = buffer_start p ph"
  by (simp add: buffer_start_def is_external_def)

lemma block_ref_count [simp]: "block p (ph\<lparr>ref_count' := n\<rparr>) = block p ph"
  by (simp add: block_def)

lemma views_update [simp]:
  "views (h\<lparr>mem := m\<rparr>) p = views h p"
  "views (h\<lparr>phys := f\<rparr>) p = views h p"
  "views (h\<lparr>next_phys := n\<rparr>) p = views h p"
  "views (h\<lparr>free_log := l\<rparr>) p = views h p"
  by (simp_all add: views_def)

lemma wf_pendI:
  assumes "finite (dom (bufs h))"
    and "\<And>p ph. phys h p = Some ph \<Longrightarrow> ref_count' ph = card (views h p) + e p"
    and "\<And>p ph. phys h p = Some ph \<Longrightarrow> 0 < ref_count' ph \<and> ref_count' ph < 2 ^ 32"
    and "\<And>p ph. phys h p = Some ph \<Longrightarrow> p < next_phys h"
    and "\<And>p ph. phys h p = Some ph \<Longrightarrow> block_ok h p ph"
    and "\<And>p. phys h p = None \<Longrightarrow> e p = 0"
    and "\<And>b x p. bufs h b = Some x \<Longrightarrow> physical' x = Some p \<Longrightarrow> view_in h x p"
    and "\<And>p q ph qh. phys h p = Some ph \<Longrightarrow> phys h q = Some qh \<Longrightarrow> block p ph = block q qh \<Longrightarrow> p = q"
  shows "wf_pend e h"
  using assms unfolding wf_pend_def by blast

lemma wf_pendD:
  assumes "wf_pend e h"
  shows "finite (dom (bufs h))"
    and "phys h p = Some ph \<Longrightarrow> ref_count' ph = card (views h p) + e p"
    and "phys h p = Some ph \<Longrightarrow> 0 < ref_count' ph \<and> ref_count' ph < 2 ^ 32"
    and "phys h p = Some ph \<Longrightarrow> p < next_phys h"
    and "phys h p = Some ph \<Longrightarrow> block_ok h p ph"
    and "phys h p = None \<Longrightarrow> e p = 0"
    and "bufs h b = Some x \<Longrightarrow> physical' x = Some p \<Longrightarrow> view_in h x p"
    and "phys h p = Some ph \<Longrightarrow> phys h q = Some qh \<Longrightarrow> block p ph = block q qh \<Longrightarrow> p = q"
  using assms unfolding wf_pend_def by blast+

lemma finite_views: "finite (dom (bufs h)) \<Longrightarrow> finite (views h p)"
  by (rule finite_subset [of _ "dom (bufs h)"]) (auto simp: views_def)

text \<open>A view, its storage and the bytes it shows.\<close>

lemma view_bytes:
  assumes "wf_pend e h" "bufs h b = Some x" "physical' x = Some p"
  obtains ph k s i bs where "phys h p = Some ph" "buffer_start p ph = Some (k, s)"
    "data' x = Some (k, i)" "s \<le> i" "i + length' x \<le> s + capacity' ph" "mem h k = Some bs"
    "s + capacity' ph \<le> length bs" "length bs < 2 ^ 64" "content h b = slice bs i (length' x)"
    "Buffer_ToString b h = Inr (slice bs i (length' x))" "k = Own p \<or> (\<exists>e. k = Ext e)"
proof -
  obtain ph k s i where v: "phys h p = Some ph" "buffer_start p ph = Some (k, s)"
    "data' x = Some (k, i)" "s \<le> i" "i + length' x \<le> s + capacity' ph"
    using wf_pendD(7) [OF assms] unfolding view_in_def by blast
  obtain bs where m: "mem h k = Some bs" "s + capacity' ph \<le> length bs" "length bs < 2 ^ 64"
    "k = Own p \<or> (\<exists>e. k = Ext e)"
    using wf_pendD(5) [OF assms(1) v(1)] v(2) unfolding block_ok_def by auto
  have "Buffer_ToString b h = Inr (slice bs i (length' x))"
    using assms(2) v m by (simp add: Buffer_ToString_def load_def)
  with v m that show thesis by (simp add: content_def)
qed

lemma content_same:
  assumes "map_option (\<lambda>x. (data' x, length' x)) (bufs h' b) = map_option (\<lambda>x. (data' x, length' x)) (bufs h b)"
    and "\<And>x k i. bufs h b = Some x \<Longrightarrow> data' x = Some (k, i) \<Longrightarrow> mem h' k = mem h k"
  shows "content h' b = content h b"
  using assms
  by (cases "bufs h b"; cases "bufs h' b")
    (auto simp: content_def Buffer_ToString_def load_def deref_def split: option.splits)

section \<open>Primitive steps\<close>

lemma Create_spec:
  assumes wf: "wf_pend e h" and small: "sizeof_PhysicalBuffer + cap < 2 ^ 64"
    and ok: "malloc_ok h (sizeof_PhysicalBuffer + cap)"
  shows "\<exists>h'. PhysicalBuffer_Create cap h = Inr (next_phys h, h') \<and> wf_pend (e(next_phys h := 1)) h'
     \<and> bufs h' = bufs h \<and> phys h (next_phys h) = None
     \<and> phys h' = (phys h)(next_phys h \<mapsto> \<lparr>ref_count' = 1, capacity' = cap, flags' = 0,
                            external_data' = None, free_fn' = None\<rparr>)
     \<and> mem h' = (mem h)(Own (next_phys h) \<mapsto> map (junk h (next_phys h)) [0..<cap])
     \<and> free_log h' = free_log h \<and> malloc_ok h' = malloc_ok h"
proof -
  let ?p = "next_phys h"
  let ?ph = "\<lparr>ref_count' = 1, capacity' = cap, flags' = 0, external_data' = None, free_fn' = None\<rparr> :: physical"
  let ?h = "h\<lparr>mem := (mem h)(Own ?p \<mapsto> map (junk h ?p) [0..<cap]), phys := (phys h)(?p \<mapsto> ?ph),
             next_phys := Suc ?p\<rparr>"
  have new: "phys h ?p = None" using wf_pendD(4) [OF wf] by (metis less_irrefl not_None_eq)
  have e0: "e ?p = 0" using wf_pendD(6) [OF wf new] .
  have start: "buffer_start ?p ?ph = Some (Own ?p, 0)" by (simp add: buffer_start_def is_external_def)
  have none: "views h ?p = {}"
    using wf_pendD(7) [OF wf] new by (fastforce simp: views_def view_in_def)
  have own: "k \<noteq> Own ?p" if "phys h p = Some ph" "buffer_start p ph = Some (k, s)" for p ph k s
    using wf_pendD(4,5) [OF wf that(1)] that(2) by (auto simp: block_ok_def)
  have "wf_pend (e(?p := 1)) ?h"
  proof (rule wf_pendI)
    fix p ph assume a: "phys ?h p = Some ph"
    show "ref_count' ph = card (views ?h p) + (e(?p := 1)) p" "0 < ref_count' ph \<and> ref_count' ph < 2 ^ 32" "p < next_phys ?h"
      using a wf_pendD(2-4) [OF wf, of p ph] none by (auto split: if_splits)
    show "block_ok ?h p ph"
    proof (cases "p = ?p")
      case True
      with a start small show ?thesis by (auto simp: block_ok_def)
    next
      case False
      with a have "phys h p = Some ph" by simp
      with wf_pendD(5) [OF wf this] own [OF this] show ?thesis by (auto simp: block_ok_def)
    qed
  next
    fix b x p assume "bufs ?h b = Some x" "physical' x = Some p"
    then have "view_in h x p" using wf_pendD(7) [OF wf] by simp
    with new show "view_in ?h x p" by (auto simp: view_in_def)
  next
    fix p q ph qh assume a: "phys ?h p = Some ph" "phys ?h q = Some qh" "block p ph = block q qh"
    have ne: "block r rh \<noteq> block ?p ?ph" if "phys h r = Some rh" for r rh
      using own [OF that] start by (auto simp: block_def)
    show "p = q"
      using a wf_pendD(8) [OF wf, of p ph q qh] ne [of p ph] ne [of q qh] by (simp split: if_splits)
  qed (use wf_pendD(1,6) [OF wf] in \<open>auto split: if_splits\<close>)
  moreover have "sz_add sizeof_PhysicalBuffer cap = sizeof_PhysicalBuffer + cap"
    using small by (rule sz_add_eq)
  ultimately show ?thesis using ok new by (simp add: PhysicalBuffer_Create_def Let_def)
qed


lemma Retain_spec:
  assumes wf: "wf_pend e h" and p: "phys h p = Some ph" and small: "ref_count' ph + 1 < 2 ^ 32"
  shows "Retain p h = Inr (h\<lparr>phys := (phys h)(p \<mapsto> ph\<lparr>ref_count' := ref_count' ph + 1\<rparr>)\<rparr>)"
    and "wf_pend (e(p := Suc (e p))) (h\<lparr>phys := (phys h)(p \<mapsto> ph\<lparr>ref_count' := ref_count' ph + 1\<rparr>)\<rparr>)"
      (is "wf_pend _ ?h")
proof -
  show "Retain p h = Inr ?h" using p small by (simp add: Retain_def)
  have keep: "\<exists>rh. phys h r = Some rh \<and> buffer_start r qh = buffer_start r rh \<and> capacity' qh = capacity' rh
      \<and> ref_count' qh = (if r = p then ref_count' rh + 1 else ref_count' rh)"
    if "phys ?h r = Some qh" for r qh
    using that p by (auto split: if_splits)
  show "wf_pend (e(p := Suc (e p))) ?h"
  proof (rule wf_pendI)
    fix r rh assume a: "phys ?h r = Some rh"
    from keep [OF a] wf_pendD(2-4) [OF wf] small p
    show "ref_count' rh = card (views ?h r) + (e(p := Suc (e p))) r"
      "0 < ref_count' rh \<and> ref_count' rh < 2 ^ 32" "r < next_phys ?h"
      by (auto split: if_splits)
    from keep [OF a] wf_pendD(5) [OF wf] show "block_ok ?h r rh"
      by (auto simp: block_ok_def)
  next
    fix b x r assume "bufs ?h b = Some x" "physical' x = Some r"
    then have "view_in h x r" using wf_pendD(7) [OF wf] by simp
    with p show "view_in ?h x r" by (auto simp: view_in_def)
  next
    fix r q rh qh assume a: "phys ?h r = Some rh" "phys ?h q = Some qh" "block r rh = block q qh"
    from keep [OF a(1)] keep [OF a(2)] a(3) wf_pendD(8) [OF wf] show "r = q"
      by (auto simp: block_def)
  qed (use wf_pendD(1,6) [OF wf] p in \<open>auto split: if_splits\<close>)
qed

lemma views_upd_bufs:
  "views (h\<lparr>bufs := (bufs h)(b := y)\<rparr>) p =
     (if Option.bind y physical' = Some p then insert b (views h p) else views h p - {b})"
  by (cases y) (auto simp: views_def split: if_splits)

text \<open>One rule for every step that writes, creates or deletes a node.\<close>

lemma wf_pend_upd_bufs:
  assumes wf: "wf_pend e h"
    and view: "\<And>x p. y = Some x \<Longrightarrow> physical' x = Some p \<Longrightarrow> view_in h x p"
    and count: "\<And>p ph. phys h p = Some ph \<Longrightarrow>
       card (views (h\<lparr>bufs := (bufs h)(b := y)\<rparr>) p) + e' p = card (views h p) + e p"
    and none: "\<And>p. phys h p = None \<Longrightarrow> e' p = 0"
  shows "wf_pend e' (h\<lparr>bufs := (bufs h)(b := y)\<rparr>)" (is "wf_pend _ ?h")
proof (rule wf_pendI)
  have sub: "dom (bufs ?h) \<subseteq> insert b (dom (bufs h))" by (auto split: if_splits)
  then show "finite (dom (bufs ?h))" using wf_pendD(1) [OF wf] by (simp add: finite_subset)
next
  fix c x p assume "bufs ?h c = Some x" "physical' x = Some p"
  then have "view_in h x p" using view wf_pendD(7) [OF wf] by (auto split: if_splits)
  then show "view_in ?h x p" by (simp add: view_in_def)
next
  fix p ph assume a: "phys ?h p = Some ph"
  then show "ref_count' ph = card (views ?h p) + e' p"
    using count [of p ph] wf_pendD(2) [OF wf, of p ph] by simp
  show "block_ok ?h p ph" using wf_pendD(5) [OF wf, of p ph] a by (simp add: block_ok_def)
qed (use wf_pendD(3,4,6,8) [OF wf] none in auto)

lemma wf_pend_attach:
  assumes wf: "wf_pend e h" and e: "0 < e p" and x: "physical' x = Some p" "view_in h x p"
    and free: "Option.bind (bufs h d) physical' = None"
  shows "wf_pend (e(p := e p - 1)) (h\<lparr>bufs := (bufs h)(d \<mapsto> x)\<rparr>)"
proof (rule wf_pend_upd_bufs [OF wf])
  fix r rh assume "phys h r = Some rh"
  have "d \<notin> views h r" using free by (auto simp: views_def)
  then show "card (views (h\<lparr>bufs := (bufs h)(d \<mapsto> x)\<rparr>) r) + (e(p := e p - 1)) r = card (views h r) + e r"
    using x(1) e finite_views [OF wf_pendD(1) [OF wf], of r] by (cases "r = p") (auto simp: views_upd_bufs)
qed (use x wf_pendD(6) [OF wf] e in auto)

lemma wf_pend_detach:
  assumes wf: "wf_pend e h" and b: "bufs h b = Some x" "physical' x = Some p"
    and y: "Option.bind y physical' = None"
  shows "wf_pend (e(p := Suc (e p))) (h\<lparr>bufs := (bufs h)(b := y)\<rparr>)"
proof (rule wf_pend_upd_bufs [OF wf])
  fix r rh assume "phys h r = Some rh"
  have "b \<in> views h r \<longleftrightarrow> r = p" using b by (auto simp: views_def)
  then show "card (views (h\<lparr>bufs := (bufs h)(b := y)\<rparr>) r) + (e(p := Suc (e p))) r = card (views h r) + e r"
    using y card_Suc_Diff1 [OF finite_views [OF wf_pendD(1) [OF wf]], of b p]
    by (cases "r = p") (simp_all add: views_upd_bufs)
next
  fix r assume "phys h r = None"
  moreover have "phys h p \<noteq> None" using wf_pendD(7) [OF wf b] by (auto simp: view_in_def)
  ultimately show "(e(p := Suc (e p))) r = 0" using wf_pendD(6) [OF wf] by auto
qed (use y in auto)

text \<open>A step that keeps which storage the node points to.\<close>

lemma wf_pend_same_phys:
  assumes wf: "wf_pend e h" and same: "Option.bind y physical' = Option.bind (bufs h b) physical'"
    and view: "\<And>x p. y = Some x \<Longrightarrow> physical' x = Some p \<Longrightarrow> view_in h x p"
  shows "wf_pend e (h\<lparr>bufs := (bufs h)(b := y)\<rparr>)"
proof (rule wf_pend_upd_bufs [OF wf view])
  fix r rh assume "phys h r = Some rh"
  have "b \<in> views h r \<longleftrightarrow> Option.bind (bufs h b) physical' = Some r"
    by (cases "bufs h b") (auto simp: views_def)
  then have "views (h\<lparr>bufs := (bufs h)(b := y)\<rparr>) r = views h r"
    using same by (auto simp: views_upd_bufs)
  then show "card (views (h\<lparr>bufs := (bufs h)(b := y)\<rparr>) r) + e r = card (views h r) + e r" by simp
qed (use wf_pendD(6) [OF wf] in auto)


text \<open>The calls of \<open>free_fn_\<close> that the end of a \<open>PhysicalBuffer\<close> makes.\<close>

definition free_calls :: "physical \<Rightarrow> (nat \<times> ptr) list" where
  "free_calls ph = (case free_fn' ph of
     Some f \<Rightarrow> if is_external ph then [(f, external_data' ph)] else [] | None \<Rightarrow> [])"

lemma Release_shared:
  assumes wf: "wf_pend e h" and p: "phys h p = Some ph" and e: "0 < e p" and r: "ref_count' ph \<noteq> 1"
  defines "h' \<equiv> h\<lparr>phys := (phys h)(p \<mapsto> ph\<lparr>ref_count' := ref_count' ph - 1\<rparr>)\<rparr>"
  shows "Release p h = Inr (False, h')" and "wf_pend (e(p := e p - 1)) h'"
proof -
  have rc: "1 < ref_count' ph" "ref_count' ph < 2 ^ 32" using wf_pendD(3) [OF wf p] r by auto
  then have "(ref_count' ph + (2 ^ 32 - 1)) mod 2 ^ 32 = ref_count' ph - 1"
    by (intro dec_u32) auto
  then show "Release p h = Inr (False, h')"
    using p r by (simp add: Release_def Let_def h'_def)
  have keep: "\<exists>rh. phys h q = Some rh \<and> buffer_start q qh = buffer_start q rh \<and> capacity' qh = capacity' rh
      \<and> ref_count' qh = (if q = p then ref_count' rh - 1 else ref_count' rh)"
    if "phys h' q = Some qh" for q qh
    using that p by (auto simp: h'_def split: if_splits)
  show "wf_pend (e(p := e p - 1)) h'"
  proof (rule wf_pendI)
    fix q qh assume a: "phys h' q = Some qh"
    from keep [OF a] obtain rh where rh: "phys h q = Some rh"
      "ref_count' qh = (if q = p then ref_count' rh - 1 else ref_count' rh)" by blast
    from rh wf_pendD(2-4) [OF wf rh(1)] rc p e
    show "ref_count' qh = card (views h' q) + (e(p := e p - 1)) q"
      "0 < ref_count' qh \<and> ref_count' qh < 2 ^ 32" "q < next_phys h'"
      by (auto simp: h'_def split: if_splits)
    from keep [OF a] wf_pendD(5) [OF wf] show "block_ok h' q qh"
      by (auto simp: block_ok_def h'_def)
  next
    fix b x q assume "bufs h' b = Some x" "physical' x = Some q"
    then have "view_in h x q" using wf_pendD(7) [OF wf] by (simp add: h'_def)
    with p show "view_in h' x q" by (auto simp: view_in_def h'_def)
  next
    fix r q rh qh assume a: "phys h' r = Some rh" "phys h' q = Some qh" "block r rh = block q qh"
    from keep [OF a(1)] keep [OF a(2)] a(3) wf_pendD(8) [OF wf] show "r = q"
      by (auto simp: block_def)
  qed (use wf_pendD(1,6) [OF wf] p in \<open>auto simp: h'_def split: if_splits\<close>)
qed


lemma Release_last:
  assumes wf: "wf_pend e h" and p: "phys h p = Some ph" and e: "0 < e p" and r: "ref_count' ph = 1"
  shows "\<exists>h'. Release p h = Inr (True, h') \<and> wf_pend (e(p := e p - 1)) h'
     \<and> bufs h' = bufs h \<and> next_phys h' = next_phys h \<and> malloc_ok h' = malloc_ok h
     \<and> phys h' = (phys h)(p := None) \<and> free_log h' = free_log h @ free_calls ph
     \<and> (\<forall>q qh k. q \<noteq> p \<longrightarrow> phys h q = Some qh \<longrightarrow> block q qh = Some k \<longrightarrow> mem h' k = mem h k)"
proof -
  have cv: "card (views h p) = 0" "e p = 1" using wf_pendD(2) [OF wf p] r e by auto
  then have none: "views h p = {}" using finite_views [OF wf_pendD(1) [OF wf]] by simp
  have "\<exists>h'. Release p h = Inr (True, h') \<and> bufs h' = bufs h \<and> next_phys h' = next_phys h
      \<and> malloc_ok h' = malloc_ok h \<and> phys h' = (phys h)(p := None)
      \<and> free_log h' = free_log h @ free_calls ph
      \<and> (\<forall>k. k \<noteq> Own p \<longrightarrow> block p ph \<noteq> Some k \<longrightarrow> mem h' k = mem h k)"
    using p r
    by (auto simp: Release_def Destroy_def Let_def free_calls_def block_def buffer_start_def
        split: option.splits prod.splits)
  then obtain h' where rel: "Release p h = Inr (True, h')"
    and h': "bufs h' = bufs h" "next_phys h' = next_phys h" "malloc_ok h' = malloc_ok h"
      "phys h' = (phys h)(p := None)" "free_log h' = free_log h @ free_calls ph"
    and m: "\<And>k. k \<noteq> Own p \<Longrightarrow> block p ph \<noteq> Some k \<Longrightarrow> mem h' k = mem h k" by blast
  have vw: "views h' q = views h q" for q by (simp add: views_def h'(1))
  have other: "mem h' k = mem h k" if "q \<noteq> p" "phys h q = Some qh" "block q qh = Some k" for q qh k
  proof (rule m)
    show "k \<noteq> Own p"
      using wf_pendD(5) [OF wf that(2)] that(1,3) by (auto simp: block_ok_def block_def)
    show "block p ph \<noteq> Some k" using wf_pendD(8) [OF wf p that(2)] that(1,3) by auto
  qed
  have "wf_pend (e(p := e p - 1)) h'"
  proof (rule wf_pendI)
    fix q qh assume a: "phys h' q = Some qh"
    then have q: "q \<noteq> p" "phys h q = Some qh" by (auto simp: h' split: if_splits)
    from q wf_pendD(2-4) [OF wf q(2)]
    show "ref_count' qh = card (views h' q) + (e(p := e p - 1)) q"
      "0 < ref_count' qh \<and> ref_count' qh < 2 ^ 32" "q < next_phys h'" by (auto simp: vw h')
    from wf_pendD(5) [OF wf q(2)] other [OF q] show "block_ok h' q qh"
      by (auto simp: block_ok_def block_def)
  next
    fix b x q assume a: "bufs h' b = Some x" "physical' x = Some q"
    then have "q \<noteq> p" using none by (auto simp: views_def h')
    with wf_pendD(7) [OF wf, of b x q] a show "view_in h' x q" by (simp add: view_in_def h')
  qed (use wf_pendD(1,6,8) [OF wf] cv in \<open>auto simp: h' split: if_splits\<close>)
  with rel other h' show ?thesis by auto
qed


section \<open>Releasing the storage of a node\<close>

lemma ReleasePhysical_spec:
  assumes wf: "wf_pend e h" and b: "bufs h b = Some x" "physical' x = Some p"
  obtains h' ph where "ReleasePhysical b h = Inr h'" "wf_pend e h'" "phys h p = Some ph"
    "bufs h' = (bufs h)(b \<mapsto> x\<lparr>physical' := None\<rparr>)" "next_phys h' = next_phys h" "malloc_ok h' = malloc_ok h"
    "\<And>q. q \<noteq> p \<Longrightarrow> phys h' q = phys h q"
    "free_log h' = free_log h @ (if ref_count' ph = 1 then free_calls ph else [])"
    "phys h' p = (if ref_count' ph = 1 then None else Some (ph\<lparr>ref_count' := ref_count' ph - 1\<rparr>))"
    "\<And>q qh k. q \<noteq> p \<or> ref_count' ph \<noteq> 1 \<Longrightarrow> phys h q = Some qh \<Longrightarrow> block q qh = Some k \<Longrightarrow> mem h' k = mem h k"
proof -
  let ?y = "x\<lparr>physical' := None\<rparr>"
  let ?h = "h\<lparr>bufs := (bufs h)(b \<mapsto> ?y)\<rparr>"
  obtain ph where ph: "phys h p = Some ph" using wf_pendD(7) [OF wf b] by (auto simp: view_in_def)
  have wf1: "wf_pend (e(p := Suc (e p))) ?h" using wf b by (rule wf_pend_detach) simp
  have ph1: "phys ?h p = Some ph" using ph by simp
  have swap: "ReleasePhysical b h = rbind (Release p ?h) (\<lambda>(_, h1). Inr h1)"
    using b ph
    by (simp add: ReleasePhysical_def Release_def Destroy_def upd_buf_def Let_def split: option.splits)
  have e1: "0 < (e(p := Suc (e p))) p" by simp
  have ee: "(e(p := Suc (e p)))(p := (e(p := Suc (e p))) p - 1) = e" by auto
  show thesis
  proof (cases "ref_count' ph = 1")
    case True
    obtain h' where r: "Release p ?h = Inr (True, h')"
      "wf_pend e h'" "bufs h' = bufs ?h"
      "next_phys h' = next_phys ?h" "malloc_ok h' = malloc_ok ?h" "phys h' = (phys ?h)(p := None)"
      "free_log h' = free_log ?h @ free_calls ph"
      "\<forall>q qh k. q \<noteq> p \<longrightarrow> phys ?h q = Some qh \<longrightarrow> block q qh = Some k \<longrightarrow> mem h' k = mem ?h k"
      using Release_last [OF wf1 ph1 e1 True, unfolded ee] by blast
    show thesis by (rule that [of h' ph]) (use r swap ph True in auto)
  next
    case False
    note r = Release_shared [OF wf1 ph1 e1 False]
    note r' = r(2) [unfolded ee]
    show thesis
      by (rule that [of "?h\<lparr>phys := (phys ?h)(p \<mapsto> ph\<lparr>ref_count' := ref_count' ph - 1\<rparr>)\<rparr>" ph])
        (use r(1) r' swap ph False in auto)
  qed
qed

end
