(* ===== verification/Buffer_Links.thy ===== *)
theory Buffer_Links
  imports Buffer_Invariant
begin

text \<open>
  The links of the rings (\<open>next_\<close> and \<open>prev_\<close>) across the heap: \<open>UnlinkFromRing\<close>, \<open>MakeSelfRing\<close> and
  \<open>StealRingPosition\<close> of \<^verbatim>\<open>buffer.cc\<close> keep the doubly linked structure of all other nodes.
\<close>

section \<open>Definitions\<close>

definition linked :: "heap \<Rightarrow> bid \<Rightarrow> buffer \<Rightarrow> bool" where
  "linked h c y \<longleftrightarrow> (\<exists>z. bufs h (next' y) = Some z \<and> prev' z = c) \<and>
                    (\<exists>z. bufs h (prev' y) = Some z \<and> next' z = c)"

definition links_ok :: "heap \<Rightarrow> bool" where
  "links_ok h \<longleftrightarrow> (\<forall>c y. bufs h c = Some y \<longrightarrow> linked h c y)"

text \<open>Everything but \<open>b\<close> is well linked and nothing points to \<open>b\<close>.\<close>

definition links_off :: "bid \<Rightarrow> heap \<Rightarrow> bool" where
  "links_off b h \<longleftrightarrow> (\<forall>c y. c \<noteq> b \<longrightarrow> bufs h c = Some y \<longrightarrow> next' y \<noteq> b \<and> prev' y \<noteq> b \<and> linked h c y)"

text \<open>A step that writes links only.\<close>

definition view_of :: "buffer \<Rightarrow> pid option \<times> ptr \<times> nat" where
  "view_of x = (physical' x, data' x, length' x)"

definition ring_only :: "heap \<Rightarrow> heap \<Rightarrow> bool" where
  "ring_only h h' \<longleftrightarrow> mem h' = mem h \<and> phys h' = phys h \<and> next_phys h' = next_phys h
     \<and> free_log h' = free_log h \<and> malloc_ok h' = malloc_ok h
     \<and> (\<forall>b. map_option view_of (bufs h' b) = map_option view_of (bufs h b))"

text \<open>A step that keeps all links.\<close>

definition same_links :: "heap \<Rightarrow> heap \<Rightarrow> bool" where
  "same_links h h' \<longleftrightarrow> (\<forall>b. map_option (\<lambda>x. (next' x, prev' x)) (bufs h' b) = map_option (\<lambda>x. (next' x, prev' x)) (bufs h b))"

section \<open>Steps that write links only\<close>

lemma ring_only_refl [simp]: "ring_only h h"
  by (simp add: ring_only_def)

lemma ring_only_trans: "ring_only h h1 \<Longrightarrow> ring_only h1 h2 \<Longrightarrow> ring_only h h2"
  by (simp add: ring_only_def)

lemma ring_only_live: "ring_only h h' \<Longrightarrow> bufs h b = Some x \<Longrightarrow> \<exists>x'. bufs h' b = Some x' \<and> view_of x' = view_of x"
  unfolding ring_only_def by (metis map_option_eq_Some option.simps(9))

lemma ring_only_live': "ring_only h h' \<Longrightarrow> bufs h' b = Some x' \<Longrightarrow> \<exists>x. bufs h b = Some x \<and> view_of x' = view_of x"
  unfolding ring_only_def by (metis map_option_eq_Some option.simps(9))

lemma ring_only_upd_bufs:
  "bufs h b = Some x \<Longrightarrow> view_of y = view_of x \<Longrightarrow> ring_only h (h\<lparr>bufs := (bufs h)(b \<mapsto> y)\<rparr>)"
  by (simp add: ring_only_def)

lemma ring_only_views: "ring_only h h' \<Longrightarrow> views h' p = views h p"
proof -
  assume r: "ring_only h h'"
  have "b \<in> views h' p \<longleftrightarrow> b \<in> views h p" for b
    using ring_only_live [OF r, of b] ring_only_live' [OF r, of b]
    by (cases "bufs h b"; cases "bufs h' b") (auto simp: views_def view_of_def)
  then show ?thesis by blast
qed

lemma ring_only_content: "ring_only h h' \<Longrightarrow> content h' b = content h b"
proof (rule content_same)
  assume r: "ring_only h h'"
  show "map_option (\<lambda>x. (data' x, length' x)) (bufs h' b) = map_option (\<lambda>x. (data' x, length' x)) (bufs h b)"
    using r ring_only_live [OF r, of b] ring_only_live' [OF r, of b]
    by (cases "bufs h b"; cases "bufs h' b") (auto simp: view_of_def)
qed (simp add: ring_only_def)

lemma ring_only_wf_pend:
  assumes r: "ring_only h h'" and wf: "wf_pend e h"
  shows "wf_pend e h'"
proof (rule wf_pendI)
  have "dom (bufs h') = dom (bufs h)" using ring_only_live [OF r] ring_only_live' [OF r] by blast
  then show "finite (dom (bufs h'))" using wf_pendD(1) [OF wf] by simp
next
  fix b x p assume "bufs h' b = Some x" "physical' x = Some p"
  then obtain y where "bufs h b = Some y" "physical' y = Some p" "data' x = data' y" "length' x = length' y"
    using ring_only_live' [OF r] by (fastforce simp: view_of_def)
  then show "view_in h' x p" using wf_pendD(7) [OF wf] r by (auto simp: view_in_def ring_only_def)
qed (use r wf_pendD(2-6,8) [OF wf] in \<open>auto simp: ring_only_views [OF r] ring_only_def block_ok_def\<close>)

lemma ring_only_wf_views: "ring_only h h' \<Longrightarrow> wf_views h \<Longrightarrow> wf_views h'"
proof -
  assume r: "ring_only h h'" and wf: "wf_views h"
  have "data' y = None \<and> length' y = 0" if b: "bufs h' b = Some y" "physical' y = None" for b y
  proof -
    obtain x where "bufs h b = Some x" "view_of y = view_of x" using ring_only_live' [OF r b(1)] by blast
    with wf b(2) show ?thesis by (auto simp: wf_views_def view_of_def)
  qed
  with ring_only_wf_pend [OF r] wf show ?thesis by (auto simp: wf_views_def)
qed

section \<open>Steps that keep the links\<close>

lemma same_links_live: "same_links h h' \<Longrightarrow> bufs h b = Some x \<Longrightarrow>
    \<exists>x'. bufs h' b = Some x' \<and> next' x' = next' x \<and> prev' x' = prev' x"
  unfolding same_links_def by (drule spec [of _ b]) (cases "bufs h' b"; simp)

lemma same_links_live': "same_links h h' \<Longrightarrow> bufs h' b = Some x' \<Longrightarrow>
    \<exists>x. bufs h b = Some x \<and> next' x' = next' x \<and> prev' x' = prev' x"
  unfolding same_links_def by (drule spec [of _ b]) (cases "bufs h b"; simp)

lemma same_links_linked:
  "same_links h h' \<Longrightarrow> linked h c y \<Longrightarrow> next' y' = next' y \<Longrightarrow> prev' y' = prev' y \<Longrightarrow> linked h' c y'"
  unfolding linked_def using same_links_live [of h h'] by fastforce

lemma same_links_ok:
  assumes s: "same_links h h'" and ok: "links_ok h"
  shows "links_ok h'"
  unfolding links_ok_def
proof (intro allI impI)
  fix c y assume "bufs h' c = Some y"
  with same_links_live' [OF s] obtain y0 where y0: "bufs h c = Some y0" "next' y = next' y0" "prev' y = prev' y0"
    by blast
  with ok have "linked h c y0" by (simp add: links_ok_def)
  with y0 show "linked h' c y" by (blast intro: same_links_linked [OF s])
qed

lemma same_links_off:
  assumes s: "same_links h h'" and off: "links_off b h"
  shows "links_off b h'"
  unfolding links_off_def
proof (intro allI impI)
  fix c y assume c: "c \<noteq> b" "bufs h' c = Some y"
  with same_links_live' [OF s] obtain y0 where y0: "bufs h c = Some y0" "next' y = next' y0" "prev' y = prev' y0"
    by blast
  with off c(1) have "next' y0 \<noteq> b \<and> prev' y0 \<noteq> b \<and> linked h c y0" by (simp add: links_off_def)
  with y0 show "next' y \<noteq> b \<and> prev' y \<noteq> b \<and> linked h' c y" by (auto intro: same_links_linked [OF s])
qed

section \<open>The link operations\<close>

lemma links_off_delete: "links_off b h \<Longrightarrow> links_ok (h\<lparr>bufs := (bufs h)(b := None)\<rparr>)"
  by (auto simp: links_off_def links_ok_def linked_def)

lemma links_off_self:
  "links_off b h \<Longrightarrow> next' y = b \<Longrightarrow> prev' y = b \<Longrightarrow> links_ok (h\<lparr>bufs := (bufs h)(b \<mapsto> y)\<rparr>)"
  by (auto simp: links_off_def links_ok_def linked_def)

lemma links_ok_off_new: "links_ok h \<Longrightarrow> bufs h d = None \<Longrightarrow> links_off d (h\<lparr>bufs := (bufs h)(d \<mapsto> y)\<rparr>)"
  by (fastforce simp: links_off_def links_ok_def linked_def)

lemma MakeSelfRing_spec:
  assumes "bufs h b = Some x"
  shows "MakeSelfRing b h = Inr (h\<lparr>bufs := (bufs h)(b \<mapsto> x\<lparr>next' := b, prev' := b\<rparr>)\<rparr>)"
    and "ring_only h (h\<lparr>bufs := (bufs h)(b \<mapsto> x\<lparr>next' := b, prev' := b\<rparr>)\<rparr>)"
    and "links_off b h \<Longrightarrow> links_ok (h\<lparr>bufs := (bufs h)(b \<mapsto> x\<lparr>next' := b, prev' := b\<rparr>)\<rparr>)"
  using assms by (auto simp: MakeSelfRing_def upd_buf_def links_off_self view_of_def intro: ring_only_upd_bufs)

lemma UnlinkFromRing_spec:
  assumes ok: "links_ok h" and b: "bufs h b = Some x"
  obtains h' where "UnlinkFromRing b h = Inr h'" "ring_only h h'" "links_off b h'"
proof -
  from ok b have lb: "linked h b x" by (simp add: links_ok_def)
  then obtain n p where n: "bufs h (next' x) = Some n" "prev' n = b"
    and p: "bufs h (prev' x) = Some p" "next' p = b" by (auto simp: linked_def)
  show thesis
  proof (cases "next' x = b")
    case True
    with n b have pb: "prev' x = b" by simp
    have "UnlinkFromRing b h = Inr h"
      using b True pb by (simp add: UnlinkFromRing_def upd_buf_def fun_upd_idem)
    moreover have "links_off b h" unfolding links_off_def
    proof (intro allI impI)
      fix c y assume c: "c \<noteq> b" "bufs h c = Some y"
      with ok have l: "linked h c y" by (simp add: links_ok_def)
      then have "next' y \<noteq> b" "prev' y \<noteq> b" using b True pb c(1) by (auto simp: linked_def)
      with l show "next' y \<noteq> b \<and> prev' y \<noteq> b \<and> linked h c y" by simp
    qed
    ultimately show thesis using that by simp
  next
    case False
    then have pb: "prev' x \<noteq> b" using p b by auto
    let ?B1 = "(bufs h)(prev' x \<mapsto> p\<lparr>next' := next' x\<rparr>)"
    let ?n = "the (?B1 (next' x))"
    let ?h = "h\<lparr>bufs := ?B1(next' x \<mapsto> ?n\<lparr>prev' := prev' x\<rparr>)\<rparr>"
    have un: "UnlinkFromRing b h = Inr ?h"
      using b n p False pb by (auto simp: UnlinkFromRing_def upd_buf_def)
    have ro: "ring_only h ?h"
      using n p by (auto simp: ring_only_def view_of_def)
    have "links_off b ?h" unfolding links_off_def
    proof (intro allI impI)
      fix c y assume c: "c \<noteq> b" "bufs ?h c = Some y"
      obtain y0 where y0: "bufs h c = Some y0"
        and yn: "next' y = (if c = prev' x then next' x else next' y0)"
        and yp: "prev' y = (if c = next' x then prev' x else prev' y0)"
        using c(2) n p by (auto split: if_splits)
      have l: "linked h c y0" using ok y0 by (simp add: links_ok_def)
      have nb: "next' y0 = b \<longleftrightarrow> c = prev' x" using l b y0 p c(1) by (auto simp: linked_def)
      have pb': "prev' y0 = b \<longleftrightarrow> c = next' x" using l b y0 n c(1) by (auto simp: linked_def)
      have "next' y \<noteq> b" "prev' y \<noteq> b" using yn yp nb pb' False pb by auto
      moreover have "linked ?h c y" unfolding linked_def
      proof
        show "\<exists>z. bufs ?h (next' y) = Some z \<and> prev' z = c"
        proof (cases "c = prev' x")
          case True then show ?thesis using yn by simp
        next
          case False
          then have "next' y0 \<noteq> next' x" using nb l n c(1) by (auto simp: linked_def)
          then show ?thesis using False yn l by (auto simp: linked_def p)
        qed
        show "\<exists>z. bufs ?h (prev' y) = Some z \<and> next' z = c"
        proof (cases "c = next' x")
          case True then show ?thesis using yp p by auto
        next
          case False
          then have "prev' y0 \<noteq> prev' x" using pb' l p c(1) by (auto simp: linked_def)
          then show ?thesis using False yp l n by (auto simp: linked_def)
        qed
      qed
      ultimately show "next' y \<noteq> b \<and> prev' y \<noteq> b \<and> linked ?h c y" by blast
    qed
    with un ro that show thesis by blast
  qed
qed

lemma StealRingPosition_spec:
  assumes off: "links_off b h" and b: "bufs h b = Some x" and r: "bufs h rhs = Some r" and ne: "b \<noteq> rhs"
  obtains h' where "StealRingPosition b rhs h = Inr h'" "ring_only h h'" "links_off rhs h'"
proof (cases "next' r = rhs")
  case True
  from off r ne True have pr: "prev' r = rhs" by (auto simp: links_off_def linked_def)
  from off ne r have l: "linked h rhs r" by (auto simp: links_off_def)
  let ?h = "h\<lparr>bufs := (bufs h)(b \<mapsto> x\<lparr>next' := b, prev' := b\<rparr>)\<rparr>"
  have ok: "links_ok ?h" using MakeSelfRing_spec(3) [OF b] off by simp
  have "links_off rhs ?h" unfolding links_off_def
  proof (intro allI impI)
    fix c y assume c: "c \<noteq> rhs" "bufs ?h c = Some y"
    with ok have lc: "linked ?h c y" by (simp add: links_ok_def)
    have "next' y \<noteq> rhs" "prev' y \<noteq> rhs" using lc r ne pr True c(1) by (auto simp: linked_def)
    with lc show "next' y \<noteq> rhs \<and> prev' y \<noteq> rhs \<and> linked ?h c y" by simp
  qed
  moreover have "StealRingPosition b rhs h = Inr ?h"
    using r True MakeSelfRing_spec(1) [OF b] by (simp add: StealRingPosition_def)
  moreover have "ring_only h ?h" using MakeSelfRing_spec(2) [OF b] .
  ultimately show thesis using that by blast
next
  case False
  from off ne [symmetric] r have "next' r \<noteq> b \<and> prev' r \<noteq> b \<and> linked h rhs r" unfolding links_off_def by blast
  then have l: "linked h rhs r" "next' r \<noteq> b" "prev' r \<noteq> b" by auto
  then obtain n p where n: "bufs h (next' r) = Some n" "prev' n = rhs"
    and p: "bufs h (prev' r) = Some p" "next' p = rhs" by (auto simp: linked_def)
  have pr: "prev' r \<noteq> rhs" using p r False by auto
  let ?B1 = "(bufs h)(b \<mapsto> x\<lparr>next' := next' r, prev' := prev' r\<rparr>, next' r \<mapsto> n\<lparr>prev' := b\<rparr>)"
  let ?p = "the (?B1 (prev' r))"
  let ?h = "h\<lparr>bufs := ?B1(prev' r \<mapsto> ?p\<lparr>next' := b\<rparr>)\<rparr>"
  have st: "StealRingPosition b rhs h = Inr ?h"
    using b r n p False l(2,3) by (simp add: StealRingPosition_def upd_buf_def)
  have ro: "ring_only h ?h" using n p b l(2,3) by (auto simp: ring_only_def view_of_def)
  have eff: "\<exists>y0. bufs h c = Some y0 \<and> next' y = (if c = prev' r then b else if c = b then next' r else next' y0)
      \<and> prev' y = (if c = next' r then b else if c = b then prev' r else prev' y0)"
    if "bufs ?h c = Some y" for c y
    using that n p b l(2,3) by (auto split: if_splits)
  have "links_off rhs ?h" unfolding links_off_def
  proof (intro allI impI)
    fix c y assume c: "c \<noteq> rhs" "bufs ?h c = Some y"
    show "next' y \<noteq> rhs \<and> prev' y \<noteq> rhs \<and> linked ?h c y"
    proof (cases "c = b")
      case True
      with eff [OF c(2)] l(2,3) have y: "next' y = next' r" "prev' y = prev' r" by auto
      moreover have "linked ?h c y" using y n p l(2,3) True unfolding linked_def by simp
      ultimately show ?thesis using False pr by simp
    next
      case cb: False
      obtain y0 where y0: "bufs h c = Some y0" "next' y = (if c = prev' r then b else next' y0)"
          "prev' y = (if c = next' r then b else prev' y0)" using eff [OF c(2)] cb by auto
      have "next' y0 \<noteq> b \<and> prev' y0 \<noteq> b \<and> linked h c y0" using off y0(1) cb unfolding links_off_def by blast
      then have lc: "linked h c y0" "next' y0 \<noteq> b" "prev' y0 \<noteq> b" by auto
      have nr: "next' y0 = rhs \<longleftrightarrow> c = prev' r" using lc r y0 p by (auto simp: linked_def)
      have pr': "prev' y0 = rhs \<longleftrightarrow> c = next' r" using lc r y0 n by (auto simp: linked_def)
      have "linked ?h c y" unfolding linked_def
      proof
        show "\<exists>z. bufs ?h (next' y) = Some z \<and> prev' z = c"
        proof (cases "c = prev' r")
          case True then show ?thesis using y0(2) l(2,3) by simp
        next
          case False
          then have "next' y0 \<noteq> next' r" using nr lc n c(1) by (auto simp: linked_def)
          then show ?thesis using False y0(2) lc by (auto simp: linked_def p l(3))
        qed
        show "\<exists>z. bufs ?h (prev' y) = Some z \<and> next' z = c"
        proof (cases "c = next' r")
          case True then show ?thesis using y0(3) l(2,3) by simp
        next
          case False
          then have "prev' y0 \<noteq> prev' r" using pr' lc p c(1) by (auto simp: linked_def)
          then show ?thesis using False y0(3) lc n by (auto simp: linked_def)
        qed
      qed
      moreover have "next' y \<noteq> rhs" "prev' y \<noteq> rhs" using y0 nr pr' ne by auto
      ultimately show ?thesis by simp
    qed
  qed
  with st ro that show thesis by blast
qed

end
