(* ===== verification/Buffer_Lifecycle.thy ===== *)
theory Buffer_Lifecycle
  imports Buffer_Links
begin

text \<open>
  What every operation on a single \<open>Buffer\<close> node does to a well-formed heap: it returns without a
  fault, keeps the invariant (views inside live storage, exact reference counts, closed rings),
  and leaves the bytes of all nodes it is not about alone.
\<close>

section \<open>Definitions\<close>

definition wf_heap :: "heap \<Rightarrow> bool" where
  "wf_heap h \<longleftrightarrow> wf_views h \<and> links_ok h"

text \<open>The nodes outside \<open>S\<close> stay alive or dead and show the same bytes.\<close>

definition frame :: "bid set \<Rightarrow> heap \<Rightarrow> heap \<Rightarrow> bool" where
  "frame S h h' \<longleftrightarrow> (\<forall>c. c \<notin> S \<longrightarrow> (bufs h' c = None \<longleftrightarrow> bufs h c = None) \<and> content h' c = content h c)"

text \<open>A node without storage shows nothing.\<close>

definition bare_ok :: "heap \<Rightarrow> bid \<Rightarrow> bool" where
  "bare_ok h c \<longleftrightarrow> (\<forall>x. bufs h c = Some x \<longrightarrow> physical' x = None \<longrightarrow> data' x = None \<and> length' x = 0)"

section \<open>Frames\<close>

lemma frame_refl [simp]: "frame S h h"
  by (simp add: frame_def)

lemma frame_trans: "frame S h h1 \<Longrightarrow> frame S h1 h2 \<Longrightarrow> frame S h h2"
  by (simp add: frame_def)

lemma frame_mono: "frame S h h' \<Longrightarrow> S \<subseteq> T \<Longrightarrow> frame T h h'"
  by (auto simp: frame_def)

lemma frame_ring_only: "ring_only h h' \<Longrightarrow> frame S h h'"
  using ring_only_content [of h h'] by (auto simp: frame_def ring_only_def) (metis map_option_is_None)+

lemma content_dead [simp]: "bufs h c = None \<Longrightarrow> content h c = []"
  by (simp add: content_def Buffer_ToString_def)

lemma content_empty: "bufs h c = Some x \<Longrightarrow> length' x = 0 \<Longrightarrow> content h c = []"
  by (simp add: content_def Buffer_ToString_def load_def)

lemma frame_upd_buf: "b \<in> S \<Longrightarrow> frame S h (h\<lparr>bufs := (bufs h)(b := y)\<rparr>)"
  by (auto simp: frame_def intro!: content_same)

lemma frame_mem_same:
  assumes "\<And>c. c \<notin> S \<Longrightarrow> bufs h' c = bufs h c"
    and "\<And>c x k i. c \<notin> S \<Longrightarrow> bufs h c = Some x \<Longrightarrow> data' x = Some (k, i) \<Longrightarrow> mem h' k = mem h k"
  shows "frame S h h'"
  using assms by (auto simp: frame_def intro!: content_same)

lemma wf_views_bare: "wf_views h \<Longrightarrow> bare_ok h c"
  by (auto simp: wf_views_def bare_ok_def)

lemma wf_viewsI: "wf_pend (\<lambda>_. 0) h \<Longrightarrow> (\<And>c. bare_ok h c) \<Longrightarrow> wf_views h"
  by (auto simp: wf_views_def bare_ok_def)

text \<open>The block behind the pointer of a live view.\<close>

lemma data_block:
  assumes "wf_pend e h" "bare_ok h c" "bufs h c = Some y" "data' y = Some (k, i)"
  obtains q qh where "physical' y = Some q" "phys h q = Some qh" "block q qh = Some k"
proof -
  from assms obtain q where "physical' y = Some q" by (cases "physical' y") (auto simp: bare_ok_def)
  moreover from wf_pendD(7) [OF assms(1,3) this] assms(4)
  obtain qh where "phys h q = Some qh" "block q qh = Some k" by (auto simp: view_in_def block_def)
  ultimately show thesis by (rule that)
qed

text \<open>Dropping the storage of \<open>b\<close> does not touch the bytes that other nodes show.\<close>

lemma ReleasePhysical_frame:
  assumes wf: "wf_pend e h" and b: "bufs h b = Some x" and bare: "\<And>c. c \<noteq> b \<Longrightarrow> bare_ok h c"
  obtains h' where "ReleasePhysical b h = Inr h'" "wf_pend e h'" "frame {b} h h'"
    "bufs h' = (bufs h)(b \<mapsto> x\<lparr>physical' := None\<rparr>)" "next_phys h' = next_phys h" "malloc_ok h' = malloc_ok h"
    "\<And>q. physical' x \<noteq> Some q \<Longrightarrow> phys h' q = phys h q"
    "\<And>q qh k. physical' x \<noteq> Some q \<Longrightarrow> phys h q = Some qh \<Longrightarrow> block q qh = Some k \<Longrightarrow> mem h' k = mem h k"
    "\<And>q ph. physical' x = Some q \<Longrightarrow> phys h q = Some ph \<Longrightarrow>
        phys h' q = (if ref_count' ph = 1 then None else Some (ph\<lparr>ref_count' := ref_count' ph - 1\<rparr>))
      \<and> free_log h' = free_log h @ (if ref_count' ph = 1 then free_calls ph else [])"
proof (cases "physical' x")
  case None
  have "ReleasePhysical b h = Inr h" using b None by (simp add: ReleasePhysical_def)
  moreover have "x\<lparr>physical' := None\<rparr> = x" using None by (cases x) simp
  then have "bufs h = (bufs h)(b \<mapsto> x\<lparr>physical' := None\<rparr>)" using b by (simp add: fun_upd_idem)
  ultimately show thesis using that [of h] wf None by simp
next
  case (Some p)
  show thesis
  proof (rule ReleasePhysical_spec [OF wf b Some])
    fix h' ph assume r: "ReleasePhysical b h = Inr h'" "wf_pend e h'" "phys h p = Some ph"
      "bufs h' = (bufs h)(b \<mapsto> x\<lparr>physical' := None\<rparr>)" "next_phys h' = next_phys h" "malloc_ok h' = malloc_ok h"
      "\<And>q. q \<noteq> p \<Longrightarrow> phys h' q = phys h q"
      "free_log h' = free_log h @ (if ref_count' ph = 1 then free_calls ph else [])"
      "phys h' p = (if ref_count' ph = 1 then None else Some (ph\<lparr>ref_count' := ref_count' ph - 1\<rparr>))"
      "\<And>q qh k. q \<noteq> p \<or> ref_count' ph \<noteq> 1 \<Longrightarrow> phys h q = Some qh \<Longrightarrow> block q qh = Some k \<Longrightarrow> mem h' k = mem h k"
    have "frame {b} h h'"
    proof (rule frame_mem_same)
      fix c y k i assume c: "c \<notin> {b}" "bufs h c = Some y" "data' y = Some (k, i)"
      from c(1) bare have bc: "bare_ok h c" by simp
      obtain q qh where q: "physical' y = Some q" "phys h q = Some qh" "block q qh = Some k"
        by (rule data_block [OF wf bc c(2,3)])
      have "ref_count' ph \<noteq> 1" if "q = p"
      proof -
        have "{b, c} \<subseteq> views h p" using b Some c q that by (auto simp: views_def)
        then have "card {b, c} \<le> card (views h p)" by (rule card_mono [OF finite_views [OF wf_pendD(1) [OF wf]]])
        then show ?thesis using wf_pendD(2) [OF wf r(3)] c(1) by auto
      qed
      with r(10) [of q] q show "mem h' k = mem h k" by blast
    qed (simp add: r(4))
    moreover have "mem h' k = mem h k" if "p \<noteq> q" "phys h q = Some qh" "block q qh = Some k" for q qh k
      using r(10) [of q qh k] that by auto
    ultimately show thesis using r(1-9) Some by (intro that [of h']) auto
  qed
qed

lemma wf_pend_mem:
  assumes wf: "wf_pend e h" and k: "mem h k = Some bs" "length bs' = length bs"
  shows "wf_pend e (h\<lparr>mem := (mem h)(k \<mapsto> bs')\<rparr>)"
proof (rule wf_pendI)
  fix b x p assume "bufs (h\<lparr>mem := (mem h)(k \<mapsto> bs')\<rparr>) b = Some x" "physical' x = Some p"
  then show "view_in (h\<lparr>mem := (mem h)(k \<mapsto> bs')\<rparr>) x p"
    using wf_pendD(7) [OF wf] by (simp add: view_in_def)
next
  fix p ph assume "phys (h\<lparr>mem := (mem h)(k \<mapsto> bs')\<rparr>) p = Some ph"
  then have "block_ok h p ph" using wf_pendD(5) [OF wf] by simp
  then obtain l s cs where l: "buffer_start p ph = Some (l, s)" "mem h l = Some cs" "s + capacity' ph \<le> length cs"
    "length cs < 2 ^ 64" "l = Own p \<or> (\<exists>e. l = Ext e)" unfolding block_ok_def by blast
  then show "block_ok (h\<lparr>mem := (mem h)(k \<mapsto> bs')\<rparr>) p ph"
    unfolding block_ok_def by (cases "l = k") (use k in auto)
qed (use wf_pendD(1-4,6,8) [OF wf] in auto)

lemma block_owner: "wf_pend e h \<Longrightarrow> phys h q = Some qh \<Longrightarrow> block q qh = Some (Own p) \<Longrightarrow> q = p"
  by (drule (1) wf_pendD(5)) (auto simp: block_ok_def block_def)

lemma data_not_dead:
  assumes "wf_pend e h" "bare_ok h c" "bufs h c = Some y" "data' y = Some (k, i)" "phys h p = None"
  shows "k \<noteq> Own p"
proof
  assume k: "k = Own p"
  show False
  proof (rule data_block [OF assms(1-4)])
    fix q qh assume q: "phys h q = Some qh" "block q qh = Some k"
    with k block_owner [OF assms(1)] have "q = p" by blast
    with q assms(5) show False by simp
  qed
qed

lemma same_links_upd_buf:
  "bufs h b = Some x \<Longrightarrow> next' y = next' x \<Longrightarrow> prev' y = prev' x \<Longrightarrow> bufs h' = (bufs h)(b \<mapsto> y) \<Longrightarrow> same_links h h'"
  by (simp add: same_links_def)

lemma length_content:
  assumes wp: "wf_pend e h" and bare: "bare_ok h b" and b: "bufs h b = Some x"
  shows "length (content h b) = length' x"
proof (cases "physical' x")
  case None
  then show ?thesis using bare b by (simp add: bare_ok_def content_empty)
next
  case (Some p)
  show ?thesis by (rule view_bytes [OF wp b Some]) simp
qed

lemma load_content:
  assumes wp: "wf_pend e h" and bare: "bare_ok h b" and b: "bufs h b = Some x"
    and m: "\<And>k i. data' x = Some (k, i) \<Longrightarrow> mem h' k = mem h k"
  shows "load h' (data' x) (length' x) = Inr (content h b)"
proof (cases "physical' x")
  case None
  then show ?thesis using bare b by (simp add: bare_ok_def content_empty load_def)
next
  case (Some p)
  show ?thesis by (rule view_bytes [OF wp b Some]) (use m in \<open>simp add: load_def\<close>)
qed

text \<open>Moving the bytes of a node to new storage of its own.\<close>

lemma reseat_spec:
  assumes wf: "wf_heap h" and b: "bufs h b = Some x" and fit: "head + length' x \<le> cap"
    and small: "sizeof_PhysicalBuffer + cap < 2 ^ 64" and ok: "malloc_ok h (sizeof_PhysicalBuffer + cap)"
  defines "np \<equiv> next_phys h"
  shows "\<exists>h'. reseat cap head b h = Inr h' \<and> wf_heap h' \<and> frame {b} h h' \<and> content h' b = content h b
    \<and> bufs h' = (bufs h)(b \<mapsto> x\<lparr>physical' := Some np, data' := Some (Own np, head)\<rparr>)
    \<and> views h' np = {b} \<and> malloc_ok h' = malloc_ok h
    \<and> (\<forall>q qh. q \<noteq> np \<longrightarrow> phys h' q = Some qh \<longrightarrow> (\<exists>ph. phys h q = Some ph \<and> capacity' qh = capacity' ph))
    \<and> mem h' (Own np) = Some (splice (map (junk h np) [0..<cap]) head (content h b))
    \<and> phys h' np = Some \<lparr>ref_count' = 1, capacity' = cap, flags' = 0, external_data' = None, free_fn' = None\<rparr>"
proof -
  let ?nph = "\<lparr>ref_count' = 1, capacity' = cap, flags' = 0, external_data' = None, free_fn' = None\<rparr> :: physical"
  from wf have wp: "wf_pend (\<lambda>_. 0) h" and bare: "\<And>c. bare_ok h c" and links: "links_ok h"
    by (auto simp: wf_heap_def wf_views_def bare_ok_def)
  obtain h1 where cr: "PhysicalBuffer_Create cap h = Inr (np, h1)" "wf_pend ((\<lambda>_. 0)(np := 1)) h1"
    "bufs h1 = bufs h" "phys h np = None" "phys h1 = (phys h)(np \<mapsto> ?nph)"
    "mem h1 = (mem h)(Own np \<mapsto> map (junk h np) [0..<cap])" "malloc_ok h1 = malloc_ok h"
    using Create_spec [OF wp small ok] unfolding np_def by blast
  have start: "buffer_start np ?nph = Some (Own np, 0)" "block np ?nph = Some (Own np)"
    by (simp_all add: buffer_start_def is_external_def block_def)
  have other: "k \<noteq> Own np" if "bufs h c = Some y" "data' y = Some (k, i)" for c y k i
    by (rule data_not_dead [OF wp bare that cr(4)])
  have load: "load h1 (data' x) (length' x) = Inr (content h b)" "length (content h b) = length' x"
    using load_content [OF wp bare b, of h1] length_content [OF wp bare b] other [OF b] by (auto simp: cr(6))
  let ?J = "map (junk h np) [0..<cap]"
  let ?h2 = "h1\<lparr>mem := (mem h1)(Own np \<mapsto> splice ?J head (content h b))\<rparr>"
  have st: "store (Some (Own np, head)) (content h b) h1 = Inr ?h2"
    using fit load(2) by (auto simp: store_def cr(6))
  have pa: "ptr_add (buffer_start np ?nph) head = Some (Own np, head)"
    unfolding ptr_add_def start(1) using fit small by (simp add: sz_add_eq)
  have copy: "(if length' x \<noteq> 0 then rbind (load h1 (data' x) (length' x)) (\<lambda>bs. store (Some (Own np, head)) bs h1)
      else Inr h1) = Inr ?h2"
    using load st store_def [of _ "[]" h1] by auto
  have h2: "wf_pend ((\<lambda>_. 0)(np := 1)) ?h2"
    by (rule wf_pend_mem [OF cr(2)]) (use fit load(2) in \<open>auto simp: cr(6)\<close>)
  have bare2: "bare_ok ?h2 c" for c using bare [of c] by (simp add: bare_ok_def cr(3))
  have b2: "bufs ?h2 b = Some x" using b cr(3) by simp
  have xp: "physical' x \<noteq> Some np" using wf_pendD(7) [OF wp b] cr(4) by (auto simp: view_in_def)
  have f2: "frame {b} h ?h2" by (rule frame_mem_same) (use other in \<open>auto simp: cr(3,6)\<close>)
  show ?thesis
  proof (rule ReleasePhysical_frame [OF h2 b2 bare2])
    fix h3 assume r: "ReleasePhysical b ?h2 = Inr h3" "wf_pend ((\<lambda>_. 0)(np := 1)) h3" "frame {b} ?h2 h3"
      "bufs h3 = (bufs ?h2)(b \<mapsto> x\<lparr>physical' := None\<rparr>)" "malloc_ok h3 = malloc_ok ?h2"
      and p: "\<And>q. physical' x \<noteq> Some q \<Longrightarrow> phys h3 q = phys ?h2 q"
      and m: "\<And>q qh k. physical' x \<noteq> Some q \<Longrightarrow> phys ?h2 q = Some qh \<Longrightarrow> block q qh = Some k \<Longrightarrow> mem h3 k = mem ?h2 k"
      and old: "\<And>q ph. physical' x = Some q \<Longrightarrow> phys ?h2 q = Some ph \<Longrightarrow>
        phys h3 q = (if ref_count' ph = 1 then None else Some (ph\<lparr>ref_count' := ref_count' ph - 1\<rparr>))
      \<and> free_log h3 = free_log ?h2 @ (if ref_count' ph = 1 then free_calls ph else [])"
    have caps: "\<exists>ph. phys h q = Some ph \<and> capacity' qh = capacity' ph" if "q \<noteq> np" "phys h3 q = Some qh" for q qh
    proof (cases "physical' x = Some q")
      case True
      obtain ph where ph: "phys h q = Some ph" using wf_pendD(7) [OF wp b True] by (auto simp: view_in_def)
      then have "phys ?h2 q = Some ph" using that(1) by (simp add: cr(5))
      with old [OF True] that(2) ph show ?thesis by (auto split: if_splits)
    next
      case False
      then have "phys h q = Some qh" using p [of q] that by (simp add: cr(5))
      then show ?thesis by blast
    qed
    let ?y = "x\<lparr>physical' := Some np, data' := Some (Own np, head)\<rparr>"
    let ?h = "h3\<lparr>bufs := (bufs h3)(b \<mapsto> ?y)\<rparr>"
    have p3: "phys h3 np = Some ?nph" using p [OF xp] by (simp add: cr(5))
    have m3: "mem h3 (Own np) = Some (splice ?J head (content h b))"
      using m [OF xp _ start(2)] by (simp add: cr(5))
    have "wf_pend (((\<lambda>_. 0)(np := 1))(np := ((\<lambda>_. 0)(np := 1)) np - 1)) ?h"
      by (rule wf_pend_attach [OF r(2)]) (use p3 start fit r(4) in \<open>auto simp: view_in_def\<close>)
    then have wp': "wf_pend (\<lambda>_. 0) ?h" by (simp add: fun_upd_idem)
    moreover have "bare_ok ?h c" for c using bare [of c] by (simp add: bare_ok_def r(4) cr(3))
    ultimately have wv: "wf_views ?h" by (rule wf_viewsI)
    have bufs': "bufs ?h = (bufs h)(b \<mapsto> ?y)" by (simp add: r(4) cr(3))
    have "same_links h ?h" by (rule same_links_upd_buf [OF b _ _ bufs']) simp_all
    with links wv have "wf_heap ?h" by (simp add: wf_heap_def same_links_ok)
    moreover have "frame {b} h ?h" using frame_trans [OF frame_trans [OF f2 r(3)] frame_upd_buf] by simp
    moreover have "content ?h b = content h b"
      using fit load(2) m3 by (auto simp: content_def Buffer_ToString_def load_def)
    moreover have "views h np = {}" using wf_pendD(7) [OF wp] cr(4) by (fastforce simp: views_def view_in_def)
    then have "views ?h np = {b}" unfolding views_def bufs' by (auto split: if_splits)
    moreover have "reseat cap head b h = Inr ?h"
      using cr(1,5) pa copy r(1,4) cr(3) b
      by (simp add: reseat_def Let_def upd_buf_def split del: if_split cong: if_cong)
    ultimately show ?thesis using bufs' p3 m3 caps r(5) cr(7) by (intro exI [of _ ?h]) simp
  qed
qed

section \<open>Making nodes\<close>

lemma wf_heapI: "wf_pend (\<lambda>_. 0) h \<Longrightarrow> (\<And>c. bare_ok h c) \<Longrightarrow> links_ok h \<Longrightarrow> wf_heap h"
  by (simp add: wf_heap_def wf_viewsI)

lemma wf_heapD: "wf_heap h \<Longrightarrow> wf_pend (\<lambda>_. 0) h" "wf_heap h \<Longrightarrow> bare_ok h c" "wf_heap h \<Longrightarrow> links_ok h"
  by (auto simp: wf_heap_def wf_views_def bare_ok_def)

lemma links_new_self:
  "links_ok h \<Longrightarrow> bufs h d = None \<Longrightarrow> next' y = d \<Longrightarrow> prev' y = d \<Longrightarrow> bufs h' = (bufs h)(d \<mapsto> y) \<Longrightarrow> links_ok h'"
  using links_off_self [OF links_ok_off_new, of h d y y] by (simp add: links_ok_def linked_def)

lemma links_off_dead: "links_ok h \<Longrightarrow> bufs h d = None \<Longrightarrow> links_off d h"
  unfolding links_off_def
proof (intro allI impI)
  fix c y assume "links_ok h" "bufs h d = None" "bufs h c = Some y"
  moreover from this have "linked h c y" by (simp add: links_ok_def)
  ultimately show "next' y \<noteq> d \<and> prev' y \<noteq> d \<and> linked h c y" by (auto simp: linked_def)
qed

lemma wf_pend_cong:
  "bufs h' = bufs h \<Longrightarrow> phys h' = phys h \<Longrightarrow> mem h' = mem h \<Longrightarrow> next_phys h' = next_phys h \<Longrightarrow>
   wf_pend e h' = wf_pend e h"
  by (simp add: wf_pend_def views_def block_ok_def view_in_def)

lemma links_off_make_self:
  "links_off d h \<Longrightarrow> next' y = d \<Longrightarrow> prev' y = d \<Longrightarrow> bufs h' = (bufs h)(d \<mapsto> y) \<Longrightarrow> links_ok h'"
  using links_off_self [of d h y] by (simp add: links_ok_def linked_def)

text \<open>One more view of storage that is already there, shown by the node \<open>d\<close> that had none.\<close>

lemma share_spec:
  assumes wp: "wf_pend (\<lambda>_. 0) h" and bare: "\<And>c. c \<noteq> d \<Longrightarrow> bare_ok h c" and off: "links_off d h"
    and d: "Option.bind (bufs h d) physical' = None" and v: "next' v = d" "prev' v = d"
    and q: "physical' v = Some q" "phys h q = Some qh" "ref_count' qh + 1 < 2 ^ 32" "view_in h v q"
    and h': "bufs h' = (bufs h)(d \<mapsto> v)" "phys h' = (phys h)(q \<mapsto> qh\<lparr>ref_count' := ref_count' qh + 1\<rparr>)"
      "mem h' = mem h" "next_phys h' = next_phys h"
  shows "wf_heap h'" "frame {d} h h'"
proof -
  let ?h1 = "h\<lparr>phys := (phys h)(q \<mapsto> qh\<lparr>ref_count' := ref_count' qh + 1\<rparr>)\<rparr>"
  let ?h2 = "?h1\<lparr>bufs := (bufs ?h1)(d \<mapsto> v)\<rparr>"
  note r = Retain_spec(2) [OF wp q(2,3)]
  have "wf_pend (((\<lambda>_. 0)(q := Suc 0))(q := ((\<lambda>_. 0)(q := Suc 0)) q - 1)) ?h2"
    by (rule wf_pend_attach [OF r]) (use q d in \<open>auto simp: view_in_def\<close>)
  then have "wf_pend (\<lambda>_. 0) ?h2" by (simp add: fun_upd_idem)
  moreover have "wf_pend (\<lambda>_. 0) h' = wf_pend (\<lambda>_. 0) ?h2" by (rule wf_pend_cong) (simp_all add: h')
  ultimately have "wf_pend (\<lambda>_. 0) h'" by simp
  moreover have "bare_ok h' c" for c using bare [of c] q(1) by (auto simp: bare_ok_def h')
  moreover have "links_ok h'" by (rule links_off_make_self [OF off v h'(1)])
  ultimately show "wf_heap h'" by (rule wf_heapI)
  show "frame {d} h h'" by (rule frame_mem_same) (simp_all add: h')
qed

lemma Buffer_default_spec:
  assumes wf: "wf_heap h" and d: "bufs h d = None"
  defines "h' \<equiv> h\<lparr>bufs := (bufs h)(d \<mapsto> \<lparr>physical' = None, data' = None, length' = 0, next' = d, prev' = d\<rparr>)\<rparr>"
  shows "Buffer_default d h = Inr h'" "wf_heap h'" "frame {d} h h'" "content h' d = []"
proof -
  show "Buffer_default d h = Inr h'" using d by (simp add: Buffer_default_def new_buffer_def h'_def)
  have "wf_pend (\<lambda>_. 0) h'" unfolding h'_def
    by (rule wf_pend_same_phys [OF wf_heapD(1) [OF wf]]) (use d in auto)
  moreover have "bare_ok h' c" for c using wf_heapD(2) [OF wf, of c] by (auto simp: bare_ok_def h'_def)
  moreover have "links_ok h'" by (rule links_new_self [OF wf_heapD(3) [OF wf] d]) (simp_all add: h'_def)
  ultimately show "wf_heap h'" by (rule wf_heapI)
  show "frame {d} h h'" unfolding h'_def by (rule frame_upd_buf) simp
  show "content h' d = []" by (simp add: h'_def content_def Buffer_ToString_def load_def)
qed

lemma Buffer_Create_spec:
  assumes wf: "wf_heap h" and d: "bufs h d = None"
    and small: "sizeof_PhysicalBuffer + cap < 2 ^ 64" and ok: "malloc_ok h (sizeof_PhysicalBuffer + cap)"
  defines "np \<equiv> next_phys h"
  shows "\<exists>h'. Buffer_Create d cap h = Inr h' \<and> wf_heap h' \<and> frame {d} h h' \<and> content h' d = []
    \<and> bufs h' = (bufs h)(d \<mapsto> \<lparr>physical' = Some np, data' = Some (Own np, 0), length' = 0, next' = d, prev' = d\<rparr>)
    \<and> views h' np = {d} \<and> malloc_ok h' = malloc_ok h \<and> mem h' (Own np) = Some (map (junk h np) [0..<cap])
    \<and> phys h' np = Some \<lparr>ref_count' = 1, capacity' = cap, flags' = 0, external_data' = None, free_fn' = None\<rparr>"
proof -
  let ?nph = "\<lparr>ref_count' = 1, capacity' = cap, flags' = 0, external_data' = None, free_fn' = None\<rparr> :: physical"
  let ?y = "\<lparr>physical' = Some np, data' = Some (Own np, 0), length' = 0, next' = d, prev' = d\<rparr>"
  note df = Buffer_default_spec [OF wf d]
  let ?h1 = "h\<lparr>bufs := (bufs h)(d \<mapsto> \<lparr>physical' = None, data' = None, length' = 0, next' = d, prev' = d\<rparr>)\<rparr>"
  have ok1: "malloc_ok ?h1 (sizeof_PhysicalBuffer + cap)" using ok by simp
  obtain h2 where cr: "PhysicalBuffer_Create cap ?h1 = Inr (np, h2)" "wf_pend ((\<lambda>_. 0)(np := 1)) h2"
    "bufs h2 = bufs ?h1" "phys h np = None" "phys h2 = (phys h)(np \<mapsto> ?nph)"
    "mem h2 = (mem h)(Own np \<mapsto> map (junk h np) [0..<cap])" "malloc_ok h2 = malloc_ok h"
    using Create_spec [OF wf_heapD(1) [OF df(2)] small ok1] unfolding np_def by auto
  have start: "buffer_start np ?nph = Some (Own np, 0)" by (simp add: buffer_start_def is_external_def)
  let ?h = "h2\<lparr>bufs := (bufs h2)(d \<mapsto> ?y)\<rparr>"
  have run: "Buffer_Create d cap h = Inr ?h"
    unfolding Buffer_Create_def df(1) using cr(1,3,5) start by (simp add: upd_buf_def)
  have bufs': "bufs ?h = (bufs h)(d \<mapsto> ?y)" by (simp add: cr(3))
  have "wf_pend (((\<lambda>_. 0)(np := 1))(np := ((\<lambda>_. 0)(np := 1)) np - 1)) ?h"
    by (rule wf_pend_attach [OF cr(2)]) (use cr(3,5) start in \<open>auto simp: view_in_def\<close>)
  then have "wf_pend (\<lambda>_. 0) ?h" by (simp add: fun_upd_idem)
  moreover have "bare_ok ?h c" for c using wf_heapD(2) [OF wf, of c] by (auto simp: bare_ok_def cr(3))
  moreover have "links_ok ?h" by (rule links_new_self [OF wf_heapD(3) [OF wf] d _ _ bufs']) simp_all
  ultimately have "wf_heap ?h" by (rule wf_heapI)
  moreover have own: "k \<noteq> Own np" if "bufs h c = Some y" "data' y = Some (k, i)" for c y k i
    by (rule data_not_dead [OF wf_heapD(1) [OF wf] wf_heapD(2) [OF wf] that cr(4)])
  have "frame {d} h ?h" by (rule frame_mem_same) (use own in \<open>auto simp: cr(3,6)\<close>)
  moreover have "content ?h d = []" by (simp add: content_def Buffer_ToString_def load_def)
  moreover have "views h np = {}"
    using wf_pendD(7) [OF wf_heapD(1) [OF wf]] cr(4) by (fastforce simp: views_def view_in_def)
  then have "views ?h np = {d}" unfolding views_def bufs' by (auto split: if_splits)
  ultimately show ?thesis using run bufs' cr(5,6,7) by (intro exI [of _ ?h]) simp
qed

section \<open>Writing bytes and moving the view\<close>

lemma store_private:
  assumes wf: "wf_heap h" and b: "bufs h b = Some x" "physical' x = Some p" "views h p = {b}"
    and p: "phys h p = Some ph" "buffer_start p ph = Some (k, s)" "mem h k = Some bs"
    and j: "j + length vs \<le> s + capacity' ph"
  defines "h' \<equiv> h\<lparr>mem := (mem h)(k \<mapsto> splice bs j vs)\<rparr>"
  shows "store (Some (k, j)) vs h = Inr h'" "wf_heap h'" "frame {b} h h'"
proof -
  have len: "j + length vs \<le> length bs"
    using wf_pendD(5) [OF wf_heapD(1) [OF wf] p(1)] p j by (auto simp: block_ok_def)
  show "store (Some (k, j)) vs h = Inr h'"
    using len p(3) by (auto simp: store_def h'_def fun_upd_idem)
  have "wf_pend (\<lambda>_. 0) h'" unfolding h'_def
    by (rule wf_pend_mem [OF wf_heapD(1) [OF wf] p(3)]) (use len in simp)
  moreover have "bare_ok h' c" for c using wf_heapD(2) [OF wf, of c] by (simp add: bare_ok_def h'_def)
  moreover have "links_ok h'" by (rule same_links_ok [OF _ wf_heapD(3) [OF wf]]) (simp add: same_links_def h'_def)
  ultimately show "wf_heap h'" by (rule wf_heapI)
  show "frame {b} h h'"
  proof (rule frame_mem_same)
    fix c y l i assume c: "c \<notin> {b}" "bufs h c = Some y" "data' y = Some (l, i)"
    have "l \<noteq> k"
    proof
      assume l: "l = k"
      show False
      proof (rule data_block [OF wf_heapD(1) [OF wf] wf_heapD(2) [OF wf] c(2,3)])
        fix q qh assume q: "physical' y = Some q" "phys h q = Some qh" "block q qh = Some l"
        have "block p ph = Some k" by (simp add: block_def p(2))
        with q(3) l have "q = p" by (intro wf_pendD(8) [OF wf_heapD(1) [OF wf] q(2) p(1)]) simp
        with q(1) c b(3) show False by (auto simp: views_def)
      qed
    qed
    then show "mem h' l = mem h l" by (simp add: h'_def)
  qed (simp add: h'_def)
qed

text \<open>A node that gets another window into the same storage.\<close>

lemma set_view:
  assumes wf: "wf_heap h" and b: "bufs h b = Some x" "physical' x = Some p"
    and y: "physical' y = Some p" "next' y = next' x" "prev' y = prev' x" "view_in h y p"
  defines "h' \<equiv> h\<lparr>bufs := (bufs h)(b \<mapsto> y)\<rparr>"
  shows "wf_heap h'" "frame {b} h h'"
proof -
  have "wf_pend (\<lambda>_. 0) h'" unfolding h'_def
    by (rule wf_pend_same_phys [OF wf_heapD(1) [OF wf]]) (use b y in auto)
  moreover have "bare_ok h' c" for c using wf_heapD(2) [OF wf, of c] y by (auto simp: bare_ok_def h'_def)
  moreover have "links_ok h'"
    by (rule same_links_ok [OF same_links_upd_buf [OF b(1) y(2,3)] wf_heapD(3) [OF wf]]) (simp add: h'_def)
  ultimately show "wf_heap h'" by (rule wf_heapI)
  show "frame {b} h h'" unfolding h'_def by (rule frame_upd_buf) simp
qed

lemma content_slice:
  assumes "bufs h b = Some x" "data' x = Some (k, i)" "mem h k = Some bs" "i + length' x \<le> length bs"
  shows "content h b = slice bs i (length' x)"
  using assms by (simp add: content_def Buffer_ToString_def load_def)

lemma Buffer_CopyFrom_spec:
  assumes wf: "wf_heap h" and d: "bufs h d = None"
    and small: "sizeof_PhysicalBuffer + length src < 2 ^ 64" and ok: "malloc_ok h (sizeof_PhysicalBuffer + length src)"
  defines "np \<equiv> next_phys h"
  shows "\<exists>h'. Buffer_CopyFrom d src h = Inr h' \<and> wf_heap h' \<and> frame {d} h h' \<and> content h' d = src
    \<and> views h' np = {d} \<and> malloc_ok h' = malloc_ok h
    \<and> bufs h' = (bufs h)(d \<mapsto> \<lparr>physical' = Some np, data' = Some (Own np, 0), length' = length src, next' = d, prev' = d\<rparr>)"
proof -
  let ?nph = "\<lparr>ref_count' = 1, capacity' = length src, flags' = 0, external_data' = None, free_fn' = None\<rparr> :: physical"
  let ?x = "\<lparr>physical' = Some np, data' = Some (Own np, 0), length' = 0, next' = d, prev' = d\<rparr>"
  let ?J = "map (junk h np) [0..<length src]"
  obtain h1 where h1: "Buffer_Create d (length src) h = Inr h1" "wf_heap h1" "frame {d} h h1" "content h1 d = []"
    "bufs h1 = (bufs h)(d \<mapsto> ?x)" "views h1 np = {d}" "malloc_ok h1 = malloc_ok h" "mem h1 (Own np) = Some ?J"
    "phys h1 np = Some ?nph" using Buffer_Create_spec [OF wf d small ok] unfolding np_def by blast
  have start: "buffer_start np ?nph = Some (Own np, 0)" by (simp add: buffer_start_def is_external_def)
  have b1: "bufs h1 d = Some ?x" by (simp add: h1(5))
  let ?h2 = "h1\<lparr>mem := (mem h1)(Own np \<mapsto> splice ?J 0 src)\<rparr>"
  have st: "store (Some (Own np, 0)) src h1 = Inr ?h2" "wf_heap ?h2" "frame {d} h1 ?h2"
    using store_private [OF h1(2) b1 _ h1(6,9) start h1(8), of 0 src] by simp_all
  let ?y = "?x\<lparr>length' := length src\<rparr>"
  let ?h3 = "?h2\<lparr>bufs := (bufs ?h2)(d \<mapsto> ?y)\<rparr>"
  have h3: "wf_heap ?h3" "frame {d} ?h2 ?h3"
    by (rule set_view [OF st(2), of d ?x np]; use b1 h1(9) start in \<open>simp add: view_in_def\<close>)+
  have c3: "content ?h3 d = src" by (subst content_slice [of _ _ ?y "Own np" 0 "splice ?J 0 src"]) simp_all
  have vw: "views ?h3 np = {d}" using h1(6) by (auto simp: views_def split: if_splits)
  show ?thesis
  proof (cases "src = []")
    case True
    then show ?thesis using h1 by (intro exI [of _ h1]) (simp add: Buffer_CopyFrom_def)
  next
    case False
    then have "Buffer_CopyFrom d src h = Inr ?h3"
      unfolding Buffer_CopyFrom_def h1(1) using b1 h1(9) start st(1) by (simp add: upd_buf_def)
    then show ?thesis
      using h3 c3 vw frame_trans [OF frame_trans [OF h1(3) st(3)] h3(2)] h1(5,7) by (intro exI [of _ ?h3]) simp
  qed
qed

text \<open>Memory of the caller: nobody else may own its block.\<close>

lemma Buffer_WrapExternal_spec:
  assumes wf: "wf_heap h" and d: "bufs h d = None" and ok: "malloc_ok h sizeof_PhysicalBuffer"
    and m: "mem h (Ext a) = Some bs" "i + n \<le> length bs" "length bs < 2 ^ 64"
    and free: "\<And>p ph. phys h p = Some ph \<Longrightarrow> block p ph \<noteq> Some (Ext a)"
  shows "\<exists>h'. Buffer_WrapExternal d (Some (Ext a, i)) n f h = Inr h' \<and> wf_heap h' \<and> frame {d} h h'
    \<and> content h' d = slice bs i n \<and> malloc_ok h' = malloc_ok h
    \<and> bufs h' = (bufs h)(d \<mapsto> \<lparr>physical' = Some (next_phys h), data' = Some (Ext a, i), length' = n, next' = d, prev' = d\<rparr>)"
proof -
  let ?p = "next_phys h"
  let ?ph = "\<lparr>ref_count' = 1, capacity' = n, flags' = kFlagExternal, external_data' = Some (Ext a, i), free_fn' = f\<rparr> :: physical"
  let ?y = "\<lparr>physical' = Some ?p, data' = Some (Ext a, i), length' = n, next' = d, prev' = d\<rparr>"
  let ?h1 = "h\<lparr>phys := (phys h)(?p \<mapsto> ?ph), next_phys := Suc ?p\<rparr>"
  let ?h = "?h1\<lparr>bufs := (bufs ?h1)(d \<mapsto> ?y)\<rparr>"
  note wp = wf_heapD(1) [OF wf]
  have new: "phys h ?p = None" using wf_pendD(4) [OF wp] by (metis less_irrefl not_None_eq)
  have start: "buffer_start ?p ?ph = Some (Ext a, i)" by (simp add: buffer_start_def is_external_def kFlagExternal_def)
  have none: "views h ?p = {}" using wf_pendD(7) [OF wp] new by (fastforce simp: views_def view_in_def)
  have "wf_pend ((\<lambda>_. 0)(?p := 1)) ?h1"
  proof (rule wf_pendI)
    fix p ph assume a: "phys ?h1 p = Some ph"
    show "ref_count' ph = card (views ?h1 p) + ((\<lambda>_. 0)(?p := 1)) p"
      "0 < ref_count' ph \<and> ref_count' ph < 2 ^ 32" "p < next_phys ?h1"
      using a wf_pendD(2-4) [OF wp, of p ph] none by (auto split: if_splits)
    show "block_ok ?h1 p ph" using a m start wf_pendD(5) [OF wp, of p ph]
      by (cases "p = ?p") (auto simp: block_ok_def)
  next
    fix b x p assume "bufs ?h1 b = Some x" "physical' x = Some p"
    then have "view_in h x p" using wf_pendD(7) [OF wp] by simp
    with new show "view_in ?h1 x p" by (auto simp: view_in_def)
  next
    fix p q ph qh assume "phys ?h1 p = Some ph" "phys ?h1 q = Some qh" "block p ph = block q qh"
    moreover have "block ?p ?ph = Some (Ext a)" unfolding block_def start by simp
    ultimately show "p = q"
      using wf_pendD(8) [OF wp, of p ph q qh] free [of p ph] free [of q qh] by (simp split: if_splits)
  qed (use wf_pendD(1,6) [OF wp] in \<open>auto split: if_splits\<close>)
  then have "wf_pend (((\<lambda>_. 0)(?p := 1))(?p := ((\<lambda>_. 0)(?p := 1)) ?p - 1)) ?h"
    by (rule wf_pend_attach) (use d start in \<open>auto simp: view_in_def\<close>)
  then have "wf_pend (\<lambda>_. 0) ?h" by (simp add: fun_upd_idem)
  moreover have "bare_ok ?h c" for c using wf_heapD(2) [OF wf, of c] by (auto simp: bare_ok_def)
  moreover have "links_ok ?h" by (rule links_new_self [OF wf_heapD(3) [OF wf] d]) simp_all
  ultimately have "wf_heap ?h" by (rule wf_heapI)
  moreover have "frame {d} h ?h" by (rule frame_mem_same) simp_all
  moreover have "content ?h d = slice bs i n" by (subst content_slice [of _ _ ?y "Ext a" i bs]) (use m in simp_all)
  moreover have "Buffer_WrapExternal d (Some (Ext a, i)) n f h = Inr ?h"
    unfolding Buffer_WrapExternal_def Buffer_default_spec(1) [OF wf d]
    using ok by (simp add: PhysicalBuffer_CreateExternal_def Let_def upd_buf_def)
  ultimately show ?thesis by (intro exI [of _ ?h]) simp
qed

end
