(* ===== verification/Buffer_Ops.thy ===== *)
theory Buffer_Ops
  imports Buffer_Lifecycle
begin

text \<open>
  The remaining operations on single nodes: sharing (\<open>Buffer(const Buffer &)\<close>, \<open>Slice\<close>), \<open>Clone\<close>,
  destruction, assignment and moves, and the copy-on-write writers (\<open>CowDetach\<close>, \<open>EnsureTailroom\<close>,
  \<open>Reserve\<close>, \<open>AppendData\<close>), each with its effect on the invariant and on the bytes.
\<close>

section \<open>Sharing\<close>

text \<open>The counter of the storage of \<open>b\<close> has room for one more view.\<close>

definition can_retain :: "heap \<Rightarrow> bid \<Rightarrow> bool" where
  "can_retain h b \<longleftrightarrow> (\<forall>x p ph. bufs h b = Some x \<longrightarrow> physical' x = Some p \<longrightarrow> phys h p = Some ph \<longrightarrow>
     ref_count' ph + 1 < 2 ^ 32)"

lemma length_bound:
  assumes wf: "wf_heap h" and b: "bufs h b = Some x"
  shows "length' x < 2 ^ 64"
proof (cases "physical' x")
  case None
  then show ?thesis using wf_heapD(2) [OF wf, of b] b by (simp add: bare_ok_def)
next
  case (Some p)
  show ?thesis by (rule view_bytes [OF wf_heapD(1) [OF wf] b Some]) linarith
qed

lemma Slice_spec:
  assumes wf: "wf_heap h" and b: "bufs h b = Some x" and d: "bufs h d = None"
    and n: "offset + n \<le> length' x" and r: "can_retain h b"
  shows "\<exists>h'. Slice offset n b d h = Inr h' \<and> wf_heap h' \<and> frame {d} h h'
    \<and> content h' d = slice (content h b) offset n \<and> mem h' = mem h \<and> malloc_ok h' = malloc_ok h
    \<and> bufs h' = (bufs h)(d \<mapsto> \<lparr>physical' = physical' x, data' = ptr_add (data' x) offset, length' = n, next' = d, prev' = d\<rparr>)"
proof -
  have chk: "sz_add offset n \<le> length' x" using n length_bound [OF wf b] by (simp add: sz_add_eq)
  let ?y = "\<lparr>physical' = physical' x, data' = ptr_add (data' x) offset, length' = n, next' = d, prev' = d\<rparr>"
  let ?h2 = "h\<lparr>bufs := (bufs h)(d \<mapsto> ?y)\<rparr>"
  have run: "Slice offset n b d h = retain_if (physical' x) ?h2"
    unfolding Slice_def Buffer_default_spec(1) [OF wf d] using b chk by (simp add: upd_buf_def)
  show ?thesis
  proof (cases "physical' x")
    case None
    then have bare: "data' x = None" "length' x = 0" using wf_heapD(2) [OF wf, of b] b by (auto simp: bare_ok_def)
    then have "?y = \<lparr>physical' = None, data' = None, length' = 0, next' = d, prev' = d\<rparr>"
      using n None by (simp add: ptr_add_def)
    moreover have "content h b = []" using content_empty [OF b] bare by simp
    ultimately show ?thesis
      using run None n bare Buffer_default_spec(2-4) [OF wf d] by (intro exI [of _ ?h2]) (simp add: retain_if_def slice_def)
  next
    case (Some p)
    obtain ph k s i bs where v: "phys h p = Some ph" "buffer_start p ph = Some (k, s)"
      "data' x = Some (k, i)" "s \<le> i" "i + length' x \<le> s + capacity' ph" "mem h k = Some bs"
      "s + capacity' ph \<le> length bs" "length bs < 2 ^ 64" "content h b = slice bs i (length' x)"
      "Buffer_ToString b h = Inr (slice bs i (length' x))" "k = Own p \<or> (\<exists>e. k = Ext e)"
      by (rule view_bytes [OF wf_heapD(1) [OF wf] b Some])
    have small: "ref_count' ph + 1 < 2 ^ 32" using r b Some v(1) by (simp add: can_retain_def)
    have pa: "ptr_add (data' x) offset = Some (k, i + offset)"
      using v n by (simp add: ptr_add_def sz_add_eq)
    let ?h = "?h2\<lparr>phys := (phys h)(p \<mapsto> ph\<lparr>ref_count' := ref_count' ph + 1\<rparr>)\<rparr>"
    have "wf_heap ?h" "frame {d} h ?h"
      by (rule share_spec [OF wf_heapD(1) [OF wf] wf_heapD(2) [OF wf] links_off_dead [OF wf_heapD(3) [OF wf] d],
          of ?y p ph]; use Some small v n d pa in \<open>simp add: view_in_def\<close>)+
    moreover have "content ?h d = slice (content h b) offset n"
      unfolding v(9) by (subst content_slice [of _ _ ?y k "i + offset" bs])
        (use v n pa in \<open>simp_all add: slice_slice\<close>)
    moreover have "Slice offset n b d h = Inr ?h" using run Some v(1) small by (simp add: retain_if_def Retain_def)
    ultimately show ?thesis by (intro exI [of _ ?h]) simp
  qed
qed

text \<open>Copying a node is slicing all of it.\<close>

lemma Buffer_copy_slice:
  assumes wf: "wf_heap h" and b: "bufs h b = Some x" and d: "bufs h d = None"
  shows "Buffer_copy d b h = Slice 0 (length' x) b d h"
proof -
  have chk: "sz_add 0 (length' x) \<le> length' x" using length_bound [OF wf b] by (simp add: sz_add_eq)
  have pa: "ptr_add (data' x) 0 = data' x"
  proof (cases "physical' x")
    case None
    then show ?thesis using wf_heapD(2) [OF wf, of b] b by (simp add: ptr_add_def bare_ok_def)
  next
    case (Some p)
    show ?thesis by (rule view_bytes [OF wf_heapD(1) [OF wf] b Some]) (simp add: ptr_add_def sz_add_eq)
  qed
  show ?thesis
    unfolding Slice_def Buffer_copy_def Buffer_default_spec(1) [OF wf d] retain_if_def Retain_def
    using b d chk pa wf_pendD(7) [OF wf_heapD(1) [OF wf] b]
    by (auto simp: new_buffer_def upd_buf_def MakeSelfRing_def view_in_def split: option.splits)
qed

lemma slice_whole: "slice xs 0 (length xs) = xs"
  by (simp add: slice_def)

lemma Buffer_copy_spec:
  assumes wf: "wf_heap h" and b: "bufs h b = Some x" and d: "bufs h d = None" and r: "can_retain h b"
  shows "\<exists>h'. Buffer_copy d b h = Inr h' \<and> wf_heap h' \<and> frame {d} h h' \<and> content h' d = content h b
    \<and> mem h' = mem h \<and> malloc_ok h' = malloc_ok h \<and> (\<exists>y. bufs h' = (bufs h)(d \<mapsto> y) \<and> physical' y = physical' x)"
proof -
  have len: "length (content h b) = length' x" by (rule length_content [OF wf_heapD(1) [OF wf] wf_heapD(2) [OF wf] b])
  let ?y = "\<lparr>physical' = physical' x, data' = ptr_add (data' x) 0, length' = length' x, next' = d, prev' = d\<rparr>"
  obtain h' where h': "Buffer_copy d b h = Inr h'" "wf_heap h'" "frame {d} h h'"
    "content h' d = slice (content h b) 0 (length' x)" "mem h' = mem h" "malloc_ok h' = malloc_ok h"
    "bufs h' = (bufs h)(d \<mapsto> ?y)"
    using Slice_spec [OF wf b d, of 0 "length' x"] r Buffer_copy_slice [OF wf b d] by auto
  then show ?thesis using slice_whole [of "content h b"] len by (intro exI [of _ h'] conjI exI [of _ ?y]) simp_all
qed

text \<open>\<open>Clone\<close> shows the same bytes from storage that nobody shares.\<close>

lemma Clone_spec:
  assumes wf: "wf_heap h" and b: "bufs h b = Some x" and d: "bufs h d = None"
    and small: "sizeof_PhysicalBuffer + length' x < 2 ^ 64" and ok: "malloc_ok h (sizeof_PhysicalBuffer + length' x)"
  shows "\<exists>h'. Clone b d h = Inr h' \<and> wf_heap h' \<and> frame {d} h h' \<and> content h' d = content h b
    \<and> malloc_ok h' = malloc_ok h \<and> (\<forall>c. c \<noteq> d \<longrightarrow> bufs h' c = bufs h c)
    \<and> (\<forall>y q. bufs h' d = Some y \<longrightarrow> physical' y = Some q \<longrightarrow> views h' q = {d})"
proof (cases "physical' x = None \<or> length' x = 0")
  case True
  then have "length' x = 0" using wf_heapD(2) [OF wf, of b] b by (auto simp: bare_ok_def)
  then have "content h b = []" by (rule content_empty [OF b])
  then show ?thesis using True Buffer_default_spec [OF wf d] b by (auto simp: Clone_def)
next
  case False
  have len: "length (content h b) = length' x" by (rule length_content [OF wf_heapD(1) [OF wf] wf_heapD(2) [OF wf] b])
  have "Clone b d h = Buffer_CopyFrom d (content h b) h"
    using False b load_content [OF wf_heapD(1) [OF wf] wf_heapD(2) [OF wf] b, of h] by (auto simp: Clone_def)
  then show ?thesis
    using Buffer_CopyFrom_spec [OF wf d, of "content h b"] small ok by (auto simp: len)
qed

section \<open>Destruction and assignment\<close>

text \<open>The storage that \<open>b\<close> gives up is freed exactly when \<open>b\<close> is its last view.\<close>

definition free_calls_of :: "heap \<Rightarrow> bid \<Rightarrow> (nat \<times> ptr) list" where
  "free_calls_of h b = (case bufs h b of None \<Rightarrow> [] | Some x \<Rightarrow>
     (case physical' x of None \<Rightarrow> [] | Some p \<Rightarrow>
        (case phys h p of None \<Rightarrow> [] | Some ph \<Rightarrow> if ref_count' ph = 1 then free_calls ph else [])))"

text \<open>The first two steps of the destructor and of both assignments.\<close>

lemma unlink_release:
  assumes wf: "wf_heap h" and b: "bufs h b = Some x"
  obtains h1 h2 y where "UnlinkFromRing b h = Inr h1" "ReleasePhysical b h1 = Inr h2"
    "wf_pend (\<lambda>_. 0) h2" "frame {b} h h2" "links_off b h2" "\<And>c. c \<noteq> b \<Longrightarrow> bare_ok h2 c"
    "bufs h2 b = Some y" "physical' y = None" "malloc_ok h2 = malloc_ok h" "free_log h2 = free_log h @ free_calls_of h b"
    "\<And>c. c \<noteq> b \<Longrightarrow> map_option view_of (bufs h2 c) = map_option view_of (bufs h c)"
    "\<And>p ph. phys h p = Some ph \<Longrightarrow> (if physical' x = Some p \<and> ref_count' ph = 1 then phys h2 p = None
        else \<exists>ph2. phys h2 p = Some ph2 \<and> ref_count' ph2 = ref_count' ph - (if physical' x = Some p then 1 else 0))"
proof -
  obtain h1 where u: "UnlinkFromRing b h = Inr h1" "ring_only h h1" "links_off b h1"
    by (rule UnlinkFromRing_spec [OF wf_heapD(3) [OF wf] b])
  obtain x1 where x1: "bufs h1 b = Some x1" "view_of x1 = view_of x" using ring_only_live [OF u(2) b] by blast
  have wv1: "wf_views h1" by (rule ring_only_wf_views [OF u(2)]) (use wf in \<open>simp add: wf_heap_def\<close>)
  then have wp1: "wf_pend (\<lambda>_. 0) h1" by (simp add: wf_views_def)
  note bare1 = wf_views_bare [OF wv1]
  have same: "phys h1 = phys h" "malloc_ok h1 = malloc_ok h" "free_log h1 = free_log h"
    and vw: "\<And>c. map_option view_of (bufs h1 c) = map_option view_of (bufs h c)"
    using u(2) by (auto simp: ring_only_def)
  have px: "physical' x1 = physical' x" using x1(2) by (simp add: view_of_def)
  show thesis
  proof (rule ReleasePhysical_frame [OF wp1 x1(1) bare1])
    fix h2 assume r: "ReleasePhysical b h1 = Inr h2" "wf_pend (\<lambda>_. 0) h2" "frame {b} h1 h2"
      "bufs h2 = (bufs h1)(b \<mapsto> x1\<lparr>physical' := None\<rparr>)" "malloc_ok h2 = malloc_ok h1"
      and p1: "\<And>q. physical' x1 \<noteq> Some q \<Longrightarrow> phys h2 q = phys h1 q"
      and p2: "\<And>q ph. physical' x1 = Some q \<Longrightarrow> phys h1 q = Some ph \<Longrightarrow>
        phys h2 q = (if ref_count' ph = 1 then None else Some (ph\<lparr>ref_count' := ref_count' ph - 1\<rparr>))
        \<and> free_log h2 = free_log h1 @ (if ref_count' ph = 1 then free_calls ph else [])"
    have sl: "same_links h1 h2" by (rule same_links_upd_buf [OF x1(1) _ _ r(4)]) simp_all
    have fl: "free_log h2 = free_log h @ free_calls_of h b"
    proof (cases "physical' x")
      case None
      then have "ReleasePhysical b h1 = Inr h1" using x1 px by (simp add: ReleasePhysical_def)
      with r(1) None b same(3) show ?thesis by (simp add: free_calls_of_def)
    next
      case (Some p)
      obtain ph where "phys h p = Some ph"
        using wf_pendD(7) [OF wf_heapD(1) [OF wf] b Some] by (auto simp: view_in_def)
      with p2 [of p ph] Some px b show ?thesis by (simp add: free_calls_of_def same)
    qed
    have ps: "if physical' x = Some p \<and> ref_count' ph = 1 then phys h2 p = None
        else \<exists>ph2. phys h2 p = Some ph2 \<and> ref_count' ph2 = ref_count' ph - (if physical' x = Some p then 1 else 0)"
      if "phys h p = Some ph" for p ph
      using p1 [of p] p2 [of p ph] that px by (auto simp: same)
    show thesis
      by (rule that [OF u(1) r(1,2) _ same_links_off [OF sl u(3)] _ _ _ _ fl _ ps])
        (use frame_trans [OF frame_ring_only [OF u(2)] r(3)] r(4,5) same bare1 vw in \<open>auto simp: bare_ok_def\<close>)
  qed
qed

lemma Buffer_destroy_spec:
  assumes wf: "wf_heap h" and b: "bufs h b = Some x"
  shows "\<exists>h'. Buffer_destroy b h = Inr h' \<and> wf_heap h' \<and> frame {b} h h' \<and> bufs h' b = None
    \<and> free_log h' = free_log h @ free_calls_of h b \<and> malloc_ok h' = malloc_ok h
    \<and> (\<forall>p ph. phys h p = Some ph \<longrightarrow> (phys h' p = None \<longleftrightarrow> views h p = {b}))"
proof (rule unlink_release [OF wf b])
  fix h1 h2 y assume r: "UnlinkFromRing b h = Inr h1" "ReleasePhysical b h1 = Inr h2"
    "wf_pend (\<lambda>_. 0) h2" "frame {b} h h2" "links_off b h2" "bufs h2 b = Some y" "physical' y = None"
    "malloc_ok h2 = malloc_ok h" "free_log h2 = free_log h @ free_calls_of h b"
    and bare: "\<And>c. c \<noteq> b \<Longrightarrow> bare_ok h2 c"
    and ps: "\<And>p ph. phys h p = Some ph \<Longrightarrow> (if physical' x = Some p \<and> ref_count' ph = 1 then phys h2 p = None
        else \<exists>ph2. phys h2 p = Some ph2 \<and> ref_count' ph2 = ref_count' ph - (if physical' x = Some p then 1 else 0))"
  let ?h = "h2\<lparr>bufs := (bufs h2)(b := None)\<rparr>"
  have "wf_pend (\<lambda>_. 0) ?h" by (rule wf_pend_same_phys [OF r(3)]) (use r(6,7) in auto)
  moreover have "bare_ok ?h c" for c using bare [of c] by (auto simp: bare_ok_def)
  moreover have "links_ok ?h" using r(5) by (rule links_off_delete)
  ultimately have "wf_heap ?h" by (rule wf_heapI)
  moreover have "frame {b} h ?h" using frame_trans [OF r(4) frame_upd_buf] by simp
  moreover have "phys h2 p = None \<longleftrightarrow> views h p = {b}" if p: "phys h p = Some ph" for p ph
  proof -
    have rc: "ref_count' ph = card (views h p)" using wf_pendD(2) [OF wf_heapD(1) [OF wf] p] by simp
    have "b \<in> views h p \<longleftrightarrow> physical' x = Some p" using b by (auto simp: views_def)
    then have "views h p = {b} \<longleftrightarrow> physical' x = Some p \<and> ref_count' ph = 1"
      unfolding rc by (auto simp: card_1_singleton_iff)
    then show ?thesis using ps [OF p] by (auto split: if_splits)
  qed
  moreover have "Buffer_destroy b h = Inr ?h" using r by (simp add: Buffer_destroy_def)
  ultimately show ?thesis using r(8,9) by (intro exI [of _ ?h]) simp
qed

text \<open>A node without storage that becomes a ring of its own.\<close>

lemma become_bare:
  assumes wp: "wf_pend (\<lambda>_. 0) h" and bare: "\<And>c. c \<noteq> b \<Longrightarrow> bare_ok h c" and off: "links_off b h"
    and b: "Option.bind (bufs h b) physical' = None"
    and v: "physical' v = None" "data' v = None" "length' v = 0" "next' v = b" "prev' v = b"
  defines "h' \<equiv> h\<lparr>bufs := (bufs h)(b \<mapsto> v)\<rparr>"
  shows "wf_heap h'" "frame {b} h h'" "content h' b = []"
proof -
  have "wf_pend (\<lambda>_. 0) h'" unfolding h'_def by (rule wf_pend_same_phys [OF wp]) (use b v in auto)
  moreover have "bare_ok h' c" for c using bare [of c] v by (auto simp: bare_ok_def h'_def)
  moreover have "links_ok h'" by (rule links_off_make_self [OF off v(4,5)]) (simp add: h'_def)
  ultimately show "wf_heap h'" by (rule wf_heapI)
  show "frame {b} h h'" unfolding h'_def by (rule frame_upd_buf) simp
  show "content h' b = []" using v by (simp add: h'_def content_def Buffer_ToString_def load_def)
qed

lemma content_view: "bufs h b = Some x \<Longrightarrow> bufs h' c = Some y \<Longrightarrow> view_of y = view_of x \<Longrightarrow> mem h' = mem h
  \<Longrightarrow> content h' c = content h b"
  by (simp add: content_def Buffer_ToString_def load_def view_of_def)

lemma frame_content: "frame S h h' \<Longrightarrow> c \<notin> S \<Longrightarrow> content h' c = content h c"
  by (simp add: frame_def)

lemma Buffer_copy_assign_spec:
  assumes wf: "wf_heap h" and b: "bufs h b = Some x" and rhs: "bufs h rhs = Some r" and ne: "b \<noteq> rhs"
    and ret: "can_retain h rhs"
  shows "\<exists>h'. Buffer_copy_assign b rhs h = Inr h' \<and> wf_heap h' \<and> frame {b} h h' \<and> content h' b = content h rhs
    \<and> free_log h' = free_log h @ free_calls_of h b \<and> malloc_ok h' = malloc_ok h"
proof (rule unlink_release [OF wf b])
  fix h1 h2 y assume u: "UnlinkFromRing b h = Inr h1" "ReleasePhysical b h1 = Inr h2"
    "wf_pend (\<lambda>_. 0) h2" "frame {b} h h2" "links_off b h2" "bufs h2 b = Some y" "physical' y = None"
    "malloc_ok h2 = malloc_ok h" "free_log h2 = free_log h @ free_calls_of h b"
    and bare: "\<And>c. c \<noteq> b \<Longrightarrow> bare_ok h2 c"
    and vw: "\<And>c. c \<noteq> b \<Longrightarrow> map_option view_of (bufs h2 c) = map_option view_of (bufs h c)"
    and ps: "\<And>p ph. phys h p = Some ph \<Longrightarrow> (if physical' x = Some p \<and> ref_count' ph = 1 then phys h2 p = None
        else \<exists>ph2. phys h2 p = Some ph2 \<and> ref_count' ph2 = ref_count' ph - (if physical' x = Some p then 1 else 0))"
  obtain r2 where r2: "bufs h2 rhs = Some r2" "view_of r2 = view_of r" using vw [of rhs] rhs ne by auto
  then have pr: "physical' r2 = physical' r" by (simp add: view_of_def)
  have c2: "content h2 rhs = content h rhs" using u(4) ne by (simp add: frame_def)
  have bd: "Option.bind (bufs h2 b) physical' = None" using u(6,7) by simp
  let ?v = "y\<lparr>physical' := physical' r2, data' := data' r2, length' := length' r2\<rparr>"
  let ?w = "?v\<lparr>next' := b, prev' := b\<rparr>"
  show ?thesis
  proof (cases "physical' r2")
    case None
    then have d: "data' r2 = None" "length' r2 = 0" using bare [of rhs] r2 ne by (auto simp: bare_ok_def)
    let ?h = "h2\<lparr>bufs := (bufs h2)(b \<mapsto> ?w)\<rparr>"
    have h: "wf_heap ?h" "frame {b} h2 ?h" "content ?h b = []"
      using become_bare [OF u(3) bare u(5) bd, of ?w] None d by simp_all
    moreover have "Buffer_copy_assign b rhs h = Inr ?h"
      using u ne r2 None by (simp add: Buffer_copy_assign_def upd_buf_def retain_if_def MakeSelfRing_def)
    moreover have "content h rhs = []" using content_empty [OF r2(1) d(2)] c2 by simp
    ultimately show ?thesis using frame_trans [OF u(4) h(2)] u(8,9) by (intro exI [of _ ?h]) simp
  next
    case (Some p)
    have vi: "view_in h2 r2 p" using wf_pendD(7) [OF u(3) r2(1) Some] .
    then obtain ph2 where ph2: "phys h2 p = Some ph2" by (auto simp: view_in_def)
    obtain ph where ph: "phys h p = Some ph"
      using wf_pendD(7) [OF wf_heapD(1) [OF wf] rhs] Some pr by (auto simp: view_in_def)
    have "ref_count' ph + 1 < 2 ^ 32" using ret rhs pr Some ph unfolding can_retain_def by metis
    then have small: "ref_count' ph2 + 1 < 2 ^ 32" using ps [OF ph] ph2 by (auto split: if_splits)
    let ?h = "h2\<lparr>bufs := (bufs h2)(b \<mapsto> ?w), phys := (phys h2)(p \<mapsto> ph2\<lparr>ref_count' := ref_count' ph2 + 1\<rparr>)\<rparr>"
    have h: "wf_heap ?h" "frame {b} h2 ?h"
      by (rule share_spec [OF u(3) bare u(5) bd, of ?w p ph2]; use Some ph2 small vi in \<open>simp add: view_in_def\<close>)+
    moreover have "Buffer_copy_assign b rhs h = Inr ?h"
      using u ne r2 Some ph2 small
      by (simp add: Buffer_copy_assign_def upd_buf_def retain_if_def Retain_def MakeSelfRing_def)
    moreover have "content ?h b = content h rhs" unfolding c2 [symmetric]
      by (rule content_view [OF r2(1), of _ _ ?w]) (simp_all add: view_of_def)
    ultimately show ?thesis using frame_trans [OF u(4) h(2)] u(8,9) by (intro exI [of _ ?h]) simp
  qed
qed

text \<open>Moving the view and the place in the ring from \<open>rhs\<close> to a node \<open>d\<close> that has neither.\<close>

lemma move_core:
  assumes wp: "wf_pend (\<lambda>_. 0) h" and bare: "\<And>c. c \<noteq> d \<Longrightarrow> bare_ok h c" and off: "links_off d h"
    and d: "bufs h d = Some x" "physical' x = None" and rhs: "bufs h rhs = Some r" and ne: "d \<noteq> rhs"
  defines "v \<equiv> x\<lparr>physical' := physical' r, data' := data' r, length' := length' r\<rparr>"
  shows "\<exists>h'. rbind (StealRingPosition d rhs (h\<lparr>bufs := (bufs h)(d \<mapsto> v)\<rparr>)) (clear_moved rhs) = Inr h'
    \<and> wf_heap h' \<and> frame {d, rhs} h h' \<and> content h' d = content h rhs \<and> content h' rhs = []
    \<and> malloc_ok h' = malloc_ok h \<and> free_log h' = free_log h \<and> phys h' = phys h \<and> mem h' = mem h"
proof -
  let ?h1 = "h\<lparr>bufs := (bufs h)(d \<mapsto> v)\<rparr>"
  have sl: "same_links h ?h1" by (rule same_links_upd_buf [OF d(1)]) (simp_all add: v_def)
  have d1: "bufs ?h1 d = Some v" and r1: "bufs ?h1 rhs = Some r" using ne rhs by simp_all
  obtain h2 where st: "StealRingPosition d rhs ?h1 = Inr h2" "ring_only ?h1 h2" "links_off rhs h2"
    by (rule StealRingPosition_spec [OF same_links_off [OF sl off] d1 r1 ne])
  obtain r2 where r2: "bufs h2 rhs = Some r2" "view_of r2 = view_of r" using ring_only_live [OF st(2) r1] by blast
  obtain d2 where d2: "bufs h2 d = Some d2" "view_of d2 = view_of v" using ring_only_live [OF st(2) d1] by blast
  let ?e = "r2\<lparr>physical' := None, data' := None, length' := 0, next' := rhs, prev' := rhs\<rparr>"
  let ?h = "h2\<lparr>bufs := (bufs h2)(rhs \<mapsto> ?e)\<rparr>"
  have run: "clear_moved rhs h2 = Inr ?h"
    using r2 by (simp add: clear_moved_def upd_buf_def MakeSelfRing_def)
  let ?r0 = "r\<lparr>physical' := None, data' := None, length' := 0\<rparr>"
  let ?ha = "h\<lparr>bufs := (bufs h)(rhs \<mapsto> ?r0)\<rparr>"
  let ?hb = "?ha\<lparr>bufs := (bufs ?ha)(d \<mapsto> v)\<rparr>"
  have "wf_pend (\<lambda>_. 0) ?hb"
  proof (cases "physical' r")
    case None
    have "wf_pend (\<lambda>_. 0) ?ha" by (rule wf_pend_same_phys [OF wp]) (use rhs None in auto)
    then show ?thesis by (rule wf_pend_same_phys) (use ne d None in \<open>auto simp: v_def\<close>)
  next
    case (Some p)
    have "view_in h r p" by (rule wf_pendD(7) [OF wp rhs Some])
    then have vi: "view_in ?ha v p" by (simp add: view_in_def v_def)
    have "wf_pend ((\<lambda>_. 0)(p := Suc 0)) ?ha" by (rule wf_pend_detach [OF wp rhs Some]) simp
    then have "wf_pend (((\<lambda>_. 0)(p := Suc 0))(p := ((\<lambda>_. 0)(p := Suc 0)) p - 1)) ?hb"
      by (rule wf_pend_attach) (use vi ne d Some in \<open>auto simp: v_def\<close>)
    then show ?thesis by (simp add: fun_upd_idem)
  qed
  moreover have ro: "ring_only ?hb ?h"
    using st(2) r2 ne unfolding ring_only_def by (auto simp: view_of_def)
  ultimately have "wf_pend (\<lambda>_. 0) ?h" by (rule ring_only_wf_pend [rotated])
  moreover have "bare_ok ?h c" for c
  proof -
    have "bare_ok ?hb c" using bare [of c] bare [of rhs] ne rhs by (auto simp: bare_ok_def v_def)
    then show ?thesis unfolding bare_ok_def using ring_only_live' [OF ro] by (fastforce simp: view_of_def)
  qed
  moreover have "links_ok ?h" by (rule links_off_make_self [OF st(3)]) simp_all
  ultimately have "wf_heap ?h" by (rule wf_heapI)
  moreover have m: "mem ?h = mem h" "phys ?h = phys h" "malloc_ok ?h = malloc_ok h" "free_log ?h = free_log h"
    using st(2) by (simp_all add: ring_only_def)
  have "content ?h d = content h rhs"
    by (rule content_view [OF rhs, of _ _ d2]) (use d2 ne m in \<open>simp_all add: view_of_def v_def\<close>)
  moreover have "content ?h rhs = []" by (simp add: content_def Buffer_ToString_def load_def)
  moreover have "frame {d, rhs} h ?hb" by (rule frame_mem_same) simp_all
  then have "frame {d, rhs} h ?h" using frame_ring_only [OF ro] frame_trans by blast
  ultimately show ?thesis using st(1) run m by (intro exI [of _ ?h]) simp
qed

lemma Buffer_move_spec:
  assumes wf: "wf_heap h" and rhs: "bufs h rhs = Some r" and d: "bufs h d = None"
  shows "\<exists>h'. Buffer_move d rhs h = Inr h' \<and> wf_heap h' \<and> frame {d, rhs} h h' \<and> content h' d = content h rhs
    \<and> content h' rhs = [] \<and> malloc_ok h' = malloc_ok h \<and> free_log h' = free_log h \<and> phys h' = phys h"
proof -
  let ?x = "\<lparr>physical' = None, data' = None, length' = 0, next' = d, prev' = d\<rparr>"
  let ?h0 = "h\<lparr>bufs := (bufs h)(d \<mapsto> ?x)\<rparr>"
  note df = Buffer_default_spec [OF wf d]
  have ne: "d \<noteq> rhs" using rhs d by auto
  have r0: "bufs ?h0 rhs = Some r" using ne rhs by simp
  have c0: "content ?h0 rhs = content h rhs" using df(3) ne by (simp add: frame_def)
  have f0: "frame {d, rhs} h ?h0" using df(3) by (rule frame_mono) simp
  note mc = move_core [OF wf_heapD(1) [OF df(2)] wf_heapD(2) [OF df(2)] links_ok_off_new [OF wf_heapD(3) [OF wf] d]
      _ _ r0 ne, of ?x]
  have "Buffer_move d rhs h = rbind (StealRingPosition d rhs (?h0\<lparr>bufs := (bufs ?h0)(d \<mapsto>
      ?x\<lparr>physical' := physical' r, data' := data' r, length' := length' r\<rparr>)\<rparr>)) (clear_moved rhs)"
    using rhs d by (simp add: Buffer_move_def new_buffer_def)
  then show ?thesis using mc c0 frame_trans [OF f0] by auto
qed

lemma Buffer_move_assign_spec:
  assumes wf: "wf_heap h" and b: "bufs h b = Some x" and rhs: "bufs h rhs = Some r" and ne: "b \<noteq> rhs"
  shows "\<exists>h'. Buffer_move_assign b rhs h = Inr h' \<and> wf_heap h' \<and> frame {b, rhs} h h' \<and> content h' b = content h rhs
    \<and> content h' rhs = [] \<and> free_log h' = free_log h @ free_calls_of h b \<and> malloc_ok h' = malloc_ok h"
proof (rule unlink_release [OF wf b])
  fix h1 h2 y assume u: "UnlinkFromRing b h = Inr h1" "ReleasePhysical b h1 = Inr h2"
    "wf_pend (\<lambda>_. 0) h2" "frame {b} h h2" "links_off b h2" "bufs h2 b = Some y" "physical' y = None"
    "malloc_ok h2 = malloc_ok h" "free_log h2 = free_log h @ free_calls_of h b"
    and bare: "\<And>c. c \<noteq> b \<Longrightarrow> bare_ok h2 c"
    and vw: "\<And>c. c \<noteq> b \<Longrightarrow> map_option view_of (bufs h2 c) = map_option view_of (bufs h c)"
  obtain r2 where r2: "bufs h2 rhs = Some r2" using vw [of rhs] rhs ne by auto
  have c2: "content h2 rhs = content h rhs" using u(4) ne by (simp add: frame_def)
  have f2: "frame {b, rhs} h h2" using u(4) by (rule frame_mono) simp
  note mc = move_core [OF u(3) bare u(5-7) r2 ne]
  have "Buffer_move_assign b rhs h = rbind (StealRingPosition b rhs (h2\<lparr>bufs := (bufs h2)(b \<mapsto>
      y\<lparr>physical' := physical' r2, data' := data' r2, length' := length' r2\<rparr>)\<rparr>)) (clear_moved rhs)"
    using u ne r2 by (simp add: Buffer_move_assign_def upd_buf_def)
  then show ?thesis using mc c2 frame_trans [OF f2] u(8,9) by auto
qed

end
