(* ===== verification/Buffer_Write.thy ===== *)
theory Buffer_Write
  imports Buffer_Ops
begin

text \<open>
  The operations that move the window of a node (\<open>TrimStart\<close>, \<open>TrimEnd\<close>, \<open>Prepend\<close>, \<open>Append\<close>) and the
  copy-on-write writers (\<open>CowDetach\<close>, \<open>EnsureTailroom\<close>, \<open>Reserve\<close>, \<open>AppendData\<close>) of \<^verbatim>\<open>buffer.h\<close> and
  \<^verbatim>\<open>buffer.cc\<close>.
\<close>

section \<open>Room around a view\<close>

lemma view_room:
  assumes wf: "wf_heap h" and b: "bufs h b = Some x" and p: "physical' x = Some p"
  obtains ph k s i bs where "phys h p = Some ph" "buffer_start p ph = Some (k, s)"
    "data' x = Some (k, i)" "s \<le> i" "i + length' x \<le> s + capacity' ph" "mem h k = Some bs"
    "s + capacity' ph \<le> length bs" "length bs < 2 ^ 64" "content h b = slice bs i (length' x)"
    "headroom b h = Inr (i - s)" "tailroom b h = Inr (s + capacity' ph - (i + length' x))"
    "Buffer_capacity b h = Inr (capacity' ph)" "Buffer_is_shared b h = Inr (1 < ref_count' ph)"
    "ref_count' ph = card (views h p)"
proof -
  obtain ph k s i bs where v: "phys h p = Some ph" "buffer_start p ph = Some (k, s)"
    "data' x = Some (k, i)" "s \<le> i" "i + length' x \<le> s + capacity' ph" "mem h k = Some bs"
    "s + capacity' ph \<le> length bs" "length bs < 2 ^ 64" "content h b = slice bs i (length' x)"
    "Buffer_ToString b h = Inr (slice bs i (length' x))" "k = Own p \<or> (\<exists>e. k = Ext e)"
    by (rule view_bytes [OF wf_heapD(1) [OF wf] b p])
  have hr: "headroom b h = Inr (i - s)"
    using b p v by (simp add: headroom_def ptr_diff_def sz_sub_eq)
  have "sz_sub (sz_sub (capacity' ph) (i - s)) (length' x) = s + capacity' ph - (i + length' x)"
    using v by (simp add: sz_sub_eq)
  then have tr: "tailroom b h = Inr (s + capacity' ph - (i + length' x))"
    using b p v hr by (simp add: tailroom_def)
  have rc: "ref_count' ph = card (views h p)" using wf_pendD(2) [OF wf_heapD(1) [OF wf] v(1)] by simp
  show thesis
    by (rule that [OF v(1-9) hr tr _ _ rc])
      (use b p v(1) in \<open>simp_all add: Buffer_capacity_def Buffer_is_shared_def PhysicalBuffer_is_shared_def\<close>)
qed

lemma views_single:
  assumes "wf_heap h" "bufs h b = Some x" "physical' x = Some p" "\<not> 1 < card (views h p)"
  shows "views h p = {b}"
proof -
  have fin: "finite (views h p)" by (rule finite_views [OF wf_pendD(1) [OF wf_heapD(1) [OF assms(1)]]])
  moreover have "b \<in> views h p" using assms by (auto simp: views_def)
  ultimately have "card (views h p) \<noteq> 0" by auto
  with assms(4) have "card (views h p) = 1" by linarith
  with \<open>b \<in> views h p\<close> show ?thesis by (auto simp: card_1_singleton_iff)
qed

lemma Buffer_ToString_spec:
  assumes wf: "wf_heap h" and b: "bufs h b = Some x"
  shows "Buffer_ToString b h = Inr (content h b)"
  using load_content [OF wf_heapD(1) [OF wf] wf_heapD(2) [OF wf] b, of h] b by (simp add: Buffer_ToString_def)

section \<open>Moving the window\<close>

lemma TrimStart_spec:
  assumes wf: "wf_heap h" and b: "bufs h b = Some x"
  shows "TrimStart n b h = (if n \<le> length' x
           then Inr (h\<lparr>bufs := (bufs h)(b \<mapsto> x\<lparr>data' := ptr_add (data' x) n, length' := length' x - n\<rparr>)\<rparr>)
           else Inl CheckFailed)"
    and "n \<le> length' x \<Longrightarrow> TrimStart n b h = Inr h' \<Longrightarrow>
           wf_heap h' \<and> frame {b} h h' \<and> content h' b = drop n (content h b)"
proof -
  show run: "TrimStart n b h = (if n \<le> length' x
           then Inr (h\<lparr>bufs := (bufs h)(b \<mapsto> x\<lparr>data' := ptr_add (data' x) n, length' := length' x - n\<rparr>)\<rparr>)
           else Inl CheckFailed)"
    using b length_bound [OF wf b] by (simp add: TrimStart_def upd_buf_def sz_sub_eq)
  assume n: "n \<le> length' x" and "TrimStart n b h = Inr h'"
  then have h': "h' = h\<lparr>bufs := (bufs h)(b \<mapsto> x\<lparr>data' := ptr_add (data' x) n, length' := length' x - n\<rparr>)\<rparr>"
    using run by simp
  let ?y = "x\<lparr>data' := ptr_add (data' x) n, length' := length' x - n\<rparr>"
  show "wf_heap h' \<and> frame {b} h h' \<and> content h' b = drop n (content h b)"
  proof (cases "physical' x")
    case None
    then have d: "data' x = None" "length' x = 0" using wf_heapD(2) [OF wf, of b] b by (auto simp: bare_ok_def)
    then have "?y = x" using n by (cases x) (simp add: ptr_add_def)
    then have "h' = h" using b by (simp add: h' fun_upd_idem)
    with content_empty [OF b d(2)] show ?thesis using wf by simp
  next
    case (Some p)
    obtain ph k s i bs where v: "phys h p = Some ph" "buffer_start p ph = Some (k, s)"
      "data' x = Some (k, i)" "s \<le> i" "i + length' x \<le> s + capacity' ph" "mem h k = Some bs"
      "s + capacity' ph \<le> length bs" "length bs < 2 ^ 64" "content h b = slice bs i (length' x)"
      by (rule view_room [OF wf b Some])
    have pa: "ptr_add (data' x) n = Some (k, i + n)" using v n by (simp add: ptr_add_def sz_add_eq)
    have "wf_heap h' \<and> frame {b} h h'" unfolding h'
      by (intro conjI; rule set_view [OF wf b Some]; use Some v n pa in \<open>simp add: view_in_def\<close>)
    moreover have "content h' b = slice bs (i + n) (length' x - n)"
      by (subst content_slice [of _ _ ?y k "i + n" bs]) (use v n pa in \<open>simp_all add: h'\<close>)
    moreover have "\<dots> = drop n (content h b)" using n by (simp add: v(9) slice_def drop_take add.commute)
    ultimately show ?thesis by simp
  qed
qed

lemma TrimEnd_spec:
  assumes wf: "wf_heap h" and b: "bufs h b = Some x"
  shows "TrimEnd n b h = (if n \<le> length' x
           then Inr (h\<lparr>bufs := (bufs h)(b \<mapsto> x\<lparr>length' := length' x - n\<rparr>)\<rparr>) else Inl CheckFailed)"
    and "n \<le> length' x \<Longrightarrow> TrimEnd n b h = Inr h' \<Longrightarrow>
           wf_heap h' \<and> frame {b} h h' \<and> content h' b = take (length' x - n) (content h b)"
proof -
  show run: "TrimEnd n b h = (if n \<le> length' x
           then Inr (h\<lparr>bufs := (bufs h)(b \<mapsto> x\<lparr>length' := length' x - n\<rparr>)\<rparr>) else Inl CheckFailed)"
    using b length_bound [OF wf b] by (simp add: TrimEnd_def upd_buf_def sz_sub_eq)
  assume n: "n \<le> length' x" and "TrimEnd n b h = Inr h'"
  then have h': "h' = h\<lparr>bufs := (bufs h)(b \<mapsto> x\<lparr>length' := length' x - n\<rparr>)\<rparr>" using run by simp
  show "wf_heap h' \<and> frame {b} h h' \<and> content h' b = take (length' x - n) (content h b)"
  proof (cases "physical' x")
    case None
    then have d: "length' x = 0" using wf_heapD(2) [OF wf, of b] b by (auto simp: bare_ok_def)
    then have "x\<lparr>length' := length' x - n\<rparr> = x" by (cases x) simp
    then have "h' = h" using b by (simp add: h' fun_upd_idem)
    with content_empty [OF b d] show ?thesis using wf by simp
  next
    case (Some p)
    obtain ph k s i bs where v: "phys h p = Some ph" "buffer_start p ph = Some (k, s)"
      "data' x = Some (k, i)" "s \<le> i" "i + length' x \<le> s + capacity' ph" "mem h k = Some bs"
      "s + capacity' ph \<le> length bs" "length bs < 2 ^ 64" "content h b = slice bs i (length' x)"
      by (rule view_room [OF wf b Some])
    have "wf_heap h' \<and> frame {b} h h'" unfolding h'
      by (intro conjI; rule set_view [OF wf b Some]; use Some v n in \<open>simp add: view_in_def\<close>)
    moreover have "content h' b = slice bs i (length' x - n)"
      by (subst content_slice [of _ _ "x\<lparr>length' := length' x - n\<rparr>" k i bs]) (use v n in \<open>simp_all add: h'\<close>)
    ultimately show ?thesis by (simp add: v(9) slice_def min_def)
  qed
qed

text \<open>\<open>Prepend\<close> and \<open>Append\<close> succeed exactly within the room there is, and keep the old bytes in place.\<close>

lemma Prepend_spec:
  assumes wf: "wf_heap h" and b: "bufs h b = Some x" and r: "headroom b h = Inr room"
  shows "if n \<le> room then \<exists>h'. Prepend n b h = Inr h' \<and> wf_heap h' \<and> frame {b} h h'
             \<and> length (content h' b) = n + length (content h b) \<and> drop n (content h' b) = content h b
         else Prepend n b h = Inl CheckFailed"
proof (cases "n \<le> room")
  case False
  then show ?thesis using r by (simp add: Prepend_def)
next
  case n: True
  show ?thesis
  proof (cases "physical' x")
    case None
    then have d: "data' x = None" "length' x = 0" "room = 0" using wf_heapD(2) [OF wf, of b] b r
      by (auto simp: bare_ok_def headroom_def)
    then have "x\<lparr>data' := ptr_sub (data' x) n, length' := sz_add (length' x) n\<rparr> = x"
      using n by (cases x) (simp add: ptr_sub_def sz_add_def)
    then have "Prepend n b h = Inr h" using r n b by (simp add: Prepend_def upd_buf_def fun_upd_idem)
    then show ?thesis using n d wf by simp
  next
    case (Some p)
    obtain ph k s i bs where v: "phys h p = Some ph" "buffer_start p ph = Some (k, s)"
      "data' x = Some (k, i)" "s \<le> i" "i + length' x \<le> s + capacity' ph" "mem h k = Some bs"
      "s + capacity' ph \<le> length bs" "length bs < 2 ^ 64" "content h b = slice bs i (length' x)"
      "headroom b h = Inr (i - s)" by (rule view_room [OF wf b Some])
    have ni: "s + n \<le> i" using n r v(4,10) by simp
    let ?y = "x\<lparr>data' := Some (k, i - n), length' := length' x + n\<rparr>"
    let ?h = "h\<lparr>bufs := (bufs h)(b \<mapsto> ?y)\<rparr>"
    have run: "Prepend n b h = Inr ?h"
      using r n b v ni by (simp add: Prepend_def upd_buf_def ptr_sub_def sz_sub_eq sz_add_eq)
    have "wf_heap ?h \<and> frame {b} h ?h"
      by (intro conjI; rule set_view [OF wf b Some]; use Some v ni in \<open>simp add: view_in_def\<close>)
    moreover have c: "content ?h b = slice bs (i - n) (length' x + n)"
      by (subst content_slice [of _ _ ?y k "i - n" bs]) (use v ni in simp_all)
    moreover have "drop n (content ?h b) = content h b" unfolding c v(9) slice_def using ni by (simp add: drop_take)
    ultimately show ?thesis using run v ni n by (auto simp: add.commute)
  qed
qed

lemma Append_spec:
  assumes wf: "wf_heap h" and b: "bufs h b = Some x" and r: "tailroom b h = Inr room"
  shows "if n \<le> room then \<exists>h'. Append n b h = Inr h' \<and> wf_heap h' \<and> frame {b} h h'
             \<and> length (content h' b) = length (content h b) + n \<and> take (length (content h b)) (content h' b) = content h b
         else Append n b h = Inl CheckFailed"
proof (cases "n \<le> room")
  case False
  then show ?thesis using r by (simp add: Append_def)
next
  case n: True
  show ?thesis
  proof (cases "physical' x")
    case None
    then have d: "length' x = 0" "room = 0" using wf_heapD(2) [OF wf, of b] b r
      by (auto simp: bare_ok_def tailroom_def)
    then have "x\<lparr>length' := sz_add (length' x) n\<rparr> = x" using n by (cases x) (simp add: sz_add_def)
    then have "Append n b h = Inr h" using r n b by (simp add: Append_def upd_buf_def fun_upd_idem)
    then show ?thesis using n d wf by simp
  next
    case (Some p)
    obtain ph k s i bs where v: "phys h p = Some ph" "buffer_start p ph = Some (k, s)"
      "data' x = Some (k, i)" "s \<le> i" "i + length' x \<le> s + capacity' ph" "mem h k = Some bs"
      "s + capacity' ph \<le> length bs" "length bs < 2 ^ 64" "content h b = slice bs i (length' x)"
      "headroom b h = Inr (i - s)" "tailroom b h = Inr (s + capacity' ph - (i + length' x))"
      by (rule view_room [OF wf b Some])
    have ni: "i + length' x + n \<le> s + capacity' ph" using n r v(5,11) by simp
    let ?y = "x\<lparr>length' := length' x + n\<rparr>"
    let ?h = "h\<lparr>bufs := (bufs h)(b \<mapsto> ?y)\<rparr>"
    have run: "Append n b h = Inr ?h" using r n b v ni by (simp add: Append_def upd_buf_def sz_add_eq)
    have "wf_heap ?h \<and> frame {b} h ?h"
      by (intro conjI; rule set_view [OF wf b Some]; use Some v ni in \<open>simp add: view_in_def\<close>)
    moreover have c: "content ?h b = slice bs i (length' x + n)"
      by (subst content_slice [of _ _ ?y k i bs]) (use v ni in simp_all)
    moreover have l: "length (content h b) = length' x" using v by simp
    moreover have "take (length' x) (content ?h b) = content h b" unfolding c v(9) slice_def by (simp add: min_def)
    ultimately show ?thesis using run v ni n by auto
  qed
qed

section \<open>Copy on write\<close>

text \<open>Storage for \<open>cap\<close> bytes can be allocated.\<close>

definition can_alloc :: "heap \<Rightarrow> nat \<Rightarrow> bool" where
  "can_alloc h cap \<longleftrightarrow> sizeof_PhysicalBuffer + cap < 2 ^ 64 \<and> malloc_ok h (sizeof_PhysicalBuffer + cap)"

text \<open>The node \<open>b\<close> is the only one that shows its storage.\<close>

definition sole_view :: "heap \<Rightarrow> bid \<Rightarrow> bool" where
  "sole_view h b \<longleftrightarrow> (\<forall>x p. bufs h b = Some x \<longrightarrow> physical' x = Some p \<longrightarrow> views h p = {b})"

lemma CowDetach_spec:
  assumes wf: "wf_heap h" and b: "bufs h b = Some x"
    and ok: "\<And>p ph. physical' x = Some p \<Longrightarrow> phys h p = Some ph \<Longrightarrow> can_alloc h (capacity' ph)"
  shows "\<exists>h' y. CowDetach b h = Inr h' \<and> wf_heap h' \<and> frame {b} h h' \<and> content h' b = content h b \<and> sole_view h' b
    \<and> malloc_ok h' = malloc_ok h \<and> bufs h' = (bufs h)(b \<mapsto> y) \<and> length' y = length' x \<and> next' y = next' x
    \<and> prev' y = prev' x \<and> (physical' y = None \<longleftrightarrow> physical' x = None)
    \<and> (\<forall>q qh. phys h' q = Some qh \<longrightarrow> (\<exists>r rh. phys h r = Some rh \<and> capacity' qh = capacity' rh))"
proof (cases "physical' x")
  case None
  then show ?thesis using b wf
    by (intro exI [of _ h] exI [of _ x]) (auto simp: CowDetach_def sole_view_def fun_upd_idem)
next
  case (Some p)
  obtain ph k s i bs where v: "phys h p = Some ph" "buffer_start p ph = Some (k, s)"
    "data' x = Some (k, i)" "s \<le> i" "i + length' x \<le> s + capacity' ph" "mem h k = Some bs"
    "s + capacity' ph \<le> length bs" "length bs < 2 ^ 64" "content h b = slice bs i (length' x)"
    "headroom b h = Inr (i - s)" "tailroom b h = Inr (s + capacity' ph - (i + length' x))"
    "Buffer_capacity b h = Inr (capacity' ph)" "Buffer_is_shared b h = Inr (1 < ref_count' ph)"
    "ref_count' ph = card (views h p)" by (rule view_room [OF wf b Some])
  show ?thesis
  proof (cases "1 < ref_count' ph")
    case False
    then have "views h p = {b}" using views_single [OF wf b Some] v(14) by simp
    then have "sole_view h b" using b Some by (simp add: sole_view_def)
    then show ?thesis using False b wf Some v(1)
      by (intro exI [of _ h] exI [of _ x]) (auto simp: CowDetach_def PhysicalBuffer_is_shared_def fun_upd_idem)
  next
    case True
    let ?np = "next_phys h"
    let ?y = "x\<lparr>physical' := Some ?np, data' := Some (Own ?np, i - s)\<rparr>"
    have fit: "i - s + length' x \<le> capacity' ph" using v(4,5) by simp
    obtain h' where h': "reseat (capacity' ph) (i - s) b h = Inr h'" "wf_heap h'" "frame {b} h h'"
      "content h' b = content h b" "bufs h' = (bufs h)(b \<mapsto> ?y)" "views h' ?np = {b}" "malloc_ok h' = malloc_ok h"
      "\<forall>q qh. q \<noteq> ?np \<longrightarrow> phys h' q = Some qh \<longrightarrow> (\<exists>ph. phys h q = Some ph \<and> capacity' qh = capacity' ph)"
      "phys h' ?np = Some \<lparr>ref_count' = 1, capacity' = capacity' ph, flags' = 0, external_data' = None, free_fn' = None\<rparr>"
      using reseat_spec [OF wf b fit] ok [OF Some v(1)] unfolding can_alloc_def by blast
    have "\<exists>r rh. phys h r = Some rh \<and> capacity' qh = capacity' rh" if "phys h' q = Some qh" for q qh
    proof (cases "q = ?np")
      case True
      then have "capacity' qh = capacity' ph" using that h'(9) by auto
      then show ?thesis using v(1) by blast
    next
      case False
      then show ?thesis using that h'(8) by blast
    qed
    with h' have "wf_heap h'" "\<forall>q qh. phys h' q = Some qh \<longrightarrow> (\<exists>r rh. phys h r = Some rh \<and> capacity' qh = capacity' rh)"
      by blast+
    moreover have "CowDetach b h = Inr h'"
      using b Some v(1,10) True h'(1) by (simp add: CowDetach_def PhysicalBuffer_is_shared_def)
    moreover have "sole_view h' b" using h'(5,6) by (simp add: sole_view_def)
    ultimately show ?thesis using Some h'(3-5,7) by (intro exI [of _ h'] exI [of _ ?y]) simp
  qed
qed

text \<open>Writing through the pointer of a private node changes the bytes of that node only.\<close>

lemma slice_splice_in:
  "k + length vs \<le> n \<Longrightarrow> i + n \<le> length bs \<Longrightarrow> slice (splice bs (i + k) vs) i n = splice (slice bs i n) k vs"
proof -
  assume "k + length vs \<le> n" "i + n \<le> length bs"
  then obtain m where "n = k + length vs + m" "i + (k + length vs + m) \<le> length bs" by (auto simp: le_iff_add)
  then show ?thesis
    by (cases "length bs - i \<le> k"; cases vs) (auto simp: slice_def splice_def drop_take min_def ac_simps take_add)
qed

lemma write_private:
  assumes wf: "wf_heap h" and b: "bufs h b = Some x" and priv: "sole_view h b"
    and off: "off + length vs \<le> length' x"
  shows "\<exists>h'. store (ptr_add (data' x) off) vs h = Inr h' \<and> wf_heap h' \<and> frame {b} h h'
    \<and> content h' b = splice (content h b) off vs \<and> bufs h' = bufs h \<and> malloc_ok h' = malloc_ok h \<and> phys h' = phys h"
proof (cases "physical' x")
  case None
  then have "length' x = 0" using wf_heapD(2) [OF wf, of b] b by (auto simp: bare_ok_def)
  then show ?thesis using off wf by (intro exI [of _ h]) (simp add: store_def)
next
  case (Some p)
  obtain ph k s i bs where v: "phys h p = Some ph" "buffer_start p ph = Some (k, s)"
    "data' x = Some (k, i)" "s \<le> i" "i + length' x \<le> s + capacity' ph" "mem h k = Some bs"
    "s + capacity' ph \<le> length bs" "length bs < 2 ^ 64" "content h b = slice bs i (length' x)"
    by (rule view_room [OF wf b Some])
  have vw: "views h p = {b}" using priv b Some by (simp add: sole_view_def)
  have pa: "ptr_add (data' x) off = Some (k, i + off)" using v off by (simp add: ptr_add_def sz_add_eq)
  let ?h = "h\<lparr>mem := (mem h)(k \<mapsto> splice bs (i + off) vs)\<rparr>"
  have st: "store (Some (k, i + off)) vs h = Inr ?h" "wf_heap ?h" "frame {b} h ?h"
    using store_private [OF wf b Some vw v(1,2,6), of "i + off" vs] off v(5) by simp_all
  have "content ?h b = slice (splice bs (i + off) vs) i (length' x)"
    by (subst content_slice [of _ _ x k i "splice bs (i + off) vs"]) (use b v off in simp_all)
  also have "\<dots> = splice (content h b) off vs" using v off by (simp add: slice_splice_in)
  finally show ?thesis using st pa by (intro exI [of _ ?h]) simp
qed

section \<open>Growing a node\<close>

definition grown :: "nat \<Rightarrow> nat" where
  "grown want = max want (sz_add (sz_mul want 3 div 2) 64)"

lemma grown_eq: "3 * want + 64 < 2 ^ 64 \<Longrightarrow> grown want = want + want div 2 + 64"
proof -
  assume a: "3 * want + 64 < 2 ^ 64"
  then have "sz_mul want 3 = 3 * want" by (simp add: sz_mul_def)
  moreover have "3 * want div 2 = want + want div 2" by linarith
  ultimately show ?thesis using a by (simp add: grown_def sz_add_eq)
qed

text \<open>
  \<open>EnsureTailroom\<close> on a node with headroom \<open>head\<close>: enough private room is left alone; else the bytes
  move to new storage of \<open>grown (length + n)\<close> bytes at distance \<open>head\<close>.
\<close>

lemma EnsureTailroom_cases:
  assumes wf: "wf_heap h" and b: "bufs h b = Some x"
    and t: "tailroom b h = Inr t" and hd: "headroom b h = Inr head"
    and small: "length' x + n < 2 ^ 64"
  shows "EnsureTailroom n b h = (if sole_view h b \<and> n \<le> t then Inr h else reseat (grown (length' x + n)) head b h)"
proof (cases "physical' x")
  case None
  then show ?thesis
    using b t hd small by (simp add: EnsureTailroom_def Buffer_is_shared_def sole_view_def grown_def sz_add_eq Let_def)
next
  case (Some p)
  show ?thesis
  proof (rule view_room [OF wf b Some])
    fix ph assume v: "phys h p = Some ph" "Buffer_is_shared b h = Inr (1 < ref_count' ph)" "ref_count' ph = card (views h p)"
    have "sole_view h b \<longleftrightarrow> \<not> 1 < ref_count' ph"
      using views_single [OF wf b Some] v(3) b Some by (auto simp: sole_view_def)
    then show ?thesis using b t hd small v(2)
      by (simp add: EnsureTailroom_def grown_def sz_add_eq Let_def)
  qed
qed

lemma EnsureTailroom_spec:
  assumes wf: "wf_heap h" and b: "bufs h b = Some x"
    and t: "tailroom b h = Inr t" and hd: "headroom b h = Inr head"
    and small: "length' x + n < 2 ^ 64"
    and ok: "sole_view h b \<and> n \<le> t \<or> can_alloc h (grown (length' x + n)) \<and> head + length' x + n \<le> grown (length' x + n)"
  shows "\<exists>h' y t'. EnsureTailroom n b h = Inr h' \<and> wf_heap h' \<and> frame {b} h h' \<and> content h' b = content h b
    \<and> sole_view h' b \<and> bufs h' = (bufs h)(b \<mapsto> y) \<and> length' y = length' x \<and> next' y = next' x \<and> prev' y = prev' x
    \<and> malloc_ok h' = malloc_ok h \<and> tailroom b h' = Inr t' \<and> n \<le> t'"
proof (cases "sole_view h b \<and> n \<le> t")
  case True
  then show ?thesis using b t wf EnsureTailroom_cases [OF wf b t hd small]
    by (intro exI [of _ h] exI [of _ x] exI [of _ t]) (simp add: fun_upd_idem)
next
  case False
  let ?np = "next_phys h" and ?cap = "grown (length' x + n)"
  let ?nph = "\<lparr>ref_count' = 1, capacity' = ?cap, flags' = 0, external_data' = None, free_fn' = None\<rparr> :: physical"
  let ?y = "x\<lparr>physical' := Some ?np, data' := Some (Own ?np, head)\<rparr>"
  from False ok have al: "can_alloc h ?cap" and fit: "head + length' x + n \<le> ?cap" by auto
  then have fit': "head + length' x \<le> ?cap" by simp
  obtain h' where h': "reseat ?cap head b h = Inr h'" "wf_heap h'" "frame {b} h h'" "content h' b = content h b"
    "bufs h' = (bufs h)(b \<mapsto> ?y)" "views h' ?np = {b}" "malloc_ok h' = malloc_ok h" "phys h' ?np = Some ?nph"
    using reseat_spec [OF wf b fit'] al unfolding can_alloc_def by blast
  have b': "bufs h' b = Some ?y" by (simp add: h'(5))
  obtain t' where "tailroom b h' = Inr t'" "n \<le> t'"
  proof (rule view_room [OF h'(2) b', of ?np])
    fix ph k s i assume "phys h' ?np = Some ph" "buffer_start ?np ph = Some (k, s)" "data' ?y = Some (k, i)"
      "tailroom b h' = Inr (s + capacity' ph - (i + length' ?y))"
    then have "tailroom b h' = Inr (?cap - (head + length' x))"
      using h'(8) by (auto simp: buffer_start_def is_external_def)
    with fit that show thesis by simp
  qed simp
  moreover have "sole_view h' b" using h'(5,6) by (simp add: sole_view_def)
  moreover have "EnsureTailroom n b h = Inr h'"
    using False h'(1) EnsureTailroom_cases [OF wf b t hd small] by auto
  ultimately show ?thesis using h'
    by (intro exI [of _ h'] exI [of _ ?y] exI [of _ t']) simp
qed

lemma AppendData_spec:
  assumes wf: "wf_heap h" and b: "bufs h b = Some x"
    and t: "tailroom b h = Inr t" and hd: "headroom b h = Inr head"
    and small: "length' x + length src < 2 ^ 64"
    and ok: "sole_view h b \<and> length src \<le> t \<or>
      can_alloc h (grown (length' x + length src)) \<and> head + length' x + length src \<le> grown (length' x + length src)"
  shows "\<exists>h'. AppendData src b h = Inr h' \<and> wf_heap h' \<and> frame {b} h h' \<and> content h' b = content h b @ src
    \<and> sole_view h' b \<and> malloc_ok h' = malloc_ok h"
proof -
  obtain h1 y t' where e: "EnsureTailroom (length src) b h = Inr h1" "wf_heap h1" "frame {b} h h1"
    "content h1 b = content h b" "sole_view h1 b" "bufs h1 = (bufs h)(b \<mapsto> y)" "length' y = length' x"
    "malloc_ok h1 = malloc_ok h" "tailroom b h1 = Inr t'" "length src \<le> t'"
    using EnsureTailroom_spec [OF wf b t hd small ok] by blast
  have b1: "bufs h1 b = Some y" by (simp add: e(6))
  show ?thesis
  proof (cases "physical' y")
    case None
    then have "src = []" using e(9,10) b1 by (simp add: tailroom_def)
    moreover have "y\<lparr>length' := sz_add (length' y) 0\<rparr> = y" using length_bound [OF e(2) b1] by (cases y) (simp add: sz_add_def)
    ultimately have "AppendData src b h = Inr h1"
      using e(1) b1 by (simp add: AppendData_def store_def upd_buf_def fun_upd_idem)
    then show ?thesis using e \<open>src = []\<close> by simp
  next
    case (Some p)
    obtain ph k s i bs where v: "phys h1 p = Some ph" "buffer_start p ph = Some (k, s)"
      "data' y = Some (k, i)" "s \<le> i" "i + length' y \<le> s + capacity' ph" "mem h1 k = Some bs"
      "s + capacity' ph \<le> length bs" "length bs < 2 ^ 64" "content h1 b = slice bs i (length' y)"
      "headroom b h1 = Inr (i - s)" "tailroom b h1 = Inr (s + capacity' ph - (i + length' y))"
      by (rule view_room [OF e(2) b1 Some])
    have room: "i + length' y + length src \<le> s + capacity' ph" using e(9,10) v(5,11) by simp
    let ?bs = "splice bs (i + length' y) src"
    let ?h2 = "h1\<lparr>mem := (mem h1)(k \<mapsto> ?bs)\<rparr>"
    have vw: "views h1 p = {b}" using e(5) b1 Some by (simp add: sole_view_def)
    have st: "store (Some (k, i + length' y)) src h1 = Inr ?h2" "wf_heap ?h2" "frame {b} h1 ?h2"
      using store_private [OF e(2) b1 Some vw v(1,2,6), of "i + length' y" src] room by simp_all
    let ?y = "y\<lparr>length' := length' y + length src\<rparr>"
    let ?h3 = "?h2\<lparr>bufs := (bufs ?h2)(b \<mapsto> ?y)\<rparr>"
    have b2: "bufs ?h2 b = Some y" using b1 by simp
    have h3: "wf_heap ?h3" "frame {b} ?h2 ?h3"
      by (rule set_view [OF st(2) b2 Some]; use Some v room in \<open>simp add: view_in_def\<close>)+
    have "content ?h3 b = slice ?bs i (length' y + length src)"
      by (subst content_slice [of _ _ ?y k i ?bs]) (use v room in simp_all)
    also have "\<dots> = content h b @ src"
      using v room e(4) by (simp add: slice_append slice_splice_before)
    finally have c3: "content ?h3 b = content h b @ src" .
    have "AppendData src b h = Inr ?h3"
      using e(1) b1 v room st(1) by (simp add: AppendData_def ptr_add_def upd_buf_def sz_add_eq)
    moreover have "sole_view ?h3 b" using vw Some by (auto simp: sole_view_def views_def split: if_splits)
    ultimately show ?thesis
      using h3 c3 e(8) frame_trans [OF frame_trans [OF e(3) st(3)] h3(2)] by (intro exI [of _ ?h3]) simp
  qed
qed

text \<open>When the copy does not fit behind the headroom, the bytes are written past the new block.\<close>

lemma EnsureTailroom_overflow:
  assumes wf: "wf_heap h" and b: "bufs h b = Some x"
    and t: "tailroom b h = Inr t" and hd: "headroom b h = Inr head"
    and small: "length' x + n < 2 ^ 64" "head < 2 ^ 64" and al: "can_alloc h (grown (length' x + n))"
    and need: "\<not> (sole_view h b \<and> n \<le> t)" and len: "0 < length' x"
    and over: "grown (length' x + n) < head + length' x"
  shows "EnsureTailroom n b h = Inl UndefinedBehaviour"
proof -
  let ?np = "next_phys h" and ?cap = "grown (length' x + n)"
  let ?nph = "\<lparr>ref_count' = 1, capacity' = ?cap, flags' = 0, external_data' = None, free_fn' = None\<rparr> :: physical"
  obtain h1 where cr: "PhysicalBuffer_Create ?cap h = Inr (?np, h1)" "bufs h1 = bufs h" "phys h ?np = None"
    "phys h1 = (phys h)(?np \<mapsto> ?nph)" "mem h1 = (mem h)(Own ?np \<mapsto> map (junk h ?np) [0..<?cap])"
    using Create_spec [OF wf_heapD(1) [OF wf], of ?cap] al unfolding can_alloc_def by blast
  have pa: "ptr_add (buffer_start ?np ?nph) head = Some (Own ?np, head)"
    unfolding ptr_add_def buffer_start_def using small by (simp add: sz_add_eq is_external_def)
  have ld: "load h1 (data' x) (length' x) = Inr (content h b)"
    using load_content [OF wf_heapD(1) [OF wf] wf_heapD(2) [OF wf] b, of h1]
      data_not_dead [OF wf_heapD(1) [OF wf] wf_heapD(2) [OF wf] b _ cr(3)] by (auto simp: cr(5))
  have lc: "length (content h b) = length' x" by (rule length_content [OF wf_heapD(1) [OF wf] wf_heapD(2) [OF wf] b])
  then have ne: "content h b \<noteq> []" using len by auto
  have "reseat ?cap head b h = Inl UndefinedBehaviour"
    unfolding reseat_def cr(1) using cr(2,4,5) pa ld lc ne over len b by (simp add: Let_def store_def)
  then show ?thesis using EnsureTailroom_cases [OF wf b t hd small(1)] need by auto
qed

end
