(* ===== verification/Buffer_Chain.thy ===== *)
theory Buffer_Chain
  imports Buffer_Write
begin

text \<open>
  Chains of \<open>Buffer\<close> nodes (\<^verbatim>\<open>src/yacul/memory/buffer.h\<close>, \<^verbatim>\<open>buffer.cc\<close>): the operations that splice and
  cut rings and the loops that walk round a ring. A loop \<open>for (cur = next_; cur != this; ...)\<close> need not
  end on a broken ring, so the loops are \<open>partial_function (option)\<close>: \<open>None\<close> is a run that does not return.
\<close>

section \<open>The operations\<close>

definition is_chained :: "bid \<Rightarrow> heap \<Rightarrow> bool result" where
  "is_chained b h = rbind (deref (bufs h b)) (\<lambda>x. Inr (next' x \<noteq> b))"

definition AppendChain :: "bid \<Rightarrow> bid \<Rightarrow> heap \<Rightarrow> heap result" where
  "AppendChain this other h = check (other \<noteq> this)
     (rbind (deref (bufs h this)) (\<lambda>x. rbind (deref (bufs h other)) (\<lambda>y.
      let this_tail = prev' x; other_tail = prev' y in
      rbind (upd_buf this_tail (\<lambda>z. z\<lparr>next' := other\<rparr>) h) (\<lambda>h1.
      rbind (upd_buf other (\<lambda>z. z\<lparr>prev' := this_tail\<rparr>) h1) (\<lambda>h2.
      rbind (upd_buf other_tail (\<lambda>z. z\<lparr>next' := this\<rparr>) h2) (\<lambda>h3.
      upd_buf this (\<lambda>z. z\<lparr>prev' := other_tail\<rparr>) h3))))))"

definition PrependChain :: "bid \<Rightarrow> bid \<Rightarrow> heap \<Rightarrow> heap result" where
  "PrependChain this other h = check (other \<noteq> this)
     (rbind (deref (bufs h other)) (\<lambda>y.
      let other_tail = prev' y in
      rbind (upd_buf other_tail (\<lambda>z. z\<lparr>next' := this\<rparr>) h) (\<lambda>h1.
      rbind (deref (bufs h1 this)) (\<lambda>x.
      let this_prev = prev' x in
      rbind (upd_buf this_prev (\<lambda>z. z\<lparr>next' := other\<rparr>) h1) (\<lambda>h2.
      rbind (upd_buf other (\<lambda>z. z\<lparr>prev' := this_prev\<rparr>) h2) (\<lambda>h3.
      upd_buf this (\<lambda>z. z\<lparr>prev' := other_tail\<rparr>) h3))))))"

definition Unlink :: "bid \<Rightarrow> heap \<Rightarrow> (bid option \<times> heap) result" where
  "Unlink b h = rbind (is_chained b h) (\<lambda>c.
     if \<not> c then Inr (None, h)
     else rbind (deref (bufs h b)) (\<lambda>x.
          rbind (UnlinkFromRing b h) (\<lambda>h1.
          rbind (MakeSelfRing b h1) (\<lambda>h2. Inr (Some (next' x), h2)))))"

definition SplitChainAfter :: "bid \<Rightarrow> heap \<Rightarrow> (bid option \<times> heap) result" where
  "SplitChainAfter this h = rbind (is_chained this h) (\<lambda>c.
     if \<not> c then Inr (None, h)
     else rbind (deref (bufs h this)) (\<lambda>x.
          let rh = next' x; lh = prev' x in
          rbind (deref (bufs h lh)) (\<lambda>l.
          let rt = prev' l in
          rbind (upd_buf this (\<lambda>z. z\<lparr>next' := lh\<rparr>) h) (\<lambda>h1.
          rbind (upd_buf lh (\<lambda>z. z\<lparr>prev' := this\<rparr>) h1) (\<lambda>h2.
          rbind (upd_buf rt (\<lambda>z. z\<lparr>next' := rh\<rparr>) h2) (\<lambda>h3.
          rbind (upd_buf rh (\<lambda>z. z\<lparr>prev' := rt\<rparr>) h3) (\<lambda>h4. Inr (Some rh, h4))))))))"

section \<open>Walking round a ring\<close>

text \<open>The \<open>for\<close> loops of \<open>ComputeChainDataLength\<close> and \<open>CountChainElements\<close>.\<close>

partial_function (option) chain_length_loop :: "bid \<Rightarrow> bid \<Rightarrow> nat \<Rightarrow> heap \<Rightarrow> nat result option" where
  "chain_length_loop this cur tot h =
     (if cur = this then Some (Inr tot)
      else case bufs h cur of None \<Rightarrow> Some (Inl UndefinedBehaviour)
           | Some x \<Rightarrow> chain_length_loop this (next' x) (sz_add tot (length' x)) h)"

definition ComputeChainDataLength :: "bid \<Rightarrow> heap \<Rightarrow> nat result option" where
  "ComputeChainDataLength this h = (case bufs h this of None \<Rightarrow> Some (Inl UndefinedBehaviour)
     | Some x \<Rightarrow> chain_length_loop this (next' x) (length' x) h)"

partial_function (option) chain_count_loop :: "bid \<Rightarrow> bid \<Rightarrow> nat \<Rightarrow> heap \<Rightarrow> nat result option" where
  "chain_count_loop this cur count h =
     (if cur = this then Some (Inr count)
      else case bufs h cur of None \<Rightarrow> Some (Inl UndefinedBehaviour)
           | Some x \<Rightarrow> chain_count_loop this (next' x) (sz_add count 1) h)"

definition CountChainElements :: "bid \<Rightarrow> heap \<Rightarrow> nat result option" where
  "CountChainElements this h = (case bufs h this of None \<Rightarrow> Some (Inl UndefinedBehaviour)
     | Some x \<Rightarrow> chain_count_loop this (next' x) 1 h)"

text \<open>The \<open>do ... while\<close> loop of \<open>ToVector\<close>: the bytes of \<open>cur\<close>, then on to the next node.\<close>

partial_function (option) gather_loop :: "bid \<Rightarrow> bid \<Rightarrow> u8 list \<Rightarrow> heap \<Rightarrow> u8 list result option" where
  "gather_loop this cur out h =
     (case bufs h cur of None \<Rightarrow> Some (Inl UndefinedBehaviour)
      | Some x \<Rightarrow> (case load h (data' x) (length' x) of Inl e \<Rightarrow> Some (Inl e)
          | Inr bs \<Rightarrow> if next' x = this then Some (Inr (out @ bs))
                      else gather_loop this (next' x) (out @ bs) h))"

definition ToVector :: "bid \<Rightarrow> heap \<Rightarrow> u8 list result option" where
  "ToVector this h = gather_loop this this [] h"

text \<open>\<open>CoalesceChain\<close> builds its result \<open>out\<close> at the address \<open>d\<close>; the loop copies to \<open>dst\<close>.\<close>

partial_function (option) coalesce_loop :: "bid \<Rightarrow> bid \<Rightarrow> ptr \<Rightarrow> heap \<Rightarrow> heap result option" where
  "coalesce_loop this cur dst h =
     (case bufs h cur of None \<Rightarrow> Some (Inl UndefinedBehaviour)
      | Some x \<Rightarrow> (case load h (data' x) (length' x) of Inl e \<Rightarrow> Some (Inl e)
          | Inr bs \<Rightarrow> (case store dst bs h of Inl e \<Rightarrow> Some (Inl e)
              | Inr h1 \<Rightarrow> if next' x = this then Some (Inr h1)
                          else coalesce_loop this (next' x) (ptr_add dst (length' x)) h1)))"

definition CoalesceChain :: "bid \<Rightarrow> bid \<Rightarrow> heap \<Rightarrow> heap result option" where
  "CoalesceChain this d h = (case ComputeChainDataLength this h of None \<Rightarrow> None
     | Some (Inl e) \<Rightarrow> Some (Inl e)
     | Some (Inr tot) \<Rightarrow>
         if tot = 0 then Some (Buffer_default d h)
         else (case Buffer_Create d tot h of Inl e \<Rightarrow> Some (Inl e)
           | Inr h1 \<Rightarrow> (case rbind (deref (bufs h1 d)) (\<lambda>x. rbind (deref (physical' x)) (\<lambda>p.
                            rbind (deref (phys h1 p)) (\<lambda>ph. Inr (buffer_start p ph)))) of
               Inl e \<Rightarrow> Some (Inl e)
             | Inr start \<Rightarrow> (case coalesce_loop this this start h1 of None \<Rightarrow> None
                 | Some r \<Rightarrow> Some (rbind r (upd_buf d (\<lambda>z. z\<lparr>data' := start, length' := tot\<rparr>)))))))"

partial_function (option) destroy_loop :: "bid \<Rightarrow> bid \<Rightarrow> heap \<Rightarrow> heap result option" where
  "destroy_loop head cur h =
     (case bufs h cur of None \<Rightarrow> Some (Inl UndefinedBehaviour)
      | Some x \<Rightarrow> (case rbind (MakeSelfRing cur h) (Buffer_destroy cur) of Inl e \<Rightarrow> Some (Inl e)
          | Inr h1 \<Rightarrow> if next' x = head then Some (Inr h1) else destroy_loop head (next' x) h1))"

definition DestroyChain :: "bid option \<Rightarrow> heap \<Rightarrow> heap result option" where
  "DestroyChain q h = (case q of None \<Rightarrow> Some (Inr h) | Some head \<Rightarrow> destroy_loop head head h)"

end
