(* ===== verification/Buffer_Ring.thy ===== *)
theory Buffer_Ring
  imports Buffer_Chain
begin

text \<open>
  Rings of nodes as lists. \<open>ring h xs\<close> says that following \<open>next_\<close> from \<open>hd xs\<close> visits the nodes of \<open>xs\<close>
  in order and comes back; on a well-linked heap every live node has exactly one such list. The
  operations of \<^verbatim>\<open>buffer.cc\<close> that splice and cut rings are shown to do what they do to these lists.
\<close>

section \<open>Links as partial functions\<close>

definition nx :: "heap \<Rightarrow> bid \<Rightarrow> bid option" where
  "nx h a = map_option next' (bufs h a)"

definition pv :: "heap \<Rightarrow> bid \<Rightarrow> bid option" where
  "pv h a = map_option prev' (bufs h a)"

lemma nx_Some: "nx h a = Some b \<longleftrightarrow> (\<exists>x. bufs h a = Some x \<and> next' x = b)"
  by (auto simp: nx_def)

lemma pv_Some: "pv h a = Some b \<longleftrightarrow> (\<exists>x. bufs h a = Some x \<and> prev' x = b)"
  by (auto simp: pv_def)

lemma links_ok_iff:
  "links_ok h \<longleftrightarrow> (\<forall>a b. nx h a = Some b \<longleftrightarrow> pv h b = Some a)"
proof
  assume ok: "links_ok h"
  show "\<forall>a b. nx h a = Some b \<longleftrightarrow> pv h b = Some a"
  proof (intro allI iffI)
    fix a b assume "nx h a = Some b"
    then obtain x where "bufs h a = Some x" "next' x = b" by (auto simp: nx_Some)
    with ok show "pv h b = Some a" by (auto simp: links_ok_def linked_def pv_Some)
  next
    fix a b assume "pv h b = Some a"
    then obtain x where "bufs h b = Some x" "prev' x = a" by (auto simp: pv_Some)
    with ok show "nx h a = Some b" by (auto simp: links_ok_def linked_def nx_Some)
  qed
next
  assume l: "\<forall>a b. nx h a = Some b \<longleftrightarrow> pv h b = Some a"
  show "links_ok h" unfolding links_ok_def linked_def
  proof (intro allI impI conjI)
    fix c y assume c: "bufs h c = Some y"
    then have "nx h c = Some (next' y)" by (simp add: nx_def)
    then have "pv h (next' y) = Some c" using l by blast
    then show "\<exists>z. bufs h (next' y) = Some z \<and> prev' z = c" by (simp add: pv_Some)
    have "pv h c = Some (prev' y)" using c by (simp add: pv_def)
    then have "nx h (prev' y) = Some c" using l by blast
    then show "\<exists>z. bufs h (prev' y) = Some z \<and> next' z = c" by (simp add: nx_Some)
  qed
qed

lemma set_next_link:
  assumes "bufs h a \<noteq> None"
  obtains h' where "upd_buf a (\<lambda>z. z\<lparr>next' := v\<rparr>) h = Inr h'" "nx h' = (nx h)(a \<mapsto> v)" "pv h' = pv h" "ring_only h h'"
proof -
  from assms obtain x where x: "bufs h a = Some x" by blast
  let ?h = "h\<lparr>bufs := (bufs h)(a \<mapsto> x\<lparr>next' := v\<rparr>)\<rparr>"
  show thesis
  proof (rule that [of ?h])
    show "upd_buf a (\<lambda>z. z\<lparr>next' := v\<rparr>) h = Inr ?h" using x by (simp add: upd_buf_def)
    show "nx ?h = (nx h)(a \<mapsto> v)" "pv ?h = pv h" using x by (auto simp: nx_def pv_def fun_eq_iff)
    show "ring_only h ?h" by (rule ring_only_upd_bufs [OF x]) (simp add: view_of_def)
  qed
qed

lemma set_prev_link:
  assumes "bufs h a \<noteq> None"
  obtains h' where "upd_buf a (\<lambda>z. z\<lparr>prev' := v\<rparr>) h = Inr h'" "pv h' = (pv h)(a \<mapsto> v)" "nx h' = nx h" "ring_only h h'"
proof -
  from assms obtain x where x: "bufs h a = Some x" by blast
  let ?h = "h\<lparr>bufs := (bufs h)(a \<mapsto> x\<lparr>prev' := v\<rparr>)\<rparr>"
  show thesis
  proof (rule that [of ?h])
    show "upd_buf a (\<lambda>z. z\<lparr>prev' := v\<rparr>) h = Inr ?h" using x by (simp add: upd_buf_def)
    show "pv ?h = (pv h)(a \<mapsto> v)" "nx ?h = nx h" using x by (auto simp: nx_def pv_def fun_eq_iff)
    show "ring_only h ?h" by (rule ring_only_upd_bufs [OF x]) (simp add: view_of_def)
  qed
qed

lemma ring_only_alive: "ring_only h h' \<Longrightarrow> bufs h' a \<noteq> None \<longleftrightarrow> bufs h a \<noteq> None"
  using ring_only_live [of h h' a] ring_only_live' [of h h' a] by auto

lemma alive_nx: "bufs h a \<noteq> None \<longleftrightarrow> nx h a \<noteq> None"
  by (simp add: nx_def)

text \<open>Two next links and two previous links rewritten, in the order of the splicing operations.\<close>

lemma four_links:
  assumes "bufs h a \<noteq> None" "bufs h b \<noteq> None" "bufs h c \<noteq> None" "bufs h d \<noteq> None"
  obtains h' where "rbind (upd_buf a (\<lambda>z. z\<lparr>next' := va\<rparr>) h) (\<lambda>h1.
      rbind (upd_buf b (\<lambda>z. z\<lparr>prev' := vb\<rparr>) h1) (\<lambda>h2.
      rbind (upd_buf c (\<lambda>z. z\<lparr>next' := vc\<rparr>) h2) (upd_buf d (\<lambda>z. z\<lparr>prev' := vd\<rparr>)))) = Inr h'"
    "nx h' = (nx h)(a \<mapsto> va, c \<mapsto> vc)" "pv h' = (pv h)(b \<mapsto> vb, d \<mapsto> vd)" "ring_only h h'"
proof -
  obtain h1 where h1: "upd_buf a (\<lambda>z. z\<lparr>next' := va\<rparr>) h = Inr h1" "nx h1 = (nx h)(a \<mapsto> va)" "pv h1 = pv h" "ring_only h h1"
    by (rule set_next_link [OF assms(1)])
  have b1: "bufs h1 b \<noteq> None" using ring_only_alive [OF h1(4)] assms(2) by simp
  obtain h2 where h2: "upd_buf b (\<lambda>z. z\<lparr>prev' := vb\<rparr>) h1 = Inr h2" "pv h2 = (pv h1)(b \<mapsto> vb)" "nx h2 = nx h1" "ring_only h1 h2"
    by (rule set_prev_link [OF b1])
  note r2 = ring_only_trans [OF h1(4) h2(4)]
  have c2: "bufs h2 c \<noteq> None" using ring_only_alive [OF r2] assms(3) by simp
  obtain h3 where h3: "upd_buf c (\<lambda>z. z\<lparr>next' := vc\<rparr>) h2 = Inr h3" "nx h3 = (nx h2)(c \<mapsto> vc)" "pv h3 = pv h2" "ring_only h2 h3"
    by (rule set_next_link [OF c2])
  note r3 = ring_only_trans [OF r2 h3(4)]
  have d3: "bufs h3 d \<noteq> None" using ring_only_alive [OF r3] assms(4) by simp
  obtain h4 where h4: "upd_buf d (\<lambda>z. z\<lparr>prev' := vd\<rparr>) h3 = Inr h4" "pv h4 = (pv h3)(d \<mapsto> vd)" "nx h4 = nx h3" "ring_only h3 h4"
    by (rule set_prev_link [OF d3])
  show thesis
    by (rule that [of h4]) (use h1 h2 h3 h4 ring_only_trans [OF r3 h4(4)] in simp_all)
qed

section \<open>Rings as lists\<close>

fun nxpath :: "(bid \<Rightarrow> bid option) \<Rightarrow> bid list \<Rightarrow> bid \<Rightarrow> bool" where
  "nxpath f [] e \<longleftrightarrow> True"
| "nxpath f (a # r) e \<longleftrightarrow> f a = Some (hd (r @ [e])) \<and> nxpath f r e"

definition ring :: "heap \<Rightarrow> bid list \<Rightarrow> bool" where
  "ring h xs \<longleftrightarrow> xs \<noteq> [] \<and> distinct xs \<and> nxpath (nx h) xs (hd xs)"

lemma nxpath_append [simp]: "nxpath f (xs @ ys) e \<longleftrightarrow> nxpath f xs (hd (ys @ [e])) \<and> nxpath f ys e"
proof (induction xs)
  case (Cons a xs)
  then show ?case by (cases xs) auto
qed simp

lemma nxpath_cong: "nxpath f xs e \<Longrightarrow> (\<And>a. a \<in> set xs \<Longrightarrow> g a = f a) \<Longrightarrow> nxpath g xs e"
  by (induction xs) auto

lemma nxpath_retarget:
  "nxpath f xs e \<Longrightarrow> (\<And>a. a \<in> set (butlast xs) \<Longrightarrow> g a = f a) \<Longrightarrow> (xs \<noteq> [] \<Longrightarrow> g (last xs) = Some e') \<Longrightarrow> nxpath g xs e'"
proof (induction xs)
  case (Cons a xs)
  then show ?case by (cases xs) auto
qed simp

lemma nxpath_last: "nxpath f xs e \<Longrightarrow> xs \<noteq> [] \<Longrightarrow> f (last xs) = Some e"
  by (induction xs) (auto split: if_splits)

lemma nxpath_nth: "nxpath f xs e \<longleftrightarrow> (\<forall>i < length xs. f (xs ! i) = Some ((xs @ [e]) ! Suc i))"
proof (induction xs)
  case (Cons a xs)
  have "hd (xs @ [e]) = (xs @ [e]) ! 0" by (simp add: hd_conv_nth)
  then show ?case using Cons by (simp add: All_less_Suc2)
qed simp

lemma ringD:
  assumes "ring h xs"
  shows "xs \<noteq> []" "distinct xs" "nxpath (nx h) xs (hd xs)" "nx h (last xs) = Some (hd xs)"
    "a \<in> set xs \<Longrightarrow> bufs h a \<noteq> None"
proof -
  show n: "xs \<noteq> []" "distinct xs" and p: "nxpath (nx h) xs (hd xs)" using assms by (auto simp: ring_def)
  show "nx h (last xs) = Some (hd xs)" using nxpath_last [OF p n(1)] .
  show "a \<in> set xs \<Longrightarrow> bufs h a \<noteq> None" using p unfolding nxpath_nth alive_nx by (metis in_set_conv_nth option.distinct(1))
qed

lemma ring_prev: "links_ok h \<Longrightarrow> ring h xs \<Longrightarrow> pv h (hd xs) = Some (last xs)"
  using ringD(4) links_ok_iff by metis

lemma ring_cong: "ring h xs \<Longrightarrow> (\<And>a. a \<in> set xs \<Longrightarrow> nx h' a = nx h a) \<Longrightarrow> ring h' xs"
  unfolding ring_def using nxpath_cong by blast

lemma ring_rotate: "ring h (xs @ ys) \<Longrightarrow> xs \<noteq> [] \<Longrightarrow> ys \<noteq> [] \<Longrightarrow> ring h (ys @ xs)"
  by (auto simp: ring_def)

text \<open>Every live node of a well-linked finite heap lies on a ring.\<close>

lemma ring_exists:
  assumes ok: "links_ok h" and fin: "finite (dom (bufs h))" and b: "bufs h b \<noteq> None"
  shows "\<exists>xs. ring h (b # xs)"
proof -
  define f where "f a = the (nx h a)" for a
  define it where "it n = (f ^^ n) b" for n
  have step: "nx h (it n) = Some (it (Suc n))" and live: "bufs h (it n) \<noteq> None" for n
  proof -
    have "bufs h (it n) \<noteq> None \<and> nx h (it n) = Some (it (Suc n))" for n
    proof (induction n)
      case 0
      then show ?case using b by (auto simp: it_def f_def nx_def)
    next
      case (Suc n)
      then have "pv h (it (Suc n)) = Some (it n)" using ok by (simp add: links_ok_iff)
      then have "bufs h (it (Suc n)) \<noteq> None" by (auto simp: pv_Some)
      then show ?case by (auto simp: it_def f_def nx_def)
    qed
    then show "nx h (it n) = Some (it (Suc n))" "bufs h (it n) \<noteq> None" by blast+
  qed
  have inj_it: "it i = it j" if "it (Suc i) = it (Suc j)" for i j
  proof -
    have "pv h (it (Suc i)) = Some (it i)" "pv h (it (Suc j)) = Some (it j)"
      using step ok by (simp_all add: links_ok_iff)
    with that show ?thesis by simp
  qed
  have shift: "it d = b" if "it (i + d) = it i" for i d
    using that by (induction i) (auto simp: it_def [of 0] dest: inj_it)
  have "\<not> inj it"
  proof
    assume "inj it"
    then have "infinite (range it)" using finite_imageD by blast
    moreover have "range it \<subseteq> dom (bufs h)" using live by auto
    ultimately show False using fin finite_subset by blast
  qed
  then obtain i j where "i < j" "it i = it j" by (metis linorder_injI)
  then have "it (j - i) = b" "0 < j - i" using shift [of i "j - i"] by simp_all
  then have ex: "\<exists>n > 0. it n = b" by blast
  define n where "n = (LEAST n. 0 < n \<and> it n = b)"
  have n: "0 < n" "it n = b" using LeastI_ex [OF ex] by (simp_all add: n_def)
  have least: "\<not> (0 < m \<and> it m = b)" if "m < n" for m using not_less_Least [of m] that n_def by blast
  let ?xs = "map it [0..<n]"
  have "distinct ?xs" unfolding distinct_map
  proof (intro conjI inj_onI)
    fix u v assume uv: "u \<in> set [0..<n]" "v \<in> set [0..<n]" "it u = it v"
    show "u = v"
    proof (rule ccontr)
      assume "u \<noteq> v"
      then consider "u < v" | "v < u" by linarith
      then show False
        by cases (use shift [of u "v - u"] shift [of v "u - v"] least [of "v - u"] least [of "u - v"] uv
              less_imp_diff_less in auto)
    qed
  qed simp
  moreover have "hd ?xs = b" using n by (simp add: hd_map it_def)
  moreover have "nxpath (nx h) ?xs b" unfolding nxpath_nth
  proof (intro allI impI)
    fix i assume "i < length ?xs"
    then show "nx h (?xs ! i) = Some ((?xs @ [b]) ! Suc i)"
      using step [of i] n(2) by (cases "Suc i = n") (simp_all add: nth_append)
  qed
  moreover have "?xs = b # tl ?xs" using n \<open>hd ?xs = b\<close> by (metis bot_nat_0.not_eq_extremum hd_Cons_tl length_map length_upt less_nat_zero_code list.size(3) diff_zero)
  ultimately show ?thesis unfolding ring_def by (metis list.distinct(1))
qed

section \<open>Splicing two rings\<close>

lemma inverse_swap:
  assumes l: "\<forall>a b. f a = Some b \<longleftrightarrow> g b = Some a" and f: "f t = Some x" "f u = Some y" and tu: "t \<noteq> u"
  shows "\<forall>a b. (f(t \<mapsto> y, u \<mapsto> x)) a = Some b \<longleftrightarrow> (g(y \<mapsto> t, x \<mapsto> u)) b = Some a"
proof (intro allI)
  fix a b
  have g: "g x = Some t" "g y = Some u" using l f by blast+
  then have xy: "x \<noteq> y" using tu by auto
  have ab: "f a = Some b \<longleftrightarrow> g b = Some a" using l by blast
  have "b \<noteq> x \<Longrightarrow> g b \<noteq> Some t" "b \<noteq> y \<Longrightarrow> g b \<noteq> Some u" using l f by (metis option.inject)+
  moreover have "a \<noteq> t \<Longrightarrow> f a \<noteq> Some x" "a \<noteq> u \<Longrightarrow> f a \<noteq> Some y" using l g by (metis option.inject)+
  ultimately show "(f(t \<mapsto> y, u \<mapsto> x)) a = Some b \<longleftrightarrow> (g(y \<mapsto> t, x \<mapsto> u)) b = Some a"
    using ab tu xy by (cases "a = t"; cases "a = u"; cases "b = x"; cases "b = y") simp_all
qed

lemma butlast_last: "distinct xs \<Longrightarrow> a \<in> set (butlast xs) \<Longrightarrow> a \<noteq> last xs \<and> a \<in> set xs"
  by (induction xs) (auto split: if_splits)

lemma AppendChain_links:
  assumes ok: "links_ok h" and xs: "ring h (this # xs)" and ys: "ring h (other # ys)"
    and dis: "set (this # xs) \<inter> set (other # ys) = {}"
  shows "\<exists>h'. AppendChain this other h = Inr h' \<and> ring_only h h' \<and> links_ok h' \<and> ring h' ((this # xs) @ other # ys)
    \<and> (\<forall>zs. ring h zs \<longrightarrow> set zs \<inter> set (this # xs @ other # ys) = {} \<longrightarrow> ring h' zs)"
proof -
  let ?X = "this # xs" and ?Y = "other # ys"
  let ?t = "last ?X" and ?u = "last ?Y"
  have p: "pv h this = Some ?t" "pv h other = Some ?u" using ring_prev [OF ok xs] ring_prev [OF ok ys] by simp_all
  have n: "nx h ?t = Some this" "nx h ?u = Some other" using ringD(4) [OF xs] ringD(4) [OF ys] by simp_all
  have tu: "?t \<in> set ?X" "?u \<in> set ?Y" by (rule last_in_set, simp)+
  have live: "bufs h ?t \<noteq> None" "bufs h other \<noteq> None" "bufs h ?u \<noteq> None" "bufs h this \<noteq> None"
    using ringD(5) [OF xs] ringD(5) [OF ys] tu by auto
  obtain h' where h': "rbind (upd_buf ?t (\<lambda>z. z\<lparr>next' := other\<rparr>) h) (\<lambda>h1.
      rbind (upd_buf other (\<lambda>z. z\<lparr>prev' := ?t\<rparr>) h1) (\<lambda>h2.
      rbind (upd_buf ?u (\<lambda>z. z\<lparr>next' := this\<rparr>) h2) (upd_buf this (\<lambda>z. z\<lparr>prev' := ?u\<rparr>)))) = Inr h'"
    "nx h' = (nx h)(?t \<mapsto> other, ?u \<mapsto> this)" "pv h' = (pv h)(other \<mapsto> ?t, this \<mapsto> ?u)" "ring_only h h'"
    by (rule four_links [OF live])
  have ne: "other \<noteq> this" "?t \<noteq> ?u" using dis tu by auto
  obtain x y where "bufs h this = Some x" "prev' x = ?t" "bufs h other = Some y" "prev' y = ?u"
    using p by (auto simp: pv_Some)
  then have run: "AppendChain this other h = Inr h'" using h'(1) ne by (simp add: AppendChain_def Let_def)
  have "links_ok h'"
  proof -
    have "\<forall>a b. nx h a = Some b \<longleftrightarrow> pv h b = Some a" using ok by (simp add: links_ok_iff)
    then show ?thesis unfolding links_ok_iff h'(2,3) using n ne(2) by (rule inverse_swap)
  qed
  moreover have "ring h' (?X @ ?Y)"
  proof -
    have "nxpath (nx h') ?X other"
    proof (rule nxpath_retarget [OF ringD(3) [OF xs]])
      fix a assume "a \<in> set (butlast ?X)"
      then have "a \<noteq> ?t \<and> a \<in> set ?X" by (rule butlast_last [OF ringD(2) [OF xs]])
      then show "nx h' a = nx h a" using tu dis by (auto simp: h'(2))
    qed (use ne in \<open>simp add: h'(2)\<close>)
    moreover have "nxpath (nx h') ?Y this"
    proof (rule nxpath_retarget [OF ringD(3) [OF ys]])
      fix a assume "a \<in> set (butlast ?Y)"
      then have "a \<noteq> ?u \<and> a \<in> set ?Y" by (rule butlast_last [OF ringD(2) [OF ys]])
      then show "nx h' a = nx h a" using tu dis by (auto simp: h'(2))
    qed (simp add: h'(2))
    ultimately have "nxpath (nx h') (?X @ ?Y) (hd (?X @ ?Y))" unfolding nxpath_append by simp
    moreover have "distinct (?X @ ?Y)" using ringD(2) [OF xs] ringD(2) [OF ys] dis by simp
    ultimately show ?thesis unfolding ring_def by blast
  qed
  moreover have "ring h' zs" if "ring h zs" "set zs \<inter> set (this # xs @ other # ys) = {}" for zs
    by (rule ring_cong [OF that(1)]) (use that(2) tu in \<open>auto simp: h'(2)\<close>)
  ultimately show ?thesis using run h'(4) by blast
qed

text \<open>\<open>PrependChain\<close> writes the same links as \<open>AppendChain\<close>, in another order.\<close>

lemma upd_buf_commute:
  assumes "a = b \<Longrightarrow> (\<And>z. f (g z) = g (f z))"
  shows "rbind (upd_buf a f h) (upd_buf b g) = rbind (upd_buf b g h) (upd_buf a f)"
  using assms by (cases "bufs h a"; cases "bufs h b"; cases "a = b") (auto simp: upd_buf_def fun_upd_twist)

lemma upd_buf_next_prev: "rbind (upd_buf a (\<lambda>z. z\<lparr>next' := u\<rparr>) h) (upd_buf b (\<lambda>z. z\<lparr>prev' := v\<rparr>)) =
    rbind (upd_buf b (\<lambda>z. z\<lparr>prev' := v\<rparr>) h) (upd_buf a (\<lambda>z. z\<lparr>next' := u\<rparr>))"
  by (rule upd_buf_commute) simp

lemma rbind_assoc: "rbind (rbind r f) g = rbind r (\<lambda>x. rbind (f x) g)"
  by (cases r) auto

lemma PrependChain_eq_AppendChain:
  assumes ok: "links_ok h" and live: "bufs h this = Some x" "bufs h other = Some y"
  shows "PrependChain this other h = AppendChain this other h"
proof (cases "other = this")
  case True
  then show ?thesis by (simp add: PrependChain_def AppendChain_def)
next
  case False
  let ?t = "prev' x" and ?u = "prev' y"
  let ?N1 = "upd_buf ?t (\<lambda>z. z\<lparr>next' := other\<rparr>)" and ?N2 = "upd_buf ?u (\<lambda>z. z\<lparr>next' := this\<rparr>)"
    and ?P1 = "upd_buf other (\<lambda>z. z\<lparr>prev' := ?t\<rparr>)" and ?P2 = "upd_buf this (\<lambda>z. z\<lparr>prev' := ?u\<rparr>)"
  have "pv h this = Some ?t" "pv h other = Some ?u" using live by (simp_all add: pv_def)
  then have n: "nx h ?t = Some this" "nx h ?u = Some other" using ok by (simp_all add: links_ok_iff)
  with False have tu: "?t \<noteq> ?u" by auto
  obtain h1 where h1: "?N2 h = Inr h1" "pv h1 = pv h"
    by (rule set_next_link [of h ?u this]) (use n in \<open>auto simp: nx_Some\<close>)
  then obtain x1 where x1: "bufs h1 this = Some x1" "prev' x1 = ?t"
    using live by (metis pv_Some)
  have "PrependChain this other h = rbind (?N2 h) (\<lambda>h1. rbind (?N1 h1) (\<lambda>h2. rbind (?P1 h2) ?P2))"
    using False live h1 x1 by (simp add: PrependChain_def Let_def)
  also have "\<dots> = rbind (rbind (?N2 h) ?N1) (\<lambda>h2. rbind (?P1 h2) ?P2)" by (simp add: rbind_assoc)
  also have "rbind (?N2 h) ?N1 = rbind (?N1 h) ?N2" by (rule upd_buf_commute) (use tu in auto)
  also have "rbind (rbind (?N1 h) ?N2) (\<lambda>h2. rbind (?P1 h2) ?P2) = rbind (?N1 h) (\<lambda>h1. rbind (rbind (?N2 h1) ?P1) ?P2)"
    by (simp add: rbind_assoc)
  also have "\<dots> = rbind (?N1 h) (\<lambda>h1. rbind (rbind (?P1 h1) ?N2) ?P2)" by (simp add: upd_buf_next_prev)
  also have "\<dots> = AppendChain this other h" using False live by (simp add: AppendChain_def Let_def rbind_assoc)
  finally show ?thesis .
qed

section \<open>Cutting a ring in two\<close>

lemma ring_split:
  assumes r: "ring h (xs @ ys)" and ne: "xs \<noteq> []" "ys \<noteq> []"
    and n: "nx h' = (nx h)(last xs \<mapsto> hd xs, last ys \<mapsto> hd ys)"
  shows "ring h' xs" "ring h' ys"
    "\<And>zs. ring h zs \<Longrightarrow> set zs \<inter> set (xs @ ys) = {} \<Longrightarrow> ring h' zs"
proof -
  from r have p: "nxpath (nx h) xs (hd ys)" "nxpath (nx h) ys (hd xs)" and d: "distinct xs" "distinct ys" "set xs \<inter> set ys = {}"
    using ne by (auto simp: ring_def)
  have l: "last xs \<in> set xs" "last ys \<in> set ys" using ne by simp_all
  then have ln: "last xs \<noteq> last ys" using d(3) by auto
  have "nxpath (nx h') xs (hd xs)"
  proof (rule nxpath_retarget [OF p(1)])
    fix a assume "a \<in> set (butlast xs)"
    then have "a \<noteq> last xs \<and> a \<in> set xs" by (rule butlast_last [OF d(1)])
    then show "nx h' a = nx h a" using l d(3) by (auto simp: n)
  qed (use ln in \<open>simp add: n\<close>)
  then show "ring h' xs" using ne d by (simp add: ring_def)
  have "nxpath (nx h') ys (hd ys)"
  proof (rule nxpath_retarget [OF p(2)])
    fix a assume "a \<in> set (butlast ys)"
    then have "a \<noteq> last ys \<and> a \<in> set ys" by (rule butlast_last [OF d(2)])
    then show "nx h' a = nx h a" using l d(3) by (auto simp: n)
  qed (simp add: n)
  then show "ring h' ys" using ne d by (simp add: ring_def)
  show "ring h' zs" if "ring h zs" "set zs \<inter> set (xs @ ys) = {}" for zs
    by (rule ring_cong [OF that(1)]) (use that(2) l in \<open>auto simp: n\<close>)
qed

lemma links_ok_swap:
  assumes ok: "links_ok h" and n: "nx h t = Some x" "nx h u = Some y" "t \<noteq> u"
    and h': "nx h' = (nx h)(t \<mapsto> y, u \<mapsto> x)" "pv h' = (pv h)(y \<mapsto> t, x \<mapsto> u)"
  shows "links_ok h'"
  unfolding links_ok_iff h' by (rule inverse_swap [OF ok [unfolded links_ok_iff] n])

lemma Unlink_links:
  assumes ok: "links_ok h" and r: "ring h (b # xs)" and ne: "xs \<noteq> []"
  shows "\<exists>h'. Unlink b h = Inr (Some (hd xs), h') \<and> ring_only h h' \<and> links_ok h' \<and> ring h' [b] \<and> ring h' xs
    \<and> (\<forall>zs. ring h zs \<longrightarrow> set zs \<inter> set (b # xs) = {} \<longrightarrow> ring h' zs)"
proof -
  let ?t = "last xs" and ?y = "hd xs"
  have n: "nx h b = Some ?y" "nx h ?t = Some b" using r ne ringD(4) [OF r] by (auto simp: ring_def)
  then have p: "pv h b = Some ?t" "pv h ?y = Some b" using ok by (simp_all add: links_ok_iff)
  have nb: "?t \<noteq> b" "?y \<noteq> b" using ringD(2) [OF r] ne by (auto dest: hd_in_set last_in_set)
  obtain x where x: "bufs h b = Some x" "next' x = ?y" "prev' x = ?t" using n p by (auto simp: nx_Some pv_Some)
  obtain h1 where h1: "upd_buf ?t (\<lambda>z. z\<lparr>next' := ?y\<rparr>) h = Inr h1" "nx h1 = (nx h)(?t \<mapsto> ?y)" "pv h1 = pv h" "ring_only h h1"
    by (rule set_next_link [of h ?t ?y]) (use n in \<open>auto simp: nx_Some\<close>)
  have x1: "\<exists>x1. bufs h1 b = Some x1 \<and> next' x1 = ?y \<and> prev' x1 = ?t"
    using n(1) p(1) nb h1(2,3) by (metis fun_upd_other nx_Some option.inject pv_Some)
  have y1: "bufs h1 ?y \<noteq> None" using ring_only_alive [OF h1(4)] p(2) by (auto simp: pv_Some)
  obtain h2 where h2: "upd_buf ?y (\<lambda>z. z\<lparr>prev' := ?t\<rparr>) h1 = Inr h2" "pv h2 = (pv h1)(?y \<mapsto> ?t)" "nx h2 = nx h1" "ring_only h1 h2"
    by (rule set_prev_link [OF y1])
  have un: "UnlinkFromRing b h = Inr h2" using x x1 h1(1) h2(1) by (auto simp: UnlinkFromRing_def)
  note ro2 = ring_only_trans [OF h1(4) h2(4)]
  obtain x2 where x2: "bufs h2 b = Some x2" using ring_only_live [OF ro2 x(1)] by blast
  let ?h = "h2\<lparr>bufs := (bufs h2)(b \<mapsto> x2\<lparr>next' := b, prev' := b\<rparr>)\<rparr>"
  note ms = MakeSelfRing_spec(1,2) [OF x2]
  have nh: "nx ?h = (nx h)(?t \<mapsto> ?y, b \<mapsto> b)" "pv ?h = (pv h)(?y \<mapsto> ?t, b \<mapsto> b)"
    using h1(2,3) h2(2,3) x2 by (auto simp: nx_def pv_def fun_eq_iff)
  have "links_ok ?h" by (rule links_ok_swap [OF ok n(2,1) nb(1) nh])
  moreover have "nx ?h = (nx h)(last [b] \<mapsto> hd [b], last xs \<mapsto> hd xs)" using nh(1) nb(1) by (simp add: fun_upd_twist)
  note sp = ring_split [of h "[b]" xs ?h, OF _ _ ne this]
  have "ring ?h [b]" "ring ?h xs" "\<And>zs. ring h zs \<Longrightarrow> set zs \<inter> set (b # xs) = {} \<Longrightarrow> ring ?h zs"
    using sp r by simp_all
  moreover have "Unlink b h = Inr (Some ?y, ?h)"
    using x un ms(1) nb(2) by (simp add: Unlink_def is_chained_def)
  ultimately show ?thesis using ring_only_trans [OF ro2 ms(2)] by blast
qed

text \<open>A standalone node is left alone.\<close>

lemma Unlink_standalone: "ring h [b] \<Longrightarrow> Unlink b h = Inr (None, h)"
  by (auto simp: ring_def nx_Some Unlink_def is_chained_def)

lemma SplitChainAfter_links:
  assumes ok: "links_ok h" and r: "ring h (lh # this # zs)" and ne: "zs \<noteq> []"
  shows "\<exists>h'. SplitChainAfter this h = Inr (Some (hd zs), h') \<and> ring_only h h' \<and> links_ok h'
    \<and> ring h' [lh, this] \<and> ring h' zs
    \<and> (\<forall>ws. ring h ws \<longrightarrow> set ws \<inter> set (lh # this # zs) = {} \<longrightarrow> ring h' ws)"
proof -
  let ?rh = "hd zs" and ?rt = "last zs"
  have n: "nx h lh = Some this" "nx h this = Some ?rh" "nx h ?rt = Some lh"
    using r ne ringD(4) [OF r] by (auto simp: ring_def)
  then have p: "pv h this = Some lh" "pv h ?rh = Some this" "pv h lh = Some ?rt" using ok by (simp_all add: links_ok_iff)
  have nt: "this \<noteq> ?rt" "?rh \<noteq> this" using ringD(2) [OF r] ne by (auto dest: hd_in_set last_in_set)
  have live: "bufs h this \<noteq> None" "bufs h lh \<noteq> None" "bufs h ?rt \<noteq> None" "bufs h ?rh \<noteq> None"
    using n p by (auto simp: nx_Some pv_Some)
  obtain h' where h': "rbind (upd_buf this (\<lambda>z. z\<lparr>next' := lh\<rparr>) h) (\<lambda>h1.
      rbind (upd_buf lh (\<lambda>z. z\<lparr>prev' := this\<rparr>) h1) (\<lambda>h2.
      rbind (upd_buf ?rt (\<lambda>z. z\<lparr>next' := ?rh\<rparr>) h2) (upd_buf ?rh (\<lambda>z. z\<lparr>prev' := ?rt\<rparr>)))) = Inr h'"
    "nx h' = (nx h)(this \<mapsto> lh, ?rt \<mapsto> ?rh)" "pv h' = (pv h)(lh \<mapsto> this, ?rh \<mapsto> ?rt)" "ring_only h h'"
    by (rule four_links [OF live])
  obtain x l where x: "bufs h this = Some x" "next' x = ?rh" "prev' x = lh" and l: "bufs h lh = Some l" "prev' l = ?rt"
    using n p by (auto simp: nx_Some pv_Some)
  have "SplitChainAfter this h = Inr (Some ?rh, h')"
    using x l nt(2) h'(1) by (auto simp: SplitChainAfter_def is_chained_def Let_def rbind_eq_Inr)
  moreover have "links_ok h'" by (rule links_ok_swap [OF ok n(2,3) nt(1) h'(2,3)])
  moreover have n': "nx h' = (nx h)(last [lh, this] \<mapsto> hd [lh, this], last zs \<mapsto> hd zs)" using h'(2) by simp
  have "ring h' [lh, this]" "ring h' zs" "\<And>ws. ring h ws \<Longrightarrow> set ws \<inter> set (lh # this # zs) = {} \<Longrightarrow> ring h' ws"
    using ring_split [of h "[lh, this]" zs h', OF _ _ ne n'] r by simp_all
  ultimately show ?thesis using h'(4) by blast
qed

text \<open>On a ring of two nodes nothing is cut, although the other node is returned.\<close>

lemma SplitChainAfter_pair:
  assumes ok: "links_ok h" and r: "ring h [lh, this]"
  shows "\<exists>h'. SplitChainAfter this h = Inr (Some lh, h') \<and> ring_only h h' \<and> links_ok h' \<and> ring h' [lh, this]"
proof -
  have n: "nx h lh = Some this" "nx h this = Some lh" and ne: "lh \<noteq> this" using r by (auto simp: ring_def)
  then have p: "pv h this = Some lh" "pv h lh = Some this" using ok by (simp_all add: links_ok_iff)
  have live: "bufs h this \<noteq> None" "bufs h lh \<noteq> None" using n by (auto simp: nx_Some)
  obtain h' where h': "rbind (upd_buf this (\<lambda>z. z\<lparr>next' := lh\<rparr>) h) (\<lambda>h1.
      rbind (upd_buf lh (\<lambda>z. z\<lparr>prev' := this\<rparr>) h1) (\<lambda>h2.
      rbind (upd_buf this (\<lambda>z. z\<lparr>next' := lh\<rparr>) h2) (upd_buf lh (\<lambda>z. z\<lparr>prev' := this\<rparr>)))) = Inr h'"
    "nx h' = (nx h)(this \<mapsto> lh, this \<mapsto> lh)" "pv h' = (pv h)(lh \<mapsto> this, lh \<mapsto> this)" "ring_only h h'"
    by (rule four_links [OF live live])
  obtain x l where "bufs h this = Some x" "next' x = lh" "prev' x = lh" "bufs h lh = Some l" "prev' l = this"
    using n p by (auto simp: nx_Some pv_Some)
  then have "SplitChainAfter this h = Inr (Some lh, h')"
    using ne h'(1) by (auto simp: SplitChainAfter_def is_chained_def Let_def rbind_eq_Inr)
  moreover have "nx h' = nx h" "pv h' = pv h" using n p by (auto simp: h'(2,3) fun_eq_iff)
  then have "ring h' [lh, this]" "links_ok h'" using ring_cong [OF r, of h'] ok by (simp_all add: links_ok_iff)
  ultimately show ?thesis using h'(4) by blast
qed

end
