(* ===== verification/Buffer_Walk.thy ===== *)
theory Buffer_Walk
  imports Buffer_Ring
begin

text \<open>
  The loops that go round a ring (\<open>ComputeChainDataLength\<close>, \<open>CountChainElements\<close>, \<open>ToVector\<close>,
  \<open>CoalesceChain\<close>, \<open>DestroyChain\<close> of \<^verbatim>\<open>buffer.h\<close> and \<^verbatim>\<open>buffer.cc\<close>): each returns on a well-formed ring, and
  with the value that the list of its nodes gives.
\<close>

section \<open>Counting\<close>

text \<open>All bytes of a chain, in the order of the ring.\<close>

definition chain_bytes :: "heap \<Rightarrow> bid list \<Rightarrow> u8 list" where
  "chain_bytes h xs = concat (map (content h) xs)"

lemma chain_bytes_simps [simp]:
  "chain_bytes h [] = []" "chain_bytes h (a # xs) = content h a @ chain_bytes h xs"
  by (simp_all add: chain_bytes_def)

lemma chain_bytes_cong: "(\<And>a. a \<in> set xs \<Longrightarrow> content h' a = content h a) \<Longrightarrow> chain_bytes h' xs = chain_bytes h xs"
  by (simp add: chain_bytes_def cong: map_cong)

lemma content_length: "wf_heap h \<Longrightarrow> bufs h b = Some x \<Longrightarrow> length (content h b) = length' x"
  by (rule length_content [OF wf_heapD(1) wf_heapD(2)])

lemma load_own: "wf_heap h \<Longrightarrow> bufs h b = Some x \<Longrightarrow> load h (data' x) (length' x) = Inr (content h b)"
  by (rule load_content [OF wf_heapD(1) wf_heapD(2)]) simp_all

lemma chain_length_loop_spec:
  assumes wf: "wf_heap h"
  shows "nxpath (nx h) cs this \<Longrightarrow> this \<notin> set cs \<Longrightarrow> tot + length (chain_bytes h cs) < 2 ^ 64 \<Longrightarrow>
    chain_length_loop this (hd (cs @ [this])) tot h = Some (Inr (tot + length (chain_bytes h cs)))"
proof (induction cs arbitrary: tot)
  case Nil
  then show ?case by (subst chain_length_loop.simps) simp
next
  case (Cons c cs)
  from Cons.prems(1) obtain x where x: "bufs h c = Some x" "next' x = hd (cs @ [this])" by (auto simp: nx_Some)
  have l: "length (content h c) = length' x" by (rule content_length [OF wf x(1)])
  have "sz_add tot (length' x) = tot + length' x" using Cons.prems(3) l by (simp add: sz_add_eq)
  then have "chain_length_loop this c tot h = chain_length_loop this (hd (cs @ [this])) (tot + length' x) h"
    using Cons.prems(2) x by (subst chain_length_loop.simps) auto
  with Cons.IH [of "tot + length' x"] Cons.prems l show ?case by (simp add: add.assoc)
qed

lemma ComputeChainDataLength_spec:
  assumes wf: "wf_heap h" and r: "ring h (b # xs)" and small: "length (chain_bytes h (b # xs)) < 2 ^ 64"
  shows "ComputeChainDataLength b h = Some (Inr (length (chain_bytes h (b # xs))))"
proof -
  from ringD(3) [OF r] obtain x where x: "bufs h b = Some x" "next' x = hd (xs @ [b])" by (auto simp: nx_Some)
  have "nxpath (nx h) xs b" "b \<notin> set xs" using r by (auto simp: ring_def)
  with chain_length_loop_spec [OF wf, of xs b "length' x"] small x content_length [OF wf x(1)]
  show ?thesis by (simp add: ComputeChainDataLength_def)
qed

lemma chain_count_loop_spec:
  "nxpath (nx h) cs this \<Longrightarrow> this \<notin> set cs \<Longrightarrow> n + length cs < 2 ^ 64 \<Longrightarrow>
    chain_count_loop this (hd (cs @ [this])) n h = Some (Inr (n + length cs))"
proof (induction cs arbitrary: n)
  case Nil
  then show ?case by (subst chain_count_loop.simps) simp
next
  case (Cons c cs)
  from Cons.prems(1) obtain x where x: "bufs h c = Some x" "next' x = hd (cs @ [this])" by (auto simp: nx_Some)
  have "sz_add n 1 = n + 1" using Cons.prems(3) by (intro sz_add_eq) simp
  then have "chain_count_loop this c n h = chain_count_loop this (hd (cs @ [this])) (n + 1) h"
    using Cons.prems(2) x by (subst chain_count_loop.simps) auto
  with Cons.IH [of "n + 1"] Cons.prems show ?case by simp
qed

lemma CountChainElements_spec:
  assumes r: "ring h xs" and small: "length xs < 2 ^ 64"
  shows "CountChainElements (hd xs) h = Some (Inr (length xs))"
proof -
  obtain b ys where xs: "xs = b # ys" using ringD(1) [OF r] by (cases xs) auto
  from ringD(3) [OF r] obtain x where x: "bufs h b = Some x" "next' x = hd (ys @ [b])" by (auto simp: nx_Some xs)
  have "nxpath (nx h) ys b" "b \<notin> set ys" using r by (auto simp: ring_def xs)
  with chain_count_loop_spec [of h ys b 1] small x show ?thesis by (simp add: CountChainElements_def xs)
qed

section \<open>Gathering\<close>

lemma gather_loop_spec:
  assumes wf: "wf_heap h"
  shows "nxpath (nx h) cs this \<Longrightarrow> cs \<noteq> [] \<Longrightarrow> this \<notin> set (tl cs) \<Longrightarrow>
    gather_loop this (hd cs) out h = Some (Inr (out @ chain_bytes h cs))"
proof (induction cs arbitrary: out)
  case (Cons c cs)
  from Cons.prems(1) obtain x where x: "bufs h c = Some x" "next' x = hd (cs @ [this])" by (auto simp: nx_Some)
  show ?case
  proof (cases cs)
    case Nil
    then show ?thesis using x load_own [OF wf x(1)] by (subst gather_loop.simps) simp
  next
    case (Cons d ds)
    then have "next' x = hd cs" "hd cs \<noteq> this" using x Cons.prems(3) by auto
    then have "gather_loop this c out h = gather_loop this (hd cs) (out @ content h c) h"
      using x(1) load_own [OF wf x(1)] by (subst gather_loop.simps) simp
    moreover have "this \<notin> set (tl cs)" using Cons.prems(3) Cons by simp
    ultimately show ?thesis using Cons.IH [of "out @ content h c"] Cons.prems(1) Cons by simp
  qed
qed simp

lemma ToVector_spec: "wf_heap h \<Longrightarrow> ring h (b # xs) \<Longrightarrow> ToVector b h = Some (Inr (chain_bytes h (b # xs)))"
  using gather_loop_spec [of h "b # xs" b "[]"] by (simp add: ToVector_def ring_def)

section \<open>Coalescing\<close>

lemma splice_prefix:
  "j + length vs \<le> length bs \<Longrightarrow> splice (splice bs j vs) (j + length vs) ws = splice bs j (vs @ ws)"
  by (simp add: splice_def ac_simps)

lemma coalesce_loop_spec:
  assumes p: "physical' y = Some p" "buffer_start p ph = Some (k, s)"
  shows "wf_heap h \<Longrightarrow> bufs h d = Some y \<Longrightarrow> views h p = {d} \<Longrightarrow> phys h p = Some ph \<Longrightarrow> mem h k = Some bs \<Longrightarrow>
    nxpath (nx h) cs this \<Longrightarrow> cs \<noteq> [] \<Longrightarrow> this \<notin> set (tl cs) \<Longrightarrow> d \<notin> set cs \<Longrightarrow>
    off + length (chain_bytes h cs) \<le> s + capacity' ph \<Longrightarrow> off + length (chain_bytes h cs) < 2 ^ 64 \<Longrightarrow>
    \<exists>h'. coalesce_loop this (hd cs) (Some (k, off)) h = Some (Inr h') \<and> wf_heap h' \<and> frame {d} h h' \<and> bufs h' = bufs h
      \<and> phys h' = phys h \<and> malloc_ok h' = malloc_ok h \<and> mem h' k = Some (splice bs off (chain_bytes h cs))"
proof (induction cs arbitrary: off h bs)
  case (Cons c cs)
  note prems = Cons.prems
  from prems(6) obtain x where x: "bufs h c = Some x" "next' x = hd (cs @ [this])" by (auto simp: nx_Some)
  let ?v = "content h c"
  let ?h = "h\<lparr>mem := (mem h)(k \<mapsto> splice bs off ?v)\<rparr>"
  have room: "off + length ?v \<le> s + capacity' ph" using prems(10) by simp
  have st: "store (Some (k, off)) ?v h = Inr ?h" "wf_heap ?h" "frame {d} h ?h"
    using store_private [OF prems(1,2) p(1) prems(3,4) p(2) prems(5) room] by simp_all
  have ld: "load h (data' x) (length' x) = Inr ?v" "length ?v = length' x"
    using load_own [OF prems(1) x(1)] content_length [OF prems(1) x(1)] by simp_all
  have vw: "views ?h p = {d}" using prems(3) by simp
  have len: "off + length ?v \<le> length bs"
    using wf_pendD(5) [OF wf_heapD(1) [OF prems(1)] prems(4)] p(2) prems(5) room by (auto simp: block_ok_def)
  show ?case
  proof (cases cs)
    case Nil
    then have "coalesce_loop this c (Some (k, off)) h = Some (Inr ?h)"
      using x ld st(1) by (subst coalesce_loop.simps) simp
    with st(2,3) Nil show ?thesis by (intro exI [of _ ?h]) simp
  next
    case (Cons e es)
    have same: "chain_bytes ?h cs = chain_bytes h cs"
      by (rule chain_bytes_cong, rule frame_content [OF st(3)]) (use prems(9) in auto)
    have run: "coalesce_loop this c (Some (k, off)) h = coalesce_loop this (hd cs) (Some (k, off + length ?v)) ?h"
      using x ld st(1) Cons prems(8,11) by (subst coalesce_loop.simps) (simp add: ptr_add_def sz_add_eq)
    have nxs: "nxpath (nx ?h) cs this" using prems(6) by (simp add: nx_def [abs_def])
    have m: "mem ?h k = Some (splice bs off ?v)" by simp
    have b1: "bufs ?h d = Some y" and p1: "phys ?h p = Some ph" using prems(2,4) by simp_all
    have nn: "cs \<noteq> []" "this \<notin> set (tl cs)" and dd: "d \<notin> set cs" using Cons prems(8,9) by auto
    have rm: "off + length ?v + length (chain_bytes ?h cs) \<le> s + capacity' ph"
      "off + length ?v + length (chain_bytes ?h cs) < 2 ^ 64" using prems(10,11) by (simp_all add: same add.assoc)
    obtain h' where h': "coalesce_loop this (hd cs) (Some (k, off + length ?v)) ?h = Some (Inr h')" "wf_heap h'" "frame {d} ?h h'"
      "bufs h' = bufs ?h" "phys h' = phys ?h" "malloc_ok h' = malloc_ok ?h"
      "mem h' k = Some (splice (splice bs off ?v) (off + length ?v) (chain_bytes ?h cs))"
      using Cons.IH [OF st(2) b1 vw p1 m nxs nn dd rm] by blast
    show ?thesis using h' run frame_trans [OF st(3) h'(3)] len same
      by (intro exI [of _ h']) (simp add: splice_prefix)
  qed
qed simp

lemma CoalesceChain_spec:
  assumes wf: "wf_heap h" and r: "ring h (b # xs)" and d: "bufs h d = None"
    and al: "can_alloc h (length (chain_bytes h (b # xs)))"
  shows "\<exists>h'. CoalesceChain b d h = Some (Inr h') \<and> wf_heap h' \<and> frame {d} h h'
    \<and> content h' d = chain_bytes h (b # xs) \<and> malloc_ok h' = malloc_ok h"
proof -
  let ?cs = "b # xs" and ?tot = "length (chain_bytes h (b # xs))"
  have small: "sizeof_PhysicalBuffer + ?tot < 2 ^ 64" and ok: "malloc_ok h (sizeof_PhysicalBuffer + ?tot)"
    using al by (auto simp: can_alloc_def)
  have cl: "ComputeChainDataLength b h = Some (Inr ?tot)" by (rule ComputeChainDataLength_spec [OF wf r]) (use small in simp)
  show ?thesis
  proof (cases "?tot = 0")
    case True
    then show ?thesis using cl Buffer_default_spec [OF wf d] by (auto simp: CoalesceChain_def)
  next
    case False
    let ?np = "next_phys h"
    let ?y = "\<lparr>physical' = Some ?np, data' = Some (Own ?np, 0), length' = 0, next' = d, prev' = d\<rparr>"
    let ?ph = "\<lparr>ref_count' = 1, capacity' = ?tot, flags' = 0, external_data' = None, free_fn' = None\<rparr> :: physical"
    let ?J = "map (junk h ?np) [0..<?tot]"
    obtain h1 where h1: "Buffer_Create d ?tot h = Inr h1" "wf_heap h1" "frame {d} h h1" "bufs h1 = (bufs h)(d \<mapsto> ?y)"
      "views h1 ?np = {d}" "malloc_ok h1 = malloc_ok h" "mem h1 (Own ?np) = Some ?J" "phys h1 ?np = Some ?ph"
      using Buffer_Create_spec [OF wf d small ok] by blast
    have start: "buffer_start ?np ?ph = Some (Own ?np, 0)" by (simp add: buffer_start_def is_external_def)
    have b1: "bufs h1 d = Some ?y" by (simp add: h1(4))
    have dn: "d \<notin> set ?cs" using ringD(5) [OF r, of d] d by blast
    have same: "chain_bytes h1 ?cs = chain_bytes h ?cs"
      by (rule chain_bytes_cong, rule frame_content [OF h1(3)]) (use dn in auto)
    have nxs: "nxpath (nx h1) ?cs b"
    proof (rule nxpath_cong)
      show "nxpath (nx h) ?cs b" using ringD(3) [OF r] by simp
    qed (use dn in \<open>auto simp: nx_def h1(4)\<close>)
    have bt: "b \<notin> set (tl ?cs)" using ringD(2) [OF r] by simp
    have rm: "0 + length (chain_bytes h1 ?cs) \<le> 0 + capacity' ?ph" "0 + length (chain_bytes h1 ?cs) < 2 ^ 64"
      unfolding same using small by simp_all
    obtain h2 where h2: "coalesce_loop b (hd ?cs) (Some (Own ?np, 0)) h1 = Some (Inr h2)" "wf_heap h2" "frame {d} h1 h2"
      "bufs h2 = bufs h1" "phys h2 = phys h1" "malloc_ok h2 = malloc_ok h1"
      "mem h2 (Own ?np) = Some (splice ?J 0 (chain_bytes h1 ?cs))"
      using coalesce_loop_spec [OF _ start h1(2) b1 h1(5,8,7) nxs _ bt dn rm] by fastforce
    let ?z = "?y\<lparr>data' := Some (Own ?np, 0), length' := ?tot\<rparr>"
    let ?h = "h2\<lparr>bufs := (bufs h2)(d \<mapsto> ?z)\<rparr>"
    have b2: "bufs h2 d = Some ?y" using b1 h2(4) by simp
    have p2: "phys h2 ?np = Some ?ph" using h1(8) h2(5) by simp
    have "view_in h2 ?z ?np" unfolding view_in_def using p2 start by (intro exI [of _ ?ph]) simp
    then have h: "wf_heap ?h" "frame {d} h2 ?h" using set_view [OF h2(2) b2, of ?np ?z] by simp_all
    have m: "mem ?h (Own ?np) = Some (chain_bytes h ?cs)" using h2(7) unfolding same by (simp add: splice_def)
    have c: "content ?h d = chain_bytes h ?cs"
      by (subst content_slice [of _ _ ?z "Own ?np" 0 "chain_bytes h ?cs"]) (use m in \<open>simp_all add: slice_def\<close>)
    have "CoalesceChain b d h = Some (Inr ?h)"
      unfolding CoalesceChain_def cl using False h1(1) b1 h1(8) start h2(1) b2 by (auto simp: upd_buf_def)
    then show ?thesis
      using h c frame_trans [OF frame_trans [OF h1(3) h2(3)] h(2)] h1(6) h2(6) by (intro exI [of _ ?h]) simp
  qed
qed

section \<open>Destroying a chain\<close>

text \<open>
  \<open>DestroyChain\<close> cuts nodes off one by one, so in the middle of it the ring is broken. What stays
  true is the invariant of the views, and the links of all nodes outside the chain.
\<close>

definition links_except :: "bid set \<Rightarrow> heap \<Rightarrow> bool" where
  "links_except S h \<longleftrightarrow> (\<forall>c y. c \<notin> S \<longrightarrow> bufs h c = Some y \<longrightarrow> next' y \<notin> S \<and> prev' y \<notin> S \<and> linked h c y)"

lemma links_except_ring:
  assumes ok: "links_ok h" and r: "ring h xs"
  shows "links_except (set xs) h"
  unfolding links_except_def
proof (intro allI impI)
  fix c y assume c: "c \<notin> set xs" "bufs h c = Some y"
  have l: "nx h a = Some b \<longleftrightarrow> pv h b = Some a" for a b using ok by (simp add: links_ok_iff)
  have "\<exists>i. xs ! i = prev' y \<and> i < length xs \<Longrightarrow> c \<in> set xs"
  proof (elim exE conjE)
    fix i assume i: "xs ! i = prev' y" "i < length xs"
    have "nx h (prev' y) = Some c" using l c(2) by (simp add: pv_def)
    moreover have "nx h (prev' y) = Some ((xs @ [hd xs]) ! Suc i)" using ringD(3) [OF r] i unfolding nxpath_nth by metis
    ultimately have "c = (xs @ [hd xs]) ! Suc i" by simp
    moreover have "(xs @ [hd xs]) ! Suc i \<in> set (xs @ [hd xs])" by (rule nth_mem) (use i in simp)
    ultimately show "c \<in> set xs" using ringD(1) [OF r] by (auto dest: hd_in_set)
  qed
  then have pn: "prev' y \<notin> set xs" using c(1) by (auto simp: in_set_conv_nth)
  have nn: "next' y \<notin> set xs"
  proof
    assume "next' y \<in> set xs"
    then obtain us vs where xs: "xs = us @ next' y # vs" by (meson split_list)
    have "nx h c = Some (next' y)" using c(2) by (simp add: nx_def)
    then have pc: "pv h (next' y) = Some c" using l by simp
    have "\<exists>d \<in> set xs. nx h d = Some (next' y)"
    proof (cases "us = []")
      case True
      then show ?thesis using ringD(1,4) [OF r] xs by (intro bexI [of _ "last xs"]) simp_all
    next
      case False
      have "nxpath (nx h) us (next' y)" using ringD(3) [OF r] by (subst (asm) (2) xs) (simp add: xs)
      then show ?thesis using False xs nxpath_last by (intro bexI [of _ "last us"]) simp_all
    qed
    then obtain d where "d \<in> set xs" "pv h (next' y) = Some d" using l by blast
    with pc c(1) show False by simp
  qed
  from ok c have "linked h c y" by (simp add: links_ok_def)
  with pn nn show "next' y \<notin> set xs \<and> prev' y \<notin> set xs \<and> linked h c y" by simp
qed

lemma links_except_ok:
  assumes e: "links_except S h" and h': "\<And>c. c \<notin> S \<Longrightarrow> bufs h' c = bufs h c" "\<And>c. c \<in> S \<Longrightarrow> bufs h' c = None"
  shows "links_ok h'"
  unfolding links_ok_def
proof (intro allI impI)
  fix c y assume c: "bufs h' c = Some y"
  then have S: "c \<notin> S" using h'(2) [of c] by auto
  with c have "bufs h c = Some y" using h'(1) by simp
  with e S have "next' y \<notin> S \<and> prev' y \<notin> S \<and> linked h c y" unfolding links_except_def by blast
  then show "linked h' c y" using h'(1) unfolding linked_def by simp
qed

text \<open>One round of the loop: the node is made a ring of its own and deleted.\<close>

lemma destroy_step:
  assumes wv: "wf_views h" and c: "bufs h c = Some x"
  shows "\<exists>h'. rbind (MakeSelfRing c h) (Buffer_destroy c) = Inr h' \<and> wf_views h' \<and> frame {c} h h'
    \<and> bufs h' = (bufs h)(c := None) \<and> malloc_ok h' = malloc_ok h"
proof -
  let ?x = "x\<lparr>next' := c, prev' := c\<rparr>"
  let ?h1 = "h\<lparr>bufs := (bufs h)(c \<mapsto> ?x)\<rparr>"
  note ms = MakeSelfRing_spec(1,2) [OF c]
  have wv1: "wf_views ?h1" by (rule ring_only_wf_views [OF ms(2) wv])
  then have wp1: "wf_pend (\<lambda>_. 0) ?h1" by (simp add: wf_views_def)
  have c1: "bufs ?h1 c = Some ?x" by simp
  have un: "UnlinkFromRing c ?h1 = Inr ?h1" by (simp add: UnlinkFromRing_def upd_buf_def)
  show ?thesis
  proof (rule ReleasePhysical_frame [OF wp1 c1 wf_views_bare [OF wv1]])
    fix h2 assume r: "ReleasePhysical c ?h1 = Inr h2" "wf_pend (\<lambda>_. 0) h2" "frame {c} ?h1 h2"
      "bufs h2 = (bufs ?h1)(c \<mapsto> ?x\<lparr>physical' := None\<rparr>)" "malloc_ok h2 = malloc_ok ?h1"
    let ?h = "h2\<lparr>bufs := (bufs h2)(c := None)\<rparr>"
    have b: "bufs ?h = (bufs h)(c := None)" by (simp add: r(4))
    have "wf_pend (\<lambda>_. 0) ?h" by (rule wf_pend_same_phys [OF r(2)]) (simp_all add: r(4))
    moreover have "bare_ok ?h d" for d using wf_views_bare [OF wv, of d] unfolding bare_ok_def b by auto
    ultimately have "wf_views ?h" by (rule wf_viewsI)
    moreover have "frame {c} h ?h"
      using frame_trans [OF frame_trans [OF frame_ring_only [OF ms(2)] r(3)] frame_upd_buf] by simp
    moreover have "rbind (MakeSelfRing c h) (Buffer_destroy c) = Inr ?h" using ms(1) un r(1) by (simp add: Buffer_destroy_def)
    ultimately show ?thesis using b r(5) by (intro exI [of _ ?h]) simp
  qed
qed

lemma destroy_loop_spec:
  "wf_views h \<Longrightarrow> nxpath (nx h) cs head \<Longrightarrow> cs \<noteq> [] \<Longrightarrow> distinct cs \<Longrightarrow> head \<notin> set (tl cs) \<Longrightarrow>
   \<exists>h'. destroy_loop head (hd cs) h = Some (Inr h') \<and> wf_views h' \<and> frame (set cs) h h'
     \<and> bufs h' = (\<lambda>c. if c \<in> set cs then None else bufs h c) \<and> malloc_ok h' = malloc_ok h"
proof (induction cs arbitrary: h)
  case (Cons c cs)
  from Cons.prems(2) obtain x where x: "bufs h c = Some x" "next' x = hd (cs @ [head])" by (auto simp: nx_Some)
  obtain h1 where h1: "rbind (MakeSelfRing c h) (Buffer_destroy c) = Inr h1" "wf_views h1" "frame {c} h h1"
    "bufs h1 = (bufs h)(c := None)" "malloc_ok h1 = malloc_ok h" using destroy_step [OF Cons.prems(1) x(1)] by blast
  have f1: "frame (set (c # cs)) h h1" by (rule frame_mono [OF h1(3)]) simp
  show ?case
  proof (cases "cs = []")
    case True
    then have "destroy_loop head c h = Some (Inr h1)" using x h1(1) by (subst destroy_loop.simps) simp
    then show ?thesis using h1 True by (intro exI [of _ h1]) (auto simp: fun_eq_iff)
  next
    case False
    then have nh: "hd cs \<noteq> head" using Cons.prems(5) by (cases cs) auto
    have run: "destroy_loop head c h = destroy_loop head (hd cs) h1"
      using x h1(1) False nh by (subst destroy_loop.simps) simp
    have "nxpath (nx h) cs head" using Cons.prems(2) by simp
    then have p1: "nxpath (nx h1) cs head"
      by (rule nxpath_cong) (use Cons.prems(4) in \<open>auto simp: nx_def h1(4)\<close>)
    have "head \<notin> set (tl cs)" using Cons.prems(5) by (cases cs) auto
    then obtain h' where h': "destroy_loop head (hd cs) h1 = Some (Inr h')" "wf_views h'" "frame (set cs) h1 h'"
      "bufs h' = (\<lambda>d. if d \<in> set cs then None else bufs h1 d)" "malloc_ok h' = malloc_ok h1"
      using Cons.IH [OF h1(2) p1 False] Cons.prems(4) by auto
    have f2: "frame (set (c # cs)) h1 h'" by (rule frame_mono [OF h'(3)]) auto
    show ?thesis using h' run frame_trans [OF f1 f2] h1(4,5)
      by (intro exI [of _ h']) (auto simp: fun_eq_iff)
  qed
qed simp

lemma DestroyChain_spec:
  assumes wf: "wf_heap h" and r: "ring h (b # xs)"
  shows "\<exists>h'. DestroyChain (Some b) h = Some (Inr h') \<and> wf_heap h' \<and> frame (set (b # xs)) h h'
    \<and> (\<forall>c \<in> set (b # xs). bufs h' c = None) \<and> malloc_ok h' = malloc_ok h"
proof -
  have wv: "wf_views h" and ok: "links_ok h" using wf by (auto simp: wf_heap_def)
  have p: "nxpath (nx h) (b # xs) b" using ringD(3) [OF r] by simp
  obtain h' where h': "destroy_loop b (hd (b # xs)) h = Some (Inr h')" "wf_views h'" "frame (set (b # xs)) h h'"
    "bufs h' = (\<lambda>c. if c \<in> set (b # xs) then None else bufs h c)" "malloc_ok h' = malloc_ok h"
    using destroy_loop_spec [OF wv p] ringD(2) [OF r] by auto
  have "links_ok h'" by (rule links_except_ok [OF links_except_ring [OF ok r]]) (simp_all add: h'(4))
  then show ?thesis using h' by (intro exI [of _ h']) (simp add: DestroyChain_def wf_heap_def)
qed

end
