(* ===== verification/Buffer_Cursor.thy ===== *)
theory Buffer_Cursor
  imports Buffer_Walk
begin

text \<open>
  \<open>BufferCursor\<close> and \<open>BufferRWCursor\<close> (\<^verbatim>\<open>src/yacul/memory/buffer.h\<close>, \<^verbatim>\<open>buffer.cc\<close>): reading, skipping,
  peeking and writing across a chain. The destination of a read is the list of the bytes written to it;
  the source of a write is the list of the bytes read from it. Both cursors have the same three fields,
  and their \<open>TotalLength\<close>, \<open>AtEnd\<close>, \<open>Skip\<close>, \<open>Reset\<close> and \<open>AdvanceIfExhausted\<close> the same bodies.
\<close>

section \<open>The cursors\<close>

record cursor =
  head' :: bid
  current' :: bid
  offset' :: nat

definition BufferCursor :: "bid \<Rightarrow> cursor" where
  "BufferCursor b = \<lparr>head' = b, current' = b, offset' = 0\<rparr>"

definition BufferRWCursor :: "bid \<Rightarrow> cursor" where
  "BufferRWCursor b = \<lparr>head' = b, current' = b, offset' = 0\<rparr>"

definition Reset :: "cursor \<Rightarrow> cursor" where
  "Reset c = c\<lparr>current' := head' c, offset' := 0\<rparr>"

definition AtEnd :: "cursor \<Rightarrow> heap \<Rightarrow> bool result" where
  "AtEnd c h = rbind (deref (bufs h (current' c))) (\<lambda>x. Inr (offset' c = length' x \<and> next' x = head' c))"

definition AdvanceIfExhausted :: "cursor \<Rightarrow> heap \<Rightarrow> cursor result" where
  "AdvanceIfExhausted c h = rbind (deref (bufs h (current' c))) (\<lambda>x.
     if offset' c = length' x \<and> next' x \<noteq> head' c
     then Inr (c\<lparr>current' := next' x, offset' := 0\<rparr>) else Inr c)"

text \<open>The loop of \<open>TotalLength\<close> is the one of \<open>ComputeChainDataLength\<close>, from \<open>current_->next_\<close> to \<open>head_\<close>.\<close>

definition TotalLength :: "cursor \<Rightarrow> heap \<Rightarrow> nat result option" where
  "TotalLength c h = (case bufs h (current' c) of None \<Rightarrow> Some (Inl UndefinedBehaviour)
     | Some x \<Rightarrow> chain_length_loop (head' c) (next' x) (sz_sub (length' x) (offset' c)) h)"

text \<open>The body of the loop of \<open>Read\<close>: the bytes it copies, and the cursor after it.\<close>

definition read_step :: "nat \<Rightarrow> cursor \<Rightarrow> heap \<Rightarrow> (u8 list \<times> cursor) result" where
  "read_step len c h = rbind (deref (bufs h (current' c))) (\<lambda>x.
     let available = sz_sub (length' x) (offset' c); chunk = min available len in
     rbind (load h (ptr_add (data' x) (offset' c)) chunk) (\<lambda>bs.
     rbind (AdvanceIfExhausted (c\<lparr>offset' := sz_add (offset' c) chunk\<rparr>) h) (\<lambda>c1. Inr (bs, c1))))"

partial_function (option) read_loop :: "nat \<Rightarrow> u8 list \<Rightarrow> cursor \<Rightarrow> heap \<Rightarrow> (u8 list \<times> cursor) result option" where
  "read_loop len out c h =
     (if len = 0 then Some (Inr (out, c))
      else case AtEnd c h of Inl e \<Rightarrow> Some (Inl e)
        | Inr atend \<Rightarrow> if atend then Some (Inr (out, c))
           else (case read_step len c h of Inl e \<Rightarrow> Some (Inl e)
             | Inr (bs, c1) \<Rightarrow> read_loop (len - length bs) (out @ bs) c1 h))"

definition Read :: "nat \<Rightarrow> cursor \<Rightarrow> heap \<Rightarrow> (u8 list \<times> cursor) result option" where
  "Read len c h = read_loop len [] c h"

definition skip_step :: "nat \<Rightarrow> cursor \<Rightarrow> heap \<Rightarrow> (nat \<times> cursor) result" where
  "skip_step len c h = rbind (deref (bufs h (current' c))) (\<lambda>x.
     let available = sz_sub (length' x) (offset' c); chunk = min available len in
     rbind (AdvanceIfExhausted (c\<lparr>offset' := sz_add (offset' c) chunk\<rparr>) h) (\<lambda>c1. Inr (chunk, c1)))"

partial_function (option) Skip :: "nat \<Rightarrow> cursor \<Rightarrow> heap \<Rightarrow> cursor result option" where
  "Skip len c h =
     (if len = 0 then Some (Inr c)
      else case AtEnd c h of Inl e \<Rightarrow> Some (Inl e)
        | Inr atend \<Rightarrow> if atend then Some (Inr c)
           else (case skip_step len c h of Inl e \<Rightarrow> Some (Inl e)
             | Inr (chunk, c1) \<Rightarrow> Skip (len - chunk) c1 h))"

text \<open>
  \<open>Peek\<close> keeps its own \<open>cur\<close> and \<open>off\<close>. When the node is used up it moves on (and stops at the head);
  \<open>available\<close> is still the 0 of the old node then, so that round copies nothing.
\<close>

partial_function (option) peek_loop :: "bid \<Rightarrow> nat \<Rightarrow> u8 list \<Rightarrow> bid \<Rightarrow> nat \<Rightarrow> heap \<Rightarrow> u8 list result option" where
  "peek_loop head len out cur off h =
     (if len = 0 then Some (Inr out)
      else case bufs h cur of None \<Rightarrow> Some (Inl UndefinedBehaviour)
        | Some x \<Rightarrow>
          let available = sz_sub (length' x) off;
              cur1 = (if available = 0 then next' x else cur);
              off1 = (if available = 0 then 0 else off)
          in if available = 0 \<and> cur1 = head then Some (Inr out)
             else (case rbind (deref (bufs h cur1)) (\<lambda>y. load h (ptr_add (data' y) off1) (min available len)) of
                 Inl e \<Rightarrow> Some (Inl e)
               | Inr bs \<Rightarrow> peek_loop head (len - min available len) (out @ bs) cur1 (sz_add off1 (min available len)) h))"

definition Peek :: "nat \<Rightarrow> cursor \<Rightarrow> heap \<Rightarrow> u8 list result option" where
  "Peek len c h = peek_loop (head' c) len [] (current' c) (offset' c) h"

text \<open>The body of the loop of \<open>Write\<close>: how much it wrote, the cursor and the heap after it.\<close>

definition write_step :: "u8 list \<Rightarrow> cursor \<Rightarrow> heap \<Rightarrow> (nat \<times> cursor \<times> heap) result" where
  "write_step src c h = rbind (CowDetach (current' c) h) (\<lambda>h1.
     rbind (deref (bufs h1 (current' c))) (\<lambda>x.
     let available = sz_sub (length' x) (offset' c); chunk = min available (length src) in
     rbind (store (ptr_add (data' x) (offset' c)) (take chunk src) h1) (\<lambda>h2.
     rbind (AdvanceIfExhausted (c\<lparr>offset' := sz_add (offset' c) chunk\<rparr>) h2) (\<lambda>c1. Inr (chunk, c1, h2)))))"

partial_function (option) write_loop ::
  "u8 list \<Rightarrow> nat \<Rightarrow> cursor \<Rightarrow> heap \<Rightarrow> (nat \<times> cursor \<times> heap) result option" where
  "write_loop src written c h =
     (if src = [] then Some (Inr (written, c, h))
      else case AtEnd c h of Inl e \<Rightarrow> Some (Inl e)
        | Inr atend \<Rightarrow> if atend then Some (Inr (written, c, h))
           else (case write_step src c h of Inl e \<Rightarrow> Some (Inl e)
             | Inr (chunk, c1, h1) \<Rightarrow> write_loop (drop chunk src) (sz_add written chunk) c1 h1))"

definition Write :: "u8 list \<Rightarrow> cursor \<Rightarrow> heap \<Rightarrow> (nat \<times> cursor \<times> heap) result option" where
  "Write src c h = write_loop src 0 c h"

section \<open>Where a cursor stands\<close>

text \<open>On the ring \<open>pre @ b # post\<close>, which starts at the head, the cursor is in \<open>b\<close>.\<close>

definition stands :: "heap \<Rightarrow> cursor \<Rightarrow> bid list \<Rightarrow> bid \<Rightarrow> bid list \<Rightarrow> bool" where
  "stands h c pre b post \<longleftrightarrow> ring h (pre @ b # post) \<and> head' c = hd (pre @ [b]) \<and> current' c = b
     \<and> offset' c \<le> length (content h b)"

definition rest :: "heap \<Rightarrow> cursor \<Rightarrow> bid \<Rightarrow> bid list \<Rightarrow> u8 list" where
  "rest h c b post = drop (offset' c) (content h b) @ chain_bytes h post"

lemma BufferCursor_stands: "ring h (b # post) \<Longrightarrow> stands h (BufferCursor b) [] b post \<and> rest h (BufferCursor b) b post = chain_bytes h (b # post)"
  by (simp add: stands_def rest_def BufferCursor_def)

lemma stands_node:
  assumes wf: "wf_heap h" and s: "stands h c pre b post"
  obtains x where "bufs h b = Some x" "length' x = length (content h b)" "next' x = hd (post @ [head' c])"
    "post \<noteq> [] \<Longrightarrow> hd post \<noteq> head' c" "length' x < 2 ^ 64"
    "sz_sub (length' x) (offset' c) = length' x - offset' c"
proof -
  have r: "ring h (pre @ b # post)" and hd: "head' c = hd (pre @ [b])" using s by (auto simp: stands_def)
  have e: "hd (pre @ b # post) = head' c" using hd by (cases pre) auto
  then have "nxpath (nx h) (b # post) (head' c)" using ringD(3) [OF r] by simp
  then obtain x where x: "bufs h b = Some x" "next' x = hd (post @ [head' c])" by (auto simp: nx_Some)
  have l: "length' x = length (content h b)" using content_length [OF wf x(1)] by simp
  have sm: "length' x < 2 ^ 64" by (rule length_bound [OF wf x(1)])
  have ne: "hd post \<noteq> head' c" if "post \<noteq> []"
  proof
    assume "hd post = head' c"
    then have "head' c \<in> set post" using that by (metis hd_in_set)
    moreover have "head' c \<in> set (pre @ [b])" using hd by (metis hd_in_set snoc_eq_iff_butlast)
    ultimately show False using ringD(2) [OF r] by auto
  qed
  show thesis by (rule that [OF x(1) l x(2) ne sm]) (use s l sm in \<open>auto simp: stands_def intro!: sz_sub_eq\<close>)
qed

lemma AtEnd_spec:
  assumes wf: "wf_heap h" and s: "stands h c pre b post"
  shows "AtEnd c h = Inr (post = [] \<and> offset' c = length (content h b))"
proof (rule stands_node [OF wf s])
  fix x assume "bufs h b = Some x" "length' x = length (content h b)" "next' x = hd (post @ [head' c])"
    "post \<noteq> [] \<Longrightarrow> hd post \<noteq> head' c"
  then show ?thesis using s by (cases post) (auto simp: AtEnd_def stands_def)
qed

lemma stands_next: "stands h c pre b (d # post) \<Longrightarrow>
    stands h (c\<lparr>current' := d, offset' := 0\<rparr>) (pre @ [b]) d post"
  by (cases pre) (auto simp: stands_def)

text \<open>Moving the offset forward inside the node.\<close>

lemma stands_offset: "stands h c pre b post \<Longrightarrow> o' \<le> length (content h b) \<Longrightarrow> stands h (c\<lparr>offset' := o'\<rparr>) pre b post"
  by (simp add: stands_def)

lemma AdvanceIfExhausted_spec:
  assumes wf: "wf_heap h" and s: "stands h c pre b post"
  shows "AdvanceIfExhausted c h = Inr (if offset' c = length (content h b) \<and> post \<noteq> []
     then c\<lparr>current' := hd post, offset' := 0\<rparr> else c)"
proof (rule stands_node [OF wf s])
  fix x assume "bufs h b = Some x" "length' x = length (content h b)" "next' x = hd (post @ [head' c])"
    "post \<noteq> [] \<Longrightarrow> hd post \<noteq> head' c"
  then show ?thesis using s by (cases post) (auto simp: AdvanceIfExhausted_def stands_def)
qed

section \<open>Reading and skipping\<close>

lemma load_part:
  assumes wf: "wf_heap h" and b: "bufs h b = Some x" and n: "off + n \<le> length' x"
  shows "load h (ptr_add (data' x) off) n = Inr (take n (drop off (content h b)))"
proof (cases "physical' x")
  case None
  then have "length' x = 0" using wf_heapD(2) [OF wf, of b] b by (auto simp: bare_ok_def)
  then show ?thesis using n by (simp add: load_def)
next
  case (Some p)
  obtain ph k s i bs where v: "phys h p = Some ph" "buffer_start p ph = Some (k, s)"
    "data' x = Some (k, i)" "s \<le> i" "i + length' x \<le> s + capacity' ph" "mem h k = Some bs"
    "s + capacity' ph \<le> length bs" "length bs < 2 ^ 64" "content h b = slice bs i (length' x)"
    by (rule view_room [OF wf b Some])
  have pa: "ptr_add (data' x) off = Some (k, i + off)" using v n by (simp add: ptr_add_def sz_add_eq)
  have "take n (drop off (content h b)) = slice bs (i + off) n"
    using n slice_slice [of off n "length' x" bs i] by (simp add: v(9) slice_def)
  then show ?thesis using v n pa by (simp add: load_def)
qed

lemma read_step_spec:
  fixes len :: nat
  assumes wf: "wf_heap h" and s: "stands h c pre b post"
  defines "n \<equiv> min (length (content h b) - offset' c) len"
  defines "c1 \<equiv> (if offset' c + n = length (content h b) \<and> post \<noteq> []
      then c\<lparr>current' := hd post, offset' := 0\<rparr> else c\<lparr>offset' := offset' c + n\<rparr>)"
  shows "read_step len c h = Inr (take n (drop (offset' c) (content h b)), c1)"
    and "skip_step len c h = Inr (n, c1)"
proof -
  have le: "offset' c \<le> length (content h b)" using s by (simp add: stands_def)
  have s1: "stands h (c\<lparr>offset' := offset' c + n\<rparr>) pre b post"
    by (rule stands_offset [OF s]) (use le in \<open>simp add: n_def\<close>)
  have adv: "AdvanceIfExhausted (c\<lparr>offset' := offset' c + n\<rparr>) h = Inr c1"
    using AdvanceIfExhausted_spec [OF wf s1] by (simp add: c1_def)
  have both: "read_step len c h = Inr (take n (drop (offset' c) (content h b)), c1) \<and> skip_step len c h = Inr (n, c1)"
  proof (rule stands_node [OF wf s])
    fix x assume x: "bufs h b = Some x" "length' x = length (content h b)" "length' x < 2 ^ 64"
      "sz_sub (length' x) (offset' c) = length' x - offset' c"
    have "load h (ptr_add (data' x) (offset' c)) n = Inr (take n (drop (offset' c) (content h b)))"
      by (rule load_part [OF wf x(1)]) (use le x(2) in \<open>simp add: n_def\<close>)
    moreover have "sz_add (offset' c) n = offset' c + n" using le x(2,3) by (intro sz_add_eq) (simp add: n_def)
    moreover have "min (sz_sub (length' x) (offset' c)) len = n" using x by (simp add: n_def)
    moreover have "current' c = b" using s by (simp add: stands_def)
    ultimately show ?thesis using x(1) adv by (simp add: read_step_def skip_step_def Let_def)
  qed
  then show "read_step len c h = Inr (take n (drop (offset' c) (content h b)), c1)" "skip_step len c h = Inr (n, c1)"
    by blast+
qed

lemma read_loop_spec:
  assumes wf: "wf_heap h"
  shows "stands h c pre b post \<Longrightarrow>
    \<exists>c' pre' b' post'. read_loop len out c h = Some (Inr (out @ take len (rest h c b post), c'))
      \<and> Skip len c h = Some (Inr c')
      \<and> stands h c' pre' b' post' \<and> pre' @ b' # post' = pre @ b # post \<and> rest h c' b' post' = drop len (rest h c b post)"
proof (induction post arbitrary: c pre b len out)
  case Nil
  note s = Nil
  let ?L = "length (content h b)"
  have le: "offset' c \<le> ?L" using s by (simp add: stands_def)
  note ae = AtEnd_spec [OF wf s]
  show ?case
  proof (cases "len = 0 \<or> offset' c = ?L")
    case True
    then have "read_loop len out c h = Some (Inr (out, c)) \<and> Skip len c h = Some (Inr c)"
      using ae by (subst read_loop.simps, subst Skip.simps) auto
    then show ?thesis using True s by (intro exI [of _ c] exI [of _ pre] exI [of _ b] exI [of _ "[]"]) (auto simp: rest_def)
  next
    case False
    let ?n = "min (?L - offset' c) len"
    let ?c = "c\<lparr>offset' := offset' c + ?n\<rparr>"
    have s1: "stands h ?c pre b []" by (rule stands_offset [OF s]) (use le in simp)
    have st: "read_step len c h = Inr (take ?n (drop (offset' c) (content h b)), ?c)" "skip_step len c h = Inr (?n, ?c)"
      using read_step_spec [OF wf s, of len] by simp_all
    have fin: "len - ?n = 0 \<or> offset' c + ?n = ?L" using le by auto
    have stop: "read_loop (len - ?n) o2 ?c h = Some (Inr (o2, ?c))" for o2
      using AtEnd_spec [OF wf s1] fin by (subst read_loop.simps) auto
    have stop': "Skip (len - ?n) ?c h = Some (Inr ?c)" using AtEnd_spec [OF wf s1] fin by (subst Skip.simps) auto
    have "read_loop len out c h = Some (Inr (out @ take ?n (drop (offset' c) (content h b)), ?c))"
      using False ae st(1) stop by (subst read_loop.simps) simp
    moreover have "Skip len c h = Some (Inr ?c)" using False ae st(2) stop' by (subst Skip.simps) simp
    moreover have "rest h ?c b [] = drop len (rest h c b [])" using le by (auto simp: rest_def min_def add.commute)
    moreover have "take ?n (drop (offset' c) (content h b)) = take len (rest h c b [])" by (simp add: rest_def min_def)
    ultimately show ?thesis using s1 by (intro exI [of _ ?c] exI [of _ pre] exI [of _ b] exI [of _ "[]"]) simp
  qed
next
  case (Cons d post)
  note s = Cons.prems
  let ?L = "length (content h b)"
  have le: "offset' c \<le> ?L" using s by (simp add: stands_def)
  have ae: "AtEnd c h = Inr False" using AtEnd_spec [OF wf s] by simp
  let ?n = "min (?L - offset' c) len"
  note st = read_step_spec [OF wf s, of len]
  show ?case
  proof (cases "len < ?L - offset' c \<or> len = 0")
    case True
    let ?c = "c\<lparr>offset' := offset' c + len\<rparr>"
    have s1: "stands h ?c pre b (d # post)" by (rule stands_offset [OF s]) (use le True in auto)
    have "read_loop len out c h = Some (Inr (out @ take len (drop (offset' c) (content h b)), ?c)) \<and> Skip len c h = Some (Inr ?c)"
    proof (cases "len = 0")
      case True
      then show ?thesis by (subst read_loop.simps, subst Skip.simps) simp
    next
      case False
      with True have n: "?n = len" "offset' c + len \<noteq> ?L" by auto
      have "read_loop 0 o2 ?c h = Some (Inr (o2, ?c))" for o2 by (subst read_loop.simps) simp
      then have "read_loop len out c h = Some (Inr (out @ take len (drop (offset' c) (content h b)), ?c))"
        using ae st(1) n False by (subst read_loop.simps) simp
      moreover have "Skip 0 ?c h = Some (Inr ?c)" by (subst Skip.simps) simp
      then have "Skip len c h = Some (Inr ?c)" using ae st(2) n False by (subst Skip.simps) simp
      ultimately show ?thesis by blast
    qed
    moreover have "rest h ?c b (d # post) = drop len (rest h c b (d # post))" using True by (auto simp: rest_def add.commute)
    moreover have "take len (drop (offset' c) (content h b)) = take len (rest h c b (d # post))"
      using True by (auto simp: rest_def)
    ultimately show ?thesis using s1 by (intro exI [of _ ?c] exI [of _ pre] exI [of _ b] exI [of _ "d # post"]) simp
  next
    case False
    then have n: "?n = ?L - offset' c" "offset' c + ?n = ?L" and nz: "len \<noteq> 0" using le by auto
    let ?c = "c\<lparr>current' := d, offset' := 0\<rparr>"
    let ?v = "drop (offset' c) (content h b)"
    have s1: "stands h ?c (pre @ [b]) d post" by (rule stands_next [OF s])
    obtain c' pre' b' post' where ih: "read_loop (len - ?n) (out @ ?v) ?c h = Some (Inr ((out @ ?v) @ take (len - ?n) (rest h ?c d post), c'))"
        "Skip (len - ?n) ?c h = Some (Inr c')" "stands h c' pre' b' post'"
        "pre' @ b' # post' = (pre @ [b]) @ d # post" "rest h c' b' post' = drop (len - ?n) (rest h ?c d post)"
      using Cons.IH [OF s1] by blast
    have "read_loop len out c h = read_loop (len - ?n) (out @ ?v) ?c h"
      using nz ae st(1) n by (subst read_loop.simps) simp
    moreover have "Skip len c h = Skip (len - ?n) ?c h" using nz ae st(2) n by (subst Skip.simps) simp
    moreover have r: "rest h c b (d # post) = ?v @ rest h ?c d post" by (simp add: rest_def)
    moreover have "length ?v = ?n" using n by simp
    ultimately have "read_loop len out c h = Some (Inr (out @ take len (rest h c b (d # post)), c'))"
      "Skip len c h = Some (Inr c')" "rest h c' b' post' = drop len (rest h c b (d # post))"
      using ih False le by auto
    with ih(3,4) show ?thesis by fastforce
  qed
qed

lemma stands_path:
  assumes "stands h c pre b post"
  shows "nxpath (nx h) (b # post) (head' c)" "head' c \<notin> set post"
proof -
  have r: "ring h (pre @ b # post)" and e: "hd (pre @ b # post) = head' c" and m: "head' c \<in> set (pre @ [b])"
    using assms by (cases pre; auto simp: stands_def)+
  show "nxpath (nx h) (b # post) (head' c)" using ringD(3) [OF r] e by simp
  show "head' c \<notin> set post" using ringD(2) [OF r] m by auto
qed

lemma TotalLength_spec:
  assumes wf: "wf_heap h" and s: "stands h c pre b post" and small: "length (rest h c b post) < 2 ^ 64"
  shows "TotalLength c h = Some (Inr (length (rest h c b post)))"
proof (rule stands_node [OF wf s])
  fix x assume x: "bufs h b = Some x" "length' x = length (content h b)" "next' x = hd (post @ [head' c])"
    "sz_sub (length' x) (offset' c) = length' x - offset' c"
  have p: "nxpath (nx h) post (head' c)" "head' c \<notin> set post" using stands_path [OF s] by simp_all
  have "current' c = b" using s by (simp add: stands_def)
  with chain_length_loop_spec [OF wf p, of "length' x - offset' c"] x small
  show ?thesis by (simp add: TotalLength_def rest_def)
qed

text \<open>\<open>Peek\<close> copies the bytes that \<open>Read\<close> would copy.\<close>

lemma peek_loop_0 [simp]: "peek_loop head 0 out cur off h = Some (Inr out)"
  by (subst peek_loop.simps) simp

lemma peek_loop_spec:
  assumes wf: "wf_heap h"
  shows "nxpath (nx h) (b # post) head \<Longrightarrow> head \<notin> set post \<Longrightarrow> off \<le> length (content h b) \<Longrightarrow>
    peek_loop head len out b off h = Some (Inr (out @ take len (drop off (content h b) @ chain_bytes h post)))"
proof (induction post arbitrary: b off len out)
  case Nil
  obtain x where x: "bufs h b = Some x" "next' x = head" using Nil.prems(1) by (auto simp: nx_Some)
  have l: "length' x = length (content h b)" using content_length [OF wf x(1)] by simp
  have sm: "length' x < 2 ^ 64" by (rule length_bound [OF wf x(1)])
  have used: "peek_loop head n o2 b (length (content h b)) h = Some (Inr o2)" for n o2
    using x l sm by (subst peek_loop.simps) (simp add: sz_sub_eq)
  show ?case
  proof (cases "len = 0 \<or> off = length (content h b)")
    case True
    then show ?thesis using used by auto
  next
    case False
    let ?n = "min (length' x - off) len"
    have av: "sz_sub (length' x) off = length' x - off" "length' x - off \<noteq> 0" using Nil.prems(3) False l sm by (auto simp: sz_sub_eq)
    have ld: "load h (ptr_add (data' x) off) ?n = Inr (take ?n (drop off (content h b)))"
      by (rule load_part [OF wf x(1)]) (use Nil.prems(3) l in simp)
    have ad: "sz_add off ?n = off + ?n" using Nil.prems(3) l sm by (intro sz_add_eq) simp
    have "peek_loop head len out b off h = peek_loop head (len - ?n) (out @ take ?n (drop off (content h b))) b (off + ?n) h"
      using False x(1) av ld ad by (subst peek_loop.simps) (simp add: Let_def)
    also have "\<dots> = Some (Inr (out @ take ?n (drop off (content h b))))"
      using used l Nil.prems(3) by (cases "length' x - off \<le> len") (auto simp: min_def)
    finally show ?thesis by (simp add: l min_def)
  qed
next
  case (Cons d post)
  obtain x where x: "bufs h b = Some x" "next' x = d" using Cons.prems(1) by (auto simp: nx_Some)
  obtain z where z: "bufs h d = Some z" using Cons.prems(1) by (auto simp: nx_Some)
  have l: "length' x = length (content h b)" using content_length [OF wf x(1)] by simp
  have sm: "length' x < 2 ^ 64" by (rule length_bound [OF wf x(1)])
  have dn: "d \<noteq> head" using Cons.prems(2) by simp
  have ih: "peek_loop head n o2 d 0 h = Some (Inr (o2 @ take n (content h d @ chain_bytes h post)))" for n o2
    using Cons.IH [of d 0 n o2] Cons.prems(1,2) by simp
  have used: "peek_loop head n o2 b (length (content h b)) h = Some (Inr (o2 @ take n (content h d @ chain_bytes h post)))" for n o2
  proof (cases "n = 0")
    case True
    then show ?thesis by simp
  next
    case False
    have "peek_loop head n o2 b (length (content h b)) h = peek_loop head n o2 d 0 h"
      using False x l sm z dn by (subst peek_loop.simps) (simp add: sz_sub_eq load_def sz_add_eq Let_def)
    then show ?thesis using ih by simp
  qed
  show ?case
  proof (cases "len = 0 \<or> off = length (content h b)")
    case True
    then show ?thesis using used by auto
  next
    case False
    let ?n = "min (length' x - off) len"
    have av: "sz_sub (length' x) off = length' x - off" "length' x - off \<noteq> 0" using Cons.prems(3) False l sm by (auto simp: sz_sub_eq)
    have ld: "load h (ptr_add (data' x) off) ?n = Inr (take ?n (drop off (content h b)))"
      by (rule load_part [OF wf x(1)]) (use Cons.prems(3) l in simp)
    have ad: "sz_add off ?n = off + ?n" using Cons.prems(3) l sm by (intro sz_add_eq) simp
    have "peek_loop head len out b off h = peek_loop head (len - ?n) (out @ take ?n (drop off (content h b))) b (off + ?n) h"
      using False x(1) av ld ad by (subst peek_loop.simps) (simp add: Let_def)
    also have "\<dots> = Some (Inr ((out @ take ?n (drop off (content h b))) @ take (len - ?n) (content h d @ chain_bytes h post)))"
      using used l Cons.prems(3) by (cases "length' x - off \<le> len") (auto simp: min_def)
    finally show ?thesis by (simp add: l min_def)
  qed
qed

lemma Peek_spec:
  assumes wf: "wf_heap h" and s: "stands h c pre b post"
  shows "Peek len c h = Some (Inr (take len (rest h c b post)))"
  using peek_loop_spec [OF wf stands_path [OF s], of "offset' c" len "[]"] s by (simp add: Peek_def rest_def stands_def)

section \<open>Writing\<close>

text \<open>A private copy of any storage can be allocated.\<close>

definition alloc_ok :: "heap \<Rightarrow> bool" where
  "alloc_ok h \<longleftrightarrow> (\<forall>p ph. phys h p = Some ph \<longrightarrow> can_alloc h (capacity' ph))"

lemma write_step_spec:
  fixes src :: "u8 list"
  assumes wf: "wf_heap h" and al: "alloc_ok h" and s: "stands h c pre b post"
  defines "n \<equiv> min (length (content h b) - offset' c) (length src)"
  defines "c1 \<equiv> (if offset' c + n = length (content h b) \<and> post \<noteq> []
      then c\<lparr>current' := hd post, offset' := 0\<rparr> else c\<lparr>offset' := offset' c + n\<rparr>)"
  shows "\<exists>h'. write_step src c h = Inr (n, c1, h') \<and> wf_heap h' \<and> alloc_ok h' \<and> frame {b} h h'
    \<and> content h' b = splice (content h b) (offset' c) (take n src) \<and> nx h' = nx h"
proof -
  have le: "offset' c \<le> length (content h b)" and cb: "current' c = b" and r: "ring h (pre @ b # post)"
    using s by (auto simp: stands_def)
  obtain x where x: "bufs h b = Some x" using ringD(5) [OF r, of b] by auto
  have lx: "length' x = length (content h b)" using content_length [OF wf x] by simp
  obtain h1 y where h1: "CowDetach b h = Inr h1" "wf_heap h1" "frame {b} h h1" "content h1 b = content h b" "sole_view h1 b"
    "malloc_ok h1 = malloc_ok h" "bufs h1 = (bufs h)(b \<mapsto> y)" "length' y = length' x" "next' y = next' x"
    "\<forall>q qh. phys h1 q = Some qh \<longrightarrow> (\<exists>r rh. phys h r = Some rh \<and> capacity' qh = capacity' rh)"
    using CowDetach_spec [OF wf x] al unfolding alloc_ok_def by blast
  have b1: "bufs h1 b = Some y" by (simp add: h1(7))
  have sm: "length' y < 2 ^ 64" by (rule length_bound [OF h1(2) b1])
  have room: "offset' c + length (take n src) \<le> length' y" using le lx h1(8) by (simp add: n_def)
  obtain h2 where h2: "store (ptr_add (data' y) (offset' c)) (take n src) h1 = Inr h2" "wf_heap h2" "frame {b} h1 h2"
    "content h2 b = splice (content h1 b) (offset' c) (take n src)" "bufs h2 = bufs h1" "malloc_ok h2 = malloc_ok h1" "phys h2 = phys h1"
    using write_private [OF h1(2) b1 h1(5) room] by blast
  have nx2: "nx h2 = nx h" using h2(5) h1(7,9) x by (auto simp: nx_def fun_eq_iff)
  have len2: "length (content h2 b) = length (content h b)" using h2(4) h1(4) room lx h1(8) by simp
  have r2: "ring h2 (pre @ b # post)" by (rule ring_cong [OF r]) (simp add: nx2)
  have s2: "stands h2 (c\<lparr>offset' := offset' c + n\<rparr>) pre b post"
    using s r2 len2 le by (simp add: stands_def n_def)
  have adv: "AdvanceIfExhausted (c\<lparr>offset' := offset' c + n\<rparr>) h2 = Inr c1"
    using AdvanceIfExhausted_spec [OF h2(2) s2] len2 by (simp add: c1_def)
  have mn: "min (sz_sub (length' y) (offset' c)) (length src) = n" using le lx h1(8) sm by (simp add: sz_sub_eq n_def)
  have ad: "sz_add (offset' c) n = offset' c + n" using le lx h1(8) sm by (intro sz_add_eq) (simp add: n_def)
  have "write_step src c h = Inr (n, c1, h2)"
    using h1(1) b1 h2(1) adv mn ad cb by (simp add: write_step_def Let_def)
  moreover have "alloc_ok h2" using al h1(6,10) h2(6,7) unfolding alloc_ok_def can_alloc_def by metis
  ultimately show ?thesis using h2(2,4) h1(4) nx2 frame_trans [OF h1(3) h2(3)] by auto
qed

lemma stands_keep:
  assumes s: "stands h c pre b post" and n: "nx h' = nx h" and l: "length (content h' b) = length (content h b)"
  shows "stands h' c pre b post"
  using s l ring_cong [of h "pre @ b # post" h'] n by (simp add: stands_def)

text \<open>Writing over two adjacent pieces.\<close>

lemma splice_two:
  assumes "off + n = length xs" "n \<le> length src" "m \<le> length src - n" "m \<le> length ys"
  shows "splice xs off (take n src) @ splice ys 0 (take m (drop n src)) = splice (xs @ ys) off (take (n + m) src)"
proof -
  have "off \<le> length xs" "length (take n src) = n" "length (take (n + m) src) = n + m" "length (take m (drop n src)) = m"
    using assms by auto
  moreover have "take (n + m) src = take n src @ take m (drop n src)" by (rule take_add)
  moreover have "off + (n + m) - length xs = m" using assms(1) by arith
  ultimately show ?thesis using assms(1) by (simp add: splice_def)
qed

lemma write_loop_spec:
  "wf_heap h \<Longrightarrow> alloc_ok h \<Longrightarrow> stands h c pre b post \<Longrightarrow> w + length src < 2 ^ 64 \<Longrightarrow>
   \<exists>n c' h' pre' b' post'. n = min (length src) (length (rest h c b post))
     \<and> write_loop src w c h = Some (Inr (w + n, c', h')) \<and> wf_heap h' \<and> alloc_ok h' \<and> frame (set (b # post)) h h' \<and> nx h' = nx h
     \<and> chain_bytes h' (b # post) = splice (chain_bytes h (b # post)) (offset' c) (take n src)
     \<and> stands h' c' pre' b' post' \<and> pre' @ b' # post' = pre @ b # post \<and> rest h' c' b' post' = drop n (rest h c b post)"
proof (induction post arbitrary: h c pre b src w)
  case Nil
  note wf = Nil(1) and s = Nil(3)
  let ?L = "length (content h b)"
  have le: "offset' c \<le> ?L" using s by (simp add: stands_def)
  note ae = AtEnd_spec [OF wf s]
  show ?case
  proof (cases "src = [] \<or> offset' c = ?L")
    case True
    then have "write_loop src w c h = Some (Inr (w, c, h))" using ae by (subst write_loop.simps) auto
    moreover have "min (length src) (length (rest h c b [])) = 0" using True by (auto simp: rest_def)
    ultimately show ?thesis using Nil(1-3) by (intro exI [of _ 0] exI [of _ c] exI [of _ h] exI [of _ pre] exI [of _ b] exI [of _ "[]"]) simp
  next
    case False
    let ?n = "min (?L - offset' c) (length src)"
    let ?c = "c\<lparr>offset' := offset' c + ?n\<rparr>"
    obtain h1 where h1: "write_step src c h = Inr (?n, ?c, h1)" "wf_heap h1" "alloc_ok h1" "frame {b} h h1"
      "content h1 b = splice (content h b) (offset' c) (take ?n src)" "nx h1 = nx h"
      using write_step_spec [OF Nil(1-3), of src] by auto
    have len: "length (content h1 b) = ?L" using h1(5) le by simp
    have s1: "stands h1 ?c pre b []" by (rule stands_keep [OF stands_offset [OF s] h1(6) len]) (use le in simp)
    have fin: "drop ?n src = [] \<or> offset' c + ?n = ?L" using le by auto
    have stop: "write_loop (drop ?n src) w2 ?c h1 = Some (Inr (w2, ?c, h1))" for w2
      using AtEnd_spec [OF h1(2) s1] fin len by (subst write_loop.simps) auto
    have ad: "sz_add w ?n = w + ?n" using Nil(4) by (intro sz_add_eq) simp
    have "write_loop src w c h = Some (Inr (w + ?n, ?c, h1))"
      using False ae h1(1) stop ad by (subst write_loop.simps) simp
    moreover have "min (length src) (length (rest h c b [])) = ?n" by (simp add: rest_def min.commute)
    moreover have "rest h1 ?c b [] = drop ?n (rest h c b [])"
      using le h1(5) by (simp add: rest_def splice_def min.absorb1) (simp add: min_def add.commute)
    ultimately show ?thesis using h1 s1
      by (intro exI [of _ ?n] exI [of _ ?c] exI [of _ h1] exI [of _ pre] exI [of _ b] exI [of _ "[]"]) simp
  qed
next
  case (Cons d post)
  note wf = Cons.prems(1) and s = Cons.prems(3)
  let ?L = "length (content h b)"
  have le: "offset' c \<le> ?L" using s by (simp add: stands_def)
  have ae: "AtEnd c h = Inr False" using AtEnd_spec [OF wf s] by simp
  have dist: "b \<notin> set (d # post)" "distinct (d # post)" using s by (auto simp: stands_def ring_def)
  show ?case
  proof (cases "src = []")
    case True
    then have "write_loop src w c h = Some (Inr (w, c, h))" by (subst write_loop.simps) auto
    then show ?thesis using Cons.prems(1-3) True
      by (intro exI [of _ 0] exI [of _ c] exI [of _ h] exI [of _ pre] exI [of _ b] exI [of _ "d # post"]) simp
  next
    case False
    let ?n = "min (?L - offset' c) (length src)"
    let ?c = "if offset' c + ?n = ?L \<and> d # post \<noteq> [] then c\<lparr>current' := hd (d # post), offset' := 0\<rparr> else c\<lparr>offset' := offset' c + ?n\<rparr>"
    obtain h1 where h1: "write_step src c h = Inr (?n, ?c, h1)" "wf_heap h1" "alloc_ok h1" "frame {b} h h1"
      "content h1 b = splice (content h b) (offset' c) (take ?n src)" "nx h1 = nx h"
      using write_step_spec [OF Cons.prems(1-3), of src] by blast
    have len: "length (content h1 b) = ?L" using h1(5) le by simp
    have ad: "sz_add w ?n = w + ?n" using Cons.prems(4) by (intro sz_add_eq) simp
    have run: "write_loop src w c h = write_loop (drop ?n src) (w + ?n) ?c h1"
      using False ae h1(1) ad by (subst write_loop.simps) simp
    have same: "chain_bytes h1 (d # post) = chain_bytes h (d # post)"
      by (rule chain_bytes_cong, rule frame_content [OF h1(4)]) (use dist(1) in auto)
    have f1: "frame (set (b # d # post)) h h1" by (rule frame_mono [OF h1(4)]) simp
    show ?thesis
    proof (cases "offset' c + ?n = ?L")
      case False
      then have nn: "?n = length src" "offset' c + length src < ?L" using le by auto
      then have c1: "?c = c\<lparr>offset' := offset' c + length src\<rparr>" by simp
      have s1: "stands h1 (c\<lparr>offset' := offset' c + length src\<rparr>) pre b (d # post)"
        by (rule stands_keep [OF stands_offset [OF s] h1(6) len]) (use nn in simp)
      have "write_loop src w c h = Some (Inr (w + length src, c\<lparr>offset' := offset' c + length src\<rparr>, h1))"
        using run nn(1) c1 by (simp add: write_loop.simps)
      moreover have "min (length src) (length (rest h c b (d # post))) = length src" using nn(2) by (simp add: rest_def)
      moreover have "chain_bytes h1 (b # d # post) = splice (chain_bytes h (b # d # post)) (offset' c) src"
        unfolding chain_bytes_simps(2) [of _ b] same using h1(5) nn le by (simp add: splice_def)
      moreover have "rest h1 (c\<lparr>offset' := offset' c + length src\<rparr>) b (d # post) = drop (length src) (rest h c b (d # post))"
        unfolding rest_def same using h1(5) nn le by (simp add: splice_def min.absorb1 add.commute)
      ultimately show ?thesis using h1 s1 f1
        by (intro exI [of _ "length src"] exI [of _ "c\<lparr>offset' := offset' c + length src\<rparr>"] exI [of _ h1] exI [of _ pre]
            exI [of _ b] exI [of _ "d # post"]) simp
    next
      case True
      then have nn: "?n = ?L - offset' c" "?L - offset' c \<le> length src" using le by auto
      let ?c1 = "c\<lparr>current' := d, offset' := 0\<rparr>"
      let ?src = "drop ?n src"
      have c1: "?c = ?c1" using True by simp
      have s0: "stands h ?c1 (pre @ [b]) d post" by (rule stands_next [OF s])
      have "content h1 d = content h d" by (rule frame_content [OF h1(4)]) (use dist(1) in auto)
      then have s1: "stands h1 ?c1 (pre @ [b]) d post" using stands_keep [OF s0 h1(6)] by simp
      have w1: "w + ?n + length ?src < 2 ^ 64" using Cons.prems(4) nn by simp
      obtain m c' h' pre' b' post' where ih: "m = min (length ?src) (length (rest h1 ?c1 d post))"
        "write_loop ?src (w + ?n) ?c1 h1 = Some (Inr (w + ?n + m, c', h'))" "wf_heap h'" "alloc_ok h'"
        "frame (set (d # post)) h1 h'" "nx h' = nx h1"
        "chain_bytes h' (d # post) = splice (chain_bytes h1 (d # post)) (offset' ?c1) (take m ?src)"
        "stands h' c' pre' b' post'" "pre' @ b' # post' = (pre @ [b]) @ d # post" "rest h' c' b' post' = drop m (rest h1 ?c1 d post)"
        using Cons.IH [OF h1(2,3) s1 w1] by blast
      have rst: "rest h1 ?c1 d post = chain_bytes h (d # post)" using same by (simp add: rest_def)
      have rst0: "rest h c b (d # post) = drop (offset' c) (content h b) @ chain_bytes h (d # post)" by (simp add: rest_def)
      have n: "min (length src) (length (rest h c b (d # post))) = ?n + m"
        unfolding rst0 ih(1) rst nn(1) length_append length_drop using nn(2) by arith
      have cb: "content h' b = content h1 b" by (rule frame_content [OF ih(5)]) (use dist(1) in simp)
      have "chain_bytes h' (b # d # post) = splice (content h b) (offset' c) (take ?n src) @ splice (chain_bytes h (d # post)) 0 (take m ?src)"
        unfolding chain_bytes_simps(2) [of _ b] cb h1(5) ih(7) same by simp
      also have "\<dots> = splice (content h b @ chain_bytes h (d # post)) (offset' c) (take (?n + m) src)"
        by (rule splice_two) (use True nn ih(1) rst in auto)
      finally have cb': "chain_bytes h' (b # d # post) = splice (chain_bytes h (b # d # post)) (offset' c) (take (?n + m) src)"
        by simp
      have rs: "rest h' c' b' post' = drop (?n + m) (rest h c b (d # post))"
        unfolding ih(10) rst rst0 using nn le by simp
      have f2: "frame (set (b # d # post)) h1 h'" by (rule frame_mono [OF ih(5)]) auto
      have wl: "write_loop src w c h = Some (Inr (w + (?n + m), c', h'))" using run c1 ih(2) by (simp add: add.assoc)
      show ?thesis
        by (rule exI [of _ "?n + m"], rule exI [of _ c'], rule exI [of _ h'], rule exI [of _ pre'], rule exI [of _ b'],
            rule exI [of _ post'], intro conjI n [symmetric] wl ih(3,4,8) frame_trans [OF f1 f2] cb' rs)
          (simp_all add: ih(6,9) h1(6))
    qed
  qed
qed

end
