(* ===== verification/Safe_Ops.thy ===== *)
theory Safe_Ops
  imports Yacul_Prelude
begin

text \<open>
  The contract that several components promise to their callers: an operation that is called when it is
  \<open>ready\<close>, in a state that satisfies the invariant, returns (it does not loop), does not fault, keeps the
  invariant and changes only what it \<open>touches\<close>. What a caller gets out of it for whole programs of
  calls is proved once, in the locale.
\<close>

section \<open>Programs of calls\<close>

text \<open>\<open>None\<close> is a call that does not return, \<open>Some (Inl e)\<close> one that faults.\<close>

fun run_all :: "('o \<Rightarrow> 's \<Rightarrow> 's result option) \<Rightarrow> 'o list \<Rightarrow> 's \<Rightarrow> 's result option" where
  "run_all run [] s = Some (Inr s)"
| "run_all run (x # xs) s = (case run x s of None \<Rightarrow> None | Some (Inl e) \<Rightarrow> Some (Inl e)
     | Some (Inr s') \<Rightarrow> run_all run xs s')"

fun ready_all :: "('o \<Rightarrow> 's \<Rightarrow> 's result option) \<Rightarrow> ('o \<Rightarrow> 's \<Rightarrow> bool) \<Rightarrow> 'o list \<Rightarrow> 's \<Rightarrow> bool" where
  "ready_all run ready [] s \<longleftrightarrow> True"
| "ready_all run ready (x # xs) s \<longleftrightarrow> ready x s \<and>
     (case run x s of Some (Inr s') \<Rightarrow> ready_all run ready xs s' | _ \<Rightarrow> True)"

text \<open>The states that ready calls lead to.\<close>

inductive reached :: "('o \<Rightarrow> 's \<Rightarrow> 's result option) \<Rightarrow> ('o \<Rightarrow> 's \<Rightarrow> bool) \<Rightarrow> 's \<Rightarrow> 's \<Rightarrow> bool"
  for run ready where
  reached_refl: "reached run ready s s"
| reached_step: "reached run ready s t \<Longrightarrow> ready x t \<Longrightarrow> run x t = Some (Inr u) \<Longrightarrow> reached run ready s u"

inductive_cases reached_cases: "reached run ready s t"

section \<open>The contract\<close>

locale safe_ops =
  fixes inv :: "'s \<Rightarrow> bool"
    and run :: "'o \<Rightarrow> 's \<Rightarrow> 's result option"
    and ready :: "'o \<Rightarrow> 's \<Rightarrow> bool"
    and touches :: "'o \<Rightarrow> 'k set"
    and unchanged :: "'k set \<Rightarrow> 's \<Rightarrow> 's \<Rightarrow> bool"
  assumes step_ok: "inv s \<Longrightarrow> ready x s \<Longrightarrow> \<exists>s'. run x s = Some (Inr s') \<and> inv s' \<and> unchanged (touches x) s s'"
    and unchanged_refl: "unchanged S s s"
    and unchanged_trans: "unchanged S s t \<Longrightarrow> unchanged S t u \<Longrightarrow> unchanged S s u"
    and unchanged_mono: "unchanged S s t \<Longrightarrow> S \<subseteq> T \<Longrightarrow> unchanged T s t"
begin

lemma run_all_ok:
  "inv s \<Longrightarrow> ready_all run ready xs s \<Longrightarrow>
   \<exists>s'. run_all run xs s = Some (Inr s') \<and> inv s' \<and> unchanged (\<Union> (touches ` set xs)) s s'"
proof (induction xs arbitrary: s)
  case Nil
  then show ?case by (simp add: unchanged_refl)
next
  case (Cons x xs)
  obtain t where t: "run x s = Some (Inr t)" "inv t" "unchanged (touches x) s t"
    using step_ok [OF Cons.prems(1), of x] Cons.prems(2) by auto
  have "ready_all run ready xs t" using Cons.prems(2) t(1) by simp
  then obtain u where u: "run_all run xs t = Some (Inr u)" "inv u" "unchanged (\<Union> (touches ` set xs)) t u"
    using Cons.IH [OF t(2)] by blast
  have "unchanged (\<Union> (touches ` set (x # xs))) s t" "unchanged (\<Union> (touches ` set (x # xs))) t u"
    using t(3) u(3) by (auto elim!: unchanged_mono)
  then have "unchanged (\<Union> (touches ` set (x # xs))) s u" by (rule unchanged_trans)
  then show ?case using t(1) u(1,2) by simp
qed

lemma reached_inv: "reached run ready s t \<Longrightarrow> inv s \<Longrightarrow> inv t"
proof (induction rule: reached.induct)
  case (reached_step s t x u)
  with step_ok [of t x] show ?case by auto
qed

text \<open>No state that can be reached is one in which a ready call gets stuck.\<close>

lemma reached_progress: "reached run ready s t \<Longrightarrow> inv s \<Longrightarrow> ready x t \<Longrightarrow> \<exists>u. run x t = Some (Inr u)"
  using reached_inv step_ok by blast

end

end
