(* ===== verification/Buffer_System.thy ===== *)
theory Buffer_System
  imports Buffer_Cursor Safe_Ops
begin

text \<open>
  All operations of \<^verbatim>\<open>buffer.h\<close> as one system: \<open>buffer_op\<close> lists the calls a client can make, \<open>run_op\<close>
  runs one, \<open>ready\<close> is the precondition of a call (the documented one, or the one that modelling
  showed to be needed), \<open>touches\<close> the nodes whose bytes it may change. The contract \<open>safe_ops\<close> is
  discharged for it, and the properties of the component are stated at the end.
\<close>

section \<open>The calls\<close>

datatype buffer_op =
    OpDefault bid
  | OpCreate bid nat
  | OpCopyFrom bid "u8 list"
  | OpWrapExternal bid nat nat nat "nat option"
  | OpCopy bid bid
  | OpCopyAssign bid bid
  | OpMove bid bid
  | OpMoveAssign bid bid
  | OpDestroy bid
  | OpTrimStart nat bid
  | OpTrimEnd nat bid
  | OpPrepend nat bid
  | OpAppend nat bid
  | OpEnsureTailroom nat bid
  | OpReserve nat bid
  | OpAppendData "u8 list" bid
  | OpSlice nat nat bid bid
  | OpClone bid bid
  | OpWriteAt nat "u8 list" bid
  | OpAppendChain bid bid
  | OpPrependChain bid bid
  | OpUnlink bid
  | OpSplitChainAfter bid
  | OpCoalesceChain bid bid
  | OpDestroyChain bid
  | OpCursorWrite "u8 list" bid

text \<open>A client that writes \<open>vs\<close> at \<open>off\<close> through \<open>writable_data()\<close>.\<close>

definition write_at :: "nat \<Rightarrow> u8 list \<Rightarrow> bid \<Rightarrow> heap \<Rightarrow> heap result" where
  "write_at off vs b h = rbind (writable_data b h) (\<lambda>(q, h1). store (ptr_add q off) vs h1)"

fun run_op :: "buffer_op \<Rightarrow> heap \<Rightarrow> heap result option" where
  "run_op (OpDefault d) h = Some (Buffer_default d h)"
| "run_op (OpCreate d cap) h = Some (Buffer_Create d cap h)"
| "run_op (OpCopyFrom d src) h = Some (Buffer_CopyFrom d src h)"
| "run_op (OpWrapExternal d a i n f) h = Some (Buffer_WrapExternal d (Some (Ext a, i)) n f h)"
| "run_op (OpCopy d rhs) h = Some (Buffer_copy d rhs h)"
| "run_op (OpCopyAssign b rhs) h = Some (Buffer_copy_assign b rhs h)"
| "run_op (OpMove d rhs) h = Some (Buffer_move d rhs h)"
| "run_op (OpMoveAssign b rhs) h = Some (Buffer_move_assign b rhs h)"
| "run_op (OpDestroy b) h = Some (Buffer_destroy b h)"
| "run_op (OpTrimStart n b) h = Some (TrimStart n b h)"
| "run_op (OpTrimEnd n b) h = Some (TrimEnd n b h)"
| "run_op (OpPrepend n b) h = Some (Prepend n b h)"
| "run_op (OpAppend n b) h = Some (Append n b h)"
| "run_op (OpEnsureTailroom n b) h = Some (EnsureTailroom n b h)"
| "run_op (OpReserve n b) h = Some (Reserve n b h)"
| "run_op (OpAppendData src b) h = Some (AppendData src b h)"
| "run_op (OpSlice off n b d) h = Some (Slice off n b d h)"
| "run_op (OpClone b d) h = Some (Clone b d h)"
| "run_op (OpWriteAt off vs b) h = Some (write_at off vs b h)"
| "run_op (OpAppendChain this other) h = Some (AppendChain this other h)"
| "run_op (OpPrependChain this other) h = Some (PrependChain this other h)"
| "run_op (OpUnlink b) h = Some (rbind (Unlink b h) (\<lambda>(_, h1). Inr h1))"
| "run_op (OpSplitChainAfter b) h = Some (rbind (SplitChainAfter b h) (\<lambda>(_, h1). Inr h1))"
| "run_op (OpCoalesceChain b d) h = CoalesceChain b d h"
| "run_op (OpDestroyChain b) h = DestroyChain (Some b) h"
| "run_op (OpCursorWrite src b) h =
     (case Write src (BufferRWCursor b) h of None \<Rightarrow> None
      | Some r \<Rightarrow> Some (rbind r (\<lambda>(_, _, h1). Inr h1)))"

fun touches :: "buffer_op \<Rightarrow> bid set" where
  "touches (OpMove d rhs) = {d, rhs}"
| "touches (OpMoveAssign b rhs) = {b, rhs}"
| "touches (OpDefault d) = {d}"
| "touches (OpCreate d _) = {d}"
| "touches (OpCopyFrom d _) = {d}"
| "touches (OpWrapExternal d _ _ _ _) = {d}"
| "touches (OpCopy d _) = {d}"
| "touches (OpCopyAssign b _) = {b}"
| "touches (OpDestroy b) = {b}"
| "touches (OpTrimStart _ b) = {b}"
| "touches (OpTrimEnd _ b) = {b}"
| "touches (OpPrepend _ b) = {b}"
| "touches (OpAppend _ b) = {b}"
| "touches (OpAppendData _ b) = {b}"
| "touches (OpSlice _ _ _ d) = {d}"
| "touches (OpClone _ d) = {d}"
| "touches (OpWriteAt _ _ b) = {b}"
| "touches (OpCoalesceChain _ d) = {d}"
| "touches (OpDestroyChain _) = UNIV"
| "touches (OpCursorWrite _ _) = UNIV"
| "touches _ = {}"

section \<open>Preconditions\<close>

definition live :: "heap \<Rightarrow> bid \<Rightarrow> bool" where
  "live h b \<longleftrightarrow> bufs h b \<noteq> None"

definition buffer_size :: "heap \<Rightarrow> bid \<Rightarrow> nat" where
  "buffer_size h b = (case bufs h b of None \<Rightarrow> 0 | Some x \<Rightarrow> length' x)"

text \<open>
  \<open>EnsureTailroom(n)\<close> is safe when the node already has private room, or when the bytes fit into
  the new storage behind the headroom that is carried over.
\<close>

definition can_grow :: "heap \<Rightarrow> nat \<Rightarrow> bid \<Rightarrow> bool" where
  "can_grow h n b \<longleftrightarrow> buffer_size h b + n < 2 ^ 64 \<and>
     (case (tailroom b h, headroom b h) of
        (Inr t, Inr head) \<Rightarrow> sole_view h b \<and> n \<le> t \<or>
          can_alloc h (grown (buffer_size h b + n)) \<and> head + buffer_size h b + n \<le> grown (buffer_size h b + n)
      | _ \<Rightarrow> False)"

definition can_detach :: "heap \<Rightarrow> bid \<Rightarrow> bool" where
  "can_detach h b \<longleftrightarrow> (\<forall>x p ph. bufs h b = Some x \<longrightarrow> physical' x = Some p \<longrightarrow> phys h p = Some ph \<longrightarrow>
     can_alloc h (capacity' ph))"

fun ready :: "buffer_op \<Rightarrow> heap \<Rightarrow> bool" where
  "ready (OpDefault d) h \<longleftrightarrow> \<not> live h d"
| "ready (OpCreate d cap) h \<longleftrightarrow> \<not> live h d \<and> can_alloc h cap"
| "ready (OpCopyFrom d src) h \<longleftrightarrow> \<not> live h d \<and> can_alloc h (length src)"
| "ready (OpWrapExternal d a i n f) h \<longleftrightarrow> \<not> live h d \<and> malloc_ok h sizeof_PhysicalBuffer \<and>
     (\<exists>bs. mem h (Ext a) = Some bs \<and> i + n \<le> length bs \<and> length bs < 2 ^ 64) \<and>
     (\<forall>p ph. phys h p = Some ph \<longrightarrow> block p ph \<noteq> Some (Ext a))"
| "ready (OpCopy d rhs) h \<longleftrightarrow> \<not> live h d \<and> live h rhs \<and> can_retain h rhs"
| "ready (OpCopyAssign b rhs) h \<longleftrightarrow> live h b \<and> live h rhs \<and> can_retain h rhs"
| "ready (OpMove d rhs) h \<longleftrightarrow> \<not> live h d \<and> live h rhs"
| "ready (OpMoveAssign b rhs) h \<longleftrightarrow> live h b \<and> live h rhs"
| "ready (OpDestroy b) h \<longleftrightarrow> live h b"
| "ready (OpTrimStart n b) h \<longleftrightarrow> live h b \<and> n \<le> buffer_size h b"
| "ready (OpTrimEnd n b) h \<longleftrightarrow> live h b \<and> n \<le> buffer_size h b"
| "ready (OpPrepend n b) h \<longleftrightarrow> live h b \<and> (case headroom b h of Inr r \<Rightarrow> n \<le> r | _ \<Rightarrow> False)"
| "ready (OpAppend n b) h \<longleftrightarrow> live h b \<and> (case tailroom b h of Inr r \<Rightarrow> n \<le> r | _ \<Rightarrow> False)"
| "ready (OpEnsureTailroom n b) h \<longleftrightarrow> live h b \<and> can_grow h n b"
| "ready (OpReserve n b) h \<longleftrightarrow> live h b \<and> can_grow h (n - buffer_size h b) b"
| "ready (OpAppendData src b) h \<longleftrightarrow> live h b \<and> can_grow h (length src) b"
| "ready (OpSlice off n b d) h \<longleftrightarrow> live h b \<and> \<not> live h d \<and> off + n \<le> buffer_size h b \<and> can_retain h b"
| "ready (OpClone b d) h \<longleftrightarrow> live h b \<and> \<not> live h d \<and> can_alloc h (buffer_size h b)"
| "ready (OpWriteAt off vs b) h \<longleftrightarrow> live h b \<and> off + length vs \<le> buffer_size h b \<and> can_detach h b"
| "ready (OpAppendChain this other) h \<longleftrightarrow>
     (\<exists>xs ys. ring h (this # xs) \<and> ring h (other # ys) \<and> set (this # xs) \<inter> set (other # ys) = {})"
| "ready (OpPrependChain this other) h \<longleftrightarrow>
     (\<exists>xs ys. ring h (this # xs) \<and> ring h (other # ys) \<and> set (this # xs) \<inter> set (other # ys) = {})"
| "ready (OpUnlink b) h \<longleftrightarrow> live h b"
| "ready (OpSplitChainAfter b) h \<longleftrightarrow> live h b"
| "ready (OpCoalesceChain b d) h \<longleftrightarrow> live h b \<and> \<not> live h d \<and>
     (\<forall>xs. ring h (b # xs) \<longrightarrow> can_alloc h (length (chain_bytes h (b # xs))))"
| "ready (OpDestroyChain b) h \<longleftrightarrow> live h b"
| "ready (OpCursorWrite src b) h \<longleftrightarrow> live h b \<and> alloc_ok h \<and> length src < 2 ^ 64"

section \<open>Every ready call is safe\<close>

lemma ring_step:
  assumes "wf_heap h" "ring_only h h'" "links_ok h'"
  shows "wf_heap h' \<and> frame S h h'"
  using assms ring_only_wf_views frame_ring_only by (auto simp: wf_heap_def)

lemma live_ring: "wf_heap h \<Longrightarrow> live h b \<Longrightarrow> \<exists>xs. ring h (b # xs)"
  using ring_exists [OF wf_heapD(3) wf_pendD(1) [OF wf_heapD(1)]] by (simp add: live_def)

lemma Unlink_total:
  assumes wf: "wf_heap h" and b: "live h b"
  shows "\<exists>r h'. Unlink b h = Inr (r, h') \<and> ring_only h h' \<and> links_ok h'"
proof -
  obtain xs where r: "ring h (b # xs)" using live_ring [OF wf b] by blast
  show ?thesis
  proof (cases "xs = []")
    case True
    then show ?thesis using Unlink_standalone r wf_heapD(3) [OF wf] by fastforce
  next
    case False
    then show ?thesis using Unlink_links [OF wf_heapD(3) [OF wf] r] by blast
  qed
qed

lemma SplitChainAfter_total:
  assumes wf: "wf_heap h" and b: "live h b"
  shows "\<exists>r h'. SplitChainAfter b h = Inr (r, h') \<and> ring_only h h' \<and> links_ok h'"
proof -
  note ok = wf_heapD(3) [OF wf]
  obtain xs where r: "ring h (b # xs)" using live_ring [OF wf b] by blast
  show ?thesis
  proof (cases xs rule: rev_cases)
    case Nil
    then have "SplitChainAfter b h = Inr (None, h)" using r by (auto simp: ring_def nx_Some SplitChainAfter_def is_chained_def)
    then show ?thesis using ok by fastforce
  next
    case (snoc zs l)
    have r2: "ring h (l # b # zs)" using ring_rotate [of h "b # zs" "[l]"] r snoc by simp
    show ?thesis
    proof (cases "zs = []")
      case True
      then show ?thesis using SplitChainAfter_pair [OF ok] r2 by blast
    next
      case False
      then show ?thesis using SplitChainAfter_links [OF ok r2] by blast
    qed
  qed
qed

text \<open>The rooms of a live node are always defined.\<close>

lemma rooms_defined:
  assumes wf: "wf_heap h" and b: "bufs h b = Some x"
  obtains t r where "tailroom b h = Inr t" "headroom b h = Inr r"
proof (cases "physical' x")
  case None
  then show thesis using that b by (simp add: tailroom_def headroom_def)
next
  case (Some p)
  show thesis by (rule view_room [OF wf b Some]) (use that in blast)
qed

lemma can_growD:
  assumes "can_grow h n b" "bufs h b = Some x"
  obtains t head where "tailroom b h = Inr t" "headroom b h = Inr head" "length' x + n < 2 ^ 64"
    "sole_view h b \<and> n \<le> t \<or> can_alloc h (grown (length' x + n)) \<and> head + length' x + n \<le> grown (length' x + n)"
  using assms unfolding can_grow_def buffer_size_def by (auto split: sum.splits)

lemma frame_shrink:
  "frame {b} h h' \<Longrightarrow> content h' b = content h b \<Longrightarrow> (bufs h' b = None \<longleftrightarrow> bufs h b = None) \<Longrightarrow> frame {} h h'"
  unfolding frame_def by (metis empty_iff singleton_iff)

lemma Reserve_spec:
  assumes wf: "wf_heap h" and b: "bufs h b = Some x" and g: "can_grow h (n - length' x) b"
  shows "\<exists>h'. Reserve n b h = Inr h' \<and> wf_heap h' \<and> frame {} h h'"
proof -
  obtain t head where r: "tailroom b h = Inr t" "headroom b h = Inr head" "length' x + (n - length' x) < 2 ^ 64"
    "sole_view h b \<and> n - length' x \<le> t \<or> can_alloc h (grown (length' x + (n - length' x)))
       \<and> head + length' x + (n - length' x) \<le> grown (length' x + (n - length' x))"
    by (rule can_growD [OF g b])
  obtain h' where h': "EnsureTailroom (n - length' x) b h = Inr h'" "wf_heap h'" "frame {b} h h'" "content h' b = content h b"
    "bufs h' b \<noteq> None" using EnsureTailroom_spec [OF wf b r] by auto
  have f: "frame {} h h'" by (rule frame_shrink [OF h'(3,4)]) (use h'(5) b in auto)
  have sub: "(if n > length' x then sz_sub n (length' x) else 0) = n - length' x" using r(3) by (simp add: sz_sub_eq)
  obtain c where c: "Buffer_capacity b h = Inr c"
    using b wf_pendD(7) [OF wf_heapD(1) [OF wf] b] by (cases "physical' x") (auto simp: Buffer_capacity_def view_in_def)
  obtain s where s: "Buffer_is_shared b h = Inr s"
    using b wf_pendD(7) [OF wf_heapD(1) [OF wf] b] by (cases "physical' x") (auto simp: Buffer_is_shared_def view_in_def)
  show ?thesis
  proof (cases "c \<ge> n \<and> \<not> s")
    case True
    then have "Reserve n b h = Inr h" using b c s by (simp add: Reserve_def)
    then show ?thesis using wf by simp
  next
    case False
    then have "Reserve n b h = Inr h'" using b c s h'(1) sub by (auto simp: Reserve_def)
    then show ?thesis using h'(2) f by simp
  qed
qed

lemma write_at_spec:
  assumes wf: "wf_heap h" and b: "bufs h b = Some x" and n: "off + length vs \<le> length' x" and al: "can_detach h b"
  shows "\<exists>h'. write_at off vs b h = Inr h' \<and> wf_heap h' \<and> frame {b} h h'
    \<and> content h' b = splice (content h b) off vs"
proof -
  obtain h1 y where h1: "CowDetach b h = Inr h1" "wf_heap h1" "frame {b} h h1" "content h1 b = content h b" "sole_view h1 b"
    "bufs h1 = (bufs h)(b \<mapsto> y)" "length' y = length' x"
    using CowDetach_spec [OF wf b] al b unfolding can_detach_def by blast
  have b1: "bufs h1 b = Some y" by (simp add: h1(6))
  obtain h2 where "store (ptr_add (data' y) off) vs h1 = Inr h2" "wf_heap h2" "frame {b} h1 h2"
    "content h2 b = splice (content h1 b) off vs" using write_private [OF h1(2) b1 h1(5), of off vs] n h1(7) by auto
  then show ?thesis using h1 b1 frame_trans [OF h1(3)] by (auto simp: write_at_def writable_data_def)
qed

lemma run_op_safe:
  assumes wf: "wf_heap h" and rd: "ready x h"
  shows "\<exists>h'. run_op x h = Some (Inr h') \<and> wf_heap h' \<and> frame (touches x) h h'"
proof (cases x)
  case (OpDefault d)
  then have d: "bufs h d = None" using rd by (simp add: live_def)
  show ?thesis using OpDefault Buffer_default_spec(1-3) [OF wf d] by auto
next
  case (OpCreate d cap)
  then have d: "bufs h d = None" and a: "can_alloc h cap" using rd by (simp_all add: live_def)
  have "\<exists>h'. Buffer_Create d cap h = Inr h' \<and> wf_heap h' \<and> frame {d} h h'"
    using Buffer_Create_spec [OF wf d] a unfolding can_alloc_def by blast
  then show ?thesis using OpCreate by auto
next
  case (OpCopyFrom d src)
  then have d: "bufs h d = None" and a: "can_alloc h (length src)" using rd by (simp_all add: live_def)
  have "\<exists>h'. Buffer_CopyFrom d src h = Inr h' \<and> wf_heap h' \<and> frame {d} h h'"
    using Buffer_CopyFrom_spec [OF wf d] a unfolding can_alloc_def by blast
  then show ?thesis using OpCopyFrom by auto
next
  case (OpWrapExternal d a i n f)
  then obtain bs where d: "bufs h d = None" "malloc_ok h sizeof_PhysicalBuffer" "mem h (Ext a) = Some bs"
    "i + n \<le> length bs" "length bs < 2 ^ 64" and fr: "\<And>p ph. phys h p = Some ph \<Longrightarrow> block p ph \<noteq> Some (Ext a)"
    using rd by (auto simp: live_def)
  have "\<exists>h'. Buffer_WrapExternal d (Some (Ext a, i)) n f h = Inr h' \<and> wf_heap h' \<and> frame {d} h h'"
    using Buffer_WrapExternal_spec [OF wf d fr, of f] by blast
  then show ?thesis using OpWrapExternal by auto
next
  case (OpCopy d rhs)
  then obtain r where d: "bufs h rhs = Some r" "bufs h d = None" "can_retain h rhs" using rd by (auto simp: live_def)
  have "\<exists>h'. Buffer_copy d rhs h = Inr h' \<and> wf_heap h' \<and> frame {d} h h'"
    using Buffer_copy_spec [OF wf d] by blast
  then show ?thesis using OpCopy by auto
next
  case (OpCopyAssign b rhs)
  then obtain y r where d: "bufs h b = Some y" "bufs h rhs = Some r" "can_retain h rhs" using rd by (auto simp: live_def)
  show ?thesis
  proof (cases "b = rhs")
    case True
    then show ?thesis using OpCopyAssign wf by (simp add: Buffer_copy_assign_def)
  next
    case False
    show ?thesis using OpCopyAssign Buffer_copy_assign_spec [OF wf d(1,2) False d(3)] by auto
  qed
next
  case (OpMove d rhs)
  then obtain r where d: "bufs h rhs = Some r" "bufs h d = None" using rd by (auto simp: live_def)
  show ?thesis using OpMove Buffer_move_spec [OF wf d] by auto
next
  case (OpMoveAssign b rhs)
  then obtain y r where d: "bufs h b = Some y" "bufs h rhs = Some r" using rd by (auto simp: live_def)
  show ?thesis
  proof (cases "b = rhs")
    case True
    then show ?thesis using OpMoveAssign wf by (simp add: Buffer_move_assign_def)
  next
    case False
    show ?thesis using OpMoveAssign Buffer_move_assign_spec [OF wf d False] by auto
  qed
next
  case (OpDestroy b)
  then obtain y where d: "bufs h b = Some y" using rd by (auto simp: live_def)
  show ?thesis using OpDestroy Buffer_destroy_spec [OF wf d] by auto
next
  case (OpTrimStart n b)
  then obtain y where d: "bufs h b = Some y" "n \<le> length' y" using rd by (auto simp: live_def buffer_size_def)
  show ?thesis using OpTrimStart TrimStart_spec(1) [OF wf d(1), of n] TrimStart_spec(2) [OF wf d] d(2) by auto
next
  case (OpTrimEnd n b)
  then obtain y where d: "bufs h b = Some y" "n \<le> length' y" using rd by (auto simp: live_def buffer_size_def)
  show ?thesis using OpTrimEnd TrimEnd_spec(1) [OF wf d(1), of n] TrimEnd_spec(2) [OF wf d] d(2) by auto
next
  case (OpPrepend n b)
  then obtain y r where d: "bufs h b = Some y" "headroom b h = Inr r" "n \<le> r"
    using rd by (auto simp: live_def split: sum.splits)
  show ?thesis using OpPrepend Prepend_spec [OF wf d(1,2), of n] d(3) by auto
next
  case (OpAppend n b)
  then obtain y r where d: "bufs h b = Some y" "tailroom b h = Inr r" "n \<le> r"
    using rd by (auto simp: live_def split: sum.splits)
  show ?thesis using OpAppend Append_spec [OF wf d(1,2), of n] d(3) by auto
next
  case (OpEnsureTailroom n b)
  then obtain y where d: "bufs h b = Some y" and g: "can_grow h n b" using rd by (auto simp: live_def)
  show ?thesis
  proof (rule can_growD [OF g d])
    fix t head assume r: "tailroom b h = Inr t" "headroom b h = Inr head" "length' y + n < 2 ^ 64"
      "sole_view h b \<and> n \<le> t \<or> can_alloc h (grown (length' y + n)) \<and> head + length' y + n \<le> grown (length' y + n)"
    obtain h' z where h': "EnsureTailroom n b h = Inr h'" "wf_heap h'" "frame {b} h h'" "content h' b = content h b"
      "bufs h' = (bufs h)(b \<mapsto> z)" using EnsureTailroom_spec [OF wf d r] by blast
    have "frame {} h h'" by (rule frame_shrink [OF h'(3,4)]) (simp add: h'(5) d)
    then show ?thesis using OpEnsureTailroom h' by simp
  qed
next
  case (OpReserve n b)
  then obtain y where d: "bufs h b = Some y" "can_grow h (n - length' y) b" using rd by (auto simp: live_def buffer_size_def)
  show ?thesis using OpReserve Reserve_spec [OF wf d] by auto
next
  case (OpAppendData src b)
  then obtain y where d: "bufs h b = Some y" and g: "can_grow h (length src) b" using rd by (auto simp: live_def)
  have "\<exists>h'. AppendData src b h = Inr h' \<and> wf_heap h' \<and> frame {b} h h'"
    by (rule can_growD [OF g d]) (use AppendData_spec [OF wf d] in blast)
  then show ?thesis using OpAppendData by auto
next
  case (OpSlice off n b d)
  then obtain y where d: "bufs h b = Some y" "bufs h d = None" "off + n \<le> length' y" "can_retain h b"
    using rd by (auto simp: live_def buffer_size_def)
  show ?thesis using OpSlice Slice_spec [OF wf d] by auto
next
  case (OpClone b d)
  then obtain y where d: "bufs h b = Some y" "bufs h d = None" "can_alloc h (length' y)"
    using rd by (auto simp: live_def buffer_size_def)
  have "\<exists>h'. Clone b d h = Inr h' \<and> wf_heap h' \<and> frame {d} h h'"
    using Clone_spec [OF wf d(1,2)] d(3) unfolding can_alloc_def by blast
  then show ?thesis using OpClone by auto
next
  case (OpWriteAt off vs b)
  then obtain y where d: "bufs h b = Some y" "off + length vs \<le> length' y" "can_detach h b"
    using rd by (auto simp: live_def buffer_size_def)
  show ?thesis using OpWriteAt write_at_spec [OF wf d] by auto
next
  case (OpAppendChain this other)
  then obtain xs ys where d: "ring h (this # xs)" "ring h (other # ys)" "set (this # xs) \<inter> set (other # ys) = {}"
    using rd by auto
  show ?thesis using OpAppendChain AppendChain_links [OF wf_heapD(3) [OF wf] d] ring_step [OF wf] by auto
next
  case (OpPrependChain this other)
  then obtain xs ys where d: "ring h (this # xs)" "ring h (other # ys)" "set (this # xs) \<inter> set (other # ys) = {}"
    using rd by auto
  obtain y z where "bufs h this = Some y" "bufs h other = Some z"
    using ringD(5) [OF d(1), of this] ringD(5) [OF d(2), of other] by auto
  then have "PrependChain this other h = AppendChain this other h"
    by (rule PrependChain_eq_AppendChain [OF wf_heapD(3) [OF wf]])
  then show ?thesis using OpPrependChain AppendChain_links [OF wf_heapD(3) [OF wf] d] ring_step [OF wf] by auto
next
  case (OpUnlink b)
  then show ?thesis using Unlink_total [OF wf, of b] rd ring_step [OF wf] by auto
next
  case (OpSplitChainAfter b)
  then show ?thesis using SplitChainAfter_total [OF wf, of b] rd ring_step [OF wf] by auto
next
  case (OpCoalesceChain b d)
  then have d: "live h b" "bufs h d = None" "\<And>xs. ring h (b # xs) \<Longrightarrow> can_alloc h (length (chain_bytes h (b # xs)))"
    using rd by (auto simp: live_def)
  obtain xs where r: "ring h (b # xs)" using live_ring [OF wf d(1)] by blast
  show ?thesis using OpCoalesceChain CoalesceChain_spec [OF wf r d(2) d(3) [OF r]] by auto
next
  case (OpDestroyChain b)
  obtain xs where r: "ring h (b # xs)" using live_ring [OF wf, of b] OpDestroyChain rd by auto
  show ?thesis using OpDestroyChain DestroyChain_spec [OF wf r] by (auto simp: frame_def)
next
  case (OpCursorWrite src b)
  then have d: "live h b" "alloc_ok h" "length src < 2 ^ 64" using rd by auto
  obtain xs where r: "ring h (b # xs)" using live_ring [OF wf d(1)] by blast
  have s: "stands h (BufferRWCursor b) [] b xs" using r by (simp add: stands_def BufferRWCursor_def)
  obtain n c' h' where "write_loop src 0 (BufferRWCursor b) h = Some (Inr (0 + n, c', h'))" "wf_heap h'"
    using write_loop_spec [OF wf d(2) s, of 0 src] d(3) by auto
  then show ?thesis using OpCursorWrite by (auto simp: Write_def frame_def)
qed

interpretation buffer: safe_ops wf_heap run_op ready touches frame
  by unfold_locales (auto intro: run_op_safe frame_trans frame_mono)

end
