(* ===== verification/Buffer_Props.thy ===== *)
theory Buffer_Props
  imports Buffer_System
begin

text \<open>
  The properties of the buffer component (\<^verbatim>\<open>src/yacul/memory/buffer.h\<close>, \<^verbatim>\<open>buffer.cc\<close>), each with a
  concrete heap on which it applies: \<open>demo_heap\<close> holds the bytes 1, 2, 3 in node 0, a copy of node 0 in
  node 1 (shared storage) and the byte 9 in node 2, with the nodes 0 and 2 on one ring.
\<close>

section \<open>Concrete heaps\<close>

definition empty_heap :: heap where
  "empty_heap = \<lparr>mem = (\<lambda>_. None), phys = (\<lambda>_. None), bufs = (\<lambda>_. None), free_log = [], next_phys = 0,
     malloc_ok = (\<lambda>_. True), junk = (\<lambda>_ _. 0)\<rparr>"

definition demo_ops :: "buffer_op list" where
  "demo_ops = [OpCopyFrom 0 [1, 2, 3], OpCopy 1 0, OpCopyFrom 2 [9], OpAppendChain 0 2]"

definition demo_heap :: heap where
  "demo_heap = (case run_all run_op demo_ops empty_heap of Some (Inr h) \<Rightarrow> h | _ \<Rightarrow> empty_heap)"

lemmas run_simps = Buffer_CopyFrom_def Buffer_Create_def Buffer_default_def new_buffer_def
  PhysicalBuffer_Create_def sizeof_PhysicalBuffer_def Let_def sz_add_def upd_buf_def buffer_start_def
  is_external_def store_def splice_def Buffer_copy_def retain_if_def Retain_def MakeSelfRing_def

lemma empty_heap_wf: "wf_heap empty_heap"
  by (simp add: wf_heap_def wf_views_def wf_pend_def links_ok_def empty_heap_def)

lemma demo_heap_fields:
  "bufs demo_heap = [1 \<mapsto> \<lparr>physical' = Some 0, data' = Some (Own 0, 0), length' = Suc (Suc (Suc 0)), next' = 1, prev' = 1\<rparr>,
     2 \<mapsto> \<lparr>physical' = Some 1, data' = Some (Own 1, 0), length' = 1, next' = 0, prev' = 0\<rparr>,
     0 \<mapsto> \<lparr>physical' = Some 0, data' = Some (Own 0, 0), length' = Suc (Suc (Suc 0)), next' = 2, prev' = 2\<rparr>]"
  "phys demo_heap = [0 \<mapsto> \<lparr>ref_count' = Suc (Suc 0), capacity' = Suc (Suc (Suc 0)), flags' = 0, external_data' = None, free_fn' = None\<rparr>,
     1 \<mapsto> \<lparr>ref_count' = 1, capacity' = 1, flags' = 0, external_data' = None, free_fn' = None\<rparr>]"
  "mem demo_heap = [Own 0 \<mapsto> [1, 2, 3], Own 1 \<mapsto> [9]]"
  "malloc_ok demo_heap = (\<lambda>_. True)"
  by (simp_all add: run_simps demo_heap_def demo_ops_def empty_heap_def AppendChain_def upt_rec)

lemma demo_heap_ready: "ready_all run_op ready demo_ops empty_heap"
proof -
  have r: "ring h [b]" if "bufs h b = Some x" "next' x = b" for h b x using that by (auto simp: ring_def nx_def)
  show ?thesis
    unfolding demo_ops_def empty_heap_def
    by (simp add: run_simps AppendChain_def upt_rec live_def can_alloc_def can_retain_def)
      (rule exI [of _ "[]"], rule conjI, rule r, simp, simp, rule exI [of _ "[]"], rule conjI, rule r, simp, simp, simp)
qed

lemma demo_heap_run: "run_all run_op demo_ops empty_heap = Some (Inr demo_heap)"
  using buffer.run_all_ok [OF empty_heap_wf demo_heap_ready] by (auto simp: demo_heap_def)

lemma demo_heap_wf: "wf_heap demo_heap"
  using buffer.run_all_ok [OF empty_heap_wf demo_heap_ready] demo_heap_run by auto

lemma demo_heap_ring: "ring demo_heap [0, 2]" "ring demo_heap [1]"
  by (simp_all add: ring_def nx_def demo_heap_fields)

lemma demo_heap_content: "content demo_heap 0 = [1, 2, 3]" "content demo_heap (Suc 0) = [1, 2, 3]" "content demo_heap 2 = [9]"
  by (simp_all add: content_def Buffer_ToString_def load_def slice_def demo_heap_fields)

section \<open>Safety of programs of calls\<close>

text \<open>
  C15. A program of ready calls on a well-formed heap returns, does not fault (no \<open>CHECK\<close> fails, nothing
  dangling, freed or out of bounds is accessed), leaves a well-formed heap, and changes the bytes only
  of the nodes that its calls are about.
\<close>

theorem buffer_calls_safe:
  assumes "wf_heap h" and "ready_all run_op ready ops h"
  shows "\<exists>h'. run_all run_op ops h = Some (Inr h') \<and> wf_heap h' \<and> frame (\<Union> (touches ` set ops)) h h'"
  using assms by (rule buffer.run_all_ok)

theorem buffer_calls_safe_witness:
  "\<exists>h'. run_all run_op demo_ops empty_heap = Some (Inr h') \<and> wf_heap h' \<and> frame {0, 1, 2} empty_heap h'"
  using buffer_calls_safe [OF empty_heap_wf demo_heap_ready]
  by (auto simp: demo_ops_def elim!: frame_mono)

text \<open>
  C16. In every heap that ready calls lead to from an empty one, a \<open>PhysicalBuffer\<close> lives exactly while
  nodes show it, and its \<open>ref_count_\<close> is the number of these nodes.
\<close>

theorem ref_count_is_number_of_views:
  assumes "wf_heap h0" and "reached run_op ready h0 h" and "phys h p = Some ph"
  shows "ref_count' ph = card (views h p) \<and> views h p \<noteq> {} \<and>
    (\<forall>b \<in> views h p. \<exists>bs. Buffer_ToString b h = Inr bs \<and> length bs \<le> capacity' ph)"
proof -
  have wf: "wf_heap h" using buffer.reached_inv [OF assms(2,1)] .
  note wp = wf_heapD(1) [OF wf]
  have rc: "ref_count' ph = card (views h p)" "0 < ref_count' ph" using wf_pendD(2,3) [OF wp assms(3)] by auto
  then have "views h p \<noteq> {}" by auto
  moreover have "\<exists>bs. Buffer_ToString b h = Inr bs \<and> length bs \<le> capacity' ph" if "b \<in> views h p" for b
  proof -
    from that obtain x where x: "bufs h b = Some x" "physical' x = Some p" by (auto simp: views_def)
    show ?thesis by (rule view_bytes [OF wp x]) (use assms(3) in auto)
  qed
  ultimately show ?thesis using rc by blast
qed

theorem ref_count_is_number_of_views_witness: "card (views demo_heap 0) = 2"
proof -
  have "reached run_op ready demo_heap demo_heap" by (rule reached_refl)
  from ref_count_is_number_of_views [OF demo_heap_wf this, of 0] show ?thesis by (simp add: demo_heap_fields)
qed

section \<open>Storage\<close>

text \<open>
  C17. The destructor of a node returns its storage exactly when the node was the last view of it, and
  calls the \<open>free_fn\<close> of external memory exactly then; all other nodes keep their bytes.
\<close>

theorem Buffer_destroy_frees_last_view:
  assumes "wf_heap h" and "bufs h b = Some x" and "physical' x = Some p" and "phys h p = Some ph"
  shows "\<exists>h'. Buffer_destroy b h = Inr h' \<and> wf_heap h' \<and> frame {b} h h' \<and> bufs h' b = None \<and>
    (phys h' p = None \<longleftrightarrow> views h p = {b}) \<and>
    free_log h' = free_log h @ (if views h p = {b} then free_calls ph else [])"
proof -
  have rc: "ref_count' ph = card (views h p)" using wf_pendD(2) [OF wf_heapD(1) [OF assms(1)] assms(4)] by simp
  have "b \<in> views h p" using assms(2,3) by (auto simp: views_def)
  then have "views h p = {b} \<longleftrightarrow> ref_count' ph = 1" unfolding rc by (auto simp: card_1_singleton_iff)
  then have "free_calls_of h b = (if views h p = {b} then free_calls ph else [])"
    using assms(2-4) by (simp add: free_calls_of_def)
  moreover obtain h' where "Buffer_destroy b h = Inr h'" "wf_heap h'" "frame {b} h h'" "bufs h' b = None"
    "free_log h' = free_log h @ free_calls_of h b" "phys h' p = None \<longleftrightarrow> views h p = {b}"
    using Buffer_destroy_spec [OF assms(1,2)] assms(4) by blast
  ultimately show ?thesis by (intro exI [of _ h']) simp
qed

theorem Buffer_destroy_frees_last_view_witness:
  "\<exists>h'. Buffer_destroy 0 demo_heap = Inr h' \<and> phys h' 0 \<noteq> None \<and> content h' 1 = [1, 2, 3]"
proof -
  let ?x = "\<lparr>physical' = Some 0, data' = Some (Own 0, 0), length' = Suc (Suc (Suc 0)), next' = 2, prev' = 2\<rparr>"
  have "bufs demo_heap 0 = Some ?x" by (simp add: demo_heap_fields)
  moreover have "1 \<in> views demo_heap 0" by (simp add: views_def demo_heap_fields)
  ultimately show ?thesis
    using Buffer_destroy_frees_last_view [OF demo_heap_wf, of 0 ?x 0]
    by (auto simp: demo_heap_fields(2) frame_def demo_heap_content)
qed

text \<open>
  Copy on write: a write of \<open>vs\<close> at \<open>off\<close> through \<open>writable_data()\<close> changes exactly these bytes of the
  node, and no byte of any other node, also of those that shared its storage.
\<close>

theorem write_through_writable_data_is_isolated:
  assumes "wf_heap h" and "live h b" and "off + length vs \<le> length (content h b)" and "can_detach h b"
  shows "\<exists>h'. write_at off vs b h = Inr h' \<and> wf_heap h' \<and> content h' b = splice (content h b) off vs \<and>
    (\<forall>c. c \<noteq> b \<longrightarrow> content h' c = content h c)"
proof -
  obtain x where x: "bufs h b = Some x" using assms(2) by (auto simp: live_def)
  show ?thesis
    using write_at_spec [OF assms(1) x _ assms(4), of off vs] content_length [OF assms(1) x] assms(3)
    by (auto simp: frame_def)
qed

theorem write_through_writable_data_is_isolated_witness:
  "\<exists>h'. write_at 1 [7] 0 demo_heap = Inr h' \<and> content h' 0 = [1, 7, 3] \<and> content h' 1 = [1, 2, 3]"
  using write_through_writable_data_is_isolated [OF demo_heap_wf, of 0 1 "[7]"]
  by (auto simp: live_def can_detach_def can_alloc_def sizeof_PhysicalBuffer_def demo_heap_fields demo_heap_content splice_def)

text \<open>
  C22. \<open>AppendData\<close> appends its bytes to the node and leaves all other nodes alone, provided the node has
  private room or its headroom is carried over into storage that is large enough.
\<close>

theorem AppendData_appends:
  assumes "wf_heap h" and "live h b" and "can_grow h (length src) b"
  shows "\<exists>h'. AppendData src b h = Inr h' \<and> wf_heap h' \<and> frame {b} h h' \<and>
    content h' b = content h b @ src \<and> sole_view h' b"
proof -
  obtain x where x: "bufs h b = Some x" using assms(2) by (auto simp: live_def)
  show ?thesis by (rule can_growD [OF assms(3) x]) (use AppendData_spec [OF assms(1) x] in blast)
qed

lemma demo_views: "views demo_heap 0 = {0, 1}"
  by (auto simp: views_def demo_heap_fields split: if_splits)

lemma demo_rooms: "tailroom 0 demo_heap = Inr 0" "headroom 0 demo_heap = Inr 0"
  by (simp_all add: tailroom_def headroom_def demo_heap_fields buffer_start_def is_external_def ptr_diff_def sz_sub_def)

theorem AppendData_appends_witness:
  "\<exists>h'. AppendData [7] 0 demo_heap = Inr h' \<and> content h' 0 = [1, 2, 3, 7] \<and> content h' 1 = [1, 2, 3]"
proof -
  have "can_grow demo_heap (length [7 :: u8]) 0"
    by (simp add: can_grow_def demo_rooms buffer_size_def demo_heap_fields grown_eq can_alloc_def sizeof_PhysicalBuffer_def)
  then show ?thesis using AppendData_appends [OF demo_heap_wf, of 0 "[7]"]
    by (auto simp: live_def demo_heap_fields demo_heap_content frame_def)
qed

text \<open>
  Outside that condition \<open>AppendData\<close> writes past the end of the new block: \<open>EnsureTailroom\<close> sizes it
  from the length and the growth only, and then puts the bytes behind the old headroom.
\<close>

theorem AppendData_overflows_behind_headroom:
  assumes "wf_heap h" and "bufs h b = Some x" and "headroom b h = Inr head" and "tailroom b h = Inr t"
    and "0 < length' x" and "t < length src" and "3 * (length' x + length src) + 64 < 2 ^ 64"
    and "can_alloc h (grown (length' x + length src))" and "head < 2 ^ 64"
    and "head > (length' x + length src) div 2 + length src + 64"
  shows "AppendData src b h = Inl UndefinedBehaviour"
proof -
  have "EnsureTailroom (length src) b h = Inl UndefinedBehaviour"
    by (rule EnsureTailroom_overflow [OF assms(1,2,4,3)]) (use assms(5-10) in \<open>simp_all add: grown_eq\<close>)
  then show ?thesis by (simp add: AppendData_def)
qed

text \<open>A node of 200 bytes whose first 190 bytes were trimmed.\<close>

definition trimmed_ops :: "buffer_op list" where
  "trimmed_ops = [OpCreate 0 200, OpAppend 200 0, OpTrimStart 190 0]"

definition trimmed_heap :: heap where
  "trimmed_heap = (case run_all run_op trimmed_ops empty_heap of Some (Inr h) \<Rightarrow> h | _ \<Rightarrow> empty_heap)"

lemma trimmed_heap_fields:
  "bufs trimmed_heap = [0 \<mapsto> \<lparr>physical' = Some 0, data' = Some (Own 0, 190), length' = 10, next' = 0, prev' = 0\<rparr>]"
  "phys trimmed_heap = [0 \<mapsto> \<lparr>ref_count' = 1, capacity' = 200, flags' = 0, external_data' = None, free_fn' = None\<rparr>]"
  "malloc_ok trimmed_heap = (\<lambda>_. True)"
  by (simp_all add: trimmed_heap_def trimmed_ops_def empty_heap_def run_simps Append_def TrimStart_def tailroom_def
      headroom_def ptr_diff_def ptr_add_def sz_sub_def)

lemma trimmed_heap_wf: "wf_heap trimmed_heap"
proof -
  have r: "ready_all run_op ready trimmed_ops empty_heap"
    by (simp add: trimmed_ops_def empty_heap_def run_simps Append_def TrimStart_def tailroom_def
      headroom_def ptr_diff_def ptr_add_def sz_sub_def live_def can_alloc_def buffer_size_def)
  from buffer.run_all_ok [OF empty_heap_wf r] show ?thesis by (auto simp: trimmed_heap_def)
qed

theorem AppendData_overflows_behind_headroom_witness:
  "AppendData [7] 0 trimmed_heap = Inl UndefinedBehaviour"
proof (rule AppendData_overflows_behind_headroom [OF trimmed_heap_wf, of 0])
  show "headroom 0 trimmed_heap = Inr 190" "tailroom 0 trimmed_heap = Inr 0"
    by (simp_all add: trimmed_heap_fields headroom_def tailroom_def buffer_start_def is_external_def ptr_diff_def sz_sub_def)
  show "bufs trimmed_heap 0 = Some \<lparr>physical' = Some 0, data' = Some (Own 0, 190), length' = 10, next' = 0, prev' = 0\<rparr>"
    by (simp add: trimmed_heap_fields)
qed (simp_all add: can_alloc_def trimmed_heap_fields grown_eq sizeof_PhysicalBuffer_def)

text \<open>
  \<open>Slice(offset, len)\<close> inside the view shares the storage and shows exactly these bytes; \<open>Clone\<close> shows
  the same bytes from storage of its own.
\<close>

theorem Slice_and_Clone_show_the_bytes:
  assumes "wf_heap h" and "live h b" and "\<not> live h d" and "offset + n \<le> length (content h b)" and "can_retain h b"
    and "can_alloc h (length (content h b))"
  shows "(\<exists>h'. Slice offset n b d h = Inr h' \<and> wf_heap h' \<and> frame {d} h h' \<and>
        content h' d = take n (drop offset (content h b)) \<and>
        map_option physical' (bufs h' d) = map_option physical' (bufs h b)) \<and>
    (\<exists>h'. Clone b d h = Inr h' \<and> wf_heap h' \<and> frame {d} h h' \<and> content h' d = content h b \<and> sole_view h' d)"
proof -
  obtain x where x: "bufs h b = Some x" using assms(2) by (auto simp: live_def)
  have l: "length (content h b) = length' x" by (rule content_length [OF assms(1) x])
  have d: "bufs h d = None" using assms(3) by (simp add: live_def)
  have "\<exists>h'. Slice offset n b d h = Inr h' \<and> wf_heap h' \<and> frame {d} h h' \<and>
        content h' d = take n (drop offset (content h b)) \<and>
        map_option physical' (bufs h' d) = map_option physical' (bufs h b)"
    using Slice_spec [OF assms(1) x d, of offset n] assms(4,5) l x by (auto simp: slice_def)
  moreover have "\<exists>h'. Clone b d h = Inr h' \<and> wf_heap h' \<and> frame {d} h h' \<and> content h' d = content h b \<and> sole_view h' d"
    using Clone_spec [OF assms(1) x d] assms(6) unfolding l can_alloc_def sole_view_def by blast
  ultimately show ?thesis by blast
qed

theorem Slice_and_Clone_show_the_bytes_witness:
  "\<exists>h'. Slice 1 2 0 5 demo_heap = Inr h' \<and> content h' 5 = [2, 3]"
  using Slice_and_Clone_show_the_bytes [OF demo_heap_wf, of 0 5 1 2]
  by (auto simp: live_def can_retain_def can_alloc_def demo_heap_fields demo_heap_content sizeof_PhysicalBuffer_def)

text \<open>
  \<open>Slice(offset)\<close> with an offset behind the end is not rejected: \<open>length_ - offset\<close> wraps, the sum in
  the \<open>CHECK\<close> wraps back to \<open>length_\<close>, and the result claims almost \<open>2^64\<close> bytes outside the storage.
\<close>

theorem Slice_from_behind_end_is_accepted:
  assumes "wf_heap h" and "bufs h b = Some x" and "physical' x = Some p" and "phys h p = Some ph"
    and "bufs h d = None" and "length' x < offset" and "offset < 2 ^ 64" and "capacity' ph < 2 ^ 63" and "offset - length' x < 2 ^ 63"
  shows "\<exists>h' y. Slice_from offset b d h = Inr h' \<and> bufs h' d = Some y \<and>
    length' y = 2 ^ 64 - (offset - length' x) \<and> \<not> wf_heap h'"
proof -
  let ?n = "sz_sub (length' x) offset"
  have lx: "length' x < 2 ^ 64" by (rule length_bound [OF assms(1,2)])
  have n: "?n = 2 ^ 64 - (offset - length' x)" by (rule sz_sub_wrap [OF assms(6,7)])
  have chk: "sz_add offset ?n = length' x" by (rule sz_add_sub_cancel [OF lx assms(7)])
  let ?y = "\<lparr>physical' = Some p, data' = ptr_add (data' x) offset, length' = ?n, next' = d, prev' = d\<rparr>"
  let ?h = "h\<lparr>bufs := (bufs h)(d \<mapsto> ?y), phys := (phys h)(p \<mapsto> ph\<lparr>ref_count' := (ref_count' ph + 1) mod 2 ^ 32\<rparr>)\<rparr>"
  have run: "Slice_from offset b d h = Inr ?h"
    using assms(2-5) chk Buffer_default_spec(1) [OF assms(1,5)]
    by (simp add: Slice_from_def Slice_def upd_buf_def retain_if_def Retain_def)
  have "\<not> view_in ?h ?y p"
  proof
    assume "view_in ?h ?y p"
    then have "?n \<le> capacity' ph" by (auto simp: view_in_def)
    then show False using n assms(8,9) by simp
  qed
  then have "\<not> wf_heap ?h" using wf_pendD(7) [of "\<lambda>_. 0" ?h d ?y p] wf_heapD(1) by auto
  then show ?thesis using run n by (intro exI [of _ ?h] exI [of _ ?y]) simp
qed

theorem Slice_from_behind_end_is_accepted_witness:
  "\<exists>h' y. Slice_from 4 0 5 demo_heap = Inr h' \<and> bufs h' 5 = Some y \<and> length' y = 2 ^ 64 - 1 \<and> \<not> wf_heap h'"
proof -
  let ?x = "\<lparr>physical' = Some 0, data' = Some (Own 0, 0), length' = Suc (Suc (Suc 0)), next' = 2, prev' = 2\<rparr>"
  have "bufs demo_heap 0 = Some ?x" by (simp add: demo_heap_fields)
  from Slice_from_behind_end_is_accepted [OF demo_heap_wf this, of 0 _ 5 4] show ?thesis
    by (simp add: demo_heap_fields)
qed

end
