(* ===== verification/Buffer_Chain_Props.thy ===== *)
theory Buffer_Chain_Props
  imports Buffer_Props
begin

text \<open>
  The properties of chains and cursors (\<^verbatim>\<open>src/yacul/memory/buffer.h\<close>, \<^verbatim>\<open>buffer.cc\<close>), over the lists of nodes
  that the rings of a heap are.
\<close>

section \<open>Rings\<close>

text \<open>
  C23. \<open>AppendChain\<close> and \<open>PrependChain\<close> of a ring that is not the own one give the same ring: the nodes of
  the own ring from the node on, then those of the other ring. No bytes and no other ring change.
\<close>

theorem AppendChain_and_PrependChain_splice:
  assumes "wf_heap h" and "ring h (this # xs)" and "ring h (other # ys)" and "set (this # xs) \<inter> set (other # ys) = {}"
  shows "\<exists>h'. AppendChain this other h = Inr h' \<and> PrependChain this other h = Inr h' \<and> wf_heap h' \<and>
    ring h' ((this # xs) @ other # ys) \<and> (\<forall>b. content h' b = content h b) \<and>
    (\<forall>zs. ring h zs \<longrightarrow> set zs \<inter> set (this # xs @ other # ys) = {} \<longrightarrow> ring h' zs)"
proof -
  note ok = wf_heapD(3) [OF assms(1)]
  obtain h' where h': "AppendChain this other h = Inr h'" "ring_only h h'" "links_ok h'" "ring h' ((this # xs) @ other # ys)"
    "\<forall>zs. ring h zs \<longrightarrow> set zs \<inter> set (this # xs @ other # ys) = {} \<longrightarrow> ring h' zs"
    using AppendChain_links [OF ok assms(2-4)] by blast
  obtain x y where "bufs h this = Some x" "bufs h other = Some y"
    using ringD(5) [OF assms(2), of this] ringD(5) [OF assms(3), of other] by auto
  then have "PrependChain this other h = Inr h'" using PrependChain_eq_AppendChain [OF ok] h'(1) by simp
  then show ?thesis using h' ring_step [OF assms(1) h'(2,3)] ring_only_content [OF h'(2)] by blast
qed

theorem AppendChain_and_PrependChain_splice_witness:
  "\<exists>h'. AppendChain 0 1 demo_heap = Inr h' \<and> PrependChain 0 1 demo_heap = Inr h' \<and> ring h' [0, 2, 1]"
  using AppendChain_and_PrependChain_splice [OF demo_heap_wf demo_heap_ring] by auto

text \<open>
  \<open>SplitChainAfter\<close> on a ring of at least three nodes makes two rings: the node with its predecessor,
  and all others. (The documentation promises to cut the ring between the node and its successor and
  at the head the caller holds.)
\<close>

theorem SplitChainAfter_cuts_behind_predecessor:
  assumes "wf_heap h" and "ring h (lh # this # zs)" and "zs \<noteq> []"
  shows "\<exists>h'. SplitChainAfter this h = Inr (Some (hd zs), h') \<and> wf_heap h' \<and> ring h' [lh, this] \<and> ring h' zs \<and>
    (\<forall>b. content h' b = content h b)"
proof -
  obtain h' where h': "SplitChainAfter this h = Inr (Some (hd zs), h')" "ring_only h h'" "links_ok h'" "ring h' [lh, this]" "ring h' zs"
    using SplitChainAfter_links [OF wf_heapD(3) [OF assms(1)] assms(2,3)] by blast
  then show ?thesis using ring_step [OF assms(1) h'(2,3)] ring_only_content [OF h'(2)] by blast
qed

text \<open>A ring of four nodes.\<close>

definition four_ops :: "buffer_op list" where
  "four_ops = [OpDefault 0, OpDefault 1, OpDefault 2, OpDefault 3, OpAppendChain 0 1, OpAppendChain 0 2, OpAppendChain 0 3]"

definition four_heap :: heap where
  "four_heap = (case run_all run_op four_ops empty_heap of Some (Inr h) \<Rightarrow> h | _ \<Rightarrow> empty_heap)"

lemma four_heap_links:
  "bufs four_heap = [1 \<mapsto> \<lparr>physical' = None, data' = None, length' = 0, next' = 2, prev' = 0\<rparr>,
     2 \<mapsto> \<lparr>physical' = None, data' = None, length' = 0, next' = 3, prev' = 1\<rparr>,
     3 \<mapsto> \<lparr>physical' = None, data' = None, length' = 0, next' = 0, prev' = 2\<rparr>,
     0 \<mapsto> \<lparr>physical' = None, data' = None, length' = 0, next' = 1, prev' = 3\<rparr>]"
  "phys four_heap = (\<lambda>_. None)"
  by (simp_all add: four_heap_def four_ops_def empty_heap_def run_simps AppendChain_def fun_upd_twist)

lemma four_heap_wf: "wf_heap four_heap"
proof -
  have "wf_pend (\<lambda>_. 0) four_heap" by (auto simp: wf_pend_def four_heap_links split: if_splits)
  moreover have "bare_ok four_heap c" for c by (auto simp: bare_ok_def four_heap_links split: if_splits)
  moreover have "links_ok four_heap" by (auto simp: links_ok_def linked_def four_heap_links split: if_splits)
  ultimately show ?thesis by (rule wf_heapI)
qed

lemma four_heap_ring: "ring four_heap [0, 1, 2, 3]" "ring four_heap [1, 2, 3, 0]"
  by (simp_all add: ring_def nx_def four_heap_links)

theorem SplitChainAfter_cuts_behind_predecessor_witness:
  "\<exists>h'. SplitChainAfter 2 four_heap = Inr (Some 3, h') \<and> ring h' [1, 2] \<and> ring h' [3, 0]"
  using SplitChainAfter_cuts_behind_predecessor [OF four_heap_wf four_heap_ring(2)] by auto

text \<open>
  So on a ring whose head \<open>a\<close> is not the predecessor of the node, the caller's part is not the ring
  \<open>a, ..., this\<close> that the documentation describes: \<open>a\<close> ends up in the other ring, the one that is returned.
\<close>

theorem SplitChainAfter_loses_the_head:
  assumes "wf_heap h" and "ring h ((a # ls @ [lh, this]) @ zs)" and "zs \<noteq> []"
  shows "\<exists>h'. SplitChainAfter this h = Inr (Some (hd zs), h') \<and> ring h' (zs @ a # ls) \<and> \<not> ring h' (a # ls @ [lh, this])"
proof -
  have "ring h ((a # ls) @ [lh, this] @ zs)" using assms(2) by simp
  then have r: "ring h (lh # this # (zs @ a # ls))" using ring_rotate [of h "a # ls" "[lh, this] @ zs"] by simp
  obtain h' where h': "SplitChainAfter this h = Inr (Some (hd (zs @ a # ls)), h')" "ring h' [lh, this]" "ring h' (zs @ a # ls)"
    using SplitChainAfter_links [OF wf_heapD(3) [OF assms(1)] r] by blast
  have "\<not> ring h' (a # ls @ [lh, this])"
  proof
    assume "ring h' (a # ls @ [lh, this])"
    then have "nx h' this = Some a" using ringD(4) by fastforce
    moreover have "nx h' this = Some lh" using ringD(4) [OF h'(2)] by simp
    moreover have "a \<noteq> lh" using ringD(2) [OF r] by auto
    ultimately show False by simp
  qed
  then show ?thesis using h' assms(3) by auto
qed

theorem SplitChainAfter_loses_the_head_witness:
  "\<exists>h'. SplitChainAfter 2 four_heap = Inr (Some 3, h') \<and> ring h' [3, 0] \<and> \<not> ring h' [0, 1, 2]"
  using SplitChainAfter_loses_the_head [OF four_heap_wf, of 0 "[]" 1 2 "[3]"] four_heap_ring(1) by simp

text \<open>
  C24. \<open>CoalesceChain\<close> and \<open>ToVector\<close> return with all bytes of the ring in order; \<open>CountChainElements\<close> and
  \<open>ComputeChainDataLength\<close> return the number of its nodes and of its bytes.
\<close>

theorem chain_walks_gather_the_ring:
  assumes "wf_heap h" and "ring h (b # xs)" and "\<not> live h d" and "can_alloc h (length (chain_bytes h (b # xs)))"
    and "length (b # xs) < 2 ^ 64"
  shows "\<exists>h'. CoalesceChain b d h = Some (Inr h') \<and> wf_heap h' \<and> frame {d} h h' \<and>
    content h' d = concat (map (content h) (b # xs)) \<and> ToVector b h = Some (Inr (content h' d)) \<and>
    ComputeChainDataLength b h = Some (Inr (length (content h' d))) \<and>
    CountChainElements b h = Some (Inr (length (b # xs)))"
proof -
  have d: "bufs h d = None" using assms(3) by (simp add: live_def)
  have small: "length (chain_bytes h (b # xs)) < 2 ^ 64" using assms(4) by (simp add: can_alloc_def)
  have c: "CountChainElements b h = Some (Inr (length (b # xs)))" using CountChainElements_spec [OF assms(2,5)] by simp
  obtain h' where "CoalesceChain b d h = Some (Inr h')" "wf_heap h'" "frame {d} h h'" "content h' d = chain_bytes h (b # xs)"
    using CoalesceChain_spec [OF assms(1,2) d assms(4)] by blast
  then show ?thesis
    using ToVector_spec [OF assms(1,2)] ComputeChainDataLength_spec [OF assms(1,2) small] c
    by (intro exI [of _ h']) (simp add: chain_bytes_def)
qed

theorem chain_walks_gather_the_ring_witness:
  "ToVector 0 demo_heap = Some (Inr [1, 2, 3, 9]) \<and> CountChainElements 0 demo_heap = Some (Inr (length [0 :: bid, 2]))"
  using chain_walks_gather_the_ring [OF demo_heap_wf demo_heap_ring(1), of 5]
  by (auto simp: live_def can_alloc_def demo_heap_fields demo_heap_content sizeof_PhysicalBuffer_def)

text \<open>
  C25. \<open>DestroyChain\<close> returns after destroying exactly the nodes of the ring; every node outside keeps its
  bytes, and the heap is well formed again.
\<close>

theorem DestroyChain_destroys_the_ring:
  assumes "wf_heap h" and "ring h (b # xs)"
  shows "\<exists>h'. DestroyChain (Some b) h = Some (Inr h') \<and> wf_heap h' \<and> (\<forall>c \<in> set (b # xs). \<not> live h' c) \<and>
    (\<forall>c. c \<notin> set (b # xs) \<longrightarrow> (live h' c \<longleftrightarrow> live h c) \<and> content h' c = content h c)"
proof -
  obtain h' where "DestroyChain (Some b) h = Some (Inr h')" "wf_heap h'" "frame (set (b # xs)) h h'"
    "\<forall>c \<in> set (b # xs). bufs h' c = None" using DestroyChain_spec [OF assms] by blast
  then show ?thesis by (intro exI [of _ h']) (simp add: live_def frame_def)
qed

theorem DestroyChain_destroys_the_ring_witness:
  "\<exists>h'. DestroyChain (Some 0) demo_heap = Some (Inr h') \<and> \<not> live h' 2 \<and> content h' 1 = [1, 2, 3]"
  using DestroyChain_destroys_the_ring [OF demo_heap_wf demo_heap_ring(1)] by (auto simp: demo_heap_content)

section \<open>Cursors\<close>

text \<open>
  C26. A cursor reads the bytes of the chain as one stream: after a first \<open>Read\<close> of \<open>n\<close> bytes (or a \<open>Skip\<close> of
  \<open>n\<close>), a \<open>Read\<close> of \<open>m\<close> bytes gives the next \<open>m\<close> of them, \<open>Peek\<close> gives the same without moving, and
  \<open>TotalLength\<close> is the number of bytes left. All loops return.
\<close>

theorem BufferCursor_reads_the_stream:
  assumes "wf_heap h" and "ring h (b # xs)" and "length (chain_bytes h (b # xs)) < 2 ^ 64"
  shows "\<exists>c1 c2. Read n (BufferCursor b) h = Some (Inr (take n (chain_bytes h (b # xs)), c1)) \<and>
    Skip n (BufferCursor b) h = Some (Inr c1) \<and>
    Peek m c1 h = Some (Inr (take m (drop n (chain_bytes h (b # xs))))) \<and>
    Read m c1 h = Some (Inr (take m (drop n (chain_bytes h (b # xs))), c2)) \<and>
    TotalLength c1 h = Some (Inr (length (chain_bytes h (b # xs)) - n))"
proof -
  let ?B = "chain_bytes h (b # xs)"
  have s: "stands h (BufferCursor b) [] b xs" and r: "rest h (BufferCursor b) b xs = ?B"
    using BufferCursor_stands [OF assms(2)] by simp_all
  obtain c1 p1 b1 q1 where c1: "read_loop n [] (BufferCursor b) h = Some (Inr ([] @ take n ?B, c1))"
    "Skip n (BufferCursor b) h = Some (Inr c1)" "stands h c1 p1 b1 q1" "rest h c1 b1 q1 = drop n ?B"
    using read_loop_spec [OF assms(1) s, of n "[]"] r by metis
  obtain c2 where c2: "read_loop m [] c1 h = Some (Inr ([] @ take m (drop n ?B), c2))"
    using read_loop_spec [OF assms(1) c1(3), of m "[]"] c1(4) by metis
  have "Peek m c1 h = Some (Inr (take m (drop n ?B)))" using Peek_spec [OF assms(1) c1(3), of m] c1(4) by simp
  moreover have "TotalLength c1 h = Some (Inr (length ?B - n))"
    using TotalLength_spec [OF assms(1) c1(3)] c1(4) assms(3) by simp
  ultimately show ?thesis using c1 c2 by (intro exI [of _ c1] exI [of _ c2]) (simp add: Read_def)
qed

theorem BufferCursor_reads_the_stream_witness:
  "\<exists>c1. Read 2 (BufferCursor 0) demo_heap = Some (Inr ([1, 2], c1)) \<and> Peek 5 c1 demo_heap = Some (Inr [3, 9])"
  using BufferCursor_reads_the_stream [OF demo_heap_wf demo_heap_ring(1), of 2 5] by (auto simp: demo_heap_content)

text \<open>
  C27. A write of \<open>src\<close> at the front of a chain overwrites its first bytes, as many as there are in the chain,
  across the nodes, and returns their number; no node outside the chain changes, whatever it shares.
\<close>

theorem BufferRWCursor_writes_the_stream:
  assumes "wf_heap h" and "alloc_ok h" and "ring h (b # xs)" and "length src < 2 ^ 64"
  shows "\<exists>n c' h'. n = min (length src) (length (chain_bytes h (b # xs))) \<and>
    Write src (BufferRWCursor b) h = Some (Inr (n, c', h')) \<and> wf_heap h' \<and> ring h' (b # xs) \<and>
    chain_bytes h' (b # xs) = take n src @ drop n (chain_bytes h (b # xs)) \<and>
    (\<forall>c. c \<notin> set (b # xs) \<longrightarrow> content h' c = content h c)"
proof -
  have s: "stands h (BufferRWCursor b) [] b xs" using assms(3) by (simp add: stands_def BufferRWCursor_def)
  have r: "rest h (BufferRWCursor b) b xs = chain_bytes h (b # xs)" by (simp add: rest_def BufferRWCursor_def)
  have small: "0 + length src < 2 ^ 64" using assms(4) by simp
  obtain n c' h' where w: "n = min (length src) (length (chain_bytes h (b # xs)))"
    "write_loop src 0 (BufferRWCursor b) h = Some (Inr (0 + n, c', h'))" "wf_heap h'" "frame (set (b # xs)) h h'" "nx h' = nx h"
    "chain_bytes h' (b # xs) = splice (chain_bytes h (b # xs)) (offset' (BufferRWCursor b)) (take n src)"
    using write_loop_spec [OF assms(1,2) s small, unfolded r] by blast
  have "ring h' (b # xs)" by (rule ring_cong [OF assms(3)]) (simp add: w(5))
  moreover have "chain_bytes h' (b # xs) = take n src @ drop n (chain_bytes h (b # xs))"
    unfolding w(6) using w(1) by (simp add: splice_def BufferRWCursor_def)
  ultimately show ?thesis using w by (intro exI [of _ n] exI [of _ c'] exI [of _ h']) (simp add: Write_def frame_def)
qed

theorem BufferRWCursor_writes_the_stream_witness:
  "\<exists>c' h'. Write [5, 6, 7, 8] (BufferRWCursor 0) demo_heap = Some (Inr (4, c', h')) \<and>
    chain_bytes h' [0, 2] = [5, 6, 7, 8] \<and> content h' 1 = [1, 2, 3]"
proof -
  have "alloc_ok demo_heap" by (auto simp: alloc_ok_def can_alloc_def demo_heap_fields sizeof_PhysicalBuffer_def split: if_splits)
  from BufferRWCursor_writes_the_stream [OF demo_heap_wf this demo_heap_ring(1), of "[5, 6, 7, 8]"] show ?thesis
    by (auto simp: demo_heap_content simp del: chain_bytes_simps) (auto simp: demo_heap_content)
qed

end
