(* ===== verification/Arena.thy ===== *)
theory Arena
  imports Basic_Math Safe_Ops
begin

text \<open>
  The arena allocator: \<^verbatim>\<open>src/yacul/memory/arena.h\<close>, \<^verbatim>\<open>arena.cc\<close> and the STL adapter \<^verbatim>\<open>allocator.h\<close>. Addresses and
  sizes are \<open>size_t\<close> (natural numbers with the wrap-around written out). The singly linked list of
  blocks from \<open>current_\<close> on is a list, newest block first; the null pointer is the empty list. What
  \<open>malloc\<close> answers is an argument \<open>m\<close> of the operations that call it; \<open>freed\<close> logs the pointers that
  were passed to \<open>free\<close>.
\<close>

section \<open>Data\<close>

record block =
  malloc_ptr :: nat
  address :: nat
  capacity :: nat
  used :: nat

record arena =
  current :: "block list"
  initial_block_size :: nat
  block_growth_factor :: nat
  total_allocated :: nat
  total_wasted :: nat
  freed :: "nat list"

record arena_mark =
  mark_block :: nat
  mark_used :: nat
  valid :: bool

type_synonym malloc = "nat \<Rightarrow> nat option"

text \<open>Sizes of the LP64 layout.\<close>

definition sizeof_Block :: nat where "sizeof_Block = 24"

definition sizeof_AllocHeader :: nat where "sizeof_AllocHeader = 8"

definition alignof_max_align_t :: nat where "alignof_max_align_t = 16"

section \<open>Alignment\<close>

definition detail_AlignUp :: "nat \<Rightarrow> nat \<Rightarrow> nat result" where
  "detail_AlignUp v align = check (IsPowerOfTwo (word_of_nat align :: u64))
     (rbind (AlignUp False (word_of_nat v :: u64) (word_of_nat align)) (\<lambda>r. Inr (unat r)))"

definition CheckAlignment :: "nat \<Rightarrow> 'a result \<Rightarrow> 'a result" where
  "CheckAlignment align = check (align \<noteq> 0 \<and> IsPowerOfTwo (word_of_nat align :: u64) \<and> align \<le> 4096)"

section \<open>Blocks\<close>

definition block_data :: "block \<Rightarrow> nat result" where
  "block_data b = rbind (detail_AlignUp sizeof_Block alignof_max_align_t) (\<lambda>n. Inr (sz_add (address b) n))"

definition remaining :: "block \<Rightarrow> nat" where
  "remaining b = sz_sub (capacity b) (used b)"

definition TryAlloc :: "nat \<Rightarrow> nat \<Rightarrow> block \<Rightarrow> (nat option \<times> block) result" where
  "TryAlloc sz align b =
     rbind (block_data b) (\<lambda>d.
     let base = sz_add d (used b) in
     rbind (detail_AlignUp base align) (\<lambda>up.
     let padding = sz_sub up base;
         tot = sz_add padding sz
     in if tot > remaining b then Inr (None, b)
        else Inr (Some (sz_add base padding), b\<lparr>used := sz_add (used b) tot\<rparr>)))"

definition MakeBlock :: "malloc \<Rightarrow> nat \<Rightarrow> block result" where
  "MakeBlock m minimum_capacity =
     rbind (detail_AlignUp sizeof_Block alignof_max_align_t) (\<lambda>blk_header.
     rbind (detail_AlignUp sizeof_AllocHeader alignof_max_align_t) (\<lambda>overhead.
     let tot = sz_add (sz_add overhead blk_header) minimum_capacity in
     check (m tot \<noteq> None)
       (guard_ub (overhead + blk_header \<le> tot)
         (Inr \<lparr>malloc_ptr = the (m tot), address = sz_add (the (m tot)) overhead,
               capacity = sz_sub (sz_sub tot overhead) blk_header, used = 0\<rparr>))))"

definition FreeAllBlocks :: "block list \<Rightarrow> nat list" where
  "FreeAllBlocks bs = map malloc_ptr bs"

section \<open>Arena\<close>

definition Arena_new :: "malloc \<Rightarrow> nat \<Rightarrow> arena result" where
  "Arena_new m initial_size = check (initial_size > 0)
     (let ibs = max initial_size (sz_mul sizeof_Block 2) in
      rbind (MakeBlock m ibs) (\<lambda>b.
      Inr \<lparr>current = [b], initial_block_size = ibs, block_growth_factor = 2, total_allocated = 0,
           total_wasted = 0, freed = []\<rparr>))"

text \<open>Both moves give the moved-to arena and the moved-from one; the assignment is that of two objects (an
  assignment to itself does nothing).\<close>

definition Arena_move :: "arena \<Rightarrow> arena \<times> arena" where
  "Arena_move other = (other\<lparr>freed := []\<rparr>, other\<lparr>current := []\<rparr>)"

definition Arena_move_assign :: "arena \<Rightarrow> arena \<Rightarrow> arena \<times> arena" where
  "Arena_move_assign st other =
     (other\<lparr>freed := freed st @ FreeAllBlocks (current st)\<rparr>, other\<lparr>current := []\<rparr>)"

definition Arena_destroy :: "arena \<Rightarrow> nat list" where
  "Arena_destroy st = freed st @ FreeAllBlocks (current st)"

definition AllocBytes :: "malloc \<Rightarrow> nat \<Rightarrow> nat \<Rightarrow> arena \<Rightarrow> (nat option \<times> arena) result" where
  "AllocBytes m sz align st =
     (if sz = 0 then Inr (None, st)
      else CheckAlignment align
       (case current st of
          [] \<Rightarrow> Inl UndefinedBehaviour
        | b # bs \<Rightarrow> rbind (TryAlloc sz align b) (\<lambda>(ptr, b1).
            case ptr of
              Some p \<Rightarrow> Inr (Some p, st\<lparr>current := b1 # bs, total_allocated := sz_add (total_allocated st) sz\<rparr>)
            | None \<Rightarrow>
                rbind (detail_AlignUp sizeof_Block alignof_max_align_t) (\<lambda>header_size.
                rbind (detail_AlignUp (sz_add sz header_size) align) (\<lambda>up.
                let new_cap = max (sz_mul (capacity b1) (block_growth_factor st)) (sz_add up align) in
                rbind (MakeBlock m new_cap) (\<lambda>blk.
                rbind (TryAlloc sz align blk) (\<lambda>(ptr2, blk2).
                case ptr2 of
                  None \<Rightarrow> Inl CheckFailed
                | Some p \<Rightarrow> Inr (Some p, st\<lparr>current := blk2 # b1 # bs,
                              total_allocated := sz_add (total_allocated st) sz\<rparr>))))))))"

definition Arena_Alloc :: "nat \<Rightarrow> nat \<Rightarrow> malloc \<Rightarrow> arena \<Rightarrow> (nat option \<times> arena) result" where
  "Arena_Alloc sizeof_T alignof_T m st = AllocBytes m sizeof_T alignof_T st"

definition AllocArray :: "nat \<Rightarrow> nat \<Rightarrow> malloc \<Rightarrow> nat \<Rightarrow> arena \<Rightarrow> (nat option \<times> arena) result" where
  "AllocArray sizeof_T alignof_T m count st =
     (if count = 0 then Inr (None, st)
      else check (count \<le> size_max div sizeof_T) (AllocBytes m (sz_mul sizeof_T count) alignof_T st))"

definition Arena_Reset :: "malloc \<Rightarrow> arena \<Rightarrow> arena result" where
  "Arena_Reset m st = rbind (MakeBlock m (initial_block_size st)) (\<lambda>b.
     Inr (st\<lparr>current := [b], total_allocated := 0, total_wasted := 0, freed := freed st @ FreeAllBlocks (current st)\<rparr>))"

definition reserved_bytes :: "arena \<Rightarrow> nat" where
  "reserved_bytes st = fold (\<lambda>b tot. sz_add tot (capacity b)) (current st) 0"

definition block_count :: "arena \<Rightarrow> nat" where
  "block_count st = fold (\<lambda>_ n. sz_add n 1) (current st) 0"

definition set_growth_factor :: "nat \<Rightarrow> arena \<Rightarrow> arena" where
  "set_growth_factor factor st = st\<lparr>block_growth_factor := (if factor < 1 then 1 else factor)\<rparr>"

section \<open>Marks\<close>

definition Mark :: "arena \<Rightarrow> arena_mark result" where
  "Mark st = (case current st of [] \<Rightarrow> Inl UndefinedBehaviour
     | b # _ \<Rightarrow> Inr \<lparr>mark_block = address b, mark_used = used b, valid = True\<rparr>)"

text \<open>The loop frees newer blocks; when the marked block is not in the list any more it ends in the
  null pointer.\<close>

fun rewind_loop :: "nat \<Rightarrow> nat \<Rightarrow> block list \<Rightarrow> nat list \<Rightarrow> (block list \<times> nat list) result" where
  "rewind_loop blk u [] fr = Inl UndefinedBehaviour"
| "rewind_loop blk u (b # bs) fr =
     (if address b = blk then Inr (b\<lparr>used := u\<rparr> # bs, fr)
      else rewind_loop blk u bs (fr @ [malloc_ptr b]))"

definition RewindTo :: "nat \<Rightarrow> nat \<Rightarrow> arena \<Rightarrow> arena result" where
  "RewindTo blk u st = rbind (rewind_loop blk u (current st) (freed st)) (\<lambda>(bs, fr).
     Inr (st\<lparr>current := bs, freed := fr\<rparr>))"

definition Rewind :: "arena_mark \<Rightarrow> arena \<Rightarrow> (arena_mark \<times> arena) result" where
  "Rewind mk st = (if valid mk
     then rbind (RewindTo (mark_block mk) (mark_used mk) st) (\<lambda>st1. Inr (mk\<lparr>valid := False\<rparr>, st1))
     else Inr (mk, st))"

definition ArenaMark_destroy :: "arena_mark \<Rightarrow> arena \<Rightarrow> arena result" where
  "ArenaMark_destroy mk st = (if valid mk then rbind (Rewind mk st) (\<lambda>(_, st1). Inr st1) else Inr st)"

definition ArenaMark_move :: "arena_mark \<Rightarrow> arena_mark \<times> arena_mark" where
  "ArenaMark_move mk = (mk, mk\<lparr>valid := False\<rparr>)"

definition ArenaMark_move_assign :: "arena_mark \<Rightarrow> arena_mark \<Rightarrow> arena \<Rightarrow> (arena_mark \<times> arena_mark \<times> arena) result" where
  "ArenaMark_move_assign mk other st =
     rbind (if valid mk then rbind (Rewind mk st) (\<lambda>(_, st1). Inr st1) else Inr st) (\<lambda>st1.
     Inr (other, other\<lparr>valid := False\<rparr>, st1))"

section \<open>ArenaAllocator\<close>

definition allocate :: "nat \<Rightarrow> nat \<Rightarrow> malloc \<Rightarrow> nat \<Rightarrow> arena \<Rightarrow> (nat option \<times> arena) result" where
  "allocate sizeof_T alignof_T m n st = AllocBytes m (sz_mul sizeof_T n) alignof_T st"

definition deallocate :: "nat option \<Rightarrow> nat \<Rightarrow> arena \<Rightarrow> arena" where
  "deallocate p n st = st"

end
