(* ===== verification/Arena_Props.thy ===== *)
theory Arena_Props
  imports Arena
begin

text \<open>
  What the arena promises: the memory it hands out is aligned, lies inside its blocks and never overlaps
  memory handed out before; a mark takes it back to where it was. \<open>malloc_fits\<close> is what \<open>malloc\<close> promises.
\<close>

section \<open>Definitions\<close>

definition align_ok :: "nat \<Rightarrow> bool" where
  "align_ok a \<longleftrightarrow> a \<noteq> 0 \<and> IsPowerOfTwo (word_of_nat a :: u64) \<and> a \<le> 4096"

text \<open>The memory behind a block, and the part of its payload that is handed out.\<close>

definition region :: "block \<Rightarrow> nat set" where
  "region b = {malloc_ptr b ..< address b + 32 + capacity b}"

definition block_in_use :: "block \<Rightarrow> nat set" where
  "block_in_use b = {address b + 32 ..< address b + 32 + used b}"

definition in_use :: "arena \<Rightarrow> nat set" where
  "in_use st = \<Union> (block_in_use ` set (current st))"

definition wf_block :: "block \<Rightarrow> bool" where
  "wf_block b \<longleftrightarrow> 16 dvd address b \<and> address b = malloc_ptr b + 16 \<and>
     address b + 32 + capacity b + 4096 \<le> 2 ^ 64 \<and> used b \<le> capacity b"

fun apart :: "block list \<Rightarrow> bool" where
  "apart [] \<longleftrightarrow> True"
| "apart (b # bs) \<longleftrightarrow> (\<forall>c \<in> set bs. region b \<inter> region c = {}) \<and> apart bs"

definition wf_arena :: "arena \<Rightarrow> bool" where
  "wf_arena st \<longleftrightarrow> current st \<noteq> [] \<and> (\<forall>b \<in> set (current st). wf_block b) \<and> apart (current st)"

text \<open>A block of \<open>n\<close> bytes from \<open>malloc\<close> is aligned for every type, does not touch the last page of the
  address space and does not overlap the blocks that are still allocated.\<close>

definition malloc_fits :: "malloc \<Rightarrow> arena \<Rightarrow> bool" where
  "malloc_fits m st \<longleftrightarrow> (\<forall>n raw. m n = Some raw \<longrightarrow> 16 dvd raw \<and> raw + n + 4096 \<le> 2 ^ 64 \<and>
     (\<forall>b \<in> set (current st). {raw ..< raw + n} \<inter> region b = {}))"

text \<open>A request that the arena can serve: its sizes do not overflow, and \<open>malloc\<close> answers when a block
  has to be added.\<close>

definition can_serve :: "malloc \<Rightarrow> nat \<Rightarrow> nat \<Rightarrow> arena \<Rightarrow> bool" where
  "can_serve m sz align st \<longleftrightarrow> 0 < sz \<and> align_ok align \<and> malloc_fits m st \<and> sz + 3 * 4096 < 2 ^ 64 \<and>
     (\<forall>n \<le> 48 + max (capacity (hd (current st)) * block_growth_factor st) (sz + 32 + 2 * align). m n \<noteq> None) \<and>
     capacity (hd (current st)) * block_growth_factor st + 48 < 2 ^ 64"

section \<open>Alignment\<close>

lemma align_ok_power:
  assumes "align_ok a"
  obtains k where "k < 64" "a = 2 ^ k" "(word_of_nat a :: u64) = 2 ^ k"
proof -
  from assms obtain k where k: "k < 64" "(word_of_nat a :: u64) = 2 ^ k" by (auto simp: align_ok_def IsPowerOfTwo_iff)
  have "unat (word_of_nat a :: u64) = a" using assms by (simp add: align_ok_def unsigned_of_nat take_bit_nat_eq_self)
  then have "a = 2 ^ k" using k unat_power2 [of k, where 'a = 64] by simp
  with k that show thesis by blast
qed

lemma detail_AlignUp_spec:
  assumes "0 < a" "IsPowerOfTwo (word_of_nat a :: u64)" "v + a \<le> 2 ^ 64" "a < 2 ^ 64"
  shows "\<exists>r. detail_AlignUp v a = Inr r \<and> a dvd r \<and> v \<le> r \<and> r < v + a"
proof -
  have av: "v < 2 ^ 64" using assms(1,3) by auto
  let ?a = "word_of_nat a :: u64" and ?v = "word_of_nat v :: u64"
  have u: "unat ?a = a" "unat ?v = v" using assms(4) av by (simp_all add: unsigned_of_nat take_bit_nat_eq_self)
  have nz: "?a \<noteq> 0" using u(1) assms(1) by auto
  obtain r where r: "AlignUp False ?v ?a = Inr r" "unat r = (v + a - 1) div a * a"
    using AlignUp_round [OF nz, of ?v False] assms(3) u by auto
  have "detail_AlignUp v a = Inr ((v + a - 1) div a * a)" using assms(2) r by (simp add: detail_AlignUp_def)
  then show ?thesis using nat_round_up [OF assms(1), of v] by auto
qed

lemma headers: "detail_AlignUp sizeof_Block alignof_max_align_t = Inr 32"
  "detail_AlignUp sizeof_AllocHeader alignof_max_align_t = Inr 16"
proof -
  have p: "IsPowerOfTwo (word_of_nat 16 :: u64)" by (simp add: IsPowerOfTwo_def)
  obtain r where "detail_AlignUp 24 16 = Inr r" "16 dvd r" "24 \<le> r" "r < 40"
    using detail_AlignUp_spec [OF _ p, of 24] by auto
  moreover from this have "r = 32" by presburger
  ultimately show "detail_AlignUp sizeof_Block alignof_max_align_t = Inr 32"
    by (simp add: sizeof_Block_def alignof_max_align_t_def)
  obtain r where "detail_AlignUp 8 16 = Inr r" "16 dvd r" "8 \<le> r" "r < 24"
    using detail_AlignUp_spec [OF _ p, of 8] by auto
  moreover from this have "r = 16" by presburger
  ultimately show "detail_AlignUp sizeof_AllocHeader alignof_max_align_t = Inr 16"
    by (simp add: sizeof_AllocHeader_def alignof_max_align_t_def)
qed

section \<open>Blocks\<close>

lemma TryAlloc_spec:
  assumes b: "wf_block b" and a: "align_ok align" and sz: "sz + 4096 < 2 ^ 64"
  shows "\<exists>pad < align. align dvd address b + 32 + used b + pad \<and>
    TryAlloc sz align b = Inr (if pad + sz \<le> capacity b - used b
      then (Some (address b + 32 + used b + pad), b\<lparr>used := used b + pad + sz\<rparr>) else (None, b))"
proof -
  let ?base = "address b + 32 + used b"
  have bd: "address b + 32 + capacity b + 4096 \<le> 2 ^ 64" "used b \<le> capacity b" using b by (auto simp: wf_block_def)
  have al: "0 < align" "align \<le> 4096" "IsPowerOfTwo (word_of_nat align :: u64)" using a by (auto simp: align_ok_def)
  have data: "block_data b = Inr (address b + 32)"
    using bd by (simp add: block_data_def headers sz_add_eq)
  have base: "sz_add (address b + 32) (used b) = ?base" using bd by (intro sz_add_eq) simp
  obtain up where up: "detail_AlignUp ?base align = Inr up" "align dvd up" "?base \<le> up" "up < ?base + align"
    using detail_AlignUp_spec [OF al(1,3), of ?base] al(2) bd by auto
  let ?pad = "up - ?base"
  have pad: "sz_sub up ?base = ?pad" using up bd al(2) by (intro sz_sub_eq) auto
  have tot: "sz_add ?pad sz = ?pad + sz" using up(4) al(2) sz by (intro sz_add_eq) simp
  have rem: "remaining b = capacity b - used b" using bd by (simp add: remaining_def sz_sub_eq)
  have ptr: "sz_add ?base ?pad = ?base + ?pad" using up bd al(2) by (intro sz_add_eq) simp
  have nu: "sz_add (used b) (?pad + sz) = used b + ?pad + sz" if "?pad + sz \<le> capacity b - used b"
    using that bd by (subst sz_add_eq) auto
  have "TryAlloc sz align b = Inr (if ?pad + sz \<le> capacity b - used b
      then (Some (?base + ?pad), b\<lparr>used := used b + ?pad + sz\<rparr>) else (None, b))"
    using nu by (simp add: TryAlloc_def data base up(1) Let_def pad tot rem ptr)
  moreover have "?pad < align" "align dvd ?base + ?pad" using up by auto
  ultimately show ?thesis by blast
qed

lemma MakeBlock_spec:
  assumes m: "malloc_fits m st" "m (48 + cap) = Some raw"
  shows "MakeBlock m cap = Inr \<lparr>malloc_ptr = raw, address = raw + 16, capacity = cap, used = 0\<rparr> \<and>
    wf_block \<lparr>malloc_ptr = raw, address = raw + 16, capacity = cap, used = 0\<rparr> \<and>
    (\<forall>b \<in> set (current st). region \<lparr>malloc_ptr = raw, address = raw + 16, capacity = cap, used = 0\<rparr> \<inter> region b = {})"
proof -
  have f: "16 dvd raw" "raw + (48 + cap) + 4096 \<le> 2 ^ 64" "\<forall>b \<in> set (current st). {raw ..< raw + (48 + cap)} \<inter> region b = {}"
    using m unfolding malloc_fits_def by blast+
  have tot: "sz_add (sz_add 16 32) cap = 48 + cap" using f(2) by (simp add: sz_add_def)
  have "sz_sub (sz_sub (48 + cap) 16) 32 = cap" using f(2) by (simp add: sz_sub_eq)
  moreover have "sz_add raw 16 = raw + 16" using f(2) by (intro sz_add_eq) simp
  ultimately have run: "MakeBlock m cap = Inr \<lparr>malloc_ptr = raw, address = raw + 16, capacity = cap, used = 0\<rparr>"
    using m(2) by (simp add: MakeBlock_def headers tot Let_def)
  moreover have "16 dvd raw + 16" using f(1) by presburger
  then have "wf_block \<lparr>malloc_ptr = raw, address = raw + 16, capacity = cap, used = 0\<rparr>" using f(2) by (simp add: wf_block_def)
  moreover have "region \<lparr>malloc_ptr = raw, address = raw + 16, capacity = cap, used = 0\<rparr> = {raw ..< raw + (48 + cap)}"
    by (simp add: region_def add.commute add.left_commute)
  ultimately show ?thesis using f(3) by simp
qed

lemma block_in_use_region: "wf_block b \<Longrightarrow> block_in_use b \<subseteq> region b"
  by (auto simp: wf_block_def block_in_use_def region_def)

lemma region_used [simp]: "region (b\<lparr>used := u\<rparr>) = region b"
  by (simp add: region_def)

text \<open>The bytes of a served request are new ones of one block.\<close>

lemma TryAlloc_fresh:
  assumes b: "wf_block b" and a: "align_ok align" and sz: "sz + 4096 < 2 ^ 64" "0 < sz"
    and run: "TryAlloc sz align b = Inr (Some p, b')"
  shows "wf_block b'" "region b' = region b" "address b' = address b" "malloc_ptr b' = malloc_ptr b" "capacity b' = capacity b"
    "align dvd p" "{p ..< p + sz} \<subseteq> region b" "{p ..< p + sz} \<inter> block_in_use b = {}"
    "{p ..< p + sz} \<union> block_in_use b \<subseteq> block_in_use b'" "used b \<le> used b'" "b' = b\<lparr>used := used b'\<rparr>"
proof -
  obtain pad where p: "pad < align" "align dvd address b + 32 + used b + pad"
    "TryAlloc sz align b = Inr (if pad + sz \<le> capacity b - used b
      then (Some (address b + 32 + used b + pad), b\<lparr>used := used b + pad + sz\<rparr>) else (None, b))"
    using TryAlloc_spec [OF b a sz(1)] by blast
  then have e: "pad + sz \<le> capacity b - used b" "p = address b + 32 + used b + pad" "b' = b\<lparr>used := used b + pad + sz\<rparr>"
    using run by (auto split: if_splits)
  have u: "used b + pad + sz \<le> capacity b" using e(1) sz(2) by arith
  show "wf_block b'" using b u unfolding wf_block_def e(3) by (elim conjE) (intro conjI, simp_all)
  show "region b' = region b" "address b' = address b" "malloc_ptr b' = malloc_ptr b" "capacity b' = capacity b"
    "used b \<le> used b'" "b' = b\<lparr>used := used b'\<rparr>"
    by (simp_all add: e(3))
  show "align dvd p" using p(2) e(2) by simp
  show "{p ..< p + sz} \<subseteq> region b" using b u by (auto simp: e(2) region_def wf_block_def)
  show "{p ..< p + sz} \<inter> block_in_use b = {}" by (auto simp: e(2) block_in_use_def)
  show "{p ..< p + sz} \<union> block_in_use b \<subseteq> block_in_use b'" by (auto simp: e(2,3) block_in_use_def)
qed

section \<open>AllocBytes\<close>

lemma CheckAlignment_ok: "align_ok a \<Longrightarrow> CheckAlignment a r = r"
  by (simp add: align_ok_def CheckAlignment_def)

lemma wf_arena_Cons: "current st = b # bs \<Longrightarrow> wf_arena st \<longleftrightarrow>
    wf_block b \<and> (\<forall>c \<in> set bs. wf_block c \<and> region b \<inter> region c = {}) \<and> apart bs"
  by (auto simp: wf_arena_def)

lemma in_use_Cons: "current st = b # bs \<Longrightarrow> in_use st = block_in_use b \<union> \<Union> (block_in_use ` set bs)"
  by (simp add: in_use_def)

text \<open>What a served request does: the shape of the list of blocks and the bytes it hands out.\<close>

lemma AllocBytes_spec:
  assumes wf: "wf_arena st" and c: "current st = b # bs" and s: "can_serve m sz align st"
  shows "\<exists>p st' news u. AllocBytes m sz align st = Inr (Some p, st') \<and> wf_arena st' \<and> align dvd p \<and>
    {p ..< p + sz} \<inter> in_use st = {} \<and> {p ..< p + sz} \<union> in_use st \<subseteq> in_use st' \<and>
    current st' = news @ b\<lparr>used := u\<rparr> # bs \<and> freed st' = freed st \<and>
    total_allocated st' = sz_add (total_allocated st) sz \<and> initial_block_size st' = initial_block_size st"
proof -
  have sv: "0 < sz" "align_ok align" "malloc_fits m st" "sz + 3 * 4096 < 2 ^ 64"
    and mm: "\<And>n. n \<le> 48 + max (capacity b * block_growth_factor st) (sz + 32 + 2 * align) \<Longrightarrow> m n \<noteq> None"
    and cg: "capacity b * block_growth_factor st + 48 < 2 ^ 64"
    using s c by (auto simp: can_serve_def)
  have al: "0 < align" "align \<le> 4096" "IsPowerOfTwo (word_of_nat align :: u64)" using sv(2) by (auto simp: align_ok_def)
  have wb: "wf_block b" and wbs: "\<forall>d \<in> set bs. wf_block d \<and> region b \<inter> region d = {}" "apart bs"
    using wf c by (auto simp: wf_arena_Cons)
  have sz1: "sz + 4096 < 2 ^ 64" using sv(4) by simp
  have others: "\<Union> (block_in_use ` set bs) \<inter> region b = {}" using wbs(1) block_in_use_region by fastforce
  obtain r b1 where r: "TryAlloc sz align b = Inr (r, b1)"
  proof -
    obtain pad where "TryAlloc sz align b = Inr (if pad + sz \<le> capacity b - used b
      then (Some (address b + 32 + used b + pad), b\<lparr>used := used b + pad + sz\<rparr>) else (None, b))"
      using TryAlloc_spec [OF wb sv(2) sz1] by blast
    then show thesis using that by (cases "pad + sz \<le> capacity b - used b") auto
  qed
  show ?thesis
  proof (cases r)
    case (Some p)
    note f = TryAlloc_fresh [OF wb sv(2) sz1 sv(1) r [unfolded Some]]
    let ?st = "st\<lparr>current := b1 # bs, total_allocated := sz_add (total_allocated st) sz\<rparr>"
    have run: "AllocBytes m sz align st = Inr (Some p, ?st)"
      using c r Some sv(1) by (simp add: AllocBytes_def CheckAlignment_ok [OF sv(2)])
    have "wf_arena ?st" using f(1,2) wbs by (simp add: wf_arena_Cons)
    moreover have "in_use st = block_in_use b \<union> \<Union> (block_in_use ` set bs)" using c by (rule in_use_Cons)
    then have "{p ..< p + sz} \<inter> in_use st = {}" "{p ..< p + sz} \<union> in_use st \<subseteq> in_use ?st"
      using f(7-9) others by (auto simp: in_use_def)
    moreover have "current ?st = [] @ b\<lparr>used := used b1\<rparr> # bs" using f(11) by simp
    ultimately show ?thesis using run f(6) by (intro exI [of _ p] exI [of _ ?st] exI [of _ "[]"] exI [of _ "used b1"]) simp
  next
    case None
    then have b1: "b1 = b" using r TryAlloc_spec [OF wb sv(2) sz1] by (auto split: if_splits)
    have s32: "sz_add sz 32 = sz + 32" using sv(4) by (intro sz_add_eq) simp
    obtain up where up: "detail_AlignUp (sz + 32) align = Inr up" "sz + 32 \<le> up" "up < sz + 32 + align"
      using detail_AlignUp_spec [OF al(1,3), of "sz + 32"] al(2) sv(4) by auto
    have ua: "sz_add up align = up + align" using up(3) al(2) sv(4) by (intro sz_add_eq) simp
    have cf: "sz_mul (capacity b) (block_growth_factor st) = capacity b * block_growth_factor st"
      using cg by (intro sz_mul_eq) simp
    let ?cap = "max (capacity b * block_growth_factor st) (up + align)"
    have "m (48 + ?cap) \<noteq> None" by (rule mm) (use up(3) in auto)
    then obtain raw where raw: "m (48 + ?cap) = Some raw" by auto
    let ?n = "\<lparr>malloc_ptr = raw, address = raw + 16, capacity = ?cap, used = 0\<rparr>"
    have mk: "MakeBlock m ?cap = Inr ?n" "wf_block ?n" "\<forall>d \<in> set (b # bs). region ?n \<inter> region d = {}"
      using MakeBlock_spec [OF sv(3) raw] c by auto
    obtain pad where pad: "pad < align" "TryAlloc sz align ?n = Inr (if pad + sz \<le> capacity ?n - used ?n
      then (Some (address ?n + 32 + used ?n + pad), ?n\<lparr>used := used ?n + pad + sz\<rparr>) else (None, ?n))"
      using TryAlloc_spec [OF mk(2) sv(2) sz1] by blast
    have "pad + sz \<le> capacity ?n - used ?n" using pad(1) up(2) by simp
    then obtain p n2 where p: "TryAlloc sz align ?n = Inr (Some p, n2)" using pad(2) by auto
    note f = TryAlloc_fresh [OF mk(2) sv(2) sz1 sv(1) p]
    let ?st = "st\<lparr>current := n2 # b # bs, total_allocated := sz_add (total_allocated st) sz\<rparr>"
    have run: "AllocBytes m sz align st = Inr (Some p, ?st)"
      using c r None sv(1) b1 p by (simp add: AllocBytes_def CheckAlignment_ok [OF sv(2)] headers s32 up(1) ua cf mk(1) Let_def)
    have "wf_arena ?st" using f(1,2) mk(3) wb wbs by (simp add: wf_arena_Cons)
    moreover have iu: "in_use st \<subseteq> \<Union> (region ` set (b # bs))"
      using c wb wbs(1) block_in_use_region by (fastforce simp: in_use_def)
    then have "{p ..< p + sz} \<inter> in_use st = {}" using f(7) mk(3) by fastforce
    moreover have "{p ..< p + sz} \<union> in_use st \<subseteq> in_use ?st" using f(9) c by (auto simp: in_use_def)
    moreover have "b\<lparr>used := used b\<rparr> = b" by simp
    ultimately show ?thesis using run f(6) by (intro exI [of _ p] exI [of _ ?st] exI [of _ "[n2]"] exI [of _ "used b"]) simp
  qed
qed

section \<open>Sequences of requests\<close>

fun alloc_all :: "(malloc \<times> nat \<times> nat) list \<Rightarrow> arena \<Rightarrow> (nat option list \<times> arena) result" where
  "alloc_all [] st = Inr ([], st)"
| "alloc_all ((m, sz, align) # rs) st =
     rbind (AllocBytes m sz align st) (\<lambda>(p, st1). rbind (alloc_all rs st1) (\<lambda>(ps, st2). Inr (p # ps, st2)))"

fun can_serve_all :: "(malloc \<times> nat \<times> nat) list \<Rightarrow> arena \<Rightarrow> bool" where
  "can_serve_all [] st \<longleftrightarrow> True"
| "can_serve_all ((m, sz, align) # rs) st \<longleftrightarrow> can_serve m sz align st \<and>
     (case AllocBytes m sz align st of Inl _ \<Rightarrow> True | Inr (_, st1) \<Rightarrow> can_serve_all rs st1)"

text \<open>The bytes of the served requests.\<close>

definition ranges :: "(malloc \<times> nat \<times> nat) list \<Rightarrow> nat option list \<Rightarrow> nat set list" where
  "ranges rs ps = map (\<lambda>((m, sz, align), p). case p of None \<Rightarrow> {} | Some a \<Rightarrow> {a ..< a + sz}) (zip rs ps)"

fun pairwise_disjoint :: "nat set list \<Rightarrow> bool" where
  "pairwise_disjoint [] \<longleftrightarrow> True"
| "pairwise_disjoint (A # As) \<longleftrightarrow> (\<forall>B \<in> set As. A \<inter> B = {}) \<and> pairwise_disjoint As"

lemma alloc_all_spec:
  "wf_arena st \<Longrightarrow> current st = b # bs \<Longrightarrow> can_serve_all rs st \<Longrightarrow>
   \<exists>ps st' news u. alloc_all rs st = Inr (ps, st') \<and> wf_arena st' \<and> length ps = length rs \<and>
     (\<forall>i < length rs. \<exists>p. ps ! i = Some p \<and> snd (snd (rs ! i)) dvd p) \<and>
     pairwise_disjoint (ranges rs ps) \<and> (\<forall>A \<in> set (ranges rs ps). A \<inter> in_use st = {} \<and> A \<subseteq> in_use st') \<and>
     in_use st \<subseteq> in_use st' \<and> current st' = news @ b\<lparr>used := u\<rparr> # bs \<and> freed st' = freed st \<and>
     initial_block_size st' = initial_block_size st"
proof (induction rs arbitrary: st b bs)
  case Nil
  then show ?case by (intro exI [of _ "[]"] exI [of _ st] exI [of _ "[]"] exI [of _ "used b"]) (simp add: ranges_def)
next
  case (Cons r rs)
  obtain m sz align where r: "r = (m, sz, align)" by (cases r)
  obtain p st1 n1 u1 where a: "AllocBytes m sz align st = Inr (Some p, st1)" "wf_arena st1" "align dvd p"
    "{p ..< p + sz} \<inter> in_use st = {}" "{p ..< p + sz} \<union> in_use st \<subseteq> in_use st1" "current st1 = n1 @ b\<lparr>used := u1\<rparr> # bs"
    "freed st1 = freed st" "initial_block_size st1 = initial_block_size st"
    using AllocBytes_spec [OF Cons.prems(1,2), of m sz align] Cons.prems(3) r by auto
  have sv: "can_serve_all rs st1" using Cons.prems(3) a(1) r by simp
  obtain c1 cs1 where c1: "current st1 = c1 # cs1" using a(6) by (cases n1) auto
  obtain ps st2 n2 u2 where t: "alloc_all rs st1 = Inr (ps, st2)" "wf_arena st2" "length ps = length rs"
    "\<forall>i < length rs. \<exists>p. ps ! i = Some p \<and> snd (snd (rs ! i)) dvd p"
    "pairwise_disjoint (ranges rs ps)" "\<forall>A \<in> set (ranges rs ps). A \<inter> in_use st1 = {} \<and> A \<subseteq> in_use st2"
    "in_use st1 \<subseteq> in_use st2" "current st2 = n2 @ c1\<lparr>used := u2\<rparr> # cs1" "freed st2 = freed st1"
    "initial_block_size st2 = initial_block_size st1"
    using Cons.IH [OF a(2) c1 sv] by (elim exE conjE) (rule that, assumption+)
  have rg: "ranges (r # rs) (Some p # ps) = {p ..< p + sz} # ranges rs ps" by (simp add: ranges_def r)
  have shape: "\<exists>news u. current st2 = news @ b\<lparr>used := u\<rparr> # bs"
  proof (cases n1)
    case Nil
    then show ?thesis using a(6) c1 t(8) by auto
  next
    case (Cons d ds)
    then have "current st2 = (n2 @ c1\<lparr>used := u2\<rparr> # ds) @ b\<lparr>used := u1\<rparr> # bs" using a(6) c1 t(8) by auto
    then show ?thesis by blast
  qed
  have "\<exists>q. (Some p # ps) ! i = Some q \<and> snd (snd ((r # rs) ! i)) dvd q" if "i < length (r # rs)" for i
    using that t(4) a(3) r by (cases i) auto
  moreover have "\<forall>B \<in> set (ranges rs ps). {p ..< p + sz} \<inter> B = {}" using t(6) a(5) by blast
  then have "pairwise_disjoint (ranges (r # rs) (Some p # ps))" using t(5) by (simp add: rg)
  moreover have "\<forall>A \<in> set (ranges (r # rs) (Some p # ps)). A \<inter> in_use st = {} \<and> A \<subseteq> in_use st2"
  proof
    fix A assume "A \<in> set (ranges (r # rs) (Some p # ps))"
    then consider "A = {p ..< p + sz}" | "A \<in> set (ranges rs ps)" by (auto simp: rg)
    then show "A \<inter> in_use st = {} \<and> A \<subseteq> in_use st2"
    proof cases
      case 1
      then show ?thesis using a(4,5) t(7) by blast
    next
      case 2
      then have "A \<inter> in_use st1 = {} \<and> A \<subseteq> in_use st2" using t(6) by blast
      then show ?thesis using a(5) by blast
    qed
  qed
  moreover have "alloc_all (r # rs) st = Inr (Some p # ps, st2)" using a(1) t(1) r by simp
  moreover have "in_use st \<subseteq> in_use st2" using a(5) t(7) by blast
  ultimately show ?case using shape t(2,3,9,10) a(7,8) by (intro exI [of _ "Some p # ps"] exI [of _ st2]) auto
qed

section \<open>Marks\<close>

lemma rewind_loop_skip:
  "(\<And>n. n \<in> set news \<Longrightarrow> address n \<noteq> blk) \<Longrightarrow>
   rewind_loop blk u (news @ cs) fr = rewind_loop blk u cs (fr @ map malloc_ptr news)"
  by (induction news arbitrary: fr) auto

lemma apart_append: "apart (xs @ ys) \<longleftrightarrow> apart xs \<and> apart ys \<and> (\<forall>x \<in> set xs. \<forall>y \<in> set ys. region x \<inter> region y = {})"
  by (induction xs) auto

lemma apart_address:
  assumes "wf_block x" "wf_block y" "region x \<inter> region y = {}"
  shows "address x \<noteq> address y"
proof
  assume "address x = address y"
  then have "malloc_ptr x \<in> region x \<inter> region y" using assms(1,2) by (auto simp: wf_block_def region_def)
  with assms(3) show False by simp
qed

section \<open>Properties\<close>

text \<open>
  C36. A sequence of requests that can be served is served: every pointer is aligned as requested, and
  the bytes handed out are pairwise disjoint and disjoint from everything handed out before.
\<close>

theorem arena_allocations_are_disjoint:
  assumes "wf_arena st" and "can_serve_all rs st"
  shows "\<exists>ps st'. alloc_all rs st = Inr (ps, st') \<and> wf_arena st' \<and> length ps = length rs \<and>
    (\<forall>i < length rs. \<exists>p. ps ! i = Some p \<and> snd (snd (rs ! i)) dvd p) \<and>
    pairwise_disjoint (ranges rs ps) \<and> (\<forall>A \<in> set (ranges rs ps). A \<inter> in_use st = {} \<and> A \<subseteq> in_use st')"
proof -
  obtain b bs where "current st = b # bs" using assms(1) by (cases "current st") (auto simp: wf_arena_def)
  from alloc_all_spec [OF assms(1) this assms(2)] show ?thesis by (elim exE conjE) (intro exI conjI, assumption+)
qed

text \<open>An arena of one block of 64 bytes, and two requests of which the second needs a new block.\<close>

definition demo_arena :: arena where
  "demo_arena = \<lparr>current = [\<lparr>malloc_ptr = 4096, address = 4112, capacity = 64, used = 0\<rparr>], initial_block_size = 64,
     block_growth_factor = 2, total_allocated = 0, total_wasted = 0, freed = []\<rparr>"

definition demo_malloc :: malloc where
  "demo_malloc n = (if n \<le> 1000 then Some 65536 else None)"

definition demo_requests :: "(malloc \<times> nat \<times> nat) list" where
  "demo_requests = [(demo_malloc, 10, 8), (demo_malloc, 100, 64)]"

lemma demo_arena_wf: "wf_arena demo_arena"
  by (simp add: demo_arena_def wf_arena_def wf_block_def)

lemma demo_align_ok: "align_ok 8" "align_ok 64"
  by (simp_all add: align_ok_def IsPowerOfTwo_def)

lemma demo_first: "AllocBytes demo_malloc 10 8 demo_arena = Inr (Some 4144, demo_arena\<lparr>current :=
    [\<lparr>malloc_ptr = 4096, address = 4112, capacity = 64, used = 10\<rparr>], total_allocated := 10\<rparr>)"
proof -
  have "detail_AlignUp 4144 8 = Inr 4144" by (simp add: detail_AlignUp_def AlignUp_def IsPowerOfTwo_def)
  then show ?thesis
    by (simp add: AllocBytes_def CheckAlignment_ok demo_align_ok demo_arena_def TryAlloc_def block_data_def headers
        remaining_def Let_def sz_add_def sz_sub_def)
qed

lemma demo_can_serve: "can_serve_all demo_requests demo_arena"
proof -
  have "can_serve demo_malloc 10 8 demo_arena"
    by (auto simp: can_serve_def demo_align_ok malloc_fits_def demo_malloc_def demo_arena_def region_def split: if_splits)
  moreover have "can_serve demo_malloc 100 64 (demo_arena\<lparr>current :=
    [\<lparr>malloc_ptr = 4096, address = 4112, capacity = 64, used = 10\<rparr>], total_allocated := 10\<rparr>)"
    by (auto simp: can_serve_def demo_align_ok malloc_fits_def demo_malloc_def demo_arena_def region_def split: if_splits)
  ultimately show ?thesis by (simp add: demo_requests_def demo_first split: sum.splits)
qed

theorem arena_allocations_are_disjoint_witness:
  "\<exists>ps st'. alloc_all demo_requests demo_arena = Inr (ps, st') \<and> pairwise_disjoint (ranges demo_requests ps)"
  using arena_allocations_are_disjoint [OF demo_arena_wf demo_can_serve]
  by (elim exE conjE) (intro exI conjI, assumption+)

text \<open>
  Rewinding a mark takes the arena back: the list of blocks and the bytes in use are those at the time of
  the mark, and the newer blocks are freed. The counter \<open>total_allocated_\<close> is not taken back.
\<close>

theorem Rewind_restores_the_blocks:
  assumes "wf_arena st" and "can_serve_all rs st" and "Mark st = Inr mk"
  shows "\<exists>ps st1 st2 news. alloc_all rs st = Inr (ps, st1) \<and> Rewind mk st1 = Inr (mk\<lparr>valid := False\<rparr>, st2) \<and>
    current st2 = current st \<and> in_use st2 = in_use st \<and> freed st2 = freed st @ map malloc_ptr news \<and>
    current st1 = news @ drop (length news) (current st1) \<and> total_allocated st2 = total_allocated st1"
proof -
  obtain b bs where c: "current st = b # bs" using assms(1) by (cases "current st") (auto simp: wf_arena_def)
  then have mk: "mk = \<lparr>mark_block = address b, mark_used = used b, valid = True\<rparr>" using assms(3) by (simp add: Mark_def)
  obtain ps st1 news u where a: "alloc_all rs st = Inr (ps, st1)" "wf_arena st1" "current st1 = news @ b\<lparr>used := u\<rparr> # bs"
    "freed st1 = freed st" using alloc_all_spec [OF assms(1) c assms(2)] by (elim exE conjE) (rule that, assumption+)
  have "address n \<noteq> address b" if "n \<in> set news" for n
  proof -
    have w: "wf_block n" "wf_block (b\<lparr>used := u\<rparr>)" "region n \<inter> region (b\<lparr>used := u\<rparr>) = {}"
      using a(2,3) that by (auto simp: wf_arena_def apart_append)
    from apart_address [OF w] show ?thesis by simp
  qed
  then have loop: "rewind_loop (address b) (used b) (current st1) (freed st1) = Inr (b # bs, freed st @ map malloc_ptr news)"
    unfolding a(3,4) by (subst rewind_loop_skip) auto
  let ?st2 = "st1\<lparr>current := b # bs, freed := freed st @ map malloc_ptr news\<rparr>"
  have "Rewind mk st1 = Inr (mk\<lparr>valid := False\<rparr>, ?st2)" using loop by (simp add: Rewind_def RewindTo_def mk)
  then show ?thesis using a(1,3) c
    by (intro exI [of _ ps] exI [of _ st1] exI [of _ ?st2] exI [of _ news]) (simp add: in_use_def)
qed

theorem Rewind_restores_the_blocks_witness:
  "\<exists>ps st1 mk' st2. alloc_all demo_requests demo_arena = Inr (ps, st1) \<and>
     Rewind \<lparr>mark_block = 4112, mark_used = 0, valid = True\<rparr> st1 = Inr (mk', st2) \<and> current st2 = current demo_arena"
proof -
  have "Mark demo_arena = Inr \<lparr>mark_block = 4112, mark_used = 0, valid = True\<rparr>" by (simp add: Mark_def demo_arena_def)
  from Rewind_restores_the_blocks [OF demo_arena_wf demo_can_serve this] show ?thesis
    by (elim exE conjE) (intro exI conjI, assumption+)
qed

text \<open>
  \<open>AllocArray\<close> rejects a count whose size in bytes overflows; \<open>ArenaAllocator::allocate\<close> does not check it
  and asks the arena for the wrapped size, too small for \<open>n\<close> objects.
\<close>

theorem ArenaAllocator_allocate_wraps:
  assumes "0 < sizeof_T" and "2 ^ 64 \<le> sizeof_T * n" and "n < 2 ^ 64"
  shows "AllocArray sizeof_T alignof_T m n st = Inl CheckFailed \<and>
    allocate sizeof_T alignof_T m n st = AllocBytes m (sizeof_T * n mod 2 ^ 64) alignof_T st \<and>
    sizeof_T * n mod 2 ^ 64 < sizeof_T * n"
proof -
  have "n \<noteq> 0" using assms(2) by (intro notI) simp
  have "\<not> n \<le> size_max div sizeof_T"
  proof
    assume "n \<le> size_max div sizeof_T"
    then have "sizeof_T * n \<le> sizeof_T * (size_max div sizeof_T)" by simp
    also have "\<dots> \<le> size_max" by simp
    finally show False using assms(2) by (simp add: size_max_def)
  qed
  moreover have "sizeof_T * n mod 2 ^ 64 < 2 ^ 64" by simp
  ultimately show ?thesis using \<open>n \<noteq> 0\<close> assms(2) by (simp add: AllocArray_def allocate_def sz_mul_def)
qed

theorem ArenaAllocator_allocate_wraps_witness:
  "AllocArray 8 8 demo_malloc (2 ^ 61 + 1) demo_arena = Inl CheckFailed \<and>
   allocate 8 8 demo_malloc (2 ^ 61 + 1) demo_arena = AllocBytes demo_malloc 8 8 demo_arena"
  using ArenaAllocator_allocate_wraps [of 8 "2 ^ 61 + 1" 8 demo_malloc demo_arena] by simp

end
