(* ===== verification/Std_Map.thy ===== *)
theory Std_Map
  imports Yacul_Prelude "HOL-Library.Multiset"
begin

text \<open>
  \<open>std::map\<close> as the list of its key-value pairs in the order of the keys: \<open>operator[]\<close> and \<open>erase\<close> by key, and
  facts on lists that are scanned up to the first element that is too large, as the code does.
\<close>

section \<open>Operations\<close>

fun map_put :: "'k::linorder \<Rightarrow> 'v \<Rightarrow> ('k \<times> 'v) list \<Rightarrow> ('k \<times> 'v) list" where
  "map_put k v [] = [(k, v)]"
| "map_put k v ((l, w) # xs) = (if k < l then (k, v) # (l, w) # xs
     else if k = l then (k, v) # xs else (l, w) # map_put k v xs)"

fun map_erase :: "'k::linorder \<Rightarrow> ('k \<times> 'v) list \<Rightarrow> ('k \<times> 'v) list" where
  "map_erase k [] = []"
| "map_erase k ((l, w) # xs) = (if k = l then xs else (l, w) # map_erase k xs)"

definition map_ok :: "('k::linorder \<times> 'v) list \<Rightarrow> bool" where
  "map_ok xs \<longleftrightarrow> sorted_wrt (<) (map fst xs)"

section \<open>Facts\<close>

lemma map_ok_Nil [simp]: "map_ok []"
  by (simp add: map_ok_def)

lemma map_ok_Cons: "map_ok (x # xs) \<longleftrightarrow> (\<forall>y \<in> set xs. fst x < fst y) \<and> map_ok xs"
  by (auto simp: map_ok_def)

lemma set_map_put: "set (map_put k v xs) \<subseteq> insert (k, v) (set xs)"
  by (induction k v xs rule: map_put.induct) auto

lemma fst_map_put: "fst ` set (map_put k v xs) = insert k (fst ` set xs)"
  by (induction k v xs rule: map_put.induct) (auto simp: image_iff)

lemma map_ok_put [intro]: "map_ok xs \<Longrightarrow> map_ok (map_put k v xs)"
proof (induction k v xs rule: map_put.induct)
  case (2 k v l w xs)
  have "\<forall>y \<in> set (map_put k v xs). fst y = k \<or> y \<in> set xs" using set_map_put [of k v xs] by auto
  with 2 show ?case by (auto simp: map_ok_Cons)
qed (simp add: map_ok_Cons)

lemma mset_map_put: "k \<notin> fst ` set xs \<Longrightarrow> mset (map_put k v xs) = add_mset (k, v) (mset xs)"
  by (induction k v xs rule: map_put.induct) (auto simp: add_mset_commute)

lemma map_of_put: "map_ok xs \<Longrightarrow> map_of (map_put k v xs) = (map_of xs)(k \<mapsto> v)"
proof (induction k v xs rule: map_put.induct)
  case (2 k v l w xs)
  then show ?case by (auto simp: map_ok_Cons fun_eq_iff)
qed auto

lemma map_erase_filter: "map_ok xs \<Longrightarrow> map_erase k xs = filter (\<lambda>x. fst x \<noteq> k) xs"
proof (induction k xs rule: map_erase.induct)
  case (2 k l w xs)
  then have "filter (\<lambda>x. fst x \<noteq> l) xs = xs" by (auto simp: map_ok_Cons filter_id_conv)
  with 2 show ?case by (auto simp: map_ok_Cons)
qed simp

lemma map_ok_filter [intro]: "map_ok xs \<Longrightarrow> map_ok (filter P xs)"
  by (induction xs) (auto simp: map_ok_Cons)

lemma map_ok_removes: "map_ok (xs @ x # ys) \<Longrightarrow> map_ok (xs @ ys)"
  by (induction xs) (auto simp: map_ok_Cons)

end
