(* ===== verification/Lock_Contract.thy ===== *)
theory Lock_Contract
  imports Yacul_Prelude "HOL-Library.Multiset"
begin

text \<open>
  What every lock of the library promises, whatever its implementation: an abstract lock is the multiset of the
  claims that are held, a claim is added only when it is compatible with all claims held, and only a claim that
  is held is given back. The locale says that an implementation follows the abstract lock; mutual exclusion in
  every state that can be reached is proved from it once.
\<close>

section \<open>The abstract lock\<close>

inductive spec_step :: "('r \<Rightarrow> 'r \<Rightarrow> bool) \<Rightarrow> 'r multiset \<Rightarrow> 'r multiset \<Rightarrow> bool" for coexist where
  spec_acquire: "(\<And>q. q \<in># H \<Longrightarrow> coexist q r) \<Longrightarrow> spec_step coexist H (add_mset r H)"
| spec_release: "spec_step coexist (add_mset r H) H"

inductive_cases spec_step_cases: "spec_step coexist H H'"

abbreviation spec_run :: "('r \<Rightarrow> 'r \<Rightarrow> bool) \<Rightarrow> 'r multiset \<Rightarrow> 'r multiset \<Rightarrow> bool" where
  "spec_run coexist \<equiv> (spec_step coexist)\<^sup>*\<^sup>*"

definition all_coexist :: "('r \<Rightarrow> 'r \<Rightarrow> bool) \<Rightarrow> 'r multiset \<Rightarrow> bool" where
  "all_coexist coexist H \<longleftrightarrow> (\<forall>r q K. H = add_mset r (add_mset q K) \<longrightarrow> coexist r q)"

lemma all_coexist_empty [simp]: "all_coexist coexist {#}"
  by (simp add: all_coexist_def)

lemma all_coexist_sub: "all_coexist coexist (add_mset r H) \<Longrightarrow> all_coexist coexist H"
  unfolding all_coexist_def by (metis add_mset_commute)

lemma all_coexist_add:
  assumes sym: "\<And>r q. coexist r q \<Longrightarrow> coexist q r"
    and H: "all_coexist coexist H" and r: "\<And>q. q \<in># H \<Longrightarrow> coexist q r"
  shows "all_coexist coexist (add_mset r H)"
  unfolding all_coexist_def
proof (intro allI impI)
  fix a b K
  assume eq: "add_mset r H = add_mset a (add_mset b K)"
  show "coexist a b"
  proof (cases "a = r")
    case True
    then have "H = add_mset b K" using eq by simp
    then show ?thesis using r sym True by simp
  next
    case False
    then obtain L where L: "H = add_mset a L" "add_mset b K = add_mset r L"
      using eq by (auto simp: add_eq_conv_ex)
    show ?thesis
    proof (cases "b = r")
      case True
      then show ?thesis using r L by simp
    next
      case False
      then obtain M where "L = add_mset b M" using L(2) by (auto simp: add_eq_conv_ex)
      then show ?thesis using H L(1) by (simp add: all_coexist_def)
    qed
  qed
qed

lemma spec_run_coexist:
  assumes sym: "\<And>r q. coexist r q \<Longrightarrow> coexist q r"
  shows "spec_run coexist H H' \<Longrightarrow> all_coexist coexist H \<Longrightarrow> all_coexist coexist H'"
proof (induction rule: rtranclp_induct)
  case (step H' H'')
  then have "all_coexist coexist H'" by simp
  with step.hyps(2) show ?case
    by (auto elim!: spec_step_cases intro: all_coexist_add [OF sym] all_coexist_sub)
qed

section \<open>Claims held by the entries of a list\<close>

text \<open>\<open>held_by f xs\<close>: the claims of the elements of a list, an element with \<open>f x = None\<close> holding none.\<close>

definition held_by :: "('a \<Rightarrow> 'r option) \<Rightarrow> 'a list \<Rightarrow> 'r multiset" where
  "held_by f xs = mset (List.map_filter f xs)"

lemma held_by_Nil [simp]: "held_by f [] = {#}"
  by (simp add: held_by_def)

lemma held_by_Cons [simp]: "held_by f (x # xs) = (case f x of None \<Rightarrow> {#} | Some r \<Rightarrow> {#r#}) + held_by f xs"
  by (simp add: held_by_def List.map_filter_simps split: option.split)

lemma held_by_append [simp]: "held_by f (xs @ ys) = held_by f xs + held_by f ys"
  by (induction xs) (auto simp: add.assoc)

lemma held_by_update:
  assumes "i < length xs"
  shows "held_by f xs = (case f (xs ! i) of None \<Rightarrow> {#} | Some r \<Rightarrow> {#r#}) + held_by f (take i xs @ drop (Suc i) xs)"
    and "held_by f (xs[i := y]) = (case f y of None \<Rightarrow> {#} | Some r \<Rightarrow> {#r#}) + held_by f (take i xs @ drop (Suc i) xs)"
proof -
  have "held_by f xs = held_by f (take i xs @ xs ! i # drop (Suc i) xs)"
    using id_take_nth_drop [OF assms] by simp
  then show "held_by f xs = (case f (xs ! i) of None \<Rightarrow> {#} | Some r \<Rightarrow> {#r#}) + held_by f (take i xs @ drop (Suc i) xs)"
    by (simp add: ac_simps)
  show "held_by f (xs[i := y]) = (case f y of None \<Rightarrow> {#} | Some r \<Rightarrow> {#r#}) + held_by f (take i xs @ drop (Suc i) xs)"
    using assms by (simp add: upd_conv_take_nth_drop ac_simps)
qed

lemma held_by_set_None: "i < length xs \<Longrightarrow> f (xs ! i) = Some r \<Longrightarrow> f y = None \<Longrightarrow>
    held_by f xs = add_mset r (held_by f (xs[i := y]))"
  by (simp add: held_by_update [of i xs f])

lemma held_by_set_Some: "i < length xs \<Longrightarrow> f (xs ! i) = None \<Longrightarrow> f y = Some r \<Longrightarrow>
    held_by f (xs[i := y]) = add_mset r (held_by f xs)"
  by (simp add: held_by_update [of i xs f])

lemma held_by_same: "i < length xs \<Longrightarrow> f (xs ! i) = f y \<Longrightarrow> held_by f (xs[i := y]) = held_by f xs"
  by (simp add: held_by_update [of i xs f])

text \<open>Two claims of different elements stand in the multiset together.\<close>

lemma held_by_two:
  assumes "i < j" "j < length xs" "f (xs ! i) = Some r" "f (xs ! j) = Some q"
  shows "\<exists>K. held_by f xs = add_mset r (add_mset q K)"
proof -
  have "i < length xs" using assms(1,2) by simp
  then have i: "held_by f xs = add_mset r (held_by f (take i xs @ drop (Suc i) xs))"
    using assms(3) by (simp add: held_by_update(1) [of i xs f])
  let ?ys = "drop (Suc i) xs"
  have j: "j - Suc i < length ?ys" "f (?ys ! (j - Suc i)) = Some q" using assms by auto
  then have "held_by f ?ys = add_mset q (held_by f (take (j - Suc i) ?ys @ drop (Suc (j - Suc i)) ?ys))"
    by (subst held_by_update(1) [of "j - Suc i"]) auto
  then show ?thesis using i by auto
qed

lemma all_coexist_held_by:
  assumes "all_coexist coexist (held_by f xs)" and sym: "\<And>r q. coexist r q \<Longrightarrow> coexist q r"
    and "i < length xs" "j < length xs" "i \<noteq> j" "f (xs ! i) = Some r" "f (xs ! j) = Some q"
  shows "coexist r q"
proof (cases "i < j")
  case True
  then show ?thesis using held_by_two [of i j xs f r q] assms by (auto simp: all_coexist_def)
next
  case False
  then show ?thesis using held_by_two [of j i xs f q r] assms by (auto simp: all_coexist_def)
qed

section \<open>The contract\<close>

text \<open>The states that ready steps of an implementation lead to.\<close>

inductive steps_to :: "('e \<Rightarrow> 's \<Rightarrow> 's result) \<Rightarrow> ('e \<Rightarrow> 's \<Rightarrow> bool) \<Rightarrow> 's \<Rightarrow> 's \<Rightarrow> bool"
  for step ready where
  steps_refl: "steps_to step ready s s"
| steps_step: "steps_to step ready s t \<Longrightarrow> ready e t \<Longrightarrow> step e t = Inr u \<Longrightarrow> steps_to step ready s u"

inductive_cases steps_to_cases: "steps_to step ready s t"

text \<open>The state after a list of events, to compute with.\<close>

fun run_events :: "('e \<Rightarrow> 's \<Rightarrow> 's result) \<Rightarrow> ('e \<Rightarrow> 's \<Rightarrow> bool) \<Rightarrow> 'e list \<Rightarrow> 's \<Rightarrow> 's option" where
  "run_events step ready [] s = Some s"
| "run_events step ready (e # es) s = (if ready e s
     then case step e s of Inl _ \<Rightarrow> None | Inr t \<Rightarrow> run_events step ready es t else None)"

lemma run_events_steps:
  "steps_to step ready s0 s \<Longrightarrow> run_events step ready es s = Some t \<Longrightarrow> steps_to step ready s0 t"
  by (induction step ready es s rule: run_events.induct)
    (auto split: if_splits sum.splits intro: steps_step)

lemma run_events_append:
  "run_events step ready (xs @ ys) s = (case run_events step ready xs s of None \<Rightarrow> None | Some t \<Rightarrow> run_events step ready ys t)"
  by (induction step ready xs s rule: run_events.induct) (auto split: sum.splits)

text \<open>An invariant of the steps holds wherever they lead, also when some of them may fault.\<close>

locale step_invariant =
  fixes inv :: "'s \<Rightarrow> bool"
    and step :: "'e \<Rightarrow> 's \<Rightarrow> 's result"
    and ready :: "'e \<Rightarrow> 's \<Rightarrow> bool"
  assumes preserved: "inv s \<Longrightarrow> ready e s \<Longrightarrow> step e s = Inr t \<Longrightarrow> inv t"
begin

lemma always: "steps_to step ready s t \<Longrightarrow> inv s \<Longrightarrow> inv t"
  by (induction rule: steps_to.induct) (auto intro: preserved)

lemma always_after: "run_events step ready es s = Some t \<Longrightarrow> inv s \<Longrightarrow> inv t"
  by (rule always [OF run_events_steps [OF steps_refl]])

end

locale lock_contract =
  fixes inv :: "'s \<Rightarrow> bool"
    and step :: "'e \<Rightarrow> 's \<Rightarrow> 's result"
    and ready :: "'e \<Rightarrow> 's \<Rightarrow> bool"
    and held :: "'s \<Rightarrow> 'r multiset"
    and coexist :: "'r \<Rightarrow> 'r \<Rightarrow> bool"
  assumes follows: "inv s \<Longrightarrow> ready e s \<Longrightarrow>
      \<exists>s'. step e s = Inr s' \<and> inv s' \<and> spec_run coexist (held s) (held s')"
    and coexist_sym: "coexist r q \<Longrightarrow> coexist q r"
begin

lemma step_ok: "inv s \<Longrightarrow> ready e s \<Longrightarrow> step e s = Inr t \<Longrightarrow> inv t \<and> spec_run coexist (held s) (held t)"
  using follows by fastforce

lemma simulation: "steps_to step ready s t \<Longrightarrow> inv s \<Longrightarrow> inv t \<and> spec_run coexist (held s) (held t)"
proof (induction rule: steps_to.induct)
  case (steps_step s t e u)
  then have "inv t" "spec_run coexist (held s) (held t)" by auto
  moreover have "inv u" "spec_run coexist (held t) (held u)" using step_ok [of t e u] steps_step calculation(1) by auto
  ultimately show ?case by auto
qed simp

lemma mutual_exclusion: "steps_to step ready s t \<Longrightarrow> inv s \<Longrightarrow> held s = {#} \<Longrightarrow> all_coexist coexist (held t)"
  using simulation [of s t] spec_run_coexist [of coexist "{#}" "held t"] coexist_sym by auto

lemma no_fault: "steps_to step ready s t \<Longrightarrow> inv s \<Longrightarrow> ready e t \<Longrightarrow> \<exists>u. step e t = Inr u"
  using simulation follows by blast

end

text \<open>What a lock keeps is an invariant of its steps.\<close>

sublocale lock_contract \<subseteq> kept: step_invariant inv step ready
proof (rule step_invariant.intro)
  fix s e t
  assume "inv s" "ready e s" "step e s = Inr t"
  from step_ok [OF this] show "inv t" ..
qed

end
