(* ===== verification/Lock_Range.thy ===== *)
theory Lock_Range
  imports Std_Map Lock_Contract
begin

text \<open>
  \<open>LockRange\<close> (concurrency/lock_range.h, .cc): shared and exclusive locks on ranges of 64-bit offsets, with
  writer preference. The fields \<open>entries_\<close>, \<open>waiters_\<close> and \<open>next_id_\<close> are guarded by one mutex, so every stretch
  of code between two points where the mutex is free is one atomic step. A thread that blocks in \<open>WaitLoop\<close>
  gives the mutex back in \<open>cv_.wait\<close>; what it does before and after is the functions \<open>WaitLoop\<close> and
  \<open>WaitLoop_resume\<close>. \<open>cv'\<close> is the set of threads that sleep on the condition variable and have not been
  notified.
\<close>

section \<open>Data\<close>

datatype lock_mode = kShared | kExclusive

datatype lock_status = kAcquired | kTimeout | kCancelled | kInvalid

record lock_entry =
  e_offset :: nat
  e_end :: nat
  e_mode :: lock_mode
  share_count :: nat

record waiter =
  w_offset :: nat
  w_end :: nat
  w_mode :: lock_mode

datatype entry_key = EntryKey (k_offset: nat) (k_id: nat)

definition EntryKey_less :: "entry_key \<Rightarrow> entry_key \<Rightarrow> bool" where
  "EntryKey_less a b = (if k_offset a \<noteq> k_offset b then k_offset a < k_offset b else k_id a < k_id b)"

instantiation entry_key :: linorder
begin

definition less_entry_key :: "entry_key \<Rightarrow> entry_key \<Rightarrow> bool" where
  "less_entry_key a b \<longleftrightarrow> EntryKey_less a b"

definition less_eq_entry_key :: "entry_key \<Rightarrow> entry_key \<Rightarrow> bool" where
  "less_eq_entry_key a b \<longleftrightarrow> EntryKey_less a b \<or> a = b"

instance
  by standard (auto simp: less_entry_key_def less_eq_entry_key_def EntryKey_less_def split: if_splits,
    metis entry_key.expand linorder_neqE_nat)

end

text \<open>A waiter descriptor lives on the stack of the waiting thread: its address is named by the thread.\<close>

record lock_range =
  next_id' :: nat
  entries' :: "(entry_key \<times> lock_entry) list"
  waiters' :: "(nat \<times> waiter) list"
  cv' :: "nat list"

definition LockRange_init :: lock_range where
  "LockRange_init = \<lparr>next_id' = 0, entries' = [], waiters' = [], cv' = []\<rparr>"

text \<open>A guard; \<open>owner'\<close> stands for \<open>owner_ \<noteq> nullptr\<close>. \<open>busy\<close> is no field of the code: it is set while
  a thread is inside \<open>UpgradeUntil\<close> of the guard and has given up its shared lock.\<close>

record guard =
  owner' :: bool
  g_offset :: nat
  g_length :: nat
  g_mode :: lock_mode
  busy :: bool

definition Guard_default :: guard where
  "Guard_default = \<lparr>owner' = False, g_offset = 0, g_length = 0, g_mode = kShared, busy = False\<rparr>"

definition Guard_new :: "nat \<Rightarrow> nat \<Rightarrow> lock_mode \<Rightarrow> guard" where
  "Guard_new off len m = \<lparr>owner' = True, g_offset = off, g_length = len, g_mode = m, busy = False\<rparr>"

section \<open>Helpers that need the mutex\<close>

definition ValidateRange :: "nat \<Rightarrow> nat \<Rightarrow> 'a result \<Rightarrow> 'a result" where
  "ValidateRange off len rest = check (len \<noteq> 0) (check (off \<le> sz_sub size_max len) rest)"

definition Overlaps :: "nat \<Rightarrow> nat \<Rightarrow> nat \<Rightarrow> nat \<Rightarrow> bool" where
  "Overlaps a_off a_end b_off b_end \<longleftrightarrow> a_off < b_end \<and> b_off < a_end"

fun conflict_scan :: "nat \<Rightarrow> nat \<Rightarrow> lock_mode \<Rightarrow> entry_key option \<Rightarrow> (entry_key \<times> lock_entry) list \<Rightarrow> bool" where
  "conflict_scan off en m exclude [] = False"
| "conflict_scan off en m exclude ((key, entry) # rest) =
    (if en \<le> k_offset key then False
     else if exclude = Some key then conflict_scan off en m exclude rest
     else if \<not> Overlaps (e_offset entry) (e_end entry) off en then conflict_scan off en m exclude rest
     else if m = kExclusive \<or> e_mode entry = kExclusive then True
     else conflict_scan off en m exclude rest)"

definition HasConflict :: "nat \<Rightarrow> nat \<Rightarrow> lock_mode \<Rightarrow> entry_key option \<Rightarrow> lock_range \<Rightarrow> bool" where
  "HasConflict off en m exclude s = conflict_scan off en m exclude (entries' s)"

definition ExclusiveWaiterExists :: "nat \<Rightarrow> nat \<Rightarrow> lock_range \<Rightarrow> bool" where
  "ExclusiveWaiterExists off en s =
    list_ex (\<lambda>(_, w). w_mode w = kExclusive \<and> Overlaps (w_offset w) (w_end w) off en) (waiters' s)"

definition CanGrant :: "nat \<Rightarrow> nat \<Rightarrow> lock_mode \<Rightarrow> entry_key option \<Rightarrow> lock_range \<Rightarrow> bool" where
  "CanGrant off en m exclude s =
    (if m = kShared \<and> ExclusiveWaiterExists off en s then False
     else \<not> HasConflict off en m exclude s)"

definition InsertEntry :: "nat \<Rightarrow> nat \<Rightarrow> lock_mode \<Rightarrow> lock_range \<Rightarrow> entry_key \<times> lock_range" where
  "InsertEntry off en m s =
    (let key = EntryKey off (next_id' s)
     in (key, s\<lparr>next_id' := sz_add (next_id' s) 1,
           entries' := map_put key \<lparr>e_offset = off, e_end = en, e_mode = m, share_count = 1\<rparr> (entries' s)\<rparr>))"

definition notify_all :: "lock_range \<Rightarrow> lock_range" where
  "notify_all s = s\<lparr>cv' := []\<rparr>"

definition RemoveEntry :: "entry_key \<Rightarrow> lock_range \<Rightarrow> lock_range" where
  "RemoveEntry key s = notify_all (s\<lparr>entries' := map_erase key (entries' s)\<rparr>)"

section \<open>The wait loop\<close>

text \<open>A call either returns a status or blocks on the condition variable.\<close>

datatype wait_outcome = Returned lock_status | Blocked

definition unregister :: "nat \<Rightarrow> lock_range \<Rightarrow> lock_range" where
  "unregister t s = s\<lparr>waiters' := filter (\<lambda>(a, _). a \<noteq> t) (waiters' s)\<rparr>"

definition WaitLoop_leave ::
    "nat \<Rightarrow> nat \<Rightarrow> nat \<Rightarrow> lock_mode \<Rightarrow> entry_key option \<Rightarrow> lock_range \<Rightarrow> wait_outcome \<times> lock_range" where
  "WaitLoop_leave t off en m exclude s0 =
    (let s = unregister t s0
     in if CanGrant off en m exclude s then (Returned kAcquired, snd (InsertEntry off en m s))
        else (Returned kTimeout, s))"

definition WaitLoop_test ::
    "nat \<Rightarrow> nat \<Rightarrow> nat \<Rightarrow> lock_mode \<Rightarrow> entry_key option \<Rightarrow> lock_range \<Rightarrow> wait_outcome \<times> lock_range" where
  "WaitLoop_test t off en m exclude s =
    (if CanGrant off en m exclude s then WaitLoop_leave t off en m exclude s
     else (Blocked, s\<lparr>cv' := t # cv' s\<rparr>))"

definition WaitLoop ::
    "nat \<Rightarrow> nat \<Rightarrow> nat \<Rightarrow> lock_mode \<Rightarrow> bool \<Rightarrow> entry_key option \<Rightarrow> lock_range \<Rightarrow> wait_outcome \<times> lock_range" where
  "WaitLoop t off en m no_wait exclude s =
    (if CanGrant off en m exclude s then (Returned kAcquired, snd (InsertEntry off en m s))
     else if no_wait then (Returned kTimeout, s)
     else WaitLoop_test t off en m exclude
       (s\<lparr>waiters' := waiters' s @ [(t, \<lparr>w_offset = off, w_end = en, w_mode = m\<rparr>)]\<rparr>))"

text \<open>After \<open>cv_.wait\<close> or \<open>cv_.wait_until\<close>, which reports a timeout only for a deadline other than
  \<open>kForever\<close>.\<close>

definition WaitLoop_resume ::
    "nat \<Rightarrow> nat \<Rightarrow> nat \<Rightarrow> lock_mode \<Rightarrow> bool \<Rightarrow> bool \<Rightarrow> entry_key option \<Rightarrow> lock_range \<Rightarrow> wait_outcome \<times> lock_range" where
  "WaitLoop_resume t off en m forever timed_out exclude s0 =
    (let s = s0\<lparr>cv' := filter (\<lambda>a. a \<noteq> t) (cv' s0)\<rparr>
     in if \<not> forever \<and> timed_out \<and> \<not> CanGrant off en m exclude s then WaitLoop_leave t off en m exclude s
        else WaitLoop_test t off en m exclude s)"

section \<open>Release and upgrade\<close>

text \<open>The loops over \<open>entries_\<close>: the new entries, whether an entry matched and whether the waiters are notified.\<close>

fun release_scan :: "nat \<Rightarrow> nat \<Rightarrow> lock_mode \<Rightarrow> (entry_key \<times> lock_entry) list \<Rightarrow> (entry_key \<times> lock_entry) list \<times> bool" where
  "release_scan off en m [] = ([], False)"
| "release_scan off en m ((key, e) # rest) =
    (if en < k_offset key then ((key, e) # rest, False)
     else if e_offset e \<noteq> off \<or> e_end e \<noteq> en \<or> e_mode e \<noteq> m
       then (let (r, n) = release_scan off en m rest in ((key, e) # r, n))
     else if m = kShared \<and> 1 < share_count e then ((key, e\<lparr>share_count := share_count e - 1\<rparr>) # rest, False)
     else (rest, True))"

definition DoRelease :: "nat \<Rightarrow> nat \<Rightarrow> lock_mode \<Rightarrow> lock_range \<Rightarrow> lock_range" where
  "DoRelease off len m s =
    (let en = sz_add off len; (es, notify) = release_scan off en m (entries' s)
     in if notify then notify_all (s\<lparr>entries' := es\<rparr>) else s\<lparr>entries' := es\<rparr>)"

fun upgrade_scan :: "nat \<Rightarrow> nat \<Rightarrow> (entry_key \<times> lock_entry) list \<Rightarrow> (entry_key \<times> lock_entry) list \<times> bool \<times> bool" where
  "upgrade_scan off en [] = ([], False, False)"
| "upgrade_scan off en ((key, e) # rest) =
    (if off < k_offset key then ((key, e) # rest, False, False)
     else if e_offset e \<noteq> off \<or> e_end e \<noteq> en \<or> e_mode e \<noteq> kShared
       then (let (r, f, n) = upgrade_scan off en rest in ((key, e) # r, f, n))
     else if 1 < share_count e then ((key, e\<lparr>share_count := share_count e - 1\<rparr>) # rest, True, False)
     else (rest, True, True))"

text \<open>Step 1 of \<open>UpgradeUntil\<close> and its wait; the second component tells whether the own entry was found.\<close>

definition UpgradeUntil_start :: "nat \<Rightarrow> nat \<Rightarrow> nat \<Rightarrow> lock_range \<Rightarrow> (wait_outcome \<times> lock_range) result" where
  "UpgradeUntil_start t off len s =
    (let en = sz_add off len; (es, released, notify) = upgrade_scan off en (entries' s);
         s1 = (if notify then notify_all (s\<lparr>entries' := es\<rparr>) else s\<lparr>entries' := es\<rparr>)
     in if \<not> released then Inl FatalLog else Inr (WaitLoop t off en kExclusive False None s1))"

definition UpgradeUntil_return :: "lock_status \<Rightarrow> guard \<Rightarrow> guard" where
  "UpgradeUntil_return st g = (if st = kAcquired then g\<lparr>g_mode := kExclusive, busy := False\<rparr>
     else g\<lparr>owner' := False, busy := False\<rparr>)"

section \<open>Guards\<close>

definition Guard_Release :: "guard \<Rightarrow> lock_range \<Rightarrow> guard \<times> lock_range" where
  "Guard_Release g s = (if \<not> owner' g then (g, s)
     else (g\<lparr>owner' := False\<rparr>, DoRelease (g_offset g) (g_length g) (g_mode g) s))"

text \<open>Move construction: the new guard and what is left of the old one.\<close>

definition Guard_move :: "guard \<Rightarrow> guard \<times> guard" where
  "Guard_move other = (other, other\<lparr>owner' := False\<rparr>)"

definition Guard_move_assign :: "guard \<Rightarrow> guard \<Rightarrow> lock_range \<Rightarrow> guard \<times> guard \<times> lock_range" where
  "Guard_move_assign this other s =
    (let (this1, s1) = Guard_Release this s
     in (this1\<lparr>owner' := owner' other, g_offset := g_offset other, g_length := g_length other,
           g_mode := g_mode other\<rparr>, other\<lparr>owner' := False\<rparr>, s1))"

definition LockRange_destroy :: "lock_range \<Rightarrow> unit result" where
  "LockRange_destroy s = check (entries' s = []) (Inr ())"

section \<open>Diagnostics\<close>

definition ActiveLockCount :: "lock_range \<Rightarrow> nat" where
  "ActiveLockCount s = length (entries' s)"

fun locked_scan :: "nat \<Rightarrow> nat \<Rightarrow> (entry_key \<times> lock_entry) list \<Rightarrow> bool" where
  "locked_scan off en [] = False"
| "locked_scan off en ((key, entry) # rest) =
    (if en \<le> k_offset key then False
     else if Overlaps (e_offset entry) (e_end entry) off en then True
     else locked_scan off en rest)"

definition IsLockedAny :: "nat \<Rightarrow> nat \<Rightarrow> lock_range \<Rightarrow> bool" where
  "IsLockedAny off len s = (if len = 0 then False else locked_scan off (sz_add off len) (entries' s))"

section \<open>Threads that use the lock\<close>

text \<open>
  A thread is outside the lock (with the status that its last call reported) or blocked in one of the calls.
  The guards that the program has are a list; a call that returns a guard appends it.
\<close>

datatype thread_state =
    Outside "lock_status option"
  | InLock nat nat lock_mode
  | InTryLockUntil nat nat lock_mode
  | InUpgrade nat bool

record lock_sys =
  lr :: lock_range
  guards :: "guard list"
  threads :: "thread_state list"

definition Lock_return :: "nat \<Rightarrow> nat \<Rightarrow> nat \<Rightarrow> lock_mode \<Rightarrow> wait_outcome \<times> lock_range \<Rightarrow> lock_sys \<Rightarrow> lock_sys result" where
  "Lock_return t off len m r s = (case r of
     (Blocked, l) \<Rightarrow> Inr (s\<lparr>lr := l, threads := (threads s)[t := InLock off len m]\<rparr>)
   | (Returned st, l) \<Rightarrow> check (st = kAcquired) (Inr (s\<lparr>lr := l, guards := guards s @ [Guard_new off len m],
       threads := (threads s)[t := Outside None]\<rparr>)))"

definition Lock :: "nat \<Rightarrow> nat \<Rightarrow> nat \<Rightarrow> lock_mode \<Rightarrow> lock_sys \<Rightarrow> lock_sys result" where
  "Lock t off len m s = ValidateRange off len
    (Lock_return t off len m (WaitLoop t off (sz_add off len) m False None (lr s)) s)"

definition TryLock_return :: "nat \<Rightarrow> nat \<Rightarrow> nat \<Rightarrow> lock_mode \<Rightarrow> wait_outcome \<times> lock_range \<Rightarrow> lock_sys \<Rightarrow> lock_sys result" where
  "TryLock_return t off len m r s = (case r of
     (Blocked, l) \<Rightarrow> Inr (s\<lparr>lr := l, threads := (threads s)[t := InTryLockUntil off len m]\<rparr>)
   | (Returned st, l) \<Rightarrow> Inr (s\<lparr>lr := l,
       guards := guards s @ [if st = kAcquired then Guard_new off len m else Guard_default],
       threads := (threads s)[t := Outside (Some st)]\<rparr>))"

definition TryLockUntil :: "nat \<Rightarrow> nat \<Rightarrow> nat \<Rightarrow> lock_mode \<Rightarrow> lock_sys \<Rightarrow> lock_sys result" where
  "TryLockUntil t off len m s = ValidateRange off len
    (TryLock_return t off len m (WaitLoop t off (sz_add off len) m False None (lr s)) s)"

definition TryLock :: "nat \<Rightarrow> nat \<Rightarrow> nat \<Rightarrow> lock_mode \<Rightarrow> lock_sys \<Rightarrow> lock_sys result" where
  "TryLock t off len m s = ValidateRange off len
    (TryLock_return t off len m (WaitLoop t off (sz_add off len) m True None (lr s)) s)"

text \<open>\<open>forever\<close> is set for \<open>Upgrade\<close>, which passes \<open>kForever\<close> and checks the status.\<close>

definition Upgrade_return :: "nat \<Rightarrow> nat \<Rightarrow> bool \<Rightarrow> wait_outcome \<times> lock_range \<Rightarrow> lock_sys \<Rightarrow> lock_sys result" where
  "Upgrade_return t i forever r s = (case r of
     (Blocked, l) \<Rightarrow> Inr (s\<lparr>lr := l, guards := (guards s)[i := (guards s ! i)\<lparr>busy := True\<rparr>],
       threads := (threads s)[t := InUpgrade i forever]\<rparr>)
   | (Returned st, l) \<Rightarrow> check (forever \<longrightarrow> st = kAcquired) (Inr (s\<lparr>lr := l,
       guards := (guards s)[i := UpgradeUntil_return st (guards s ! i)],
       threads := (threads s)[t := Outside (Some st)]\<rparr>)))"

definition UpgradeUntil :: "nat \<Rightarrow> nat \<Rightarrow> bool \<Rightarrow> lock_sys \<Rightarrow> lock_sys result" where
  "UpgradeUntil t i forever s =
    (let g = guards s ! i
     in check (owner' g)
      (if g_mode g = kExclusive
       then check (\<not> forever) (Inr (s\<lparr>threads := (threads s)[t := Outside (Some kInvalid)]\<rparr>))
       else rbind (UpgradeUntil_start t (g_offset g) (g_length g) (lr s)) (\<lambda>r. Upgrade_return t i forever r s)))"

text \<open>A blocked thread goes on: it was notified, or woke up for no reason, or its deadline passed.\<close>

definition resume :: "nat \<Rightarrow> bool \<Rightarrow> lock_sys \<Rightarrow> lock_sys result" where
  "resume t timed_out s = (case threads s ! t of
     Outside _ \<Rightarrow> Inr s
   | InLock off len m \<Rightarrow> Lock_return t off len m
       (WaitLoop_resume t off (sz_add off len) m True timed_out None (lr s)) s
   | InTryLockUntil off len m \<Rightarrow> TryLock_return t off len m
       (WaitLoop_resume t off (sz_add off len) m False timed_out None (lr s)) s
   | InUpgrade i forever \<Rightarrow> (let g = guards s ! i in Upgrade_return t i forever
       (WaitLoop_resume t (g_offset g) (sz_add (g_offset g) (g_length g)) kExclusive forever timed_out None (lr s)) s))"

text \<open>The atomic steps.\<close>

datatype lock_event =
    ELock nat nat nat lock_mode
  | ETryLockUntil nat nat nat lock_mode
  | ETryLock nat nat nat lock_mode
  | EUpgrade nat nat bool
  | EResume nat
  | ETimeout nat
  | ERelease nat
  | EMove nat
  | EMoveAssign nat nat

fun lock_step :: "lock_event \<Rightarrow> lock_sys \<Rightarrow> lock_sys result" where
  "lock_step (ELock t off len m) s = Lock t off len m s"
| "lock_step (ETryLockUntil t off len m) s = TryLockUntil t off len m s"
| "lock_step (ETryLock t off len m) s = TryLock t off len m s"
| "lock_step (EUpgrade t i forever) s = UpgradeUntil t i forever s"
| "lock_step (EResume t) s = resume t False s"
| "lock_step (ETimeout t) s = resume t True s"
| "lock_step (ERelease i) s = (let (g, l) = Guard_Release (guards s ! i) (lr s)
     in Inr (s\<lparr>lr := l, guards := (guards s)[i := g]\<rparr>))"
| "lock_step (EMove i) s = (let (g, g') = Guard_move (guards s ! i)
     in Inr (s\<lparr>guards := (guards s)[i := g'] @ [g]\<rparr>))"
| "lock_step (EMoveAssign i j) s = (if i = j then Inr s
     else let (g, g', l) = Guard_move_assign (guards s ! i) (guards s ! j) (lr s)
       in Inr (s\<lparr>lr := l, guards := (guards s)[i := g, j := g']\<rparr>))"

definition lock_sys_init :: "nat \<Rightarrow> lock_sys" where
  "lock_sys_init n = \<lparr>lr = LockRange_init, guards = [], threads = replicate n (Outside None)\<rparr>"

end
