(* ===== verification/Lock_Range_Inv.thy ===== *)
theory Lock_Range_Inv
  imports Lock_Range
begin

text \<open>
  The invariant of \<open>LockRange\<close> and what its operations do to the claims (ranges with their modes) that its entries
  stand for: the scans that stop early find what a full scan finds, a granted entry is one new claim that fits to
  all others, a release takes exactly one claim away and wakes every sleeper.
\<close>

section \<open>Claims\<close>

type_synonym claim = "nat \<times> nat \<times> lock_mode"

fun coexist_claims :: "claim \<Rightarrow> claim \<Rightarrow> bool" where
  "coexist_claims (a, b, m) (a', b', m') \<longleftrightarrow> \<not> Overlaps a b a' b' \<or> m = kShared \<and> m' = kShared"

definition entry_claim :: "entry_key \<times> lock_entry \<Rightarrow> claim" where
  "entry_claim x = (e_offset (snd x), e_end (snd x), e_mode (snd x))"

definition claims :: "lock_range \<Rightarrow> claim multiset" where
  "claims s = image_mset entry_claim (mset (entries' s))"

definition waiter_claim :: "waiter \<Rightarrow> claim" where
  "waiter_claim w = (w_offset w, w_end w, w_mode w)"

definition entry_ok :: "nat \<Rightarrow> entry_key \<times> lock_entry \<Rightarrow> bool" where
  "entry_ok n x \<longleftrightarrow> k_offset (fst x) = e_offset (snd x) \<and> e_offset (snd x) < e_end (snd x) \<and>
     share_count (snd x) = 1 \<and> k_id (fst x) < n"

definition lr_inv :: "lock_range \<Rightarrow> bool" where
  "lr_inv s \<longleftrightarrow> map_ok (entries' s) \<and> (\<forall>x \<in> set (entries' s). entry_ok (next_id' s) x)"

lemma not_shared: "m \<noteq> kShared \<longleftrightarrow> m = kExclusive"
  by (cases m) simp_all

lemma coexist_sym: "coexist_claims r q \<Longrightarrow> coexist_claims q r"
  by (cases r; cases q) (auto simp: Overlaps_def)

lemma EntryKey_less_offset: "k < (l :: entry_key) \<Longrightarrow> k_offset k \<le> k_offset l"
  by (auto simp: less_entry_key_def EntryKey_less_def split: if_splits)

lemma lr_inv_init [simp]: "lr_inv LockRange_init"
  by (simp add: lr_inv_def LockRange_init_def)

lemma lr_inv_more [simp]: "lr_inv (s\<lparr>waiters' := ws\<rparr>) = lr_inv s" "lr_inv (s\<lparr>cv' := c\<rparr>) = lr_inv s"
  by (simp_all add: lr_inv_def)

lemma claims_more [simp]: "claims (s\<lparr>waiters' := ws\<rparr>) = claims s" "claims (s\<lparr>cv' := c\<rparr>) = claims s"
  "claims LockRange_init = {#}"
  by (simp_all add: claims_def LockRange_init_def)

section \<open>Scans that stop early\<close>

lemma conflict_scan_iff:
  assumes "map_ok es" "\<forall>x \<in> set es. entry_ok n x"
  shows "conflict_scan off en m None es \<longleftrightarrow> (\<exists>x \<in> set es. \<not> coexist_claims (entry_claim x) (off, en, m))"
  using assms
proof (induction off en m "None :: entry_key option" es rule: conflict_scan.induct)
  case (2 off en m key entry rest)
  show ?case
  proof (cases "en \<le> k_offset key")
    case True
    have "\<not> Overlaps (e_offset (snd x)) (e_end (snd x)) off en" if "x \<in> set ((key, entry) # rest)" for x
    proof -
      have "k_offset key \<le> k_offset (fst x)" using 2(4) that by (auto simp: map_ok_Cons dest: EntryKey_less_offset)
      moreover have "k_offset (fst x) = e_offset (snd x)" using 2(5) that by (auto simp: entry_ok_def)
      ultimately show ?thesis using True by (auto simp: Overlaps_def)
    qed
    then show ?thesis using True by (auto simp: entry_claim_def)
  next
    case False
    have "map_ok rest" "\<forall>x \<in> set rest. entry_ok n x" using 2(4,5) by (auto simp: map_ok_Cons)
    with 2 False show ?thesis
      by (cases m; cases "e_mode entry") (auto simp: entry_claim_def)
  qed
qed simp

lemma locked_scan_iff:
  assumes "map_ok es" "\<forall>x \<in> set es. entry_ok n x"
  shows "locked_scan off en es \<longleftrightarrow> (\<exists>x \<in> set es. Overlaps (e_offset (snd x)) (e_end (snd x)) off en)"
proof -
  have "locked_scan off en es = conflict_scan off en kExclusive None es" for es
    by (induction off en es rule: locked_scan.induct) auto
  then show ?thesis using conflict_scan_iff [OF assms] by (auto simp: entry_claim_def)
qed

lemma release_scan_spec:
  assumes "map_ok es" "\<forall>x \<in> set es. entry_ok n x" "(off, en, m) \<in> entry_claim ` set es"
  shows "\<exists>xs x ys. es = xs @ x # ys \<and> entry_claim x = (off, en, m) \<and> release_scan off en m es = (xs @ ys, True)"
  using assms
proof (induction off en m es rule: release_scan.induct)
  case (2 off en m key e rest)
  obtain z where z: "z \<in> set ((key, e) # rest)" "entry_claim z = (off, en, m)" using 2(4) by (metis imageE)
  then have zo: "k_offset (fst z) = off" "off < en" using 2(3) by (auto simp: entry_ok_def entry_claim_def)
  moreover have "k_offset key \<le> k_offset (fst z)" using z(1) 2(2) by (auto simp: map_ok_Cons dest: EntryKey_less_offset)
  ultimately have nb: "\<not> en < k_offset key" by simp
  show ?case
  proof (cases "entry_claim (key, e) = (off, en, m)")
    case True
    then have "release_scan off en m ((key, e) # rest) = (rest, True)"
      using nb 2(3) by (auto simp: entry_claim_def entry_ok_def)
    then show ?thesis using True by (intro exI [of _ "[]"] exI [of _ "(key, e)"] exI [of _ rest]) simp
  next
    case False
    then have c: "e_offset e \<noteq> off \<or> e_end e \<noteq> en \<or> e_mode e \<noteq> m" by (auto simp: entry_claim_def)
    have "(off, en, m) \<in> entry_claim ` set rest" using z False by (metis imageI set_ConsD)
    then obtain xs x ys where r: "rest = xs @ x # ys" "entry_claim x = (off, en, m)"
        "release_scan off en m rest = (xs @ ys, True)"
      using 2(1) [OF nb c] 2(2,3) by (auto simp: map_ok_Cons)
    then show ?thesis using nb c by (intro exI [of _ "(key, e) # xs"] exI [of _ x] exI [of _ ys]) auto
  qed
qed simp

lemma release_scan_nomatch:
  "\<forall>x \<in> set es. e_offset (snd x) \<noteq> off \<Longrightarrow> release_scan off en m es = (es, False)"
  by (induction off en m es rule: release_scan.induct) simp_all

lemma upgrade_scan_release_scan:
  assumes "map_ok es" "\<forall>x \<in> set es. entry_ok n x" "off < en"
  shows "upgrade_scan off en es = (let (r, f) = release_scan off en kShared es in (r, f, f))"
  using assms
proof (induction off en es rule: upgrade_scan.induct)
  case (2 off en key e rest)
  have rest: "map_ok rest" "\<forall>x \<in> set rest. entry_ok n x" using 2(2,3) by (auto simp: map_ok_Cons)
  have eo: "k_offset key = e_offset e" "share_count e = 1" using 2(3) by (auto simp: entry_ok_def)
  show ?case
  proof (cases "off < k_offset key")
    case True
    have "e_offset (snd x) \<noteq> off" if "x \<in> set ((key, e) # rest)" for x
    proof -
      have "k_offset key \<le> k_offset (fst x)" using that 2(2) by (auto simp: map_ok_Cons dest: EntryKey_less_offset)
      then show ?thesis using that 2(3) True by (auto simp: entry_ok_def)
    qed
    then have "release_scan off en kShared ((key, e) # rest) = ((key, e) # rest, False)" by (intro release_scan_nomatch) blast
    then show ?thesis using True by simp
  next
    case False
    show ?thesis
    proof (cases "e_offset e \<noteq> off \<or> e_end e \<noteq> en \<or> e_mode e \<noteq> kShared")
      case True
      then show ?thesis using False 2(1) [OF False True rest 2(4)] 2(4) eo
        by (auto simp: Let_def split: prod.splits)
    next
      case match: False
      then show ?thesis using False eo 2(4) by auto
    qed
  qed
qed simp

section \<open>Granting\<close>

text \<open>When a claim has to wait: an exclusive waiter has precedence over a shared request, and a claim that is held
  excludes it.\<close>

definition blocked :: "(nat \<times> waiter) set \<Rightarrow> claim multiset \<Rightarrow> claim \<Rightarrow> bool" where
  "blocked W C c \<longleftrightarrow> snd (snd c) = kShared \<and> (\<exists>x \<in> W. \<not> coexist_claims (waiter_claim (snd x)) c) \<or>
     (\<exists>q. q \<in># C \<and> \<not> coexist_claims q c)"

lemma HasConflict_iff:
  "lr_inv s \<Longrightarrow> HasConflict off en m None s \<longleftrightarrow> (\<exists>q. q \<in># claims s \<and> \<not> coexist_claims q (off, en, m))"
  using conflict_scan_iff [of "entries' s" "next_id' s" off en m] by (auto simp: HasConflict_def lr_inv_def claims_def)

lemma CanGrant_iff:
  assumes "lr_inv s"
  shows "CanGrant off en m None s \<longleftrightarrow> \<not> blocked (set (waiters' s)) (claims s) (off, en, m)"
proof -
  have "ExclusiveWaiterExists off en s \<longleftrightarrow> (\<exists>x \<in> set (waiters' s). \<not> coexist_claims (waiter_claim (snd x)) (off, en, kShared))"
    by (simp add: ExclusiveWaiterExists_def list_ex_iff waiter_claim_def not_shared split_def conj_commute)
  then show ?thesis using HasConflict_iff [OF assms, of off en m]
    by (cases m) (auto simp: CanGrant_def blocked_def)
qed

lemma blocked_mono: "blocked W C c \<Longrightarrow> W \<subseteq> W' \<Longrightarrow> C \<subseteq># C' \<Longrightarrow> blocked W' C' c"
  unfolding blocked_def by (meson mset_subset_eqD subsetD)

text \<open>A waiter whose claim is granted goes on blocking whom it blocked.\<close>

lemma blocked_granted:
  assumes "blocked W C c" "\<And>x. x \<in> W \<Longrightarrow> x \<notin> W' \<Longrightarrow> waiter_claim (snd x) = d"
  shows "blocked W' (add_mset d C) c"
  using assms unfolding blocked_def by (metis insert_iff set_mset_add_mset_insert)

lemma InsertEntry_spec:
  assumes "lr_inv s" "next_id' s + 1 < 2 ^ 64" "off < en"
  shows "\<exists>s'. snd (InsertEntry off en m s) = s' \<and> lr_inv s' \<and> claims s' = add_mset (off, en, m) (claims s) \<and>
    waiters' s' = waiters' s \<and> cv' s' = cv' s \<and> next_id' s' = next_id' s + 1"
proof -
  let ?k = "EntryKey off (next_id' s)"
  let ?e = "\<lparr>e_offset = off, e_end = en, e_mode = m, share_count = 1\<rparr>"
  have inv: "map_ok (entries' s)" "\<forall>x \<in> set (entries' s). entry_ok (next_id' s) x"
    using assms(1) by (auto simp: lr_inv_def)
  have new: "?k \<notin> fst ` set (entries' s)" using inv(2) by (force simp: entry_ok_def)
  have ok: "\<forall>x \<in> set (map_put ?k ?e (entries' s)). entry_ok (next_id' s + 1) x"
    using set_map_put [of ?k ?e "entries' s"] inv(2) assms(3) by (fastforce simp: entry_ok_def)
  have "sz_add (next_id' s) 1 = next_id' s + 1" using assms(2) by (rule sz_add_eq)
  then show ?thesis using ok inv(1) mset_map_put [OF new, of ?e]
    by (auto simp: InsertEntry_def Let_def lr_inv_def claims_def entry_claim_def)
qed

section \<open>Releasing\<close>

lemma released_entries:
  assumes "lr_inv s" "entries' s = xs @ x # ys" "entry_claim x = c"
  shows "lr_inv (s\<lparr>entries' := xs @ ys\<rparr>)" "claims s = add_mset c (claims (s\<lparr>entries' := xs @ ys\<rparr>))"
  using assms by (auto simp: lr_inv_def claims_def intro: map_ok_removes)

lemma DoRelease_spec:
  assumes "lr_inv s" "(off, off + len, m) \<in># claims s" "off + len < 2 ^ 64"
  shows "\<exists>s'. DoRelease off len m s = s' \<and> lr_inv s' \<and> claims s = add_mset (off, off + len, m) (claims s') \<and>
    waiters' s' = waiters' s \<and> cv' s' = [] \<and> next_id' s' = next_id' s"
proof -
  obtain xs x ys where r: "entries' s = xs @ x # ys" "entry_claim x = (off, off + len, m)"
      "release_scan off (off + len) m (entries' s) = (xs @ ys, True)"
    using release_scan_spec [of "entries' s" "next_id' s" off "off + len" m] assms(1,2)
    by (auto simp: lr_inv_def claims_def image_iff)
  have "DoRelease off len m s = notify_all (s\<lparr>entries' := xs @ ys\<rparr>)"
    using r(3) assms(3) by (simp add: DoRelease_def sz_add_eq)
  then show ?thesis using released_entries [OF assms(1) r(1,2)] by (simp add: notify_all_def)
qed

lemma UpgradeUntil_start_spec:
  assumes "lr_inv s" "(off, off + len, kShared) \<in># claims s" "off + len < 2 ^ 64" "0 < len"
  shows "UpgradeUntil_start t off len s =
    Inr (WaitLoop t off (off + len) kExclusive False None (DoRelease off len kShared s))"
proof -
  obtain xs x ys where r: "entries' s = xs @ x # ys" "entry_claim x = (off, off + len, kShared)"
      "release_scan off (off + len) kShared (entries' s) = (xs @ ys, True)"
    using release_scan_spec [of "entries' s" "next_id' s" off "off + len" kShared] assms(1,2)
    by (auto simp: lr_inv_def claims_def image_iff)
  have "upgrade_scan off (off + len) (entries' s) = (xs @ ys, True, True)"
    using upgrade_scan_release_scan [of "entries' s" "next_id' s" off "off + len"] r(3) assms(1,4)
    by (simp add: lr_inv_def)
  then show ?thesis using r(3) assms(3) by (simp add: UpgradeUntil_start_def DoRelease_def sz_add_eq)
qed

section \<open>Waiting\<close>

text \<open>A set of waiters in which thread \<open>t\<close> waits, for the claim \<open>c\<close> and for nothing else.\<close>

definition registered :: "nat \<Rightarrow> claim \<Rightarrow> (nat \<times> waiter) set \<Rightarrow> bool" where
  "registered t c W \<longleftrightarrow> (\<exists>w. waiter_claim w = c \<and> (t, w) \<in> W \<and> (\<forall>w'. (t, w') \<in> W \<longrightarrow> w' = w))"

text \<open>What one visit of \<open>WaitLoop\<close> does for the claim \<open>c\<close> of a thread.\<close>

definition wait_spec :: "nat \<Rightarrow> claim \<Rightarrow> lock_range \<Rightarrow> wait_outcome \<times> lock_range \<Rightarrow> bool" where
  "wait_spec t c s r \<longleftrightarrow> lr_inv (snd r) \<and> next_id' (snd r) \<le> next_id' s + 1 \<and> (case fst r of
     Blocked \<Rightarrow> claims (snd r) = claims s \<and> set (cv' (snd r)) = insert t (set (cv' s)) \<and>
       registered t c (set (waiters' (snd r))) \<and>
       {x \<in> set (waiters' (snd r)). fst x \<noteq> t} = {x \<in> set (waiters' s). fst x \<noteq> t} \<and>
       blocked (set (waiters' (snd r))) (claims s) c
   | Returned st \<Rightarrow> set (waiters' (snd r)) = {x \<in> set (waiters' s). fst x \<noteq> t} \<and>
       set (cv' (snd r)) = set (cv' s) - {t} \<and>
       (st = kAcquired \<and> claims (snd r) = add_mset c (claims s) \<and> (\<forall>q. q \<in># claims s \<longrightarrow> coexist_claims q c) \<or>
        st = kTimeout \<and> claims (snd r) = claims s))"

lemma wait_spec_from:
  assumes "wait_spec t c s1 r" "claims s1 = claims s" "next_id' s1 = next_id' s"
    "insert t (set (cv' s1)) = insert t (set (cv' s))"
    "{x \<in> set (waiters' s1). fst x \<noteq> t} = {x \<in> set (waiters' s). fst x \<noteq> t}"
  shows "wait_spec t c s r"
proof -
  have "set (cv' s1) - {t} = set (cv' s) - {t}" using assms(4) by blast
  with assms show ?thesis by (cases "fst r") (simp_all add: wait_spec_def)
qed

lemma unregister_simps [simp]:
  "entries' (unregister t s) = entries' s" "next_id' (unregister t s) = next_id' s" "cv' (unregister t s) = cv' s"
  "set (waiters' (unregister t s)) = {x \<in> set (waiters' s). fst x \<noteq> t}" "lr_inv (unregister t s) = lr_inv s"
  "claims (unregister t s) = claims s"
  by (auto simp: unregister_def)

lemma not_blocked_coexist: "\<not> blocked W C c \<Longrightarrow> q \<in># C \<Longrightarrow> coexist_claims q c"
  unfolding blocked_def by blast

lemma granted_spec:
  assumes "lr_inv s" "next_id' s + 1 < 2 ^ 64" "off < en" "\<not> blocked W (claims s) (off, en, m)"
    "set (waiters' s) = {x \<in> set (waiters' s0). fst x \<noteq> t}" "set (cv' s) = set (cv' s0) - {t}"
    "claims s = claims s0" "next_id' s = next_id' s0"
  shows "wait_spec t (off, en, m) s0 (Returned kAcquired, snd (InsertEntry off en m s))"
  using InsertEntry_spec [OF assms(1-3), of m] not_blocked_coexist [OF assms(4)] assms(5-)
  by (auto simp: wait_spec_def)

lemma WaitLoop_leave_spec:
  assumes "lr_inv s" "next_id' s + 1 < 2 ^ 64" "off < en" "t \<notin> set (cv' s)"
  shows "wait_spec t (off, en, m) s (WaitLoop_leave t off en m None s)"
    and "CanGrant off en m None s \<Longrightarrow> fst (WaitLoop_leave t off en m None s) = Returned kAcquired"
proof -
  have grant: "CanGrant off en m None (unregister t s) \<longleftrightarrow>
      \<not> blocked {x \<in> set (waiters' s). fst x \<noteq> t} (claims s) (off, en, m)"
    using CanGrant_iff [of "unregister t s" off en m] assms(1) by simp
  show "wait_spec t (off, en, m) s (WaitLoop_leave t off en m None s)"
  proof (cases "CanGrant off en m None (unregister t s)")
    case True
    then have "wait_spec t (off, en, m) s (Returned kAcquired, snd (InsertEntry off en m (unregister t s)))"
      using assms grant by (intro granted_spec) auto
    with True show ?thesis by (simp add: WaitLoop_leave_def Let_def)
  next
    case False
    then show ?thesis using assms by (simp add: WaitLoop_leave_def Let_def wait_spec_def)
  qed
  show "fst (WaitLoop_leave t off en m None s) = Returned kAcquired" if "CanGrant off en m None s"
  proof -
    have "\<not> blocked (set (waiters' s)) (claims s) (off, en, m)" using that CanGrant_iff [OF assms(1)] by simp
    then have "CanGrant off en m None (unregister t s)" using grant blocked_mono by blast
    then show ?thesis by (simp add: WaitLoop_leave_def Let_def)
  qed
qed

lemma WaitLoop_test_spec:
  assumes "lr_inv s" "next_id' s + 1 < 2 ^ 64" "off < en" "t \<notin> set (cv' s)"
    "registered t (off, en, m) (set (waiters' s))"
  shows "wait_spec t (off, en, m) s (WaitLoop_test t off en m None s)"
    and "fst (WaitLoop_test t off en m None s) \<noteq> Returned kTimeout"
    and "CanGrant off en m None s \<Longrightarrow> fst (WaitLoop_test t off en m None s) = Returned kAcquired"
proof -
  note leave = WaitLoop_leave_spec [OF assms(1-4), of m]
  have "wait_spec t (off, en, m) s (Blocked, s\<lparr>cv' := t # cv' s\<rparr>)" if "\<not> CanGrant off en m None s"
    using that assms(1,5) by (simp add: wait_spec_def CanGrant_iff)
  then show "wait_spec t (off, en, m) s (WaitLoop_test t off en m None s)"
    using leave(1) by (simp add: WaitLoop_test_def)
  show "fst (WaitLoop_test t off en m None s) \<noteq> Returned kTimeout"
    using leave(2) by (simp add: WaitLoop_test_def)
  show "CanGrant off en m None s \<Longrightarrow> fst (WaitLoop_test t off en m None s) = Returned kAcquired"
    using leave(2) by (simp add: WaitLoop_test_def)
qed

lemma WaitLoop_spec:
  assumes "lr_inv s" "next_id' s + 1 < 2 ^ 64" "off < en" "t \<notin> set (cv' s)" "t \<notin> fst ` set (waiters' s)"
  shows "wait_spec t (off, en, m) s (WaitLoop t off en m no_wait None s)"
    and "fst (WaitLoop t off en m no_wait None s) = Returned kTimeout \<Longrightarrow> no_wait"
proof -
  let ?w = "\<lparr>w_offset = off, w_end = en, w_mode = m\<rparr>"
  let ?s = "s\<lparr>waiters' := waiters' s @ [(t, ?w)]\<rparr>"
  have ws: "{x \<in> set (waiters' s). fst x \<noteq> t} = set (waiters' s)" using assms(5) by auto
  have w: "registered t (off, en, m) (set (waiters' ?s))"
    using assms(5) unfolding registered_def by (intro exI [of _ ?w]) (force simp: waiter_claim_def)
  have "lr_inv ?s" "next_id' ?s + 1 < 2 ^ 64" "t \<notin> set (cv' ?s)" using assms by simp_all
  note test = WaitLoop_test_spec [OF this(1,2) assms(3) this(3) w]
  have same: "{x \<in> set (waiters' ?s). fst x \<noteq> t} = {x \<in> set (waiters' s). fst x \<noteq> t}" by auto
  have "wait_spec t (off, en, m) s (WaitLoop_test t off en m None ?s)"
    using same by (intro wait_spec_from [OF test(1)]) simp_all
  moreover have "wait_spec t (off, en, m) s (Returned kAcquired, snd (InsertEntry off en m s))"
    if "CanGrant off en m None s"
    using that assms CanGrant_iff [OF assms(1)] ws by (intro granted_spec) auto
  moreover have "wait_spec t (off, en, m) s (Returned kTimeout, s)"
    using assms ws by (simp add: wait_spec_def)
  ultimately show "wait_spec t (off, en, m) s (WaitLoop t off en m no_wait None s)"
    by (simp add: WaitLoop_def)
  show "fst (WaitLoop t off en m no_wait None s) = Returned kTimeout \<Longrightarrow> no_wait"
    using test(2) by (simp add: WaitLoop_def split: if_splits)
qed

lemma WaitLoop_resume_spec:
  assumes "lr_inv s" "next_id' s + 1 < 2 ^ 64" "off < en" "registered t (off, en, m) (set (waiters' s))"
  shows "wait_spec t (off, en, m) s (WaitLoop_resume t off en m forever timed_out None s)"
    and "fst (WaitLoop_resume t off en m forever timed_out None s) = Returned kTimeout \<Longrightarrow> \<not> forever \<and> timed_out"
    and "CanGrant off en m None s \<Longrightarrow>
      fst (WaitLoop_resume t off en m forever timed_out None s) = Returned kAcquired"
proof -
  let ?s = "s\<lparr>cv' := filter (\<lambda>a. a \<noteq> t) (cv' s)\<rparr>"
  have a: "lr_inv ?s" "next_id' ?s + 1 < 2 ^ 64" "t \<notin> set (cv' ?s)" using assms by simp_all
  have w: "registered t (off, en, m) (set (waiters' ?s))" using assms(4) by simp
  note leave = WaitLoop_leave_spec(1) [OF a(1,2) assms(3) a(3), of m]
  note test = WaitLoop_test_spec [OF a(1,2) assms(3) a(3) w]
  have eq: "wait_spec t c s r" if "wait_spec t c ?s r" for c r
    by (rule wait_spec_from [OF that]) auto
  show "wait_spec t (off, en, m) s (WaitLoop_resume t off en m forever timed_out None s)"
    using eq [OF leave] eq [OF test(1)] by (simp add: WaitLoop_resume_def Let_def)
  show "fst (WaitLoop_resume t off en m forever timed_out None s) = Returned kTimeout \<Longrightarrow> \<not> forever \<and> timed_out"
    using test(2) by (auto simp: WaitLoop_resume_def Let_def split: if_splits)
  have same: "CanGrant off en m None ?s = CanGrant off en m None s"
    using a(1) assms(1) by (simp add: CanGrant_iff)
  show "CanGrant off en m None s \<Longrightarrow> fst (WaitLoop_resume t off en m forever timed_out None s) = Returned kAcquired"
    using test(3) same by (simp add: WaitLoop_resume_def Let_def)
qed

end
