(* ===== verification/Lock_Range_Sys.thy ===== *)
theory Lock_Range_Sys
  imports Lock_Range_Inv
begin

text \<open>
  Threads and guards around \<open>LockRange\<close>: the claims of the entries are those of the valid guards, one for one, and
  the waiter list is that of the blocked threads. Every atomic step keeps this and follows the abstract lock.
\<close>

section \<open>The invariant of the whole\<close>

definition guard_claim :: "guard \<Rightarrow> claim option" where
  "guard_claim g = (if owner' g \<and> \<not> busy g then Some (g_offset g, g_offset g + g_length g, g_mode g) else None)"

definition held :: "lock_sys \<Rightarrow> claim multiset" where
  "held s = held_by guard_claim (guards s)"

definition guard_ok :: "guard \<Rightarrow> bool" where
  "guard_ok g \<longleftrightarrow> (owner' g \<longrightarrow> 0 < g_length g \<and> g_offset g + g_length g < 2 ^ 64)"

fun waiting :: "guard list \<Rightarrow> thread_state \<Rightarrow> claim option" where
  "waiting gs (Outside _) = None"
| "waiting gs (InLock off len m) = Some (off, off + len, m)"
| "waiting gs (InTryLockUntil off len m) = Some (off, off + len, m)"
| "waiting gs (InUpgrade i _) = Some (g_offset (gs ! i), g_offset (gs ! i) + g_length (gs ! i), kExclusive)"

definition wait_at :: "guard list \<Rightarrow> thread_state list \<Rightarrow> nat \<Rightarrow> claim option" where
  "wait_at gs ts t = (if t < length ts then waiting gs (ts ! t) else None)"

abbreviation wait_of :: "lock_sys \<Rightarrow> nat \<Rightarrow> claim option" where
  "wait_of s \<equiv> wait_at (guards s) (threads s)"

definition claim_ok :: "claim \<Rightarrow> bool" where
  "claim_ok c \<longleftrightarrow> fst c < fst (snd c) \<and> fst (snd c) < 2 ^ 64"

definition waits_ok :: "(nat \<times> waiter) set \<Rightarrow> nat set \<Rightarrow> (nat \<Rightarrow> claim option) \<Rightarrow> bool" where
  "waits_ok W S f \<longleftrightarrow> (\<forall>t. f t = None \<longrightarrow> (\<forall>w. (t, w) \<notin> W) \<and> t \<notin> S) \<and>
     (\<forall>t c. f t = Some c \<longrightarrow> registered t c W \<and> claim_ok c)"

fun upgrade_target :: "thread_state \<Rightarrow> nat option" where
  "upgrade_target (InUpgrade i _) = Some i"
| "upgrade_target _ = None"

definition upgrading :: "thread_state list \<Rightarrow> nat \<Rightarrow> nat option" where
  "upgrading ts t = (if t < length ts then upgrade_target (ts ! t) else None)"

definition upgrades_ok :: "guard list \<Rightarrow> (nat \<Rightarrow> nat option) \<Rightarrow> bool" where
  "upgrades_ok gs F \<longleftrightarrow> (\<forall>t i. F t = Some i \<longrightarrow> i < length gs \<and> owner' (gs ! i) \<and> busy (gs ! i)) \<and>
     (\<forall>t u i. F t = Some i \<longrightarrow> F u = Some i \<longrightarrow> u = t)"

definition sys_inv :: "lock_sys \<Rightarrow> bool" where
  "sys_inv s \<longleftrightarrow> lr_inv (lr s) \<and> claims (lr s) = held s \<and> list_all guard_ok (guards s) \<and>
     waits_ok (set (waiters' (lr s))) (set (cv' (lr s))) (wait_of s) \<and> upgrades_ok (guards s) (upgrading (threads s))"

text \<open>When a step can be taken: calls come from threads that are not blocked, with ranges that \<open>ValidateRange\<close>
  accepts, guards are not used while an upgrade of theirs is under way, and \<open>next_id_\<close> has not gone through all
  of \<open>uint64_t\<close>.\<close>

definition idle :: "nat \<Rightarrow> lock_sys \<Rightarrow> bool" where
  "idle t s \<longleftrightarrow> t < length (threads s) \<and> wait_of s t = None"

definition ids_left :: "lock_sys \<Rightarrow> bool" where
  "ids_left s \<longleftrightarrow> next_id' (lr s) + 1 < 2 ^ 64"

definition guard_free :: "nat \<Rightarrow> lock_sys \<Rightarrow> bool" where
  "guard_free i s \<longleftrightarrow> i < length (guards s) \<and> \<not> busy (guards s ! i)"

fun lock_ready :: "lock_event \<Rightarrow> lock_sys \<Rightarrow> bool" where
  "lock_ready (ELock t off len m) s \<longleftrightarrow> idle t s \<and> claim_ok (off, off + len, m) \<and> ids_left s"
| "lock_ready (ETryLockUntil t off len m) s \<longleftrightarrow> idle t s \<and> claim_ok (off, off + len, m) \<and> ids_left s"
| "lock_ready (ETryLock t off len m) s \<longleftrightarrow> idle t s \<and> claim_ok (off, off + len, m) \<and> ids_left s"
| "lock_ready (EUpgrade t i forever) s \<longleftrightarrow> idle t s \<and> guard_free i s \<and> owner' (guards s ! i) \<and>
     (forever \<longrightarrow> g_mode (guards s ! i) = kShared) \<and> ids_left s"
| "lock_ready (EResume t) s \<longleftrightarrow> wait_of s t \<noteq> None \<and> ids_left s"
| "lock_ready (ETimeout t) s \<longleftrightarrow> wait_of s t \<noteq> None \<and> ids_left s"
| "lock_ready (ERelease i) s \<longleftrightarrow> guard_free i s"
| "lock_ready (EMove i) s \<longleftrightarrow> guard_free i s"
| "lock_ready (EMoveAssign i j) s \<longleftrightarrow> guard_free i s \<and> guard_free j s"

section \<open>Parts of the invariant\<close>

lemma sys_inv_init: "sys_inv (lock_sys_init n)"
  by (auto simp: sys_inv_def lock_sys_init_def LockRange_init_def lr_inv_def claims_def held_def waits_ok_def wait_at_def
    upgrades_ok_def upgrading_def)

lemma registered_other: "{x \<in> W'. fst x \<noteq> t} = {x \<in> W. fst x \<noteq> t} \<Longrightarrow> u \<noteq> t \<Longrightarrow> registered u c W' = registered u c W"
  unfolding registered_def by (metis (mono_tags, lifting) fst_conv mem_Collect_eq)

lemma waits_ok_None: "waits_ok W S f \<Longrightarrow> f t = None \<Longrightarrow> (\<forall>w. (t, w) \<notin> W) \<and> t \<notin> S"
  unfolding waits_ok_def by blast

lemma waits_ok_Some: "waits_ok W S f \<Longrightarrow> f t = Some c \<Longrightarrow> registered t c W \<and> claim_ok c"
  unfolding waits_ok_def by blast

lemma waits_ok_other:
  assumes "waits_ok W S f" "{x \<in> W'. fst x \<noteq> t} = {x \<in> W. fst x \<noteq> t}" "S' \<subseteq> insert t S"
    and None: "c = None \<Longrightarrow> (\<forall>w. (t, w) \<notin> W') \<and> t \<notin> S'"
    and Some: "\<And>d. c = Some d \<Longrightarrow> registered t d W' \<and> claim_ok d"
  shows "waits_ok W' S' (f(t := c))"
  unfolding waits_ok_def
proof (intro conjI allI impI)
  fix u d
  have W: "u \<noteq> t \<Longrightarrow> (u, w) \<in> W' \<longleftrightarrow> (u, w) \<in> W" for w using assms(2) by (auto simp: set_eq_iff)
  { assume u: "(f(t := c)) u = None"
    then show "(u, w) \<notin> W'" for w
      using None waits_ok_None [OF assms(1), of u] W by (cases "u = t") auto
    show "u \<notin> S'" using u None waits_ok_None [OF assms(1), of u] assms(3) by (cases "u = t") auto }
  assume u: "(f(t := c)) u = Some d"
  then have "registered u d W' \<and> claim_ok d"
    using Some waits_ok_Some [OF assms(1), of u d] registered_other [OF assms(2), of u d] by (cases "u = t") auto
  then show "registered u d W'" "claim_ok d" by auto
qed

lemma waits_ok_blocked:
  assumes "waits_ok (set (waiters' s)) (set (cv' s)) f" "wait_spec t c s (Blocked, s')" "claim_ok c"
  shows "waits_ok (set (waiters' s')) (set (cv' s')) (f(t := Some c))"
  using assms by (intro waits_ok_other [where t = t]) (auto simp: wait_spec_def)

lemma waits_ok_returned:
  assumes "waits_ok (set (waiters' s)) (set (cv' s)) f" "wait_spec t c s (Returned st, s')"
  shows "waits_ok (set (waiters' s')) (set (cv' s')) (f(t := None))"
  using assms by (intro waits_ok_other [where t = t]) (auto simp: wait_spec_def)

lemma waits_ok_awake: "waits_ok W S f \<Longrightarrow> S' \<subseteq> S \<Longrightarrow> waits_ok W S' f"
  unfolding waits_ok_def by blast

text \<open>A guard that no upgrade works on may change, and a guard may be added.\<close>

lemma upgrades_ok_set: "upgrades_ok gs F \<Longrightarrow> \<not> busy (gs ! i) \<Longrightarrow> upgrades_ok (gs[i := g]) F"
  unfolding upgrades_ok_def by (metis length_list_update nth_list_update_neq)

lemma upgrades_ok_append: "upgrades_ok gs F \<Longrightarrow> upgrades_ok (gs @ gs') F"
  unfolding upgrades_ok_def by (metis length_append nth_append trans_less_add1)

lemma upgrades_ok_None: "upgrades_ok gs F \<Longrightarrow> upgrades_ok gs (F(t := None))"
  unfolding upgrades_ok_def by (simp add: fun_upd_def)

lemma upgrades_ok_Some:
  "upgrades_ok gs F \<Longrightarrow> i < length gs \<Longrightarrow> owner' (gs ! i) \<Longrightarrow> \<not> busy (gs ! i) \<Longrightarrow>
   upgrades_ok (gs[i := (gs ! i)\<lparr>busy := True\<rparr>]) (F(t := Some i))"
  unfolding upgrades_ok_def by (auto simp: nth_list_update)

text \<open>The upgrade of a guard is over.\<close>

lemma upgrades_ok_done: "upgrades_ok gs F \<Longrightarrow> F t = Some i \<Longrightarrow> upgrades_ok (gs[i := g]) (F(t := None))"
  unfolding upgrades_ok_def by (auto simp: nth_list_update)

lemma upgrading_update: "t < length ts \<Longrightarrow> upgrading (ts[t := x]) = (upgrading ts)(t := upgrade_target x)"
  by (auto simp: upgrading_def fun_eq_iff)

text \<open>What the other threads wait for does not change when the guards they upgrade do not.\<close>

lemma waiting_guards:
  assumes "\<And>i. upgrade_target x = Some i \<Longrightarrow> g_offset (gs' ! i) = g_offset (gs ! i) \<and> g_length (gs' ! i) = g_length (gs ! i)"
  shows "waiting gs' x = waiting gs x"
  using assms by (cases x) auto

lemma wait_at_set:
  assumes "t < length ts"
    and same: "\<And>u i. u \<noteq> t \<Longrightarrow> upgrading ts u = Some i \<Longrightarrow>
      g_offset (gs' ! i) = g_offset (gs ! i) \<and> g_length (gs' ! i) = g_length (gs ! i)"
  shows "wait_at gs' (ts[t := x]) = (wait_at gs ts)(t := waiting gs' x)"
proof
  fix u
  show "wait_at gs' (ts[t := x]) u = ((wait_at gs ts)(t := waiting gs' x)) u"
    using assms(1) same [of u] waiting_guards [of "ts ! u" gs' gs]
    by (cases "u = t") (simp_all add: wait_at_def upgrading_def)
qed

lemma wait_at_guards:
  assumes same: "\<And>u i. upgrading ts u = Some i \<Longrightarrow>
      g_offset (gs' ! i) = g_offset (gs ! i) \<and> g_length (gs' ! i) = g_length (gs ! i)"
  shows "wait_at gs' ts = wait_at gs ts"
proof
  fix u
  show "wait_at gs' ts u = wait_at gs ts u"
    using same [of u] waiting_guards [of "ts ! u" gs' gs] by (simp add: wait_at_def upgrading_def)
qed

lemma not_busy_not_upgraded: "upgrades_ok gs F \<Longrightarrow> F u = Some i \<Longrightarrow> i < length gs \<and> busy (gs ! i)"
  by (auto simp: upgrades_ok_def)

lemma sys_invD:
  assumes "sys_inv s"
  shows "lr_inv (lr s)" "claims (lr s) = held s" "list_all guard_ok (guards s)"
    "waits_ok (set (waiters' (lr s))) (set (cv' (lr s))) (wait_of s)" "upgrades_ok (guards s) (upgrading (threads s))"
  using assms by (auto simp: sys_inv_def)

section \<open>Steps of the calls that lock\<close>

abbreviation lock_follows :: "lock_sys \<Rightarrow> lock_sys \<Rightarrow> bool" where
  "lock_follows s s' \<equiv> sys_inv s' \<and> spec_run coexist_claims (held s) (held s')"

lemma add_follows:
  "\<forall>q. q \<in># H \<longrightarrow> coexist_claims q c \<Longrightarrow> spec_run coexist_claims H (add_mset c H)"
  by (intro r_into_rtranclp spec_acquire) blast

lemma guards_appended_same:
  "upgrades_ok gs F \<Longrightarrow> F u = Some i \<Longrightarrow>
   g_offset ((gs @ gs') ! i) = g_offset (gs ! i) \<and> g_length ((gs @ gs') ! i) = g_length (gs ! i)"
  using not_busy_not_upgraded [of gs F u i] by (simp add: nth_append)

lemma blocked_call:
  assumes s: "sys_inv s" and t: "t < length (threads s)" "upgrading (threads s) t = None"
    and w: "wait_spec t c (lr s) (Blocked, l)" and c: "claim_ok c" "waiting (guards s) x = Some c" "upgrade_target x = None"
  shows "lock_follows s (s\<lparr>lr := l, threads := (threads s)[t := x]\<rparr>)"
proof -
  note inv = sys_invD [OF s]
  have l: "lr_inv l" "claims l = claims (lr s)" using w by (auto simp: wait_spec_def)
  have "wait_at (guards s) ((threads s)[t := x]) = (wait_of s)(t := Some c)"
    using wait_at_set [OF t(1), of "guards s" "guards s" x] c(2) by simp
  moreover have "waits_ok (set (waiters' l)) (set (cv' l)) ((wait_of s)(t := Some c))"
    by (rule waits_ok_blocked [OF inv(4) w c(1)])
  moreover have "upgrades_ok (guards s) ((upgrading (threads s))(t := None))" by (rule upgrades_ok_None [OF inv(5)])
  ultimately show ?thesis using inv l c(3) t(1) by (simp add: sys_inv_def held_def upgrading_update)
qed

lemma returned_call:
  assumes s: "sys_inv s" and t: "t < length (threads s)" "upgrading (threads s) t = None"
    and w: "wait_spec t (off, off + len, m) (lr s) (Returned st, l)" and c: "claim_ok (off, off + len, m)"
    and g: "g = (if st = kAcquired then Guard_new off len m else Guard_default)"
  shows "lock_follows s (s\<lparr>lr := l, guards := guards s @ [g], threads := (threads s)[t := Outside r]\<rparr>)"
proof -
  note inv = sys_invD [OF s]
  have l: "lr_inv l" "st = kAcquired \<and> claims l = add_mset (off, off + len, m) (claims (lr s)) \<and>
      (\<forall>q. q \<in># claims (lr s) \<longrightarrow> coexist_claims q (off, off + len, m)) \<or> st = kTimeout \<and> claims l = claims (lr s)"
    using w by (auto simp: wait_spec_def)
  have "wait_at (guards s @ [g]) ((threads s)[t := Outside r]) = (wait_of s)(t := None)"
    using wait_at_set [OF t(1), of "guards s @ [g]" "guards s" "Outside r"] guards_appended_same [OF inv(5)] by simp
  moreover have "waits_ok (set (waiters' l)) (set (cv' l)) ((wait_of s)(t := None))"
    by (rule waits_ok_returned [OF inv(4) w])
  moreover have "upgrades_ok (guards s @ [g]) ((upgrading (threads s))(t := None))"
    by (rule upgrades_ok_None [OF upgrades_ok_append [OF inv(5)]])
  moreover have "guard_ok g" using c g by (auto simp: guard_ok_def claim_ok_def Guard_new_def Guard_default_def)
  moreover have "held_by guard_claim [g] = (if st = kAcquired then {#(off, off + len, m)#} else {#})"
    using g by (simp add: guard_claim_def Guard_new_def Guard_default_def)
  ultimately show ?thesis using inv l t(1) add_follows [of "held s" "(off, off + len, m)"]
    by (auto simp: sys_inv_def held_def upgrading_update)
qed

lemma claim_ok_range: "claim_ok (off, off + len, m) \<Longrightarrow> 0 < len \<and> off + len < 2 ^ 64 \<and> sz_add off len = off + len"
  by (simp add: claim_ok_def sz_add_eq)

lemma ValidateRange_ok: "claim_ok (off, off + len, m) \<Longrightarrow> ValidateRange off len r = r"
proof -
  assume "claim_ok (off, off + len, m)"
  then have l: "0 < len" "off + len < 2 ^ 64" by (simp_all add: claim_ok_def)
  then have "sz_sub size_max len = size_max - len" by (intro sz_sub_eq) (simp_all add: size_max_def)
  moreover have "off \<le> size_max - len" using l(2) by (simp add: size_max_def)
  ultimately show ?thesis using l(1) by (simp add: ValidateRange_def)
qed

lemma Lock_return_ok:
  assumes s: "sys_inv s" and t: "t < length (threads s)" "upgrading (threads s) t = None"
    and w: "wait_spec t (off, off + len, m) (lr s) r" and c: "claim_ok (off, off + len, m)"
    and nt: "fst r \<noteq> Returned kTimeout"
  shows "\<exists>s'. Lock_return t off len m r s = Inr s' \<and> lock_follows s s'"
proof (cases "fst r")
  case Blocked
  then obtain l where r: "r = (Blocked, l)" by (cases r) simp
  show ?thesis using blocked_call [OF s t, of _ l "InLock off len m"] w c r by (simp add: Lock_return_def)
next
  case (Returned st)
  then obtain l where r: "r = (Returned st, l)" by (cases r) simp
  have "st = kAcquired" using w nt r by (auto simp: wait_spec_def)
  then show ?thesis using returned_call [OF s t, of off len m kAcquired l] w c r by (simp add: Lock_return_def)
qed

lemma TryLock_return_ok:
  assumes s: "sys_inv s" and t: "t < length (threads s)" "upgrading (threads s) t = None"
    and w: "wait_spec t (off, off + len, m) (lr s) r" and c: "claim_ok (off, off + len, m)"
  shows "\<exists>s'. TryLock_return t off len m r s = Inr s' \<and> lock_follows s s'"
proof (cases "fst r")
  case Blocked
  then obtain l where r: "r = (Blocked, l)" by (cases r) simp
  show ?thesis using blocked_call [OF s t, of _ l "InTryLockUntil off len m"] w c r by (simp add: TryLock_return_def)
next
  case (Returned st)
  then obtain l where r: "r = (Returned st, l)" by (cases r) simp
  then show ?thesis using returned_call [OF s t, of off len m st l] w c by (simp add: TryLock_return_def)
qed

lemma idle_facts:
  assumes "sys_inv s" "idle t s"
  shows "t < length (threads s)" "upgrading (threads s) t = None" "t \<notin> set (cv' (lr s))"
    "t \<notin> fst ` set (waiters' (lr s))"
proof -
  show t: "t < length (threads s)" using assms(2) by (simp add: idle_def)
  show "upgrading (threads s) t = None"
    using assms(2) by (cases "threads s ! t") (auto simp: idle_def wait_at_def upgrading_def)
  show "t \<notin> set (cv' (lr s))" "t \<notin> fst ` set (waiters' (lr s))"
    using waits_ok_None [OF sys_invD(4) [OF assms(1)], of t] assms(2) by (auto simp: idle_def)
qed

lemma call_wait_spec:
  assumes "sys_inv s" "idle t s" "claim_ok (off, off + len, m)" "ids_left s"
  shows "wait_spec t (off, off + len, m) (lr s) (WaitLoop t off (sz_add off len) m no_wait None (lr s))"
    and "fst (WaitLoop t off (sz_add off len) m no_wait None (lr s)) = Returned kTimeout \<Longrightarrow> no_wait"
  using WaitLoop_spec [OF sys_invD(1) [OF assms(1)] _ _ idle_facts(3,4) [OF assms(1,2)], of off "off + len"] assms(4)
    claim_ok_range [OF assms(3)] by (simp_all add: ids_left_def)

lemma Lock_ok:
  assumes "sys_inv s" "idle t s" "claim_ok (off, off + len, m)" "ids_left s"
  shows "\<exists>s'. Lock t off len m s = Inr s' \<and> lock_follows s s'"
  unfolding Lock_def ValidateRange_ok [OF assms(3)]
  by (rule Lock_return_ok [OF assms(1) idle_facts(1,2) [OF assms(1,2)] call_wait_spec(1) [OF assms] assms(3)])
    (use call_wait_spec(2) [OF assms] in blast)

lemma TryLockUntil_ok:
  assumes "sys_inv s" "idle t s" "claim_ok (off, off + len, m)" "ids_left s"
  shows "\<exists>s'. TryLockUntil t off len m s = Inr s' \<and> lock_follows s s'"
  unfolding TryLockUntil_def ValidateRange_ok [OF assms(3)]
  by (rule TryLock_return_ok [OF assms(1) idle_facts(1,2) [OF assms(1,2)] call_wait_spec(1) [OF assms] assms(3)])

lemma TryLock_ok:
  assumes "sys_inv s" "idle t s" "claim_ok (off, off + len, m)" "ids_left s"
  shows "\<exists>s'. TryLock t off len m s = Inr s' \<and> lock_follows s s'"
  unfolding TryLock_def ValidateRange_ok [OF assms(3)]
  by (rule TryLock_return_ok [OF assms(1) idle_facts(1,2) [OF assms(1,2)] call_wait_spec(1) [OF assms] assms(3)])

section \<open>Upgrades\<close>

lemma guard_set_same:
  "upgrades_ok gs F \<Longrightarrow> F u = Some j \<Longrightarrow> \<not> busy (gs ! i) \<Longrightarrow>
   g_offset (gs[i := g] ! j) = g_offset (gs ! j) \<and> g_length (gs[i := g] ! j) = g_length (gs ! j)"
  using not_busy_not_upgraded [of gs F u j] by (cases "i = j") auto

lemma wait_at_set_guard: "upgrades_ok gs (upgrading ts) \<Longrightarrow> \<not> busy (gs ! i) \<Longrightarrow> wait_at (gs[i := g]) ts = wait_at gs ts"
  by (intro wait_at_guards guard_set_same)

lemma guard_done_same:
  "upgrades_ok gs F \<Longrightarrow> F t = Some i \<Longrightarrow> u \<noteq> t \<Longrightarrow> F u = Some j \<Longrightarrow>
   g_offset (gs[i := g] ! j) = g_offset (gs ! j) \<and> g_length (gs[i := g] ! j) = g_length (gs ! j)"
  by (cases "i = j") (auto simp: upgrades_ok_def)

lemma guards_ok_set: "list_all guard_ok gs \<Longrightarrow> guard_ok g \<Longrightarrow> list_all guard_ok (gs[i := g])"
  using set_update_subset_insert [of gs i g] by (auto simp: list_all_iff)

text \<open>The end of an upgrade, at once or after a wait: \<open>H\<close> are the claims of the other guards.\<close>

lemma upgrade_returned:
  assumes i: "i < length gs" and g: "gs ! i = g" "owner' g" "guard_ok g"
    and H: "held_by guard_claim gs = (if busy g then H else add_mset (g_offset g, g_offset g + g_length g, g_mode g) H)"
  shows "held_by guard_claim (gs[i := UpgradeUntil_return st g]) =
      (if st = kAcquired then add_mset (g_offset g, g_offset g + g_length g, kExclusive) H else H)"
    and "list_all guard_ok gs \<Longrightarrow> list_all guard_ok (gs[i := UpgradeUntil_return st g])"
proof -
  let ?R = "held_by guard_claim (take i gs @ drop (Suc i) gs)"
  have "?R = H" using held_by_update(1) [OF i, of guard_claim] g H by (cases "busy g") (simp_all add: guard_claim_def)
  then show "held_by guard_claim (gs[i := UpgradeUntil_return st g]) =
      (if st = kAcquired then add_mset (g_offset g, g_offset g + g_length g, kExclusive) H else H)"
    using held_by_update(2) [OF i, of guard_claim "UpgradeUntil_return st g"] g
    by (simp add: UpgradeUntil_return_def guard_claim_def)
  show "list_all guard_ok gs \<Longrightarrow> list_all guard_ok (gs[i := UpgradeUntil_return st g])"
    using g(3) by (intro guards_ok_set) (simp_all add: UpgradeUntil_return_def guard_ok_def)
qed

lemma Upgrade_return_ok:
  fixes s i
  defines "g \<equiv> guards s ! i" and "c \<equiv> (g_offset (guards s ! i), g_offset (guards s ! i) + g_length (guards s ! i), kExclusive)"
  assumes s: "sys_inv s" and t: "t < length (threads s)" and i: "i < length (guards s)" "owner' g"
    and up: "if busy g then upgrading (threads s) t = Some i \<and> l0 = lr s
      else upgrading (threads s) t = None \<and> lr_inv l0 \<and> waits_ok (set (waiters' l0)) (set (cv' l0)) (wait_of s)"
    and cl: "held s = (if busy g then claims l0 else add_mset (g_offset g, g_offset g + g_length g, g_mode g) (claims l0))"
    and w: "wait_spec t c l0 r" and nt: "fst r = Returned kTimeout \<Longrightarrow> \<not> forever"
  shows "\<exists>s'. Upgrade_return t i forever r s = Inr s' \<and> sys_inv s' \<and>
    spec_run coexist_claims (claims l0) (held s')"
proof -
  note inv = sys_invD [OF s]
  have g: "guard_ok g" using inv(3) i by (simp add: g_def list_all_length)
  have c: "claim_ok c" using g i by (simp add: c_def g_def guard_ok_def claim_ok_def)
  have ws: "waits_ok (set (waiters' l0)) (set (cv' l0)) (wait_of s)" using up inv(4) by (auto split: if_splits)
  have same: "g_offset ((guards s)[i := h] ! j) = g_offset (guards s ! j) \<and> g_length ((guards s)[i := h] ! j) = g_length (guards s ! j)"
    if "u \<noteq> t" "upgrading (threads s) u = Some j" for u j h
    using guard_set_same [OF inv(5) that(2)] guard_done_same [OF inv(5) _ that] up by (auto simp: g_def split: if_splits)
  have ups: "upgrades_ok ((guards s)[i := h]) ((upgrading (threads s))(t := None))" for h
    using upgrades_ok_done [OF inv(5), of t i h] upgrades_ok_set [OF inv(5), of i h] upgrades_ok_None up
    by (auto simp: g_def split: if_splits)
  show ?thesis
  proof (cases "fst r")
    case (Returned st)
    then obtain l where r: "r = (Returned st, l)" by (cases r) simp
    let ?gs = "(guards s)[i := UpgradeUntil_return st g]"
    have l: "lr_inv l" "st = kAcquired \<and> claims l = add_mset c (claims l0) \<and> (\<forall>q. q \<in># claims l0 \<longrightarrow> coexist_claims q c)
        \<or> st = kTimeout \<and> claims l = claims l0" using w r by (auto simp: wait_spec_def)
    have H: "held_by guard_claim ?gs = claims l" and ok: "list_all guard_ok ?gs"
      using upgrade_returned [OF i(1) meta_eq_to_obj_eq [OF g_def, symmetric] i(2) g, of "claims l0" st] cl l(2) inv(3)
      by (auto simp: held_def c_def g_def)
    have "wait_at ?gs ((threads s)[t := Outside (Some st)]) = (wait_of s)(t := None)"
      using wait_at_set [OF t, of ?gs "guards s" "Outside (Some st)"] same by simp
    moreover have "waits_ok (set (waiters' l)) (set (cv' l)) ((wait_of s)(t := None))"
      using waits_ok_returned [OF ws] w r by blast
    ultimately have "sys_inv (s\<lparr>lr := l, guards := ?gs, threads := (threads s)[t := Outside (Some st)]\<rparr>)"
      using l(1) H ok ups t by (simp add: sys_inv_def held_def upgrading_update)
    moreover have "forever \<longrightarrow> st = kAcquired" using nt l(2) r by auto
    moreover have "spec_run coexist_claims (claims l0) (claims l)" using l(2) add_follows [of "claims l0" c] by auto
    ultimately show ?thesis using r H by (simp add: Upgrade_return_def g_def held_def)
  next
    case Blocked
    then obtain l where r: "r = (Blocked, l)" by (cases r) simp
    let ?gs = "(guards s)[i := g\<lparr>busy := True\<rparr>]"
    have l: "lr_inv l" "claims l = claims l0" using w r by (auto simp: wait_spec_def)
    have H: "held_by guard_claim ?gs = claims l0"
      using held_by_update [OF i(1), of guard_claim] cl i(2) by (auto simp: held_def guard_claim_def g_def split: if_splits)
    have ok: "list_all guard_ok ?gs" using inv(3) g by (intro guards_ok_set) (simp_all add: guard_ok_def)
    have "wait_at ?gs ((threads s)[t := InUpgrade i forever]) = (wait_of s)(t := Some c)"
      using wait_at_set [OF t, of ?gs "guards s" "InUpgrade i forever"] same i(1) by (simp add: c_def g_def)
    moreover have "waits_ok (set (waiters' l)) (set (cv' l)) ((wait_of s)(t := Some c))"
      using waits_ok_blocked [OF ws _ c] w r by blast
    moreover have "upgrades_ok ?gs ((upgrading (threads s))(t := Some i))"
    proof (cases "busy g")
      case True
      then have "g\<lparr>busy := True\<rparr> = g" by (cases g) simp
      then have "?gs = guards s" by (simp add: g_def)
      moreover have "(upgrading (threads s))(t := Some i) = upgrading (threads s)" using up True by auto
      ultimately show ?thesis using inv(5) by simp
    next
      case False
      then show ?thesis using upgrades_ok_Some [OF inv(5) i(1)] i(2) by (simp add: g_def)
    qed
    ultimately have "sys_inv (s\<lparr>lr := l, guards := ?gs, threads := (threads s)[t := InUpgrade i forever]\<rparr>)"
      using l H ok t by (simp add: sys_inv_def held_def upgrading_update)
    then show ?thesis using r H by (simp add: Upgrade_return_def g_def held_def)
  qed
qed

lemma upgrade_start:
  fixes i s
  defines "g \<equiv> guards s ! i"
  assumes s: "sys_inv s" and t: "idle t s" and i: "guard_free i s" "owner' (guards s ! i)"
    and m: "g_mode (guards s ! i) = kShared" and n: "ids_left s"
  shows "\<exists>l0 r. UpgradeUntil_start t (g_offset g) (g_length g) (lr s) = Inr r \<and> lr_inv l0 \<and>
    claims (lr s) = add_mset (g_offset g, g_offset g + g_length g, kShared) (claims l0) \<and>
    waiters' l0 = waiters' (lr s) \<and> cv' l0 = [] \<and>
    wait_spec t (g_offset g, g_offset g + g_length g, kExclusive) l0 r \<and> fst r \<noteq> Returned kTimeout"
proof -
  note inv = sys_invD [OF s] and ti = idle_facts [OF s t]
  let ?c = "(g_offset g, g_offset g + g_length g, kShared)"
  have il: "i < length (guards s)" "\<not> busy g" using i(1) by (auto simp: guard_free_def g_def)
  have g: "0 < g_length g" "g_offset g + g_length g < 2 ^ 64"
    using inv(3) il i(2) by (auto simp: list_all_length guard_ok_def g_def)
  have c: "?c \<in># claims (lr s)"
    using held_by_update(1) [OF il(1), of guard_claim] il(2) i(2) m inv(2) by (simp add: held_def guard_claim_def g_def)
  obtain l0 where l0: "DoRelease (g_offset g) (g_length g) kShared (lr s) = l0" "lr_inv l0"
      "claims (lr s) = add_mset ?c (claims l0)" "waiters' l0 = waiters' (lr s)" "cv' l0 = []" "next_id' l0 = next_id' (lr s)"
    using DoRelease_spec [OF inv(1) c g(2)] by blast
  let ?r = "WaitLoop t (g_offset g) (g_offset g + g_length g) kExclusive False None l0"
  have "UpgradeUntil_start t (g_offset g) (g_length g) (lr s) = Inr ?r"
    using UpgradeUntil_start_spec [OF inv(1) c g(2,1), of t] l0(1) by simp
  moreover have "wait_spec t (g_offset g, g_offset g + g_length g, kExclusive) l0 ?r" "fst ?r \<noteq> Returned kTimeout"
    using WaitLoop_spec [OF l0(2), of "g_offset g" "g_offset g + g_length g" t kExclusive False] l0(4,5,6) n ti g
    by (auto simp: ids_left_def)
  ultimately show ?thesis using l0(2-5) by blast
qed

lemma UpgradeUntil_ok:
  assumes s: "sys_inv s" and t: "idle t s" and i: "guard_free i s" "owner' (guards s ! i)"
    and m: "forever \<longrightarrow> g_mode (guards s ! i) = kShared" and n: "ids_left s"
  shows "\<exists>s'. UpgradeUntil t i forever s = Inr s' \<and> lock_follows s s'"
proof (cases "g_mode (guards s ! i)")
  case kExclusive
  note inv = sys_invD [OF s] and ti = idle_facts [OF s t]
  have "wait_at (guards s) ((threads s)[t := Outside (Some kInvalid)]) = wait_of s"
    using wait_at_set [OF ti(1), of "guards s" "guards s"] t by (auto simp: idle_def)
  then have "sys_inv (s\<lparr>threads := (threads s)[t := Outside (Some kInvalid)]\<rparr>)"
    using inv ti(1) upgrades_ok_None [OF inv(5)] by (simp add: sys_inv_def held_def upgrading_update)
  then show ?thesis using kExclusive m i(2) by (auto simp: UpgradeUntil_def held_def)
next
  case kShared
  note inv = sys_invD [OF s] and ti = idle_facts [OF s t]
  let ?g = "guards s ! i"
  let ?c = "(g_offset ?g, g_offset ?g + g_length ?g, kShared)"
  have il: "i < length (guards s)" "\<not> busy ?g" using i(1) by (auto simp: guard_free_def)
  obtain l0 r where l0: "UpgradeUntil_start t (g_offset ?g) (g_length ?g) (lr s) = Inr r" "lr_inv l0"
      "claims (lr s) = add_mset ?c (claims l0)" "waiters' l0 = waiters' (lr s)" "cv' l0 = []"
      "wait_spec t (g_offset ?g, g_offset ?g + g_length ?g, kExclusive) l0 r" "fst r \<noteq> Returned kTimeout"
    using upgrade_start [OF s t i kShared n] by (elim exE conjE) (rule that, assumption+)
  have "waits_ok (set (waiters' l0)) (set (cv' l0)) (wait_of s)" using waits_ok_awake [OF inv(4)] l0(4,5) by simp
  then obtain s' where s': "Upgrade_return t i forever r s = Inr s'" "sys_inv s'"
      "spec_run coexist_claims (claims l0) (held s')"
    using Upgrade_return_ok [OF s ti(1) il(1) i(2) _ _ l0(6), of forever] il(2) ti(2) l0(2,3,7) inv(2) kShared by auto
  have "spec_step coexist_claims (held s) (claims l0)"
    using inv(2) l0(3) spec_release [of coexist_claims ?c "claims l0"] by simp
  then have "spec_run coexist_claims (held s) (held s')" using s'(3) by (rule converse_rtranclp_into_rtranclp)
  then show ?thesis using s' l0(1) kShared i(2) by (simp add: UpgradeUntil_def)
qed

section \<open>Blocked threads go on\<close>

lemma waiting_facts:
  assumes "sys_inv s" "wait_of s t = Some c"
  shows "t < length (threads s)" "registered t c (set (waiters' (lr s)))" "claim_ok c"
    "waiting (guards s) (threads s ! t) = Some c"
  using assms waits_ok_Some [OF sys_invD(4) [OF assms(1)] assms(2)] by (auto simp: wait_at_def split: if_splits)

lemma resume_wait_spec:
  assumes "sys_inv s" "wait_of s t = Some (off, en, m)" "ids_left s"
  shows "wait_spec t (off, en, m) (lr s) (WaitLoop_resume t off en m forever timed_out None (lr s))"
    and "fst (WaitLoop_resume t off en m forever timed_out None (lr s)) = Returned kTimeout \<Longrightarrow> \<not> forever \<and> timed_out"
    and "CanGrant off en m None (lr s) \<Longrightarrow>
      fst (WaitLoop_resume t off en m forever timed_out None (lr s)) = Returned kAcquired"
  using WaitLoop_resume_spec [OF sys_invD(1) [OF assms(1)], of off en t m forever timed_out] assms(3)
    waiting_facts [OF assms(1,2)] by (simp_all add: ids_left_def claim_ok_def)

lemma resume_ok:
  assumes s: "sys_inv s" and c: "wait_of s t \<noteq> None" and n: "ids_left s"
  shows "\<exists>s'. resume t timed_out s = Inr s' \<and> lock_follows s s'"
proof -
  obtain off en m where c: "wait_of s t = Some (off, en, m)" using assms(2) by auto
  note w = waiting_facts [OF s c] and r = resume_wait_spec [OF s c n]
  show ?thesis
  proof (cases "threads s ! t")
    case (InLock off' len m')
    then have eq: "off' = off" "m' = m" "off + len = en" using w(4) by auto
    have "upgrading (threads s) t = None" "sz_add off len = en"
      using InLock eq claim_ok_range w(3) by (auto simp: upgrading_def)
    then show ?thesis
      using Lock_return_ok [OF s w(1), of off len m "WaitLoop_resume t off en m True timed_out None (lr s)"] r(1,2) w(3) InLock eq
      by (simp add: resume_def) blast
  next
    case (InTryLockUntil off' len m')
    then have eq: "off' = off" "m' = m" "off + len = en" using w(4) by auto
    have "upgrading (threads s) t = None" "sz_add off len = en"
      using InTryLockUntil eq claim_ok_range w(3) by (auto simp: upgrading_def)
    then show ?thesis
      using TryLock_return_ok [OF s w(1), of off len m "WaitLoop_resume t off en m False timed_out None (lr s)"]
        r(1) w(3) InTryLockUntil eq by (simp add: resume_def)
  next
    case (InUpgrade i forever)
    note inv = sys_invD [OF s]
    let ?g = "guards s ! i"
    have up: "upgrading (threads s) t = Some i" using w(1) InUpgrade by (simp add: upgrading_def)
    then have i: "i < length (guards s)" "owner' ?g" "busy ?g" using inv(5) by (auto simp: upgrades_ok_def)
    have eq: "off = g_offset ?g" "en = g_offset ?g + g_length ?g" "m = kExclusive" using w(4) InUpgrade by auto
    then have sz: "sz_add (g_offset ?g) (g_length ?g) = en" using claim_ok_range w(3) by auto
    let ?r = "WaitLoop_resume t off en m forever timed_out None (lr s)"
    have ws: "wait_spec t (g_offset ?g, g_offset ?g + g_length ?g, kExclusive) (lr s) ?r" using r(1) eq by simp
    have nt: "fst ?r = Returned kTimeout \<Longrightarrow> \<not> forever" using r(2) by blast
    have "\<exists>s'. Upgrade_return t i forever ?r s = Inr s' \<and> sys_inv s' \<and> spec_run coexist_claims (claims (lr s)) (held s')"
      using i(3) up inv(2) by (intro Upgrade_return_ok [OF s w(1) i(1,2) _ _ ws nt]) simp_all
    then show ?thesis using InUpgrade eq sz inv(2) by (simp add: resume_def Let_def)
  qed (use w(4) in simp)
qed

section \<open>Guards\<close>

lemma free_guard_claim:
  assumes "sys_inv s" "guard_free i s" "owner' (guards s ! i)"
  shows "(g_offset (guards s ! i), g_offset (guards s ! i) + g_length (guards s ! i), g_mode (guards s ! i)) \<in># claims (lr s)"
    and "g_offset (guards s ! i) + g_length (guards s ! i) < 2 ^ 64"
  using assms held_by_update(1) [of i "guards s" guard_claim] sys_invD(2,3) [OF assms(1)]
  by (auto simp: guard_free_def held_def guard_claim_def list_all_length guard_ok_def)

lemma set_guard_inv:
  assumes s: "sys_inv s" and i: "guard_free i s" and l: "lr_inv l" "set (cv' l) \<subseteq> set (cv' (lr s))" "waiters' l = waiters' (lr s)"
    "guard_ok g" "claims l = held_by guard_claim ((guards s)[i := g])"
  shows "sys_inv (s\<lparr>lr := l, guards := (guards s)[i := g]\<rparr>)"
proof -
  note inv = sys_invD [OF s]
  have nb: "\<not> busy (guards s ! i)" using i by (simp add: guard_free_def)
  have "wait_at ((guards s)[i := g]) (threads s) = wait_of s"
    using guard_set_same [OF inv(5) _ nb] by (intro wait_at_guards) blast
  moreover have "waits_ok (set (waiters' l)) (set (cv' l)) (wait_of s)" using waits_ok_awake [OF inv(4) l(2)] l(3) by simp
  ultimately show ?thesis
    using l(1,4,5) upgrades_ok_set [OF inv(5) nb] guards_ok_set [OF inv(3)] by (simp add: sys_inv_def held_def)
qed

lemma Guard_Release_ok:
  assumes s: "sys_inv s" and i: "guard_free i s" and r: "Guard_Release (guards s ! i) (lr s) = (g, l)"
  shows "lock_follows s (s\<lparr>lr := l, guards := (guards s)[i := g]\<rparr>)" "\<not> owner' g" "g = (guards s ! i)\<lparr>owner' := False\<rparr>"
proof -
  note inv = sys_invD [OF s]
  have il: "i < length (guards s)" "\<not> busy (guards s ! i)" using i by (auto simp: guard_free_def)
  show g: "g = (guards s ! i)\<lparr>owner' := False\<rparr>" using r by (auto simp: Guard_Release_def split: if_splits)
  then show "\<not> owner' g" by simp
  let ?c = "(g_offset (guards s ! i), g_offset (guards s ! i) + g_length (guards s ! i), g_mode (guards s ! i))"
  show "lock_follows s (s\<lparr>lr := l, guards := (guards s)[i := g]\<rparr>)"
  proof (cases "owner' (guards s ! i)")
    case True
    obtain l' where l': "DoRelease (g_offset (guards s ! i)) (g_length (guards s ! i)) (g_mode (guards s ! i)) (lr s) = l'"
        "lr_inv l'" "claims (lr s) = add_mset ?c (claims l')" "waiters' l' = waiters' (lr s)" "cv' l' = []"
      using DoRelease_spec [OF inv(1) free_guard_claim [OF s i True]] by blast
    have ll: "l = l'" using r True l'(1) by (simp add: Guard_Release_def)
    have "held s = add_mset ?c (held_by guard_claim ((guards s)[i := g]))"
      unfolding held_def by (rule held_by_set_None [OF il(1)]) (use g True il(2) in \<open>simp_all add: guard_claim_def\<close>)
    then have cl: "claims l = held_by guard_claim ((guards s)[i := g])" using l'(3) inv(2) ll by simp
    have "sys_inv (s\<lparr>lr := l, guards := (guards s)[i := g]\<rparr>)"
      using l' ll cl g by (intro set_guard_inv [OF s i]) (simp_all add: guard_ok_def)
    moreover have "spec_step coexist_claims (held s) (claims l)"
      using inv(2) l'(3) ll spec_release [of coexist_claims ?c "claims l'"] by simp
    ultimately show ?thesis using cl by (auto simp: held_def)
  next
    case False
    then have "g = guards s ! i" "l = lr s" using r by (simp_all add: Guard_Release_def)
    then show ?thesis using s by simp
  qed
qed

text \<open>A guard is moved to a new place or over a guard that has been released.\<close>

lemma Guard_move_ok:
  assumes s: "sys_inv s" and i: "guard_free i s"
  shows "lock_follows s (s\<lparr>guards := (guards s)[i := (guards s ! i)\<lparr>owner' := False\<rparr>] @ [guards s ! i]\<rparr>)"
proof -
  note inv = sys_invD [OF s]
  let ?gs = "(guards s)[i := (guards s ! i)\<lparr>owner' := False\<rparr>]"
  have il: "i < length (guards s)" "\<not> busy (guards s ! i)" using i by (auto simp: guard_free_def)
  have ups: "upgrades_ok ?gs (upgrading (threads s))" by (rule upgrades_ok_set [OF inv(5) il(2)])
  have "held_by guard_claim (?gs @ [guards s ! i]) = held s"
    using held_by_update [OF il(1), of guard_claim] by (simp add: held_def guard_claim_def ac_simps)
  moreover have "wait_at (?gs @ [guards s ! i]) (threads s) = wait_of s"
    using guards_appended_same [OF ups] guard_set_same [OF inv(5) _ il(2)] by (intro wait_at_guards) metis
  moreover have "list_all guard_ok ?gs" using inv(3) by (rule guards_ok_set) (simp add: guard_ok_def)
  moreover have "guard_ok (guards s ! i)" using inv(3) il(1) by (simp add: list_all_length)
  ultimately show ?thesis using inv upgrades_ok_append [OF ups] by (simp add: sys_inv_def held_def)
qed

lemma Guard_move_assign_ok:
  assumes s: "sys_inv s" and i: "guard_free i s" and j: "guard_free j s" "i \<noteq> j"
    and r: "Guard_move_assign (guards s ! i) (guards s ! j) (lr s) = (g, g', l)"
  shows "lock_follows s (s\<lparr>lr := l, guards := (guards s)[i := g, j := g']\<rparr>)"
proof -
  obtain h where h: "Guard_Release (guards s ! i) (lr s) = (h, l)"
      and g: "g = h\<lparr>owner' := owner' (guards s ! j), g_offset := g_offset (guards s ! j),
        g_length := g_length (guards s ! j), g_mode := g_mode (guards s ! j)\<rparr>" "g' = (guards s ! j)\<lparr>owner' := False\<rparr>"
    using r by (auto simp: Guard_move_assign_def split: prod.splits)
  let ?s = "s\<lparr>lr := l, guards := (guards s)[i := h]\<rparr>"
  note rel = Guard_Release_ok [OF s i h]
  have s1: "sys_inv ?s" using rel(1) by simp
  note inv = sys_invD [OF s1]
  have il: "i < length (guards s)" "\<not> busy (guards s ! i)" "j < length (guards s)" "\<not> busy (guards s ! j)"
    using i j by (auto simp: guard_free_def)
  have nb: "\<not> busy h" "\<not> busy g" "\<not> owner' h" using rel(2,3) il g by simp_all
  have eq: "(guards s)[i := g, j := g'] = (guards ?s)[j := g', i := g]"
    using j(2) by (simp add: list_update_swap)
  have fj: "guard_free j ?s" using il j(2) by (simp add: guard_free_def)
  have fi: "guard_free i (?s\<lparr>guards := (guards ?s)[j := g']\<rparr>)" using il nb j(2) by (simp add: guard_free_def)
  have gj: "guard_claim g = guard_claim (guards s ! j)" using nb(2) il(4) g by (simp add: guard_claim_def)
  have H: "held_by guard_claim ((guards ?s)[j := g', i := g]) = held ?s"
  proof (cases "guard_claim (guards s ! j)")
    case None
    have "held_by guard_claim ((guards ?s)[j := g', i := g]) = held_by guard_claim ((guards ?s)[j := g'])"
      using il j(2) nb None gj by (intro held_by_same) (simp_all add: guard_claim_def)
    also have "\<dots> = held ?s" unfolding held_def using il j(2) None g(2) by (intro held_by_same) (simp_all add: guard_claim_def)
    finally show ?thesis .
  next
    case (Some c)
    have "held_by guard_claim ((guards ?s)[j := g', i := g]) = add_mset c (held_by guard_claim ((guards ?s)[j := g']))"
      using il j(2) nb Some gj by (intro held_by_set_Some) (simp_all add: guard_claim_def)
    also have "\<dots> = held ?s" unfolding held_def
      using il j(2) Some g(2) by (intro held_by_set_None [symmetric]) (simp_all add: guard_claim_def)
    finally show ?thesis .
  qed
  have nj: "\<not> busy (guards ?s ! j)" "\<not> busy ((guards ?s)[j := g'] ! i)" using fi fj by (simp_all add: guard_free_def)
  have u0: "upgrades_ok (guards ?s) (upgrading (threads s))" using inv(5) by simp
  note u1 = upgrades_ok_set [OF u0 nj(1)] and u2 = upgrades_ok_set [OF upgrades_ok_set [OF u0 nj(1)] nj(2)]
  have same: "wait_at ((guards ?s)[j := g', i := g]) (threads s) = wait_at (guards ?s) (threads s)"
    using wait_at_set_guard [OF u0 nj(1)] wait_at_set_guard [OF u1 nj(2)] by simp
  have gok: "guard_ok g" "guard_ok g'" using sys_invD(3) [OF s] il(3) g by (simp_all add: list_all_length guard_ok_def)
  have ok: "list_all guard_ok ((guards ?s)[j := g', i := g])" by (intro guards_ok_set inv(3) gok)
  have "sys_inv (s\<lparr>lr := l, guards := (guards ?s)[j := g', i := g]\<rparr>)"
    using inv H same u2 ok by (simp add: sys_inv_def held_def)
  moreover have "held (s\<lparr>lr := l, guards := (guards ?s)[j := g', i := g]\<rparr>) = held ?s" using H by (simp add: held_def)
  ultimately show ?thesis using rel(1) eq by simp
qed

section \<open>The contract\<close>

lemma lock_step_ok:
  assumes "sys_inv s" "lock_ready e s"
  shows "\<exists>s'. lock_step e s = Inr s' \<and> lock_follows s s'"
proof (cases e)
  case (ERelease i)
  then show ?thesis using assms Guard_Release_ok(1) [of s i] by (cases "Guard_Release (guards s ! i) (lr s)") auto
next
  case (EMoveAssign i j)
  then show ?thesis using assms Guard_move_assign_ok [of s i j]
    by (cases "Guard_move_assign (guards s ! i) (guards s ! j) (lr s)") auto
qed (use assms in \<open>simp_all add: Lock_ok TryLockUntil_ok TryLock_ok UpgradeUntil_ok resume_ok Guard_move_def Guard_move_ok\<close>)

interpretation range_lock: lock_contract sys_inv lock_step lock_ready held coexist_claims
  by unfold_locales (use lock_step_ok coexist_sym in blast)+

section \<open>Wake-ups\<close>

text \<open>Whoever sleeps and has not been notified has a claim that cannot be granted.\<close>

definition awake :: "lock_range \<Rightarrow> bool" where
  "awake s \<longleftrightarrow> (\<forall>(u, w) \<in> set (waiters' s). u \<in> set (cv' s) \<longrightarrow> blocked (set (waiters' s)) (claims s) (waiter_claim w))"

lemma awakeI: "(\<And>u w. (u, w) \<in> set (waiters' s) \<Longrightarrow> u \<in> set (cv' s) \<Longrightarrow> blocked (set (waiters' s)) (claims s) (waiter_claim w)) \<Longrightarrow> awake s"
  by (auto simp: awake_def)

lemma awake_nobody: "cv' s = [] \<Longrightarrow> awake s"
  by (simp add: awake_def)

lemma waiter_claim_inj: "waiter_claim w = waiter_claim w' \<Longrightarrow> w = w'"
  by (cases w; cases w') (simp add: waiter_claim_def)

lemma blocked_without_shared:
  assumes "blocked W C c" "\<And>x. x \<in> W \<Longrightarrow> x \<notin> W' \<Longrightarrow> snd (snd (waiter_claim (snd x))) = kShared"
  shows "blocked W' C c"
proof -
  have "coexist_claims d c" if "snd (snd d) = kShared" "snd (snd c) = kShared" for d
    using that by (cases c; cases d) auto
  with assms show ?thesis unfolding blocked_def by metis
qed

lemma wait_spec_blocks:
  assumes w: "wait_spec t c s r" and own: "\<And>w. (t, w) \<in> set (waiters' s) \<Longrightarrow> waiter_claim w = c"
    and timeout: "fst r = Returned kTimeout \<Longrightarrow> snd (snd c) = kShared \<or> (\<forall>w. (t, w) \<notin> set (waiters' s))"
    and b: "blocked (set (waiters' s)) (claims s) d"
  shows "blocked (set (waiters' (snd r))) (claims (snd r)) d"
proof (cases "fst r")
  case Blocked
  then have cl: "claims (snd r) = claims s" and reg: "registered t c (set (waiters' (snd r)))"
    and others: "{x \<in> set (waiters' (snd r)). fst x \<noteq> t} = {x \<in> set (waiters' s). fst x \<noteq> t}"
    using w by (auto simp: wait_spec_def)
  obtain v where v: "waiter_claim v = c" "(t, v) \<in> set (waiters' (snd r))" using reg by (auto simp: registered_def)
  have "set (waiters' s) \<subseteq> set (waiters' (snd r))"
  proof
    fix x assume x: "x \<in> set (waiters' s)"
    show "x \<in> set (waiters' (snd r))"
    proof (cases "fst x = t")
      case True
      then have "waiter_claim (snd x) = waiter_claim v" using own v(1) x by (cases x) auto
      then have "x = (t, v)" using waiter_claim_inj True by (cases x) auto
      then show ?thesis using v(2) by simp
    qed (use x others in blast)
  qed
  then show ?thesis using blocked_mono [OF b] cl by simp
next
  case (Returned st)
  then have ws: "set (waiters' (snd r)) = {x \<in> set (waiters' s). fst x \<noteq> t}"
    and st: "st = kAcquired \<and> claims (snd r) = add_mset c (claims s) \<or> st = kTimeout \<and> claims (snd r) = claims s"
    using w by (auto simp: wait_spec_def)
  have gone: "waiter_claim (snd x) = c \<and> (t, snd x) \<in> set (waiters' s)"
    if "x \<in> set (waiters' s)" "x \<notin> set (waiters' (snd r))" for x
    using that own ws by (cases x) auto
  from st show ?thesis
  proof (elim disjE conjE)
    assume "claims (snd r) = add_mset c (claims s)"
    then show ?thesis using blocked_granted [OF b, of "set (waiters' (snd r))" c] gone by auto
  next
    assume "st = kTimeout" "claims (snd r) = claims s"
    moreover have "snd (snd (waiter_claim (snd x))) = kShared"
      if "x \<in> set (waiters' s)" "x \<notin> set (waiters' (snd r))" for x
      using timeout Returned calculation(1) gone [OF that] by auto
    ultimately show ?thesis using blocked_without_shared [OF b] by auto
  qed
qed

lemma awake_wait:
  assumes a: "awake s" and w: "wait_spec t c s r" and own: "\<And>w. (t, w) \<in> set (waiters' s) \<Longrightarrow> waiter_claim w = c"
    and timeout: "fst r = Returned kTimeout \<Longrightarrow> snd (snd c) = kShared \<or> (\<forall>w. (t, w) \<notin> set (waiters' s))"
  shows "awake (snd r)"
proof (rule awakeI)
  fix u v assume u: "(u, v) \<in> set (waiters' (snd r))" "u \<in> set (cv' (snd r))"
  show "blocked (set (waiters' (snd r))) (claims (snd r)) (waiter_claim v)"
  proof (cases "u = t")
    case True
    then have "fst r = Blocked" using w u by (cases "fst r") (auto simp: wait_spec_def)
    moreover from this have "waiter_claim v = c" using w u True by (auto simp: wait_spec_def registered_def)
    ultimately show ?thesis using w by (auto simp: wait_spec_def)
  next
    case False
    then have "(u, v) \<in> {x \<in> set (waiters' (snd r)). fst x \<noteq> t}" using u by simp
    also have "\<dots> = {x \<in> set (waiters' s). fst x \<noteq> t}" using w by (cases "fst r") (auto simp: wait_spec_def)
    finally have "(u, v) \<in> set (waiters' s)" by simp
    moreover have "u \<in> set (cv' s)" using w u(2) False by (cases "fst r") (auto simp: wait_spec_def)
    ultimately have "blocked (set (waiters' s)) (claims s) (waiter_claim v)" using a by (auto simp: awake_def)
    then show ?thesis using wait_spec_blocks [OF w own timeout] by blast
  qed
qed

text \<open>A deadline that passes while an exclusive request waits is the one step that can leave a sleeper behind.\<close>

fun patient :: "lock_event \<Rightarrow> lock_sys \<Rightarrow> bool" where
  "patient (ETimeout t) s \<longleftrightarrow> wait_of s t \<in> {Some (off, en, kShared) | off en. True}"
| "patient _ s \<longleftrightarrow> True"

definition patient_ready :: "lock_event \<Rightarrow> lock_sys \<Rightarrow> bool" where
  "patient_ready e s \<longleftrightarrow> lock_ready e s \<and> patient e s"

lemma returns_lr:
  "Lock_return t off len m r s = Inr s' \<Longrightarrow> lr s' = snd r"
  "TryLock_return t off len m r s = Inr s' \<Longrightarrow> lr s' = snd r"
  "Upgrade_return t i forever r s = Inr s' \<Longrightarrow> lr s' = snd r"
  by (auto simp: Lock_return_def TryLock_return_def Upgrade_return_def check_eq_Inr split: prod.splits wait_outcome.splits)

lemma call_awake:
  assumes s: "sys_inv s" "awake (lr s)" and r: "idle t s" "claim_ok (off, off + len, m)" "ids_left s"
  shows "awake (snd (WaitLoop t off (sz_add off len) m no_wait None (lr s)))"
proof -
  have "(t, w) \<notin> set (waiters' (lr s))" for w using idle_facts(4) [OF s(1) r(1)] by force
  then show ?thesis by (intro awake_wait [OF s(2) call_wait_spec(1) [OF s(1) r]]) auto
qed

lemma resume_awake:
  assumes s: "sys_inv s" "awake (lr s)" and c: "wait_of s t = Some (off, en, m)" and n: "ids_left s"
    and p: "timed_out \<Longrightarrow> m = kShared"
  shows "awake (snd (WaitLoop_resume t off en m forever timed_out None (lr s)))"
  by (rule awake_wait [OF s(2) resume_wait_spec(1) [OF s(1) c n]])
    (use waiting_facts(2) [OF s(1) c] resume_wait_spec(2) [OF s(1) c n] p in \<open>auto simp: registered_def\<close>)

lemma resume_step_awake:
  assumes s: "sys_inv s" "awake (lr s)" and c: "wait_of s t = Some (off, en, m)" and n: "ids_left s"
    and p: "timed_out \<Longrightarrow> m = kShared" and r: "resume t timed_out s = Inr s'"
  shows "awake (lr s')"
proof -
  note w = waiting_facts [OF s(1) c]
  have sz: "sz_add a b = en" if "a + b = en" for a b using that w(3) by (simp add: claim_ok_def sz_add_eq)
  have "\<exists>forever. lr s' = snd (WaitLoop_resume t off en m forever timed_out None (lr s))"
    using r w(4) sz by (cases "threads s ! t") (auto simp: resume_def Let_def dest!: returns_lr)
  then show ?thesis using resume_awake [OF s c n p] by auto
qed

lemma Guard_Release_awake:
  assumes s: "sys_inv s" "awake (lr s)" and free: "guard_free i s" and r: "Guard_Release (guards s ! i) (lr s) = (g, l)"
  shows "awake l"
proof (cases "owner' (guards s ! i)")
  case True
  then show ?thesis using r DoRelease_spec [OF sys_invD(1) [OF s(1)] free_guard_claim [OF s(1) free True]] awake_nobody
    by (auto simp: Guard_Release_def)
qed (use r s in \<open>simp add: Guard_Release_def\<close>)

lemma lock_step_awake:
  assumes s: "sys_inv s" "awake (lr s)" and e: "patient_ready e s" and s': "lock_step e s = Inr s'"
  shows "awake (lr s')"
proof (cases e)
  case (ELock t off len m)
  then have r: "idle t s" "claim_ok (off, off + len, m)" "ids_left s" using e by (auto simp: patient_ready_def)
  have "lr s' = snd (WaitLoop t off (sz_add off len) m False None (lr s))"
    using s' ELock by (auto simp: Lock_def ValidateRange_ok [OF r(2)] dest: returns_lr)
  then show ?thesis using call_awake [OF s r] by simp
next
  case (ETryLockUntil t off len m)
  then have r: "idle t s" "claim_ok (off, off + len, m)" "ids_left s" using e by (auto simp: patient_ready_def)
  have "lr s' = snd (WaitLoop t off (sz_add off len) m False None (lr s))"
    using s' ETryLockUntil by (auto simp: TryLockUntil_def ValidateRange_ok [OF r(2)] dest: returns_lr)
  then show ?thesis using call_awake [OF s r] by simp
next
  case (ETryLock t off len m)
  then have r: "idle t s" "claim_ok (off, off + len, m)" "ids_left s" using e by (auto simp: patient_ready_def)
  have "lr s' = snd (WaitLoop t off (sz_add off len) m True None (lr s))"
    using s' ETryLock by (auto simp: TryLock_def ValidateRange_ok [OF r(2)] dest: returns_lr)
  then show ?thesis using call_awake [OF s r] by simp
next
  case (EResume t)
  then obtain off en m where c: "wait_of s t = Some (off, en, m)" "ids_left s"
    using e by (auto simp: patient_ready_def)
  show ?thesis using resume_step_awake [OF s c, of False s'] s' EResume by simp
next
  case (ETimeout t)
  then obtain off en where c: "wait_of s t = Some (off, en, kShared)" "ids_left s"
    using e by (auto simp: patient_ready_def)
  show ?thesis using resume_step_awake [OF s c, of True s'] s' ETimeout by simp
next
  case (ERelease i)
  then show ?thesis using e s' Guard_Release_awake [OF s, of i] by (auto simp: patient_ready_def split: prod.splits)
next
  case (EMove i)
  then show ?thesis using s' s by (auto simp: Guard_move_def)
next
  case (EMoveAssign i j)
  then show ?thesis using e s s' Guard_Release_awake [OF s, of i]
    by (auto simp: patient_ready_def Guard_move_assign_def split: prod.splits if_splits)
next
  case (EUpgrade t i forever)
  let ?g = "guards s ! i"
  have r: "idle t s" "guard_free i s" "owner' ?g" "ids_left s" using e EUpgrade by (auto simp: patient_ready_def)
  show ?thesis
  proof (cases "g_mode ?g")
    case kExclusive
    then show ?thesis using s' EUpgrade s(2) by (auto simp: UpgradeUntil_def check_eq_Inr)
  next
    case kShared
    obtain l0 r where l0: "UpgradeUntil_start t (g_offset ?g) (g_length ?g) (lr s) = Inr r"
        "waiters' l0 = waiters' (lr s)" "cv' l0 = []"
        "wait_spec t (g_offset ?g, g_offset ?g + g_length ?g, kExclusive) l0 r" "fst r \<noteq> Returned kTimeout"
      using upgrade_start [OF s(1) r(1-3) kShared r(4)] by (elim exE conjE) (rule that, assumption+)
    have "(t, w) \<notin> set (waiters' l0)" for w using idle_facts(4) [OF s(1) r(1)] l0(2) by force
    then have "awake (snd r)" using l0(5) by (intro awake_wait [OF awake_nobody [OF l0(3)] l0(4)]) auto
    moreover have "lr s' = snd r" using s' EUpgrade kShared l0(1) r(3) by (auto simp: UpgradeUntil_def dest: returns_lr)
    ultimately show ?thesis by simp
  qed
qed

interpretation patient_lock: lock_contract "\<lambda>s. sys_inv s \<and> awake (lr s)" lock_step patient_ready held coexist_claims
proof
  fix s e
  assume s: "sys_inv s \<and> awake (lr s)" and e: "patient_ready e s"
  obtain s' where s': "lock_step e s = Inr s'" "lock_follows s s'" using lock_step_ok [of s e] s e by (auto simp: patient_ready_def)
  moreover have "awake (lr s')" using lock_step_awake [OF _ _ e s'(1)] s by simp
  ultimately show "\<exists>s'. lock_step e s = Inr s' \<and> (sys_inv s' \<and> awake (lr s')) \<and> spec_run coexist_claims (held s) (held s')"
    by blast
qed (rule coexist_sym)

end
