(* ===== verification/Lock_Range_Props.thy ===== *)
theory Lock_Range_Props
  imports Lock_Range_Sys
begin

text \<open>
  What \<open>LockRange\<close> promises to its users, for every interleaving of any number of threads: \<open>steps_to\<close> ranges over all
  states that atomic steps lead to. The runs of the witnesses have two or three threads that contend for bytes 0 to 9.
\<close>

section \<open>Runs for the witnesses\<close>

text \<open>A writer holds the range, a reader waits for it, the writer releases.\<close>

definition handover :: "lock_event list" where
  "handover = [ELock 0 0 10 kExclusive, ELock 1 0 10 kShared, ERelease 0]"

text \<open>Two readers share a range while a third thread reads elsewhere.\<close>

definition readers :: "lock_event list" where
  "readers = [ELock 0 0 10 kShared, ETryLock 1 5 10 kShared, EUpgrade 0 0 False]"

text \<open>A reader holds the range, a writer with a deadline and then a second reader wait, the writer gives up.\<close>

definition impatient_writer :: "lock_event list" where
  "impatient_writer = [ELock 0 0 10 kShared, ETryLockUntil 1 0 10 kExclusive, ELock 2 0 10 kShared, ETimeout 1]"

lemmas lock_run_simps = lock_sys_init_def LockRange_init_def Lock_def TryLock_def TryLockUntil_def ValidateRange_def
  Lock_return_def TryLock_return_def WaitLoop_def WaitLoop_test_def WaitLoop_resume_def WaitLoop_leave_def unregister_def
  CanGrant_def HasConflict_def ExclusiveWaiterExists_def Overlaps_def InsertEntry_def sz_add_def sz_sub_def size_max_def
  Guard_new_def Guard_default_def Guard_Release_def DoRelease_def notify_all_def idle_def wait_at_def claim_ok_def
  ids_left_def guard_free_def resume_def UpgradeUntil_def UpgradeUntil_start_def Upgrade_return_def
  UpgradeUntil_return_def Let_def

definition handover_end :: lock_sys where
  "handover_end = \<lparr>lr = \<lparr>next_id' = 1, entries' = [], waiters' = [(1, \<lparr>w_offset = 0, w_end = 10, w_mode = kShared\<rparr>)], cv' = []\<rparr>,
     guards = [\<lparr>owner' = False, g_offset = 0, g_length = 10, g_mode = kExclusive, busy = False\<rparr>],
     threads = [Outside None, InLock 0 10 kShared]\<rparr>"

lemma handover_run: "run_events lock_step patient_ready handover (lock_sys_init (Suc (Suc 0))) = Some handover_end"
  by (simp add: handover_def handover_end_def lock_run_simps patient_ready_def)

definition readers_end :: lock_sys where
  "readers_end = \<lparr>lr = \<lparr>next_id' = 2,
       entries' = [(EntryKey 5 1, \<lparr>e_offset = 5, e_end = 15, e_mode = kShared, share_count = 1\<rparr>)],
       waiters' = [(0, \<lparr>w_offset = 0, w_end = 10, w_mode = kExclusive\<rparr>)], cv' = [0]\<rparr>,
     guards = [\<lparr>owner' = True, g_offset = 0, g_length = 10, g_mode = kShared, busy = True\<rparr>,
       \<lparr>owner' = True, g_offset = 5, g_length = 10, g_mode = kShared, busy = False\<rparr>],
     threads = [InUpgrade 0 False, Outside (Some kAcquired)]\<rparr>"

lemma readers_run: "run_events lock_step lock_ready readers (lock_sys_init (Suc (Suc 0))) = Some readers_end"
  by (simp add: readers_def readers_end_def lock_run_simps less_entry_key_def EntryKey_less_def)

section \<open>Safety\<close>

text \<open>C1. Mutual exclusion of \<open>LockRange\<close>: in every state that any interleaving of calls, wake-ups, timeouts, upgrades,
  moves and releases of any number of threads leads to, every step that is called correctly (\<open>lock_ready\<close>) succeeds, that is, no
  \<open>CHECK\<close> fails and nothing is undefined; and two different valid guards whose ranges overlap are both shared. A guard inside
  \<open>UpgradeUntil\<close> is not counted: it has given its shared lock back and holds nothing until the call returns.\<close>

theorem range_locks_exclude:
  assumes s: "steps_to lock_step lock_ready (lock_sys_init n) s"
  shows "(\<forall>e. lock_ready e s \<longrightarrow> (\<exists>s'. lock_step e s = Inr s')) \<and>
    (\<forall>i j. i < length (guards s) \<and> j < length (guards s) \<and> i \<noteq> j \<and>
      owner' (guards s ! i) \<and> owner' (guards s ! j) \<and> \<not> busy (guards s ! i) \<and> \<not> busy (guards s ! j) \<and>
      Overlaps (g_offset (guards s ! i)) (g_offset (guards s ! i) + g_length (guards s ! i))
        (g_offset (guards s ! j)) (g_offset (guards s ! j) + g_length (guards s ! j)) \<longrightarrow>
      g_mode (guards s ! i) = kShared \<and> g_mode (guards s ! j) = kShared)"
proof (intro conjI allI impI)
  show "\<exists>s'. lock_step e s = Inr s'" if "lock_ready e s" for e by (rule range_lock.no_fault [OF s sys_inv_init that])
next
  fix i j
  assume g: "i < length (guards s) \<and> j < length (guards s) \<and> i \<noteq> j \<and>
      owner' (guards s ! i) \<and> owner' (guards s ! j) \<and> \<not> busy (guards s ! i) \<and> \<not> busy (guards s ! j) \<and>
      Overlaps (g_offset (guards s ! i)) (g_offset (guards s ! i) + g_length (guards s ! i))
        (g_offset (guards s ! j)) (g_offset (guards s ! j) + g_length (guards s ! j))"
  have "held (lock_sys_init n) = {#}" by (simp add: held_def lock_sys_init_def)
  then have "all_coexist coexist_claims (held s)" using range_lock.mutual_exclusion [OF s sys_inv_init] by simp
  then have "coexist_claims (g_offset (guards s ! i), g_offset (guards s ! i) + g_length (guards s ! i), g_mode (guards s ! i))
      (g_offset (guards s ! j), g_offset (guards s ! j) + g_length (guards s ! j), g_mode (guards s ! j))"
    unfolding held_def by (rule all_coexist_held_by [OF _ coexist_sym, where i = i and j = j]) (use g in \<open>simp_all add: guard_claim_def\<close>)
  then show "g_mode (guards s ! i) = kShared" "g_mode (guards s ! j) = kShared" using g by simp_all
qed

definition two_readers_end :: lock_sys where
  "two_readers_end = \<lparr>lr = \<lparr>next_id' = 2,
       entries' = [(EntryKey 0 0, \<lparr>e_offset = 0, e_end = 10, e_mode = kShared, share_count = 1\<rparr>),
         (EntryKey 5 1, \<lparr>e_offset = 5, e_end = 15, e_mode = kShared, share_count = 1\<rparr>)], waiters' = [], cv' = []\<rparr>,
     guards = [\<lparr>owner' = True, g_offset = 0, g_length = 10, g_mode = kShared, busy = False\<rparr>,
       \<lparr>owner' = True, g_offset = 5, g_length = 10, g_mode = kShared, busy = False\<rparr>],
     threads = [Outside None, Outside (Some kAcquired)]\<rparr>"

lemma two_readers_run:
  "run_events lock_step lock_ready [ELock 0 0 10 kShared, ETryLock 1 5 10 kShared] (lock_sys_init (Suc (Suc 0))) =
   Some two_readers_end"
  by (simp add: two_readers_end_def lock_run_simps less_entry_key_def EntryKey_less_def)

theorem range_locks_exclude_witness:
  "g_mode (guards two_readers_end ! 0) = kShared \<and> g_mode (guards two_readers_end ! 1) = kShared \<and>
   (\<exists>s'. lock_step (ERelease 0) two_readers_end = Inr s')"
proof -
  have "steps_to lock_step lock_ready (lock_sys_init (Suc (Suc 0))) two_readers_end"
    using run_events_steps [OF steps_refl two_readers_run] .
  note r = range_locks_exclude [OF this]
  have "lock_ready (ERelease 0) two_readers_end" by (simp add: two_readers_end_def guard_free_def)
  then have "\<exists>s'. lock_step (ERelease 0) two_readers_end = Inr s'" using r by blast
  moreover have "g_mode (guards two_readers_end ! 0) = kShared \<and> g_mode (guards two_readers_end ! 1) = kShared"
    by (rule conjunct2 [OF r, rule_format]) (simp add: two_readers_end_def Overlaps_def)
  ultimately show ?thesis by blast
qed

text \<open>C3. \<open>LockRange\<close> refines the abstract lock: whatever the threads do, the claims of the valid guards change only by
  adding a claim that fits to all claims held or by giving back a claim that is held, and the entries of the map are
  these claims, each exactly once.\<close>

theorem LockRange_refines_abstract_lock:
  assumes s: "steps_to lock_step lock_ready (lock_sys_init n) s" and e: "lock_ready e s"
  shows "\<exists>s'. lock_step e s = Inr s' \<and> spec_run coexist_claims (held s) (held s') \<and> claims (lr s') = held s' \<and>
    spec_run coexist_claims {#} (held s)"
proof -
  have "held (lock_sys_init n) = {#}" by (simp add: held_def lock_sys_init_def)
  then have i: "sys_inv s" "spec_run coexist_claims {#} (held s)" using range_lock.simulation [OF s sys_inv_init] by auto
  obtain s' where "lock_step e s = Inr s'" "lock_follows s s'" using lock_step_ok [OF i(1) e] by blast
  then show ?thesis using i(2) sys_invD(2) [of s'] by blast
qed

theorem LockRange_refines_abstract_lock_witness:
  "\<exists>s'. lock_step (EResume 0) readers_end = Inr s' \<and> spec_run coexist_claims (held readers_end) (held s') \<and>
    claims (lr s') = held s' \<and> spec_run coexist_claims {#} (held readers_end)"
  by (rule LockRange_refines_abstract_lock [of "Suc (Suc 0)"], rule run_events_steps [OF steps_refl readers_run])
    (simp add: readers_end_def wait_at_def ids_left_def)

section \<open>Progress\<close>

lemma waiting_grantable:
  assumes s: "sys_inv s" "claims (lr s) = {#}" and t: "wait_of s t = Some c"
  shows "\<exists>u off en m. wait_of s u = Some (off, en, m) \<and> CanGrant off en m None (lr s)"
proof (cases "\<exists>u off en. wait_of s u = Some (off, en, kExclusive)")
  case True
  then show ?thesis using s CanGrant_iff [OF sys_invD(1) [OF s(1)]] by (fastforce simp: blocked_def)
next
  case False
  obtain off en m where c: "c = (off, en, m)" by (cases c) auto
  have "\<not> blocked (set (waiters' (lr s))) (claims (lr s)) c"
  proof
    assume "blocked (set (waiters' (lr s))) (claims (lr s)) c"
    then obtain u w where w: "(u, w) \<in> set (waiters' (lr s))" "\<not> coexist_claims (waiter_claim w) c" "snd (snd c) = kShared"
      using s(2) by (auto simp: blocked_def)
    then have "snd (snd (waiter_claim w)) = kExclusive" using not_shared by (cases c; cases "waiter_claim w") auto
    moreover have "wait_of s u = Some (waiter_claim w)"
    proof (cases "wait_of s u")
      case None
      then show ?thesis using waits_ok_None [OF sys_invD(4) [OF s(1)]] w(1) by blast
    next
      case (Some d)
      then have "registered u d (set (waiters' (lr s)))" using waits_ok_Some [OF sys_invD(4) [OF s(1)]] by blast
      then show ?thesis using Some w(1) by (auto simp: registered_def)
    qed
    ultimately show False using False by (cases "waiter_claim w") auto
  qed
  then show ?thesis using t c CanGrant_iff [OF sys_invD(1) [OF s(1)]] by blast
qed

lemma resume_grants:
  assumes s: "sys_inv s" and c: "wait_of s t = Some (off, en, m)" and n: "ids_left s" and g: "CanGrant off en m None (lr s)"
  shows "\<exists>s'. resume t False s = Inr s' \<and> wait_of s' t = None \<and> held s' = add_mset (off, en, m) (held s)"
proof -
  note w = waiting_facts [OF s c]
  obtain s' where s': "resume t False s = Inr s'" "lock_follows s s'" using resume_ok [OF s _ n, of t False] c by auto
  have sz: "sz_add a b = en" if "a + b = en" for a b using that w(3) by (simp add: claim_ok_def sz_add_eq)
  have r: "\<exists>l. WaitLoop_resume t off en m f False None (lr s) = (Returned kAcquired, l)" for f
    using resume_wait_spec(3) [OF s c n g, of f False] by (metis prod.collapse)
  have "\<exists>f. lr s' = snd (WaitLoop_resume t off en m f False None (lr s)) \<and> wait_of s' t = None"
  proof (cases "threads s ! t")
    case (InLock off' len m')
    obtain l where l: "WaitLoop_resume t off en m True False None (lr s) = (Returned kAcquired, l)" using r by blast
    then show ?thesis using s'(1) w sz InLock
      by (intro exI [of _ True]) (auto simp: resume_def Lock_return_def wait_at_def)
  next
    case (InTryLockUntil off' len m')
    obtain l where l: "WaitLoop_resume t off en m False False None (lr s) = (Returned kAcquired, l)" using r by blast
    then show ?thesis using s'(1) w sz InTryLockUntil
      by (intro exI [of _ False]) (auto simp: resume_def TryLock_return_def wait_at_def)
  next
    case (InUpgrade i f)
    obtain l where l: "WaitLoop_resume t off en m f False None (lr s) = (Returned kAcquired, l)" using r by blast
    then show ?thesis using s'(1) w sz InUpgrade
      by (intro exI [of _ f]) (auto simp: resume_def Upgrade_return_def wait_at_def Let_def)
  qed (use w in simp)
  then obtain f where f: "lr s' = snd (WaitLoop_resume t off en m f False None (lr s))" "wait_of s' t = None" by blast
  have "claims (lr s') = add_mset (off, en, m) (claims (lr s))"
    using resume_wait_spec(1) [OF s c n, of f False] resume_wait_spec(3) [OF s c n g, of f False] f(1)
    by (auto simp: wait_spec_def)
  then show ?thesis using s' f(2) sys_invD(2) s by metis
qed

text \<open>C4. No lost wake-up: as long as no exclusive request gives up at a deadline, a thread whose request could be
  granted is never left asleep without a notification; so when nothing is held and threads wait, one of them is awake
  and obtains its lock with its next step.\<close>

theorem no_lost_wakeup:
  assumes s: "steps_to lock_step patient_ready (lock_sys_init n) s"
  shows "(\<forall>t off en m. wait_of s t = Some (off, en, m) \<and> CanGrant off en m None (lr s) \<longrightarrow> t \<notin> set (cv' (lr s))) \<and>
    (held s = {#} \<and> ids_left s \<and> wait_of s t \<noteq> None \<longrightarrow>
      (\<exists>u c s'. wait_of s u = Some c \<and> u \<notin> set (cv' (lr s)) \<and> lock_step (EResume u) s = Inr s' \<and>
        wait_of s' u = None \<and> held s' = {#c#}))"
proof (intro conjI allI impI)
  have i: "sys_inv s" "awake (lr s)"
    using patient_lock.simulation [OF s] sys_inv_init awake_nobody by (auto simp: lock_sys_init_def LockRange_init_def)
  show up: "t \<notin> set (cv' (lr s))" if wt: "wait_of s t = Some (off, en, m) \<and> CanGrant off en m None (lr s)" for t off en m
  proof
    assume "t \<in> set (cv' (lr s))"
    moreover obtain w where "waiter_claim w = (off, en, m)" "(t, w) \<in> set (waiters' (lr s))"
      using waiting_facts(2) [OF i(1), of t "(off, en, m)"] wt unfolding registered_def by blast
    ultimately have "blocked (set (waiters' (lr s))) (claims (lr s)) (off, en, m)" using i(2) by (auto simp: awake_def)
    then show False using that CanGrant_iff [OF sys_invD(1) [OF i(1)]] by blast
  qed
  assume h: "held s = {#} \<and> ids_left s \<and> wait_of s t \<noteq> None"
  then obtain c where "wait_of s t = Some c" by blast
  then obtain u off en m where u: "wait_of s u = Some (off, en, m)" "CanGrant off en m None (lr s)"
    using waiting_grantable [OF i(1)] h sys_invD(2) [OF i(1)] by (metis (no_types))
  obtain s' where "resume u False s = Inr s'" "wait_of s' u = None" "held s' = {#(off, en, m)#}"
    using resume_grants [OF i(1) u(1) _ u(2)] h by auto
  moreover have "u \<notin> set (cv' (lr s))" using up u by blast
  ultimately show "\<exists>u c s'. wait_of s u = Some c \<and> u \<notin> set (cv' (lr s)) \<and> lock_step (EResume u) s = Inr s' \<and>
      wait_of s' u = None \<and> held s' = {#c#}" using u(1) unfolding lock_step.simps by blast
qed

theorem no_lost_wakeup_witness:
  "\<exists>s'. lock_step (EResume 1) handover_end = Inr s' \<and> wait_of s' 1 = None \<and> held s' = {#(0, 10, kShared)#}"
proof -
  have h: "held handover_end = {#}" "ids_left handover_end" "wait_of handover_end 1 = Some (0, 10, kShared)"
    by (simp_all add: handover_end_def held_def guard_claim_def ids_left_def wait_at_def)
  have only: "u = 1 \<and> c = (0, 10, kShared)" if "wait_of handover_end u = Some c" for u c
    using that by (auto simp: handover_end_def wait_at_def less_Suc_eq nth_Cons' split: if_splits)
  obtain u c s' where "wait_of handover_end u = Some c" "lock_step (EResume u) handover_end = Inr s'"
      "wait_of s' u = None" "held s' = {#c#}"
    using no_lost_wakeup [OF run_events_steps [OF steps_refl handover_run], of 1] h by auto
  then show ?thesis using only by auto
qed

text \<open>A wake-up that is lost: a reader holds bytes 0 to 9, a writer waits for them with a deadline, a second reader
  has to queue behind the writer. When the deadline passes the writer leaves the queue without notifying anyone: the
  second reader, which could share the range now, goes on sleeping.\<close>

theorem writer_timeout_loses_wakeup:
  "\<exists>s. run_events lock_step lock_ready impatient_writer (lock_sys_init (Suc (Suc (Suc 0)))) = Some s \<and>
    threads s = [Outside None, Outside (Some kTimeout), InLock 0 10 kShared] \<and>
    CanGrant 0 10 kShared None (lr s) \<and> cv' (lr s) = [2]"
  by (simp add: impatient_writer_def lock_run_simps)

section \<open>Diagnostics\<close>

text \<open>What the diagnostics say in every state: \<open>ActiveLockCount\<close> is the number of claims held, and \<open>IsLockedAny\<close>
  answers whether the range overlaps one of them, although its scan stops at the first entry behind the range - as
  long as the end of the range is below 2 to the 64. For a range that reaches past it, and is not checked, the end wraps
  around and a lock inside the range is not seen when it lies behind the wrapped end.\<close>

theorem diagnostics_report_held_locks:
  assumes s: "steps_to lock_step lock_ready (lock_sys_init n) s" and off: "off < 2 ^ 64" and len: "0 < len" "len < 2 ^ 64"
  shows "ActiveLockCount (lr s) = size (held s) \<and>
    IsLockedAny off len (lr s) = (\<exists>a b m. (a, b, m) \<in># held s \<and>
      Overlaps a b off (if off + len < 2 ^ 64 then off + len else off + len - 2 ^ 64))"
proof -
  have i: "sys_inv s" using range_lock.simulation [OF s sys_inv_init] by simp
  note inv = sys_invD [OF i]
  have e: "map_ok (entries' (lr s))" "\<forall>x \<in> set (entries' (lr s)). entry_ok (next_id' (lr s)) x"
    using inv(1) by (auto simp: lr_inv_def)
  have sz: "sz_add off len = (if off + len < 2 ^ 64 then off + len else off + len - 2 ^ 64)"
    using off len by (auto simp: sz_add_def mod_if)
  have mem: "(\<exists>x \<in> set (entries' (lr s)). Overlaps (e_offset (snd x)) (e_end (snd x)) off en) \<longleftrightarrow>
      (\<exists>a b m. (a, b, m) \<in># claims (lr s) \<and> Overlaps a b off en)" for en
    unfolding claims_def entry_claim_def by force
  have "size (claims (lr s)) = length (entries' (lr s))" by (simp add: claims_def)
  then show ?thesis using mem locked_scan_iff [OF e] inv(2) len(1)
    unfolding IsLockedAny_def ActiveLockCount_def sz by simp
qed

theorem diagnostics_report_held_locks_witness:
  "ActiveLockCount (lr readers_end) = 1 \<and> IsLockedAny 0 6 (lr readers_end) \<and> \<not> IsLockedAny 0 5 (lr readers_end) \<and>
   \<not> IsLockedAny 3 (2 ^ 64 - 1) (lr readers_end)"
proof -
  have r: "steps_to lock_step lock_ready (lock_sys_init (Suc (Suc 0))) readers_end"
    using run_events_steps [OF steps_refl readers_run] .
  have h: "held readers_end = {#(5, 15, kShared)#}" by (simp add: held_def readers_end_def guard_claim_def)
  show ?thesis
    using diagnostics_report_held_locks [OF r, of 0 6] diagnostics_report_held_locks [OF r, of 0 5]
      diagnostics_report_held_locks [OF r, of 3 "2 ^ 64 - 1"] h by (simp add: Overlaps_def)
qed

end
