(* ===== verification/Lock_Id.thy ===== *)
theory Lock_Id
  imports Lock_Contract "HOL-Library.AList"
begin

text \<open>
  \<open>LockId\<close> (concurrency/lock_id.h): exclusive and shared locks on arbitrary identifiers. An identifier has an entry (a
  \<open>shared_timed_mutex\<close> and a reference count) only while someone holds or waits for its lock; the entries live in
  shards that are chosen by a hash. The hash functor is a parameter \<open>hasher\<close>. Entries are heap objects: \<open>store'\<close> maps
  the addresses of the live ones to their contents, and an access to any other address is undefined behaviour.
  The atomic steps are: one critical section of a shard mutex, one operation of a \<open>shared_timed_mutex\<close>.
\<close>

section \<open>Data\<close>

text \<open>Who is in a \<open>shared_timed_mutex\<close>, and the reference count next to it.\<close>

record id_entry =
  writer :: bool
  readers :: nat
  id_ref_count :: nat

definition LockEntry_new :: id_entry where
  "LockEntry_new = \<lparr>writer = False, readers = 0, id_ref_count = 0\<rparr>"

record 'id lock_id =
  num_shards' :: nat
  shards' :: "('id \<times> nat) list list"
  store' :: "nat \<Rightarrow> id_entry option"
  fresh' :: nat

definition kDefaultShards :: nat where
  "kDefaultShards = 64"

definition LockId_new :: "nat \<Rightarrow> 'id lock_id" where
  "LockId_new num_shards =
    (let n = (if 0 < num_shards then num_shards else kDefaultShards)
     in \<lparr>num_shards' = n, shards' = replicate n [], store' = (\<lambda>_. None), fresh' = 0\<rparr>)"

text \<open>What a guard's \<open>unique_lock\<close> or \<open>shared_lock\<close> owns. \<open>LockIdGuard\<close> and \<open>LockIdSharedGuard\<close> differ in nothing
  else. Between \<open>lock.unlock()\<close> and \<open>ReleaseEntry\<close> a guard is \<open>Unlocked\<close>.\<close>

datatype ownership = UniqueLock | SharedLock

datatype 'id id_guard =
    NoLock
  | Owns 'id nat ownership
  | Unlocked 'id nat

section \<open>std::shared\_timed\_mutex\<close>

fun mutex_free :: "ownership \<Rightarrow> id_entry \<Rightarrow> bool" where
  "mutex_free UniqueLock e \<longleftrightarrow> \<not> writer e \<and> readers e = 0"
| "mutex_free SharedLock e \<longleftrightarrow> \<not> writer e"

fun mutex_take :: "ownership \<Rightarrow> id_entry \<Rightarrow> id_entry" where
  "mutex_take UniqueLock e = e\<lparr>writer := True\<rparr>"
| "mutex_take SharedLock e = e\<lparr>readers := readers e + 1\<rparr>"

text \<open>Unlocking a mutex that one does not own is undefined.\<close>

fun mutex_give :: "ownership \<Rightarrow> id_entry \<Rightarrow> id_entry result" where
  "mutex_give UniqueLock e = guard_ub (writer e) (Inr (e\<lparr>writer := False\<rparr>))"
| "mutex_give SharedLock e = guard_ub (0 < readers e) (Inr (e\<lparr>readers := readers e - 1\<rparr>))"

section \<open>Shards and entries\<close>

text \<open>\<open>hasher_(id) & (num_shards_ - 1)\<close>\<close>

definition ShardIndex :: "('id \<Rightarrow> u64) \<Rightarrow> 'id \<Rightarrow> 'id lock_id \<Rightarrow> nat" where
  "ShardIndex hasher x s = unat (and (hasher x) (word_of_nat (sz_sub (num_shards' s) 1)))"

definition shard_of :: "('id \<Rightarrow> u64) \<Rightarrow> 'id \<Rightarrow> 'id lock_id \<Rightarrow> ('id \<times> nat) list result" where
  "shard_of hasher x s = (let i = ShardIndex hasher x s in guard_ub (i < length (shards' s)) (Inr (shards' s ! i)))"

definition set_shard :: "('id \<Rightarrow> u64) \<Rightarrow> 'id \<Rightarrow> ('id \<times> nat) list \<Rightarrow> 'id lock_id \<Rightarrow> 'id lock_id" where
  "set_shard hasher x es s = s\<lparr>shards' := (shards' s)[ShardIndex hasher x s := es]\<rparr>"

definition AcquireEntry :: "('id \<Rightarrow> u64) \<Rightarrow> 'id \<Rightarrow> 'id lock_id \<Rightarrow> (nat \<times> 'id lock_id) result" where
  "AcquireEntry hasher x s = rbind (shard_of hasher x s) (\<lambda>entries. case map_of entries x of
     Some a \<Rightarrow> rbind (deref (store' s a)) (\<lambda>e.
       Inr (a, s\<lparr>store' := (store' s)(a \<mapsto> e\<lparr>id_ref_count := sz_add (id_ref_count e) 1\<rparr>)\<rparr>))
   | None \<Rightarrow> (let a = fresh' s
       in Inr (a, (set_shard hasher x ((x, a) # entries) s)\<lparr>fresh' := a + 1,
            store' := (store' s)(a \<mapsto> LockEntry_new\<lparr>id_ref_count := 1\<rparr>)\<rparr>)))"

text \<open>\<open>--ref_count == 0\<close> erases the entry, which also deletes it.\<close>

definition ReleaseEntry :: "('id \<Rightarrow> u64) \<Rightarrow> 'id \<Rightarrow> 'id lock_id \<Rightarrow> 'id lock_id result" where
  "ReleaseEntry hasher x s = rbind (shard_of hasher x s) (\<lambda>entries. case map_of entries x of
     None \<Rightarrow> Inr s
   | Some a \<Rightarrow> rbind (deref (store' s a)) (\<lambda>e.
       let n = sz_sub (id_ref_count e) 1
       in if n = 0 then Inr ((set_shard hasher x (AList.delete x entries) s)\<lparr>store' := (store' s)(a := None)\<rparr>)
          else Inr (s\<lparr>store' := (store' s)(a \<mapsto> e\<lparr>id_ref_count := n\<rparr>)\<rparr>)))"

section \<open>Locking\<close>

text \<open>The calls after \<open>AcquireEntry\<close>; \<open>got\<close> is the answer of the mutex. A blocking call that does not get the mutex
  stays where it is (\<open>None\<close>).\<close>

definition take_mutex :: "ownership \<Rightarrow> 'id \<Rightarrow> nat \<Rightarrow> 'id lock_id \<Rightarrow> ('id id_guard \<times> 'id lock_id) option result" where
  "take_mutex own x a s = rbind (deref (store' s a)) (\<lambda>e.
     Inr (Some (Owns x a own, s\<lparr>store' := (store' s)(a \<mapsto> mutex_take own e)\<rparr>)))"

definition give_up :: "('id \<Rightarrow> u64) \<Rightarrow> 'id \<Rightarrow> 'id lock_id \<Rightarrow> ('id id_guard \<times> 'id lock_id) option result" where
  "give_up hasher x s = rbind (ReleaseEntry hasher x s) (\<lambda>s'. Inr (Some (NoLock, s')))"

definition LockId_Lock :: "('id \<Rightarrow> u64) \<Rightarrow> 'id \<Rightarrow> nat \<Rightarrow> bool \<Rightarrow> 'id lock_id \<Rightarrow> ('id id_guard \<times> 'id lock_id) option result" where
  "LockId_Lock hasher x entry got s = (if got then take_mutex UniqueLock x entry s else Inr None)"

definition LockId_TryLock :: "('id \<Rightarrow> u64) \<Rightarrow> 'id \<Rightarrow> nat \<Rightarrow> bool \<Rightarrow> 'id lock_id \<Rightarrow> ('id id_guard \<times> 'id lock_id) option result" where
  "LockId_TryLock hasher x entry got s = (if \<not> got then give_up hasher x s else take_mutex UniqueLock x entry s)"

definition LockId_TryLockFor :: "('id \<Rightarrow> u64) \<Rightarrow> 'id \<Rightarrow> nat \<Rightarrow> bool \<Rightarrow> 'id lock_id \<Rightarrow> ('id id_guard \<times> 'id lock_id) option result" where
  "LockId_TryLockFor hasher x entry got s = (if \<not> got then give_up hasher x s else take_mutex UniqueLock x entry s)"

definition LockShared :: "('id \<Rightarrow> u64) \<Rightarrow> 'id \<Rightarrow> nat \<Rightarrow> bool \<Rightarrow> 'id lock_id \<Rightarrow> ('id id_guard \<times> 'id lock_id) option result" where
  "LockShared hasher x entry got s = (if got then take_mutex SharedLock x entry s else Inr None)"

definition TryLockShared :: "('id \<Rightarrow> u64) \<Rightarrow> 'id \<Rightarrow> nat \<Rightarrow> bool \<Rightarrow> 'id lock_id \<Rightarrow> ('id id_guard \<times> 'id lock_id) option result" where
  "TryLockShared hasher x entry got s = (if \<not> got then give_up hasher x s else take_mutex SharedLock x entry s)"

definition TryLockSharedFor :: "('id \<Rightarrow> u64) \<Rightarrow> 'id \<Rightarrow> nat \<Rightarrow> bool \<Rightarrow> 'id lock_id \<Rightarrow> ('id id_guard \<times> 'id lock_id) option result" where
  "TryLockSharedFor hasher x entry got s = (if \<not> got then give_up hasher x s else take_mutex SharedLock x entry s)"

datatype lock_call = CLock | CTryLock | CTryLockFor | CLockShared | CTryLockShared | CTryLockSharedFor

fun finish_call :: "lock_call \<Rightarrow> ('id \<Rightarrow> u64) \<Rightarrow> 'id \<Rightarrow> nat \<Rightarrow> bool \<Rightarrow> 'id lock_id \<Rightarrow> ('id id_guard \<times> 'id lock_id) option result" where
  "finish_call CLock = LockId_Lock"
| "finish_call CTryLock = LockId_TryLock"
| "finish_call CTryLockFor = LockId_TryLockFor"
| "finish_call CLockShared = LockShared"
| "finish_call CTryLockShared = TryLockShared"
| "finish_call CTryLockSharedFor = TryLockSharedFor"

fun wants :: "lock_call \<Rightarrow> ownership" where
  "wants CLock = UniqueLock" | "wants CTryLock = UniqueLock" | "wants CTryLockFor = UniqueLock"
| "wants CLockShared = SharedLock" | "wants CTryLockShared = SharedLock" | "wants CTryLockSharedFor = SharedLock"

section \<open>Releasing\<close>

text \<open>\<open>Release\<close> of a guard that owns a lock, in its two atomic parts; of any other guard it does nothing.
  \<open>ReleaseExclusive\<close> and \<open>ReleaseShared\<close> are the same two calls.\<close>

definition Release_unlock :: "'id id_guard \<Rightarrow> 'id lock_id \<Rightarrow> ('id id_guard \<times> 'id lock_id) result" where
  "Release_unlock g s = (case g of
     Owns x a own \<Rightarrow> rbind (deref (store' s a)) (\<lambda>e. rbind (mutex_give own e) (\<lambda>e'.
       Inr (Unlocked x a, s\<lparr>store' := (store' s)(a \<mapsto> e')\<rparr>)))
   | _ \<Rightarrow> Inr (g, s))"

definition Release_entry :: "('id \<Rightarrow> u64) \<Rightarrow> 'id id_guard \<Rightarrow> 'id lock_id \<Rightarrow> ('id id_guard \<times> 'id lock_id) result" where
  "Release_entry hasher g s = (case g of
     Unlocked x a \<Rightarrow> rbind (ReleaseEntry hasher x s) (\<lambda>s'. Inr (NoLock, s'))
   | _ \<Rightarrow> Inr (g, s))"

text \<open>Moving a guard: what it owned is owned by the new one.\<close>

definition LockIdGuard_move :: "'id id_guard \<Rightarrow> 'id id_guard \<times> 'id id_guard" where
  "LockIdGuard_move other = (other, NoLock)"

definition ActiveEntryCount :: "'id lock_id \<Rightarrow> nat" where
  "ActiveEntryCount s = fold (\<lambda>i total. sz_add total (length (shards' s ! i))) [0 ..< num_shards' s] 0"

section \<open>Threads\<close>

datatype 'id id_thread = IdOutside | IdCall lock_call 'id nat

record 'id id_sys =
  lid :: "'id lock_id"
  id_guards :: "'id id_guard list"
  id_threads :: "'id id_thread list"

text \<open>\<open>IdBegin\<close>: a call up to the mutex; \<open>IdAnswer\<close>: the mutex answers; \<open>IdUnlock\<close> and \<open>IdDrop\<close>: the two parts of
  \<open>Release\<close>; \<open>IdMove i\<close>: a new guard is made from guard \<open>i\<close>; \<open>IdMoveInto i j\<close>: the rest of the assignment of guard
  \<open>j\<close> to a released guard \<open>i\<close>.\<close>

datatype 'id id_event =
    IdBegin nat lock_call 'id
  | IdAnswer nat bool
  | IdUnlock nat
  | IdDrop nat
  | IdMove nat
  | IdMoveInto nat nat

fun id_step :: "('id \<Rightarrow> u64) \<Rightarrow> 'id id_event \<Rightarrow> 'id id_sys \<Rightarrow> 'id id_sys result" where
  "id_step hasher (IdBegin t c x) s = rbind (AcquireEntry hasher x (lid s)) (\<lambda>(a, l).
     Inr (s\<lparr>lid := l, id_threads := (id_threads s)[t := IdCall c x a]\<rparr>))"
| "id_step hasher (IdAnswer t got) s = (case id_threads s ! t of
     IdOutside \<Rightarrow> Inr s
   | IdCall c x a \<Rightarrow> rbind (finish_call c hasher x a got (lid s)) (\<lambda>r. case r of
       None \<Rightarrow> Inr s
     | Some (g, l) \<Rightarrow> Inr (s\<lparr>lid := l, id_guards := id_guards s @ [g], id_threads := (id_threads s)[t := IdOutside]\<rparr>)))"
| "id_step hasher (IdUnlock i) s = rbind (Release_unlock (id_guards s ! i) (lid s)) (\<lambda>(g, l).
     Inr (s\<lparr>lid := l, id_guards := (id_guards s)[i := g]\<rparr>))"
| "id_step hasher (IdDrop i) s = rbind (Release_entry hasher (id_guards s ! i) (lid s)) (\<lambda>(g, l).
     Inr (s\<lparr>lid := l, id_guards := (id_guards s)[i := g]\<rparr>))"
| "id_step hasher (IdMove i) s = (let (g, g') = LockIdGuard_move (id_guards s ! i)
     in Inr (s\<lparr>id_guards := (id_guards s)[i := g'] @ [g]\<rparr>))"
| "id_step hasher (IdMoveInto i j) s = (if i = j then Inr s
     else let (g, g') = LockIdGuard_move (id_guards s ! j)
       in Inr (s\<lparr>id_guards := (id_guards s)[i := g, j := g']\<rparr>))"

definition id_sys_init :: "nat \<Rightarrow> nat \<Rightarrow> 'id id_sys" where
  "id_sys_init num_shards n = \<lparr>lid = LockId_new num_shards, id_guards = [], id_threads = replicate n IdOutside\<rparr>"

end
