(* ===== verification/Lock_Id_Inv.thy ===== *)
theory Lock_Id_Inv
  imports Lock_Id
begin

text \<open>
  The invariant of \<open>LockId\<close>: the entry of an identifier is alive exactly while there are users of it, its reference
  count is the number of its users and its mutex state is given by the guards that own it. It is stated over the
  owners \<open>ow\<close> and the other users \<open>us\<close> (calls on the way to the mutex, guards that have unlocked but not yet dropped
  their reference).
\<close>

section \<open>Owners, users and entries\<close>

definition entry_agrees :: "'id \<Rightarrow> nat \<Rightarrow> id_entry \<Rightarrow> ('id \<times> nat \<times> ownership) multiset \<Rightarrow> ('id \<times> nat) multiset \<Rightarrow> bool" where
  "entry_agrees x a e ow us \<longleftrightarrow>
     id_ref_count e = count ow (x, a, UniqueLock) + count ow (x, a, SharedLock) + count us (x, a) \<and> 0 < id_ref_count e \<and>
     count ow (x, a, UniqueLock) = (if writer e then 1 else 0) \<and> count ow (x, a, SharedLock) = readers e \<and>
     (writer e \<longrightarrow> readers e = 0)"

definition entries_ok :: "('id \<Rightarrow> nat option) \<Rightarrow> (nat \<Rightarrow> id_entry option) \<Rightarrow> nat \<Rightarrow>
    ('id \<times> nat \<times> ownership) multiset \<Rightarrow> ('id \<times> nat) multiset \<Rightarrow> bool" where
  "entries_ok E ST n ow us \<longleftrightarrow>
     (\<forall>x a. E x \<noteq> Some a \<longrightarrow> (\<forall>w. (x, a, w) \<notin># ow) \<and> (x, a) \<notin># us) \<and>
     (\<forall>x a. E x = Some a \<longrightarrow> a < n \<and> (\<exists>e. ST a = Some e \<and> entry_agrees x a e ow us)) \<and>
     (\<forall>x y a. E x = Some a \<longrightarrow> E y = Some a \<longrightarrow> x = y) \<and> (\<forall>a e. ST a = Some e \<longrightarrow> (\<exists>x. E x = Some a))"

lemma entries_okI:
  assumes "\<And>x a w. E x \<noteq> Some a \<Longrightarrow> (x, a, w) \<notin># ow" "\<And>x a. E x \<noteq> Some a \<Longrightarrow> (x, a) \<notin># us"
    "\<And>x a. E x = Some a \<Longrightarrow> a < n" "\<And>x a. E x = Some a \<Longrightarrow> \<exists>e. ST a = Some e \<and> entry_agrees x a e ow us"
    "\<And>x y a. E x = Some a \<Longrightarrow> E y = Some a \<Longrightarrow> x = y" "\<And>a e. ST a = Some e \<Longrightarrow> \<exists>x. E x = Some a"
  shows "entries_ok E ST n ow us"
  unfolding entries_ok_def using assms by blast

lemma entries_okD:
  assumes "entries_ok E ST n ow us"
  shows "E x \<noteq> Some a \<Longrightarrow> (x, a, w) \<notin># ow" "E x \<noteq> Some a \<Longrightarrow> (x, a) \<notin># us"
    "E x = Some a \<Longrightarrow> a < n" "E x = Some a \<Longrightarrow> \<exists>e. ST a = Some e \<and> entry_agrees x a e ow us"
    "E x = Some a \<Longrightarrow> E y = Some a \<Longrightarrow> x = y" "ST a = Some e \<Longrightarrow> \<exists>x. E x = Some a"
  using assms unfolding entries_ok_def by blast+

lemma entry_agrees_other:
  assumes "entry_agrees y b e ow us" "\<And>w. count ow' (y, b, w) = count ow (y, b, w)" "count us' (y, b) = count us (y, b)"
  shows "entry_agrees y b e ow' us'"
  using assms(1) unfolding entry_agrees_def assms(2,3) .

text \<open>A change at the entry of one identifier that stays in the map.\<close>

lemma entries_ok_change:
  assumes ok: "entries_ok E ST n ow us" and x: "E x = Some a"
    and agree: "entry_agrees x a e' ow' us'"
    and other: "\<And>y b w. (y, b) \<noteq> (x, a) \<Longrightarrow> count ow' (y, b, w) = count ow (y, b, w)"
      "\<And>y b. (y, b) \<noteq> (x, a) \<Longrightarrow> count us' (y, b) = count us (y, b)"
  shows "entries_ok E (ST(a \<mapsto> e')) n ow' us'"
proof (rule entries_okI)
  fix y b assume y: "E y = Some b"
  show "\<exists>e. (ST(a \<mapsto> e')) b = Some e \<and> entry_agrees y b e ow' us'"
  proof (cases "y = x")
    case True
    then show ?thesis using x y agree by simp
  next
    case False
    then have "b \<noteq> a" using entries_okD(5) [OF ok x, of y] y by blast
    then show ?thesis using entries_okD(4) [OF ok y] entry_agrees_other [of y b _ ow us ow' us'] other False by auto
  qed
next
  fix y b w assume "E y \<noteq> Some b"
  then show "(y, b, w) \<notin># ow'" "(y, b) \<notin># us'"
    using x entries_okD(1,2) [OF ok, of y b] other [of y b] by (auto simp: count_eq_zero_iff [symmetric])
next
  fix b e assume "(ST(a \<mapsto> e')) b = Some e"
  then show "\<exists>y. E y = Some b" using x entries_okD(6) [OF ok] by (cases "b = a") auto
qed (use entries_okD(3,5) [OF ok] in blast)+

section \<open>What the operations do to them\<close>

lemma acquire_existing:
  assumes ok: "entries_ok E ST n ow us" and x: "E x = Some a" "ST a = Some e" and fits: "id_ref_count e + 1 < 2 ^ 64"
  shows "entries_ok E (ST(a \<mapsto> e\<lparr>id_ref_count := sz_add (id_ref_count e) 1\<rparr>)) n ow (add_mset (x, a) us)"
  using entries_okD(4) [OF ok x(1)] x(2) fits
  by (intro entries_ok_change [OF ok x(1)]) (auto simp: entry_agrees_def sz_add_eq)

lemma acquire_fresh:
  assumes ok: "entries_ok E ST n ow us" and x: "E x = None"
  shows "entries_ok (E(x \<mapsto> n)) (ST(n \<mapsto> LockEntry_new\<lparr>id_ref_count := 1\<rparr>)) (n + 1) ow (add_mset (x, n) us)"
proof (rule entries_okI)
  have none: "count ow (x, b, w) = 0" "count us (x, b) = 0" for b w
    using entries_okD(1,2) [OF ok, of x b] x by (auto simp: count_eq_zero_iff)
  fix y b assume y: "(E(x \<mapsto> n)) y = Some b"
  show "\<exists>e. (ST(n \<mapsto> LockEntry_new\<lparr>id_ref_count := 1\<rparr>)) b = Some e \<and> entry_agrees y b e ow (add_mset (x, n) us)"
  proof (cases "y = x")
    case True
    then show ?thesis using y none by (simp add: entry_agrees_def LockEntry_new_def)
  next
    case False
    then have "b < n" "E y = Some b" using y entries_okD(3) [OF ok] by auto
    then show ?thesis using False entries_okD(4) [OF ok, of y b] by (auto simp: entry_agrees_def)
  qed
  show "b < n + 1" using y entries_okD(3) [OF ok, of y b] by (auto split: if_splits)
next
  fix y b w assume "(E(x \<mapsto> n)) y \<noteq> Some b"
  then show "(y, b, w) \<notin># ow" "(y, b) \<notin># add_mset (x, n) us"
    using entries_okD(1,2) [OF ok, of y b] x by (auto split: if_splits)
next
  fix y z b assume "(E(x \<mapsto> n)) y = Some b" "(E(x \<mapsto> n)) z = Some b"
  then show "y = z" using entries_okD(3,5) [OF ok] by (auto split: if_splits)
next
  fix b e assume "(ST(n \<mapsto> LockEntry_new\<lparr>id_ref_count := 1\<rparr>)) b = Some e"
  then show "\<exists>y. (E(x \<mapsto> n)) y = Some b"
    using entries_okD(6) [OF ok, of b] x by (cases "b = n") (auto, metis option.distinct(1))
qed

lemma take_agrees:
  assumes ok: "entries_ok E ST n ow (add_mset (x, a) us)"
  shows "E x = Some a" "\<exists>e. ST a = Some e \<and> entry_agrees x a e ow (add_mset (x, a) us)"
  using entries_okD(2,4) [OF ok, of x a] by auto

lemma mutex_taken:
  assumes ok: "entries_ok E ST n ow (add_mset (x, a) us)" and e: "ST a = Some e" and free: "mutex_free w e"
  shows "entries_ok E (ST(a \<mapsto> mutex_take w e)) n (add_mset (x, a, w) ow) us"
proof -
  note x = take_agrees(1) [OF ok]
  have "entry_agrees x a e ow (add_mset (x, a) us)" using take_agrees(2) [OF ok] e by auto
  then have "entry_agrees x a (mutex_take w e) (add_mset (x, a, w) ow) us"
    using free by (cases w) (auto simp: entry_agrees_def)
  then show ?thesis by (intro entries_ok_change [OF ok x]) auto
qed

text \<open>Where the mutex is free for a request no owner excludes it.\<close>

fun coexist_ids :: "'id \<times> nat \<times> ownership \<Rightarrow> 'id \<times> nat \<times> ownership \<Rightarrow> bool" where
  "coexist_ids (x, a, w) (y, b, v) \<longleftrightarrow> x \<noteq> y \<or> w = SharedLock \<and> v = SharedLock"

lemma coexist_ids_sym: "coexist_ids r q \<Longrightarrow> coexist_ids q r"
  by (cases r; cases q) auto

lemma mutex_free_coexist:
  assumes ok: "entries_ok E ST n ow us" and x: "E x = Some a" "ST a = Some e" "mutex_free w e" and q: "q \<in># ow"
  shows "coexist_ids q (x, a, w)"
proof -
  obtain y b v where q': "q = (y, b, v)" by (cases q) auto
  show ?thesis
  proof (cases "y = x")
    case True
    then have "b = a" using entries_okD(1) [OF ok, of x b v] q q' x(1) by auto
    moreover have "0 < count ow (y, b, v)" using q q' by simp
    moreover have "entry_agrees x a e ow us" using entries_okD(4) [OF ok x(1)] x(2) by auto
    ultimately show ?thesis using x(3) q' True by (cases v; cases w) (auto simp: entry_agrees_def)
  qed (use q' in simp)
qed

lemma mutex_given:
  assumes ok: "entries_ok E ST n (add_mset (x, a, w) ow) us"
  shows "\<exists>e e'. ST a = Some e \<and> mutex_give w e = Inr e' \<and> entries_ok E (ST(a \<mapsto> e')) n ow (add_mset (x, a) us)"
proof -
  have x: "E x = Some a" using entries_okD(1) [OF ok, of x a w] by auto
  obtain e where e: "ST a = Some e" "entry_agrees x a e (add_mset (x, a, w) ow) us" using entries_okD(4) [OF ok x] by blast
  obtain e' where e': "mutex_give w e = Inr e'" "entry_agrees x a e' ow (add_mset (x, a) us)"
    using e(2) by (cases w) (auto simp: entry_agrees_def split: if_splits)
  then have "entries_ok E (ST(a \<mapsto> e')) n ow (add_mset (x, a) us)" by (intro entries_ok_change [OF ok x]) auto
  then show ?thesis using e e' by blast
qed

lemma drop_kept:
  assumes ok: "entries_ok E ST n ow (add_mset (x, a) us)" and e: "ST a = Some e" and more: "id_ref_count e \<noteq> 1"
    and fits: "id_ref_count e < 2 ^ 64"
  shows "entries_ok E (ST(a \<mapsto> e\<lparr>id_ref_count := sz_sub (id_ref_count e) 1\<rparr>)) n ow us" "sz_sub (id_ref_count e) 1 \<noteq> 0"
proof -
  note x = take_agrees(1) [OF ok]
  have ag: "entry_agrees x a e ow (add_mset (x, a) us)" using take_agrees(2) [OF ok] e by auto
  then have sz: "sz_sub (id_ref_count e) 1 = id_ref_count e - 1" using fits by (intro sz_sub_eq) (auto simp: entry_agrees_def)
  then show "sz_sub (id_ref_count e) 1 \<noteq> 0" using more ag by (auto simp: entry_agrees_def)
  show "entries_ok E (ST(a \<mapsto> e\<lparr>id_ref_count := sz_sub (id_ref_count e) 1\<rparr>)) n ow us"
    using ag more sz by (intro entries_ok_change [OF ok x]) (auto simp: entry_agrees_def)
qed

lemma drop_last:
  assumes ok: "entries_ok E ST n ow (add_mset (x, a) us)" and e: "ST a = Some e" and last: "id_ref_count e = 1"
  shows "entries_ok (E(x := None)) (ST(a := None)) n ow us"
proof (rule entries_okI)
  note x = take_agrees(1) [OF ok]
  have ag: "entry_agrees x a e ow (add_mset (x, a) us)" using take_agrees(2) [OF ok] e by auto
  then have "count ow (x, a, UniqueLock) = 0" "count ow (x, a, SharedLock) = 0" and u: "count us (x, a) = 0"
    using last by (auto simp: entry_agrees_def)
  then have o: "count ow (x, a, v) = 0" for v by (cases v) simp_all
  fix y b
  { fix v assume "(E(x := None)) y \<noteq> Some b"
    then show "(y, b, v) \<notin># ow" "(y, b) \<notin># us"
      using entries_okD(1,2) [OF ok, of y b] x o u by (auto simp: count_eq_zero_iff split: if_splits) }
  assume y: "(E(x := None)) y = Some b"
  then have y': "y \<noteq> x" "E y = Some b" by (auto split: if_splits)
  then have "b \<noteq> a" using entries_okD(5) [OF ok x, of y] by blast
  then show "\<exists>e. (ST(a := None)) b = Some e \<and> entry_agrees y b e ow us"
    using y' entries_okD(4) [OF ok, of y b] by (auto simp: entry_agrees_def)
  show "b < n" using y' entries_okD(3) [OF ok] by blast
next
  fix y z b assume "(E(x := None)) y = Some b" "(E(x := None)) z = Some b"
  then show "y = z" using entries_okD(5) [OF ok] by (auto split: if_splits)
next
  fix b d assume "(ST(a := None)) b = Some d"
  then have "b \<noteq> a" "\<exists>y. E y = Some b" using entries_okD(6) [OF ok, of b d] by (auto split: if_splits)
  then show "\<exists>y. (E(x := None)) y = Some b" using take_agrees(1) [OF ok] by (metis fun_upd_other option.inject)
qed

end
