(* ===== verification/Lock_Id_Props.thy ===== *)
theory Lock_Id_Props
  imports Lock_Id_Inv
begin

text \<open>
  \<open>LockId\<close> with its threads and guards follows the abstract lock; entries live exactly as long as they are used;
  the shard index never leaves the array.
\<close>

section \<open>Shards\<close>

definition shards_ok :: "('id \<Rightarrow> u64) \<Rightarrow> 'id lock_id \<Rightarrow> bool" where
  "shards_ok hasher s \<longleftrightarrow> 0 < num_shards' s \<and> num_shards' s < 2 ^ 64 \<and> length (shards' s) = num_shards' s \<and>
     (\<forall>i < num_shards' s. distinct (map fst (shards' s ! i)) \<and>
       (\<forall>x \<in> fst ` set (shards' s ! i). ShardIndex hasher x s = i))"

definition entry_of :: "('id \<Rightarrow> u64) \<Rightarrow> 'id lock_id \<Rightarrow> 'id \<Rightarrow> nat option" where
  "entry_of hasher s x = map_of (shards' s ! ShardIndex hasher x s) x"

lemma unat_u64: "n < 2 ^ 64 \<Longrightarrow> unat (word_of_nat n :: u64) = n"
  by (simp add: unsigned_of_nat take_bit_nat_eq_self)

lemma ShardIndex_less: "0 < num_shards' s \<Longrightarrow> num_shards' s < 2 ^ 64 \<Longrightarrow> ShardIndex hasher x s < num_shards' s"
proof -
  assume n: "0 < num_shards' s" "num_shards' s < 2 ^ 64"
  let ?m = "word_of_nat (sz_sub (num_shards' s) 1) :: u64"
  have "sz_sub (num_shards' s) 1 = num_shards' s - 1" using n by (intro sz_sub_eq) auto
  then have m: "unat ?m = num_shards' s - 1" using unat_u64 [of "num_shards' s - 1"] n by simp
  have "and (hasher x) ?m \<le> ?m" by (rule word_and_le1)
  then have "ShardIndex hasher x s \<le> unat ?m" by (simp add: ShardIndex_def word_le_nat_alt)
  then show ?thesis using m n by simp
qed

lemma ShardIndex_same [simp]: "ShardIndex hasher x (s\<lparr>store' := st\<rparr>) = ShardIndex hasher x s"
  "ShardIndex hasher x (s\<lparr>shards' := sh\<rparr>) = ShardIndex hasher x s"
  "ShardIndex hasher x (s\<lparr>fresh' := n\<rparr>) = ShardIndex hasher x s"
  by (simp_all add: ShardIndex_def)

lemma shards_ok_same [simp]: "shards_ok hasher (s\<lparr>store' := st\<rparr>) = shards_ok hasher s"
  "shards_ok hasher (s\<lparr>fresh' := n\<rparr>) = shards_ok hasher s"
  by (simp_all add: shards_ok_def)

lemma entry_of_same [simp]: "entry_of hasher (s\<lparr>store' := st\<rparr>) = entry_of hasher s"
  "entry_of hasher (s\<lparr>fresh' := n\<rparr>) = entry_of hasher s"
  by (simp_all add: entry_of_def fun_eq_iff)

lemma set_shard_same [simp]: "store' (set_shard hasher x es s) = store' s" "fresh' (set_shard hasher x es s) = fresh' s"
  by (simp_all add: set_shard_def)

lemma shard_of_ok:
  assumes "shards_ok hasher s"
  shows "shard_of hasher x s = Inr (shards' s ! ShardIndex hasher x s)"
  using assms ShardIndex_less [of s hasher x] by (simp add: shard_of_def Let_def shards_ok_def)

lemma set_shard_ok:
  assumes ok: "shards_ok hasher s" and es: "distinct (map fst es)"
    and keys: "fst ` set es \<subseteq> insert x (fst ` set (shards' s ! ShardIndex hasher x s))"
    and other: "\<And>y. y \<noteq> x \<Longrightarrow> map_of es y = map_of (shards' s ! ShardIndex hasher x s) y"
  shows "shards_ok hasher (set_shard hasher x es s)"
    and "entry_of hasher (set_shard hasher x es s) = (entry_of hasher s)(x := map_of es x)"
proof -
  let ?i = "ShardIndex hasher x s"
  have i: "?i < num_shards' s" "length (shards' s) = num_shards' s"
    using ok ShardIndex_less by (auto simp: shards_ok_def)
  have "\<forall>y \<in> fst ` set (shards' s ! ?i). ShardIndex hasher y s = ?i" using ok i unfolding shards_ok_def by blast
  then have "\<forall>y \<in> fst ` set es. ShardIndex hasher y s = ?i" using keys by blast
  then show "shards_ok hasher (set_shard hasher x es s)"
    using ok es i by (auto simp: shards_ok_def set_shard_def nth_list_update)
  show "entry_of hasher (set_shard hasher x es s) = (entry_of hasher s)(x := map_of es x)"
  proof
    fix y
    show "entry_of hasher (set_shard hasher x es s) y = ((entry_of hasher s)(x := map_of es x)) y"
      using i other [of y] by (cases "ShardIndex hasher y s = ?i") (auto simp: entry_of_def set_shard_def)
  qed
qed

section \<open>The invariant of the whole\<close>

fun owner_claim :: "'id id_guard \<Rightarrow> ('id \<times> nat \<times> ownership) option" where
  "owner_claim (Owns x a w) = Some (x, a, w)"
| "owner_claim _ = None"

fun unlocked_use :: "'id id_guard \<Rightarrow> ('id \<times> nat) option" where
  "unlocked_use (Unlocked x a) = Some (x, a)"
| "unlocked_use _ = None"

fun call_use :: "'id id_thread \<Rightarrow> ('id \<times> nat) option" where
  "call_use (IdCall c x a) = Some (x, a)"
| "call_use IdOutside = None"

definition owners :: "'id id_sys \<Rightarrow> ('id \<times> nat \<times> ownership) multiset" where
  "owners s = held_by owner_claim (id_guards s)"

definition users :: "'id id_sys \<Rightarrow> ('id \<times> nat) multiset" where
  "users s = held_by unlocked_use (id_guards s) + held_by call_use (id_threads s)"

definition id_inv :: "('id \<Rightarrow> u64) \<Rightarrow> 'id id_sys \<Rightarrow> bool" where
  "id_inv hasher s \<longleftrightarrow> shards_ok hasher (lid s) \<and>
     entries_ok (entry_of hasher (lid s)) (store' (lid s)) (fresh' (lid s)) (owners s) (users s) \<and>
     size (owners s) + size (users s) < 2 ^ 64"

text \<open>A call comes from a thread that is not in one; a mutex answers yes only when it is free for the request.\<close>

fun id_ready :: "('id \<Rightarrow> u64) \<Rightarrow> 'id id_event \<Rightarrow> 'id id_sys \<Rightarrow> bool" where
  "id_ready hasher (IdBegin t c x) s \<longleftrightarrow> t < length (id_threads s) \<and> id_threads s ! t = IdOutside \<and>
     size (owners s) + size (users s) + 1 < 2 ^ 64"
| "id_ready hasher (IdAnswer t got) s \<longleftrightarrow> t < length (id_threads s) \<and>
     (case id_threads s ! t of IdOutside \<Rightarrow> False
      | IdCall c x a \<Rightarrow> got \<longrightarrow> (case store' (lid s) a of None \<Rightarrow> True | Some e \<Rightarrow> mutex_free (wants c) e))"
| "id_ready hasher (IdUnlock i) s \<longleftrightarrow> i < length (id_guards s)"
| "id_ready hasher (IdDrop i) s \<longleftrightarrow> i < length (id_guards s)"
| "id_ready hasher (IdMove i) s \<longleftrightarrow> i < length (id_guards s)"
| "id_ready hasher (IdMoveInto i j) s \<longleftrightarrow> i < length (id_guards s) \<and> j < length (id_guards s) \<and> id_guards s ! i = NoLock"

abbreviation id_follows :: "('id \<Rightarrow> u64) \<Rightarrow> 'id id_sys \<Rightarrow> 'id id_sys \<Rightarrow> bool" where
  "id_follows hasher s s' \<equiv> id_inv hasher s' \<and> spec_run coexist_ids (owners s) (owners s')"

lemma id_inv_init: "num_shards < 2 ^ 64 \<Longrightarrow> id_inv hasher (id_sys_init num_shards n)"
proof -
  assume n: "num_shards < 2 ^ 64"
  let ?s = "LockId_new num_shards :: 'a lock_id"
  have k: "0 < num_shards' ?s" "num_shards' ?s < 2 ^ 64" "shards' ?s = replicate (num_shards' ?s) []"
    using n by (simp_all add: LockId_new_def Let_def kDefaultShards_def)
  have "entry_of hasher ?s = (\<lambda>_. None)"
    using ShardIndex_less [OF k(1,2), of hasher] k(3) by (simp add: entry_of_def fun_eq_iff)
  moreover have "shards_ok hasher ?s" using k by (simp add: shards_ok_def)
  moreover have "held_by call_use (replicate n IdOutside :: 'a id_thread list) = {#}" for n by (induction n) simp_all
  moreover have "store' ?s = (\<lambda>_. None)" by (simp add: LockId_new_def Let_def)
  ultimately show ?thesis by (simp add: id_inv_def id_sys_init_def entries_ok_def owners_def users_def)
qed

lemma entry_counts:
  assumes "entries_ok E ST n ow us" "E x = Some a" "ST a = Some e"
  shows "id_ref_count e \<le> size ow + size us"
proof -
  have ag: "entry_agrees x a e ow us" using entries_okD(4) [OF assms(1,2)] assms(3) by auto
  have "{#(x, a, UniqueLock)#} \<subseteq># ow \<Longrightarrow> True" by simp
  have "count ow (x, a, UniqueLock) + count ow (x, a, SharedLock) \<le> size ow"
  proof -
    have "replicate_mset (count ow (x, a, UniqueLock)) (x, a, UniqueLock) +
        replicate_mset (count ow (x, a, SharedLock)) (x, a, SharedLock) \<subseteq># ow"
      by (intro mset_subset_eqI) simp
    then show ?thesis using size_mset_mono by fastforce
  qed
  moreover have "count us (x, a) \<le> size us" by (rule count_le_size)
  ultimately show ?thesis using ag by (simp add: entry_agrees_def)
qed

lemma AcquireEntry_ok:
  assumes sh: "shards_ok hasher s" and ok: "entries_ok (entry_of hasher s) (store' s) (fresh' s) ow us"
    and fits: "size ow + size us + 1 < 2 ^ 64"
  shows "\<exists>a s'. AcquireEntry hasher x s = Inr (a, s') \<and> shards_ok hasher s' \<and>
    entries_ok (entry_of hasher s') (store' s') (fresh' s') ow (add_mset (x, a) us)"
proof (cases "entry_of hasher s x")
  case None
  let ?es = "shards' s ! ShardIndex hasher x s" and ?a = "fresh' s"
  have m: "map_of ?es x = None" using None by (simp add: entry_of_def)
  have d: "distinct (map fst ?es)" using sh ShardIndex_less [of s hasher x] by (auto simp: shards_ok_def)
  note set = set_shard_ok [OF sh, of "(x, ?a) # ?es" x]
  have new: "x \<notin> fst ` set ?es" using m by (simp add: map_of_eq_None_iff)
  have s1: "shards_ok hasher (set_shard hasher x ((x, ?a) # ?es) s)"
    "entry_of hasher (set_shard hasher x ((x, ?a) # ?es) s) = (entry_of hasher s)(x \<mapsto> ?a)"
    using set d new by auto
  have "AcquireEntry hasher x s = Inr (?a, (set_shard hasher x ((x, ?a) # ?es) s)\<lparr>fresh' := ?a + 1,
      store' := (store' s)(?a \<mapsto> LockEntry_new\<lparr>id_ref_count := 1\<rparr>)\<rparr>)"
    using m by (simp add: AcquireEntry_def shard_of_ok [OF sh] Let_def)
  then show ?thesis using s1 acquire_fresh [OF ok None] by simp
next
  case (Some a)
  obtain e where e: "store' s a = Some e" using entries_okD(4) [OF ok Some] by blast
  have "AcquireEntry hasher x s = Inr (a, s\<lparr>store' := (store' s)(a \<mapsto> e\<lparr>id_ref_count := sz_add (id_ref_count e) 1\<rparr>)\<rparr>)"
    using Some e by (simp add: AcquireEntry_def shard_of_ok [OF sh] entry_of_def)
  moreover have "id_ref_count e + 1 < 2 ^ 64" using entry_counts [OF ok Some e] fits by simp
  ultimately show ?thesis using sh acquire_existing [OF ok Some e] by simp
qed

lemma ReleaseEntry_ok:
  assumes sh: "shards_ok hasher s" and ok: "entries_ok (entry_of hasher s) (store' s) (fresh' s) ow (add_mset (x, a) us)"
    and fits: "size ow + size us + 1 < 2 ^ 64"
  shows "\<exists>s'. ReleaseEntry hasher x s = Inr s' \<and> shards_ok hasher s' \<and>
    entries_ok (entry_of hasher s') (store' s') (fresh' s') ow us"
proof -
  let ?es = "shards' s ! ShardIndex hasher x s"
  note x = take_agrees(1) [OF ok]
  obtain e where e: "store' s a = Some e" using take_agrees(2) [OF ok] by blast
  have m: "map_of ?es x = Some a" using x by (simp add: entry_of_def)
  have le: "id_ref_count e < 2 ^ 64" using entry_counts [OF ok x e] fits by simp
  show ?thesis
  proof (cases "id_ref_count e = 1")
    case True
    have d: "distinct (map fst ?es)" using sh ShardIndex_less [of s hasher x] by (auto simp: shards_ok_def)
    have s1: "shards_ok hasher (set_shard hasher x (AList.delete x ?es) s)"
      "entry_of hasher (set_shard hasher x (AList.delete x ?es) s) = (entry_of hasher s)(x := None)"
    proof -
      have k: "fst ` set (AList.delete x ?es) \<subseteq> insert x (fst ` set ?es)"
        using delete_keys [of x ?es] by (metis Diff_subset list.set_map set_removeAll subset_insertI2)
      show "shards_ok hasher (set_shard hasher x (AList.delete x ?es) s)"
        "entry_of hasher (set_shard hasher x (AList.delete x ?es) s) = (entry_of hasher s)(x := None)"
        using set_shard_ok [OF sh distinct_delete [OF d] k] by (simp_all add: delete_conv')
    qed
    have "ReleaseEntry hasher x s =
        Inr ((set_shard hasher x (AList.delete x ?es) s)\<lparr>store' := (store' s)(a := None)\<rparr>)"
      using m e True by (simp add: ReleaseEntry_def shard_of_ok [OF sh] Let_def sz_sub_eq)
    then show ?thesis using s1 drop_last [OF ok e True] by simp
  next
    case False
    have "ReleaseEntry hasher x s = Inr (s\<lparr>store' := (store' s)(a \<mapsto> e\<lparr>id_ref_count := sz_sub (id_ref_count e) 1\<rparr>)\<rparr>)"
      using m e drop_kept(2) [OF ok e False le] by (simp add: ReleaseEntry_def shard_of_ok [OF sh] Let_def)
    then show ?thesis using sh drop_kept(1) [OF ok e False le] by simp
  qed
qed

section \<open>Steps\<close>

lemma id_invD:
  assumes "id_inv hasher s"
  shows "shards_ok hasher (lid s)" "size (owners s) + size (users s) < 2 ^ 64"
    "entries_ok (entry_of hasher (lid s)) (store' (lid s)) (fresh' (lid s)) (owners s) (users s)"
  using assms by (auto simp: id_inv_def)

lemma finish_call_got: "finish_call c hasher x a True s = take_mutex (wants c) x a s"
  by (cases c) (simp_all add: LockId_Lock_def LockId_TryLock_def LockId_TryLockFor_def LockShared_def TryLockShared_def
    TryLockSharedFor_def)

lemma finish_call_failed: "finish_call c hasher x a False s = Inr None \<or> finish_call c hasher x a False s = give_up hasher x s"
  by (cases c) (simp_all add: LockId_Lock_def LockId_TryLock_def LockId_TryLockFor_def LockShared_def TryLockShared_def
    TryLockSharedFor_def)

lemma add_ids: "(\<And>q. q \<in># H \<Longrightarrow> coexist_ids q r) \<Longrightarrow> spec_run coexist_ids H (add_mset r H)"
  by (intro r_into_rtranclp spec_acquire) blast

lemma IdBegin_ok:
  assumes s: "id_inv hasher s" and r: "id_ready hasher (IdBegin t c x) s"
  shows "\<exists>s'. id_step hasher (IdBegin t c x) s = Inr s' \<and> id_follows hasher s s'"
proof -
  note inv = id_invD [OF s]
  obtain a l where l: "AcquireEntry hasher x (lid s) = Inr (a, l)" "shards_ok hasher l"
      "entries_ok (entry_of hasher l) (store' l) (fresh' l) (owners s) (add_mset (x, a) (users s))"
    using AcquireEntry_ok [OF inv(1,3), of x] r unfolding id_ready.simps by blast
  have "held_by call_use ((id_threads s)[t := IdCall c x a]) = add_mset (x, a) (held_by call_use (id_threads s))"
    using r by (intro held_by_set_Some) simp_all
  then have "owners (s\<lparr>lid := l, id_threads := (id_threads s)[t := IdCall c x a]\<rparr>) = owners s"
    "users (s\<lparr>lid := l, id_threads := (id_threads s)[t := IdCall c x a]\<rparr>) = add_mset (x, a) (users s)"
    by (simp_all add: owners_def users_def)
  then show ?thesis using l r by (simp add: id_inv_def)
qed

lemma IdAnswer_ok:
  assumes s: "id_inv hasher s" and r: "id_ready hasher (IdAnswer t got) s"
  shows "\<exists>s'. id_step hasher (IdAnswer t got) s = Inr s' \<and> id_follows hasher s s'"
proof -
  note inv = id_invD [OF s]
  obtain c x a where t: "t < length (id_threads s)" "id_threads s ! t = IdCall c x a"
    using r by (auto split: id_thread.splits)
  let ?u = "held_by unlocked_use (id_guards s) + held_by call_use ((id_threads s)[t := IdOutside])"
  have u: "users s = add_mset (x, a) ?u"
    using t held_by_set_None [of t "id_threads s" call_use "(x, a)" IdOutside] by (simp add: users_def)
  note ok = inv(3) [unfolded u]
  have fits: "size (owners s) + size ?u + 1 < 2 ^ 64" using inv(2) u by simp
  obtain e where e: "store' (lid s) a = Some e" using take_agrees(2) [OF ok] by blast
  let ?s = "\<lambda>g l. s\<lparr>lid := l, id_guards := id_guards s @ [g], id_threads := (id_threads s)[t := IdOutside]\<rparr>"
  have add: "owners (?s g l) = (case owner_claim g of None \<Rightarrow> {#} | Some q \<Rightarrow> {#q#}) + owners s"
    "unlocked_use g = None \<Longrightarrow> users (?s g l) = ?u" for g l
    by (simp_all add: owners_def users_def ac_simps)
  show ?thesis
  proof (cases got)
    case True
    let ?l = "(lid s)\<lparr>store' := (store' (lid s))(a \<mapsto> mutex_take (wants c) e)\<rparr>"
    have free: "mutex_free (wants c) e" using r t True e by simp
    have "id_step hasher (IdAnswer t got) s = Inr (?s (Owns x a (wants c)) ?l)"
      using t e True by (simp add: finish_call_got take_mutex_def)
    moreover have "entries_ok (entry_of hasher ?l) (store' ?l) (fresh' ?l) (add_mset (x, a, wants c) (owners s)) ?u"
      using mutex_taken [OF ok e free] by simp
    moreover have "spec_run coexist_ids (owners s) (add_mset (x, a, wants c) (owners s))"
      using mutex_free_coexist [OF ok take_agrees(1) [OF ok] e free] by (rule add_ids)
    ultimately show ?thesis using inv(1) fits add [of "Owns x a (wants c)" ?l] by (simp add: id_inv_def)
  next
    case False
    show ?thesis
    proof (cases "finish_call c hasher x a False (lid s) = Inr None")
      case True
      then show ?thesis using s t False by simp
    next
      case again: False
      obtain l where l: "ReleaseEntry hasher x (lid s) = Inr l" "shards_ok hasher l"
          "entries_ok (entry_of hasher l) (store' l) (fresh' l) (owners s) ?u"
        using ReleaseEntry_ok [OF inv(1) ok fits] by blast
      have "finish_call c hasher x a False (lid s) = give_up hasher x (lid s)" using finish_call_failed again by metis
      then have "id_step hasher (IdAnswer t got) s = Inr (?s NoLock l)" using t False l(1) by (simp add: give_up_def)
      then show ?thesis using l(2,3) fits add [of NoLock l] by (simp add: id_inv_def)
    qed
  qed
qed

lemma IdUnlock_ok:
  assumes s: "id_inv hasher s" and r: "id_ready hasher (IdUnlock i) s"
  shows "\<exists>s'. id_step hasher (IdUnlock i) s = Inr s' \<and> id_follows hasher s s'"
proof (cases "\<exists>x a w. id_guards s ! i = Owns x a w")
  case True
  note inv = id_invD [OF s]
  obtain x a w where g: "id_guards s ! i = Owns x a w" using True by blast
  have i: "i < length (id_guards s)" using r by simp
  let ?gs = "(id_guards s)[i := Unlocked x a]"
  have o: "owners s = add_mset (x, a, w) (held_by owner_claim ?gs)"
    unfolding owners_def using i g by (intro held_by_set_None) simp_all
  have u: "held_by unlocked_use ?gs = add_mset (x, a) (held_by unlocked_use (id_guards s))"
    using i g by (intro held_by_set_Some) simp_all
  obtain e e' where e: "store' (lid s) a = Some e" "mutex_give w e = Inr e'"
      "entries_ok (entry_of hasher (lid s)) ((store' (lid s))(a \<mapsto> e')) (fresh' (lid s)) (held_by owner_claim ?gs)
        (add_mset (x, a) (users s))"
    using mutex_given [OF inv(3) [unfolded o]] by blast
  let ?s = "s\<lparr>lid := (lid s)\<lparr>store' := (store' (lid s))(a \<mapsto> e')\<rparr>, id_guards := ?gs\<rparr>"
  have st: "id_step hasher (IdUnlock i) s = Inr ?s" using g e by (simp add: Release_unlock_def)
  have ou: "owners ?s = held_by owner_claim ?gs" "users ?s = add_mset (x, a) (users s)"
    using u by (simp_all add: owners_def users_def)
  have "spec_step coexist_ids (owners s) (owners ?s)" unfolding o ou(1) by (rule spec_release)
  then show ?thesis using st ou e(3) inv(1,2) o by (auto simp: id_inv_def)
next
  case False
  then have "Release_unlock (id_guards s ! i) (lid s) = Inr (id_guards s ! i, lid s)"
    by (cases "id_guards s ! i") (simp_all add: Release_unlock_def)
  then show ?thesis using s by simp
qed

lemma IdDrop_ok:
  assumes s: "id_inv hasher s" and r: "id_ready hasher (IdDrop i) s"
  shows "\<exists>s'. id_step hasher (IdDrop i) s = Inr s' \<and> id_follows hasher s s'"
proof (cases "\<exists>x a. id_guards s ! i = Unlocked x a")
  case True
  note inv = id_invD [OF s]
  obtain x a where g: "id_guards s ! i = Unlocked x a" using True by blast
  have i: "i < length (id_guards s)" using r by simp
  let ?gs = "(id_guards s)[i := NoLock]"
  have o: "held_by owner_claim ?gs = owners s" unfolding owners_def using i g by (intro held_by_same) simp_all
  have "held_by unlocked_use (id_guards s) = add_mset (x, a) (held_by unlocked_use ?gs)"
    using i g by (intro held_by_set_None) simp_all
  then have u: "users s = add_mset (x, a) (held_by unlocked_use ?gs + held_by call_use (id_threads s))"
    by (simp add: users_def)
  have fits: "size (owners s) + size (held_by unlocked_use ?gs + held_by call_use (id_threads s)) + 1 < 2 ^ 64"
    using inv(2) u by simp
  obtain l where l: "ReleaseEntry hasher x (lid s) = Inr l" "shards_ok hasher l"
      "entries_ok (entry_of hasher l) (store' l) (fresh' l) (owners s) (held_by unlocked_use ?gs + held_by call_use (id_threads s))"
    using ReleaseEntry_ok [OF inv(1) inv(3) [unfolded u] fits] by blast
  let ?s = "s\<lparr>lid := l, id_guards := ?gs\<rparr>"
  have st: "id_step hasher (IdDrop i) s = Inr ?s" using g l(1) by (simp add: Release_entry_def)
  have ou: "owners ?s = owners s" "users ?s = held_by unlocked_use ?gs + held_by call_use (id_threads s)"
    using o by (simp_all add: owners_def users_def)
  then show ?thesis using st l fits by (auto simp: id_inv_def)
next
  case False
  then have "Release_entry hasher (id_guards s ! i) (lid s) = Inr (id_guards s ! i, lid s)"
    by (cases "id_guards s ! i") (simp_all add: Release_entry_def)
  then show ?thesis using s by simp
qed

lemma same_owners_users:
  assumes "id_inv hasher s" "owners (s\<lparr>id_guards := gs\<rparr>) = owners s" "users (s\<lparr>id_guards := gs\<rparr>) = users s"
  shows "id_follows hasher s (s\<lparr>id_guards := gs\<rparr>)"
  using assms by (simp add: id_inv_def)

lemma moved_held_by:
  assumes "i < length gs" "f NoLock = None"
  shows "held_by f (gs[i := NoLock] @ [gs ! i]) = held_by f gs"
  using held_by_update [OF assms(1), of f] assms(2) by (simp add: ac_simps)

lemma moved_into_held_by:
  assumes "i < length gs" "j < length gs" "i \<noteq> j" "gs ! i = NoLock" "f NoLock = None"
  shows "held_by f (gs[i := gs ! j, j := NoLock]) = held_by f gs"
proof (cases "f (gs ! j)")
  case None
  then show ?thesis using assms by (simp add: held_by_same [of j] held_by_same [of i])
next
  case (Some q)
  have "held_by f (gs[i := gs ! j]) = add_mset q (held_by f (gs[i := gs ! j, j := NoLock]))"
    using assms Some by (intro held_by_set_None) simp_all
  moreover have "held_by f (gs[i := gs ! j]) = add_mset q (held_by f gs)" using assms Some by (intro held_by_set_Some) simp_all
  ultimately show ?thesis by simp
qed

lemma id_step_ok:
  assumes "id_inv hasher s" "id_ready hasher e s"
  shows "\<exists>s'. id_step hasher e s = Inr s' \<and> id_follows hasher s s'"
proof (cases e)
  case (IdMove i)
  have "id_follows hasher s (s\<lparr>id_guards := (id_guards s)[i := NoLock] @ [id_guards s ! i]\<rparr>)"
    using assms IdMove by (intro same_owners_users) (simp_all add: owners_def users_def moved_held_by del: held_by_append)
  then show ?thesis using IdMove by (simp add: LockIdGuard_move_def)
next
  case (IdMoveInto i j)
  show ?thesis
  proof (cases "i = j")
    case False
    have "id_follows hasher s (s\<lparr>id_guards := (id_guards s)[i := id_guards s ! j, j := NoLock]\<rparr>)"
      using assms IdMoveInto False by (intro same_owners_users) (simp_all add: owners_def users_def moved_into_held_by)
    then show ?thesis using IdMoveInto False by (simp add: LockIdGuard_move_def)
  qed (use assms IdMoveInto in simp)
next
  case (IdBegin t c x)
  show ?thesis using IdBegin_ok [OF assms [unfolded IdBegin]] unfolding IdBegin .
next
  case (IdAnswer t got)
  show ?thesis using IdAnswer_ok [OF assms [unfolded IdAnswer]] unfolding IdAnswer .
next
  case (IdUnlock i)
  show ?thesis using IdUnlock_ok [OF assms [unfolded IdUnlock]] unfolding IdUnlock .
next
  case (IdDrop i)
  show ?thesis using IdDrop_ok [OF assms [unfolded IdDrop]] unfolding IdDrop .
qed

interpretation id_lock: lock_contract "id_inv hasher" "id_step hasher" "id_ready hasher" owners coexist_ids for hasher
  by unfold_locales (use id_step_ok coexist_ids_sym in blast)+

section \<open>Counting the entries\<close>

lemma fold_sz_add:
  "acc + sum_list (map f xs) < 2 ^ 64 \<Longrightarrow> fold (\<lambda>i total. sz_add total (f i)) xs acc = acc + sum_list (map f xs)"
  by (induction xs arbitrary: acc) (simp_all add: sz_add_eq)

lemma shards_count:
  assumes ok: "shards_ok hasher s"
  shows "(\<Sum>i \<leftarrow> [0 ..< num_shards' s]. length (shards' s ! i)) = card {x. entry_of hasher s x \<noteq> None}"
proof -
  let ?K = "\<lambda>i. fst ` set (shards' s ! i)"
  have k: "card (?K i) = length (shards' s ! i)" if "i < num_shards' s" for i
    using ok that distinct_card [of "map fst (shards' s ! i)"] by (simp add: shards_ok_def)
  have idx: "ShardIndex hasher x s = i" if "i < num_shards' s" "x \<in> ?K i" for i x
    using ok that unfolding shards_ok_def by blast
  have "{x. entry_of hasher s x \<noteq> None} = (\<Union>i < num_shards' s. ?K i)"
  proof (rule set_eqI)
    fix x
    have "entry_of hasher s x \<noteq> None \<longleftrightarrow> x \<in> ?K (ShardIndex hasher x s)"
      by (simp add: entry_of_def map_of_eq_None_iff)
    also have "\<dots> \<longleftrightarrow> x \<in> (\<Union>i < num_shards' s. ?K i)"
    proof
      assume "x \<in> ?K (ShardIndex hasher x s)"
      moreover have "ShardIndex hasher x s < num_shards' s" using ok by (intro ShardIndex_less) (auto simp: shards_ok_def)
      ultimately show "x \<in> (\<Union>i < num_shards' s. ?K i)" by blast
    next
      assume "x \<in> (\<Union>i < num_shards' s. ?K i)"
      then obtain i where "i < num_shards' s" "x \<in> ?K i" by blast
      then show "x \<in> ?K (ShardIndex hasher x s)" using idx [of i x] by simp
    qed
    finally show "x \<in> {x. entry_of hasher s x \<noteq> None} \<longleftrightarrow> x \<in> (\<Union>i < num_shards' s. ?K i)" by simp
  qed
  moreover have "card (\<Union>i < num_shards' s. ?K i) = (\<Sum>i < num_shards' s. card (?K i))"
    by (rule card_UN_disjoint) (use idx in blast)+
  moreover have "\<dots> = (\<Sum>i < num_shards' s. length (shards' s ! i))" using k by (intro sum.cong) simp_all
  ultimately show ?thesis by (simp add: interv_sum_list_conv_sum_set_nat atLeast0LessThan)
qed

lemma entry_of_in_use:
  assumes ok: "entries_ok E ST n ow us"
  shows "{x. E x \<noteq> None} = fst ` set_mset ow \<union> fst ` set_mset us"
proof (intro set_eqI iffI)
  fix x assume "x \<in> {x. E x \<noteq> None}"
  then obtain a e where a: "E x = Some a" "entry_agrees x a e ow us" using entries_okD(4) [OF ok, of x] by auto
  then have "0 < count ow (x, a, UniqueLock) \<or> 0 < count ow (x, a, SharedLock) \<or> 0 < count us (x, a)"
    unfolding entry_agrees_def by linarith
  then show "x \<in> fst ` set_mset ow \<union> fst ` set_mset us" by (force simp: count_greater_zero_iff)
next
  fix x assume "x \<in> fst ` set_mset ow \<union> fst ` set_mset us"
  then have "\<exists>a. (\<exists>w. (x, a, w) \<in># ow) \<or> (x, a) \<in># us" by force
  then show "x \<in> {x. E x \<noteq> None}" using entries_okD(1,2) [OF ok, of x] by auto
qed

lemma card_in_use: "card (fst ` set_mset ow \<union> fst ` set_mset us) \<le> size ow + size us"
proof -
  have "card (fst ` set_mset M) \<le> size M" for M :: "('x \<times> 'y) multiset"
    by (induction M) (auto simp: card_insert_if)
  then show ?thesis using card_Un_le [of "fst ` set_mset ow" "fst ` set_mset us"] by (meson add_mono le_trans)
qed

section \<open>A run for the witnesses\<close>

text \<open>Two threads share the lock of identifier 7, with four shards and the identity as the hash.\<close>

definition seven_hash :: "nat \<Rightarrow> u64" where
  "seven_hash x = word_of_nat x"

definition seven_events :: "nat id_event list" where
  "seven_events = [IdBegin 0 CLockShared 7, IdAnswer 0 True, IdBegin 1 CTryLockShared 7, IdAnswer 1 True]"

definition seven_sys :: "nat id_sys" where
  "seven_sys = \<lparr>lid = \<lparr>num_shards' = Suc (Suc (Suc (Suc 0))), shards' = [[], [], [], [(7, 0)]],
       store' = (\<lambda>_. None)(0 \<mapsto> \<lparr>writer = False, readers = Suc (Suc 0), id_ref_count = Suc (Suc 0)\<rparr>), fresh' = 1\<rparr>,
     id_guards = [Owns 7 0 SharedLock, Owns 7 0 SharedLock], id_threads = [IdOutside, IdOutside]\<rparr>"

lemma seven_index: "num_shards' l = Suc (Suc (Suc (Suc 0))) \<Longrightarrow> ShardIndex seven_hash 7 l = Suc (Suc (Suc 0))"
  by (simp add: ShardIndex_def seven_hash_def sz_sub_def)

lemma seven_run:
  "run_events (id_step seven_hash) (id_ready seven_hash) seven_events
     (id_sys_init (Suc (Suc (Suc (Suc 0)))) (Suc (Suc 0))) = Some seven_sys"
  by (simp add: seven_events_def seven_sys_def id_sys_init_def LockId_new_def Let_def AcquireEntry_def shard_of_def seven_index
    set_shard_def LockEntry_new_def owners_def users_def take_mutex_def LockShared_def TryLockShared_def sz_add_def)

section \<open>Properties\<close>

text \<open>C5. Mutual exclusion of \<open>LockId\<close>: in every state that the interleaved steps of any number of threads lead to, every step
  that is possible succeeds, that is, it neither touches an entry that has been deleted nor unlocks a mutex that is not owned; and two
  different guards that own the lock of the same identifier are both shared guards.\<close>

theorem id_locks_exclude:
  assumes n: "num_shards < 2 ^ 64" and s: "steps_to (id_step hasher) (id_ready hasher) (id_sys_init num_shards n) s"
  shows "(\<forall>e. id_ready hasher e s \<longrightarrow> (\<exists>s'. id_step hasher e s = Inr s')) \<and>
    (\<forall>i j x a b w v. i < length (id_guards s) \<and> j < length (id_guards s) \<and> i \<noteq> j \<and>
      id_guards s ! i = Owns x a w \<and> id_guards s ! j = Owns x b v \<longrightarrow> w = SharedLock \<and> v = SharedLock)"
proof (intro conjI allI impI)
  note i = id_inv_init [OF n]
  show "\<exists>s'. id_step hasher e s = Inr s'" if "id_ready hasher e s" for e by (rule id_lock.no_fault [OF s i that])
  fix k j x a b w v
  assume g: "k < length (id_guards s) \<and> j < length (id_guards s) \<and> k \<noteq> j \<and> id_guards s ! k = Owns x a w \<and> id_guards s ! j = Owns x b v"
  have "owners (id_sys_init num_shards n) = {#}" by (simp add: owners_def id_sys_init_def)
  then have "all_coexist coexist_ids (owners s)" by (intro id_lock.mutual_exclusion [OF s i])
  then have "coexist_ids (x, a, w) (x, b, v)"
    unfolding owners_def by (rule all_coexist_held_by [OF _ coexist_ids_sym, where i = k and j = j]) (use g in simp_all)
  then show "w = SharedLock" "v = SharedLock" by simp_all
qed

theorem id_locks_exclude_witness:
  "id_guards seven_sys ! 0 = Owns 7 0 SharedLock \<and> id_guards seven_sys ! 1 = Owns 7 0 SharedLock \<and>
   (\<exists>s'. id_step seven_hash (IdUnlock 0) seven_sys = Inr s')"
proof -
  note r = id_locks_exclude [OF _ run_events_steps [OF steps_refl seven_run], simplified]
  have "id_ready seven_hash (IdUnlock 0) seven_sys" by (simp add: seven_sys_def)
  then have "\<exists>s'. id_step seven_hash (IdUnlock 0) seven_sys = Inr s'" using r by blast
  then show ?thesis by (simp add: seven_sys_def)
qed

text \<open>C6. Entries of \<open>LockId\<close> live exactly as long as they are used: \<open>ActiveEntryCount\<close> is the number of identifiers
  that some guard or call uses, and when nobody uses any, every entry has been deleted.\<close>

theorem id_entries_live_while_used:
  assumes n: "num_shards < 2 ^ 64" and s: "steps_to (id_step hasher) (id_ready hasher) (id_sys_init num_shards n) s"
  shows "ActiveEntryCount (lid s) = card (fst ` set_mset (owners s) \<union> fst ` set_mset (users s)) \<and>
    (owners s = {#} \<and> users s = {#} \<longrightarrow> store' (lid s) = (\<lambda>_. None))"
proof -
  have i: "id_inv hasher s" using id_lock.simulation [OF s id_inv_init [OF n]] by blast
  note inv = id_invD [OF i]
  let ?C = "card (fst ` set_mset (owners s) \<union> fst ` set_mset (users s))"
  have "(\<Sum>i \<leftarrow> [0 ..< num_shards' (lid s)]. length (shards' (lid s) ! i)) = ?C"
    using shards_count [OF inv(1)] entry_of_in_use [OF inv(3)] by simp
  moreover have "?C < 2 ^ 64" using card_in_use [of "owners s" "users s"] inv(2) by simp
  ultimately have "ActiveEntryCount (lid s) = ?C"
    using fold_sz_add [of 0 "\<lambda>i. length (shards' (lid s) ! i)" "[0 ..< num_shards' (lid s)]"]
    by (simp add: ActiveEntryCount_def)
  moreover have "store' (lid s) a = None" if "owners s = {#}" "users s = {#}" for a
    using entries_okD(6) [OF inv(3), of a] entry_of_in_use [OF inv(3)] that by (cases "store' (lid s) a") auto
  ultimately show ?thesis by auto
qed

theorem id_entries_live_while_used_witness:
  "ActiveEntryCount (lid seven_sys) = 1"
  using id_entries_live_while_used [OF _ run_events_steps [OF steps_refl seven_run]]
  by (simp add: seven_sys_def owners_def users_def)

text \<open>The shard index never leaves the array of shards, whatever the number of shards and the hash are; for a power
  of two it is the hash modulo the number of shards, but a number of shards that is not a power of two, which nothing
  rejects, leaves shards unused: of three shards the middle one is never chosen.\<close>

theorem ShardIndex_in_bounds:
  fixes num_shards :: nat
  defines "l \<equiv> LockId_new num_shards"
  assumes n: "num_shards < 2 ^ 64"
  shows "ShardIndex hasher x l < length (shards' l) \<and>
    (num_shards = 2 ^ k \<longrightarrow> ShardIndex hasher x l = unat (hasher x) mod num_shards) \<and>
    (num_shards = 3 \<longrightarrow> ShardIndex hasher x l \<noteq> 1)"
proof (intro conjI impI)
  have "0 < num_shards' l" "num_shards' l < 2 ^ 64" "length (shards' l) = num_shards' l"
    using n by (simp_all add: l_def LockId_new_def Let_def kDefaultShards_def)
  then show "ShardIndex hasher x l < length (shards' l)" using ShardIndex_less [of l hasher x] by simp
  { assume k: "num_shards = 2 ^ k"
    have "sz_sub num_shards 1 = num_shards - 1" using n k by (intro sz_sub_eq) simp_all
    then have "ShardIndex hasher x l = unat (and (hasher x) (mask k))"
      using k by (simp add: ShardIndex_def l_def LockId_new_def Let_def mask_eq_exp_minus_1 of_nat_diff)
    also have "\<dots> = take_bit k (unat (hasher x))" by (simp only: take_bit_eq_mask [symmetric] unsigned_take_bit_eq)
    finally show "ShardIndex hasher x l = unat (hasher x) mod num_shards" using k by (simp add: take_bit_eq_mod) }
  assume "num_shards = 3"
  then have "ShardIndex hasher x l = unat (and (hasher x) 2)"
    by (simp add: ShardIndex_def l_def LockId_new_def Let_def sz_sub_def)
  moreover have "\<not> bit (and (hasher x) 2) 0" by (simp add: bit_simps)
  ultimately show "ShardIndex hasher x l \<noteq> 1"
    by (metis bit_1_0 unat_1 word_unat_eq_iff)
qed

theorem ShardIndex_in_bounds_witness:
  "ShardIndex seven_hash 7 (LockId_new 4) = 3 \<and> ShardIndex seven_hash 7 (LockId_new 3) \<noteq> 1"
  using ShardIndex_in_bounds [of 4 seven_hash 7 2] ShardIndex_in_bounds [of 3 seven_hash 7 2] by (simp add: seven_hash_def)

end
