(* ===== verification/Spinlock.thy ===== *)
theory Spinlock
  imports Lock_Contract
begin

text \<open>
  \<open>Spinlock\<close> (concurrency/spinlock.h, .cc): a test-and-set lock on one atomic flag. The atomic loads, stores and
  exchanges are the steps of the threads. The back-off loop of \<open>SpinWait\<close> is also modelled by itself, over the
  sequence of the values that its loads observe.
\<close>

section \<open>SpinWait\<close>

definition kMaxSpinCount :: nat where
  "kMaxSpinCount = 1024"

definition kYieldInterval :: nat where
  "kYieldInterval = 64"

text \<open>\<open>loads k\<close> is what the \<open>k\<close>-th load of the flag observes. The loops return the number of loads and of pause
  instructions (\<open>CpuRelax\<close>) so far and, in the second phase, of sleeps; \<open>Inl\<close> says that the flag was seen free.\<close>

partial_function (option) spin_phase1 :: "(nat \<Rightarrow> bool) \<Rightarrow> nat \<Rightarrow> nat \<Rightarrow> nat \<Rightarrow> (nat \<times> nat + nat \<times> nat) option" where
  "spin_phase1 loads spin_count k pauses =
    (if spin_count \<le> kMaxSpinCount
     then if \<not> loads k then Some (Inl (k + 1, pauses + spin_count))
       else spin_phase1 loads (spin_count * 2 mod 2 ^ 32) (k + 1) (pauses + spin_count)
     else Some (Inr (k, pauses)))"

partial_function (option) spin_phase2 :: "(nat \<Rightarrow> bool) \<Rightarrow> nat \<Rightarrow> nat \<Rightarrow> nat \<Rightarrow> (nat \<times> nat) option" where
  "spin_phase2 loads yield_iter k sleeps =
    (if loads k
     then let y = (yield_iter + 1) mod 2 ^ 32
       in spin_phase2 loads y (k + 1) (if y mod kYieldInterval = 0 then sleeps + 1 else sleeps)
     else Some (k + 1, sleeps))"

text \<open>The loads, pauses and sleeps of a \<open>SpinWait\<close> that returns.\<close>

definition SpinWait :: "(nat \<Rightarrow> bool) \<Rightarrow> (nat \<times> nat \<times> nat) option" where
  "SpinWait loads = (case spin_phase1 loads 1 0 0 of
     None \<Rightarrow> None
   | Some (Inl (k, p)) \<Rightarrow> Some (k, p, 0)
   | Some (Inr (k, p)) \<Rightarrow> (case spin_phase2 loads 0 k 0 of None \<Rightarrow> None | Some (k', z) \<Rightarrow> Some (k', p, z)))"

section \<open>The lock\<close>

text \<open>Where a thread is: outside, in \<open>SpinWait\<close>, in front of the exchange of \<open>lock\<close> or of \<open>try_lock\<close>, or in the
  critical section.\<close>

datatype spin_thread = SpinOutside | Spinning | Exchanging | Trying | InSection

record spin_sys =
  locked' :: bool
  spin_threads :: "spin_thread list"

definition exchange :: "nat \<Rightarrow> spin_thread \<Rightarrow> spin_sys \<Rightarrow> spin_sys" where
  "exchange t failed s = s\<lparr>locked' := True,
     spin_threads := (spin_threads s)[t := if \<not> locked' s then InSection else failed]\<rparr>"

text \<open>\<open>lock\<close>: the first exchange; a load in \<open>SpinWait\<close>; the exchange after it. \<open>try_lock\<close>: its load, its exchange.\<close>

definition lock_first :: "nat \<Rightarrow> spin_sys \<Rightarrow> spin_sys" where
  "lock_first t s = exchange t Spinning s"

definition lock_load :: "nat \<Rightarrow> spin_sys \<Rightarrow> spin_sys" where
  "lock_load t s = (if \<not> locked' s then s\<lparr>spin_threads := (spin_threads s)[t := Exchanging]\<rparr> else s)"

definition lock_again :: "nat \<Rightarrow> spin_sys \<Rightarrow> spin_sys" where
  "lock_again t s = exchange t Spinning s"

definition try_lock_load :: "nat \<Rightarrow> spin_sys \<Rightarrow> spin_sys" where
  "try_lock_load t s = s\<lparr>spin_threads := (spin_threads s)[t := if \<not> locked' s then Trying else SpinOutside]\<rparr>"

definition try_lock_exchange :: "nat \<Rightarrow> spin_sys \<Rightarrow> spin_sys" where
  "try_lock_exchange t s = exchange t SpinOutside s"

definition unlock :: "nat \<Rightarrow> spin_sys \<Rightarrow> spin_sys" where
  "unlock t s = s\<lparr>locked' := False, spin_threads := (spin_threads s)[t := SpinOutside]\<rparr>"

definition is_locked :: "spin_sys \<Rightarrow> bool" where
  "is_locked s = locked' s"

datatype spin_event = SLock nat | SLoad nat | SAgain nat | STryLoad nat | STryExchange nat | SUnlock nat

fun spin_step :: "spin_event \<Rightarrow> spin_sys \<Rightarrow> spin_sys result" where
  "spin_step (SLock t) s = Inr (lock_first t s)"
| "spin_step (SLoad t) s = Inr (lock_load t s)"
| "spin_step (SAgain t) s = Inr (lock_again t s)"
| "spin_step (STryLoad t) s = Inr (try_lock_load t s)"
| "spin_step (STryExchange t) s = Inr (try_lock_exchange t s)"
| "spin_step (SUnlock t) s = Inr (unlock t s)"

definition spin_init :: "nat \<Rightarrow> spin_sys" where
  "spin_init n = \<lparr>locked' = False, spin_threads = replicate n SpinOutside\<rparr>"

definition at :: "nat \<Rightarrow> spin_thread \<Rightarrow> spin_sys \<Rightarrow> bool" where
  "at t p s \<longleftrightarrow> t < length (spin_threads s) \<and> spin_threads s ! t = p"

text \<open>A thread calls from outside and unlocks only what it has locked.\<close>

fun spin_ready :: "spin_event \<Rightarrow> spin_sys \<Rightarrow> bool" where
  "spin_ready (SLock t) s \<longleftrightarrow> at t SpinOutside s"
| "spin_ready (SLoad t) s \<longleftrightarrow> at t Spinning s"
| "spin_ready (SAgain t) s \<longleftrightarrow> at t Exchanging s"
| "spin_ready (STryLoad t) s \<longleftrightarrow> at t SpinOutside s"
| "spin_ready (STryExchange t) s \<longleftrightarrow> at t Trying s"
| "spin_ready (SUnlock t) s \<longleftrightarrow> at t InSection s"

section \<open>The contract\<close>

definition in_section :: "spin_sys \<Rightarrow> unit multiset" where
  "in_section s = held_by (\<lambda>p. if p = InSection then Some () else None) (spin_threads s)"

definition spin_inv :: "spin_sys \<Rightarrow> bool" where
  "spin_inv s \<longleftrightarrow> in_section s = (if locked' s then {#()#} else {#})"

lemmas spin_defs = lock_first_def lock_load_def lock_again_def try_lock_load_def try_lock_exchange_def unlock_def exchange_def

lemma spin_same:
  assumes "at t p s" "p \<noteq> InSection" "q \<noteq> InSection"
  shows "held_by (\<lambda>p. if p = InSection then Some () else None) ((spin_threads s)[t := q]) = in_section s"
  using assms unfolding in_section_def at_def by (intro held_by_same) auto

lemma spin_enter:
  assumes "at t p s" "p \<noteq> InSection"
  shows "held_by (\<lambda>p. if p = InSection then Some () else None) ((spin_threads s)[t := InSection]) = add_mset () (in_section s)"
  using assms unfolding in_section_def at_def by (intro held_by_set_Some) auto

abbreviation spin_follows :: "spin_sys \<Rightarrow> spin_sys \<Rightarrow> bool" where
  "spin_follows s s' \<equiv> spin_inv s' \<and> spec_run (\<lambda>_ _. False) (in_section s) (in_section s')"

lemma spin_exchange:
  assumes s: "spin_inv s" and t: "at t p s" "p \<noteq> InSection" and q: "q \<noteq> InSection"
  shows "spin_follows s (exchange t q s)"
proof (cases "locked' s")
  case True
  then have "in_section (exchange t q s) = in_section s" using spin_same [OF t q] by (simp add: exchange_def in_section_def)
  then show ?thesis using s True by (simp add: spin_inv_def exchange_def)
next
  case False
  then have "in_section (exchange t q s) = add_mset () (in_section s)" using spin_enter [OF t] by (simp add: exchange_def in_section_def)
  moreover have "in_section s = {#}" using s False by (simp add: spin_inv_def)
  ultimately have i: "in_section (exchange t q s) = {#()#}" "in_section s = {#}" by simp_all
  have "spec_step (\<lambda>_ _. False) {#} {#()#}" by (rule spec_acquire) simp
  then show ?thesis using i by (auto simp: spin_inv_def exchange_def)
qed

lemma spin_move:
  assumes s: "spin_inv s" and t: "at t p s" "p \<noteq> InSection" and q: "q \<noteq> InSection"
  shows "spin_follows s (s\<lparr>spin_threads := (spin_threads s)[t := q]\<rparr>)"
proof -
  have "in_section (s\<lparr>spin_threads := (spin_threads s)[t := q]\<rparr>) = in_section s"
    using spin_same [OF t q] by (simp add: in_section_def)
  then show ?thesis using s by (simp add: spin_inv_def)
qed

lemma spin_unlock:
  assumes s: "spin_inv s" and t: "at t InSection s"
  shows "spin_follows s (unlock t s)"
proof -
  have o: "in_section s = add_mset () (in_section (unlock t s))"
    using t unfolding in_section_def unlock_def at_def by (simp add: held_by_set_None)
  then have "in_section (unlock t s) = {#}" using s by (simp add: spin_inv_def split: if_splits)
  moreover have "spec_step (\<lambda>_ _. False) (in_section s) (in_section (unlock t s))" unfolding o by (rule spec_release)
  ultimately show ?thesis by (auto simp: spin_inv_def unlock_def)
qed

lemma spin_step_ok: "spin_inv s \<Longrightarrow> spin_ready e s \<Longrightarrow> \<exists>s'. spin_step e s = Inr s' \<and> spin_follows s s'"
  using spin_exchange [of s _ _ Spinning] spin_exchange [of s _ _ SpinOutside] spin_move [of s] spin_unlock [of s]
  by (cases e) (auto simp: lock_first_def lock_again_def try_lock_exchange_def lock_load_def try_lock_load_def)

interpretation spin: lock_contract spin_inv spin_step spin_ready in_section "\<lambda>_ _. False"
  by unfold_locales (use spin_step_ok in blast)+

lemma spin_init_ok: "spin_inv (spin_init n)" "in_section (spin_init n) = {#}"
proof -
  have "held_by (\<lambda>p. if p = InSection then Some () else None) (replicate n SpinOutside) = {#}" by (induction n) simp_all
  then show "spin_inv (spin_init n)" "in_section (spin_init n) = {#}" by (simp_all add: spin_inv_def in_section_def spin_init_def)
qed

section \<open>Properties\<close>

text \<open>C7. Mutual exclusion of \<open>Spinlock\<close>: whatever threads call \<open>lock\<close>, \<open>try_lock\<close> and \<open>unlock\<close> in whatever
  interleaving of their atomic operations, no two of them are in the critical section, and \<open>is_locked\<close> tells whether
  one is.\<close>

theorem spinlock_excludes:
  assumes s: "steps_to spin_step spin_ready (spin_init n) s" and t: "at t InSection s"
  shows "is_locked s \<and> (\<forall>u. at u InSection s \<longrightarrow> u = t)"
proof -
  have i: "spin_inv s" using spin.simulation [OF s spin_init_ok(1)] by blast
  have "in_section s \<noteq> {#}" using held_by_set_None [of t "spin_threads s" "\<lambda>p. if p = InSection then Some () else None" "()" SpinOutside] t
    by (simp add: in_section_def at_def)
  then have l: "locked' s" using i by (auto simp: spin_inv_def split: if_splits)
  have "u = t" if u: "at u InSection s" for u
  proof (rule ccontr)
    assume "u \<noteq> t"
    have "all_coexist (\<lambda>_ _. False) (in_section s)" using spin.mutual_exclusion [OF s spin_init_ok] .
    from all_coexist_held_by [OF this [unfolded in_section_def], of u t] show False
      using u t \<open>u \<noteq> t\<close> by (simp add: at_def)
  qed
  then show ?thesis using l by (simp add: is_locked_def)
qed

theorem spinlock_excludes_witness:
  "is_locked \<lparr>locked' = True, spin_threads = [InSection, Spinning]\<rparr>"
proof -
  have "run_events spin_step spin_ready [SLock 0, SLock 1, SLoad 1] (spin_init (Suc (Suc 0))) =
      Some \<lparr>locked' = True, spin_threads = [InSection, Spinning]\<rparr>"
    by (simp add: spin_init_def spin_defs at_def)
  from spinlock_excludes [OF run_events_steps [OF steps_refl this], of 0] show ?thesis by (simp add: at_def)
qed

section \<open>The loop of SpinWait\<close>

lemma spin_phase1_runs:
  assumes "j \<le> 11"
  shows "(\<exists>i < j. \<not> loads (k + i) \<and> (\<forall>m < i. loads (k + m)) \<and>
      spin_phase1 loads (2 ^ (11 - j)) k p = Some (Inl (k + i + 1, p + 2 ^ (11 - j + i + 1) - 2 ^ (11 - j)))) \<or>
    (\<forall>m < j. loads (k + m)) \<and> spin_phase1 loads (2 ^ (11 - j)) k p = Some (Inr (k + j, p + 2 ^ 11 - 2 ^ (11 - j)))"
  using assms
proof (induction j arbitrary: k p)
  case 0
  then show ?case by (simp add: spin_phase1.simps kMaxSpinCount_def)
next
  case (Suc j)
  define c where "c = 10 - j"
  have c: "11 - j = Suc c" "c \<le> 10" using Suc.prems by (auto simp: c_def)
  have "(2 :: nat) ^ c \<le> 2 ^ 10" using c(2) by (rule power_increasing) simp
  then have le: "2 ^ c \<le> kMaxSpinCount" "(2 :: nat) ^ c * 2 mod 2 ^ 32 = 2 ^ (11 - j)" using c(1) by (auto simp: kMaxSpinCount_def)
  show ?case
  proof (cases "loads k")
    case False
    then have "spin_phase1 loads (2 ^ c) k p = Some (Inl (k + 0 + 1, p + 2 ^ (c + 0 + 1) - 2 ^ c))"
      using le(1) by (simp add: spin_phase1.simps [of loads "2 ^ c"])
    then show ?thesis using False by (intro disjI1 exI [of _ 0]) (simp add: c_def)
  next
    case True
    then have eq: "spin_phase1 loads (2 ^ c) k p = spin_phase1 loads (2 ^ (11 - j)) (k + 1) (p + 2 ^ c)"
      using le by (simp add: spin_phase1.simps [of loads "2 ^ c"])
    have shift: "(\<forall>m < Suc i. loads (k + m)) \<longleftrightarrow> (\<forall>m < i. loads (k + 1 + m))" for i
      using True by (auto simp: less_Suc_eq_0_disj)
    have sum: "p + 2 ^ c + 2 ^ n - 2 ^ (11 - j) = p + 2 ^ n - 2 ^ c" for n using c(1) by simp
    have "j \<le> 11" using Suc.prems by simp
    from Suc.IH [OF this, of "k + 1" "p + 2 ^ c"] show ?thesis
    proof (elim disjE conjE exE)
      fix i assume i: "i < j" "\<not> loads (k + 1 + i)" "\<forall>m < i. loads (k + 1 + m)"
        "spin_phase1 loads (2 ^ (11 - j)) (k + 1) (p + 2 ^ c) = Some (Inl (k + 1 + i + 1,
          p + 2 ^ c + 2 ^ (11 - j + i + 1) - 2 ^ (11 - j)))"
      have "11 - j + i + 1 = c + Suc i + 1" using c(1) by simp
      then show ?thesis using i eq shift [of i] sum by (intro disjI1 exI [of _ "Suc i"]) (simp add: c_def)
    next
      assume "\<forall>m < j. loads (k + 1 + m)"
        "spin_phase1 loads (2 ^ (11 - j)) (k + 1) (p + 2 ^ c) = Some (Inr (k + 1 + j, p + 2 ^ c + 2 ^ 11 - 2 ^ (11 - j)))"
      then show ?thesis using eq shift [of j] sum [of 11] by (intro disjI2) (simp add: c_def)
    qed
  qed
qed

lemma spin_phase2_runs:
  "\<not> loads (k + i) \<Longrightarrow> \<forall>m < i. loads (k + m) \<Longrightarrow> \<exists>z'. spin_phase2 loads y k z = Some (k + i + 1, z')"
proof (induction i arbitrary: k y z)
  case 0
  then show ?case by (simp add: spin_phase2.simps)
next
  case (Suc i)
  have "\<not> loads (k + 1 + i)" "\<forall>m < i. loads (k + 1 + m)" "loads k" using Suc.prems by auto
  then show ?case using Suc.IH [of "k + 1"] by (simp add: spin_phase2.simps [of loads y k] Let_def)
qed

lemma spin_phase2_returns: "spin_phase2 loads y k z = Some r \<Longrightarrow> \<exists>m. \<not> loads m"
  by (erule spin_phase2.raw_induct [where P = "\<lambda>loads y k z r. \<exists>m. \<not> loads m", rotated])
    (auto split: if_splits simp: Let_def)

text \<open>\<open>SpinWait\<close> returns exactly when the flag is seen free: if the first load that observes it free is number \<open>n\<close>
  it returns right after that load, having paused at most 2047 times; for a flag that is never free it does not return.
  In the first eleven rounds the pauses double and no thread sleeps.\<close>

theorem SpinWait_returns_when_free:
  "((\<forall>m. loads m) \<longrightarrow> SpinWait loads = None) \<and>
   (\<not> loads n \<and> (\<forall>m < n. loads m) \<longrightarrow> (\<exists>p z. SpinWait loads = Some (n + 1, p, z) \<and> p \<le> 2047 \<and>
      (n < 11 \<longrightarrow> p = 2 ^ (n + 1) - 1 \<and> z = 0)))"
proof (intro conjI impI)
  have run: "(\<exists>i < 11. \<not> loads i \<and> (\<forall>m < i. loads m) \<and> spin_phase1 loads 1 0 0 = Some (Inl (Suc i, 2 * 2 ^ i - 1))) \<or>
      (\<forall>m < 11. loads m) \<and> spin_phase1 loads 1 0 0 = Some (Inr (11, 2047))"
    using spin_phase1_runs [of 11 loads 0 0] by simp
  { assume all: "\<forall>m. loads m"
    then have "spin_phase2 loads 0 11 0 = None" using spin_phase2_returns [of loads 0 11 0] by (cases "spin_phase2 loads 0 11 0") auto
    then show "SpinWait loads = None" using run all by (simp add: SpinWait_def) }
  assume n: "\<not> loads n \<and> (\<forall>m < n. loads m)"
  from run show "\<exists>p z. SpinWait loads = Some (n + 1, p, z) \<and> p \<le> 2047 \<and> (n < 11 \<longrightarrow> p = 2 ^ (n + 1) - 1 \<and> z = 0)"
  proof (elim disjE exE conjE)
    fix i assume i: "i < 11" "\<not> loads i" "\<forall>m < i. loads m" "spin_phase1 loads 1 0 0 = Some (Inl (Suc i, 2 * 2 ^ i - 1))"
    then have "i = n" using n by (meson linorder_neqE_nat)
    moreover have "(2 :: nat) ^ i \<le> 2 ^ 10" using i(1) by (intro power_increasing) simp_all
    ultimately show ?thesis using i by (simp add: SpinWait_def)
  next
    assume i: "\<forall>m < 11. loads m" "spin_phase1 loads 1 0 0 = Some (Inr (11, 2047))"
    have "11 \<le> n" using i(1) n by (meson not_le)
    then obtain d where d: "n = 11 + d" by (metis le_Suc_ex)
    obtain z where "spin_phase2 loads 0 11 0 = Some (11 + d + 1, z)"
      using spin_phase2_runs [of loads 11 d 0 0] n d by auto
    then show ?thesis using i d by (simp add: SpinWait_def)
  qed
qed

theorem SpinWait_returns_when_free_witness:
  "\<exists>p z. SpinWait (\<lambda>k. k < 3) = Some (4, p, z) \<and> p \<le> 2047 \<and> p = 15 \<and> z = 0"
  using SpinWait_returns_when_free [of "\<lambda>k. k < 3" 3] by simp

end
