(* ===== verification/Thread_Pool.thy ===== *)
theory Thread_Pool
  imports Lock_Contract Std_Map
begin

text \<open>
  \<open>ThreadPool\<close> (concurrency/threadpool.h, .cc): the state of a pool and its operations. What a lock of the code
  makes atomic is one operation here, and a call that takes locks several times is split where it lets them go; the
  steps of the workers, of the delay scheduler and of the clients are put together in \<open>Thread_Pool_Sys\<close>. Times are
  clock readings in nanoseconds that the steps are given. The counters are words of their width.
\<close>

section \<open>Tasks\<close>

datatype TaskPriority = kLow_task | kNormal_task | kHigh_task | kCritical_task

fun priority_int :: "TaskPriority \<Rightarrow> int" where
  "priority_int kLow_task = 0" | "priority_int kNormal_task = 1"
| "priority_int kHigh_task = 2" | "priority_int kCritical_task = 3"

text \<open>What a \<open>packaged_task\<close> calls: a function of the user, or the body of a recurring task (interval, priority,
  cancellation flag, identifier, function of the user), which schedules itself again.\<close>

datatype callable = UserFn nat | RecurringBody int TaskPriority nat u64 nat

datatype future_state = Pending | HasValue | HasException | BrokenPromise

text \<open>A \<open>packaged_task\<close> with the shared state of its future; \<open>entered\<close> counts how often it was called.\<close>

record packaged =
  fn :: callable
  future :: future_state
  entered :: nat

text \<open>The two lambdas that are put into the queues: the one of \<open>SubmitWithPriority\<close>, and the one of
  \<open>SubmitDelayedWithPriority\<close> with its cancellation flag and identifier. A packaged task is named by its index.\<close>

datatype closure = RunTask nat | RunDelayed nat nat u64

fun task_of :: "closure \<Rightarrow> nat" where
  "task_of (RunTask i) = i"
| "task_of (RunDelayed i _ _) = i"

record delayed_task =
  execute_time :: int
  dt_priority :: TaskPriority
  dt_task :: closure
  dt_task_id :: u64

record task_handle =
  handle_task_id :: u64
  handle_cancelled :: "nat option"

definition TaskHandle_empty :: task_handle where
  "TaskHandle_empty = \<lparr>handle_task_id = 0, handle_cancelled = None\<rparr>"

definition GetId :: "task_handle \<Rightarrow> u64" where
  "GetId h = handle_task_id h"

section \<open>std::priority_queue\<close>

text \<open>The standard says of the top of a priority queue that no element is greater; which one of several such
  elements it is depends on the history of the heap. The queue is the list of its elements, and \<open>k\<close> chooses among
  the greatest.\<close>

definition maximal_at :: "('a \<Rightarrow> 'a \<Rightarrow> bool) \<Rightarrow> 'a list \<Rightarrow> nat list" where
  "maximal_at lt xs = filter (\<lambda>i. list_all (\<lambda>y. \<not> lt (xs ! i) y) xs) [0 ..< length xs]"

definition top_at :: "('a \<Rightarrow> 'a \<Rightarrow> bool) \<Rightarrow> nat \<Rightarrow> 'a list \<Rightarrow> nat" where
  "top_at lt k xs = maximal_at lt xs ! (k mod length (maximal_at lt xs))"

definition pop_at :: "nat \<Rightarrow> 'a list \<Rightarrow> 'a list" where
  "pop_at i xs = take i xs @ drop (Suc i) xs"

definition PriorityTask_less :: "int \<times> closure \<Rightarrow> int \<times> closure \<Rightarrow> bool" where
  "PriorityTask_less x y \<longleftrightarrow> fst x < fst y"

definition DelayedTask_less :: "delayed_task \<Rightarrow> delayed_task \<Rightarrow> bool" where
  "DelayedTask_less x y = (if execute_time x \<noteq> execute_time y then execute_time x > execute_time y
     else priority_int (dt_priority x) < priority_int (dt_priority y))"

section \<open>State\<close>

record pool_stats =
  tasks_submitted :: u64
  tasks_completed :: u64
  tasks_failed :: u64
  delayed_tasks_submitted :: u64
  delayed_tasks_executed :: u64
  tasks_cancelled :: u64
  active_threads :: u32
  queue_size :: u32
  delayed_queue_size :: u32
  start_time :: int

definition ThreadPoolStats_new :: "int \<Rightarrow> pool_stats" where
  "ThreadPoolStats_new now = \<lparr>tasks_submitted = 0, tasks_completed = 0, tasks_failed = 0, delayed_tasks_submitted = 0,
     delayed_tasks_executed = 0, tasks_cancelled = 0, active_threads = 0, queue_size = 0, delayed_queue_size = 0,
     start_time = now\<rparr>"

definition GetCompletionRate :: "pool_stats \<Rightarrow> 'a::linordered_field" where
  "GetCompletionRate st = (if tasks_submitted st > 0
     then of_nat (unat (tasks_completed st)) / of_nat (unat (tasks_submitted st)) else 0)"

definition GetUptime :: "int \<Rightarrow> pool_stats \<Rightarrow> int" where
  "GetUptime now st = (now - start_time st) div 1000000"

definition GetTotalQueueSize :: "pool_stats \<Rightarrow> u32" where
  "GetTotalQueueSize st = queue_size st + delayed_queue_size st"

record pool_config =
  min_threads :: u32
  max_threads :: u32
  initial_threads :: u32
  max_queue_size :: u32
  thread_idle_timeout :: int
  delay_scheduler_interval :: int
  enable_work_stealing :: bool
  enable_priority_queue :: bool
  enable_delayed_tasks :: bool

definition ThreadPoolConfig_default :: "u32 \<Rightarrow> pool_config" where
  "ThreadPoolConfig_default hardware_concurrency = \<lparr>min_threads = 1, max_threads = hardware_concurrency,
     initial_threads = max 1 (hardware_concurrency div 2), max_queue_size = 10000, thread_idle_timeout = 30000,
     delay_scheduler_interval = 10, enable_work_stealing = True, enable_priority_queue = True, enable_delayed_tasks = True\<rparr>"

text \<open>Where the threads are. A worker: the places of \<open>WorkerLoop\<close> and, from \<open>WCalled\<close> on, of the lambda it runs.\<close>

datatype worker_pc = WNew | WTop | WPausing | WPauseBlocking | WPauseAsleep | WCheckStop | WLocal | WShared | WStealing
  | WCalled closure | WEntering closure | WInUser closure | WAgain closure | WResubmit closure | WReturned closure bool
  | WIdle | WIdleLock | WWaiting | WExited

record worker =
  thread_id :: u32
  pc :: worker_pc
  last_work_time :: int

text \<open>The scheduler: in front of its loop test, of \<open>ProcessDelayedTasks\<close>, with the vector \<open>ready\<close> between the two
  locks, in front of the wait, asleep or woken with the time \<open>next_wake\<close>.\<close>

datatype scheduler_pc = SNone | SLoop | SProcess | SPush "delayed_task list" | SArm | SAsleep int | SWoken int | SExited

text \<open>A client: outside; in \<open>EnqueueTask\<close> behind the lock; in \<open>Resize\<close>; in \<open>WaitForTasks\<close>, by itself or
  called by \<open>Shutdown\<close>; in \<open>Shutdown\<close> or \<open>ShutdownNow\<close>.\<close>

datatype client_pc = COutside | CExpanding | CGrowing | CResizing u32 | CResizeAdd u32
  | CWaitEval bool | CWaitBlocking bool | CWaitAsleep bool | CStopping | CJoinScheduler | CJoinLock | CJoining

record pool =
  cfg :: pool_config
  shutdown :: bool
  paused :: bool
  next_task_id :: u64
  threads :: "nat list"
  thread_local_queues :: "closure list list"
  tasks :: "closure list"
  priority_tasks :: "(int \<times> closure) list"
  delayed_tasks :: "delayed_task list"
  cancelled_tasks :: "(u64 \<times> nat) list"
  stats :: pool_stats
  next_thread_id :: u32
  packages :: "packaged list"
  flags :: "bool list"
  queue_mutex :: bool
  threads_mutex :: bool
  workers :: "worker list"
  scheduler :: scheduler_pc
  clients :: "client_pc list"

abbreviation upd_stats :: "(pool_stats \<Rightarrow> pool_stats) \<Rightarrow> pool \<Rightarrow> pool" where
  "upd_stats f p \<equiv> p\<lparr>stats := f (stats p)\<rparr>"

section \<open>Construction\<close>

definition AddWorkerThread :: "pool \<Rightarrow> pool" where
  "AddWorkerThread p = p\<lparr>next_thread_id := next_thread_id p + 1, threads := threads p @ [length (workers p)],
     workers := workers p @ [\<lparr>thread_id = next_thread_id p, pc = WNew, last_work_time = 0\<rparr>]\<rparr>"

definition clamp :: "u32 \<Rightarrow> u32 \<Rightarrow> u32 \<Rightarrow> u32" where
  "clamp v lo hi = (if v < lo then lo else if hi < v then hi else v)"

definition ThreadPool_new :: "int \<Rightarrow> nat \<Rightarrow> pool_config \<Rightarrow> pool result" where
  "ThreadPool_new now num_clients config =
    check (1 \<le> max_threads config) (check (min_threads config \<le> max_threads config)
      (let c = config\<lparr>initial_threads := clamp (initial_threads config) (min_threads config) (max_threads config)\<rparr>
       in Inr ((AddWorkerThread ^^ unat (initial_threads c))
         \<lparr>cfg = c, shutdown = False, paused = False, next_task_id = 1, threads = [],
          thread_local_queues = (if enable_work_stealing c then replicate (unat (max_threads c)) [] else []),
          tasks = [], priority_tasks = [], delayed_tasks = [], cancelled_tasks = [], stats = ThreadPoolStats_new now,
          next_thread_id = 0, packages = [], flags = [], queue_mutex = False, threads_mutex = False, workers = [],
          scheduler = (if enable_delayed_tasks c then SLoop else SNone), clients = replicate num_clients COutside\<rparr>)))"

definition ThreadPool_fixed :: "int \<Rightarrow> nat \<Rightarrow> u32 \<Rightarrow> u32 \<Rightarrow> pool result" where
  "ThreadPool_fixed now num_clients hardware_concurrency num_threads = check (1 \<le> num_threads)
    (ThreadPool_new now num_clients ((ThreadPoolConfig_default hardware_concurrency)
       \<lparr>min_threads := num_threads, max_threads := num_threads, initial_threads := num_threads\<rparr>))"

definition GetThreadCount :: "pool \<Rightarrow> u32" where
  "GetThreadCount p = of_nat (length (threads p))"

definition GetQueueSize :: "pool \<Rightarrow> u32" where
  "GetQueueSize p = queue_size (stats p)"

definition GetActiveThreadCount :: "pool \<Rightarrow> u32" where
  "GetActiveThreadCount p = active_threads (stats p)"

definition GetDelayedTasksCount :: "pool \<Rightarrow> u32" where
  "GetDelayedTasksCount p = delayed_queue_size (stats p)"

section \<open>Facts on the priority queues\<close>

lemma maximal_exists:
  assumes "irreflp lt" "transp lt" "xs \<noteq> []"
  shows "\<exists>i < length xs. \<forall>y \<in> set xs. \<not> lt (xs ! i) y"
  using assms(3)
proof (induction xs)
  case (Cons x xs)
  show ?case
  proof (cases "xs = []")
    case True
    then show ?thesis using assms(1) by (auto simp: irreflp_def)
  next
    case False
    then obtain i where i: "i < length xs" "\<forall>y \<in> set xs. \<not> lt (xs ! i) y" using Cons.IH by blast
    show ?thesis
    proof (cases "lt (xs ! i) x")
      case True
      then have "\<not> lt x y" if "y \<in> set (x # xs)" for y
        using i(2) that assms(1,2) by (auto simp: irreflp_def dest: transpD)
      then show ?thesis by (intro exI [of _ 0]) simp
    next
      case False
      then show ?thesis using i by (intro exI [of _ "Suc i"]) simp
    qed
  qed
qed simp

lemma top_at:
  assumes "irreflp lt" "transp lt" "xs \<noteq> []"
  shows "top_at lt k xs < length xs" "y \<in> set xs \<Longrightarrow> \<not> lt (xs ! top_at lt k xs) y"
proof -
  have "maximal_at lt xs \<noteq> []" using maximal_exists [OF assms] by (auto simp: maximal_at_def filter_empty_conv list_all_iff)
  then have "top_at lt k xs \<in> set (maximal_at lt xs)" by (simp add: top_at_def)
  then show "top_at lt k xs < length xs" "y \<in> set xs \<Longrightarrow> \<not> lt (xs ! top_at lt k xs) y"
    by (auto simp: maximal_at_def list_all_iff)
qed

lemma length_pop_at [simp]: "i < length xs \<Longrightarrow> length (pop_at i xs) = length xs - 1"
  by (simp add: pop_at_def)

lemma mset_pop_at: "i < length xs \<Longrightarrow> mset xs = add_mset (xs ! i) (mset (pop_at i xs))"
  by (subst id_take_nth_drop [of i xs]) (simp_all add: pop_at_def)

lemma PriorityTask_order [simp]: "irreflp PriorityTask_less" "transp PriorityTask_less"
  by (auto simp: irreflp_def transp_def PriorityTask_less_def)

lemma DelayedTask_order [simp]: "irreflp DelayedTask_less" "transp DelayedTask_less"
  by (auto simp: irreflp_def transp_def DelayedTask_less_def split: if_splits)

section \<open>Submission\<close>

text \<open>\<open>make_shared<packaged_task>\<close> and \<open>make_shared<atomic<bool>>(false)\<close>.\<close>

definition make_package :: "callable \<Rightarrow> pool \<Rightarrow> pool" where
  "make_package f p = p\<lparr>packages := packages p @ [\<lparr>fn = f, future = Pending, entered = 0\<rparr>]\<rparr>"

definition make_flag :: "pool \<Rightarrow> pool" where
  "make_flag p = p\<lparr>flags := flags p @ [False]\<rparr>"

text \<open>A lambda that is destroyed destroys its packaged task; if that was never called, the promise is broken.\<close>

definition set_future :: "nat \<Rightarrow> future_state \<Rightarrow> pool \<Rightarrow> pool" where
  "set_future i x p = p\<lparr>packages := (packages p)[i := (packages p ! i)\<lparr>future := x\<rparr>]\<rparr>"

definition destroy_closure :: "closure \<Rightarrow> pool \<Rightarrow> pool" where
  "destroy_closure t = set_future (task_of t) BrokenPromise"

text \<open>One element pushed onto the queue that the configuration selects.\<close>

definition push_task :: "TaskPriority \<Rightarrow> closure \<Rightarrow> pool \<Rightarrow> pool" where
  "push_task prio t p = upd_stats (queue_size_update (\<lambda>n. n + 1))
     (if enable_priority_queue (cfg p) then p\<lparr>priority_tasks := priority_tasks p @ [(priority_int prio, t)]\<rparr>
      else p\<lparr>tasks := tasks p @ [t]\<rparr>)"

text \<open>\<open>EnqueueTask\<close> under \<open>queue_mutex_\<close>: whether the task was queued. What follows, \<open>notify_one\<close> and
  \<open>TryExpandPool\<close>, is done without the lock.\<close>

definition EnqueueTask_locked :: "TaskPriority \<Rightarrow> closure \<Rightarrow> pool \<Rightarrow> (bool \<times> pool) result" where
  "EnqueueTask_locked prio t p = check (\<not> shutdown p)
    (if max_queue_size (cfg p) > 0 \<and> GetQueueSize p \<ge> max_queue_size (cfg p) then Inr (False, destroy_closure t p)
     else Inr (True, upd_stats (tasks_submitted_update (\<lambda>n. n + 1)) (push_task prio t p)))"

definition SubmitWithPriority :: "TaskPriority \<Rightarrow> callable \<Rightarrow> pool \<Rightarrow> (nat \<times> bool \<times> pool) result" where
  "SubmitWithPriority prio f p =
    rbind (EnqueueTask_locked prio (RunTask (length (packages p))) (make_package f p))
      (\<lambda>(queued, p'). Inr (length (packages p), queued, p'))"

definition Submit :: "callable \<Rightarrow> pool \<Rightarrow> (nat \<times> bool \<times> pool) result" where
  "Submit f = SubmitWithPriority kNormal_task f"

text \<open>\<open>TryExpandPool\<close>: the test, in front of \<open>AddWorkerThread\<close>.\<close>

definition TryExpandPool_test :: "pool \<Rightarrow> bool" where
  "TryExpandPool_test p \<longleftrightarrow> (let thread_count = GetThreadCount p in
     \<not> thread_count \<ge> max_threads (cfg p) \<and> GetQueueSize p > thread_count * 2 \<and> GetActiveThreadCount p \<ge> thread_count)"

text \<open>\<open>notify\<close> of \<open>delayed_condition_\<close>, of \<open>pause_condition_\<close> and of \<open>finish_condition_\<close> wakes who sleeps on it. The workers
  that sleep on \<open>condition_\<close> wake by themselves within 50 milliseconds.\<close>

definition notify_delayed :: "pool \<Rightarrow> pool" where
  "notify_delayed p = (case scheduler p of SAsleep t \<Rightarrow> p\<lparr>scheduler := SWoken t\<rparr> | _ \<Rightarrow> p)"

definition notify_pause :: "pool \<Rightarrow> pool" where
  "notify_pause p = p\<lparr>workers := map (\<lambda>w. if pc w = WPauseAsleep then w\<lparr>pc := WPausing\<rparr> else w) (workers p)\<rparr>"

definition notify_finish :: "pool \<Rightarrow> pool" where
  "notify_finish p = p\<lparr>clients := map (\<lambda>c. case c of CWaitAsleep b \<Rightarrow> CWaitEval b | _ \<Rightarrow> c) (clients p)\<rparr>"

definition SubmitDelayedWithPriority ::
    "int \<Rightarrow> int \<Rightarrow> TaskPriority \<Rightarrow> callable \<Rightarrow> pool \<Rightarrow> (nat \<times> task_handle \<times> pool) result" where
  "SubmitDelayedWithPriority now delay prio f p =
    check (enable_delayed_tasks (cfg p))
     (let i = length (packages p); task_id = next_task_id p; c = length (flags p);
          p1 = make_flag ((make_package f p)\<lparr>next_task_id := task_id + 1\<rparr>)
      in check (\<not> shutdown p1) (Inr (i, \<lparr>handle_task_id = task_id, handle_cancelled = Some c\<rparr>,
        notify_delayed (upd_stats (delayed_tasks_submitted_update (\<lambda>n. n + 1) \<circ> delayed_queue_size_update (\<lambda>n. n + 1))
         (p1\<lparr>delayed_tasks := delayed_tasks p1 @ [\<lparr>execute_time = now + delay * 1000000, dt_priority = prio,
              dt_task = RunDelayed i c task_id, dt_task_id = task_id\<rparr>],
            cancelled_tasks := map_put task_id c (cancelled_tasks p1)\<rparr>)))))"

definition SubmitDelayed :: "int \<Rightarrow> int \<Rightarrow> callable \<Rightarrow> pool \<Rightarrow> (nat \<times> task_handle \<times> pool) result" where
  "SubmitDelayed now delay f = SubmitDelayedWithPriority now delay kNormal_task f"

text \<open>\<open>now'\<close> is the clock reading of \<open>SubmitDelayedWithPriority\<close>. The flag says that \<open>EnqueueTask\<close> has still to
  notify and to expand the pool.\<close>

definition SubmitAtWithPriority ::
    "int \<Rightarrow> int \<Rightarrow> int \<Rightarrow> TaskPriority \<Rightarrow> callable \<Rightarrow> pool \<Rightarrow> (nat \<times> task_handle \<times> bool \<times> pool) result" where
  "SubmitAtWithPriority now now' when prio f p =
    (if when \<le> now
     then rbind (SubmitWithPriority prio f p) (\<lambda>(i, queued, p'). Inr (i, TaskHandle_empty, queued, p'))
     else rbind (SubmitDelayedWithPriority now' ((when - now) div 1000000) prio f p)
       (\<lambda>(i, h, p'). Inr (i, h, False, p')))"

definition SubmitAt :: "int \<Rightarrow> int \<Rightarrow> int \<Rightarrow> callable \<Rightarrow> pool \<Rightarrow> (nat \<times> task_handle \<times> bool \<times> pool) result" where
  "SubmitAt now now' when f = SubmitAtWithPriority now now' when kNormal_task f"

definition SubmitRecurringWithPriority ::
    "int \<Rightarrow> int \<Rightarrow> TaskPriority \<Rightarrow> nat \<Rightarrow> pool \<Rightarrow> (task_handle \<times> pool) result" where
  "SubmitRecurringWithPriority now interval prio user_fn p =
    check (enable_delayed_tasks (cfg p))
     (let task_id = next_task_id p; c = length (flags p);
          p1 = (make_flag p)\<lparr>next_task_id := task_id + 1, cancelled_tasks := map_put task_id c (cancelled_tasks p)\<rparr>
      in rbind (SubmitDelayedWithPriority now 0 prio (RecurringBody interval prio c task_id user_fn) p1)
        (\<lambda>(_, _, p2). Inr (\<lparr>handle_task_id = task_id, handle_cancelled = Some c\<rparr>, p2)))"

definition SubmitRecurring :: "int \<Rightarrow> int \<Rightarrow> nat \<Rightarrow> pool \<Rightarrow> (task_handle \<times> pool) result" where
  "SubmitRecurring now interval user_fn = SubmitRecurringWithPriority now interval kNormal_task user_fn"

text \<open>\<open>SubmitBatch\<close>, when no other thread interferes between its submissions.\<close>

definition TryExpandPool :: "pool \<Rightarrow> pool" where
  "TryExpandPool p = (if TryExpandPool_test p then AddWorkerThread p else p)"

fun SubmitBatch :: "callable list \<Rightarrow> pool \<Rightarrow> (nat list \<times> pool) result" where
  "SubmitBatch [] p = Inr ([], p)"
| "SubmitBatch (f # fs) p = rbind (Submit f p) (\<lambda>(i, queued, p1).
     rbind (SubmitBatch fs (if queued then TryExpandPool p1 else p1)) (\<lambda>(is, p2). Inr (i # is, p2)))"

section \<open>Cancellation\<close>

definition Handle_Cancel :: "task_handle \<Rightarrow> pool \<Rightarrow> pool" where
  "Handle_Cancel h p = (case handle_cancelled h of None \<Rightarrow> p | Some c \<Rightarrow> p\<lparr>flags := (flags p)[c := True]\<rparr>)"

definition Handle_IsCancelled :: "task_handle \<Rightarrow> pool \<Rightarrow> bool" where
  "Handle_IsCancelled h p = (case handle_cancelled h of None \<Rightarrow> False | Some c \<Rightarrow> flags p ! c)"

definition CancelTask_id :: "u64 \<Rightarrow> pool \<Rightarrow> bool \<times> pool" where
  "CancelTask_id task_id p = (case map_of (cancelled_tasks p) task_id of
     Some c \<Rightarrow> (True, p\<lparr>flags := (flags p)[c := True]\<rparr>) | None \<Rightarrow> (False, p))"

definition CancelTask :: "task_handle \<Rightarrow> pool \<Rightarrow> bool \<times> pool" where
  "CancelTask h p = CancelTask_id (GetId h) p"

section \<open>Taking tasks\<close>

definition DequeueTask :: "nat \<Rightarrow> pool \<Rightarrow> (closure \<times> pool) option" where
  "DequeueTask k p =
    (if enable_priority_queue (cfg p) \<and> priority_tasks p \<noteq> []
     then let i = top_at PriorityTask_less k (priority_tasks p)
       in Some (snd (priority_tasks p ! i),
         upd_stats (queue_size_update (\<lambda>n. n - 1)) (p\<lparr>priority_tasks := pop_at i (priority_tasks p)\<rparr>))
     else case tasks p of t # ts \<Rightarrow> Some (t, upd_stats (queue_size_update (\<lambda>n. n - 1)) (p\<lparr>tasks := ts\<rparr>))
       | [] \<Rightarrow> None)"

text \<open>The front of the queue of one thread, as the worker itself (\<open>slot\<close>) and a thief take it.\<close>

definition pop_local :: "nat \<Rightarrow> pool \<Rightarrow> (closure \<times> pool) option" where
  "pop_local slot p = (case thread_local_queues p ! slot of t # ts \<Rightarrow>
       Some (t, p\<lparr>thread_local_queues := (thread_local_queues p)[slot := ts]\<rparr>) | [] \<Rightarrow> None)"

definition TakeLocal :: "u32 \<Rightarrow> pool \<Rightarrow> (closure \<times> pool) option result" where
  "TakeLocal me p = (let n = length (thread_local_queues p) in
     guard_ub (n \<noteq> 0) (Inr (pop_local (unat me mod n) p)))"

fun steal_from :: "nat list \<Rightarrow> nat \<Rightarrow> pool \<Rightarrow> (closure \<times> pool) option" where
  "steal_from [] own p = None"
| "steal_from (i # is) own p = (if i = own then steal_from is own p
     else case pop_local i p of Some r \<Rightarrow> Some r | None \<Rightarrow> steal_from is own p)"

definition StealTask :: "u32 \<Rightarrow> pool \<Rightarrow> (closure \<times> pool) option" where
  "StealTask thief_id p = (let n = length (thread_local_queues p) in steal_from [0 ..< n] (unat thief_id mod n) p)"

section \<open>The delay scheduler\<close>

definition is_cancelled :: "u64 \<Rightarrow> pool \<Rightarrow> bool" where
  "is_cancelled task_id p = (case map_of (cancelled_tasks p) task_id of Some c \<Rightarrow> flags p ! c | None \<Rightarrow> False)"

text \<open>The loop of \<open>ProcessDelayedTasks\<close> under \<open>delayed_queue_mutex_\<close>: the due tasks are popped, and those that
  were cancelled are dropped. \<open>ks\<close> chooses among equal tops.\<close>

definition pop_due :: "nat \<Rightarrow> pool \<Rightarrow> pool" where
  "pop_due i p = upd_stats (delayed_queue_size_update (\<lambda>n. n - 1)) (p\<lparr>delayed_tasks := pop_at i (delayed_tasks p)\<rparr>)"

definition drop_cancelled :: "delayed_task \<Rightarrow> pool \<Rightarrow> pool" where
  "drop_cancelled dt p = destroy_closure (dt_task dt) (upd_stats (tasks_cancelled_update (\<lambda>n. n + 1))
     (p\<lparr>cancelled_tasks := map_erase (dt_task_id dt) (cancelled_tasks p)\<rparr>))"

abbreviation top_due :: "(nat \<Rightarrow> nat) \<Rightarrow> pool \<Rightarrow> nat" where
  "top_due ks p \<equiv> top_at DelayedTask_less (ks (length (delayed_tasks p))) (delayed_tasks p)"

lemma delayed_tasks_pop_due: "delayed_tasks (pop_due i p) = pop_at i (delayed_tasks p)"
  by (simp add: pop_due_def)

lemma delayed_tasks_drop_cancelled: "delayed_tasks (drop_cancelled dt p) = delayed_tasks p"
  by (simp add: drop_cancelled_def destroy_closure_def set_future_def)

function ProcessDelayed_collect :: "int \<Rightarrow> (nat \<Rightarrow> nat) \<Rightarrow> pool \<Rightarrow> delayed_task list \<times> pool" where
  "ProcessDelayed_collect now ks p =
    (if delayed_tasks p = [] then ([], p)
     else let i = top_due ks p; dt = delayed_tasks p ! i; p1 = pop_due i p
       in if \<not> execute_time dt \<le> now then ([], p)
       else if is_cancelled (dt_task_id dt) p1 then ProcessDelayed_collect now ks (drop_cancelled dt p1)
       else let (ready, p2) = ProcessDelayed_collect now ks p1 in (dt # ready, p2))"
  by pat_completeness auto
termination
proof (relation "measure (\<lambda>(now, ks, p). length (delayed_tasks p))")
qed (auto simp: delayed_tasks_pop_due delayed_tasks_drop_cancelled top_at)

declare ProcessDelayed_collect.simps [simp del]

text \<open>The second half, under \<open>queue_mutex_\<close>.\<close>

definition ProcessDelayed_push :: "delayed_task list \<Rightarrow> pool \<Rightarrow> pool" where
  "ProcessDelayed_push ready p = fold (\<lambda>dt. push_task (dt_priority dt) (dt_task dt)) ready p"

text \<open>The test of the wait in \<open>DelaySchedulerLoop\<close>, and the time until which it sleeps.\<close>

definition scheduler_wakes :: "int \<Rightarrow> pool \<Rightarrow> bool" where
  "scheduler_wakes now p \<longleftrightarrow> shutdown p \<or> (delayed_tasks p \<noteq> [] \<and> execute_time (delayed_tasks p ! top_due id p) \<le> now)"

definition next_wake :: "int \<Rightarrow> pool \<Rightarrow> int" where
  "next_wake now p = (if delayed_tasks p \<noteq> [] then execute_time (delayed_tasks p ! top_due id p)
     else now + delay_scheduler_interval (cfg p) * 1000000)"

section \<open>Running a task\<close>

definition start_active :: "pool \<Rightarrow> pool" where
  "start_active = upd_stats (active_threads_update (\<lambda>n. n + 1))"

text \<open>The first lines of the lambda: does it go on to its packaged task?\<close>

fun enter_closure :: "closure \<Rightarrow> pool \<Rightarrow> bool \<times> pool" where
  "enter_closure (RunTask i) p = (True, start_active p)"
| "enter_closure (RunDelayed i c task_id) p =
    (if flags p ! c then (False, destroy_closure (RunDelayed i c task_id) (upd_stats (tasks_cancelled_update (\<lambda>n. n + 1)) p))
     else (True, start_active p))"

text \<open>The packaged task is called: whether it goes on to the function of the user.\<close>

definition cancelled_or_shutdown :: "nat \<Rightarrow> pool \<Rightarrow> bool" where
  "cancelled_or_shutdown c p \<longleftrightarrow> flags p ! c \<or> shutdown p"

definition enter_package :: "nat \<Rightarrow> pool \<Rightarrow> bool \<times> pool" where
  "enter_package i p = (let k = packages p ! i in
     ((case fn k of UserFn _ \<Rightarrow> True | RecurringBody _ _ c _ _ \<Rightarrow> \<not> cancelled_or_shutdown c p),
      p\<lparr>packages := (packages p)[i := k\<lparr>entered := entered k + 1\<rparr>]\<rparr>))"

text \<open>The function of the user returns or throws. Of a plain task the packaged task keeps the exception; the body of a
  recurring task counts it and goes on.\<close>

definition return_from_user :: "nat \<Rightarrow> bool \<Rightarrow> pool \<Rightarrow> pool" where
  "return_from_user i throws p = (case fn (packages p ! i) of UserFn _ \<Rightarrow> p
   | RecurringBody _ _ _ _ _ \<Rightarrow> upd_stats (if throws then tasks_failed_update (\<lambda>n. n + 1) else tasks_completed_update (\<lambda>n. n + 1)) p)"

text \<open>The body of a recurring task submits itself again.\<close>

definition resubmit :: "int \<Rightarrow> nat \<Rightarrow> pool \<Rightarrow> pool result" where
  "resubmit now i p = (case fn (packages p ! i) of UserFn n \<Rightarrow> Inr p
   | RecurringBody interval prio c task_id user_fn \<Rightarrow>
       rbind (SubmitDelayedWithPriority now interval prio (RecurringBody interval prio c task_id user_fn) p) (\<lambda>(_, _, p'). Inr p'))"

text \<open>The packaged task returns (it never throws) and the lambda ends.\<close>

fun leave_closure :: "closure \<Rightarrow> bool \<Rightarrow> pool \<Rightarrow> pool" where
  "leave_closure t throws p = notify_finish (upd_stats
     ((case t of RunTask _ \<Rightarrow> id | RunDelayed _ _ _ \<Rightarrow> delayed_tasks_executed_update (\<lambda>n. n + 1))
       \<circ> tasks_completed_update (\<lambda>n. n + 1) \<circ> active_threads_update (\<lambda>n. n - 1))
     (set_future (task_of t) (if throws then HasException else HasValue) p))"

section \<open>Waiting, pausing, stopping\<close>

definition WaitForTasks_done :: "pool \<Rightarrow> bool" where
  "WaitForTasks_done p \<longleftrightarrow> GetQueueSize p = 0 \<and> active_threads (stats p) = 0"

definition Pool_Pause :: "pool \<Rightarrow> pool" where
  "Pool_Pause p = p\<lparr>paused := True\<rparr>"

definition Pool_Resume :: "pool \<Rightarrow> pool" where
  "Pool_Resume p = notify_pause (p\<lparr>paused := False\<rparr>)"

definition Pool_IsPaused :: "pool \<Rightarrow> bool" where
  "Pool_IsPaused p = paused p"

definition IsShutdown :: "pool \<Rightarrow> bool" where
  "IsShutdown p = shutdown p"

text \<open>\<open>Shutdown\<close> under the two queue locks, with the notifications behind it.\<close>

definition Shutdown_flag :: "pool \<Rightarrow> pool" where
  "Shutdown_flag p = notify_pause (notify_delayed (p\<lparr>shutdown := True\<rparr>))"

text \<open>\<open>ShutdownNow\<close> under the two queue locks: every queue is emptied; the lambdas in them are destroyed.\<close>

definition queued_closures :: "pool \<Rightarrow> closure list" where
  "queued_closures p = tasks p @ map snd (priority_tasks p) @ map dt_task (delayed_tasks p) @
     (if enable_work_stealing (cfg p) then concat (thread_local_queues p) else [])"

definition ShutdownNow_drain :: "pool \<Rightarrow> pool" where
  "ShutdownNow_drain p = (let p1 = fold destroy_closure (queued_closures p) p in
     notify_pause (notify_delayed (upd_stats (queue_size_update (\<lambda>_. 0) \<circ> delayed_queue_size_update (\<lambda>_. 0))
       (p1\<lparr>shutdown := True, tasks := [], priority_tasks := [], delayed_tasks := [], cancelled_tasks := [],
          thread_local_queues := (if enable_work_stealing (cfg p) then map (\<lambda>_. []) (thread_local_queues p)
            else thread_local_queues p)\<rparr>))))"

definition Resize_target :: "u32 \<Rightarrow> pool \<Rightarrow> u32" where
  "Resize_target new_size p = clamp new_size (min_threads (cfg p)) (max_threads (cfg p))"

definition Pool_ResetStats :: "int \<Rightarrow> pool \<Rightarrow> pool" where
  "Pool_ResetStats now = upd_stats (\<lambda>st. st\<lparr>tasks_submitted := 0, tasks_completed := 0, tasks_failed := 0,
     delayed_tasks_submitted := 0, delayed_tasks_executed := 0, tasks_cancelled := 0, start_time := now\<rparr>)"

definition SetMaxQueueSize :: "u32 \<Rightarrow> pool \<Rightarrow> pool" where
  "SetMaxQueueSize n p = p\<lparr>cfg := (cfg p)\<lparr>max_queue_size := n\<rparr>\<rparr>"

end
