(* ===== verification/Thread_Pool_Sys.thy ===== *)
theory Thread_Pool_Sys
  imports Thread_Pool
begin

text \<open>
  The threads of a \<open>ThreadPool\<close>: what a worker, the delay scheduler and a client do next is determined by the place
  where they are, by the clock, by the choice among equal tops of a heap and by whether the function of the user
  throws. A step that needs a mutex is possible only when nobody holds it. \<open>queue_mutex\<close> and \<open>threads_mutex\<close> say that
  a thread holds the lock across steps: a waiter between its test and its sleep, and \<open>Shutdown\<close> while it joins.
  A task that calls the pool is a client.
\<close>

definition set_pc :: "nat \<Rightarrow> worker_pc \<Rightarrow> pool \<Rightarrow> pool" where
  "set_pc w x p = p\<lparr>workers := (workers p)[w := (workers p ! w)\<lparr>pc := x\<rparr>]\<rparr>"

definition set_time :: "nat \<Rightarrow> int \<Rightarrow> pool \<Rightarrow> pool" where
  "set_time w now p = p\<lparr>workers := (workers p)[w := (workers p ! w)\<lparr>last_work_time := now\<rparr>]\<rparr>"

definition set_client :: "nat \<Rightarrow> client_pc \<Rightarrow> pool \<Rightarrow> pool" where
  "set_client c x p = p\<lparr>clients := (clients p)[c := x]\<rparr>"

section \<open>Workers\<close>

definition go_on :: "nat \<Rightarrow> worker_pc \<Rightarrow> (closure \<times> pool) option \<Rightarrow> pool \<Rightarrow> pool" where
  "go_on w otherwise r p = (case r of Some (t, p') \<Rightarrow> set_pc w (WCalled t) p' | None \<Rightarrow> set_pc w otherwise p)"

fun worker_step :: "int \<Rightarrow> nat \<Rightarrow> bool \<Rightarrow> nat \<Rightarrow> worker_pc \<Rightarrow> pool \<Rightarrow> pool result" where
  "worker_step now k throws w WNew p = Inr (set_pc w WTop (set_time w now p))"
| "worker_step now k throws w WTop p = Inr (set_pc w (if paused p then WPausing else WCheckStop) p)"
| "worker_step now k throws w WPausing p = Inr (if \<not> paused p \<or> shutdown p then set_pc w WCheckStop p
     else set_pc w WPauseBlocking (p\<lparr>queue_mutex := True\<rparr>))"
| "worker_step now k throws w WPauseBlocking p = Inr (set_pc w WPauseAsleep (p\<lparr>queue_mutex := False\<rparr>))"
| "worker_step now k throws w WPauseAsleep p = Inr (set_pc w WPausing p)"
| "worker_step now k throws w WCheckStop p = Inr (set_pc w (if shutdown p \<and> GetQueueSize p = 0 then WExited
     else if enable_work_stealing (cfg p) then WLocal else WShared) p)"
| "worker_step now k throws w WLocal p =
     rbind (TakeLocal (thread_id (workers p ! w)) p) (\<lambda>r. Inr (go_on w WShared r p))"
| "worker_step now k throws w WShared p =
     Inr (go_on w (if enable_work_stealing (cfg p) then WStealing else WIdle) (DequeueTask k p) p)"
| "worker_step now k throws w WStealing p = Inr (go_on w WIdle (StealTask (thread_id (workers p ! w)) p) p)"
| "worker_step now k throws w (WCalled t) p = (let (go, p') = enter_closure t (set_time w now p)
     in Inr (set_pc w (if go then WEntering t else WTop) p'))"
| "worker_step now k throws w (WEntering t) p = (let (go, p') = enter_package (task_of t) p
     in Inr (set_pc w (if go then WInUser t else WReturned t False) p'))"
| "worker_step now k throws w (WInUser t) p = Inr (set_pc w
     (case fn (packages p ! task_of t) of UserFn _ \<Rightarrow> WReturned t throws | RecurringBody _ _ _ _ _ \<Rightarrow> WAgain t)
     (return_from_user (task_of t) throws p))"
| "worker_step now k throws w (WAgain t) p = Inr (set_pc w
     (case fn (packages p ! task_of t) of UserFn _ \<Rightarrow> WReturned t False
      | RecurringBody _ _ c _ _ \<Rightarrow> if cancelled_or_shutdown c p then WReturned t False else WResubmit t) p)"
| "worker_step now k throws w (WResubmit t) p =
     rbind (resubmit now (task_of t) p) (\<lambda>p'. Inr (set_pc w (WReturned t False) p'))"
| "worker_step now k throws w (WReturned t x) p = Inr (set_pc w WTop (leave_closure t x p))"
| "worker_step now k throws w WIdle p = Inr (set_pc w
     (if now - last_work_time (workers p ! w) > thread_idle_timeout (cfg p) * 1000000 then WIdleLock else WWaiting) p)"
| "worker_step now k throws w WIdleLock p = Inr (set_pc w
     (if GetThreadCount p > min_threads (cfg p) then WExited else WWaiting) p)"
| "worker_step now k throws w WWaiting p = Inr (set_pc w WTop p)"
| "worker_step now k throws w WExited p = Inr p"

definition worker_needs_queue :: "worker_pc \<Rightarrow> bool" where
  "worker_needs_queue x \<longleftrightarrow> x \<in> {WPausing, WLocal, WShared, WStealing, WWaiting}"

section \<open>The delay scheduler\<close>

fun scheduler_step :: "int \<Rightarrow> (nat \<Rightarrow> nat) \<Rightarrow> scheduler_pc \<Rightarrow> pool \<Rightarrow> pool" where
  "scheduler_step now ks SLoop p = p\<lparr>scheduler := if shutdown p then SExited else SProcess\<rparr>"
| "scheduler_step now ks SProcess p = (let (ready, p') = ProcessDelayed_collect now ks p
     in p'\<lparr>scheduler := if ready = [] then SArm else SPush ready\<rparr>)"
| "scheduler_step now ks (SPush ready) p = (ProcessDelayed_push ready p)\<lparr>scheduler := SArm\<rparr>"
| "scheduler_step now ks SArm p = p\<lparr>scheduler := if scheduler_wakes now p then SLoop else SAsleep (next_wake now p)\<rparr>"
| "scheduler_step now ks (SAsleep t) p = p\<lparr>scheduler := SLoop\<rparr>"
| "scheduler_step now ks (SWoken t) p = p\<lparr>scheduler := if scheduler_wakes now p \<or> t \<le> now then SLoop else SAsleep t\<rparr>"
| "scheduler_step now ks SNone p = p"
| "scheduler_step now ks SExited p = p"

text \<open>A sleeper goes on by itself only when its time has come.\<close>

fun scheduler_ready :: "int \<Rightarrow> scheduler_pc \<Rightarrow> pool \<Rightarrow> bool" where
  "scheduler_ready now SNone p \<longleftrightarrow> False"
| "scheduler_ready now SExited p \<longleftrightarrow> False"
| "scheduler_ready now (SAsleep t) p \<longleftrightarrow> t \<le> now"
| "scheduler_ready now (SPush ready) p \<longleftrightarrow> \<not> queue_mutex p"
| "scheduler_ready now x p \<longleftrightarrow> True"

section \<open>Clients\<close>

datatype client_call = Call_Submit TaskPriority nat | Call_SubmitDelayed int TaskPriority nat
  | Call_SubmitAt int int TaskPriority nat | Call_SubmitRecurring int TaskPriority nat
  | Call_CancelTask u64 | Call_HandleCancel task_handle | Call_Pause | Call_Resume | Call_WaitForTasks
  | Call_Shutdown bool | Call_ShutdownNow | Call_Resize u32 | Call_ResetStats | Call_SetMaxQueueSize u32

fun do_call :: "int \<Rightarrow> nat \<Rightarrow> client_call \<Rightarrow> pool \<Rightarrow> pool result" where
  "do_call now c (Call_Submit prio f) p = rbind (SubmitWithPriority prio (UserFn f) p)
     (\<lambda>(_, queued, p'). Inr (set_client c (if queued then CExpanding else COutside) p'))"
| "do_call now c (Call_SubmitDelayed delay prio f) p =
     rbind (SubmitDelayedWithPriority now delay prio (UserFn f) p) (\<lambda>(_, _, p'). Inr p')"
| "do_call now c (Call_SubmitAt now' when prio f) p =
     rbind (SubmitAtWithPriority now now' when prio (UserFn f) p)
       (\<lambda>(_, _, queued, p'). Inr (set_client c (if queued then CExpanding else COutside) p'))"
| "do_call now c (Call_SubmitRecurring interval prio f) p =
     rbind (SubmitRecurringWithPriority now interval prio f p) (\<lambda>(_, p'). Inr p')"
| "do_call now c (Call_CancelTask task_id) p = Inr (snd (CancelTask_id task_id p))"
| "do_call now c (Call_HandleCancel h) p = Inr (Handle_Cancel h p)"
| "do_call now c Call_Pause p = Inr (Pool_Pause p)"
| "do_call now c Call_Resume p = Inr (Pool_Resume p)"
| "do_call now c Call_WaitForTasks p = Inr (set_client c (CWaitEval False) p)"
| "do_call now c (Call_Shutdown wait_for_tasks) p = Inr (set_client c (if wait_for_tasks then CWaitEval True else CStopping) p)"
| "do_call now c Call_ShutdownNow p = Inr (set_client c CJoinScheduler (ShutdownNow_drain p))"
| "do_call now c (Call_Resize n) p = Inr (set_client c (CResizing (Resize_target n p)) p)"
| "do_call now c Call_ResetStats p = Inr (Pool_ResetStats now p)"
| "do_call now c (Call_SetMaxQueueSize n) p = Inr (SetMaxQueueSize n p)"

fun call_needs_queue :: "client_call \<Rightarrow> bool" where
  "call_needs_queue (Call_Submit _ _) \<longleftrightarrow> True"
| "call_needs_queue (Call_SubmitAt _ _ _ _) \<longleftrightarrow> True"
| "call_needs_queue Call_ShutdownNow \<longleftrightarrow> True"
| "call_needs_queue _ \<longleftrightarrow> False"

fun client_step :: "nat \<Rightarrow> client_pc \<Rightarrow> pool \<Rightarrow> pool" where
  "client_step c CExpanding p = set_client c (if TryExpandPool_test p then CGrowing else COutside) p"
| "client_step c CGrowing p = set_client c COutside (AddWorkerThread p)"
| "client_step c (CResizing n) p = set_client c (if GetThreadCount p < n then CResizeAdd n else COutside) p"
| "client_step c (CResizeAdd n) p = set_client c (CResizing n) (AddWorkerThread p)"
| "client_step c (CWaitEval b) p = (if WaitForTasks_done p then set_client c (if b then CStopping else COutside) p
     else set_client c (CWaitBlocking b) (p\<lparr>queue_mutex := True\<rparr>))"
| "client_step c (CWaitBlocking b) p = set_client c (CWaitAsleep b) (p\<lparr>queue_mutex := False\<rparr>)"
| "client_step c (CWaitAsleep b) p = set_client c (CWaitEval b) p"
| "client_step c CStopping p = set_client c CJoinScheduler (Shutdown_flag p)"
| "client_step c CJoinScheduler p = set_client c CJoinLock p"
| "client_step c CJoinLock p = set_client c CJoining (p\<lparr>threads_mutex := True\<rparr>)"
| "client_step c CJoining p = set_client c COutside (p\<lparr>threads := [], threads_mutex := False\<rparr>)"
| "client_step c COutside p = p"

definition client_needs_threads :: "client_pc \<Rightarrow> bool" where
  "client_needs_threads x \<longleftrightarrow> (case x of CExpanding \<Rightarrow> True | CGrowing \<Rightarrow> True | CResizing _ \<Rightarrow> True | CResizeAdd _ \<Rightarrow> True
     | CJoinLock \<Rightarrow> True | _ \<Rightarrow> False)"

fun client_ready :: "client_pc \<Rightarrow> pool \<Rightarrow> bool" where
  "client_ready COutside p \<longleftrightarrow> False"
| "client_ready (CWaitEval b) p \<longleftrightarrow> \<not> queue_mutex p"
| "client_ready CStopping p \<longleftrightarrow> \<not> queue_mutex p"
| "client_ready CJoinScheduler p \<longleftrightarrow> scheduler p = SNone \<or> scheduler p = SExited"
| "client_ready CJoining p \<longleftrightarrow> list_all (\<lambda>w. pc (workers p ! w) = WExited) (threads p)"
| "client_ready x p \<longleftrightarrow> client_needs_threads x \<longrightarrow> \<not> threads_mutex p"

section \<open>The system\<close>

text \<open>\<open>SpuriousWake\<close>: a condition variable may wake the scheduler without a notification; for the other sleepers their own
  step from the sleeping place is such a wake-up.\<close>

datatype pool_event = WorkerStep nat int nat bool | SchedulerStep int "nat \<Rightarrow> nat" | SpuriousWake
  | ClientCall nat int client_call | ClientStep nat

fun pool_step :: "pool_event \<Rightarrow> pool \<Rightarrow> pool result" where
  "pool_step (WorkerStep w now k throws) p = worker_step now k throws w (pc (workers p ! w)) p"
| "pool_step (SchedulerStep now ks) p = Inr (scheduler_step now ks (scheduler p) p)"
| "pool_step SpuriousWake p = Inr (notify_delayed p)"
| "pool_step (ClientCall c now call) p = do_call now c call p"
| "pool_step (ClientStep c) p = Inr (client_step c (clients p ! c) p)"

fun pool_ready :: "pool_event \<Rightarrow> pool \<Rightarrow> bool" where
  "pool_ready (WorkerStep w now k throws) p \<longleftrightarrow> w < length (workers p) \<and>
     (worker_needs_queue (pc (workers p ! w)) \<longrightarrow> \<not> queue_mutex p) \<and> (pc (workers p ! w) = WIdleLock \<longrightarrow> \<not> threads_mutex p)"
| "pool_ready (SchedulerStep now ks) p \<longleftrightarrow> scheduler_ready now (scheduler p) p"
| "pool_ready SpuriousWake p \<longleftrightarrow> True"
| "pool_ready (ClientCall c now call) p \<longleftrightarrow> c < length (clients p) \<and> clients p ! c = COutside \<and>
     (call_needs_queue call \<longrightarrow> \<not> queue_mutex p)"
| "pool_ready (ClientStep c) p \<longleftrightarrow> c < length (clients p) \<and> client_ready (clients p ! c) p"

abbreviation pool_reaches :: "pool \<Rightarrow> pool \<Rightarrow> bool" where
  "pool_reaches \<equiv> steps_to pool_step pool_ready"

end
