(* ===== verification/Thread_Pool_Inv.thy ===== *)
theory Thread_Pool_Inv
  imports Thread_Pool_Sys
begin

text \<open>
  What the steps of a \<open>ThreadPool\<close> keep. The ledger of the packaged tasks: every task whose future is pending is in
  exactly one place (a queue, the scheduler or a worker), and it has been called once if that place is behind the call,
  else never. The counters: the numbers of queued, delayed and active tasks.
\<close>

section \<open>The ledger\<close>

definition pending :: "packaged list \<Rightarrow> nat multiset" where
  "pending ks = mset (filter (\<lambda>i. future (ks ! i) = Pending) [0 ..< length ks])"

definition entered_ok :: "nat \<Rightarrow> packaged \<Rightarrow> bool" where
  "entered_ok n k \<longleftrightarrow> entered k = (case future k of Pending \<Rightarrow> n | BrokenPromise \<Rightarrow> 0 | _ \<Rightarrow> 1)"

text \<open>\<open>L\<close>: the tasks in the places, \<open>R\<close>: those in a place behind the call.\<close>

definition ledger :: "nat multiset \<Rightarrow> nat multiset \<Rightarrow> packaged list \<Rightarrow> bool" where
  "ledger L R ks \<longleftrightarrow> L = pending ks \<and> R \<subseteq># L \<and> (\<forall>i < length ks. entered_ok (count R i) (ks ! i))"

definition resolve :: "nat \<Rightarrow> future_state \<Rightarrow> packaged list \<Rightarrow> packaged list" where
  "resolve i x ks = ks[i := (ks ! i)\<lparr>future := x\<rparr>]"

lemma count_pending: "count (pending ks) i = (if i < length ks \<and> future (ks ! i) = Pending then 1 else 0)"
  by (auto simp: pending_def distinct_count_atmost_1 [THEN iffD1, rule_format] distinct_filter)

lemma ledger_place:
  assumes "ledger (add_mset i L) R ks"
  shows "i < length ks" "future (ks ! i) = Pending" "count L i = 0"
proof -
  have "count (pending ks) i = Suc (count L i)" using assms by (metis count_add_mset ledger_def)
  then show "i < length ks" "future (ks ! i) = Pending" "count L i = 0" by (auto simp: count_pending split: if_splits)
qed

lemma count_zero_sub: "R \<subseteq># L \<Longrightarrow> count L i = 0 \<Longrightarrow> count R i = 0"
  by (metis le_zero_eq subseteq_mset_def)

lemma pending_resolve:
  assumes "pending ks = add_mset i L" "x \<noteq> Pending"
  shows "pending (resolve i x ks) = L"
proof (rule multiset_eqI)
  fix j
  have "count (pending ks) j = (if j = i then Suc (count L j) else count L j)" using assms(1) by simp
  then show "count (pending (resolve i x ks)) j = count L j"
    using assms(2) by (auto simp: count_pending resolve_def nth_list_update split: if_splits)
qed

lemma pending_update_same:
  "future k = future (ks ! i) \<Longrightarrow> pending (ks[i := k]) = pending ks"
  by (cases "i < length ks") (auto intro!: multiset_eqI simp: count_pending nth_list_update list_update_beyond)

lemma ledger_new:
  assumes "ledger L R ks" "future k = Pending" "entered k = 0"
  shows "ledger (add_mset (length ks) L) R (ks @ [k])"
proof -
  have "pending (ks @ [k]) = add_mset (length ks) (pending ks)"
    using assms(2) by (intro multiset_eqI) (auto simp: count_pending nth_append less_Suc_eq)
  moreover have "count R (length ks) = 0" using assms(1) by (auto simp: ledger_def count_pending intro: count_zero_sub)
  ultimately show ?thesis using assms
    by (auto simp: ledger_def entered_ok_def nth_append less_Suc_eq intro: subset_mset.order_trans)
qed

lemma ledger_drop:
  assumes "ledger (add_mset i L) R ks" "R \<subseteq># L"
  shows "ledger L R (resolve i BrokenPromise ks)"
proof -
  note i = ledger_place [OF assms(1)]
  have "count R i = 0" using count_zero_sub [OF assms(2) i(3)] .
  then have "entered_ok (count R j) (resolve i BrokenPromise ks ! j)" if "j < length ks" for j
    using assms(1) that i by (auto simp: ledger_def resolve_def entered_ok_def nth_list_update)
  then show ?thesis using assms pending_resolve [of ks i L BrokenPromise] by (simp add: ledger_def resolve_def)
qed

lemma ledger_enter:
  assumes "ledger (add_mset i L) R ks" "R \<subseteq># L"
  shows "ledger (add_mset i L) (add_mset i R) (ks[i := (ks ! i)\<lparr>entered := entered (ks ! i) + 1\<rparr>])"
proof -
  note i = ledger_place [OF assms(1)]
  have "count R i = 0" using count_zero_sub [OF assms(2) i(3)] .
  then have "entered_ok (count (add_mset i R) j) (ks[i := (ks ! i)\<lparr>entered := entered (ks ! i) + 1\<rparr>] ! j)" if "j < length ks" for j
    using assms(1) that i by (auto simp: ledger_def entered_ok_def nth_list_update)
  moreover have "add_mset i R \<subseteq># add_mset i L" using assms(2) by simp
  moreover have "pending ks = add_mset i L" using assms(1) by (simp add: ledger_def)
  ultimately show ?thesis by (simp add: ledger_def pending_update_same)
qed

lemma ledger_finish:
  assumes "ledger (add_mset i L) (add_mset i R) ks" "x = HasValue \<or> x = HasException"
  shows "ledger L R (resolve i x ks)"
proof -
  note i = ledger_place [OF assms(1)]
  have R: "R \<subseteq># L" using assms(1) by (simp add: ledger_def)
  have "count R i = 0" using count_zero_sub [OF R i(3)] .
  then have "entered_ok (count R j) (resolve i x ks ! j)" if "j < length ks" for j
    using assms that i by (auto simp: ledger_def resolve_def entered_ok_def nth_list_update)
  then show ?thesis using assms R pending_resolve [of ks i L x] by (auto simp: ledger_def resolve_def)
qed

lemma ledger_drop_all:
  "ledger (mset is + L) R ks \<Longrightarrow> R \<subseteq># L \<Longrightarrow> ledger L R (fold (\<lambda>i. resolve i BrokenPromise) is ks)"
proof (induction "is" arbitrary: ks)
  case (Cons i "is")
  have "ledger (mset is + L) R (resolve i BrokenPromise ks)"
    using Cons.prems by (intro ledger_drop) (auto intro: subset_mset.order_trans)
  then show ?case using Cons by simp
qed simp

section \<open>The places of a pool\<close>

fun worker_task :: "worker_pc \<Rightarrow> nat option" where
  "worker_task (WCalled t) = Some (task_of t)"
| "worker_task (WEntering t) = Some (task_of t)"
| "worker_task (WInUser t) = Some (task_of t)"
| "worker_task (WAgain t) = Some (task_of t)"
| "worker_task (WResubmit t) = Some (task_of t)"
| "worker_task (WReturned t x) = Some (task_of t)"
| "worker_task _ = None"

fun worker_running :: "worker_pc \<Rightarrow> nat option" where
  "worker_running (WInUser t) = Some (task_of t)"
| "worker_running (WAgain t) = Some (task_of t)"
| "worker_running (WResubmit t) = Some (task_of t)"
| "worker_running (WReturned t x) = Some (task_of t)"
| "worker_running _ = None"

fun worker_active :: "worker_pc \<Rightarrow> nat option" where
  "worker_active (WEntering t) = Some (task_of t)"
| "worker_active x = worker_running x"

fun scheduler_tasks :: "scheduler_pc \<Rightarrow> nat list" where
  "scheduler_tasks (SPush ready) = map (task_of \<circ> dt_task) ready"
| "scheduler_tasks _ = []"

definition queued :: "pool \<Rightarrow> nat multiset" where
  "queued p = mset (map task_of (tasks p)) + mset (map (task_of \<circ> snd) (priority_tasks p))
     + mset (map (task_of \<circ> dt_task) (delayed_tasks p)) + mset (map task_of (concat (thread_local_queues p)))
     + mset (scheduler_tasks (scheduler p))"

definition located :: "pool \<Rightarrow> nat multiset" where
  "located p = queued p + held_by (worker_task \<circ> pc) (workers p)"

definition running :: "pool \<Rightarrow> nat multiset" where
  "running p = held_by (worker_running \<circ> pc) (workers p)"

definition tasks_ok :: "pool \<Rightarrow> bool" where
  "tasks_ok p \<longleftrightarrow> ledger (located p) (running p) (packages p)"

lemma worker_running_task: "worker_running x = Some i \<Longrightarrow> worker_task x = Some i"
  by (cases x) auto

lemma running_sub: "held_by (worker_running \<circ> pc) ws \<subseteq># held_by (worker_task \<circ> pc) ws"
proof (induction ws)
  case (Cons w ws)
  then show ?case using worker_running_task [of "pc w"]
    by (auto split: option.splits intro: subset_mset.order_trans)
qed simp

section \<open>How a step changes the places\<close>

abbreviation others :: "(worker_pc \<Rightarrow> nat option) \<Rightarrow> nat \<Rightarrow> pool \<Rightarrow> nat multiset" where
  "others f w p \<equiv> held_by (f \<circ> pc) (take w (workers p) @ drop (Suc w) (workers p))"

lemma others_sub: "others worker_running w p \<subseteq># others worker_task w p"
  by (rule running_sub)

lemmas places = located_def running_def held_by_update

lemma tasks_ok_keep:
  assumes "tasks_ok p" "w < length (workers p)" "workers p' = (workers p)[w := v]"
    "worker_task (pc v) = worker_task (pc (workers p ! w))" "worker_running (pc v) = worker_running (pc (workers p ! w))"
    "queued p' = queued p" "packages p' = packages p"
  shows "tasks_ok p'"
  using assms by (simp add: tasks_ok_def located_def running_def held_by_same)

lemma tasks_ok_take:
  assumes "tasks_ok p" "w < length (workers p)" "workers p' = (workers p)[w := v]"
    "worker_task (pc (workers p ! w)) = None" "worker_running (pc (workers p ! w)) = None"
    "worker_task (pc v) = Some i" "worker_running (pc v) = None" "queued p = add_mset i (queued p')" "packages p' = packages p"
  shows "tasks_ok p'"
  using assms by (simp add: tasks_ok_def located_def running_def held_by_same held_by_set_Some)

lemma tasks_ok_cancel:
  assumes p: "tasks_ok p" "w < length (workers p)" "workers p' = (workers p)[w := v]"
    "worker_task (pc (workers p ! w)) = Some i" "worker_running (pc (workers p ! w)) = None"
    "worker_task (pc v) = None" "worker_running (pc v) = None" "queued p' = queued p"
    "packages p' = resolve i BrokenPromise (packages p)"
  shows "tasks_ok p'"
proof -
  have "ledger (add_mset i (queued p + others worker_task w p)) (others worker_running w p) (packages p)"
    using p(1,2,4,5) by (simp add: tasks_ok_def located_def running_def held_by_update [of w "workers p"])
  then have "ledger (queued p + others worker_task w p) (others worker_running w p) (packages p')"
    using ledger_drop others_sub [of w p] p(9) by (simp add: subset_mset.add_increasing)
  then show ?thesis using p by (simp add: tasks_ok_def located_def running_def held_by_update [of w "workers p"])
qed

lemma tasks_ok_enter:
  assumes p: "tasks_ok p" "w < length (workers p)" "workers p' = (workers p)[w := v]"
    "worker_task (pc (workers p ! w)) = Some i" "worker_running (pc (workers p ! w)) = None"
    "worker_task (pc v) = Some i" "worker_running (pc v) = Some i" "queued p' = queued p"
    "packages p' = (packages p)[i := (packages p ! i)\<lparr>entered := entered (packages p ! i) + 1\<rparr>]"
  shows "tasks_ok p'"
proof -
  have "ledger (add_mset i (queued p + others worker_task w p)) (others worker_running w p) (packages p)"
    using p(1,2,4,5) by (simp add: tasks_ok_def located_def running_def held_by_update [of w "workers p"])
  then have "ledger (add_mset i (queued p + others worker_task w p)) (add_mset i (others worker_running w p)) (packages p')"
    using ledger_enter others_sub [of w p] p(9) by (simp add: subset_mset.add_increasing)
  then show ?thesis using p by (simp add: tasks_ok_def located_def running_def held_by_update [of w "workers p"])
qed

lemma tasks_ok_finish:
  assumes p: "tasks_ok p" "w < length (workers p)" "workers p' = (workers p)[w := v]"
    "worker_task (pc (workers p ! w)) = Some i" "worker_running (pc (workers p ! w)) = Some i"
    "worker_task (pc v) = None" "worker_running (pc v) = None" "queued p' = queued p"
    "packages p' = resolve i x (packages p)" "x = HasValue \<or> x = HasException"
  shows "tasks_ok p'"
proof -
  have "ledger (add_mset i (queued p + others worker_task w p)) (add_mset i (others worker_running w p)) (packages p)"
    using p(1,2,4,5) by (simp add: tasks_ok_def located_def running_def held_by_update [of w "workers p"])
  then have "ledger (queued p + others worker_task w p) (others worker_running w p) (packages p')"
    using ledger_finish p(9,10) by simp
  then show ?thesis using p by (simp add: tasks_ok_def located_def running_def held_by_update [of w "workers p"])
qed

text \<open>Steps of the other threads: nothing moves, or a new task is queued or dropped.\<close>

lemma tasks_ok_same:
  assumes "tasks_ok p" "queued p' = queued p" "packages p' = packages p"
    "held_by (worker_task \<circ> pc) (workers p') = held_by (worker_task \<circ> pc) (workers p)"
    "held_by (worker_running \<circ> pc) (workers p') = held_by (worker_running \<circ> pc) (workers p)"
  shows "tasks_ok p'"
  using assms by (simp add: tasks_ok_def located_def running_def)

lemma tasks_ok_new:
  assumes "tasks_ok p" "workers p' = workers p" "queued p' = add_mset (length (packages p)) (queued p)"
    "packages p' = packages p @ [\<lparr>fn = f, future = Pending, entered = 0\<rparr>]"
  shows "tasks_ok p'"
  using assms ledger_new by (simp add: tasks_ok_def located_def running_def)

lemma tasks_ok_drop:
  assumes "tasks_ok p" "workers p' = workers p" "queued p = mset is + queued p'"
    "packages p' = fold (\<lambda>i. resolve i BrokenPromise) is (packages p)"
  shows "tasks_ok p'"
proof -
  have "ledger (mset is + located p') (running p') (packages p)"
    using assms by (simp add: tasks_ok_def located_def running_def add.assoc)
  moreover have "running p' \<subseteq># located p'"
    using running_sub [of "workers p'"] by (simp add: running_def located_def subset_mset.add_increasing)
  ultimately show ?thesis using ledger_drop_all assms(4) by (simp add: tasks_ok_def)
qed

lemma held_by_map: "(\<And>x. f (g x) = f x) \<Longrightarrow> held_by f (map g xs) = held_by f xs"
  by (induction xs) auto

section \<open>The operations\<close>

lemma scheduler_tasks_woken [simp]: "scheduler_tasks (scheduler (notify_delayed p)) = scheduler_tasks (scheduler p)"
  by (simp add: notify_delayed_def split: scheduler_pc.split)

lemma notify_delayed_simps [simp]:
  "tasks (notify_delayed p) = tasks p" "priority_tasks (notify_delayed p) = priority_tasks p"
  "delayed_tasks (notify_delayed p) = delayed_tasks p" "thread_local_queues (notify_delayed p) = thread_local_queues p"
  "workers (notify_delayed p) = workers p" "packages (notify_delayed p) = packages p" "cfg (notify_delayed p) = cfg p"
  "stats (notify_delayed p) = stats p" "threads (notify_delayed p) = threads p" "shutdown (notify_delayed p) = shutdown p"
  "paused (notify_delayed p) = paused p" "queue_mutex (notify_delayed p) = queue_mutex p" "clients (notify_delayed p) = clients p"
  by (simp_all add: notify_delayed_def split: scheduler_pc.split)

lemma tasks_ok_SubmitDelayed:
  assumes "tasks_ok p" "SubmitDelayedWithPriority now delay prio f p = Inr (i, h, p')"
  shows "tasks_ok p'" "workers p' = workers p"
proof -
  show "workers p' = workers p"
    using assms(2) by (auto simp: SubmitDelayedWithPriority_def check_eq_Inr Let_def make_flag_def make_package_def)
  then show "tasks_ok p'"
    using assms by (intro tasks_ok_new [of p p' f])
      (auto simp: SubmitDelayedWithPriority_def check_eq_Inr Let_def make_flag_def make_package_def queued_def)
qed

lemma tasks_ok_Submit:
  assumes "tasks_ok p" "SubmitWithPriority prio f p = Inr (i, b, p')"
  shows "tasks_ok p'" "workers p' = workers p"
proof -
  let ?p1 = "p\<lparr>tasks := tasks p @ [RunTask (length (packages p))], packages := packages p @ [\<lparr>fn = f, future = Pending, entered = 0\<rparr>]\<rparr>"
  show w: "workers p' = workers p" using assms(2)
    by (auto simp: SubmitWithPriority_def EnqueueTask_locked_def check_eq_Inr rbind_eq_Inr make_package_def destroy_closure_def
        set_future_def push_task_def split: if_splits)
  have ok: "tasks_ok ?p1" using assms(1) by (rule tasks_ok_new) (simp_all add: queued_def)
  show "tasks_ok p'"
  proof (cases b)
    case True
    then show ?thesis using assms w by (intro tasks_ok_new [of p p' f])
      (auto simp: SubmitWithPriority_def EnqueueTask_locked_def check_eq_Inr rbind_eq_Inr make_package_def
        push_task_def queued_def split: if_splits)
  next
    case False
    then show ?thesis using assms(2) by (intro tasks_ok_drop [OF ok, of p' "[length (packages p)]"])
      (auto simp: SubmitWithPriority_def EnqueueTask_locked_def check_eq_Inr rbind_eq_Inr make_package_def destroy_closure_def
        set_future_def resolve_def queued_def split: if_splits)
  qed
qed

lemma mset_concat_update:
  "i < length qs \<Longrightarrow> qs ! i = t # ts \<Longrightarrow> mset (concat qs) = add_mset t (mset (concat (qs[i := ts])))"
proof (induction qs arbitrary: i)
  case (Cons q qs)
  then show ?case by (cases i) auto
qed simp

lemma pop_local_queued:
  assumes "slot < length (thread_local_queues p)" "pop_local slot p = Some (t, p')"
  shows "queued p = add_mset (task_of t) (queued p')" "workers p' = workers p" "packages p' = packages p"
  using assms mset_concat_update [of slot "thread_local_queues p" t]
  by (auto simp: pop_local_def queued_def split: list.splits)

lemma TakeLocal_queued:
  assumes "TakeLocal me p = Inr (Some (t, p'))"
  shows "queued p = add_mset (task_of t) (queued p')" "workers p' = workers p" "packages p' = packages p"
proof -
  let ?n = "length (thread_local_queues p)"
  have "unat me mod ?n < ?n" "pop_local (unat me mod ?n) p = Some (t, p')"
    using assms by (auto simp: TakeLocal_def Let_def guard_ub_eq_Inr)
  from pop_local_queued [OF this]
  show "queued p = add_mset (task_of t) (queued p')" "workers p' = workers p" "packages p' = packages p" .
qed

lemma StealTask_queued:
  assumes "StealTask me p = Some (t, p')"
  shows "queued p = add_mset (task_of t) (queued p')" "workers p' = workers p" "packages p' = packages p"
proof -
  have "\<exists>i \<in> set is. pop_local i p = Some (t, p')" if "steal_from is own p = Some (t, p')" for "is" own
    using that by (induction "is" own p rule: steal_from.induct) (auto split: if_splits option.splits)
  then obtain i where "i < length (thread_local_queues p)" "pop_local i p = Some (t, p')"
    using assms by (fastforce simp: StealTask_def Let_def)
  from pop_local_queued [OF this]
  show "queued p = add_mset (task_of t) (queued p')" "workers p' = workers p" "packages p' = packages p" .
qed

lemma mset_map_pop_at: "i < length xs \<Longrightarrow> mset (map f xs) = add_mset (f (xs ! i)) (mset (map f (pop_at i xs)))"
  using mset_pop_at [of i xs] by (metis image_mset_add_mset mset_map)

lemma DequeueTask_queued:
  assumes "DequeueTask k p = Some (t, p')"
  shows "queued p = add_mset (task_of t) (queued p')" "workers p' = workers p" "packages p' = packages p"
proof -
  have "queued p = add_mset (task_of t) (queued p') \<and> workers p' = workers p \<and> packages p' = packages p"
  proof (cases "enable_priority_queue (cfg p) \<and> priority_tasks p \<noteq> []")
    case True
    then have "top_at PriorityTask_less k (priority_tasks p) < length (priority_tasks p)" by (simp add: top_at)
    from mset_map_pop_at [OF this, of "task_of \<circ> snd"] show ?thesis
      using assms True by (auto simp: DequeueTask_def Let_def queued_def)
  next
    case False
    then show ?thesis using assms by (auto simp: DequeueTask_def queued_def split: list.splits)
  qed
  then show "queued p = add_mset (task_of t) (queued p')" "workers p' = workers p" "packages p' = packages p" by auto
qed

lemma queued_workers [simp]:
  "queued (p\<lparr>workers := x\<rparr>) = queued p" "queued (p\<lparr>clients := y\<rparr>) = queued p" "queued (p\<lparr>queue_mutex := b\<rparr>) = queued p"
  "queued (p\<lparr>stats := z\<rparr>) = queued p" "queued (p\<lparr>packages := ks\<rparr>) = queued p"
  by (simp_all add: queued_def)

lemma tasks_ok_go_on:
  assumes p: "tasks_ok p" "w < length (workers p)" "worker_task (pc (workers p ! w)) = None" "worker_task x = None"
    and r: "\<And>t p'. r = Some (t, p') \<Longrightarrow> queued p = add_mset (task_of t) (queued p') \<and> workers p' = workers p \<and> packages p' = packages p"
  shows "tasks_ok (go_on w x r p)"
proof -
  have none: "worker_running y = None" if "worker_task y = None" for y
    using worker_running_task [of y] that by (cases "worker_running y") auto
  show ?thesis
  proof (cases r)
    case None
    then show ?thesis using p none by (auto simp: go_on_def set_pc_def intro!: tasks_ok_keep [OF p(1,2)])
  next
    case (Some a)
    then obtain t p' where a: "r = Some (t, p')" by (cases a) auto
    show ?thesis unfolding a go_on_def using r [OF a] p none
      by (auto simp: set_pc_def intro!: tasks_ok_take [OF p(1,2), where i = "task_of t"])
  qed
qed

lemma enter_closure_workers:
  "enter_closure t p = (go, p') \<Longrightarrow> workers p' = workers p \<and> queued p' = queued p \<and>
     packages p' = (if go then packages p else resolve (task_of t) BrokenPromise (packages p))"
  by (cases t) (auto simp: start_active_def destroy_closure_def set_future_def resolve_def split: if_splits)

lemma tasks_ok_worker:
  assumes p: "tasks_ok p" and w: "w < length (workers p)" and st: "worker_step now k throws w (pc (workers p ! w)) p = Inr p'"
  shows "tasks_ok p'"
proof (cases "pc (workers p ! w)")
  case WLocal
  then obtain r where r: "TakeLocal (thread_id (workers p ! w)) p = Inr r" "p' = go_on w WShared r p"
    using st by (auto simp: rbind_eq_Inr)
  then show ?thesis using p w WLocal TakeLocal_queued by (auto intro!: tasks_ok_go_on)
next
  case WShared
  then show ?thesis using p w st DequeueTask_queued by (auto intro!: tasks_ok_go_on)
next
  case WStealing
  then show ?thesis using p w st StealTask_queued by (auto intro!: tasks_ok_go_on)
next
  case (WCalled t)
  obtain go p1 where e: "enter_closure t (set_time w now p) = (go, p1)" by force
  note ew = enter_closure_workers [OF e]
  show ?thesis
  proof (cases go)
    case True
    then show ?thesis using p w st WCalled e ew by (auto simp: set_pc_def set_time_def intro!: tasks_ok_keep [OF p w])
  next
    case False
    then show ?thesis using p w st WCalled e ew
      by (auto simp: set_pc_def set_time_def intro!: tasks_ok_cancel [OF p w, where i = "task_of t"])
  qed
next
  case (WEntering t)
  then show ?thesis using p w st
    by (auto simp: set_pc_def enter_package_def Let_def intro!: tasks_ok_enter [OF p w, where i = "task_of t"])
next
  case (WInUser t)
  then show ?thesis using p w st by (auto simp: set_pc_def return_from_user_def split: callable.splits intro!: tasks_ok_keep [OF p w])
next
  case (WAgain t)
  then show ?thesis using p w st by (auto simp: set_pc_def split: callable.splits intro!: tasks_ok_keep [OF p w])
next
  case (WResubmit t)
  then obtain p1 where p1: "resubmit now (task_of t) p = Inr p1" "p' = set_pc w (WReturned t False) p1"
    using st by (auto simp: rbind_eq_Inr)
  then have "tasks_ok p1 \<and> workers p1 = workers p"
    using p tasks_ok_SubmitDelayed [OF p] by (auto simp: resubmit_def rbind_eq_Inr split: callable.splits)
  then show ?thesis using p1(2) w WResubmit by (auto simp: set_pc_def intro: tasks_ok_keep [of p1 w])
next
  case (WReturned t x)
  then show ?thesis using p w st
    by (auto simp: set_pc_def set_future_def notify_finish_def resolve_def
        intro!: tasks_ok_finish [OF p w, where i = "task_of t" and x = "if x then HasException else HasValue"])
next
  case WPausing
  then show ?thesis using p w st
    by (auto simp: set_pc_def split: if_splits intro!: tasks_ok_keep [OF p w, where v = "workers p' ! w"])
qed (use p w st in \<open>auto simp: set_pc_def set_time_def intro!: tasks_ok_keep [OF p w]\<close>)

text \<open>The scheduler: the due tasks that are not cancelled leave the delayed queue for the vector \<open>ready\<close>.\<close>

lemma queued_pop_due:
  assumes "delayed_tasks p \<noteq> []"
  shows "queued p = add_mset (task_of (dt_task (delayed_tasks p ! top_due ks p))) (queued (pop_due (top_due ks p) p))"
  using mset_map_pop_at [of "top_due ks p" "delayed_tasks p" "task_of \<circ> dt_task"] top_at(1) [OF DelayedTask_order assms]
  by (simp add: queued_def pop_due_def)

lemma collect_ledger:
  assumes "ProcessDelayed_collect now ks p = (ready, p')"
    "ledger (L + queued p) R (packages p)" "R \<subseteq># L"
  shows "ledger (L + queued p' + mset (map (task_of \<circ> dt_task) ready)) R (packages p') \<and>
    workers p' = workers p \<and> scheduler p' = scheduler p \<and> cfg p' = cfg p"
  using assms
proof (induction now ks p arbitrary: ready p' L rule: ProcessDelayed_collect.induct)
  case (1 now ks p)
  let ?i = "top_due ks p"
  let ?dt = "delayed_tasks p ! ?i"
  let ?p1 = "pop_due ?i p"
  let ?x = "task_of (dt_task ?dt)"
  note eq = ProcessDelayed_collect.simps [of now ks p]
  show ?case
  proof (cases "delayed_tasks p = [] \<or> \<not> execute_time ?dt \<le> now")
    case True
    then have "ready = [] \<and> p' = p" using 1(3) eq by (auto simp: Let_def split: if_splits)
    then show ?thesis using 1(4) by simp
  next
    case due: False
    then have ne: "delayed_tasks p \<noteq> []" by simp
    have led: "ledger (add_mset ?x (L + queued ?p1)) R (packages p)" using 1(4) queued_pop_due [OF ne, of ks] by simp
    have same: "packages ?p1 = packages p" "workers ?p1 = workers p" "scheduler ?p1 = scheduler p" "cfg ?p1 = cfg p"
      by (simp_all add: pop_due_def)
    show ?thesis
    proof (cases "is_cancelled (dt_task_id ?dt) ?p1")
      case True
      let ?p2 = "drop_cancelled ?dt ?p1"
      have "queued ?p2 = queued ?p1" by (simp add: drop_cancelled_def destroy_closure_def set_future_def queued_def)
      moreover have "packages ?p2 = resolve ?x BrokenPromise (packages p)"
        using same by (simp add: drop_cancelled_def destroy_closure_def set_future_def resolve_def)
      ultimately have "ledger (L + queued ?p2) R (packages ?p2)"
        using ledger_drop [OF led] 1(5) by (simp add: subset_mset.add_increasing2)
      moreover have "ProcessDelayed_collect now ks ?p2 = (ready, p')" using 1(3) eq due True by (simp add: Let_def)
      moreover have "workers ?p2 = workers p" "scheduler ?p2 = scheduler p" "cfg ?p2 = cfg p"
        using same by (simp_all add: drop_cancelled_def destroy_closure_def set_future_def)
      ultimately show ?thesis using 1(1) [OF ne refl refl refl _ True, of ready p' L] due 1(5) by simp
    next
      case False
      then obtain ready1 where r: "ProcessDelayed_collect now ks ?p1 = (ready1, p')" "ready = ?dt # ready1"
        using 1(3) eq due by (auto simp: Let_def split: prod.splits)
      have "ledger (add_mset ?x L + queued ?p1) R (packages ?p1)" using led same by simp
      moreover have "R \<subseteq># add_mset ?x L" using 1(5) subset_mset.order_trans [of R L "add_mset ?x L"] by simp
      ultimately show ?thesis using 1(2) [OF ne refl refl refl _ False r(1), of "add_mset ?x L"] due r(2) same by simp
    qed
  qed
qed

lemma queued_split: "queued p = queued (p\<lparr>scheduler := SArm\<rparr>) + mset (scheduler_tasks (scheduler p))"
  by (simp add: queued_def)

lemma push_task_queued [simp]:
  "queued (push_task prio t p) = add_mset (task_of t) (queued p)" "workers (push_task prio t p) = workers p"
  "packages (push_task prio t p) = packages p" "scheduler (push_task prio t p) = scheduler p"
  by (auto simp: push_task_def queued_def)

lemma push_all_queued:
  "queued (ProcessDelayed_push ready p) = queued p + mset (map (task_of \<circ> dt_task) ready) \<and>
   workers (ProcessDelayed_push ready p) = workers p \<and> packages (ProcessDelayed_push ready p) = packages p \<and>
   scheduler (ProcessDelayed_push ready p) = scheduler p"
  unfolding ProcessDelayed_push_def
  by (induction ready arbitrary: p) auto

lemma tasks_ok_scheduler:
  assumes p: "tasks_ok p"
  shows "tasks_ok (scheduler_step now ks (scheduler p) p)"
proof (cases "scheduler p")
  case SProcess
  obtain ready p' where c: "ProcessDelayed_collect now ks p = (ready, p')" by force
  let ?L = "held_by (worker_task \<circ> pc) (workers p)" and ?p2 = "p'\<lparr>scheduler := if ready = [] then SArm else SPush ready\<rparr>"
  have "ledger (?L + queued p) (running p) (packages p)" "running p \<subseteq># ?L"
    using p running_sub by (simp_all add: tasks_ok_def located_def running_def add.commute)
  from collect_ledger [OF c this]
  have "ledger (?L + queued p' + mset (map (task_of \<circ> dt_task) ready)) (running p) (packages p')"
    "workers p' = workers p" "scheduler p' = SProcess" using SProcess by auto
  moreover from this have "queued ?p2 = queued p' + mset (map (task_of \<circ> dt_task) ready)" by (simp add: queued_def)
  ultimately have "tasks_ok ?p2" by (simp add: tasks_ok_def located_def running_def ac_simps)
  then show ?thesis using SProcess c by simp
next
  case (SPush ready)
  let ?p1 = "ProcessDelayed_push ready p"
  have "queued (?p1\<lparr>scheduler := SArm\<rparr>) + mset (map (task_of \<circ> dt_task) ready) = queued ?p1"
    using push_all_queued [of ready p] queued_split [of ?p1] SPush by simp
  then have "queued (?p1\<lparr>scheduler := SArm\<rparr>) = queued p"
    using push_all_queued [of ready p] by simp
  then show ?thesis using SPush push_all_queued [of ready p] by (auto intro!: tasks_ok_same [OF p])
qed (use p in \<open>auto intro!: tasks_ok_same [OF p] simp: queued_def\<close>)

text \<open>The clients.\<close>

lemma fold_destroy:
  "fold destroy_closure ts p = p\<lparr>packages := fold (\<lambda>i. resolve i BrokenPromise) (map task_of ts) (packages p)\<rparr>"
  by (induction ts arbitrary: p) (auto simp: destroy_closure_def set_future_def resolve_def)

lemma notify_pause_held:
  "f WPauseAsleep = f WPausing \<Longrightarrow> held_by (f \<circ> pc) (workers (notify_pause p)) = held_by (f \<circ> pc) (workers p)"
  by (auto simp: notify_pause_def intro!: held_by_map)

lemma notify_pause_simps [simp]:
  "queued (notify_pause p) = queued p" "packages (notify_pause p) = packages p" "cfg (notify_pause p) = cfg p"
  "stats (notify_pause p) = stats p" "tasks (notify_pause p) = tasks p" "priority_tasks (notify_pause p) = priority_tasks p"
  "delayed_tasks (notify_pause p) = delayed_tasks p" "thread_local_queues (notify_pause p) = thread_local_queues p"
  by (simp_all add: notify_pause_def queued_def)

lemma queued_notify_delayed [simp]: "queued (notify_delayed p) = queued p"
  by (simp add: queued_def)

lemma tasks_ok_notify_pause: "tasks_ok p \<Longrightarrow> tasks_ok (notify_pause p)"
  by (rule tasks_ok_same) (simp_all add: notify_pause_held)

lemma tasks_ok_notify_delayed: "tasks_ok p \<Longrightarrow> tasks_ok (notify_delayed p)"
  by (rule tasks_ok_same) simp_all

lemma tasks_ok_fields:
  assumes "tasks_ok p" "queued p' = queued p" "packages p' = packages p" "workers p' = workers p"
  shows "tasks_ok p'"
  by (rule tasks_ok_same [OF assms(1)]) (simp_all add: assms)

lemma concat_Nils [simp]: "concat (map (\<lambda>_. []) xs) = []"
  by (induction xs) auto

lemma tasks_ok_ShutdownNow:
  assumes "tasks_ok p" "enable_work_stealing (cfg p) \<or> concat (thread_local_queues p) = []"
  shows "tasks_ok (ShutdownNow_drain p)"
  unfolding ShutdownNow_drain_def Let_def
  by (intro tasks_ok_notify_pause tasks_ok_notify_delayed tasks_ok_drop [OF assms(1), of _ "map task_of (queued_closures p)"])
    (use assms(2) in \<open>auto simp: fold_destroy queued_def queued_closures_def simp del: mset_concat\<close>)

lemma tasks_ok_set_client [simp]: "tasks_ok (set_client c x p) \<longleftrightarrow> tasks_ok p"
  by (simp add: tasks_ok_def located_def running_def set_client_def)

lemma tasks_ok_AddWorkerThread: "tasks_ok p \<Longrightarrow> tasks_ok (AddWorkerThread p)"
  by (rule tasks_ok_same) (simp_all add: AddWorkerThread_def queued_def)

lemma tasks_ok_client: "tasks_ok p \<Longrightarrow> tasks_ok (client_step c x p)"
  by (cases x) (auto simp: Shutdown_flag_def queued_def
      intro!: tasks_ok_AddWorkerThread tasks_ok_notify_pause tasks_ok_notify_delayed elim!: tasks_ok_fields)

lemma tasks_ok_call:
  assumes p: "tasks_ok p" "enable_work_stealing (cfg p) \<or> concat (thread_local_queues p) = []"
    and st: "do_call now c call p = Inr p'"
  shows "tasks_ok p'"
proof (cases call)
  case (Call_SubmitAt now' "when" prio f)
  show ?thesis
  proof (cases "when \<le> now")
    case True
    then show ?thesis using Call_SubmitAt st tasks_ok_Submit(1) [OF p(1)]
      by (auto simp: SubmitAtWithPriority_def rbind_eq_Inr)
  next
    case False
    then show ?thesis using Call_SubmitAt st tasks_ok_SubmitDelayed(1) [OF p(1)]
      by (auto simp: SubmitAtWithPriority_def rbind_eq_Inr)
  qed
next
  case (Call_SubmitRecurring interval prio f)
  let ?p1 = "(make_flag p)\<lparr>next_task_id := next_task_id p + 1,
    cancelled_tasks := map_put (next_task_id p) (length (flags p)) (cancelled_tasks p)\<rparr>"
  have "tasks_ok ?p1" using p(1) by (rule tasks_ok_fields) (simp_all add: make_flag_def queued_def)
  then show ?thesis using Call_SubmitRecurring st tasks_ok_SubmitDelayed [of ?p1]
    by (auto simp: SubmitRecurringWithPriority_def rbind_eq_Inr check_eq_Inr Let_def)
next
  case (Call_CancelTask x)
  then show ?thesis using p(1) st
    by (auto simp: CancelTask_id_def queued_def split: option.splits elim!: tasks_ok_fields)
next
  case (Call_HandleCancel x)
  then show ?thesis using p(1) st
    by (auto simp: Handle_Cancel_def queued_def split: option.splits elim!: tasks_ok_fields)
next
  case Call_Pause
  then show ?thesis using p(1) st by (auto simp: Pool_Pause_def queued_def elim!: tasks_ok_fields)
next
  case Call_Resume
  then show ?thesis using p(1) st by (auto simp: Pool_Resume_def queued_def intro!: tasks_ok_notify_pause elim!: tasks_ok_fields)
next
  case Call_ResetStats
  then show ?thesis using p(1) st by (auto simp: Pool_ResetStats_def elim!: tasks_ok_fields)
next
  case (Call_SetMaxQueueSize n)
  then show ?thesis using p(1) st by (auto simp: SetMaxQueueSize_def queued_def elim!: tasks_ok_fields)
next
  case (Call_Submit prio f)
  then show ?thesis using st tasks_ok_Submit(1) [OF p(1)] by (auto simp: rbind_eq_Inr)
next
  case (Call_SubmitDelayed delay prio f)
  then show ?thesis using st tasks_ok_SubmitDelayed(1) [OF p(1)] by (auto simp: rbind_eq_Inr)
qed (use p st tasks_ok_ShutdownNow [OF p] in auto)

end
