(* ===== verification/Thread_Pool_Counters.thy ===== *)
theory Thread_Pool_Counters
  imports Thread_Pool_Inv
begin

text \<open>
  The second invariant of a \<open>ThreadPool\<close>: the gauges of its statistics, on which \<open>GetQueueSize\<close>, \<open>WaitForTasks\<close> and
  \<open>TryExpandPool\<close> rely, are the lengths of the queues and the number of running lambdas (modulo \<open>2\<^sup>3\<^sup>2\<close>), and the
  queues of the single threads are always empty. Both invariants together are kept by every step.
\<close>

definition active :: "pool \<Rightarrow> nat" where
  "active p = size (held_by (worker_active \<circ> pc) (workers p))"

definition gauges_ok :: "pool \<Rightarrow> bool" where
  "gauges_ok p \<longleftrightarrow> queue_size (stats p) = of_nat (length (tasks p) + length (priority_tasks p)) \<and>
     delayed_queue_size (stats p) = of_nat (length (delayed_tasks p))"

definition local_ok :: "pool \<Rightarrow> bool" where
  "local_ok p \<longleftrightarrow> (\<forall>q \<in> set (thread_local_queues p). q = []) \<and> (enable_work_stealing (cfg p) \<longrightarrow> thread_local_queues p \<noteq> [])"

definition active_ok :: "pool \<Rightarrow> bool" where
  "active_ok p \<longleftrightarrow> active_threads (stats p) = of_nat (active p)"

definition pool_inv :: "pool \<Rightarrow> bool" where
  "pool_inv p \<longleftrightarrow> tasks_ok p \<and> gauges_ok p \<and> local_ok p \<and> active_ok p"

lemmas counter_defs = gauges_ok_def local_ok_def active_ok_def active_def

section \<open>Nothing is ever in the queue of a thread\<close>

lemma local_pop:
  assumes "local_ok p" "slot < length (thread_local_queues p)"
  shows "pop_local slot p = None"
proof -
  have "thread_local_queues p ! slot \<in> set (thread_local_queues p)" using assms(2) by (rule nth_mem)
  then have "thread_local_queues p ! slot = []" using assms(1) unfolding local_ok_def by blast
  then show ?thesis by (simp add: pop_local_def)
qed

lemma local_take: "local_ok p \<Longrightarrow> TakeLocal me p = Inr r \<Longrightarrow> r = None"
  using local_pop [of p "unat me mod length (thread_local_queues p)"]
  by (auto simp: TakeLocal_def Let_def guard_ub_eq_Inr)

lemma local_take_defined: "local_ok p \<Longrightarrow> enable_work_stealing (cfg p) \<Longrightarrow> \<exists>r. TakeLocal me p = Inr r"
  by (simp add: local_ok_def TakeLocal_def Let_def)

lemma local_steal: "local_ok p \<Longrightarrow> StealTask me p = None"
proof -
  assume p: "local_ok p"
  have "steal_from is own p = None" if "\<forall>i \<in> set is. i < length (thread_local_queues p)" for "is" own
    using that local_pop [OF p] by (induction "is") auto
  then show ?thesis by (simp add: StealTask_def Let_def)
qed

section \<open>The operations\<close>

lemma counters_push:
  "gauges_ok p \<Longrightarrow> gauges_ok (push_task prio t p)" "local_ok (push_task prio t p) \<longleftrightarrow> local_ok p"
  "active_ok (push_task prio t p) \<longleftrightarrow> active_ok p"
  by (auto simp: counter_defs push_task_def)

lemma counters_resolve:
  "gauges_ok (destroy_closure t p) \<longleftrightarrow> gauges_ok p" "local_ok (destroy_closure t p) \<longleftrightarrow> local_ok p"
  "active_ok (destroy_closure t p) \<longleftrightarrow> active_ok p"
  by (auto simp: counter_defs destroy_closure_def set_future_def)

lemma counters_Submit:
  assumes "SubmitWithPriority prio f p = Inr (i, b, p')"
  shows "gauges_ok p \<Longrightarrow> gauges_ok p'" "local_ok p \<Longrightarrow> local_ok p'" "active_ok p \<Longrightarrow> active_ok p'"
  using assms
  by (auto simp: SubmitWithPriority_def EnqueueTask_locked_def check_eq_Inr rbind_eq_Inr make_package_def counter_defs
      push_task_def destroy_closure_def set_future_def split: if_splits)

lemma counters_SubmitDelayed:
  assumes "SubmitDelayedWithPriority now delay prio f p = Inr (i, h, p')"
  shows "gauges_ok p \<Longrightarrow> gauges_ok p'" "local_ok p \<Longrightarrow> local_ok p'" "active_ok p \<Longrightarrow> active_ok p'"
  using assms
  by (auto simp: SubmitDelayedWithPriority_def check_eq_Inr Let_def make_flag_def make_package_def counter_defs)

lemma counters_Dequeue:
  assumes "DequeueTask k p = Some (t, p')" "gauges_ok p"
  shows "gauges_ok p'"
proof (cases "enable_priority_queue (cfg p) \<and> priority_tasks p \<noteq> []")
  case True
  then have "top_at PriorityTask_less k (priority_tasks p) < length (priority_tasks p)" by (simp add: top_at)
  moreover have "0 < length (priority_tasks p)" using True by simp
  ultimately show ?thesis using assms True
    by (auto simp: DequeueTask_def Let_def gauges_ok_def of_nat_diff)
next
  case False
  then show ?thesis using assms by (auto simp: DequeueTask_def gauges_ok_def split: list.splits)
qed

lemma Dequeue_rest:
  "DequeueTask k p = Some (t, p') \<Longrightarrow> thread_local_queues p' = thread_local_queues p \<and> cfg p' = cfg p \<and>
     active_threads (stats p') = active_threads (stats p) \<and> workers p' = workers p"
  by (auto simp: DequeueTask_def Let_def split: if_splits list.splits)

lemma counters_pop_due:
  assumes "gauges_ok p" "delayed_tasks p \<noteq> []"
  shows "gauges_ok (pop_due (top_due ks p) p)"
proof -
  have "top_due ks p < length (delayed_tasks p)" "0 < length (delayed_tasks p)" using assms(2) by (auto intro: top_at)
  then show ?thesis using assms(1) by (auto simp: gauges_ok_def pop_due_def of_nat_diff)
qed

lemma counters_collect:
  assumes "ProcessDelayed_collect now ks p = (ready, p')" "gauges_ok p"
  shows "gauges_ok p' \<and> thread_local_queues p' = thread_local_queues p \<and> active_threads (stats p') = active_threads (stats p)"
  using assms
proof (induction now ks p arbitrary: ready p' rule: ProcessDelayed_collect.induct)
  case (1 now ks p)
  let ?i = "top_due ks p"
  let ?dt = "delayed_tasks p ! ?i"
  let ?p1 = "pop_due ?i p"
  let ?p2 = "drop_cancelled ?dt ?p1"
  note eq = ProcessDelayed_collect.simps [of now ks p]
  have same: "thread_local_queues ?p1 = thread_local_queues p" "active_threads (stats ?p1) = active_threads (stats p)"
    "thread_local_queues ?p2 = thread_local_queues p" "active_threads (stats ?p2) = active_threads (stats p)"
    by (simp_all add: pop_due_def drop_cancelled_def destroy_closure_def set_future_def)
  show ?case
  proof (cases "delayed_tasks p = [] \<or> \<not> execute_time ?dt \<le> now")
    case True
    then show ?thesis using 1(3,4) eq by (auto simp: Let_def split: if_splits)
  next
    case due: False
    then have ne: "delayed_tasks p \<noteq> []" by simp
    have p1: "gauges_ok ?p1" using counters_pop_due 1(4) ne by blast
    then have p2: "gauges_ok ?p2" by (simp add: drop_cancelled_def counters_resolve) (simp add: gauges_ok_def)
    show ?thesis
    proof (cases "is_cancelled (dt_task_id ?dt) ?p1")
      case True
      then have "ProcessDelayed_collect now ks ?p2 = (ready, p')" using 1(3) eq due by (simp add: Let_def)
      then show ?thesis using 1(1) [OF ne refl refl refl _ True, of ready p'] due p2 same by simp
    next
      case False
      then obtain ready1 where "ProcessDelayed_collect now ks ?p1 = (ready1, p')"
        using 1(3) eq due by (auto simp: Let_def split: prod.splits)
      then show ?thesis using 1(2) [OF ne refl refl refl _ False, of ready1 p'] due p1 same by simp
    qed
  qed
qed

lemma counters_push_all:
  "(gauges_ok p \<longrightarrow> gauges_ok (ProcessDelayed_push ready p)) \<and> (local_ok (ProcessDelayed_push ready p) \<longleftrightarrow> local_ok p) \<and>
   (active_ok (ProcessDelayed_push ready p) \<longleftrightarrow> active_ok p)"
  unfolding ProcessDelayed_push_def by (induction ready arbitrary: p) (auto simp: counters_push)

section \<open>The steps\<close>

lemma set_pc_counters [simp]: "gauges_ok (set_pc w x p) \<longleftrightarrow> gauges_ok p" "local_ok (set_pc w x p) \<longleftrightarrow> local_ok p"
  "gauges_ok (set_time w now p) \<longleftrightarrow> gauges_ok p" "local_ok (set_time w now p) \<longleftrightarrow> local_ok p"
  by (simp_all add: gauges_ok_def local_ok_def set_pc_def set_time_def)

lemma active_set_pc:
  assumes "active_ok p" "w < length (workers p)" "workers p' = (workers p)[w := v]" "pc v = x" "y = pc (workers p ! w)"
    "active_threads (stats p') + (if worker_active y = None then 0 else 1)
       = active_threads (stats p) + (if worker_active x = None then 0 else 1)"
  shows "active_ok p'"
proof -
  let ?o = "size (held_by (worker_active \<circ> pc) (take w (workers p) @ drop (Suc w) (workers p)))"
  have "active p = (if worker_active y = None then 0 else 1) + ?o" "active p' = (if worker_active x = None then 0 else 1) + ?o"
    using assms(2,3,4,5) by (auto simp: active_def held_by_update [of w "workers p"] split: option.split)
  then show ?thesis using assms(1,6) by (auto simp: active_ok_def split: if_splits)
qed

lemma active_move: "active_ok p \<Longrightarrow> w < length (workers p) \<Longrightarrow> worker_active x = worker_active (pc (workers p ! w)) \<Longrightarrow>
    active_ok (set_pc w x p)"
  by (simp add: active_ok_def active_def set_pc_def held_by_same)

lemma enter_closure_counters:
  assumes "enter_closure t p = (go, p')"
  shows "gauges_ok p' \<longleftrightarrow> gauges_ok p" "local_ok p' \<longleftrightarrow> local_ok p" "workers p' = workers p"
    "active_threads (stats p') = active_threads (stats p) + (if go then 1 else 0)"
  using assms by (cases t; force simp: gauges_ok_def local_ok_def start_active_def destroy_closure_def set_future_def split: if_splits)+

lemma resubmit_counters:
  assumes "resubmit now i p = Inr p'"
  shows "gauges_ok p \<Longrightarrow> gauges_ok p'" "local_ok p \<Longrightarrow> local_ok p'" "active_ok p \<Longrightarrow> active_ok p'" "workers p' = workers p"
    "active_threads (stats p') = active_threads (stats p)"
proof -
  have "p' = p \<or> (\<exists>d q f j h. SubmitDelayedWithPriority now d q f p = Inr (j, h, p'))"
    using assms by (auto simp: resubmit_def rbind_eq_Inr split: callable.splits)
  then consider "p' = p" | d q f j h where "SubmitDelayedWithPriority now d q f p = Inr (j, h, p')" by blast
  then have "(gauges_ok p \<longrightarrow> gauges_ok p') \<and> (local_ok p \<longrightarrow> local_ok p') \<and> (active_ok p \<longrightarrow> active_ok p') \<and>
    workers p' = workers p \<and> active_threads (stats p') = active_threads (stats p)"
  proof cases
    case 2
    have "workers p' = workers p \<and> active_threads (stats p') = active_threads (stats p)"
      using 2 by (auto simp: SubmitDelayedWithPriority_def check_eq_Inr Let_def make_flag_def make_package_def)
    then show ?thesis using counters_SubmitDelayed [OF 2] by blast
  qed simp
  then show "gauges_ok p \<Longrightarrow> gauges_ok p'" "local_ok p \<Longrightarrow> local_ok p'" "active_ok p \<Longrightarrow> active_ok p'" "workers p' = workers p"
    "active_threads (stats p') = active_threads (stats p)" by auto
qed

lemma leave_closure_counters:
  "gauges_ok (leave_closure t x p) \<longleftrightarrow> gauges_ok p" "local_ok (leave_closure t x p) \<longleftrightarrow> local_ok p"
  "workers (leave_closure t x p) = workers p" "active_threads (stats (leave_closure t x p)) = active_threads (stats p) - 1"
  by (auto simp: gauges_ok_def local_ok_def notify_finish_def set_future_def split: closure.split)

lemma counters_worker:
  assumes p: "gauges_ok p" "local_ok p" "active_ok p" and w: "w < length (workers p)"
    and st: "worker_step now k throws w (pc (workers p ! w)) p = Inr p'"
  shows "gauges_ok p' \<and> local_ok p' \<and> active_ok p'"
proof (cases "pc (workers p ! w)")
  case WLocal
  then obtain r where r: "TakeLocal (thread_id (workers p ! w)) p = Inr r" "p' = go_on w WShared r p"
    using st by (auto simp: rbind_eq_Inr)
  have "p' = set_pc w WShared p" using r(2) local_take [OF p(2) r(1)] by (simp add: go_on_def)
  then show ?thesis using p w WLocal by (auto simp: set_pc_def counter_defs held_by_same)
next
  case WShared
  show ?thesis
  proof (cases "DequeueTask k p")
    case None
    then show ?thesis using p w WShared st by (auto simp: go_on_def intro: active_set_pc [OF p(3) w] simp: set_pc_def counter_defs held_by_same)
  next
    case (Some a)
    then obtain t p1 where d: "DequeueTask k p = Some (t, p1)" by (cases a) auto
    then have p': "p' = set_pc w (WCalled t) p1" using st WShared by (simp add: go_on_def)
    have "gauges_ok p1" "local_ok p1" using counters_Dequeue [OF d p(1)] Dequeue_rest [OF d] p(2) by (simp_all add: local_ok_def)
    moreover have "active_ok p'" using p' Dequeue_rest [OF d] WShared by (intro active_set_pc [OF p(3) w, of p' _ "WCalled t" WShared]) (auto simp: set_pc_def)
    ultimately show ?thesis using p' by simp
  qed
next
  case WStealing
  then have "p' = set_pc w WIdle p" using st local_steal [OF p(2)] by (simp add: go_on_def)
  then show ?thesis using p w WStealing by (auto simp: set_pc_def counter_defs held_by_same)
next
  case (WCalled t)
  obtain go p1 where e: "enter_closure t (set_time w now p) = (go, p1)" by force
  then have p': "p' = set_pc w (if go then WEntering t else WTop) p1" using st WCalled by simp
  have "active_ok p'" using p' enter_closure_counters(3,4) [OF e] WCalled w
    by (intro active_set_pc [OF p(3) w, of p' _ "if go then WEntering t else WTop" "WCalled t"]) (auto simp: set_pc_def set_time_def)
  then show ?thesis using p' enter_closure_counters(1,2) [OF e] p(1,2) by simp
next
  case (WResubmit t)
  then obtain p1 where p1: "resubmit now (task_of t) p = Inr p1" "p' = set_pc w (WReturned t False) p1"
    using st by (auto simp: rbind_eq_Inr)
  note r = resubmit_counters [OF p1(1)]
  have "active_ok p'" using p1(2) r(4,5) WResubmit
    by (intro active_set_pc [OF p(3) w, of p' _ "WReturned t False" "WResubmit t"]) (auto simp: set_pc_def)
  then show ?thesis using p1(2) r(1,2) p by simp
next
  case (WReturned t x)
  then have p': "p' = set_pc w WTop (leave_closure t x p)" using st by simp
  have "active_ok p'" using p' leave_closure_counters(3,4) [of t x p] WReturned
    by (intro active_set_pc [OF p(3) w, of p' _ WTop "WReturned t x"]) (auto simp: set_pc_def)
  then show ?thesis using p' leave_closure_counters(1,2) [of t x p] p(1,2) by simp
next
  case (WEntering t)
  then show ?thesis using p w st by (auto simp: enter_package_def Let_def set_pc_def counter_defs held_by_same)
next
  case (WInUser t)
  then show ?thesis using p w st
    by (auto simp: return_from_user_def set_pc_def counter_defs held_by_same split: callable.splits)
next
  case (WAgain t)
  then show ?thesis using p w st by (auto simp: set_pc_def counter_defs held_by_same split: callable.splits)
next
  case WPausing
  then show ?thesis using p w st by (auto simp: set_pc_def counter_defs held_by_same split: if_splits)
next
  case WNew
  then have "p' = set_pc w WTop (set_time w now p)" using st by simp
  then show ?thesis using p w WNew by (auto simp: set_pc_def set_time_def counter_defs held_by_same)
next
  case WPauseBlocking
  then have "p' = set_pc w WPauseAsleep (p\<lparr>queue_mutex := False\<rparr>)" using st by simp
  then show ?thesis using p w WPauseBlocking by (auto simp: set_pc_def counter_defs held_by_same)
qed (use p w st active_move [OF p(3) w] in auto)

lemma counters_scheduler:
  assumes "gauges_ok p" "local_ok p" "active_ok p" "tasks_ok p"
  shows "gauges_ok (scheduler_step now ks (scheduler p) p) \<and> local_ok (scheduler_step now ks (scheduler p) p) \<and>
    active_ok (scheduler_step now ks (scheduler p) p)"
proof (cases "scheduler p")
  case SProcess
  obtain ready p' where c: "ProcessDelayed_collect now ks p = (ready, p')" by force
  have led: "ledger (held_by (worker_task \<circ> pc) (workers p) + queued p) (running p) (packages p)"
    using assms(4) by (simp add: tasks_ok_def located_def add.commute)
  have "running p \<subseteq># held_by (worker_task \<circ> pc) (workers p)" using running_sub by (simp add: running_def)
  from collect_ledger [OF c led this] counters_collect [OF c assms(1)]
  show ?thesis using SProcess c assms by (simp add: gauges_ok_def local_ok_def active_ok_def active_def)
next
  case (SPush ready)
  then show ?thesis using assms counters_push_all [of p ready] by (simp add: counter_defs)
qed (use assms in \<open>auto simp: counter_defs\<close>)

abbreviation counters_ok :: "pool \<Rightarrow> bool" where
  "counters_ok p \<equiv> gauges_ok p \<and> local_ok p \<and> active_ok p"

lemma counters_notify: "counters_ok p \<Longrightarrow> counters_ok (notify_pause p)" "counters_ok p \<Longrightarrow> counters_ok (notify_delayed p)"
  by (auto simp: gauges_ok_def local_ok_def active_ok_def active_def notify_pause_held)

lemma counters_set_client [simp]: "gauges_ok (set_client c x p) \<longleftrightarrow> gauges_ok p" "local_ok (set_client c x p) \<longleftrightarrow> local_ok p"
  "active_ok (set_client c x p) \<longleftrightarrow> active_ok p"
  by (simp_all add: counter_defs set_client_def)

lemma counters_AddWorkerThread: "counters_ok p \<Longrightarrow> counters_ok (AddWorkerThread p)"
  by (simp add: counter_defs AddWorkerThread_def)

lemma counters_ShutdownNow: "counters_ok p \<Longrightarrow> counters_ok (ShutdownNow_drain p)"
  unfolding ShutdownNow_drain_def Let_def
  by (intro counters_notify) (auto simp: fold_destroy counter_defs)

lemma counters_Shutdown: "counters_ok p \<Longrightarrow> counters_ok (Shutdown_flag p)"
  unfolding Shutdown_flag_def by (intro counters_notify) (auto simp: counter_defs)

lemma counters_Resume: "counters_ok p \<Longrightarrow> counters_ok (Pool_Resume p)"
  unfolding Pool_Resume_def by (intro counters_notify) (auto simp: counter_defs)

lemma counters_fields [simp]:
  "gauges_ok (p\<lparr>queue_mutex := b\<rparr>) \<longleftrightarrow> gauges_ok p" "gauges_ok (p\<lparr>threads_mutex := b\<rparr>) \<longleftrightarrow> gauges_ok p" "gauges_ok (p\<lparr>threads := ts\<rparr>) \<longleftrightarrow> gauges_ok p" "gauges_ok (p\<lparr>flags := fs\<rparr>) \<longleftrightarrow> gauges_ok p" "gauges_ok (p\<lparr>paused := b\<rparr>) \<longleftrightarrow> gauges_ok p"
  "local_ok (p\<lparr>queue_mutex := b\<rparr>) \<longleftrightarrow> local_ok p" "local_ok (p\<lparr>threads_mutex := b\<rparr>) \<longleftrightarrow> local_ok p" "local_ok (p\<lparr>threads := ts\<rparr>) \<longleftrightarrow> local_ok p" "local_ok (p\<lparr>flags := fs\<rparr>) \<longleftrightarrow> local_ok p" "local_ok (p\<lparr>paused := b\<rparr>) \<longleftrightarrow> local_ok p"
  "active_ok (p\<lparr>queue_mutex := b\<rparr>) \<longleftrightarrow> active_ok p" "active_ok (p\<lparr>threads_mutex := b\<rparr>) \<longleftrightarrow> active_ok p" "active_ok (p\<lparr>threads := ts\<rparr>) \<longleftrightarrow> active_ok p" "active_ok (p\<lparr>flags := fs\<rparr>) \<longleftrightarrow> active_ok p" "active_ok (p\<lparr>paused := b\<rparr>) \<longleftrightarrow> active_ok p"
  by (auto simp: counter_defs)

lemma counters_client: "counters_ok p \<Longrightarrow> counters_ok (client_step c x p)"
  using counters_AddWorkerThread [of p] counters_Shutdown [of p] by (cases x) auto

lemma counters_call:
  assumes p: "counters_ok p" and st: "do_call now c call p = Inr p'"
  shows "counters_ok p'"
proof (cases call)
  case (Call_Submit prio f)
  then show ?thesis using p st counters_Submit [of prio "UserFn f" p] by (auto simp: rbind_eq_Inr)
next
  case (Call_SubmitDelayed delay prio f)
  then show ?thesis using p st counters_SubmitDelayed [of now delay prio "UserFn f" p] by (auto simp: rbind_eq_Inr)
next
  case (Call_SubmitAt now' "when" prio f)
  then show ?thesis using p st counters_Submit [of prio "UserFn f" p]
      counters_SubmitDelayed [of now' "(when - now) div 1000000" prio "UserFn f" p]
    by (auto simp: SubmitAtWithPriority_def rbind_eq_Inr split: if_splits)
next
  case (Call_SubmitRecurring interval prio f)
  let ?p1 = "(make_flag p)\<lparr>next_task_id := next_task_id p + 1,
    cancelled_tasks := map_put (next_task_id p) (length (flags p)) (cancelled_tasks p)\<rparr>"
  have "counters_ok ?p1" using p by (simp add: counter_defs make_flag_def)
  then show ?thesis using Call_SubmitRecurring st
      counters_SubmitDelayed [of now 0 prio "RecurringBody interval prio (length (flags p)) (next_task_id p) f" ?p1]
    by (auto simp: SubmitRecurringWithPriority_def rbind_eq_Inr check_eq_Inr Let_def)
next
  case (Call_CancelTask x)
  then show ?thesis using p st by (auto simp: CancelTask_id_def split: option.splits)
next
  case (Call_HandleCancel x)
  then show ?thesis using p st by (auto simp: Handle_Cancel_def split: option.splits)
next
  case Call_ResetStats
  then show ?thesis using p st by (auto simp: Pool_ResetStats_def counter_defs)
next
  case (Call_SetMaxQueueSize n)
  then show ?thesis using p st by (auto simp: SetMaxQueueSize_def counter_defs)
next
  case Call_Pause
  then show ?thesis using p st by (auto simp: Pool_Pause_def)
qed (use p st counters_Resume [OF p] counters_ShutdownNow [OF p] in auto)

section \<open>The invariant\<close>

lemma pool_inv_preserved:
  assumes "pool_inv p" "pool_ready e p" "pool_step e p = Inr p'"
  shows "pool_inv p'"
proof -
  have p: "tasks_ok p" "gauges_ok p" "local_ok p" "active_ok p" using assms(1) by (simp_all add: pool_inv_def)
  then have l: "concat (thread_local_queues p) = []" by (auto simp: local_ok_def)
  show ?thesis
  proof (cases e)
    case (WorkerStep w now k throws)
    then show ?thesis using assms(2,3) tasks_ok_worker [OF p(1), of w now k throws p'] counters_worker [OF p(2-4), of w now k throws p']
      by (simp add: pool_inv_def)
  next
    case (SchedulerStep now ks)
    then show ?thesis using assms(3) tasks_ok_scheduler [OF p(1)] counters_scheduler [OF p(2-4) p(1)] by (auto simp: pool_inv_def)
  next
    case SpuriousWake
    then show ?thesis using assms(3) p tasks_ok_notify_delayed [OF p(1)] counters_notify(2) [of p] by (auto simp: pool_inv_def)
  next
    case (ClientCall c now call)
    then show ?thesis using assms(3) p l tasks_ok_call [of p now c call p'] counters_call [of p now c call p'] by (simp add: pool_inv_def)
  next
    case (ClientStep c)
    then show ?thesis using assms(3) p tasks_ok_client [OF p(1)] counters_client [of p c] by (auto simp: pool_inv_def)
  qed
qed

interpretation thread_pool: step_invariant pool_inv pool_step pool_ready
  by unfold_locales (rule pool_inv_preserved)

lemma pool_inv_new:
  assumes "ThreadPool_new now n config = Inr p"
  shows "pool_inv p" "length (clients p) = n" "length (workers p) = length (threads p)"
proof -
  let ?J = "\<lambda>p. pool_inv p \<and> length (clients p) = n \<and> length (workers p) = length (threads p)"
  have add: "?J ((AddWorkerThread ^^ k) q)" if "?J q" for k q
    using that
  proof (induction k)
    case (Suc k)
    then show ?case using counters_AddWorkerThread tasks_ok_AddWorkerThread by (simp add: pool_inv_def) (simp add: AddWorkerThread_def)
  qed simp
  have max: "0 < unat (max_threads config)" using assms
    by (simp add: ThreadPool_new_def check_eq_Inr word_le_nat_alt)
  have "?J p" using assms max unfolding ThreadPool_new_def check_eq_Inr Let_def
    by (elim conjE) (simp only: sum.inject, erule subst, rule add, simp add: pool_inv_def tasks_ok_def located_def running_def
      queued_def ledger_def pending_def counter_defs ThreadPoolStats_new_def)
  then show "pool_inv p" "length (clients p) = n" "length (workers p) = length (threads p)" by auto
qed

end
