(* ===== verification/Thread_Pool_Props.thy ===== *)
theory Thread_Pool_Props
  imports Thread_Pool_Counters
begin

text \<open>
  The properties of \<open>ThreadPool\<close>: what holds in every state that the workers, the scheduler and the clients can reach
  together, that every run of a worker alone works the queue off, and runs in which waiting and stopping go wrong.
\<close>

section \<open>A worker by itself\<close>

text \<open>What the run of one task leaves alone; futures that have been set stay as they are.\<close>

definition same_queue :: "pool \<Rightarrow> pool \<Rightarrow> bool" where
  "same_queue p q \<longleftrightarrow> cfg q = cfg p \<and> shutdown q = shutdown p \<and> paused q = paused p \<and> queue_mutex q = queue_mutex p \<and>
     length (workers q) = length (workers p) \<and> tasks q = tasks p \<and> priority_tasks q = priority_tasks p"

definition settled :: "pool \<Rightarrow> pool \<Rightarrow> bool" where
  "settled p q \<longleftrightarrow> length (packages p) \<le> length (packages q) \<and> (\<forall>i < length (packages p).
     future (packages p ! i) \<noteq> Pending \<longrightarrow> future (packages q ! i) = future (packages p ! i))"

lemma same_queue_trans: "same_queue p q \<Longrightarrow> same_queue q r \<Longrightarrow> same_queue p r"
  by (simp add: same_queue_def)

lemma settled_trans: "settled p q \<Longrightarrow> settled q r \<Longrightarrow> settled p r"
  by (auto simp: settled_def)

lemma set_pc_simps [simp]:
  "cfg (set_pc w x p) = cfg p" "shutdown (set_pc w x p) = shutdown p" "paused (set_pc w x p) = paused p"
  "queue_mutex (set_pc w x p) = queue_mutex p" "length (workers (set_pc w x p)) = length (workers p)"
  "packages (set_pc w x p) = packages p" "tasks (set_pc w x p) = tasks p" "priority_tasks (set_pc w x p) = priority_tasks p"
  "stats (set_pc w x p) = stats p" "flags (set_pc w x p) = flags p"
  by (simp_all add: set_pc_def)

lemma pc_set_pc [simp]: "w < length (workers p) \<Longrightarrow> pc (workers (set_pc w x p) ! w) = x"
  by (simp add: set_pc_def)

lemma set_time_simps [simp]:
  "cfg (set_time w x p) = cfg p" "shutdown (set_time w x p) = shutdown p" "paused (set_time w x p) = paused p"
  "queue_mutex (set_time w x p) = queue_mutex p" "length (workers (set_time w x p)) = length (workers p)"
  "packages (set_time w x p) = packages p" "tasks (set_time w x p) = tasks p" "priority_tasks (set_time w x p) = priority_tasks p"
  "flags (set_time w x p) = flags p"
  by (simp_all add: set_time_def)

lemma enter_closure_cases:
  assumes "enter_closure t p = (go, q)" "task_of t < length (packages p)" "future (packages p ! task_of t) = Pending"
  shows "same_queue p q" "settled p q" "workers q = workers p"
    "if go then future (packages q ! task_of t) = Pending else future (packages q ! task_of t) \<noteq> Pending"
  using assms by (cases t; auto simp: same_queue_def settled_def start_active_def destroy_closure_def set_future_def nth_list_update
    split: if_splits)+

definition shared_queue :: "pool \<Rightarrow> closure list" where
  "shared_queue p = (if enable_priority_queue (cfg p) then map snd (priority_tasks p) else []) @ tasks p"

lemma DequeueTask_shared:
  assumes "DequeueTask k p = Some (t, q)"
  shows "mset (shared_queue p) = add_mset t (mset (shared_queue q))"
    "length (tasks q) + length (priority_tasks q) < length (tasks p) + length (priority_tasks p)"
    "packages q = packages p" "cfg q = cfg p" "shutdown q = shutdown p" "paused q = paused p" "queue_mutex q = queue_mutex p"
    "workers q = workers p"
proof -
  have "mset (shared_queue p) = add_mset t (mset (shared_queue q)) \<and>
    length (tasks q) + length (priority_tasks q) < length (tasks p) + length (priority_tasks p)"
  proof (cases "enable_priority_queue (cfg p) \<and> priority_tasks p \<noteq> []")
    case True
    then have i: "top_at PriorityTask_less k (priority_tasks p) < length (priority_tasks p)" by (simp add: top_at)
    moreover have "0 < length (priority_tasks p)" using True by simp
    ultimately show ?thesis using assms True mset_map_pop_at [OF i, of snd] by (auto simp: DequeueTask_def Let_def shared_queue_def)
  next
    case False
    then show ?thesis using assms by (auto simp: DequeueTask_def shared_queue_def split: list.splits)
  qed
  then show "mset (shared_queue p) = add_mset t (mset (shared_queue q))"
    "length (tasks q) + length (priority_tasks q) < length (tasks p) + length (priority_tasks p)" by auto
qed (use assms in \<open>auto simp: DequeueTask_def Let_def split: if_splits list.splits\<close>)

lemma DequeueTask_None: "DequeueTask k p = None \<longleftrightarrow> shared_queue p = []"
  by (auto simp: DequeueTask_def shared_queue_def Let_def split: list.split)

lemma worker_holds_pending:
  assumes "pool_inv p" "w < length (workers p)" "worker_task (pc (workers p ! w)) = Some i"
  shows "i < length (packages p)" "future (packages p ! i) = Pending"
proof -
  have "ledger (add_mset i (queued p + others worker_task w p)) (running p) (packages p)"
    using assms by (simp add: pool_inv_def tasks_ok_def located_def held_by_update [of w "workers p"])
  from ledger_place [OF this] show "i < length (packages p)" "future (packages p ! i) = Pending" by auto
qed


section \<open>One step of a worker that is at work\<close>

text \<open>The places of a round, the task that the worker has in its hands, and how far the end is: a round ends at the top of
  the loop, and every task in the queue costs a round.\<close>

fun round_rank :: "worker_pc \<Rightarrow> nat" where
  "round_rank WTop = 12" | "round_rank WCheckStop = 11" | "round_rank WLocal = 10" | "round_rank WShared = 9"
| "round_rank (WCalled t) = 20" | "round_rank (WEntering t) = 19" | "round_rank (WInUser t) = 18" | "round_rank (WAgain t) = 17"
| "round_rank (WResubmit t) = 16" | "round_rank (WReturned t x) = 15" | "round_rank _ = 0"

fun in_hand :: "worker_pc \<Rightarrow> closure list" where
  "in_hand (WCalled t) = [t]" | "in_hand (WEntering t) = [t]" | "in_hand (WInUser t) = [t]" | "in_hand (WAgain t) = [t]"
| "in_hand (WResubmit t) = [t]" | "in_hand (WReturned t x) = [t]" | "in_hand _ = []"

definition work_left :: "nat \<Rightarrow> pool \<Rightarrow> nat" where
  "work_left w p = 13 * length (shared_queue p) + round_rank (pc (workers p ! w))"

definition busy :: "nat \<Rightarrow> pool \<Rightarrow> bool" where
  "busy w p \<longleftrightarrow> w < length (workers p) \<and> \<not> paused p \<and> \<not> queue_mutex p \<and> enable_delayed_tasks (cfg p) \<and>
     length (tasks p) + length (priority_tasks p) < 2 ^ 32 \<and> 0 < round_rank (pc (workers p ! w)) \<and>
     (pc (workers p ! w) = WTop \<or> shared_queue p \<noteq> [] \<or> in_hand (pc (workers p ! w)) \<noteq> []) \<and>
     (pc (workers p ! w) = WLocal \<longrightarrow> enable_work_stealing (cfg p)) \<and> (\<forall>t. pc (workers p ! w) = WResubmit t \<longrightarrow> \<not> shutdown p)"

text \<open>No task that was queued or in hand gets out of sight before its future is set.\<close>

definition to_do :: "nat \<Rightarrow> pool \<Rightarrow> closure set" where
  "to_do w p = set (shared_queue p) \<union> set (in_hand (pc (workers p ! w)))"

definition advances :: "nat \<Rightarrow> pool \<Rightarrow> pool \<Rightarrow> bool" where
  "advances w p q \<longleftrightarrow> busy w q \<and> settled p q \<and> (\<forall>t \<in> to_do w p. t \<in> to_do w q \<or> future (packages q ! task_of t) \<noteq> Pending)"

lemma advances_same:
  assumes "busy w p" "same_queue p q" "settled p q" "pc (workers q ! w) = x" "0 < round_rank x"
    "x = WTop \<or> shared_queue p \<noteq> [] \<or> in_hand x \<noteq> []" "x = WLocal \<longrightarrow> enable_work_stealing (cfg p)" "\<forall>t. x = WResubmit t \<longrightarrow> \<not> shutdown p"
    "\<forall>t \<in> set (in_hand (pc (workers p ! w))). t \<in> set (in_hand x) \<or> future (packages q ! task_of t) \<noteq> Pending"
  shows "advances w p q \<and> work_left w q = 13 * length (shared_queue p) + round_rank x"
proof -
  have "shared_queue q = shared_queue p" using assms(2) by (simp add: shared_queue_def same_queue_def)
  then show ?thesis using assms by (auto simp: advances_def busy_def to_do_def work_left_def same_queue_def)
qed

lemma same_settled [simp]: "same_queue p (set_pc w x p)" "settled p (set_pc w x p)"
  by (simp_all add: same_queue_def settled_def)

lemma resubmit_ok:
  assumes "enable_delayed_tasks (cfg p)" "\<not> shutdown p" "task_of t < length (packages p)"
  obtains q where "resubmit now (task_of t) p = Inr q" "same_queue p q" "settled p q" "workers q = workers p"
    "future (packages q ! task_of t) = future (packages p ! task_of t)"
proof (cases "fn (packages p ! task_of t)")
  case (UserFn n)
  then show thesis by (intro that [of p]) (simp_all add: resubmit_def same_queue_def settled_def)
next
  case (RecurringBody interval prio c task_id f)
  obtain i h q where s: "SubmitDelayedWithPriority now interval prio (RecurringBody interval prio c task_id f) p = Inr (i, h, q)"
    and q: "packages q = packages p @ [\<lparr>fn = RecurringBody interval prio c task_id f, future = Pending, entered = 0\<rparr>]"
      "same_queue p q" "workers q = workers p"
    using assms(1,2) by (simp add: SubmitDelayedWithPriority_def Let_def make_flag_def make_package_def same_queue_def)
  then show thesis using RecurringBody assms(3) by (intro that [of q]) (simp_all add: resubmit_def settled_def nth_append)
qed

lemma take_advances:
  assumes p: "pool_inv p" "busy w p" and pc: "pc (workers p ! w) = WShared" and d: "DequeueTask k p = Some (t, q)"
  shows "advances w p (set_pc w (WCalled t) q) \<and> work_left w (set_pc w (WCalled t) q) < work_left w p"
proof -
  note d1 = DequeueTask_shared [OF d]
  have w: "w < length (workers q)" using p(2) d1(8) by (simp add: busy_def)
  have sq: "shared_queue (set_pc w (WCalled t) q) = shared_queue q" by (simp add: shared_queue_def)
  have l: "length (shared_queue p) = Suc (length (shared_queue q))" using d1(1) by (metis size_add_mset size_mset)
  have s: "set (shared_queue p) = insert t (set (shared_queue q))" using d1(1) by (metis set_mset_add_mset_insert set_mset_mset)
  have "busy w (set_pc w (WCalled t) q)" using p(2) w d1 by (simp add: busy_def)
  moreover have "settled p (set_pc w (WCalled t) q)" using d1(3) by (simp add: settled_def)
  ultimately show ?thesis using w pc by (simp add: advances_def to_do_def work_left_def sq l s)
qed

lemma worker_advances:
  assumes p: "pool_inv p" "busy w p" and go: "pc (workers p ! w) \<noteq> WTop \<or> shared_queue p \<noteq> []"
  shows "pool_ready (WorkerStep w now k throws) p \<and>
    (\<exists>q. pool_step (WorkerStep w now k throws) p = Inr q \<and> advances w p q \<and> work_left w q < work_left w p)"
proof -
  have w: "w < length (workers p)" "\<not> queue_mutex p" "\<not> paused p" "enable_delayed_tasks (cfg p)" using p(2) by (simp_all add: busy_def)
  have local: "local_ok p" using p(1) by (simp add: pool_inv_def)
  have pending: "task_of t < length (packages p)" "future (packages p ! task_of t) = Pending"
    if "worker_task (pc (workers p ! w)) = Some (task_of t)" for t
    using worker_holds_pending [OF p(1) w(1) that] by simp_all
  have size: "GetQueueSize p \<noteq> 0" if "shared_queue p \<noteq> []"
  proof -
    let ?n = "length (tasks p) + length (priority_tasks p)"
    have "0 < ?n" using that by (auto simp: shared_queue_def split: if_splits)
    moreover have "?n < 2 ^ 32" using p(2) by (simp add: busy_def)
    then have "unat (of_nat ?n :: u32) = ?n" unfolding unat_of_nat by simp
    ultimately show ?thesis using p(1) unfolding GetQueueSize_def pool_inv_def gauges_ok_def by (metis less_irrefl unat_0)
  qed
  have ready: "pool_ready (WorkerStep w now k throws) p" using w p(2) by (auto simp: busy_def)
  have stay: "\<exists>q. pool_step (WorkerStep w now k throws) p = Inr q \<and> advances w p q \<and> work_left w q < work_left w p"
    if "worker_step now k throws w (pc (workers p ! w)) p = Inr q" "same_queue p q" "settled p q" "pc (workers q ! w) = x" "0 < round_rank x"
      "x = WTop \<or> shared_queue p \<noteq> [] \<or> in_hand x \<noteq> []" "x = WLocal \<longrightarrow> enable_work_stealing (cfg p)" "\<forall>t. x = WResubmit t \<longrightarrow> \<not> shutdown p"
      "\<forall>t \<in> set (in_hand (pc (workers p ! w))). t \<in> set (in_hand x) \<or> future (packages q ! task_of t) \<noteq> Pending"
      "round_rank x < round_rank (pc (workers p ! w))" for q x
    using advances_same [OF p(2) that(2-9)] that(1,10) by (simp add: work_left_def)
  have "\<exists>q. pool_step (WorkerStep w now k throws) p = Inr q \<and> advances w p q \<and> work_left w q < work_left w p"
  proof (cases "pc (workers p ! w)")
    case WTop
    then show ?thesis using w go by (intro stay [where q = "set_pc w WCheckStop p" and x = WCheckStop]) simp_all
  next
    case WCheckStop
    let ?x = "if enable_work_stealing (cfg p) then WLocal else WShared"
    have q: "shared_queue p \<noteq> []" using WCheckStop p(2) by (simp add: busy_def)
    then show ?thesis using w WCheckStop size by (intro stay [where q = "set_pc w ?x p" and x = ?x]) simp_all
  next
    case WLocal
    obtain r where r: "TakeLocal (thread_id (workers p ! w)) p = Inr r"
      using local_take_defined [OF local] WLocal p(2) by (auto simp: busy_def)
    have "r = None" using local_take [OF local r] .
    then show ?thesis using w WLocal r p(2) by (intro stay [where q = "set_pc w WShared p" and x = WShared]) (simp_all add: go_on_def busy_def)
  next
    case WShared
    have "shared_queue p \<noteq> []" using WShared p(2) by (simp add: busy_def)
    then obtain t q where d: "DequeueTask k p = Some (t, q)" using DequeueTask_None [of k p] by (cases "DequeueTask k p") auto
    then show ?thesis using WShared take_advances [OF p WShared d] by (simp add: go_on_def)
  next
    case (WCalled t)
    obtain go p1 where e: "enter_closure t (set_time w now p) = (go, p1)" by force
    have t: "task_of t < length (packages (set_time w now p))" "future (packages (set_time w now p) ! task_of t) = Pending"
      using pending [of t] WCalled by simp_all
    note ec = enter_closure_cases [OF e t]
    let ?x = "if go then WEntering t else WTop"
    have "w < length (workers p1)" using w(1) ec(3) by simp
    moreover have "same_queue p (set_pc w ?x p1)" "settled p (set_pc w ?x p1)" using ec(1,2) by (simp_all add: same_queue_def settled_def)
    ultimately show ?thesis using WCalled e ec(4) by (intro stay [where q = "set_pc w ?x p1" and x = ?x]) (cases go; simp)+
  next
    case (WEntering t)
    obtain go p1 where e: "enter_package (task_of t) p = (go, p1)" by force
    have t: "task_of t < length (packages p)" using pending [of t] WEntering by simp
    let ?x = "if go then WInUser t else WReturned t False"
    have p1: "same_queue p (set_pc w ?x p1)" "workers p1 = workers p" "settled p (set_pc w ?x p1)"
      using e t by (auto simp: enter_package_def Let_def same_queue_def settled_def nth_list_update)
    then show ?thesis using WEntering w e by (intro stay [where q = "set_pc w ?x p1" and x = ?x]) simp_all
  next
    case (WInUser t)
    let ?x = "case fn (packages p ! task_of t) of UserFn _ \<Rightarrow> WReturned t throws | RecurringBody _ _ _ _ _ \<Rightarrow> WAgain t"
    let ?q = "set_pc w ?x (return_from_user (task_of t) throws p)"
    have r: "same_queue p ?q" "settled p ?q" "workers (return_from_user (task_of t) throws p) = workers p"
      by (simp_all add: return_from_user_def same_queue_def settled_def split: callable.split)
    show ?thesis using WInUser w r by (intro stay [where q = ?q and x = ?x]) (simp_all split: callable.split)
  next
    case (WAgain t)
    let ?x = "case fn (packages p ! task_of t) of UserFn _ \<Rightarrow> WReturned t False
      | RecurringBody _ _ c _ _ \<Rightarrow> if cancelled_or_shutdown c p then WReturned t False else WResubmit t"
    show ?thesis using WAgain w by (intro stay [where q = "set_pc w ?x p" and x = ?x]) (auto simp: cancelled_or_shutdown_def split: callable.split)
  next
    case (WResubmit t)
    have "\<not> shutdown p" "task_of t < length (packages p)" using WResubmit p(2) pending [of t] by (simp_all add: busy_def)
    then obtain q where q: "resubmit now (task_of t) p = Inr q" "same_queue p q" "settled p q" "workers q = workers p"
      using resubmit_ok [OF w(4)] by blast
    have "same_queue p (set_pc w (WReturned t False) q)" "settled p (set_pc w (WReturned t False) q)"
      using q(2,3) by (simp_all add: same_queue_def settled_def)
    then show ?thesis using WResubmit w q by (intro stay [where q = "set_pc w (WReturned t False) q" and x = "WReturned t False"]) simp_all
  next
    case (WReturned t x)
    let ?q = "set_pc w WTop (leave_closure t x p)"
    have t: "task_of t < length (packages p)" "future (packages p ! task_of t) = Pending" using pending [of t] WReturned by simp_all
    have "same_queue p ?q" by (simp add: same_queue_def notify_finish_def set_future_def)
    moreover have "settled p ?q" using t by (auto simp: settled_def notify_finish_def set_future_def nth_list_update)
    moreover have "pc (workers ?q ! w) = WTop" using w by (simp add: notify_finish_def set_future_def)
    moreover have "future (packages ?q ! task_of t) \<noteq> Pending" using t by (simp add: notify_finish_def set_future_def)
    ultimately show ?thesis using WReturned by (intro stay [where q = ?q and x = WTop]) simp_all
  qed (use p(2) in \<open>simp_all add: busy_def\<close>)
  with ready show ?thesis by blast
qed

section \<open>A worker works the queue off\<close>

definition only_worker :: "nat \<Rightarrow> pool_event \<Rightarrow> bool" where
  "only_worker w e \<longleftrightarrow> (case e of WorkerStep v _ _ _ \<Rightarrow> v = w | _ \<Rightarrow> False)"

text \<open>At the end of \<open>q\<close> the worker is at the top of its loop, and what was queued in \<open>p\<close> has been done.\<close>

definition drained :: "nat \<Rightarrow> pool \<Rightarrow> pool \<Rightarrow> bool" where
  "drained w p q \<longleftrightarrow> pc (workers q ! w) = WTop \<and> shared_queue q = [] \<and> settled p q \<and>
     (\<forall>t \<in> set (shared_queue p). future (packages q ! task_of t) \<noteq> Pending)"

lemma to_do_known:
  assumes p: "pool_inv p" "w < length (workers p)" and t: "t \<in> to_do w p"
  shows "task_of t < length (packages p)"
proof (cases "t \<in> set (shared_queue p)")
  case True
  then have "task_of t \<in># queued p" by (auto simp: shared_queue_def queued_def split: if_splits)
  then have "task_of t \<in># located p" by (simp add: located_def)
  then obtain L where "located p = add_mset (task_of t) L" by (metis multi_member_split)
  then show ?thesis using p(1) ledger_place(1) [of "task_of t" L] by (auto simp: pool_inv_def tasks_ok_def)
next
  case False
  then have "worker_task (pc (workers p ! w)) = Some (task_of t)" using t by (cases "pc (workers p ! w)") (simp_all add: to_do_def)
  then show ?thesis by (rule worker_holds_pending(1) [OF p])
qed

lemma worker_run_from:
  assumes p: "pool_inv p" "busy w p" and es: "list_all (only_worker w) es" "run_events pool_step pool_ready es p = Some q"
  shows "(\<exists>fs gs r. es = fs @ gs \<and> run_events pool_step pool_ready fs p = Some r \<and> settled p r \<and> pc (workers r ! w) = WTop \<and> shared_queue r = [] \<and>
      (\<forall>t \<in> to_do w p. future (packages r ! task_of t) \<noteq> Pending)) \<or>
    length es + work_left w q \<le> work_left w p \<and> pool_inv q \<and> busy w q \<and> (pc (workers q ! w) \<noteq> WTop \<or> shared_queue q \<noteq> [])"
  using assms
proof (induction es arbitrary: p)
  case Nil
  show ?case
  proof (cases "pc (workers p ! w) = WTop \<and> shared_queue p = []")
    case True
    then show ?thesis using Nil by (intro disjI1 exI [of _ "[]"]) (simp add: settled_def to_do_def)
  next
    case False
    then show ?thesis using Nil by auto
  qed
next
  case (Cons e es)
  show ?case
  proof (cases "pc (workers p ! w) = WTop \<and> shared_queue p = []")
    case True
    then show ?thesis by (intro disjI1 exI [of _ "[]"] exI [of _ "e # es"] exI [of _ p]) (simp add: settled_def to_do_def)
  next
    case False
    obtain now k throws where e: "e = WorkerStep w now k throws" using Cons.prems(3) by (cases e) (auto simp: only_worker_def)
    obtain r where r: "pool_ready e p" "pool_step e p = Inr r" "advances w p r" "work_left w r < work_left w p"
      using worker_advances [OF Cons.prems(1,2), of now k throws] False unfolding e by blast
    have inv: "pool_inv r" using pool_inv_preserved [OF Cons.prems(1) r(1,2)] .
    have b: "busy w r" "settled p r" "\<forall>t \<in> to_do w p. t \<in> to_do w r \<or> future (packages r ! task_of t) \<noteq> Pending"
      using r(3) by (simp_all add: advances_def)
    have run: "list_all (only_worker w) es" "run_events pool_step pool_ready es r = Some q" using Cons.prems(3,4) r(1,2) by simp_all
    have known: "task_of t < length (packages r)" if "t \<in> to_do w p" for t
      using to_do_known [OF Cons.prems(1) _ that] Cons.prems(2) b(2) by (simp add: busy_def settled_def)
    from Cons.IH [OF inv b(1) run] show ?thesis
    proof (rule disjE)
      assume "\<exists>fs gs u. es = fs @ gs \<and> run_events pool_step pool_ready fs r = Some u \<and> settled r u \<and> pc (workers u ! w) = WTop \<and> shared_queue u = [] \<and>
        (\<forall>t \<in> to_do w r. future (packages u ! task_of t) \<noteq> Pending)"
      then obtain fs gs u where u: "es = fs @ gs" "run_events pool_step pool_ready fs r = Some u" "settled r u" "pc (workers u ! w) = WTop" "shared_queue u = []"
        "\<forall>t \<in> to_do w r. future (packages u ! task_of t) \<noteq> Pending" by blast
      have "future (packages u ! task_of t) \<noteq> Pending" if t: "t \<in> to_do w p" for t
        using b(3) t u(6) u(3) known [OF t] by (auto simp: settled_def)
      then show ?thesis using u r(1,2) settled_trans [OF b(2) u(3)]
        by (intro disjI1 exI [of _ "e # fs"] exI [of _ gs] exI [of _ u]) auto
    next
      assume "length es + work_left w q \<le> work_left w r \<and> pool_inv q \<and> busy w q \<and> (pc (workers q ! w) \<noteq> WTop \<or> shared_queue q \<noteq> [])"
      then show ?thesis using r(4) by (intro disjI2) simp
    qed
  qed
qed

text \<open>With a priority queue, a task is taken only when no task in the queue has a higher priority.\<close>

definition takes_highest :: "nat \<Rightarrow> pool \<Rightarrow> pool \<Rightarrow> bool" where
  "takes_highest w p q \<longleftrightarrow> (\<forall>t. pc (workers p ! w) = WShared \<and> pc (workers q ! w) = WCalled t \<and> enable_priority_queue (cfg p) \<and> priority_tasks p \<noteq> [] \<longrightarrow>
     (\<exists>x. (x, t) \<in> set (priority_tasks p) \<and> (\<forall>y \<in> set (priority_tasks p). fst y \<le> x)))"

lemma shared_step_highest:
  assumes "only_worker w e" "pool_ready e p" "pool_step e p = Inr q"
  shows "takes_highest w p q"
  unfolding takes_highest_def
proof (intro allI impI, elim conjE)
  fix t
  assume pc: "pc (workers p ! w) = WShared" "pc (workers q ! w) = WCalled t" and d: "enable_priority_queue (cfg p)" "priority_tasks p \<noteq> []"
  obtain now k throws where e: "e = WorkerStep w now k throws" using assms(1) by (cases e) (auto simp: only_worker_def)
  let ?e = "priority_tasks p ! top_at PriorityTask_less k (priority_tasks p)"
  have "w < length (workers p)" using assms(2) unfolding e by simp
  then have "t = snd ?e" using assms(3) pc d unfolding e by (simp add: go_on_def DequeueTask_def Let_def set_pc_def) auto
  moreover have "?e \<in> set (priority_tasks p)" using d(2) by (simp add: top_at)
  moreover have "fst y \<le> fst ?e" if "y \<in> set (priority_tasks p)" for y
    using top_at(2) [OF PriorityTask_order d(2) that, of k] by (simp add: PriorityTask_less_def not_less)
  ultimately show "\<exists>x. (x, t) \<in> set (priority_tasks p) \<and> (\<forall>y \<in> set (priority_tasks p). fst y \<le> x)"
    by (metis prod.collapse)
qed

section \<open>Properties\<close>

text \<open>A pool of \<open>n\<close> workers without stealing, and its state after a run.\<close>

definition small_pool :: "bool \<Rightarrow> u32 \<Rightarrow> pool" where
  "small_pool delayed n = (case ThreadPool_new 0 2 ((ThreadPoolConfig_default 4)\<lparr>min_threads := 1, max_threads := n,
     initial_threads := n, enable_work_stealing := False, enable_delayed_tasks := delayed\<rparr>) of Inr p \<Rightarrow> p)"

definition after :: "pool_event list \<Rightarrow> pool \<Rightarrow> pool" where
  "after es p = the (run_events pool_step pool_ready es p)"

lemma after_reached: "run_events pool_step pool_ready es p \<noteq> None \<Longrightarrow> pool_reaches p (after es p)"
  using run_events_steps [OF steps_refl, of pool_step pool_ready es p] by (auto simp: after_def)

lemma small_pool_new:
  "ThreadPool_new 0 2 ((ThreadPoolConfig_default 4)\<lparr>min_threads := 1, max_threads := 1,
     initial_threads := 1, enable_work_stealing := False, enable_delayed_tasks := True\<rparr>) = Inr (small_pool True 1)"
  by code_simp

definition two_tasks_queued :: "pool_event list" where
  "two_tasks_queued = [ClientCall 0 1 (Call_Submit kLow_task 7), ClientStep 0, ClientCall 0 2 (Call_Submit kHigh_task 8),
     ClientStep 0, WorkerStep 0 3 0 False]"

lemma two_tasks_queued_run: "run_events pool_step pool_ready two_tasks_queued (small_pool True 1) \<noteq> None"
  by code_simp

text \<open>C2. In every state that a pool can reach, whatever its clients, workers and scheduler do and in whatever order, the
  task of a pending future is in exactly one place (a queue, the scheduler or a worker), the task of any other future in
  none: no accepted task is lost or queued twice. Every task is called at most once; a future that has a value or an
  exception belongs to a task that was called once, a broken promise to one that was dropped and never called.\<close>

theorem pool_runs_every_task_at_most_once:
  assumes new: "ThreadPool_new now n config = Inr p0" and p: "pool_reaches p0 p" and i: "i < length (packages p)"
  defines "k \<equiv> packages p ! i"
  shows "count (located p) i = (if future k = Pending then 1 else 0) \<and> entered k \<le> 1 \<and>
    (future k = HasValue \<or> future k = HasException \<longrightarrow> entered k = 1) \<and> (future k = BrokenPromise \<longrightarrow> entered k = 0)"
proof -
  have led: "ledger (located p) (running p) (packages p)"
    using thread_pool.always [OF p pool_inv_new(1) [OF new]] by (simp add: pool_inv_def tasks_ok_def)
  then have c: "count (located p) i = (if future k = Pending then 1 else 0)" using i by (simp add: ledger_def count_pending k_def)
  moreover have "count (running p) i \<le> count (located p) i" using led unfolding ledger_def by (elim conjE) (rule mset_subset_eq_count)
  moreover have "entered_ok (count (running p) i) k" using led i by (simp add: ledger_def k_def)
  ultimately show ?thesis by (cases "future k") (auto simp: entered_ok_def)
qed

theorem pool_runs_every_task_at_most_once_witness:
  "count (located (after two_tasks_queued (small_pool True 1))) 1 = 1 \<and>
   future (packages (after two_tasks_queued (small_pool True 1)) ! 1) = Pending"
proof -
  have "1 < length (packages (after two_tasks_queued (small_pool True 1)))"
    "future (packages (after two_tasks_queued (small_pool True 1)) ! 1) = Pending" by code_simp+
  then show ?thesis
    using pool_runs_every_task_at_most_once [OF small_pool_new after_reached [OF two_tasks_queued_run], of 1] by simp
qed

text \<open>C10. The gauges that the pool decides by are exact in every reachable state: \<open>GetQueueSize\<close> is the number of tasks in
  the shared queues, \<open>GetDelayedTasksCount\<close> that of the delayed ones and \<open>GetActiveThreadCount\<close> that of the workers
  that run a task, modulo \<open>2\<^sup>3\<^sup>2\<close>. The queues of the single workers are always empty: no worker ever steals a task.\<close>

theorem pool_gauges_are_exact:
  assumes new: "ThreadPool_new now n config = Inr p0" and p: "pool_reaches p0 p"
  shows "GetQueueSize p = of_nat (length (tasks p) + length (priority_tasks p)) \<and>
    GetDelayedTasksCount p = of_nat (length (delayed_tasks p)) \<and>
    GetActiveThreadCount p = of_nat (length (filter (\<lambda>w. worker_active (pc w) \<noteq> None) (workers p))) \<and>
    StealTask me p = None \<and> (\<forall>q \<in> set (thread_local_queues p). q = [])"
proof -
  have "pool_inv p" using thread_pool.always [OF p pool_inv_new(1) [OF new]] .
  then have "gauges_ok p" "local_ok p" "active_ok p" by (simp_all add: pool_inv_def)
  moreover have "size (held_by (worker_active \<circ> pc) ws) = length (filter (\<lambda>w. worker_active (pc w) \<noteq> None) ws)" for ws :: "worker list"
    by (induction ws) (auto split: option.split)
  ultimately show ?thesis using local_steal [of p me]
    by (simp add: gauges_ok_def local_ok_def active_ok_def active_def GetQueueSize_def GetDelayedTasksCount_def GetActiveThreadCount_def)
qed

theorem pool_gauges_are_exact_witness:
  "GetQueueSize (after two_tasks_queued (small_pool True 1)) = 2"
proof -
  have "length (tasks (after two_tasks_queued (small_pool True 1))) + length (priority_tasks (after two_tasks_queued (small_pool True 1))) = 2"
    by code_simp
  then show ?thesis using pool_gauges_are_exact [OF small_pool_new after_reached [OF two_tasks_queued_run]] by (metis of_nat_numeral)
qed

definition at_work :: "nat \<Rightarrow> pool \<Rightarrow> bool" where
  "at_work w p \<longleftrightarrow> w < length (workers p) \<and> pc (workers p ! w) = WTop \<and> \<not> paused p \<and> \<not> queue_mutex p \<and>
     enable_delayed_tasks (cfg p) \<and> length (tasks p) + length (priority_tasks p) < 2 ^ 32"

text \<open>C11. In a reachable state in which the pool is not paused, its queue is not locked and a worker is at the top of its loop, every run of this
  worker alone - whatever the clock says, however equal priorities are resolved, whether the functions of the user return or throw -
  goes through a state in which the worker is at the top of its loop with an empty shared queue and the futures of all tasks that were
  queued are set, no future that was set before having changed; as long as it has not, the worker can make any of its steps without a
  fault, and it has made fewer than 13 steps for each queued task and 12 more. With priorities, every task it takes is one
  of the highest priority in the queue at that moment. (\<open>at_work\<close> also says that delayed tasks are enabled, as they are by default, and
  that the queue has fewer than $2^{32}$ tasks, the range of its gauge.)\<close>

theorem worker_drains_queue:
  assumes new: "ThreadPool_new now n config = Inr p0" and p: "pool_reaches p0 p" and w: "at_work w p"
    and es: "list_all (only_worker w) es" "run_events pool_step pool_ready es p = Some q"
  shows "((\<exists>fs gs r. es = fs @ gs \<and> run_events pool_step pool_ready fs p = Some r \<and> drained w p r) \<or>
      length es < 13 * length (shared_queue p) + 12 \<and>
      (\<forall>time k throws. pool_ready (WorkerStep w time k throws) q \<and> (\<exists>r. pool_step (WorkerStep w time k throws) q = Inr r))) \<and>
    (\<forall>fs e gs r u. es = fs @ e # gs \<and> run_events pool_step pool_ready fs p = Some r \<and> pool_step e r = Inr u \<longrightarrow> takes_highest w r u)"
proof
  have inv: "pool_inv p" using thread_pool.always [OF p pool_inv_new(1) [OF new]] .
  have b: "busy w p" using w by (simp add: at_work_def busy_def)
  have left: "work_left w p = 13 * length (shared_queue p) + 12" using w by (simp add: at_work_def work_left_def)
  from worker_run_from [OF inv b es]
  show "(\<exists>fs gs r. es = fs @ gs \<and> run_events pool_step pool_ready fs p = Some r \<and> drained w p r) \<or>
      length es < 13 * length (shared_queue p) + 12 \<and>
      (\<forall>time k throws. pool_ready (WorkerStep w time k throws) q \<and> (\<exists>r. pool_step (WorkerStep w time k throws) q = Inr r))"
  proof (rule disjE)
    assume "\<exists>fs gs r. es = fs @ gs \<and> run_events pool_step pool_ready fs p = Some r \<and> settled p r \<and> pc (workers r ! w) = WTop \<and> shared_queue r = [] \<and>
      (\<forall>t \<in> to_do w p. future (packages r ! task_of t) \<noteq> Pending)"
    then obtain fs gs r where r: "es = fs @ gs" "run_events pool_step pool_ready fs p = Some r" "settled p r" "pc (workers r ! w) = WTop" "shared_queue r = []"
      "\<forall>t \<in> to_do w p. future (packages r ! task_of t) \<noteq> Pending" by blast
    then have "drained w p r" by (simp add: drained_def to_do_def)
    with r(1,2) show ?thesis by blast
  next
    assume "length es + work_left w q \<le> work_left w p \<and> pool_inv q \<and> busy w q \<and> (pc (workers q ! w) \<noteq> WTop \<or> shared_queue q \<noteq> [])"
    then have l: "length es + work_left w q \<le> work_left w p" and q: "pool_inv q" "busy w q" "pc (workers q ! w) \<noteq> WTop \<or> shared_queue q \<noteq> []" by simp_all
    have "0 < work_left w q" using q(2) by (simp add: busy_def work_left_def)
    then have "length es < 13 * length (shared_queue p) + 12" using l left by simp
    then show ?thesis using worker_advances [OF q] by blast
  qed
  show "\<forall>fs e gs r u. es = fs @ e # gs \<and> run_events pool_step pool_ready fs p = Some r \<and> pool_step e r = Inr u \<longrightarrow> takes_highest w r u"
  proof (intro allI impI, elim conjE)
    fix fs e gs r and u :: pool
    assume s: "es = fs @ e # gs" "run_events pool_step pool_ready fs p = Some r" "pool_step e r = Inr u"
    then have "only_worker w e" "pool_ready e r" using es by (auto simp: run_events_append split: if_splits)
    then show "takes_highest w r u" by (rule shared_step_highest [OF _ _ s(3)])
  qed
qed

definition worker_0_steps :: "pool_event list" where
  "worker_0_steps = replicate 38 (WorkerStep 0 2 0 False)"

theorem worker_drains_queue_witness:
  "\<exists>fs gs r. worker_0_steps = fs @ gs \<and> run_events pool_step pool_ready fs (after two_tasks_queued (small_pool True 1)) = Some r \<and>
     shared_queue r = [] \<and> future (packages r ! 0) \<noteq> Pending \<and> future (packages r ! 1) \<noteq> Pending"
proof -
  let ?p = "after two_tasks_queued (small_pool True 1)"
  have "length (tasks ?p) + length (priority_tasks ?p) = 2" "0 < length (workers ?p)" "pc (workers ?p ! 0) = WTop" "\<not> paused ?p"
    "\<not> queue_mutex ?p" "enable_delayed_tasks (cfg ?p)" by code_simp+
  then have w: "at_work 0 ?p" by (simp add: at_work_def)
  have s: "shared_queue ?p = [RunTask 0, RunTask 1]" by code_simp
  have "run_events pool_step pool_ready worker_0_steps ?p \<noteq> None" by code_simp
  then obtain q where q: "run_events pool_step pool_ready worker_0_steps ?p = Some q" by blast
  have e: "list_all (only_worker 0) worker_0_steps" "length worker_0_steps = 38" by (simp_all add: worker_0_steps_def only_worker_def list_all_iff)
  from worker_drains_queue [OF small_pool_new after_reached [OF two_tasks_queued_run] w e(1) q]
  obtain fs gs r where "worker_0_steps = fs @ gs" "run_events pool_step pool_ready fs ?p = Some r" "drained 0 ?p r"
    unfolding s e(2) by auto
  then show ?thesis unfolding s drained_def by (intro exI [of _ fs] exI [of _ gs] exI [of _ r]) simp
qed

text \<open>Runs that show what can go wrong. \<open>worker\<close> makes a number of steps at one time.\<close>

abbreviation worker :: "nat \<Rightarrow> int \<Rightarrow> nat \<Rightarrow> pool_event list" where
  "worker w now n \<equiv> replicate n (WorkerStep w now 0 False)"

definition wait_before_start :: "pool_event list" where
  "wait_before_start = [ClientCall 0 1 (Call_Submit kNormal_task 7), ClientStep 0] @ worker 0 2 4 @
     [ClientCall 1 3 Call_WaitForTasks, ClientStep 1]"

definition wait_misses_finish :: "pool_event list" where
  "wait_misses_finish = [ClientCall 0 1 (Call_Submit kNormal_task 7), ClientStep 0] @ worker 0 2 7 @
     [ClientCall 1 3 Call_WaitForTasks, ClientStep 1] @ worker 0 4 1 @ [ClientStep 1]"

definition scheduler_oversleeps :: "pool_event list" where
  "scheduler_oversleeps = ClientCall 0 0 (Call_SubmitDelayed 10000 kNormal_task 7) # replicate 3 (SchedulerStep 0 id) @
     [ClientCall 0 1 (Call_SubmitDelayed 100 kNormal_task 8), SchedulerStep 2 id]"

text \<open>Three wake-ups that the pool gets wrong. \<open>WaitForTasks\<close> returns while a task that a worker has taken from the
  queue has not been started: it counts as neither queued nor active. \<open>WaitForTasks\<close> goes to sleep for good although
  everything is done, when the last task ends between its test and its sleep: the notification does not take the lock. The
  scheduler keeps sleeping until the time of an older task although a task that was submitted later is due: it was woken
  for it, found it not yet due, and went back to sleep for the old time.\<close>

theorem pool_misses_wake_ups:
  "(let p = after wait_before_start (small_pool False 1) in pool_reaches (small_pool False 1) p \<and>
      clients p ! 1 = COutside \<and> future (packages p ! 0) = Pending \<and> entered (packages p ! 0) = 0) \<and>
   (let p = after wait_misses_finish (small_pool False 1) in pool_reaches (small_pool False 1) p \<and>
      clients p ! 1 = CWaitAsleep False \<and> WaitForTasks_done p \<and> future (packages p ! 0) = HasValue \<and> located p = {#}) \<and>
   (let p = after scheduler_oversleeps (small_pool True 1) in pool_reaches (small_pool True 1) p \<and>
      scheduler_wakes 1000000000 p \<and> \<not> pool_ready (SchedulerStep 1000000000 id) p)"
proof -
  have 1: "run_events pool_step pool_ready wait_before_start (small_pool False 1) \<noteq> None"
    "clients (after wait_before_start (small_pool False 1)) ! 1 = COutside"
    "future (packages (after wait_before_start (small_pool False 1)) ! 0) = Pending"
    "entered (packages (after wait_before_start (small_pool False 1)) ! 0) = 0" by code_simp+
  have 2: "run_events pool_step pool_ready wait_misses_finish (small_pool False 1) \<noteq> None"
    "clients (after wait_misses_finish (small_pool False 1)) ! 1 = CWaitAsleep False"
    "WaitForTasks_done (after wait_misses_finish (small_pool False 1))"
    "future (packages (after wait_misses_finish (small_pool False 1)) ! 0) = HasValue"
    "located (after wait_misses_finish (small_pool False 1)) = {#}" by code_simp+
  have 3: "run_events pool_step pool_ready scheduler_oversleeps (small_pool True 1) \<noteq> None"
    "scheduler_wakes 1000000000 (after scheduler_oversleeps (small_pool True 1))"
    "\<not> pool_ready (SchedulerStep 1000000000 id) (after scheduler_oversleeps (small_pool True 1))" by code_simp+
  show ?thesis unfolding Let_def using 1 2 3 after_reached by blast
qed

definition stop_while_idle :: "pool_event list" where
  "stop_while_idle = worker 0 0 4 @ worker 0 40000000000 1 @ ClientCall 0 40000000001 (Call_Shutdown False) # replicate 3 (ClientStep 0)"

definition all_retire :: "pool_event list" where
  "all_retire = worker 0 0 4 @ worker 1 0 4 @ worker 0 40000000000 2 @ worker 1 40000000000 2 @
     [ClientCall 0 40000000001 (Call_Submit kNormal_task 7), ClientStep 0]"

text \<open>The retirement of idle workers breaks the pool in two ways. A worker that wants to retire while \<open>Shutdown\<close> joins
  the workers waits for the mutex that \<open>Shutdown\<close> holds, and \<open>Shutdown\<close> waits for the worker: no thread of the pool can
  make a step any more. And since a retiring worker stays in \<open>threads_\<close>, the count that is compared with \<open>min_threads\<close>
  does not go down: all workers retire although one has to stay, and a task that is submitted then is never run.\<close>

theorem idle_retirement_breaks_the_pool:
  "(let p = after stop_while_idle (small_pool False 1) in pool_reaches (small_pool False 1) p \<and> clients p ! 0 = CJoining \<and>
      (\<forall>w now k b. \<not> pool_ready (WorkerStep w now k b) p) \<and> (\<forall>now ks. \<not> pool_ready (SchedulerStep now ks) p) \<and>
      (\<forall>c. \<not> pool_ready (ClientStep c) p)) \<and>
   (let p = after all_retire (small_pool False 2) in pool_reaches (small_pool False 2) p \<and> min_threads (cfg p) = 1 \<and>
      GetThreadCount p = 2 \<and> list_all (\<lambda>w. pc w = WExited) (workers p) \<and> \<not> shutdown p \<and> clients p ! 0 = COutside \<and>
      future (packages p ! 0) = Pending \<and> shared_queue p = [RunTask 0])"
proof -
  let ?p = "after stop_while_idle (small_pool False 1)" and ?q = "after all_retire (small_pool False 2)"
  have run: "run_events pool_step pool_ready stop_while_idle (small_pool False 1) \<noteq> None" by code_simp
  have p: "clients ?p = [CJoining, COutside]" "scheduler ?p = SNone" "threads ?p = [0]" "threads_mutex ?p"
    "map pc (workers ?p) = [WIdleLock]" by code_simp+
  then obtain v where v: "workers ?p = [v]" "pc v = WIdleLock" by auto
  have "\<not> pool_ready (WorkerStep w now k b) ?p" for w now k b using p(4) v by (cases w) auto
  moreover have "\<not> pool_ready (SchedulerStep now ks) ?p" for now ks using p(2) by simp
  moreover have "\<not> pool_ready (ClientStep c) ?p" for c
    using p v by (cases c) (auto simp: less_Suc_eq)
  moreover have "run_events pool_step pool_ready all_retire (small_pool False 2) \<noteq> None" "min_threads (cfg ?q) = 1"
    "GetThreadCount ?q = 2" "list_all (\<lambda>w. pc w = WExited) (workers ?q)" "\<not> shutdown ?q" "clients ?q ! 0 = COutside"
    "future (packages ?q ! 0) = Pending" "shared_queue ?q = [RunTask 0]" by code_simp+
  ultimately show ?thesis unfolding Let_def using after_reached [OF run] after_reached p(1) by simp
qed

end
