(* ===== verification/Parallel.thy ===== *)
theory Parallel
  imports Thread_Pool
begin

text \<open>
  \<open>GlobalThreadPool\<close>, \<open>ParallelFor\<close> and \<open>ParallelTransform\<close> (concurrency/threadpool.h, .cc): the calling thread, which submits one task
  for each element and then waits for the futures in order, interleaved with the workers of the pool. Of the pool they rely on
  what \<open>Thread_Pool\<close> shows of \<open>Submit\<close>: a task is queued or, with a full queue, dropped, and a queued task is run at most once. Tasks of
  others in the same pool are a number that each submission is given.
\<close>

section \<open>The global pool\<close>

definition GlobalThreadPool_Instance :: "int \<Rightarrow> nat \<Rightarrow> u32 \<Rightarrow> pool option \<Rightarrow> pool result" where
  "GlobalThreadPool_Instance now n hardware_concurrency instance' =
     (case instance' of Some p \<Rightarrow> Inr p | None \<Rightarrow> ThreadPool_new now n (ThreadPoolConfig_default hardware_concurrency))"

section \<open>State\<close>

text \<open>A task with its future: in the queue, being run, with a value, with an exception, or dropped, which breaks its promise.\<close>

datatype 'b cell = Queued | Running | Got 'b | Threw | Dropped

datatype par_pc = Submit_next | Await nat | Par_returned | Par_raised

record ('a, 'b) par =
  cells :: "'b cell list"
  calls :: "'a list"
  results :: "'b list"
  par_pc :: par_pc

definition par_init :: "('a, 'b) par" where
  "par_init = \<lparr>cells = [], calls = [], results = [], par_pc = Submit_next\<rparr>"

definition queued_cells :: "'b cell list \<Rightarrow> nat" where
  "queued_cells cs = length (filter (\<lambda>c. case c of Queued \<Rightarrow> True | _ \<Rightarrow> False) cs)"

definition is_ready :: "'b cell \<Rightarrow> bool" where
  "is_ready c \<longleftrightarrow> (case c of Queued \<Rightarrow> False | Running \<Rightarrow> False | _ \<Rightarrow> True)"

section \<open>Steps\<close>

text \<open>The loop that submits: \<open>EnqueueTask\<close> drops the task when the queue is full.\<close>

definition submit_next :: "nat \<Rightarrow> 'a list \<Rightarrow> nat \<Rightarrow> ('a, 'b) par \<Rightarrow> ('a, 'b) par" where
  "submit_next max_queue xs others s = (if length (cells s) = length xs then s\<lparr>par_pc := Await 0\<rparr>
     else s\<lparr>cells := cells s @ [if 0 < max_queue \<and> max_queue \<le> queued_cells (cells s) + others then Dropped else Queued]\<rparr>)"

text \<open>The loops that wait: \<open>wait\<close> ignores what the future holds, \<open>get\<close> returns the value or throws.\<close>

definition wait_next :: "('a, 'b) par \<Rightarrow> nat \<Rightarrow> ('a, 'b) par" where
  "wait_next s i = (if length (cells s) \<le> i then s\<lparr>par_pc := Par_returned\<rparr> else s\<lparr>par_pc := Await (i + 1)\<rparr>)"

definition get_next :: "('a, 'b) par \<Rightarrow> nat \<Rightarrow> ('a, 'b) par" where
  "get_next s i = (if length (cells s) \<le> i then s\<lparr>par_pc := Par_returned\<rparr>
     else case cells s ! i of Got r \<Rightarrow> s\<lparr>results := results s @ [r], par_pc := Await (i + 1)\<rparr> | _ \<Rightarrow> s\<lparr>par_pc := Par_raised\<rparr>)"

text \<open>A worker takes a task and calls the function, which returns or throws (\<open>None\<close>).\<close>

definition run_cell :: "('a \<Rightarrow> 'b option) \<Rightarrow> 'a list \<Rightarrow> nat \<Rightarrow> ('a, 'b) par \<Rightarrow> ('a, 'b) par" where
  "run_cell f xs i s = (case cells s ! i of
     Queued \<Rightarrow> s\<lparr>cells := (cells s)[i := Running], calls := calls s @ [xs ! i]\<rparr>
   | Running \<Rightarrow> s\<lparr>cells := (cells s)[i := case f (xs ! i) of Some r \<Rightarrow> Got r | None \<Rightarrow> Threw]\<rparr>
   | _ \<Rightarrow> s)"

datatype par_event = Caller_step nat | Pool_step nat

fun caller_step :: "bool \<Rightarrow> nat \<Rightarrow> 'a list \<Rightarrow> nat \<Rightarrow> ('a, 'b) par \<Rightarrow> ('a, 'b) par" where
  "caller_step transform max_queue xs others s = (case par_pc s of
     Submit_next \<Rightarrow> submit_next max_queue xs others s
   | Await i \<Rightarrow> if transform then get_next s i else wait_next s i
   | _ \<Rightarrow> s)"

fun par_step :: "bool \<Rightarrow> nat \<Rightarrow> ('a \<Rightarrow> 'b option) \<Rightarrow> 'a list \<Rightarrow> par_event \<Rightarrow> ('a, 'b) par \<Rightarrow> ('a, 'b) par result" where
  "par_step transform max_queue f xs (Caller_step others) s = Inr (caller_step transform max_queue xs others s)"
| "par_step transform max_queue f xs (Pool_step i) s = Inr (run_cell f xs i s)"

fun par_ready :: "par_event \<Rightarrow> ('a, 'b) par \<Rightarrow> bool" where
  "par_ready (Caller_step others) s = (case par_pc s of Submit_next \<Rightarrow> True
     | Await i \<Rightarrow> length (cells s) \<le> i \<or> is_ready (cells s ! i) | _ \<Rightarrow> False)"
| "par_ready (Pool_step i) s = (i < length (cells s) \<and> (case cells s ! i of Queued \<Rightarrow> True | Running \<Rightarrow> True | _ \<Rightarrow> False))"

definition parallel_for_step :: "nat \<Rightarrow> ('a \<Rightarrow> unit option) \<Rightarrow> 'a list \<Rightarrow> par_event \<Rightarrow> ('a, unit) par \<Rightarrow> ('a, unit) par result" where
  "parallel_for_step = par_step False"

definition parallel_transform_step :: "nat \<Rightarrow> ('a \<Rightarrow> 'b option) \<Rightarrow> 'a list \<Rightarrow> par_event \<Rightarrow> ('a, 'b) par \<Rightarrow> ('a, 'b) par result" where
  "parallel_transform_step = par_step True"

section \<open>Invariant\<close>

text \<open>The calls so far are those of the cells that a worker has taken; a finished cell holds what the function gives.\<close>

definition called :: "'b cell \<Rightarrow> bool" where
  "called c \<longleftrightarrow> (case c of Queued \<Rightarrow> False | Dropped \<Rightarrow> False | _ \<Rightarrow> True)"

definition cell_ok :: "('a \<Rightarrow> 'b option) \<Rightarrow> 'a \<Rightarrow> 'b cell \<Rightarrow> bool" where
  "cell_ok f x c \<longleftrightarrow> (case c of Got r \<Rightarrow> f x = Some r | Threw \<Rightarrow> f x = None | _ \<Rightarrow> True)"

definition elements_of :: "('b cell \<Rightarrow> bool) \<Rightarrow> 'a list \<Rightarrow> 'b cell list \<Rightarrow> 'a list" where
  "elements_of P xs cs = map fst (filter (\<lambda>(x, c). P c) (zip xs cs))"

definition par_inv :: "bool \<Rightarrow> nat \<Rightarrow> ('a \<Rightarrow> 'b option) \<Rightarrow> 'a list \<Rightarrow> ('a, 'b) par \<Rightarrow> bool" where
  "par_inv transform max_queue f xs s \<longleftrightarrow> mset (calls s) = mset (elements_of called xs (cells s)) \<and>
     list_all2 (cell_ok f) (take (length (cells s)) xs) (cells s) \<and> length (cells s) \<le> length xs \<and>
     (max_queue = 0 \<longrightarrow> Dropped \<notin> set (cells s)) \<and>
     (case par_pc s of Submit_next \<Rightarrow> results s = []
      | Await i \<Rightarrow> length (cells s) = length xs \<and> i \<le> length xs \<and> list_all is_ready (take i (cells s)) \<and> (transform \<longrightarrow> take i (cells s) = map Got (results s))
      | Par_returned \<Rightarrow> length (cells s) = length xs \<and> list_all is_ready (cells s) \<and> (transform \<longrightarrow> cells s = map Got (results s))
      | Par_raised \<Rightarrow> transform \<and> length (cells s) = length xs \<and> (Threw \<in> set (cells s) \<or> Dropped \<in> set (cells s)))"


lemma elements_of_Cons: "elements_of P (x # xs) (c # cs) = (if P c then [x] else []) @ elements_of P xs cs"
  by (simp add: elements_of_def)

lemma elements_of_Nil [simp]: "elements_of P xs [] = []"
  by (simp add: elements_of_def)

lemma elements_of_snoc: "length cs < length xs \<Longrightarrow> elements_of P xs (cs @ [c]) = elements_of P xs cs @ (if P c then [xs ! length cs] else [])"
proof (induction cs arbitrary: xs)
  case Nil
  then show ?case by (cases xs) (simp_all add: elements_of_Cons)
next
  case (Cons d cs)
  then show ?case by (cases xs) (simp_all add: elements_of_Cons)
qed

lemma elements_of_same: "P (cs ! i) = P c \<Longrightarrow> i < length cs \<Longrightarrow> length cs \<le> length xs \<Longrightarrow> elements_of P xs (cs[i := c]) = elements_of P xs cs"
proof (induction cs arbitrary: xs i)
  case (Cons d cs)
  then show ?case by (cases xs; cases i) (simp_all add: elements_of_Cons)
qed simp

lemma elements_of_new: "\<not> P (cs ! i) \<Longrightarrow> P c \<Longrightarrow> i < length cs \<Longrightarrow> length cs \<le> length xs \<Longrightarrow>
    mset (elements_of P xs (cs[i := c])) = add_mset (xs ! i) (mset (elements_of P xs cs))"
proof (induction cs arbitrary: xs i)
  case (Cons d cs)
  then show ?case by (cases xs; cases i) (simp_all add: elements_of_Cons)
qed simp

lemma elements_of_all: "list_all P cs \<Longrightarrow> length cs = length xs \<Longrightarrow> elements_of P xs cs = xs"
proof (induction cs arbitrary: xs)
  case (Cons d cs)
  then show ?case by (cases xs) (simp_all add: elements_of_Cons)
qed simp

lemma cells_ok_update: "list_all2 Q ys cs \<Longrightarrow> i < length cs \<Longrightarrow> Q (ys ! i) c \<Longrightarrow> list_all2 Q ys (cs[i := c])"
  by (auto simp: list_all2_conv_all_nth nth_list_update)

text \<open>The part of the invariant about the place of the caller.\<close>

definition place_ok :: "bool \<Rightarrow> 'a list \<Rightarrow> ('a, 'b) par \<Rightarrow> bool" where
  "place_ok transform xs s \<longleftrightarrow> (case par_pc s of Submit_next \<Rightarrow> results s = []
      | Await i \<Rightarrow> length (cells s) = length xs \<and> i \<le> length xs \<and> list_all is_ready (take i (cells s)) \<and> (transform \<longrightarrow> take i (cells s) = map Got (results s))
      | Par_returned \<Rightarrow> length (cells s) = length xs \<and> list_all is_ready (cells s) \<and> (transform \<longrightarrow> cells s = map Got (results s))
      | Par_raised \<Rightarrow> transform \<and> length (cells s) = length xs \<and> (Threw \<in> set (cells s) \<or> Dropped \<in> set (cells s)))"

definition cells_ok :: "nat \<Rightarrow> ('a \<Rightarrow> 'b option) \<Rightarrow> 'a list \<Rightarrow> ('a, 'b) par \<Rightarrow> bool" where
  "cells_ok max_queue f xs s \<longleftrightarrow> mset (calls s) = mset (elements_of called xs (cells s)) \<and>
     list_all2 (cell_ok f) (take (length (cells s)) xs) (cells s) \<and> length (cells s) \<le> length xs \<and> (max_queue = 0 \<longrightarrow> Dropped \<notin> set (cells s))"

lemma par_inv_parts: "par_inv transform max_queue f xs s \<longleftrightarrow> cells_ok max_queue f xs s \<and> place_ok transform xs s"
  by (simp add: par_inv_def cells_ok_def place_ok_def)

text \<open>A worker only changes a cell that is not ready, so the caller's part stays.\<close>

lemma place_update:
  assumes "place_ok transform xs s" "i < length (cells s)" "\<not> is_ready (cells s ! i)" "cells t = (cells s)[i := c]" "par_pc t = par_pc s" "results t = results s"
  shows "place_ok transform xs t"
proof (cases "par_pc s")
  case (Await j)
  have "\<not> i < j"
  proof
    assume "i < j"
    then have "cells s ! i \<in> set (take j (cells s))" using assms(2) by (auto simp: in_set_conv_nth intro: exI [of _ i])
    then show False using assms(1,3) Await by (auto simp: place_ok_def list_all_iff)
  qed
  then show ?thesis using assms Await by (simp add: place_ok_def)
next
  case Par_returned
  then have "is_ready (cells s ! i)" using assms(1,2) by (simp add: place_ok_def list_all_length)
  then show ?thesis using assms(3) by simp
next
  case Par_raised
  have "y \<in> set ((cells s)[i := c])" if y: "y \<in> set (cells s)" "is_ready y" for y
  proof -
    obtain k where k: "k < length (cells s)" "cells s ! k = y" using y(1) unfolding in_set_conv_nth by blast
    then have "k \<noteq> i" using assms(3) y(2) by auto
    then show ?thesis using k by (metis length_list_update nth_list_update_neq nth_mem)
  qed
  then show ?thesis using assms Par_raised by (auto simp: place_ok_def is_ready_def)
qed (use assms in \<open>simp add: place_ok_def\<close>)

lemma run_cell_inv:
  assumes inv: "par_inv transform max_queue f xs s" and i: "i < length (cells s)" "\<not> is_ready (cells s ! i)"
  shows "par_inv transform max_queue f xs (run_cell f xs i s)"
proof -
  have ok: "cells_ok max_queue f xs s" "place_ok transform xs s" using inv by (simp_all add: par_inv_parts)
  have x: "take (length (cells s)) xs ! i = xs ! i" "i < length xs" using ok(1) i(1) by (simp_all add: cells_ok_def)
  have no_drop: "Dropped \<notin> set ((cells s)[i := c])" if "Dropped \<notin> set (cells s)" "c \<noteq> Dropped" for c
    using that set_update_subset_insert [of "cells s" i c] by auto
  consider "cells s ! i = Queued" | "cells s ! i = Running" using i(2) by (cases "cells s ! i") (auto simp: is_ready_def)
  then show ?thesis
  proof cases
    case 1
    then have t: "run_cell f xs i s = s\<lparr>cells := (cells s)[i := Running], calls := calls s @ [xs ! i]\<rparr>" by (simp add: run_cell_def)
    have "mset (elements_of called xs ((cells s)[i := Running])) = add_mset (xs ! i) (mset (elements_of called xs (cells s)))"
      using 1 i(1) ok(1) by (intro elements_of_new) (simp_all add: called_def cells_ok_def)
    then have "cells_ok max_queue f xs (run_cell f xs i s)"
      using ok(1) i(1) no_drop [of Running] unfolding t cells_ok_def by (auto intro: cells_ok_update simp: cell_ok_def)
    moreover have "place_ok transform xs (run_cell f xs i s)" unfolding t by (rule place_update [OF ok(2) i]) simp_all
    ultimately show ?thesis by (simp add: par_inv_parts)
  next
    case 2
    define c where "c = (case f (xs ! i) of Some r \<Rightarrow> Got r | None \<Rightarrow> Threw)"
    have t: "run_cell f xs i s = s\<lparr>cells := (cells s)[i := c]\<rparr>" using 2 by (simp add: run_cell_def c_def)
    have c: "c \<noteq> Dropped" "called c" "cell_ok f (xs ! i) c" by (simp_all add: c_def called_def cell_ok_def split: option.split)
    have "elements_of called xs ((cells s)[i := c]) = elements_of called xs (cells s)"
      using 2 i(1) ok(1) c(2) by (intro elements_of_same) (simp_all add: called_def cells_ok_def)
    then have "cells_ok max_queue f xs (run_cell f xs i s)"
      using ok(1) i(1) no_drop [OF _ c(1)] c(3) x unfolding t cells_ok_def by (auto intro: cells_ok_update)
    moreover have "place_ok transform xs (run_cell f xs i s)" unfolding t by (rule place_update [OF ok(2) i]) simp_all
    ultimately show ?thesis by (simp add: par_inv_parts)
  qed
qed

lemma submit_inv:
  assumes inv: "par_inv transform max_queue f xs s" and pc: "par_pc s = Submit_next"
  shows "par_inv transform max_queue f xs (submit_next max_queue xs others s)"
proof (cases "length (cells s) = length xs")
  case True
  then show ?thesis using inv pc by (simp add: submit_next_def par_inv_def)
next
  case False
  define c where "c = (if 0 < max_queue \<and> max_queue \<le> queued_cells (cells s) + others then Dropped else Queued :: 'b cell)"
  have t: "submit_next max_queue xs others s = s\<lparr>cells := cells s @ [c]\<rparr>" using False by (simp add: submit_next_def c_def)
  have l: "length (cells s) < length xs" using inv False by (simp add: par_inv_def)
  have c: "\<not> called c" "cell_ok f x c" "max_queue = 0 \<Longrightarrow> c \<noteq> Dropped" for x by (simp_all add: c_def called_def cell_ok_def)
  have "take (length (cells s) + 1) xs = take (length (cells s)) xs @ [xs ! length (cells s)]" using l by (simp add: take_Suc_conv_app_nth)
  then show ?thesis using inv pc l c elements_of_snoc [OF l, of called c]
    unfolding t by (auto simp: par_inv_def list_all2_appendI)
qed

lemma caller_inv:
  assumes inv: "par_inv transform max_queue f xs s" and ready: "par_ready (Caller_step others) s"
  shows "par_inv transform max_queue f xs (caller_step transform max_queue xs others s)"
proof (cases "par_pc s")
  case Submit_next
  then show ?thesis using submit_inv [OF inv Submit_next] by simp
next
  case (Await i)
  have ok: "cells_ok max_queue f xs s" and p: "length (cells s) = length xs" "i \<le> length xs" "list_all is_ready (take i (cells s))"
    "transform \<Longrightarrow> take i (cells s) = map Got (results s)"
    using inv Await by (simp_all add: par_inv_parts place_ok_def)
  have keep: "cells_ok max_queue f xs (s\<lparr>par_pc := pc\<rparr>)" "cells_ok max_queue f xs (s\<lparr>results := r, par_pc := pc\<rparr>)" for pc r
    using ok by (simp_all add: cells_ok_def)
  show ?thesis
  proof (cases "i = length xs")
    case True
    have "caller_step transform max_queue xs others s = s\<lparr>par_pc := Par_returned\<rparr>" using True Await p(1) by (simp add: wait_next_def get_next_def)
    moreover have "place_ok transform xs (s\<lparr>par_pc := Par_returned\<rparr>)" using True p by (cases transform) (simp_all add: place_ok_def)
    ultimately show ?thesis using keep(1) by (simp add: par_inv_parts)
  next
    case False
    then have i: "i < length (cells s)" using p by simp
    then have r: "is_ready (cells s ! i)" using ready Await by simp
    have n: "take (i + 1) (cells s) = take i (cells s) @ [cells s ! i]" using i by (simp add: take_Suc_conv_app_nth)
    show ?thesis
    proof (cases transform)
      case False
      then show ?thesis using Await p keep i r n by (simp add: par_inv_parts place_ok_def wait_next_def)
    next
      case True
      have mem: "cells s ! i \<in> set (cells s)" using i by simp
      show ?thesis
      proof (cases "\<exists>v. cells s ! i = Got v")
        case True
        then obtain v where v: "cells s ! i = Got v" by blast
        then have "caller_step transform max_queue xs others s = s\<lparr>results := results s @ [v], par_pc := Await (i + 1)\<rparr>"
          using \<open>transform\<close> Await i by (simp add: get_next_def)
        moreover have "place_ok transform xs (s\<lparr>results := results s @ [v], par_pc := Await (i + 1)\<rparr>)"
          using p i n v by (simp add: place_ok_def is_ready_def)
        ultimately show ?thesis using keep(2) by (simp add: par_inv_parts)
      next
        case False
        then have d: "cells s ! i = Threw \<or> cells s ! i = Dropped" using r by (cases "cells s ! i") (auto simp: is_ready_def)
        then have "caller_step transform max_queue xs others s = s\<lparr>par_pc := Par_raised\<rparr>" using \<open>transform\<close> Await i by (auto simp: get_next_def)
        moreover have "place_ok transform xs (s\<lparr>par_pc := Par_raised\<rparr>)" using \<open>transform\<close> d mem p(1) by (auto simp: place_ok_def)
        ultimately show ?thesis using keep(1) by (simp add: par_inv_parts)
      qed
    qed
  qed
qed (use ready in simp_all)

lemma par_step_inv:
  assumes "par_inv transform max_queue f xs s" "par_ready e s" "par_step transform max_queue f xs e s = Inr t"
  shows "par_inv transform max_queue f xs t"
proof (cases e)
  case (Caller_step others)
  with assms caller_inv show ?thesis by auto
next
  case (Pool_step i)
  then have "i < length (cells s)" "\<not> is_ready (cells s ! i)" using assms(2) by (auto simp: is_ready_def split: cell.splits)
  with run_cell_inv [OF assms(1) this] assms(3) Pool_step show ?thesis by simp
qed

interpretation parallel: step_invariant "par_inv transform max_queue f xs" "par_step transform max_queue f xs" par_ready for transform max_queue f xs
  by unfold_locales (rule par_step_inv)

lemma par_init_inv: "par_inv transform max_queue f xs par_init"
  by (simp add: par_inv_def par_init_def)

section \<open>Properties\<close>

definition quarter :: "nat \<Rightarrow> nat option" where
  "quarter x = (if x mod 4 = 0 then Some (x div 4) else None)"

definition two_elements :: "par_event list" where
  "two_elements = [Caller_step 0, Caller_step 0, Caller_step 0, Pool_step 1, Pool_step 0, Pool_step 0, Pool_step 1, Caller_step 0, Caller_step 0, Caller_step 0]"

lemma ParallelTransform_raises_for_a_reason:
  assumes "steps_to (parallel_transform_step max_queue f xs) par_ready par_init s" "par_pc s = Par_raised"
  shows "(\<exists>x \<in> set xs. f x = None) \<or> 0 < max_queue \<and> Dropped \<in> set (cells s)"
proof -
  have inv: "par_inv True max_queue f xs s" using parallel.always [OF assms(1) [unfolded parallel_transform_step_def] par_init_inv] .
  then have c: "list_all2 (cell_ok f) xs (cells s)" "Threw \<in> set (cells s) \<or> Dropped \<in> set (cells s)" "max_queue = 0 \<Longrightarrow> Dropped \<notin> set (cells s)"
    using assms(2) by (auto simp: par_inv_def)
  have "\<exists>x \<in> set xs. f x = None" if t: "Threw \<in> set (cells s)"
  proof -
    obtain i where i: "i < length (cells s)" "cells s ! i = Threw" using t unfolding in_set_conv_nth by blast
    with c(1) have "cell_ok f (xs ! i) (cells s ! i)" "i < length xs" by (auto simp: list_all2_conv_all_nth)
    then have "f (xs ! i) = None" "xs ! i \<in> set xs" using i(2) by (simp_all add: cell_ok_def)
    then show ?thesis by blast
  qed
  then show ?thesis using c(2,3) by blast
qed

text \<open>
  C8. When \<open>ParallelTransform\<close> returns, in whatever order the workers ran the tasks, its vector is the map of the function over the elements in
  their order, and the function was called exactly once for each element.
\<close>

theorem ParallelTransform_is_a_map:
  assumes "steps_to (parallel_transform_step max_queue f xs) par_ready par_init s" "par_pc s = Par_returned"
  shows "map Some (results s) = map f xs \<and> mset (calls s) = mset xs"
proof -
  have inv: "par_inv True max_queue f xs s" using parallel.always [OF assms(1) [unfolded parallel_transform_step_def] par_init_inv] .
  then have "place_ok True xs s" and ok: "cells_ok max_queue f xs s" by (simp_all add: par_inv_parts)
  then have c: "cells s = map Got (results s)" "length (cells s) = length xs" using assms(2) unfolding place_ok_def by auto
  then have c: "cells s = map Got (results s)" "length (cells s) = length xs" "list_all2 (cell_ok f) xs (cells s)"
    "mset (calls s) = mset (elements_of called xs (cells s))" using ok by (auto simp: cells_ok_def)
  have "map Some (results s) = map f xs"
    using c(2,3) unfolding c(1) by (intro nth_equalityI) (auto simp: list_all2_conv_all_nth cell_ok_def)
  moreover have "elements_of called xs (cells s) = xs" using c(2) unfolding c(1) by (intro elements_of_all) (simp_all add: list_all_iff called_def)
  ultimately show ?thesis using c(4) by simp
qed

theorem ParallelTransform_is_a_map_witness:
  "\<exists>s. run_events (parallel_transform_step 9 quarter [4, 8 :: nat]) par_ready two_elements par_init = Some s \<and> par_pc s = Par_returned \<and>
     map Some (results s) = [Some 1, Some 2] \<and> mset (calls s) = {#4, 8#}"
proof -
  have "map_option par_pc (run_events (parallel_transform_step 9 quarter [4, 8 :: nat]) par_ready two_elements par_init) = Some Par_returned" by code_simp
  then obtain s where s: "run_events (parallel_transform_step 9 quarter [4, 8]) par_ready two_elements par_init = Some s" "par_pc s = Par_returned" by auto
  have "steps_to (parallel_transform_step 9 quarter [4, 8]) par_ready par_init s" by (rule run_events_steps [OF steps_refl s(1)])
  from ParallelTransform_is_a_map [OF this s(2)] s show ?thesis by (auto simp: quarter_def)
qed

text \<open>
  C9. When \<open>ParallelFor\<close> returns, no task is left that could still use the function, which is passed by reference, and the function was called
  exactly once for each element whose task the queue took: for all elements when the queue is unbounded.
\<close>

theorem ParallelFor_visits_each_element_once:
  assumes "steps_to (parallel_for_step max_queue f xs) par_ready par_init s" "par_pc s = Par_returned"
  shows "list_all is_ready (cells s) \<and> mset (calls s) = mset (elements_of (\<lambda>c. c \<noteq> Dropped) xs (cells s)) \<and> (max_queue = 0 \<longrightarrow> mset (calls s) = mset xs)"
proof -
  have inv: "par_inv False max_queue f xs s" using parallel.always [OF assms(1) [unfolded parallel_for_step_def] par_init_inv] .
  then have c: "list_all is_ready (cells s)" "length (cells s) = length xs" "mset (calls s) = mset (elements_of called xs (cells s))"
    "max_queue = 0 \<Longrightarrow> Dropped \<notin> set (cells s)" using assms(2) by (simp_all add: par_inv_def)
  have "filter (\<lambda>(x, c). called c) (zip xs (cells s)) = filter (\<lambda>(x, c). c \<noteq> Dropped) (zip xs (cells s))"
  proof (rule filter_cong [OF refl])
    fix p assume "p \<in> set (zip xs (cells s))"
    then have "is_ready (snd p)" using c(1) set_zip_rightD [of "fst p" "snd p"] by (auto simp: list_all_iff)
    then show "(case p of (x, c) \<Rightarrow> called c) = (case p of (x, c) \<Rightarrow> c \<noteq> Dropped)"
      by (cases p; cases "snd p") (simp_all add: called_def is_ready_def)
  qed
  then have e: "elements_of called xs (cells s) = elements_of (\<lambda>c. c \<noteq> Dropped) xs (cells s)" by (simp add: elements_of_def)
  have "elements_of (\<lambda>c. c \<noteq> Dropped) xs (cells s) = xs" if "max_queue = 0"
    using c(2) c(4) [OF that] by (intro elements_of_all) (auto simp: list_all_iff)
  then show ?thesis using c(1,3) e by simp
qed

theorem ParallelFor_visits_each_element_once_witness:
  "\<exists>s. run_events (parallel_for_step 0 (\<lambda>_. Some ()) [4, 8 :: nat]) par_ready two_elements par_init = Some s \<and> mset (calls s) = {#4, 8#}"
proof -
  have "map_option par_pc (run_events (parallel_for_step 0 (\<lambda>_. Some ()) [4, 8 :: nat]) par_ready two_elements par_init) = Some Par_returned" by code_simp
  then obtain s where s: "run_events (parallel_for_step 0 (\<lambda>_. Some ()) [4, 8 :: nat]) par_ready two_elements par_init = Some s" "par_pc s = Par_returned" by auto
  have "steps_to (parallel_for_step 0 (\<lambda>_. Some ()) [4, 8 :: nat]) par_ready par_init s" by (rule run_events_steps [OF steps_refl s(1)])
  from ParallelFor_visits_each_element_once [OF this s(2)] s show ?thesis by auto
qed

text \<open>A full queue: the element is skipped and nobody is told, since \<open>wait\<close> does not look at the future.\<close>

lemma ParallelFor_skips_elements:
  "map_option (\<lambda>s. (par_pc s, calls s)) (run_events (parallel_for_step 1 (\<lambda>_. Some ()) [4, 8 :: nat]) par_ready
     [Caller_step 0, Caller_step 0, Caller_step 0, Pool_step 0, Pool_step 0, Caller_step 0, Caller_step 0, Caller_step 0] par_init) = Some (Par_returned, [4])"
  by code_simp

end
