(* ===== verification/Token_Bucket.thy ===== *)
theory Token_Bucket
  imports Yacul_Prelude Complex_Main
begin

text \<open>
  \<open>TokenBucket\<close> (qos/token_bucket.h, .cc), the rate limiter of the QOS scheduler. Its \<open>double\<close> arithmetic is taken as exact
  arithmetic of an ordered field: rounding is not modelled. The time that \<open>NowNs\<close> reads, in nanoseconds, is an argument
  of every operation; it need not be monotone. All operations run under the bucket's spinlock and are atomic.
\<close>

section \<open>Operations\<close>

record 'a token_bucket =
  rate' :: 'a
  capacity' :: 'a
  tokens' :: 'a
  last_refill_ns' :: int

definition TokenBucket_new :: "int \<Rightarrow> 'a \<Rightarrow> 'a \<Rightarrow> 'a token_bucket" where
  "TokenBucket_new now_ns rate capacity = \<lparr>rate' = rate, capacity' = capacity, tokens' = capacity, last_refill_ns' = now_ns\<rparr>"

text \<open>\<open>static_cast<double>(ns) * 1e-9\<close>\<close>

definition seconds :: "int \<Rightarrow> 'a::linordered_field" where
  "seconds ns = of_int ns / 10 ^ 9"

definition RefillLocked :: "int \<Rightarrow> 'a::linordered_field token_bucket \<Rightarrow> 'a token_bucket" where
  "RefillLocked now_ns b =
    (let elapsed_s = seconds (now_ns - last_refill_ns' b)
     in if elapsed_s \<le> 0 then b
        else let elapsed_s = min elapsed_s (capacity' b / rate' b)
          in b\<lparr>tokens' := min (tokens' b + elapsed_s * rate' b) (capacity' b), last_refill_ns' := now_ns\<rparr>)"

definition TryConsume :: "int \<Rightarrow> 'a::linordered_field \<Rightarrow> 'a token_bucket \<Rightarrow> bool \<times> 'a token_bucket" where
  "TryConsume now_ns tokens b0 =
    (if tokens \<le> 0 then (True, b0)
     else let b = RefillLocked now_ns b0
       in if tokens' b < tokens then (False, b) else (True, b\<lparr>tokens' := tokens' b - tokens\<rparr>))"

definition Refill :: "'a::linordered_field \<Rightarrow> 'a token_bucket \<Rightarrow> 'a token_bucket" where
  "Refill tokens b = (if tokens \<le> 0 then b else b\<lparr>tokens' := min (tokens' b + tokens) (capacity' b)\<rparr>)"

definition Bucket_Reset :: "int \<Rightarrow> 'a::linordered_field token_bucket \<Rightarrow> 'a token_bucket" where
  "Bucket_Reset now_ns b = b\<lparr>tokens' := capacity' b, last_refill_ns' := now_ns\<rparr>"

definition CurrentTokens :: "int \<Rightarrow> 'a::linordered_field token_bucket \<Rightarrow> 'a \<times> 'a token_bucket" where
  "CurrentTokens now_ns b0 = (let b = RefillLocked now_ns b0 in (tokens' b, b))"

section \<open>Programs of calls\<close>

datatype 'a bucket_call = CallConsume int 'a | CallRefill 'a | CallCurrent int | CallReset int

text \<open>The tokens that a call takes out and the bucket after it.\<close>

fun run_call :: "'a::linordered_field bucket_call \<Rightarrow> 'a token_bucket \<Rightarrow> 'a \<times> 'a token_bucket" where
  "run_call (CallConsume now t) b = (let (ok, b') = TryConsume now t b in (if ok \<and> 0 < t then t else 0, b'))"
| "run_call (CallRefill t) b = (0, Refill t b)"
| "run_call (CallCurrent now) b = (0, snd (CurrentTokens now b))"
| "run_call (CallReset now) b = (0, Bucket_Reset now b)"

fun bucket_calls :: "'a::linordered_field bucket_call list \<Rightarrow> 'a token_bucket \<Rightarrow> 'a \<times> 'a token_bucket" where
  "bucket_calls [] b = (0, b)"
| "bucket_calls (c # cs) b = (let (x, b1) = run_call c b; (y, b2) = bucket_calls cs b1 in (x + y, b2))"

text \<open>The clock readings of the calls, and the time by which they move the last refill forward. A \<open>Reset\<close> moves it without a
  credit for the time.\<close>

fun call_times :: "'a::linordered_field bucket_call list \<Rightarrow> int list" where
  "call_times [] = []"
| "call_times (CallConsume now t # cs) = (if 0 < t then now # call_times cs else call_times cs)"
| "call_times (CallRefill _ # cs) = call_times cs"
| "call_times (CallCurrent now # cs) = now # call_times cs"
| "call_times (CallReset now # cs) = now # call_times cs"

fun refilled_time :: "'a::linordered_field bucket_call list \<Rightarrow> int \<Rightarrow> int" where
  "refilled_time [] t0 = 0"
| "refilled_time (CallConsume now t # cs) t0 =
    (if 0 < t then max now t0 - t0 + refilled_time cs (max now t0) else refilled_time cs t0)"
| "refilled_time (CallRefill _ # cs) t0 = refilled_time cs t0"
| "refilled_time (CallCurrent now # cs) t0 = max now t0 - t0 + refilled_time cs (max now t0)"
| "refilled_time (CallReset now # cs) t0 = refilled_time cs now"

text \<open>A \<open>Reset\<close> fills the bucket, so it credits at most the capacity.\<close>

fun credits :: "'a::linordered_field \<Rightarrow> 'a bucket_call list \<Rightarrow> 'a" where
  "credits cap [] = 0"
| "credits cap (CallRefill t # cs) = (if 0 < t then t else 0) + credits cap cs"
| "credits cap (CallReset now # cs) = cap + credits cap cs"
| "credits cap (_ # cs) = credits cap cs"

definition resets :: "'a::linordered_field bucket_call list \<Rightarrow> bool" where
  "resets cs \<longleftrightarrow> list_ex (\<lambda>c. case c of CallReset now \<Rightarrow> True | _ \<Rightarrow> False) cs"

section \<open>The invariant and the bound on the throughput\<close>

definition bucket_ok :: "'a::linordered_field token_bucket \<Rightarrow> bool" where
  "bucket_ok b \<longleftrightarrow> 0 < rate' b \<and> 0 < capacity' b \<and> 0 \<le> tokens' b \<and> tokens' b \<le> capacity' b"

lemma seconds_add: "seconds (a + b) = (seconds a + seconds b :: 'a::linordered_field)"
  by (simp add: seconds_def add_divide_distrib)

lemma seconds_le_iff [simp]: "seconds a \<le> (seconds b :: 'a::linordered_field) \<longleftrightarrow> a \<le> b"
  by (simp add: seconds_def divide_le_cancel)

lemma seconds_pos [simp]: "seconds a \<le> (0 :: 'a::linordered_field) \<longleftrightarrow> a \<le> 0"
  using seconds_le_iff [of a 0] by (simp add: seconds_def)

lemma RefillLocked_ok:
  assumes "bucket_ok b"
  shows "bucket_ok (RefillLocked now b)"
    "tokens' (RefillLocked now b) \<le> tokens' b + rate' b * seconds (max now (last_refill_ns' b) - last_refill_ns' b)"
    "rate' (RefillLocked now b) = rate' b" "capacity' (RefillLocked now b) = capacity' b"
    "last_refill_ns' (RefillLocked now b) = max now (last_refill_ns' b)"
proof -
  let ?e = "seconds (now - last_refill_ns' b)"
  let ?t = "min (tokens' b + min ?e (capacity' b / rate' b) * rate' b) (capacity' b)"
  have b: "0 < rate' b" "0 < capacity' b" "0 \<le> tokens' b" "tokens' b \<le> capacity' b" using assms by (auto simp: bucket_ok_def)
  have step: "RefillLocked now b = (if now \<le> last_refill_ns' b then b else b\<lparr>tokens' := ?t, last_refill_ns' := now\<rparr>)"
    by (simp add: RefillLocked_def Let_def)
  show "rate' (RefillLocked now b) = rate' b" "capacity' (RefillLocked now b) = capacity' b"
    "last_refill_ns' (RefillLocked now b) = max now (last_refill_ns' b)" by (auto simp: step)
  have "0 \<le> min ?e (capacity' b / rate' b) * rate' b" if "\<not> now \<le> last_refill_ns' b"
  proof -
    have "(0 :: 'a) \<le> ?e" using that seconds_le_iff [of 0 "now - last_refill_ns' b", where 'a = 'a] by (simp add: seconds_def)
    then show ?thesis using b by (intro mult_nonneg_nonneg) auto
  qed
  then show "bucket_ok (RefillLocked now b)" using b by (auto simp: step bucket_ok_def)
  have "min ?e (capacity' b / rate' b) * rate' b \<le> ?e * rate' b" using b(1) by (intro mult_right_mono) auto
  then have "?t \<le> tokens' b + ?e * rate' b" by (meson add_left_mono min.coboundedI1 order_trans)
  then show "tokens' (RefillLocked now b) \<le> tokens' b + rate' b * seconds (max now (last_refill_ns' b) - last_refill_ns' b)"
    by (auto simp: step mult.commute max_def) (simp add: seconds_def)
qed

definition after_call :: "'a::linordered_field bucket_call \<Rightarrow> int \<Rightarrow> int" where
  "after_call c t0 = (case c of CallReset now \<Rightarrow> now | _ \<Rightarrow> fold max (call_times [c]) t0)"

lemma refilled_time_Cons: "refilled_time (c # cs) t0 = refilled_time [c] t0 + refilled_time cs (after_call c t0)"
  by (cases c) (simp_all add: after_call_def)

lemma credits_Cons: "credits cap (c # cs) = credits cap [c] + credits cap cs"
  by (cases c) simp_all

text \<open>What a call takes out is paid by the level, by its credit and by the time that it counts.\<close>

lemma run_call_ok:
  assumes b: "bucket_ok b" and c: "run_call c b = (x, b')"
  shows "bucket_ok b' \<and> x + tokens' b' \<le> tokens' b + credits (capacity' b) [c] + rate' b * seconds (refilled_time [c] (last_refill_ns' b)) \<and>
    rate' b' = rate' b \<and> capacity' b' = capacity' b \<and> last_refill_ns' b' = after_call c (last_refill_ns' b)"
proof (cases c)
  case (CallConsume now t)
  note r = RefillLocked_ok [OF b, of now]
  have ok: "bucket_ok (RefillLocked now b)" by (rule r(1))
  show ?thesis
  proof (cases "0 < t \<and> t \<le> tokens' (RefillLocked now b)")
    case True
    then have eq: "x = t" "b' = (RefillLocked now b)\<lparr>tokens' := tokens' (RefillLocked now b) - t\<rparr>"
      using c CallConsume by (auto simp: TryConsume_def Let_def)
    have "bucket_ok b'" using ok True by (auto simp: eq bucket_ok_def)
    moreover have "x + tokens' b' = tokens' (RefillLocked now b)" by (simp add: eq)
    ultimately show ?thesis using r(2-5) CallConsume True by (simp add: eq after_call_def)
  next
    case False
    then have "x = 0" "b' = (if 0 < t then RefillLocked now b else b)"
      using c CallConsume by (auto simp: TryConsume_def Let_def split: if_splits)
    then show ?thesis using r b CallConsume by (auto simp: not_less after_call_def seconds_def)
  qed
next
  case (CallRefill t)
  have "bucket_ok (Refill t b)" "tokens' (Refill t b) \<le> tokens' b + (if 0 < t then t else 0)"
    using b by (auto simp: Refill_def bucket_ok_def)
  then show ?thesis using c CallRefill by (auto simp: Refill_def after_call_def seconds_def)
next
  case (CallCurrent now)
  then have "x = 0" "b' = RefillLocked now b" using c by (auto simp: CurrentTokens_def Let_def)
  then show ?thesis using RefillLocked_ok [OF b, of now] CallCurrent by (auto simp: after_call_def)
next
  case (CallReset now)
  then have "x = 0" "b' = Bucket_Reset now b" using c by auto
  then show ?thesis using b CallReset by (auto simp: Bucket_Reset_def bucket_ok_def after_call_def seconds_def)
qed

lemma bucket_calls_ok:
  assumes "bucket_ok b" "bucket_calls cs b = (x, b')"
  shows "bucket_ok b' \<and> capacity' b' = capacity' b \<and>
    x + tokens' b' \<le> tokens' b + credits (capacity' b) cs + rate' b * seconds (refilled_time cs (last_refill_ns' b))"
  using assms
proof (induction cs arbitrary: b x)
  case Nil
  then show ?case by (simp add: seconds_def)
next
  case (Cons c cs)
  obtain y b1 where 1: "run_call c b = (y, b1)" by (cases "run_call c b")
  obtain z where 2: "bucket_calls cs b1 = (z, b')" "x = y + z" using Cons.prems(2) 1 by (auto split: prod.splits)
  note c = run_call_ok [OF Cons.prems(1) 1]
  have rest: "bucket_ok b' \<and> capacity' b' = capacity' b1 \<and>
      z + tokens' b' \<le> tokens' b1 + credits (capacity' b1) cs + rate' b1 * seconds (refilled_time cs (last_refill_ns' b1))"
    using Cons.IH [OF _ 2(1)] c by blast
  have "rate' b * seconds (refilled_time (c # cs) (last_refill_ns' b)) =
      rate' b * seconds (refilled_time [c] (last_refill_ns' b)) + rate' b * seconds (refilled_time cs (after_call c (last_refill_ns' b)))"
    by (subst refilled_time_Cons) (simp add: seconds_add distrib_left)
  then show ?case using c rest 2(2) credits_Cons [of "capacity' b" c cs] by simp
qed

text \<open>That time is the time that passed, with a clock that does not go back or without a \<open>Reset\<close>.\<close>

lemma refilled_time_passed:
  "sorted (t0 # call_times cs) \<or> \<not> resets cs \<Longrightarrow> refilled_time cs t0 \<le> fold max (call_times cs) t0 - t0"
proof (induction cs arbitrary: t0)
  case (Cons c cs)
  show ?case
  proof (cases c)
    case (CallReset now)
    with Cons.prems have "t0 \<le> now" "sorted (now # call_times cs)" by (simp_all add: resets_def)
    then show ?thesis using Cons.IH [of now] CallReset by (simp add: max_def)
  next
    case (CallConsume now t)
    show ?thesis
    proof (cases "0 < t")
      case True
      have "sorted (max now t0 # call_times cs) \<or> \<not> resets cs" using Cons.prems CallConsume True by (auto simp: resets_def max_def)
      with Cons.IH [of "max now t0"] CallConsume True show ?thesis by simp
    next
      case False
      with Cons.IH [of t0] Cons.prems CallConsume show ?thesis by (simp add: resets_def)
    qed
  next
    case (CallCurrent now)
    have "sorted (max now t0 # call_times cs) \<or> \<not> resets cs" using Cons.prems CallCurrent by (auto simp: resets_def max_def)
    with Cons.IH [of "max now t0"] CallCurrent show ?thesis by simp
  next
    case (CallRefill t)
    with Cons.IH [of t0] Cons.prems show ?thesis by (simp add: resets_def)
  qed
qed simp

text \<open>C37. The token bucket limits the rate, in exact arithmetic: whatever calls of its five operations are made, at whatever times, the
  tokens that they take out are at most those that were in the bucket, those credited by \<open>Refill\<close>, a capacity for each
  \<open>Reset\<close>, and what the rate yields over the time by which refills moved the clock of the bucket; with a clock that does not go
  back, or without \<open>Reset\<close>, that is at most the time up to the latest reading, so a full bucket without credits lets through at
  most its capacity plus rate times time. The level stays between nought and the capacity.\<close>

theorem token_bucket_limits_rate:
  assumes b: "bucket_ok b" and cs: "bucket_calls cs b = (x, b')"
  shows "x \<le> tokens' b + credits (capacity' b) cs + rate' b * seconds (refilled_time cs (last_refill_ns' b)) \<and>
    (sorted (last_refill_ns' b # call_times cs) \<or> \<not> resets cs \<longrightarrow>
      x \<le> tokens' b + credits (capacity' b) cs + rate' b * seconds (fold max (call_times cs) (last_refill_ns' b) - last_refill_ns' b)) \<and>
    0 \<le> tokens' b' \<and> tokens' b' \<le> capacity' b"
proof -
  note r = bucket_calls_ok [OF assms]
  let ?t = "fold max (call_times cs) (last_refill_ns' b) - last_refill_ns' b"
  have x: "x \<le> tokens' b + credits (capacity' b) cs + rate' b * seconds (refilled_time cs (last_refill_ns' b))"
    using r by (auto simp: bucket_ok_def)
  moreover have "rate' b * seconds (refilled_time cs (last_refill_ns' b)) \<le> rate' b * seconds ?t"
    if "sorted (last_refill_ns' b # call_times cs) \<or> \<not> resets cs"
    using b refilled_time_passed [OF that] by (intro mult_left_mono) (simp_all add: bucket_ok_def)
  moreover have "0 \<le> tokens' b'" "tokens' b' \<le> capacity' b" using r by (auto simp: bucket_ok_def)
  ultimately show ?thesis by (meson add_left_mono order_trans)
qed

text \<open>Ten tokens a second, at most twenty: three bursts within a second and a half.\<close>

definition demo_bucket :: "rat token_bucket" where
  "demo_bucket = TokenBucket_new 0 10 20"

theorem token_bucket_limits_rate_witness:
  "bucket_calls [CallConsume 0 15, CallConsume 500000000 8, CallReset 1000000000, CallConsume 1500000000 30] demo_bucket =
     (23, \<lparr>rate' = 10, capacity' = 20, tokens' = 20, last_refill_ns' = 1500000000\<rparr>) \<and>
   (23 :: rat) \<le> 20 + 20 + 10 * seconds 1500000000"
proof -
  have r: "bucket_calls [CallConsume 0 15, CallConsume 500000000 8, CallReset 1000000000, CallConsume 1500000000 30] demo_bucket =
     (23, \<lparr>rate' = 10, capacity' = 20, tokens' = 20, last_refill_ns' = 1500000000\<rparr>)"
    by (simp add: demo_bucket_def TokenBucket_new_def TryConsume_def RefillLocked_def Bucket_Reset_def seconds_def)
  have "bucket_ok demo_bucket" by (simp add: demo_bucket_def TokenBucket_new_def bucket_ok_def)
  from token_bucket_limits_rate [OF this r] r show ?thesis by (simp add: demo_bucket_def TokenBucket_new_def)
qed

end
