(* ===== verification/Qos.thy ===== *)
theory Qos
  imports Token_Bucket
begin

text \<open>
  The QOS scheduler (qos/qos.h, qos.cc, qos_stats.h, .cc, i_qos_item.h): six priority queues with admission control
  (queue depths, overflow policy, token buckets), expiry and statistics. An operation of the model is one call that runs
  by itself, with the clock reading \<open>now\<close> as an argument. A \<open>moodycamel::ConcurrentQueue\<close> that one thread uses at a
  time is a FIFO list. What the virtual methods of an item answer (\<open>Cost\<close>, \<open>IsExpired\<close>) are fields of it, and what the
  observers are told is written into a log.
\<close>

section \<open>Items, configuration and statistics\<close>

datatype priority = kBackground | kLow | kNormal | kHigh | kCritical | kRealtime | kNumLevels

fun level_of :: "priority \<Rightarrow> nat" where
  "level_of kBackground = 0" | "level_of kLow = 1" | "level_of kNormal = 2" | "level_of kHigh = 3"
| "level_of kCritical = 4" | "level_of kRealtime = 5" | "level_of kNumLevels = 6"

definition kNumPriorityLevels :: nat where
  "kNumPriorityLevels = level_of kNumLevels"

record qos_metadata =
  m_id :: nat
  m_priority :: priority
  enqueue_time :: int
  deadline :: int
  weight :: nat
  has_deadline :: bool
  tag :: string

record qos_item =
  metadata' :: qos_metadata
  Cost :: nat
  item_IsExpired :: bool

datatype overflow_policy = kDrop | kDropOldest | kBlock

record 'a qos_config =
  max_queue_depth :: nat
  max_total_depth :: nat
  rate_limit_per_priority :: "'a list"
  burst_multiplier :: 'a
  global_rate_limit :: 'a
  global_burst_multiplier :: 'a
  wrr_quanta :: "nat list"
  deadline_scheduling :: bool
  num_consumer_threads :: nat
  item_ttl :: int
  overflow_policy' :: overflow_policy
  backpressure_threshold :: 'a

definition QosConfig_default :: "'a::linordered_field qos_config" where
  "QosConfig_default = \<lparr>max_queue_depth = 4096, max_total_depth = 0, rate_limit_per_priority = [0, 0, 0, 0, 0, 0],
     burst_multiplier = 2, global_rate_limit = 0, global_burst_multiplier = 2, wrr_quanta = [1, 2, 4, 8, 16, 32],
     deadline_scheduling = True, num_consumer_threads = 1, item_ttl = 0, overflow_policy' = kDrop,
     backpressure_threshold = 8 / 10\<rparr>"

record priority_stats =
  enqueued :: nat
  dequeued :: nat
  executed :: nat
  dropped :: nat
  expired :: nat
  total_latency_us :: nat

definition PerPriorityStats_zero :: priority_stats where
  "PerPriorityStats_zero = \<lparr>enqueued = 0, dequeued = 0, executed = 0, dropped = 0, expired = 0, total_latency_us = 0\<rparr>"

type_synonym qos_stats = "priority_stats list"

text \<open>\<open>stats_.At(p).field.fetch_add(1)\<close>; the array has \<open>kNumPriorityLevels\<close> elements.\<close>

definition At :: "nat \<Rightarrow> qos_stats \<Rightarrow> priority_stats" where
  "At p st = st ! p"

definition stats_total :: "(priority_stats \<Rightarrow> nat) \<Rightarrow> qos_stats \<Rightarrow> nat" where
  "stats_total field st = fold (\<lambda>s total. sz_add total (field s)) st 0"

definition TotalEnqueued :: "qos_stats \<Rightarrow> nat" where
  "TotalEnqueued st = stats_total enqueued st"

definition TotalDequeued :: "qos_stats \<Rightarrow> nat" where
  "TotalDequeued st = stats_total dequeued st"

definition TotalExecuted :: "qos_stats \<Rightarrow> nat" where
  "TotalExecuted st = stats_total executed st"

definition TotalDropped :: "qos_stats \<Rightarrow> nat" where
  "TotalDropped st = stats_total dropped st"

definition TotalExpired :: "qos_stats \<Rightarrow> nat" where
  "TotalExpired st = stats_total expired st"

definition AverageLatencyUs :: "qos_stats \<Rightarrow> 'a::linordered_field" where
  "AverageLatencyUs st = (if TotalExecuted st = 0 then 0
     else of_nat (stats_total total_latency_us st) / of_nat (TotalExecuted st))"

definition PerPriorityStats_Reset :: "priority_stats \<Rightarrow> priority_stats" where
  "PerPriorityStats_Reset s = s\<lparr>enqueued := 0, dequeued := 0, executed := 0, dropped := 0, expired := 0, total_latency_us := 0\<rparr>"

definition QosStats_Reset :: "qos_stats \<Rightarrow> qos_stats" where
  "QosStats_Reset st = map PerPriorityStats_Reset st"

section \<open>State\<close>

record 'a priority_queue =
  pq_items :: "qos_item list"
  rate_limiter :: "'a token_bucket option"
  depth :: nat
  wrr_quota :: nat

datatype notification = OnEnqueued qos_metadata | OnDequeued qos_metadata | OnExecuted qos_metadata int
  | OnDropped qos_metadata | OnExpired qos_metadata

record 'a qos =
  config' :: "'a qos_config"
  queues' :: "'a priority_queue list"
  global_rate_limiter' :: "'a token_bucket option"
  qos_next_id :: nat
  total_depth' :: nat
  running' :: bool
  paused' :: bool
  stop_requested' :: bool
  observers' :: "nat list"
  stats' :: qos_stats
  told :: "(nat \<times> notification) list"

definition PriorityQueue_new :: "nat \<Rightarrow> 'a priority_queue" where
  "PriorityQueue_new quota = \<lparr>pq_items = [], rate_limiter = None, depth = 0, wrr_quota = quota\<rparr>"

definition QOS_new :: "int \<Rightarrow> 'a::linordered_field qos_config \<Rightarrow> 'a qos" where
  "QOS_new now cfg = \<lparr>config' = cfg,
     queues' = map (\<lambda>i. let rate = rate_limit_per_priority cfg ! i
         in (PriorityQueue_new (wrr_quanta cfg ! i))\<lparr>rate_limiter :=
           if 0 < rate then Some (TokenBucket_new now rate (rate * burst_multiplier cfg)) else None\<rparr>)
       [0 ..< kNumPriorityLevels],
     global_rate_limiter' = (if 0 < global_rate_limit cfg
       then Some (TokenBucket_new now (global_rate_limit cfg) (global_rate_limit cfg * global_burst_multiplier cfg)) else None),
     qos_next_id = 1, total_depth' = 0, running' = False, paused' = False, stop_requested' = False, observers' = [],
     stats' = replicate kNumPriorityLevels PerPriorityStats_zero, told = []\<rparr>"

text \<open>\<open>NotifyEnqueued\<close> and its four siblings: every observer of the snapshot is told.\<close>

definition notify :: "notification \<Rightarrow> 'a qos \<Rightarrow> 'a qos" where
  "notify n s = s\<lparr>told := told s @ map (\<lambda>o'. (o', n)) (observers' s)\<rparr>"

definition NotifyEnqueued :: "qos_metadata \<Rightarrow> 'a qos \<Rightarrow> 'a qos" where
  "NotifyEnqueued m = notify (OnEnqueued m)"

definition NotifyDequeued :: "qos_metadata \<Rightarrow> 'a qos \<Rightarrow> 'a qos" where
  "NotifyDequeued m = notify (OnDequeued m)"

definition NotifyExecuted :: "qos_metadata \<Rightarrow> int \<Rightarrow> 'a qos \<Rightarrow> 'a qos" where
  "NotifyExecuted m latency = notify (OnExecuted m latency)"

definition NotifyDropped :: "qos_metadata \<Rightarrow> 'a qos \<Rightarrow> 'a qos" where
  "NotifyDropped m = notify (OnDropped m)"

definition NotifyExpired :: "qos_metadata \<Rightarrow> 'a qos \<Rightarrow> 'a qos" where
  "NotifyExpired m = notify (OnExpired m)"

definition AddObserver :: "nat \<Rightarrow> 'a qos \<Rightarrow> 'a qos" where
  "AddObserver ob s = s\<lparr>observers' := observers' s @ [ob]\<rparr>"

definition RemoveObserver :: "nat \<Rightarrow> 'a qos \<Rightarrow> 'a qos" where
  "RemoveObserver ob s = s\<lparr>observers' := filter (\<lambda>x. x \<noteq> ob) (observers' s)\<rparr>"

definition count_stat :: "nat \<Rightarrow> (priority_stats \<Rightarrow> priority_stats) \<Rightarrow> 'a qos \<Rightarrow> 'a qos" where
  "count_stat p f s = s\<lparr>stats' := (stats' s)[p := f (At p (stats' s))]\<rparr>"

definition set_queue :: "nat \<Rightarrow> 'a priority_queue \<Rightarrow> 'a qos \<Rightarrow> 'a qos" where
  "set_queue p pq s = s\<lparr>queues' := (queues' s)[p := pq]\<rparr>"

definition drop_item :: "nat \<Rightarrow> qos_item \<Rightarrow> 'a qos \<Rightarrow> 'a qos" where
  "drop_item p item s = count_stat p (\<lambda>t. t\<lparr>dropped := sz_add (dropped t) 1\<rparr>) (NotifyDropped (metadata' item) s)"

section \<open>Submission\<close>

text \<open>A call is accepted, rejected, or blocks (policy \<open>kBlock\<close>); the policy \<open>kDropOldest\<close> may evict an item.\<close>

datatype enqueue_result = Accepted qos_item | Rejected | WouldBlock

text \<open>Taking the oldest item of a queue: \<open>try_dequeue\<close> and the two depth counters.\<close>

definition pop_queue :: "nat \<Rightarrow> 'a qos \<Rightarrow> (qos_item \<times> 'a qos) option" where
  "pop_queue p s = (case pq_items (queues' s ! p) of [] \<Rightarrow> None
   | item # rest \<Rightarrow> Some (item, (set_queue p ((queues' s ! p)\<lparr>pq_items := rest, depth := sz_sub (depth (queues' s ! p)) 1\<rparr>) s)
       \<lparr>total_depth' := sz_sub (total_depth' s) 1\<rparr>))"

text \<open>The capacity check; \<open>None\<close>: the caller returns or waits.\<close>

definition admit_depth :: "nat \<Rightarrow> qos_item \<Rightarrow> 'a qos \<Rightarrow> enqueue_result option \<times> qos_item option \<times> 'a qos" where
  "admit_depth p item s =
    (if 0 < max_queue_depth (config' s) \<and> max_queue_depth (config' s) \<le> depth (queues' s ! p)
     then case overflow_policy' (config' s) of
       kDrop \<Rightarrow> (Some Rejected, None, drop_item p item s)
     | kDropOldest \<Rightarrow> (case pop_queue p s of
         None \<Rightarrow> (None, None, s)
       | Some (evicted, s') \<Rightarrow> (None, Some evicted, drop_item p evicted s'))
     | kBlock \<Rightarrow> if stop_requested' s then (None, None, s) else (Some WouldBlock, None, s)
     else (None, None, s))"

definition admit_total :: "nat \<Rightarrow> qos_item \<Rightarrow> 'a qos \<Rightarrow> bool \<times> 'a qos" where
  "admit_total p item s =
    (if 0 < max_total_depth (config' s) \<and> max_total_depth (config' s) \<le> total_depth' s then (False, drop_item p item s)
     else (True, s))"

definition admit_global_rate :: "int \<Rightarrow> nat \<Rightarrow> qos_item \<Rightarrow> 'a::linordered_field qos \<Rightarrow> bool \<times> 'a qos" where
  "admit_global_rate now p item s = (case global_rate_limiter' s of
     None \<Rightarrow> (True, s)
   | Some b \<Rightarrow> (let (ok, b') = TryConsume now (of_nat (Cost item)) b; s' = s\<lparr>global_rate_limiter' := Some b'\<rparr>
       in if ok then (True, s') else (False, drop_item p item s')))"

definition admit_rate :: "int \<Rightarrow> nat \<Rightarrow> qos_item \<Rightarrow> 'a::linordered_field qos \<Rightarrow> bool \<times> 'a qos" where
  "admit_rate now p item s = (case rate_limiter (queues' s ! p) of
     None \<Rightarrow> (True, s)
   | Some b \<Rightarrow> (let (ok, b') = TryConsume now (of_nat (Cost item)) b;
         s' = set_queue p ((queues' s ! p)\<lparr>rate_limiter := Some b'\<rparr>) s
       in if ok then (True, s') else (False, drop_item p item s')))"

definition stamp :: "int \<Rightarrow> int \<Rightarrow> bool \<Rightarrow> nat \<Rightarrow> qos_item \<Rightarrow> qos_item" where
  "stamp now dl has_dl n item =
    (let m = (metadata' item)\<lparr>m_id := n, enqueue_time := now, has_deadline := has_dl\<rparr>
     in item\<lparr>metadata' := if has_dl then m\<lparr>deadline := dl\<rparr> else m\<rparr>)"

text \<open>\<open>alloc_ok\<close>: the queue could allocate what the new item needs.\<close>

definition push_item :: "bool \<Rightarrow> nat \<Rightarrow> qos_item \<Rightarrow> 'a qos \<Rightarrow> enqueue_result \<times> 'a qos" where
  "push_item alloc_ok p item s =
    (if \<not> alloc_ok then (Rejected, drop_item p item s)
     else let q = queues' s ! p;
         s1 = (set_queue p (q\<lparr>pq_items := pq_items q @ [item], depth := sz_add (depth q) 1\<rparr>) s)
           \<lparr>total_depth' := sz_add (total_depth' s) 1\<rparr>;
         s2 = count_stat p (\<lambda>t. t\<lparr>enqueued := sz_add (enqueued t) 1\<rparr>) s1
       in (Accepted item, NotifyEnqueued (metadata' item) s2))"

definition EnqueueInternal ::
    "bool \<Rightarrow> int \<Rightarrow> qos_item \<Rightarrow> priority \<Rightarrow> int \<Rightarrow> bool \<Rightarrow> 'a::linordered_field qos \<Rightarrow>
     (enqueue_result \<times> qos_item option \<times> 'a qos) result" where
  "EnqueueInternal alloc_ok now item prio dl has_dl s =
    (let p = level_of prio
     in guard_ub (p < length (queues' s)) (Inr (case admit_depth p item s of
       (Some r, ev, s1) \<Rightarrow> (r, ev, s1)
     | (None, ev, s1) \<Rightarrow> (case admit_total p item s1 of
         (False, s2) \<Rightarrow> (Rejected, ev, s2)
       | (True, s2) \<Rightarrow> (case admit_global_rate now p item s2 of
           (False, s3) \<Rightarrow> (Rejected, ev, s3)
         | (True, s3) \<Rightarrow> (case admit_rate now p item s3 of
             (False, s4) \<Rightarrow> (Rejected, ev, s4)
           | (True, s4) \<Rightarrow> (case push_item alloc_ok p (stamp now dl has_dl (qos_next_id s4) item)
                 (s4\<lparr>qos_next_id := sz_add (qos_next_id s4) 1\<rparr>) of
               (r, s5) \<Rightarrow> (r, ev, s5))))))))"

text \<open>The public calls; a null item is rejected.\<close>

definition Enqueue :: "bool \<Rightarrow> int \<Rightarrow> qos_item option \<Rightarrow> 'a::linordered_field qos \<Rightarrow>
     (enqueue_result \<times> qos_item option \<times> 'a qos) result" where
  "Enqueue alloc_ok now it s = (case it of None \<Rightarrow> Inr (Rejected, None, s)
   | Some item \<Rightarrow> EnqueueInternal alloc_ok now item (m_priority (metadata' item)) 0 False s)"

definition with_priority :: "priority \<Rightarrow> qos_item \<Rightarrow> qos_item" where
  "with_priority prio item = item\<lparr>metadata' := (metadata' item)\<lparr>m_priority := prio\<rparr>\<rparr>"

definition Enqueue_priority :: "bool \<Rightarrow> int \<Rightarrow> qos_item option \<Rightarrow> priority \<Rightarrow> 'a::linordered_field qos \<Rightarrow>
     (enqueue_result \<times> qos_item option \<times> 'a qos) result" where
  "Enqueue_priority alloc_ok now it prio s = (case it of None \<Rightarrow> Inr (Rejected, None, s)
   | Some item \<Rightarrow> EnqueueInternal alloc_ok now (with_priority prio item) prio 0 False s)"

definition Enqueue_deadline :: "bool \<Rightarrow> int \<Rightarrow> qos_item option \<Rightarrow> priority \<Rightarrow> int \<Rightarrow> 'a::linordered_field qos \<Rightarrow>
     (enqueue_result \<times> qos_item option \<times> 'a qos) result" where
  "Enqueue_deadline alloc_ok now it prio dl s = (case it of None \<Rightarrow> Inr (Rejected, None, s)
   | Some item \<Rightarrow> EnqueueInternal alloc_ok now (with_priority prio item) prio dl True s)"

text \<open>A \<open>FunctionItem\<close> has the default metadata, cost 1 and never expires by itself.\<close>

definition FunctionItem :: "string \<Rightarrow> qos_item" where
  "FunctionItem t = \<lparr>metadata' = \<lparr>m_id = 0, m_priority = kNormal, enqueue_time = 0, deadline = 0, weight = 1,
     has_deadline = False, tag = t\<rparr>, Cost = 1, item_IsExpired = False\<rparr>"

definition EnqueueTask :: "bool \<Rightarrow> int \<Rightarrow> priority \<Rightarrow> string \<Rightarrow> 'a::linordered_field qos \<Rightarrow>
     (enqueue_result \<times> qos_item option \<times> 'a qos) result" where
  "EnqueueTask alloc_ok now prio t s = EnqueueInternal alloc_ok now (with_priority prio (FunctionItem t)) prio 0 False s"

section \<open>Dispatch\<close>

text \<open>\<open>duration_cast\<close> to milliseconds, towards zero.\<close>

definition to_ms :: "int \<Rightarrow> int" where
  "to_ms ns = (if 0 \<le> ns then ns div 1000000 else - (- ns div 1000000))"

definition IsExpired :: "int \<Rightarrow> 'a qos_config \<Rightarrow> qos_item \<Rightarrow> bool" where
  "IsExpired now cfg item =
    (if item_IsExpired item then True
     else if has_deadline (metadata' item) \<and> deadline (metadata' item) < now then True
     else if 0 < item_ttl cfg \<and> item_ttl cfg \<le> to_ms (now - enqueue_time (metadata' item)) then True
     else False)"

text \<open>The inner loop over one level: at most \<open>quota\<close> items are looked at; expired ones are discarded.\<close>

fun dequeue_level :: "int \<Rightarrow> nat \<Rightarrow> nat \<Rightarrow> 'a qos \<Rightarrow> qos_item option \<times> 'a qos" where
  "dequeue_level now p 0 s = (None, s)"
| "dequeue_level now p (Suc quota) s = (case pop_queue p s of
     None \<Rightarrow> (None, s)
   | Some (item, s1) \<Rightarrow> (let s2 = count_stat p (\<lambda>t. t\<lparr>dequeued := sz_add (dequeued t) 1\<rparr>) s1
       in if IsExpired now (config' s2) item
          then dequeue_level now p quota (count_stat p (\<lambda>t. t\<lparr>expired := sz_add (expired t) 1\<rparr>)
            (NotifyExpired (metadata' item) s2))
          else (Some item, NotifyDequeued (metadata' item) s2)))"

text \<open>The outer loop, from the highest level \<open>n - 1\<close> down.\<close>

fun dequeue_levels :: "int \<Rightarrow> nat \<Rightarrow> 'a qos \<Rightarrow> qos_item option \<times> 'a qos" where
  "dequeue_levels now 0 s = (None, s)"
| "dequeue_levels now (Suc p) s = (case dequeue_level now p (wrr_quota (queues' s ! p)) s of
     (Some item, s') \<Rightarrow> (Some item, s')
   | (None, s') \<Rightarrow> dequeue_levels now p s')"

definition DequeueInternal :: "int \<Rightarrow> 'a qos \<Rightarrow> qos_item option \<times> 'a qos" where
  "DequeueInternal now s = dequeue_levels now kNumPriorityLevels s"

definition TryDequeue :: "int \<Rightarrow> 'a qos \<Rightarrow> qos_item option \<times> 'a qos" where
  "TryDequeue now s = DequeueInternal now s"

fun TryDequeueBulk :: "int \<Rightarrow> nat \<Rightarrow> 'a qos \<Rightarrow> qos_item list \<times> 'a qos" where
  "TryDequeueBulk now 0 s = ([], s)"
| "TryDequeueBulk now (Suc n) s = (case DequeueInternal now s of
     (None, s') \<Rightarrow> ([], s')
   | (Some item, s') \<Rightarrow> (let (out, s'') = TryDequeueBulk now n s' in (item # out, s'')))"

text \<open>After an item has been executed, in \<open>latency\<close> microseconds.\<close>

definition account_executed :: "qos_item \<Rightarrow> nat \<Rightarrow> 'a qos \<Rightarrow> 'a qos" where
  "account_executed item latency s = NotifyExecuted (metadata' item) (int latency)
    (count_stat (level_of (m_priority (metadata' item)))
      (\<lambda>t. t\<lparr>executed := sz_add (executed t) 1, total_latency_us := sz_add (total_latency_us t) latency\<rparr>) s)"

text \<open>One round of the consumer loop before a stop is requested: the executed item, if any.\<close>

definition consumer_round :: "int \<Rightarrow> nat \<Rightarrow> 'a qos \<Rightarrow> qos_item option \<times> 'a qos" where
  "consumer_round now latency s =
    (if paused' s then (None, s)
     else case DequeueInternal now s of
       (None, s') \<Rightarrow> (None, s')
     | (Some item, s') \<Rightarrow> (Some item, account_executed item latency s'))"

text \<open>The loop that drains the queues after a stop: items are executed until \<open>DequeueInternal\<close> returns null. Round \<open>i\<close> reads
  \<open>clock i\<close> and executes for \<open>latency i\<close> microseconds. \<open>fuel\<close> bounds the rounds; as every round but the last takes an item
  out, one more than the number of queued items is enough.\<close>

fun consumer_drain :: "nat \<Rightarrow> (nat \<Rightarrow> int) \<Rightarrow> (nat \<Rightarrow> nat) \<Rightarrow> 'a qos \<Rightarrow> (qos_item list \<times> 'a qos) option" where
  "consumer_drain 0 clock latency s = None"
| "consumer_drain (Suc fuel) clock latency s = (case DequeueInternal (clock 0) s of
     (None, s') \<Rightarrow> Some ([], s')
   | (Some item, s') \<Rightarrow>
       (case consumer_drain fuel (\<lambda>i. clock (Suc i)) (\<lambda>i. latency (Suc i)) (account_executed item (latency 0) s') of
          None \<Rightarrow> None | Some (out, s'') \<Rightarrow> Some (item # out, s'')))"

section \<open>Life cycle and introspection\<close>

text \<open>\<open>Start\<close>: the number of consumer threads it makes. \<open>Stop\<close>: whether there are threads to join.\<close>

definition Start :: "'a qos \<Rightarrow> nat \<times> 'a qos" where
  "Start s = (if running' s then (0, s)
     else (max 1 (num_consumer_threads (config' s)), s\<lparr>running' := True, stop_requested' := False, paused' := False\<rparr>))"

definition Stop :: "'a qos \<Rightarrow> bool \<times> 'a qos" where
  "Stop s = (if \<not> running' s then (False, s)
     else (True, s\<lparr>running' := False, stop_requested' := True, paused' := False\<rparr>))"

definition Pause :: "'a qos \<Rightarrow> 'a qos" where
  "Pause s = s\<lparr>paused' := True\<rparr>"

definition Resume :: "'a qos \<Rightarrow> 'a qos" where
  "Resume s = s\<lparr>paused' := False\<rparr>"

definition SizeApprox :: "'a qos \<Rightarrow> nat" where
  "SizeApprox s = total_depth' s"

definition SizeApprox_priority :: "priority \<Rightarrow> 'a qos \<Rightarrow> nat result" where
  "SizeApprox_priority prio s = guard_ub (level_of prio < length (queues' s)) (Inr (depth (queues' s ! level_of prio)))"

definition IsUnderBackPressure :: "'a::linordered_field qos \<Rightarrow> bool" where
  "IsUnderBackPressure s = (if max_queue_depth (config' s) = 0 then False
     else list_ex (\<lambda>q. backpressure_threshold (config' s) \<le> of_nat (depth q) / of_nat (max_queue_depth (config' s))) (queues' s))"

definition ResetStats :: "'a qos \<Rightarrow> 'a qos" where
  "ResetStats s = s\<lparr>stats' := QosStats_Reset (stats' s)\<rparr>"

definition CheckRateLimit :: "int \<Rightarrow> 'a::linordered_field priority_queue \<Rightarrow> 'a \<Rightarrow> bool \<times> 'a priority_queue" where
  "CheckRateLimit now pq cost = (case rate_limiter pq of None \<Rightarrow> (True, pq)
   | Some b \<Rightarrow> (let (ok, b') = TryConsume now cost b in (ok, pq\<lparr>rate_limiter := Some b'\<rparr>)))"

definition IsRunning :: "'a qos \<Rightarrow> bool" where
  "IsRunning s = running' s"

definition IsPaused :: "'a qos \<Rightarrow> bool" where
  "IsPaused s = paused' s"

end
