(* ===== verification/Qos_Props.thy ===== *)
theory Qos_Props
  imports Qos "HOL-Library.Multiset"
begin

text \<open>
  What the scheduler promises: the depth counters are those of the queues, queues stay within their limits, items are
  handed out from the highest level down and in the order in which they came, and the final drain executes everything
  - unless items expire, in which case it can stop too early, but still ends.
\<close>

section \<open>The invariant\<close>

definition items_at :: "nat \<Rightarrow> 'a qos \<Rightarrow> qos_item list" where
  "items_at p s = pq_items (queues' s ! p)"

definition item_count :: "'a qos \<Rightarrow> nat" where
  "item_count s = (\<Sum>p < kNumPriorityLevels. length (items_at p s))"

definition qos_ok :: "'a qos \<Rightarrow> bool" where
  "qos_ok s \<longleftrightarrow> length (queues' s) = kNumPriorityLevels \<and> length (stats' s) = kNumPriorityLevels \<and>
     (\<forall>p < kNumPriorityLevels. depth (queues' s ! p) = length (items_at p s)) \<and>
     total_depth' s = item_count s \<and> item_count s < 2 ^ 64"

lemma kNum [simp]: "kNumPriorityLevels = 6"
  by (simp add: kNumPriorityLevels_def)

lemma notify_simps [simp]:
  "queues' (notify n s) = queues' s" "config' (notify n s) = config' s" "stats' (notify n s) = stats' s"
  "total_depth' (notify n s) = total_depth' s" "qos_next_id (notify n s) = qos_next_id s"
  by (simp_all add: notify_def)

lemma count_stat_simps [simp]:
  "queues' (count_stat p f s) = queues' s" "config' (count_stat p f s) = config' s"
  "total_depth' (count_stat p f s) = total_depth' s" "length (stats' (count_stat p f s)) = length (stats' s)"
  "qos_next_id (count_stat p f s) = qos_next_id s"
  by (simp_all add: count_stat_def)

lemma qos_ok_cong:
  assumes "queues' s' = queues' s" "total_depth' s' = total_depth' s" "length (stats' s') = length (stats' s)"
  shows "qos_ok s' = qos_ok s" "items_at p s' = items_at p s" "item_count s' = item_count s"
  using assms by (simp_all add: qos_ok_def items_at_def item_count_def)

lemma items_at_set_queue:
  assumes "p < length (queues' s)"
  shows "items_at q (set_queue p pq s) = (if q = p then pq_items pq else items_at q s)"
  using assms by (simp add: items_at_def set_queue_def)

lemma item_count_at:
  assumes "p < 6"
  shows "item_count s = length (items_at p s) + (\<Sum>q \<in> {..<6} - {p}. length (items_at q s))"
  using assms sum.remove [of "{..<6}" p "\<lambda>q. length (items_at q s)"] by (simp add: item_count_def)

lemma sz_sub_pred: "n = m + 1 \<Longrightarrow> n < 2 ^ 64 \<Longrightarrow> sz_sub n 1 = m"
  by (simp add: sz_sub_eq)

text \<open>Taking the first item of a level.\<close>

lemma pop_queue_spec:
  assumes s: "qos_ok s" and p: "p < 6"
  shows "items_at p s = [] \<Longrightarrow> pop_queue p s = None"
    and "items_at p s = x # xs \<Longrightarrow> \<exists>s'. pop_queue p s = Some (x, s') \<and> qos_ok s' \<and> items_at p s' = xs \<and>
      (\<forall>q. q \<noteq> p \<longrightarrow> items_at q s' = items_at q s) \<and> (\<forall>q. wrr_quota (queues' s' ! q) = wrr_quota (queues' s ! q)) \<and>
      (\<forall>q. rate_limiter (queues' s' ! q) = rate_limiter (queues' s ! q)) \<and> config' s' = config' s"
proof -
  show "items_at p s = [] \<Longrightarrow> pop_queue p s = None" by (simp add: pop_queue_def items_at_def)
  assume x: "items_at p s = x # xs"
  note ok = s [unfolded qos_ok_def]
  let ?q = "(queues' s ! p)\<lparr>pq_items := xs, depth := sz_sub (depth (queues' s ! p)) 1\<rparr>"
  let ?s = "(set_queue p ?q s)\<lparr>total_depth' := sz_sub (total_depth' s) 1\<rparr>"
  have pop: "pop_queue p s = Some (x, ?s)" using x by (simp add: pop_queue_def items_at_def)
  have it: "items_at q ?s = (if q = p then xs else items_at q s)" for q
    using ok p items_at_set_queue [of p s q ?q] by (simp add: items_at_def)
  have cnt: "item_count s = item_count ?s + 1"
    using item_count_at [OF p, of s] item_count_at [OF p, of ?s] x it by simp
  have le: "length (items_at p s) < 2 ^ 64" using item_count_at [OF p, of s] ok by simp
  have "depth (queues' s ! p) = Suc (length xs)" using ok p x by simp
  then have d: "sz_sub (depth (queues' s ! p)) 1 = length xs" using le x by (subst sz_sub_eq) simp_all
  have "total_depth' s = item_count s" "item_count s < 2 ^ 64" using ok by auto
  then have t: "sz_sub (total_depth' s) 1 = item_count ?s" using cnt by (intro sz_sub_pred) simp_all
  have "qos_ok ?s" unfolding qos_ok_def using ok it d t cnt p by (auto simp: set_queue_def nth_list_update)
  moreover have "wrr_quota (queues' ?s ! q) = wrr_quota (queues' s ! q)" "rate_limiter (queues' ?s ! q) = rate_limiter (queues' s ! q)" for q
    using ok p by (cases "q = p"; simp add: set_queue_def)+
  ultimately show "\<exists>s'. pop_queue p s = Some (x, s') \<and> qos_ok s' \<and> items_at p s' = xs \<and>
      (\<forall>q. q \<noteq> p \<longrightarrow> items_at q s' = items_at q s) \<and> (\<forall>q. wrr_quota (queues' s' ! q) = wrr_quota (queues' s ! q)) \<and>
      (\<forall>q. rate_limiter (queues' s' ! q) = rate_limiter (queues' s ! q)) \<and> config' s' = config' s"
    using pop it by (intro exI [of _ ?s]) (simp add: set_queue_def)
qed

section \<open>Dispatch\<close>

text \<open>What stays the same when items leave: quotas and configuration.\<close>

definition same_setup :: "'a qos \<Rightarrow> 'a qos \<Rightarrow> bool" where
  "same_setup s s' \<longleftrightarrow> config' s' = config' s \<and> (\<forall>q. wrr_quota (queues' s' ! q) = wrr_quota (queues' s ! q))"

text \<open>The item that a level yields and what is left of its queue.\<close>

definition level_yield :: "int \<Rightarrow> 'a qos_config \<Rightarrow> nat \<Rightarrow> qos_item list \<Rightarrow> qos_item option \<times> qos_item list" where
  "level_yield now cfg quota xs = (case dropWhile (IsExpired now cfg) (take quota xs) of
     [] \<Rightarrow> (None, drop quota xs) | x # ys \<Rightarrow> (Some x, ys @ drop quota xs))"

lemma level_yield_simps [simp]:
  "level_yield now cfg 0 xs = (None, xs)" "level_yield now cfg n [] = (None, [])"
  "level_yield now cfg (Suc n) (x # xs) = (if IsExpired now cfg x then level_yield now cfg n xs else (Some x, xs))"
  by (simp_all add: level_yield_def cong: list.case_cong)

lemma dequeue_level_spec:
  assumes "qos_ok s" "p < 6"
  shows "\<exists>s'. dequeue_level now p quota s = (fst (level_yield now (config' s) quota (items_at p s)), s') \<and> qos_ok s' \<and>
    items_at p s' = snd (level_yield now (config' s) quota (items_at p s)) \<and> (\<forall>q. q \<noteq> p \<longrightarrow> items_at q s' = items_at q s) \<and>
    same_setup s s'"
  using assms(1)
proof (induction quota arbitrary: s)
  case 0
  then show ?case by (simp add: same_setup_def)
next
  case (Suc quota)
  note pop = pop_queue_spec [OF Suc.prems assms(2)]
  show ?case
  proof (cases "items_at p s")
    case Nil
    then show ?thesis using pop(1) Suc.prems by (simp add: same_setup_def)
  next
    case (Cons x xs)
    obtain s1 where s1: "pop_queue p s = Some (x, s1)" "qos_ok s1" "items_at p s1 = xs"
        "\<forall>q. q \<noteq> p \<longrightarrow> items_at q s1 = items_at q s" "same_setup s s1"
      using pop(2) [OF Cons] by (auto simp: same_setup_def)
    let ?s2 = "count_stat p (\<lambda>t. t\<lparr>dequeued := sz_add (dequeued t) 1\<rparr>) s1"
    let ?s3 = "count_stat p (\<lambda>t. t\<lparr>expired := sz_add (expired t) 1\<rparr>) (NotifyExpired (metadata' x) ?s2)"
    let ?s4 = "NotifyDequeued (metadata' x) ?s2"
    have same: "qos_ok ?s3" "qos_ok ?s4" "items_at q ?s3 = items_at q s1" "items_at q ?s4 = items_at q s1" for q
      using s1(2) qos_ok_cong [of ?s3 s1] qos_ok_cong [of ?s4 s1] by (simp_all add: NotifyExpired_def NotifyDequeued_def)
    have cfg: "config' ?s3 = config' s" "config' ?s2 = config' s" "same_setup s ?s3" "same_setup s ?s4"
      using s1(5) by (simp_all add: same_setup_def NotifyExpired_def NotifyDequeued_def)
    show ?thesis
    proof (cases "IsExpired now (config' s) x")
      case True
      obtain s' where s': "dequeue_level now p quota ?s3 = (fst (level_yield now (config' s) quota xs), s')" "qos_ok s'"
          "items_at p s' = snd (level_yield now (config' s) quota xs)" "\<forall>q. q \<noteq> p \<longrightarrow> items_at q s' = items_at q s" "same_setup s s'"
        using Suc.IH [OF same(1)] s1(3,4) same(3) cfg by (auto simp: same_setup_def)
      then show ?thesis using True Cons s1(1) cfg(2) by (simp add: Let_def)
    next
      case False
      then show ?thesis using Cons s1 cfg same by (simp add: Let_def)
    qed
  qed
qed

lemma level_yield_None: "fst (level_yield now cfg n xs) = None \<Longrightarrow>
    (\<forall>x \<in> set (take n xs). IsExpired now cfg x) \<and> snd (level_yield now cfg n xs) = drop n xs"
proof (cases "dropWhile (IsExpired now cfg) (take n xs)")
  case Nil
  then have "\<forall>x \<in> set (take n xs). IsExpired now cfg x" unfolding dropWhile_eq_Nil_conv .
  then show ?thesis unfolding level_yield_def Nil by simp
qed (simp add: level_yield_def)

lemma level_yield_Some: "fst (level_yield now cfg n xs) = Some x \<Longrightarrow>
    \<exists>ex. xs = ex @ x # snd (level_yield now cfg n xs) \<and> length ex < n \<and> (\<forall>y \<in> set ex. IsExpired now cfg y) \<and> \<not> IsExpired now cfg x"
proof (induction n arbitrary: xs)
  case (Suc n)
  then obtain y ys where xs: "xs = y # ys" by (cases xs) auto
  show ?case
  proof (cases "IsExpired now cfg y")
    case True
    then obtain ex where "ys = ex @ x # snd (level_yield now cfg n ys)" "length ex < n" "\<forall>y \<in> set ex. IsExpired now cfg y"
        "\<not> IsExpired now cfg x" using Suc.IH [of ys] Suc.prems xs by auto
    then show ?thesis using xs True by (intro exI [of _ "y # ex"]) simp
  next
    case False
    then show ?thesis using Suc.prems xs by (intro exI [of _ "[]"]) simp
  qed
qed simp

abbreviation yield_at :: "int \<Rightarrow> 'a qos \<Rightarrow> nat \<Rightarrow> qos_item option \<times> qos_item list" where
  "yield_at now s p \<equiv> level_yield now (config' s) (wrr_quota (queues' s ! p)) (items_at p s)"

lemma dequeue_levels_spec:
  assumes "qos_ok s" "n \<le> 6"
  shows "\<exists>r s'. dequeue_levels now n s = (r, s') \<and> qos_ok s' \<and> same_setup s s' \<and>
    (\<forall>q \<ge> n. items_at q s' = items_at q s) \<and>
    (case r of None \<Rightarrow> \<forall>p < n. fst (yield_at now s p) = None \<and> items_at p s' = snd (yield_at now s p)
     | Some x \<Rightarrow> \<exists>p < n. fst (yield_at now s p) = Some x \<and> items_at p s' = snd (yield_at now s p) \<and>
         (\<forall>q < p. items_at q s' = items_at q s) \<and>
         (\<forall>q < n. p < q \<longrightarrow> fst (yield_at now s q) = None \<and> items_at q s' = snd (yield_at now s q)))"
  using assms
proof (induction n arbitrary: s)
  case 0
  then show ?case by (simp add: same_setup_def)
next
  case (Suc p)
  obtain s1 where s1: "dequeue_level now p (wrr_quota (queues' s ! p)) s = (fst (yield_at now s p), s1)" "qos_ok s1"
      "items_at p s1 = snd (yield_at now s p)" "\<forall>q. q \<noteq> p \<longrightarrow> items_at q s1 = items_at q s" "same_setup s s1"
    using dequeue_level_spec [OF Suc.prems(1), of p now "wrr_quota (queues' s ! p)"] Suc.prems(2) by auto
  show ?case
  proof (cases "fst (yield_at now s p)")
    case (Some x)
    have "\<exists>k < Suc p. fst (yield_at now s k) = Some x \<and> items_at k s1 = snd (yield_at now s k) \<and>
         (\<forall>q < k. items_at q s1 = items_at q s) \<and>
         (\<forall>q < Suc p. k < q \<longrightarrow> fst (yield_at now s q) = None \<and> items_at q s1 = snd (yield_at now s q))"
      using Some s1 by (intro exI [of _ p]) simp
    then show ?thesis using Some s1 by simp
  next
    case None
    have same: "yield_at now s1 q = yield_at now s q" if "q < p" for q
      using that s1(4,5) by (simp add: same_setup_def)
    have le: "p \<le> 6" using Suc.prems(2) by simp
    obtain r s' where s': "dequeue_levels now p s1 = (r, s')" "qos_ok s'" "same_setup s1 s'" "\<forall>q \<ge> p. items_at q s' = items_at q s1"
        "case r of None \<Rightarrow> \<forall>q < p. fst (yield_at now s1 q) = None \<and> items_at q s' = snd (yield_at now s1 q)
         | Some x \<Rightarrow> \<exists>k < p. fst (yield_at now s1 k) = Some x \<and> items_at k s' = snd (yield_at now s1 k) \<and>
             (\<forall>q < k. items_at q s' = items_at q s1) \<and>
             (\<forall>q < p. k < q \<longrightarrow> fst (yield_at now s1 q) = None \<and> items_at q s' = snd (yield_at now s1 q))"
      using Suc.IH [OF s1(2) le] by (elim exE conjE) (rule that, assumption+)
    have step: "dequeue_levels now (Suc p) s = (r, s')" using None s1(1) s'(1) by simp
    have at_p: "items_at p s' = snd (yield_at now s p)" using s'(4) s1(3) by simp
    have rest: "same_setup s s'" "\<forall>q \<ge> Suc p. items_at q s' = items_at q s"
      using s'(3,4) s1(4,5) by (simp_all add: same_setup_def)
    show ?thesis
    proof (cases r)
      case None': None
      then have "\<forall>q < Suc p. fst (yield_at now s q) = None \<and> items_at q s' = snd (yield_at now s q)"
        using s'(5) same at_p None by (simp add: less_Suc_eq)
      then show ?thesis using step s'(2) rest None' by simp
    next
      case (Some x)
      then obtain k where k: "k < p" "fst (yield_at now s k) = Some x" "items_at k s' = snd (yield_at now s k)"
          "\<forall>q < k. items_at q s' = items_at q s1" "\<forall>q < p. k < q \<longrightarrow> fst (yield_at now s q) = None \<and> items_at q s' = snd (yield_at now s q)"
        using s'(5) same by auto
      then have "\<exists>k < Suc p. fst (yield_at now s k) = Some x \<and> items_at k s' = snd (yield_at now s k) \<and>
         (\<forall>q < k. items_at q s' = items_at q s) \<and>
         (\<forall>q < Suc p. k < q \<longrightarrow> fst (yield_at now s q) = None \<and> items_at q s' = snd (yield_at now s q))"
        using s1(4) at_p None by (intro exI [of _ k]) (simp add: less_Suc_eq)
      then show ?thesis using step s'(2) rest Some by simp
    qed
  qed
qed

section \<open>A run for the witnesses\<close>

text \<open>With the default configuration two tasks are submitted at the lowest level, the first with a deadline, and the
  scheduler is started and stopped.\<close>

definition two_tasks :: "rat qos result" where
  "two_tasks = rbind (Enqueue_deadline True 0 (Some (FunctionItem ''first'')) kBackground 5 (QOS_new 0 QosConfig_default))
     (\<lambda>(_, _, s1). rbind (EnqueueTask True 1 kBackground ''second'' s1)
     (\<lambda>(_, _, s2). Inr (snd (Stop (snd (Start s2))))))"

definition first_item :: qos_item where
  "first_item = \<lparr>metadata' = \<lparr>m_id = 1, m_priority = kBackground, enqueue_time = 0, deadline = 5, weight = 1,
     has_deadline = True, tag = ''first''\<rparr>, Cost = 1, item_IsExpired = False\<rparr>"

definition second_item :: qos_item where
  "second_item = \<lparr>metadata' = \<lparr>m_id = 2, m_priority = kBackground, enqueue_time = 1, deadline = 0, weight = 1,
     has_deadline = False, tag = ''second''\<rparr>, Cost = 1, item_IsExpired = False\<rparr>"

definition idle_stats :: priority_stats where
  "idle_stats = \<lparr>enqueued = 0, dequeued = 0, executed = 0, dropped = 0, expired = 0, total_latency_us = 0\<rparr>"

definition empty_queue :: "nat \<Rightarrow> rat priority_queue" where
  "empty_queue n = \<lparr>pq_items = [], rate_limiter = None, depth = 0, wrr_quota = n\<rparr>"

text \<open>The scheduler with the given lowest queue and counters of the lowest level.\<close>

definition low_only :: "rat priority_queue \<Rightarrow> priority_stats \<Rightarrow> nat \<Rightarrow> nat \<Rightarrow> bool \<Rightarrow> rat qos" where
  "low_only q st n d stopped = \<lparr>config' = QosConfig_default,
     queues' = [q, empty_queue 2, empty_queue 4, empty_queue 8, empty_queue 16, empty_queue 32], global_rate_limiter' = None,
     qos_next_id = n, total_depth' = d, running' = False, paused' = False, stop_requested' = stopped, observers' = [],
     stats' = [st, idle_stats, idle_stats, idle_stats, idle_stats, idle_stats], told = []\<rparr>"

lemma QOS_new_default: "QOS_new 0 QosConfig_default = low_only (empty_queue 1) idle_stats 1 0 False"
proof -
  have "[0 ..< 6] = [0, 1, 2, 3, 4, 5 :: nat]" "replicate 6 x = [x, x, x, x, x, x]" for x :: priority_stats
    by (simp_all add: upt_rec numeral_eq_Suc)
  then show ?thesis by (simp add: QOS_new_def QosConfig_default_def PriorityQueue_new_def PerPriorityStats_zero_def low_only_def
    empty_queue_def idle_stats_def)
qed

lemmas enqueue_simps = EnqueueInternal_def admit_depth_def admit_total_def admit_global_rate_def admit_rate_def stamp_def
  push_item_def set_queue_def count_stat_def NotifyEnqueued_def notify_def At_def sz_add_def

definition two_stats :: priority_stats where
  "two_stats = idle_stats\<lparr>enqueued := 2\<rparr>"

lemma two_tasks_run:
  "two_tasks = Inr (low_only \<lparr>pq_items = [first_item, second_item], rate_limiter = None, depth = 2, wrr_quota = 1\<rparr> two_stats 3 2 True)"
proof -
  let ?one = "low_only \<lparr>pq_items = [first_item], rate_limiter = None, depth = 1, wrr_quota = 1\<rparr> (idle_stats\<lparr>enqueued := 1\<rparr>) 2 1 False"
  have "Enqueue_deadline True 0 (Some (FunctionItem ''first'')) kBackground 5 (low_only (empty_queue 1) idle_stats 1 0 False) =
      Inr (Accepted first_item, None, ?one)"
    by (simp add: Enqueue_deadline_def with_priority_def FunctionItem_def low_only_def empty_queue_def idle_stats_def first_item_def
      enqueue_simps QosConfig_default_def)
  moreover have "EnqueueTask True 1 kBackground ''second'' ?one = Inr (Accepted second_item, None,
      low_only \<lparr>pq_items = [first_item, second_item], rate_limiter = None, depth = 2, wrr_quota = 1\<rparr> two_stats 3 2 False)"
    by (simp add: EnqueueTask_def with_priority_def FunctionItem_def low_only_def empty_queue_def idle_stats_def second_item_def
      enqueue_simps QosConfig_default_def two_stats_def)
  ultimately show ?thesis by (simp add: two_tasks_def QOS_new_default) (simp add: low_only_def Start_def Stop_def)
qed


lemma dequeue_level_empty: "pq_items (queues' s ! p) = [] \<Longrightarrow> dequeue_level now p n s = (None, s)"
  by (cases n) (simp_all add: pop_queue_def)

lemma low_only_high:
  assumes "0 < p" "p < 6"
  shows "queues' (low_only q st n d b) ! p = empty_queue (2 ^ p)"
proof -
  have "p = 1 \<or> p = 2 \<or> p = 3 \<or> p = 4 \<or> p = 5" using assms by auto
  then show ?thesis by (auto simp: low_only_def)
qed

lemma low_only_low [simp]: "queues' (low_only q st n d b) ! 0 = q" "config' (low_only q st n d b) = QosConfig_default"
  by (simp_all add: low_only_def)

lemma low_only_items [simp]:
  "items_at 0 (low_only q st n d b) = pq_items q"
  "0 < p \<Longrightarrow> p < 6 \<Longrightarrow> items_at p (low_only q st n d b) = []"
  "item_count (low_only q st n d b) = length (pq_items q)"
proof -
  show l: "items_at 0 (low_only q st n d b) = pq_items q" by (simp add: items_at_def)
  show h: "items_at p (low_only q st n d b) = []" if "0 < p" "p < 6" for p
    using low_only_high [OF that, of q st n d b] by (auto simp: items_at_def empty_queue_def)
  have "(\<Sum>p \<in> {..<6} - {0}. length (items_at p (low_only q st n d b))) = 0" using h by (intro sum.neutral) auto
  then show "item_count (low_only q st n d b) = length (pq_items q)"
    using item_count_at [of 0 "low_only q st n d b"] l by simp
qed

lemma low_only_ok: "depth q = length (pq_items q) \<Longrightarrow> d = depth q \<Longrightarrow> d < 2 ^ 64 \<Longrightarrow> qos_ok (low_only q st n d b)"
proof -
  assume a: "depth q = length (pq_items q)" "d = depth q" "d < 2 ^ 64"
  let ?s = "low_only q st n d b"
  have "depth (queues' ?s ! p) = length (items_at p ?s)" if "p < 6" for p
  proof (cases "p = 0")
    case False
    then show ?thesis using that by (simp add: low_only_high empty_queue_def)
  qed (use a in simp)
  moreover have "length (queues' ?s) = 6" "length (stats' ?s) = 6" "total_depth' ?s = d" by (simp_all add: low_only_def)
  ultimately show ?thesis using a by (simp add: qos_ok_def)
qed

lemma dequeue_low: "DequeueInternal now (low_only q st n d b) = dequeue_level now 0 (wrr_quota q) (low_only q st n d b)"
proof -
  let ?s = "low_only q st n d b"
  have l: "dequeue_level now p m ?s = (None, ?s)" if "0 < p" "p < 6" for p m
    using low_only_items(2) [OF that, of q st n d b] by (intro dequeue_level_empty) (simp add: items_at_def)
  have "dequeue_levels now (Suc p) ?s = dequeue_levels now (Suc 0) ?s" if "p < 6" for p
    using that by (induction p) (simp_all add: l)
  from this [of 5] have "DequeueInternal now ?s = dequeue_levels now (Suc 0) ?s"
    by (simp add: DequeueInternal_def numeral_eq_Suc del: dequeue_levels.simps)
  then show ?thesis
    by (cases "dequeue_level now 0 (wrr_quota q) ?s") (auto split: option.split)
qed

definition two_end :: "rat qos" where
  "two_end = low_only \<lparr>pq_items = [first_item, second_item], rate_limiter = None, depth = 2, wrr_quota = 1\<rparr> two_stats 3 2 True"

definition one_end :: "rat qos" where
  "one_end = low_only \<lparr>pq_items = [second_item], rate_limiter = None, depth = 1, wrr_quota = 1\<rparr>
     (two_stats\<lparr>dequeued := 1, expired := 1\<rparr>) 3 1 True"

lemma two_end_dequeue: "DequeueInternal 10 two_end = (None, one_end)"
  by (simp add: two_end_def one_end_def dequeue_low)
    (simp add: low_only_def pop_queue_def set_queue_def count_stat_def NotifyExpired_def notify_def At_def sz_add_def sz_sub_def
      IsExpired_def first_item_def two_stats_def idle_stats_def)

lemma two_end_ok: "qos_ok two_end"
  unfolding two_end_def by (rule low_only_ok) simp_all

section \<open>Properties of dispatch\<close>

text \<open>C38. \<open>TryDequeue\<close> hands out the first live item among the first \<open>quota\<close> of the highest level that has one: expired
  items in front of it are discarded, higher levels lose only expired items, lower levels are untouched. It returns null
  when the first \<open>quota\<close> items of every level are expired - which it then has discarded - and not only, as documented, when
  all queues are empty.\<close>

theorem TryDequeue_takes_highest_live:
  assumes "qos_ok s"
  shows "\<exists>r s'. TryDequeue now s = (r, s') \<and> qos_ok s' \<and> (case r of
     None \<Rightarrow> \<forall>p < 6. (\<forall>x \<in> set (take (wrr_quota (queues' s ! p)) (items_at p s)). IsExpired now (config' s) x) \<and>
       items_at p s' = drop (wrr_quota (queues' s ! p)) (items_at p s)
   | Some x \<Rightarrow> \<exists>p < 6. \<exists>ex. items_at p s = ex @ x # items_at p s' \<and> length ex < wrr_quota (queues' s ! p) \<and>
       (\<forall>y \<in> set ex. IsExpired now (config' s) y) \<and> \<not> IsExpired now (config' s) x \<and>
       (\<forall>q < p. items_at q s' = items_at q s) \<and>
       (\<forall>q < 6. p < q \<longrightarrow> (\<forall>y \<in> set (take (wrr_quota (queues' s ! q)) (items_at q s)). IsExpired now (config' s) y) \<and>
         items_at q s' = drop (wrr_quota (queues' s ! q)) (items_at q s)))"
proof -
  obtain r s' where d: "dequeue_levels now 6 s = (r, s')" "qos_ok s'"
      "case r of None \<Rightarrow> \<forall>p < 6. fst (yield_at now s p) = None \<and> items_at p s' = snd (yield_at now s p)
     | Some x \<Rightarrow> \<exists>p < 6. fst (yield_at now s p) = Some x \<and> items_at p s' = snd (yield_at now s p) \<and>
         (\<forall>q < p. items_at q s' = items_at q s) \<and>
         (\<forall>q < 6. p < q \<longrightarrow> fst (yield_at now s q) = None \<and> items_at q s' = snd (yield_at now s q))"
    using dequeue_levels_spec [OF assms order_refl, of now] by (elim exE conjE) (rule that, assumption+)
  have t: "TryDequeue now s = (r, s')" using d(1) by (simp add: TryDequeue_def DequeueInternal_def)
  show ?thesis
  proof (cases r)
    case None
    have "(\<forall>x \<in> set (take (wrr_quota (queues' s ! p)) (items_at p s)). IsExpired now (config' s) x) \<and>
       items_at p s' = drop (wrr_quota (queues' s ! p)) (items_at p s)" if "p < 6" for p
      using d(3) None that level_yield_None [of now "config' s" "wrr_quota (queues' s ! p)" "items_at p s"] by auto
    then show ?thesis using t d(2) None by simp
  next
    case (Some x)
    then obtain p where p: "p < 6" "fst (yield_at now s p) = Some x" "items_at p s' = snd (yield_at now s p)"
        "\<forall>q < p. items_at q s' = items_at q s" "\<forall>q < 6. p < q \<longrightarrow> fst (yield_at now s q) = None \<and> items_at q s' = snd (yield_at now s q)"
      using d(3) by auto
    obtain ex where ex: "items_at p s = ex @ x # items_at p s'" "length ex < wrr_quota (queues' s ! p)"
        "\<forall>y \<in> set ex. IsExpired now (config' s) y" "\<not> IsExpired now (config' s) x"
      using level_yield_Some [OF p(2)] p(3) by auto
    have high: "\<forall>q < 6. p < q \<longrightarrow> (\<forall>y \<in> set (take (wrr_quota (queues' s ! q)) (items_at q s)). IsExpired now (config' s) y) \<and>
         items_at q s' = drop (wrr_quota (queues' s ! q)) (items_at q s)"
      using p(5) level_yield_None by metis
    show ?thesis using t d(2) Some p(1,4) ex high
      by (intro exI [of _ r] exI [of _ s'] conjI) (assumption | simp | blast)+
  qed
qed

theorem TryDequeue_takes_highest_live_witness:
  "\<exists>s'. TryDequeue 10 two_end = (None, s') \<and> qos_ok s' \<and> items_at 0 s' = [second_item] \<and> IsExpired 10 (config' two_end) first_item"
proof -
  have "TryDequeue 10 two_end = (None, one_end)" by (simp add: TryDequeue_def two_end_dequeue)
  then have r: "qos_ok one_end \<and> (\<forall>p < 6. (\<forall>x \<in> set (take (wrr_quota (queues' two_end ! p)) (items_at p two_end)).
      IsExpired 10 (config' two_end) x) \<and> items_at p one_end = drop (wrr_quota (queues' two_end ! p)) (items_at p two_end))"
    using TryDequeue_takes_highest_live [OF two_end_ok, of 10] by auto
  then have "items_at 0 one_end = [second_item]" "IsExpired 10 (config' two_end) first_item"
    by (auto dest!: spec [of _ 0] simp: two_end_def)
  with r show ?thesis by (simp add: TryDequeue_def two_end_dequeue)
qed

section \<open>Draining\<close>

text \<open>The queued items from the highest level down, each level in the order of arrival.\<close>

fun queued_order :: "nat \<Rightarrow> 'a qos \<Rightarrow> qos_item list" where
  "queued_order 0 s = []"
| "queued_order (Suc p) s = items_at p s @ queued_order p s"

definition live :: "int \<Rightarrow> 'a qos \<Rightarrow> bool" where
  "live now s \<longleftrightarrow> (\<forall>p < 6. 0 < wrr_quota (queues' s ! p) \<and> (\<forall>x \<in> set (items_at p s). \<not> IsExpired now (config' s) x))"

lemma queued_order_cong: "(\<And>q. q < n \<Longrightarrow> items_at q s' = items_at q s) \<Longrightarrow> queued_order n s' = queued_order n s"
  by (induction n) simp_all

lemma set_queued_order: "set (queued_order n s) = (\<Union>p < n. set (items_at p s))"
  by (induction n) (auto simp: lessThan_Suc)

lemma length_queued_order: "length (queued_order 6 s) = item_count s"
proof -
  have "length (queued_order n s) = (\<Sum>p < n. length (items_at p s))" for n by (induction n) simp_all
  then show ?thesis by (simp add: item_count_def)
qed

lemma level_yield_live:
  assumes "0 < n" "\<forall>x \<in> set xs. \<not> IsExpired now cfg x"
  shows "level_yield now cfg n xs = (case xs of [] \<Rightarrow> (None, []) | x # ys \<Rightarrow> (Some x, ys))"
  using assms by (cases n; cases xs) simp_all

lemma dequeue_levels_live:
  assumes "qos_ok s" "n \<le> 6" "live now s"
  shows "\<exists>s'. dequeue_levels now n s = (case queued_order n s of [] \<Rightarrow> None | x # _ \<Rightarrow> Some x, s') \<and> qos_ok s' \<and> same_setup s s' \<and>
    queued_order n s' = tl (queued_order n s) \<and> (\<forall>q \<ge> n. items_at q s' = items_at q s)"
  using assms
proof (induction n arbitrary: s)
  case 0
  then show ?case by (simp add: same_setup_def)
next
  case (Suc p)
  have p: "p < 6" using Suc.prems(2) by simp
  have y: "yield_at now s p = (case items_at p s of [] \<Rightarrow> (None, []) | x # ys \<Rightarrow> (Some x, ys))"
    using Suc.prems(3) p by (intro level_yield_live) (auto simp: live_def)
  obtain s1 where s1: "dequeue_level now p (wrr_quota (queues' s ! p)) s = (fst (yield_at now s p), s1)" "qos_ok s1"
      "items_at p s1 = snd (yield_at now s p)" "\<forall>q. q \<noteq> p \<longrightarrow> items_at q s1 = items_at q s" "same_setup s s1"
    using dequeue_level_spec [OF Suc.prems(1) p, of now "wrr_quota (queues' s ! p)"] by auto
  have low: "queued_order p s1 = queued_order p s" using s1(4) by (intro queued_order_cong) simp
  show ?case
  proof (cases "items_at p s")
    case Nil
    have "live now s1" using Suc.prems(3) s1(3,4,5) y Nil unfolding live_def same_setup_def by (metis list.case(1) snd_conv)
    then obtain s' where s': "dequeue_levels now p s1 = (case queued_order p s1 of [] \<Rightarrow> None | x # _ \<Rightarrow> Some x, s')" "qos_ok s'"
        "same_setup s1 s'" "queued_order p s' = tl (queued_order p s1)" "\<forall>q \<ge> p. items_at q s' = items_at q s1"
      using Suc.IH [OF s1(2)] p by auto
    then show ?thesis using Nil y s1 low by (auto simp: same_setup_def)
  next
    case (Cons x xs)
    then show ?thesis using y s1 low by auto
  qed
qed

lemma live_same:
  assumes "live now s" "same_setup s s'" "\<And>p x. x \<in> set (items_at p s') \<Longrightarrow> p < 6 \<Longrightarrow> x \<in> set (queued_order 6 s)"
  shows "live now s'"
proof -
  have "\<not> IsExpired now (config' s) x" if "x \<in> set (queued_order 6 s)" for x
    using that assms(1) by (auto simp: set_queued_order live_def)
  then show ?thesis using assms by (auto simp: live_def same_setup_def)
qed

lemma account_executed_same:
  "qos_ok (account_executed x l s) = qos_ok s" "items_at p (account_executed x l s) = items_at p s"
  "same_setup s (account_executed x l s)"
  using qos_ok_cong [of "account_executed x l s" s] by (simp_all add: account_executed_def NotifyExecuted_def same_setup_def)

text \<open>An item that leaves was queued and has not expired; the others stay, or have expired.\<close>

lemma mset_queued_order_le: "(\<And>q. q < n \<Longrightarrow> mset (items_at q s') \<subseteq># mset (items_at q s)) \<Longrightarrow> mset (queued_order n s') \<subseteq># mset (queued_order n s)"
  by (induction n) (simp_all add: subset_mset.add_mono)

lemma mset_queued_order_taken:
  assumes "\<And>q. q < n \<Longrightarrow> q \<noteq> p \<Longrightarrow> mset (items_at q s') \<subseteq># mset (items_at q s)" "p < n"
    and "add_mset x (mset (items_at p s')) \<subseteq># mset (items_at p s)"
  shows "add_mset x (mset (queued_order n s')) \<subseteq># mset (queued_order n s)"
  using assms
proof (induction n)
  case (Suc n)
  show ?case
  proof (cases "p = n")
    case True
    have "mset (queued_order n s') \<subseteq># mset (queued_order n s)" using Suc.prems(1) True by (intro mset_queued_order_le) simp
    with Suc.prems(3) True have "add_mset x (mset (items_at n s')) + mset (queued_order n s') \<subseteq># mset (items_at n s) + mset (queued_order n s)"
      by (intro subset_mset.add_mono) simp_all
    then show ?thesis by simp
  next
    case False
    then have "add_mset x (mset (queued_order n s')) \<subseteq># mset (queued_order n s)" "mset (items_at n s') \<subseteq># mset (items_at n s)"
      using Suc by auto
    then have "mset (items_at n s') + add_mset x (mset (queued_order n s')) \<subseteq># mset (items_at n s) + mset (queued_order n s)"
      by (intro subset_mset.add_mono)
    then show ?thesis by simp
  qed
qed simp

lemma level_yield_rest: "mset (snd (level_yield now cfg n xs)) \<subseteq># mset xs"
proof (induction n arbitrary: xs)
  case (Suc n)
  show ?case
  proof (cases xs)
    case (Cons x ys)
    have "mset ys \<subseteq># mset (x # ys)" by simp
    with Suc.IH [of ys] have "mset (snd (level_yield now cfg n ys)) \<subseteq># mset (x # ys)" by (rule subset_mset.order_trans)
    then show ?thesis using Cons by simp
  qed simp
qed simp

lemma dequeue_takes:
  assumes "qos_ok s" "DequeueInternal now s = (r, s')"
  shows "qos_ok s' \<and> config' s' = config' s \<and> (\<forall>x. r = Some x \<longrightarrow> \<not> IsExpired now (config' s) x \<and>
    add_mset x (mset (queued_order 6 s')) \<subseteq># mset (queued_order 6 s))"
proof -
  have d: "qos_ok s'" "same_setup s s'" and r: "case r of None \<Rightarrow> True | Some x \<Rightarrow> \<exists>p < 6. fst (yield_at now s p) = Some x \<and>
      items_at p s' = snd (yield_at now s p) \<and> (\<forall>q < p. items_at q s' = items_at q s) \<and>
      (\<forall>q < 6. p < q \<longrightarrow> fst (yield_at now s q) = None \<and> items_at q s' = snd (yield_at now s q))"
    using dequeue_levels_spec [OF assms(1) order_refl, of now] assms(2) by (auto simp: DequeueInternal_def split: option.split)
  have "\<not> IsExpired now (config' s) x \<and> add_mset x (mset (queued_order 6 s')) \<subseteq># mset (queued_order 6 s)" if x: "r = Some x" for x
  proof -
    obtain p where p: "p < 6" "fst (yield_at now s p) = Some x" "items_at p s' = snd (yield_at now s p)"
        "\<forall>q < p. items_at q s' = items_at q s" "\<forall>q < 6. p < q \<longrightarrow> items_at q s' = snd (yield_at now s q)"
      using r x by auto
    obtain ex where ex: "items_at p s = ex @ x # items_at p s'" "\<not> IsExpired now (config' s) x" using level_yield_Some [OF p(2)] p(3) by auto
    have "mset (items_at q s') \<subseteq># mset (items_at q s)" if "q < 6" "q \<noteq> p" for q
      using that p(4,5) level_yield_rest by (metis linorder_neqE_nat subset_mset.order_refl)
    moreover have "add_mset x (mset (items_at p s')) \<subseteq># mset (items_at p s)" using ex(1) by simp
    ultimately show ?thesis using mset_queued_order_taken p(1) ex(2) by blast
  qed
  with d show ?thesis by (simp add: same_setup_def)
qed

lemma dequeue_empty: "qos_ok s \<Longrightarrow> queued_order 6 s = [] \<Longrightarrow> \<exists>s'. DequeueInternal now s = (None, s') \<and> qos_ok s' \<and> queued_order 6 s' = []"
proof -
  assume s: "qos_ok s" "queued_order 6 s = []"
  obtain r s' where d: "DequeueInternal now s = (r, s')" by (cases "DequeueInternal now s")
  have "r = None" using dequeue_takes [OF s(1) d] s(2) by (cases r) auto
  moreover have "mset (queued_order 6 s') \<subseteq># mset (queued_order 6 s)"
  proof (rule mset_queued_order_le)
    fix q :: nat
    assume "q < 6"
    then have "items_at q s' = snd (yield_at now s q)"
      using dequeue_levels_spec [OF s(1) order_refl, of now] d \<open>r = None\<close> by (auto simp: DequeueInternal_def)
    then show "mset (items_at q s') \<subseteq># mset (items_at q s)" by (simp add: level_yield_rest)
  qed
  ultimately show ?thesis using d dequeue_takes [OF s(1) d] s(2) by auto
qed

text \<open>The state after an item has been executed.\<close>

lemma executed_round:
  assumes "qos_ok s" "DequeueInternal now s = (Some x, s1)"
  shows "qos_ok (account_executed x l s1)" "config' (account_executed x l s1) = config' s" "\<not> IsExpired now (config' s) x"
    "add_mset x (mset (queued_order 6 (account_executed x l s1))) \<subseteq># mset (queued_order 6 s)"
    "item_count (account_executed x l s1) < item_count s"
proof -
  note d = dequeue_takes [OF assms]
  have q: "queued_order 6 (account_executed x l s1) = queued_order 6 s1" by (rule queued_order_cong) (rule account_executed_same(2))
  show m: "add_mset x (mset (queued_order 6 (account_executed x l s1))) \<subseteq># mset (queued_order 6 s)" using d q by simp
  from size_mset_mono [OF m] show "item_count (account_executed x l s1) < item_count s"
    by (simp add: length_queued_order [symmetric])
  show "qos_ok (account_executed x l s1)" "config' (account_executed x l s1) = config' s" "\<not> IsExpired now (config' s) x"
    using d account_executed_same(1,3) [where x = x and l = l and s = s1] by (simp_all add: same_setup_def)
qed

lemma drain_ends:
  assumes "qos_ok s" "item_count s < fuel"
  shows "\<exists>out s'. consumer_drain fuel clock latency s = Some (out, s') \<and> qos_ok s' \<and>
    mset out + mset (queued_order 6 s') \<subseteq># mset (queued_order 6 s) \<and> (\<forall>i < length out. \<not> IsExpired (clock i) (config' s) (out ! i))"
  using assms
proof (induction fuel arbitrary: s clock latency)
  case (Suc fuel)
  obtain r s1 where d: "DequeueInternal (clock 0) s = (r, s1)" by (cases "DequeueInternal (clock 0) s")
  show ?case
  proof (cases r)
    case None
    have "mset (queued_order 6 s1) \<subseteq># mset (queued_order 6 s)"
    proof (rule mset_queued_order_le)
      fix q :: nat
      assume "q < 6"
      then have "items_at q s1 = snd (yield_at (clock 0) s q)"
        using dequeue_levels_spec [OF Suc.prems(1) order_refl, of "clock 0"] d None by (auto simp: DequeueInternal_def)
      then show "mset (items_at q s1) \<subseteq># mset (items_at q s)" by (simp add: level_yield_rest)
    qed
    then show ?thesis using d None dequeue_takes [OF Suc.prems(1) d] by simp
  next
    case (Some x)
    let ?s = "account_executed x (latency 0) s1"
    note taken = Suc.prems(1) d [unfolded Some]
    note e = executed_round(1,2,4,5) [OF taken, of "latency 0"] and x = executed_round(3) [OF taken]
    have fuel: "item_count ?s < fuel" using e(4) Suc.prems(2) by simp
    obtain out s' where o: "consumer_drain fuel (\<lambda>i. clock (Suc i)) (\<lambda>i. latency (Suc i)) ?s = Some (out, s')" "qos_ok s'"
        "mset out + mset (queued_order 6 s') \<subseteq># mset (queued_order 6 ?s)"
        "\<forall>i < length out. \<not> IsExpired (clock (Suc i)) (config' ?s) (out ! i)"
      using Suc.IH [OF e(1) fuel, where clock = "\<lambda>i. clock (Suc i)" and latency = "\<lambda>i. latency (Suc i)"] by (elim exE conjE) (rule that, assumption+)
    have "consumer_drain (Suc fuel) clock latency s = Some (x # out, s')" using d Some o(1) by simp
    moreover have "mset (x # out) + mset (queued_order 6 s') \<subseteq># mset (queued_order 6 s)"
      using o(3) subset_mset.order_trans [OF _ e(3)] by simp
    moreover have "\<forall>i < length (x # out). \<not> IsExpired (clock i) (config' s) ((x # out) ! i)"
      using o(4) e(2) x by (auto simp: less_Suc_eq_0_disj)
    ultimately show ?thesis using o(2) by blast
  qed
qed simp

lemma drain_live:
  assumes "qos_ok s" "queued_order 6 s = xs" "\<forall>i < length xs. live (clock i) s" "length xs < fuel"
  shows "\<exists>s'. consumer_drain fuel clock latency s = Some (xs, s') \<and> queued_order 6 s' = []"
  using assms
proof (induction xs arbitrary: s clock latency fuel)
  case Nil
  then show ?case using dequeue_empty [of s "clock 0"] by (cases fuel) auto
next
  case (Cons x xs)
  have l: "live (clock 0) s" using Cons.prems(3) by simp
  obtain s1 where s1: "DequeueInternal (clock 0) s = (Some x, s1)" "qos_ok s1" "same_setup s s1" "queued_order 6 s1 = xs"
    using dequeue_levels_live [OF Cons.prems(1) order_refl l] Cons.prems(2) by (auto simp: DequeueInternal_def)
  let ?s = "account_executed x (latency 0) s1"
  have ok: "qos_ok ?s" using s1(2) account_executed_same(1) by blast
  have same: "same_setup s ?s" using s1(3) account_executed_same(3) [of s1 x "latency 0"] by (simp add: same_setup_def)
  have o: "queued_order 6 ?s = xs" using s1(4) queued_order_cong [of 6 ?s s1] account_executed_same(2) by auto
  have "x \<in> set (queued_order 6 s)" if "x \<in> set (items_at p ?s)" "p < 6" for x p
    using o Cons.prems(2) that set_queued_order [of 6 ?s] by auto
  then have "\<forall>i < length xs. live (clock (Suc i)) ?s" using Cons.prems(3) same by (auto intro: live_same [OF _ same])
  moreover obtain n where n: "fuel = Suc n" "length xs < n" using Cons.prems(4) by (cases fuel) auto
  ultimately show ?case using Cons.IH [OF ok o, of "\<lambda>i. clock (Suc i)" n "\<lambda>i. latency (Suc i)"] s1(1) by auto
qed

text \<open>C39. The drain loop of a stopped consumer that runs by itself ends, after at most one round per queued item and a last one,
  whatever the clock reads in each round and whatever expires: every executed item was queued and had not expired when it was
  taken, none is executed twice, and what is left was queued. When in no round a queued item has expired, and no quota is
  nought, every queued item is executed, from the highest level down and in the order of arrival within a level, and all
  queues are left empty.\<close>

theorem drain_executes_everything:
  assumes "qos_ok s" "item_count s < fuel"
  shows "\<exists>out s'. consumer_drain fuel clock latency s = Some (out, s') \<and> qos_ok s' \<and>
    mset out + mset (queued_order 6 s') \<subseteq># mset (queued_order 6 s) \<and> (\<forall>i < length out. \<not> IsExpired (clock i) (config' s) (out ! i)) \<and>
    ((\<forall>i < item_count s. live (clock i) s) \<longrightarrow> out = queued_order 6 s \<and> item_count s' = 0)"
proof -
  obtain out s' where o: "consumer_drain fuel clock latency s = Some (out, s')" "qos_ok s'"
      "mset out + mset (queued_order 6 s') \<subseteq># mset (queued_order 6 s)" "\<forall>i < length out. \<not> IsExpired (clock i) (config' s) (out ! i)"
    using drain_ends [OF assms, of clock latency] by (elim exE conjE) (rule that, assumption+)
  have "out = queued_order 6 s \<and> item_count s' = 0" if "\<forall>i < item_count s. live (clock i) s"
    using drain_live [OF assms(1) refl, of clock fuel latency] that assms(2) o(1) length_queued_order [of s'] by (auto simp: length_queued_order)
  with o show ?thesis by blast
qed

theorem drain_executes_everything_witness:
  "\<exists>s'. consumer_drain 3 (\<lambda>i. 2 + int i) (\<lambda>i. 7) two_end = Some ([first_item, second_item], s') \<and> qos_ok s' \<and> item_count s' = 0"
proof -
  have q: "0 < wrr_quota (queues' two_end ! p)" if "p < 6" for p
    using that unfolding two_end_def by (cases "p = 0") (simp_all add: low_only_high empty_queue_def)
  have "\<not> IsExpired (2 + int i) (config' two_end) x" if "x \<in> set (items_at p two_end)" "p < 6" "i < 2" for x p i
    using that by (cases "p = 0") (auto simp: two_end_def IsExpired_def first_item_def second_item_def QosConfig_default_def)
  then have "\<forall>i < item_count two_end. live (2 + int i) two_end" using q by (auto simp: live_def two_end_def)
  moreover have "queued_order 6 two_end = [first_item, second_item]"
    by (simp add: numeral_eq_Suc two_end_def)
  moreover have "item_count two_end < 3" by (simp add: two_end_def)
  ultimately show ?thesis using drain_executes_everything [OF two_end_ok, of 3 "\<lambda>i. 2 + int i" "\<lambda>i. 7"]
    by (auto simp del: consumer_drain.simps)
qed

text \<open>With an expired item the drain can stop too early: two tasks wait at the lowest level of a scheduler with the
  default configuration, the deadline of the first one has passed. Its quota of one is used up by the expired item, so
  that \<open>DequeueInternal\<close> returns null, the stopped consumer ends without executing anything, and the second task,
  which has not expired, stays in the queue.\<close>

theorem drain_leaves_live_items:
  "\<exists>s t. two_tasks = Inr s \<and> consumer_drain (Suc (item_count s)) (\<lambda>i. 10) (\<lambda>i. 7) s = Some ([], t) \<and> items_at 0 t = [second_item] \<and>
    \<not> IsExpired 10 (config' t) second_item \<and> stop_requested' t"
proof (intro exI conjI)
  show "two_tasks = Inr two_end" by (simp add: two_tasks_run two_end_def)
  show "consumer_drain (Suc (item_count two_end)) (\<lambda>i. 10) (\<lambda>i. 7) two_end = Some ([], one_end)" by (simp add: two_end_dequeue)
  show "items_at 0 one_end = [second_item]" by (simp add: one_end_def)
  show "\<not> IsExpired 10 (config' one_end) second_item" by (simp add: one_end_def IsExpired_def second_item_def QosConfig_default_def)
  show "stop_requested' one_end" by (simp add: one_end_def low_only_def)
qed

section \<open>Submission\<close>

text \<open>Nothing but counters, notifications and buckets differs.\<close>

definition same_items :: "'a qos \<Rightarrow> 'a qos \<Rightarrow> bool" where
  "same_items s s' \<longleftrightarrow> (qos_ok s \<longrightarrow> qos_ok s') \<and> (\<forall>q. items_at q s' = items_at q s) \<and> item_count s' = item_count s \<and>
     config' s' = config' s \<and> qos_next_id s' = qos_next_id s \<and> length (queues' s') = length (queues' s)"

lemma same_items_refl [simp]: "same_items s s"
  by (simp add: same_items_def)

lemma same_items_trans: "same_items s t \<Longrightarrow> same_items t u \<Longrightarrow> same_items s u"
  by (simp add: same_items_def)

lemma drop_item_same: "same_items s (drop_item p item s)"
  using qos_ok_cong [of "drop_item p item s" s] by (simp add: same_items_def drop_item_def NotifyDropped_def)

lemma admit_total_same: "same_items s (snd (admit_total p item s))"
  by (simp add: admit_total_def drop_item_same)

lemma admit_global_rate_same: "same_items s (snd (admit_global_rate now p item s))"
proof (cases "global_rate_limiter' s")
  case None
  then show ?thesis by (simp add: admit_global_rate_def)
next
  case (Some b)
  let ?s = "\<lambda>b'. s\<lparr>global_rate_limiter' := Some b'\<rparr>"
  have "same_items s (?s b')" for b' using qos_ok_cong [of "?s b'" s] by (simp add: same_items_def)
  then show ?thesis using Some by (simp add: admit_global_rate_def Let_def split_def same_items_trans [OF _ drop_item_same])
qed

lemma admit_rate_same:
  assumes "p < length (queues' s)"
  shows "same_items s (snd (admit_rate now p item s))"
proof (cases "rate_limiter (queues' s ! p)")
  case None
  then show ?thesis by (simp add: admit_rate_def)
next
  case (Some b)
  let ?s = "\<lambda>b'. set_queue p ((queues' s ! p)\<lparr>rate_limiter := Some b'\<rparr>) s"
  have it: "items_at q (?s b') = items_at q s" for q b' using assms items_at_set_queue [of p s q] by (simp add: items_at_def)
  have d: "depth (queues' (?s b') ! q) = depth (queues' s ! q)" for q b'
    using assms by (cases "q = p") (simp_all add: set_queue_def)
  have "same_items s (?s b')" for b'
    using it d by (simp add: same_items_def qos_ok_def item_count_def) (simp add: set_queue_def)
  then show ?thesis using Some by (simp add: admit_rate_def Let_def split_def same_items_trans [OF _ drop_item_same])
qed

text \<open>The items of a level after an eviction.\<close>

definition after_eviction :: "qos_item option \<Rightarrow> qos_item list \<Rightarrow> qos_item list" where
  "after_eviction ev xs = (case ev of None \<Rightarrow> xs | Some _ \<Rightarrow> tl xs)"

text \<open>A producer that waits for room goes on without it when a stop is requested.\<close>

definition unblocked :: "'a qos \<Rightarrow> bool" where
  "unblocked s \<longleftrightarrow> overflow_policy' (config' s) = kBlock \<and> stop_requested' s"

lemma admit_depth_spec:
  assumes s: "qos_ok s" and p: "p < 6" and r: "admit_depth p item s = (r, ev, s')"
  shows "qos_ok s' \<and> (\<forall>q. q \<noteq> p \<longrightarrow> items_at q s' = items_at q s) \<and> items_at p s' = after_eviction ev (items_at p s) \<and>
    config' s' = config' s \<and> qos_next_id s' = qos_next_id s \<and> item_count s' \<le> item_count s \<and>
    (r = None \<or> r = Some Rejected \<and> ev = None \<or> r = Some WouldBlock \<and> s' = s \<and> ev = None) \<and>
    (r = None \<and> 0 < max_queue_depth (config' s) \<and> \<not> unblocked s \<longrightarrow>
      length (items_at p s') < max (length (items_at p s)) (max_queue_depth (config' s))) \<and>
    (\<forall>y. ev = Some y \<longrightarrow> items_at p s \<noteq> [] \<and> y = hd (items_at p s) \<and> overflow_policy' (config' s) = kDropOldest)"
proof (cases "0 < max_queue_depth (config' s) \<and> max_queue_depth (config' s) \<le> depth (queues' s ! p)")
  case False
  then show ?thesis using r s p by (auto simp: admit_depth_def after_eviction_def qos_ok_def)
next
  case True
  have d: "depth (queues' s ! p) = length (items_at p s)" using s p by (simp add: qos_ok_def)
  show ?thesis
  proof (cases "overflow_policy' (config' s)")
    case kDrop
    then have "r = Some Rejected" "ev = None" "s' = drop_item p item s" using r True by (auto simp: admit_depth_def)
    then show ?thesis using drop_item_same [of s p item] s by (auto simp: same_items_def after_eviction_def)
  next
    case kBlock
    then show ?thesis using r True s by (auto simp: admit_depth_def after_eviction_def unblocked_def split: if_splits)
  next
    case kDropOldest
    obtain x xs where x: "items_at p s = x # xs" using True d by (cases "items_at p s") auto
    obtain s1 where s1: "pop_queue p s = Some (x, s1)" "qos_ok s1" "items_at p s1 = xs"
        "\<forall>q. q \<noteq> p \<longrightarrow> items_at q s1 = items_at q s" "config' s1 = config' s"
      using pop_queue_spec(2) [OF s p x] by auto
    have n: "qos_next_id s1 = qos_next_id s" using s1(1) x by (auto simp: pop_queue_def set_queue_def items_at_def)
    have r': "r = None" "ev = Some x" "s' = drop_item p x s1" using r True kDropOldest s1(1) by (auto simp: admit_depth_def)
    have "item_count s1 \<le> item_count s" using item_count_at [OF p, of s] item_count_at [OF p, of s1] s1(3,4) x by simp
    then show ?thesis using drop_item_same [of s1 p x] s1 x r' n kDropOldest by (auto simp: same_items_def after_eviction_def)
  qed
qed

lemma push_item_spec:
  assumes s: "qos_ok s" and p: "p < 6" and fits: "item_count s + 1 < 2 ^ 64"
  shows "\<exists>r s'. push_item alloc_ok p item s = (r, s') \<and> qos_ok s' \<and> (\<forall>q. q \<noteq> p \<longrightarrow> items_at q s' = items_at q s) \<and>
    (r = Rejected \<and> \<not> alloc_ok \<and> items_at p s' = items_at p s \<or> r = Accepted item \<and> alloc_ok \<and> items_at p s' = items_at p s @ [item])"
proof (cases alloc_ok)
  case False
  then show ?thesis using drop_item_same [of s p item] s by (auto simp: push_item_def same_items_def)
next
  case True
  note ok = s [unfolded qos_ok_def]
  let ?q = "(queues' s ! p)\<lparr>pq_items := pq_items (queues' s ! p) @ [item], depth := sz_add (depth (queues' s ! p)) 1\<rparr>"
  let ?s1 = "(set_queue p ?q s)\<lparr>total_depth' := sz_add (total_depth' s) 1\<rparr>"
  let ?s = "NotifyEnqueued (metadata' item) (count_stat p (\<lambda>t. t\<lparr>enqueued := sz_add (enqueued t) 1\<rparr>) ?s1)"
  have it: "items_at q ?s1 = (if q = p then items_at p s @ [item] else items_at q s)" for q
    using ok p items_at_set_queue [of p s q ?q] by (simp add: items_at_def)
  have cnt: "item_count ?s1 = item_count s + 1" using item_count_at [OF p, of s] item_count_at [OF p, of ?s1] it by simp
  have "length (items_at p s) + 1 < 2 ^ 64" using item_count_at [OF p, of s] fits by simp
  then have d: "sz_add (depth (queues' s ! p)) 1 = length (items_at p s) + 1" using ok p by (simp add: sz_add_eq)
  have t: "sz_add (total_depth' s) 1 = item_count ?s1" using ok cnt fits sz_add_eq [of "total_depth' s" 1] by simp
  have "qos_ok ?s1" unfolding qos_ok_def using ok it d t cnt p fits by (auto simp: set_queue_def nth_list_update)
  moreover have "qos_ok ?s = qos_ok ?s1" "\<forall>q. items_at q ?s = items_at q ?s1"
    using qos_ok_cong [of ?s ?s1] by (simp_all add: NotifyEnqueued_def)
  moreover have "push_item alloc_ok p item s = (Accepted item, ?s)" using True by (simp add: push_item_def Let_def)
  ultimately show ?thesis using it True by auto
qed

text \<open>The tests behind that of the queue depth, and the push.\<close>

lemma EnqueueInternal_behind_depth:
  assumes s: "qos_ok s" and p: "level_of prio < 6" and fits: "item_count s + 1 < 2 ^ 64" and a1: "admit_depth (level_of prio) item s = (None, ev, s1)"
  shows "\<exists>r s'. EnqueueInternal alloc_ok now item prio dl has_dl s = Inr (r, ev, s') \<and> qos_ok s' \<and>
    (\<forall>q. q \<noteq> level_of prio \<longrightarrow> items_at q s' = items_at q s) \<and>
    (case r of WouldBlock \<Rightarrow> s' = s \<and> overflow_policy' (config' s) = kBlock
     | Rejected \<Rightarrow> items_at (level_of prio) s' = after_eviction ev (items_at (level_of prio) s)
     | Accepted x \<Rightarrow> x = stamp now dl has_dl (qos_next_id s) item \<and>
         items_at (level_of prio) s' = after_eviction ev (items_at (level_of prio) s) @ [x]) \<and>
    (0 < max_queue_depth (config' s) \<and> \<not> unblocked s \<longrightarrow>
      length (items_at (level_of prio) s') \<le> max (length (items_at (level_of prio) s)) (max_queue_depth (config' s))) \<and>
    (0 < max_total_depth (config' s) \<longrightarrow> item_count s' \<le> max (item_count s) (max_total_depth (config' s)))"
proof -
  let ?p = "level_of prio"
  have len: "?p < length (queues' s)" using s p by (simp add: qos_ok_def)
  note d = admit_depth_spec [OF s p a1]
  have full: "0 < max_queue_depth (config' s) \<and> \<not> unblocked s \<longrightarrow>
      length (items_at ?p s1) < max (length (items_at ?p s)) (max_queue_depth (config' s))"
    using d by blast
  obtain b2 s2 where a2: "admit_total ?p item s1 = (b2, s2)" by (cases "admit_total ?p item s1") auto
  obtain b3 s3 where a3: "admit_global_rate now ?p item s2 = (b3, s3)" by (cases "admit_global_rate now ?p item s2") auto
  obtain b4 s4 where a4: "admit_rate now ?p item s3 = (b4, s4)" by (cases "admit_rate now ?p item s3") auto
  have m2: "same_items s1 s2" using admit_total_same [of s1 ?p item] a2 by simp
  have m3: "same_items s1 s3" using same_items_trans [OF m2] admit_global_rate_same [of s2 now ?p item] a3 by simp
  have l3: "?p < length (queues' s3)" using m3 d p by (simp add: same_items_def qos_ok_def)
  have m4: "same_items s1 s4" using same_items_trans [OF m3] admit_rate_same [OF l3, of now item] a4 by simp
  note defs = EnqueueInternal_def a1 a2 a3 a4
  show ?thesis
  proof (cases "b2 \<and> b3 \<and> b4")
    case False
    then obtain t where t: "EnqueueInternal alloc_ok now item prio dl has_dl s = Inr (Rejected, ev, t)" "same_items s1 t"
      using len m2 m3 m4 by (cases b2; cases b3; cases b4) (simp_all add: defs)
    moreover have "item_count t \<le> item_count s" using t(2) d by (simp add: same_items_def)
    ultimately show ?thesis using d full by (auto simp: same_items_def)
  next
    case True
    have total: "0 < max_total_depth (config' s) \<longrightarrow> item_count s1 < max_total_depth (config' s)"
      using True a2 d by (auto simp: admit_total_def qos_ok_def split: if_splits)
    let ?x = "stamp now dl has_dl (qos_next_id s) item" and ?s5 = "s4\<lparr>qos_next_id := sz_add (qos_next_id s) 1\<rparr>"
    have i5: "qos_ok ?s5" "items_at q ?s5 = items_at q s1" "item_count ?s5 + 1 < 2 ^ 64" for q
      using m4 d fits qos_ok_cong [of ?s5 s4] by (auto simp: same_items_def)
    obtain r s6 where s6: "push_item alloc_ok ?p ?x ?s5 = (r, s6)" "qos_ok s6" "\<forall>q. q \<noteq> ?p \<longrightarrow> items_at q s6 = items_at q ?s5"
        "r = Rejected \<and> \<not> alloc_ok \<and> items_at ?p s6 = items_at ?p ?s5 \<or> r = Accepted ?x \<and> alloc_ok \<and> items_at ?p s6 = items_at ?p ?s5 @ [?x]"
      using push_item_spec [OF i5(1) p i5(3), of alloc_ok ?x] by (elim exE conjE) (rule that, assumption+)
    have "qos_next_id s4 = qos_next_id s" using m4 d by (simp add: same_items_def)
    then have "EnqueueInternal alloc_ok now item prio dl has_dl s = Inr (r, ev, s6)"
      using True s6(1) len by (simp add: defs)
    moreover have "case r of WouldBlock \<Rightarrow> s6 = s \<and> overflow_policy' (config' s) = kBlock
       | Rejected \<Rightarrow> items_at ?p s6 = after_eviction ev (items_at ?p s)
       | Accepted x \<Rightarrow> x = ?x \<and> items_at ?p s6 = after_eviction ev (items_at ?p s) @ [x]" using s6(4) i5(2) d by auto
    moreover have len6: "length (items_at ?p s6) \<le> length (items_at ?p s1) + 1" using s6(4) i5(2) by auto
    moreover have "item_count s6 \<le> item_count s1 + 1"
      using item_count_at [OF p, of s6] item_count_at [OF p, of s1] len6 s6(3) i5(2) by simp
    moreover have "\<forall>q. q \<noteq> ?p \<longrightarrow> items_at q s6 = items_at q s" using s6(3) i5(2) d by simp
    ultimately show ?thesis using s6(2) full total by (intro exI [of _ r] exI [of _ s6]) auto
  qed
qed

text \<open>C40. What a submission does to the queues when it does not overlap with other calls: one that blocks changes nothing; one that is
  rejected leaves the items alone, except that under \<open>kDropOldest\<close> the oldest item may already have been evicted for it; one
  that is accepted puts the stamped item behind all others of its level. Other levels are never touched and the depth
  counters stay exact. A limit of nought is none. Under a \<open>max_queue_depth\<close> a level that is within it stays within it and a
  fuller one does not grow, except that a producer which waits under \<open>kBlock\<close> goes on when a stop is requested; the same
  holds of all levels together and \<open>max_total_depth\<close>, under every policy.\<close>

theorem EnqueueInternal_respects_limits:
  assumes s: "qos_ok s" and prio: "prio \<noteq> kNumLevels" and fits: "item_count s + 1 < 2 ^ 64"
  shows "\<exists>r ev s'. EnqueueInternal alloc_ok now item prio dl has_dl s = Inr (r, ev, s') \<and> qos_ok s' \<and>
    (\<forall>q. q \<noteq> level_of prio \<longrightarrow> items_at q s' = items_at q s) \<and>
    (case r of WouldBlock \<Rightarrow> s' = s \<and> overflow_policy' (config' s) = kBlock
     | Rejected \<Rightarrow> items_at (level_of prio) s' = after_eviction ev (items_at (level_of prio) s)
     | Accepted x \<Rightarrow> x = stamp now dl has_dl (qos_next_id s) item \<and>
         items_at (level_of prio) s' = after_eviction ev (items_at (level_of prio) s) @ [x]) \<and>
    (0 < max_queue_depth (config' s) \<and> \<not> unblocked s \<longrightarrow>
      length (items_at (level_of prio) s') \<le> max (length (items_at (level_of prio) s)) (max_queue_depth (config' s))) \<and>
    (0 < max_total_depth (config' s) \<longrightarrow> item_count s' \<le> max (item_count s) (max_total_depth (config' s)))"
proof -
  let ?p = "level_of prio"
  have p: "?p < 6" using prio by (cases prio) simp_all
  have len: "?p < length (queues' s)" using s p by (simp add: qos_ok_def)
  obtain r0 ev s1 where a1: "admit_depth ?p item s = (r0, ev, s1)" by (cases "admit_depth ?p item s") auto
  note d = admit_depth_spec [OF s p a1]
  have evl: "length (after_eviction ev xs) \<le> length xs" for xs by (cases ev) (simp_all add: after_eviction_def)
  show ?thesis
  proof (cases r0)
    case (Some r)
    then have e: "EnqueueInternal alloc_ok now item prio dl has_dl s = Inr (r, ev, s1)" using a1 len by (simp add: EnqueueInternal_def)
    have "r = WouldBlock \<Longrightarrow> overflow_policy' (config' s) = kBlock"
      using a1 Some by (auto simp: admit_depth_def split: if_splits overflow_policy.splits option.splits)
    moreover have "r = Rejected \<or> r = WouldBlock \<and> s1 = s" using d Some by auto
    ultimately show ?thesis using d evl e by (auto simp: after_eviction_def intro: le_trans)
  next
    case None
    with a1 have "admit_depth ?p item s = (None, ev, s1)" by simp
    from EnqueueInternal_behind_depth [OF s p fits this, of alloc_ok now dl has_dl] show ?thesis by (elim exE) (rule exI)+
  qed
qed

theorem EnqueueInternal_respects_limits_witness:
  "\<exists>s'. EnqueueInternal True 3 (FunctionItem ''third'') kBackground 0 False two_end = Inr (Accepted (stamp 3 0 False 3 (FunctionItem ''third'')), None, s') \<and>
    items_at 0 s' = [first_item, second_item, stamp 3 0 False 3 (FunctionItem ''third'')]"
proof -
  have fits: "item_count two_end + 1 < 2 ^ 64" by (simp add: two_end_def)
  obtain r ev s' where r: "EnqueueInternal True 3 (FunctionItem ''third'') kBackground 0 False two_end = Inr (r, ev, s')"
      "case r of WouldBlock \<Rightarrow> s' = two_end \<and> overflow_policy' (config' two_end) = kBlock
       | Rejected \<Rightarrow> items_at (level_of kBackground) s' = after_eviction ev (items_at (level_of kBackground) two_end)
       | Accepted x \<Rightarrow> x = stamp 3 0 False (qos_next_id two_end) (FunctionItem ''third'') \<and>
           items_at (level_of kBackground) s' = after_eviction ev (items_at (level_of kBackground) two_end) @ [x]"
    using EnqueueInternal_respects_limits [OF two_end_ok priority.distinct(11) fits, of True 3 "FunctionItem ''third''" 0 False]
    by (elim exE conjE) (rule that, assumption+)
  have "\<exists>x. r = Accepted x" "ev = None"
    using r(1) by (auto simp: two_end_def low_only_def enqueue_simps QosConfig_default_def)
  then show ?thesis using r by (auto simp: after_eviction_def two_end_def low_only_def items_at_def)
qed

end
