(* ===== verification/Transform.thy ===== *)
theory Transform
  imports Yacul_Prelude
begin

text \<open>
  Data transformation (transformation/): the adapters of compressors, checksums and hashes, and their factory. The
  third-party libraries that the adapters call (LZ4, Zstd, Snappy, crc32c, xxHash, BLAKE3, OpenSSL) are parameters:
  each is a record of the functions that the code calls, and \<open>_lawful\<close> says what their documentation promises.
  Objects are data types with one constructor per adapter, and a virtual function is a function on them.
\<close>

section \<open>Byte buffers\<close>

text \<open>\<open>vector::resize\<close>, and a library function that writes its output to the start of a buffer.\<close>

definition resize :: "nat \<Rightarrow> u8 list \<Rightarrow> u8 list" where
  "resize n xs = take n xs @ replicate (n - length xs) 0"

definition written :: "u8 list \<Rightarrow> u8 list \<Rightarrow> u8 list" where
  "written out buf = out @ drop (length out) buf"

lemma length_resize [simp]: "length (resize n xs) = n"
  by (simp add: resize_def)

lemma resize_written [simp]: "resize (length out) (written out buf) = out"
  by (simp add: resize_def written_def)

lemma written_all: "length buf = length out \<Longrightarrow> written out buf = out"
  by (simp add: written_def)

text \<open>\<open>ToHex\<close> (hex_utils.h).\<close>

definition kHexChars :: string where
  "kHexChars = ''0123456789abcdef''"

fun ToHex :: "u8 list \<Rightarrow> string" where
  "ToHex [] = []"
| "ToHex (b # bs) = kHexChars ! unat (and (drop_bit 4 b) 15) # kHexChars ! unat (and b 15) # ToHex bs"

text \<open>\<open>memcpy\<close> of an integer, on a little-endian machine.\<close>

definition le_bytes :: "nat \<Rightarrow> 'a::len word \<Rightarrow> u8 list" where
  "le_bytes n x = map (\<lambda>i. ucast (drop_bit (8 * i) x)) [0 ..< n]"

lemma length_le_bytes [simp]: "length (le_bytes n x) = n"
  by (simp add: le_bytes_def)

section \<open>Compressors\<close>

text \<open>The LZ4 frame functions: the bound for preferences and a size; a frame, or an error when the room does not suffice; the
  bytes decoded into a room, with the hint how many more bytes of input the frame needs (0 at its end).\<close>

record lz4_prefs =
  contentSize :: nat
  compressionLevel :: int

record lz4_lib =
  LZ4F_compressFrameBound :: "lz4_prefs \<Rightarrow> nat \<Rightarrow> nat"
  LZ4F_compressFrame :: "lz4_prefs \<Rightarrow> nat \<Rightarrow> u8 list \<Rightarrow> u8 list option"
  LZ4F_createDecompressionContext :: bool
  LZ4F_decompress :: "nat \<Rightarrow> u8 list \<Rightarrow> (u8 list \<times> nat) option"

record zstd_lib =
  ZSTD_compressBound :: "nat \<Rightarrow> nat"
  ZSTD_compressCCtx :: "int \<Rightarrow> nat \<Rightarrow> u8 list \<Rightarrow> u8 list option"
  ZSTD_getFrameContentSize :: "u8 list \<Rightarrow> nat"
  ZSTD_decompressDCtx :: "nat \<Rightarrow> u8 list \<Rightarrow> u8 list option"

record snappy_lib =
  MaxCompressedLength :: "nat \<Rightarrow> nat"
  RawCompress :: "u8 list \<Rightarrow> u8 list"
  GetUncompressedLength :: "u8 list \<Rightarrow> nat option"
  RawUncompress :: "u8 list \<Rightarrow> u8 list option"

record compression_libs =
  lz4 :: lz4_lib
  zstd :: zstd_lib
  snappy :: snappy_lib

definition ZSTD_CONTENTSIZE_UNKNOWN :: nat where
  "ZSTD_CONTENTSIZE_UNKNOWN = 2 ^ 64 - 1"

definition ZSTD_CONTENTSIZE_ERROR :: nat where
  "ZSTD_CONTENTSIZE_ERROR = 2 ^ 64 - 2"

definition Lz4_Compress :: "lz4_lib \<Rightarrow> int \<Rightarrow> u8 list \<Rightarrow> u8 list \<Rightarrow> bool \<times> u8 list" where
  "Lz4_Compress L level src dst =
    (let prefs = \<lparr>contentSize = length src, compressionLevel = level\<rparr>;
         bound = LZ4F_compressFrameBound L prefs (length src); dst1 = resize bound dst
     in case LZ4F_compressFrame L prefs bound src of None \<Rightarrow> (False, dst1)
        | Some out \<Rightarrow> (True, resize (length out) (written out dst1)))"

definition Lz4_capacity :: "u8 list \<Rightarrow> nat \<Rightarrow> nat" where
  "Lz4_capacity src original_size = (if original_size > 0 then original_size else sz_mul (length src) 4)"

definition Lz4_Decompress :: "lz4_lib \<Rightarrow> u8 list \<Rightarrow> u8 list \<Rightarrow> nat \<Rightarrow> bool \<times> u8 list" where
  "Lz4_Decompress L src dst original_size =
    (if \<not> LZ4F_createDecompressionContext L then (False, dst)
     else let capacity = Lz4_capacity src original_size; dst1 = resize capacity dst
       in case LZ4F_decompress L capacity src of None \<Rightarrow> (False, dst1)
          | Some (out, hint) \<Rightarrow> (True, resize (length out) (written out dst1)))"

definition Zstd_Compress :: "zstd_lib \<Rightarrow> int \<Rightarrow> u8 list \<Rightarrow> u8 list \<Rightarrow> bool \<times> u8 list" where
  "Zstd_Compress L level src dst =
    (let bound = ZSTD_compressBound L (length src); dst1 = resize bound dst
     in case ZSTD_compressCCtx L level bound src of None \<Rightarrow> (False, dst1)
        | Some out \<Rightarrow> (True, resize (length out) (written out dst1)))"

definition Zstd_capacity :: "zstd_lib \<Rightarrow> u8 list \<Rightarrow> nat \<Rightarrow> nat" where
  "Zstd_capacity L src original_size = (let hint = ZSTD_getFrameContentSize L src
     in if hint \<noteq> ZSTD_CONTENTSIZE_UNKNOWN \<and> hint \<noteq> ZSTD_CONTENTSIZE_ERROR then hint
        else if original_size > 0 then original_size else sz_mul (length src) 4)"

definition Zstd_Decompress :: "zstd_lib \<Rightarrow> u8 list \<Rightarrow> u8 list \<Rightarrow> nat \<Rightarrow> bool \<times> u8 list" where
  "Zstd_Decompress L src dst original_size =
    (let capacity = Zstd_capacity L src original_size; dst1 = resize capacity dst
     in case ZSTD_decompressDCtx L capacity src of None \<Rightarrow> (False, dst1)
        | Some out \<Rightarrow> (True, resize (length out) (written out dst1)))"

definition Snappy_Compress :: "snappy_lib \<Rightarrow> u8 list \<Rightarrow> u8 list \<Rightarrow> bool \<times> u8 list" where
  "Snappy_Compress L src dst =
    (let dst1 = resize (MaxCompressedLength L (length src)) dst; out = RawCompress L src
     in (length out > 0, resize (length out) (written out dst1)))"

definition Snappy_Decompress :: "snappy_lib \<Rightarrow> u8 list \<Rightarrow> u8 list \<Rightarrow> bool \<times> u8 list" where
  "Snappy_Decompress L src dst =
    (case GetUncompressedLength L src of None \<Rightarrow> (False, dst)
     | Some n \<Rightarrow> let dst1 = resize n dst
         in case RawUncompress L src of None \<Rightarrow> (False, dst1) | Some out \<Rightarrow> (True, written out dst1))"

text \<open>The objects. \<open>level\<close> is \<open>level_\<close>.\<close>

datatype compressor = Lz4Compressor int | ZstdCompressor int | SnappyCompressor

fun Compress :: "compression_libs \<Rightarrow> compressor \<Rightarrow> u8 list \<Rightarrow> u8 list \<Rightarrow> bool \<times> u8 list" where
  "Compress L (Lz4Compressor level) src dst = Lz4_Compress (lz4 L) level src dst"
| "Compress L (ZstdCompressor level) src dst = Zstd_Compress (zstd L) level src dst"
| "Compress L SnappyCompressor src dst = Snappy_Compress (snappy L) src dst"

fun Decompress :: "compression_libs \<Rightarrow> compressor \<Rightarrow> u8 list \<Rightarrow> u8 list \<Rightarrow> nat \<Rightarrow> bool \<times> u8 list" where
  "Decompress L (Lz4Compressor level) src dst original_size = Lz4_Decompress (lz4 L) src dst original_size"
| "Decompress L (ZstdCompressor level) src dst original_size = Zstd_Decompress (zstd L) src dst original_size"
| "Decompress L SnappyCompressor src dst original_size = Snappy_Decompress (snappy L) src dst"

fun MaxCompressedSize :: "compression_libs \<Rightarrow> compressor \<Rightarrow> nat \<Rightarrow> nat" where
  "MaxCompressedSize L (Lz4Compressor level) n =
    LZ4F_compressFrameBound (lz4 L) \<lparr>contentSize = 0, compressionLevel = level\<rparr> n"
| "MaxCompressedSize L (ZstdCompressor level) n = ZSTD_compressBound (zstd L) n"
| "MaxCompressedSize L SnappyCompressor n = MaxCompressedLength (snappy L) n"

fun compression_level :: "compressor \<Rightarrow> int" where
  "compression_level (Lz4Compressor level) = level"
| "compression_level (ZstdCompressor level) = level"
| "compression_level SnappyCompressor = 0"

fun set_compression_level :: "int \<Rightarrow> compressor \<Rightarrow> compressor" where
  "set_compression_level n (Lz4Compressor level) = Lz4Compressor n"
| "set_compression_level n (ZstdCompressor level) = ZstdCompressor n"
| "set_compression_level n SnappyCompressor = SnappyCompressor"

fun Compressor_name :: "compressor \<Rightarrow> string" where
  "Compressor_name (Lz4Compressor level) = ''LZ4''"
| "Compressor_name (ZstdCompressor level) = ''Zstd''"
| "Compressor_name SnappyCompressor = ''Snappy''"

text \<open>What the libraries document. LZ4: a room of the bound suffices; decoding fills the room as far as the data goes and
  returns a positive hint when it stops early. Zstd: one-pass compression stores the content size; decoding into a room
  that is too small is an error. Snappy: a stream starts with the length of its data, as a number of 32 bits, so it is never
  empty, and data of fewer than $2^{32}$ bytes are given back.\<close>

definition lz4_lawful :: "lz4_lib \<Rightarrow> bool" where
  "lz4_lawful L \<longleftrightarrow> LZ4F_createDecompressionContext L \<and>
    (\<forall>prefs xs. contentSize prefs = length xs \<longrightarrow> (\<exists>out.
      LZ4F_compressFrame L prefs (LZ4F_compressFrameBound L prefs (length xs)) xs = Some out \<and>
      length out \<le> LZ4F_compressFrameBound L prefs (length xs) \<and>
      (\<forall>n. \<exists>hint. LZ4F_decompress L n out = Some (take n xs, hint) \<and> (n < length xs \<longrightarrow> 0 < hint))))"

definition zstd_lawful :: "zstd_lib \<Rightarrow> bool" where
  "zstd_lawful L \<longleftrightarrow>
    (\<forall>level xs. length xs < 2 ^ 63 \<longrightarrow> (\<exists>out. ZSTD_compressCCtx L level (ZSTD_compressBound L (length xs)) xs = Some out \<and>
      length out \<le> ZSTD_compressBound L (length xs) \<and> ZSTD_getFrameContentSize L out = length xs \<and>
      (\<forall>n. ZSTD_decompressDCtx L n out = (if n < length xs then None else Some xs))))"

definition snappy_lawful :: "snappy_lib \<Rightarrow> bool" where
  "snappy_lawful L \<longleftrightarrow> (\<forall>xs. length xs < 2 ^ 32 \<longrightarrow>
      RawCompress L xs \<noteq> [] \<and> length (RawCompress L xs) \<le> MaxCompressedLength L (length xs) \<and>
      GetUncompressedLength L (RawCompress L xs) = Some (length xs) \<and> RawUncompress L (RawCompress L xs) = Some xs)"

definition compression_lawful :: "compression_libs \<Rightarrow> bool" where
  "compression_lawful L \<longleftrightarrow> lz4_lawful (lz4 L) \<and> zstd_lawful (zstd L) \<and> snappy_lawful (snappy L)"

end
