(* ===== verification/Transform_Digest.thy ===== *)
theory Transform_Digest
  imports Transform
begin

text \<open>
  Data transformation: the adapters of checksums (\<open>IChecksummer\<close>) and hashes (\<open>IHasher\<close>). An object holds the state of
  the library it wraps, whose type is a parameter. The one-shot functions leave the object as it is; the streaming
  functions return it updated.
\<close>

section \<open>Checksums\<close>

record crc32c_lib =
  Crc32c :: "u8 list \<Rightarrow> u32"
  Extend :: "u32 \<Rightarrow> u8 list \<Rightarrow> u32"

record 'x xxh_lib =
  XXH32_oneshot :: "u8 list \<Rightarrow> u32 \<Rightarrow> u32"
  XXH32_reset :: "u32 \<Rightarrow> 'x"
  XXH32_update :: "'x \<Rightarrow> u8 list \<Rightarrow> 'x"
  XXH32_digest :: "'x \<Rightarrow> u32"
  XXH64_oneshot :: "u8 list \<Rightarrow> u64 \<Rightarrow> u64"
  XXH64_reset :: "u64 \<Rightarrow> 'x"
  XXH64_update :: "'x \<Rightarrow> u8 list \<Rightarrow> 'x"
  XXH64_digest :: "'x \<Rightarrow> u64"
  XXH3_64bits_withSeed :: "u8 list \<Rightarrow> u64 \<Rightarrow> u64"
  XXH3_64bits_reset_withSeed :: "u64 \<Rightarrow> 'x"
  XXH3_64bits_update :: "'x \<Rightarrow> u8 list \<Rightarrow> 'x"
  XXH3_64bits_digest :: "'x \<Rightarrow> u64"
  XXH3_128bits_withSeed :: "u8 list \<Rightarrow> u64 \<Rightarrow> u64 \<times> u64"
  XXH3_128bits_reset_withSeed :: "u64 \<Rightarrow> 'x"
  XXH3_128bits_update :: "'x \<Rightarrow> u8 list \<Rightarrow> 'x"
  XXH3_128bits_digest :: "'x \<Rightarrow> u64 \<times> u64"

record 'x checksum_libs =
  crc32c :: crc32c_lib
  xxhash :: "'x xxh_lib"

datatype xxh_variant = kXXH32 | kXXH64 | kXXH3_64 | kXXH3_128

text \<open>\<open>DigestSizeFor\<close> and \<open>VariantName\<close>.\<close>

fun XxHash_DigestSizeFor :: "xxh_variant \<Rightarrow> nat" where
  "XxHash_DigestSizeFor kXXH32 = 4"
| "XxHash_DigestSizeFor kXXH64 = 8"
| "XxHash_DigestSizeFor kXXH3_64 = 8"
| "XxHash_DigestSizeFor kXXH3_128 = 16"

fun VariantName :: "xxh_variant \<Rightarrow> string" where
  "VariantName kXXH32 = ''xxHash-XXH32''"
| "VariantName kXXH64 = ''xxHash-XXH64''"
| "VariantName kXXH3_64 = ''xxHash-XXH3-64''"
| "VariantName kXXH3_128 = ''xxHash-XXH3-128''"

text \<open>A digest copied into a fresh buffer of \<open>n\<close> bytes; \<open>XXH128_hash_t\<close> is \<open>low64\<close>, then \<open>high64\<close>.\<close>

definition digest_buffer :: "nat \<Rightarrow> u8 list \<Rightarrow> u8 list" where
  "digest_buffer n bytes = written bytes (replicate n 0)"

fun le_bytes_128 :: "u64 \<times> u64 \<Rightarrow> u8 list" where
  "le_bytes_128 (low, high) = le_bytes 8 low @ le_bytes 8 high"

fun XxHash_Compute :: "'x xxh_lib \<Rightarrow> xxh_variant \<Rightarrow> u64 \<Rightarrow> u8 list \<Rightarrow> u8 list" where
  "XxHash_Compute L kXXH32 seed data = digest_buffer (XxHash_DigestSizeFor kXXH32) (le_bytes 4 (XXH32_oneshot L data (ucast seed)))"
| "XxHash_Compute L kXXH64 seed data = digest_buffer (XxHash_DigestSizeFor kXXH64) (le_bytes 8 (XXH64_oneshot L data seed))"
| "XxHash_Compute L kXXH3_64 seed data = digest_buffer (XxHash_DigestSizeFor kXXH3_64) (le_bytes 8 (XXH3_64bits_withSeed L data seed))"
| "XxHash_Compute L kXXH3_128 seed data = digest_buffer (XxHash_DigestSizeFor kXXH3_128) (le_bytes_128 (XXH3_128bits_withSeed L data seed))"

fun XxHash_Reset :: "'x xxh_lib \<Rightarrow> xxh_variant \<Rightarrow> u64 \<Rightarrow> 'x" where
  "XxHash_Reset L kXXH32 seed = XXH32_reset L (ucast seed)"
| "XxHash_Reset L kXXH64 seed = XXH64_reset L seed"
| "XxHash_Reset L kXXH3_64 seed = XXH3_64bits_reset_withSeed L seed"
| "XxHash_Reset L kXXH3_128 seed = XXH3_128bits_reset_withSeed L seed"

fun XxHash_Update :: "'x xxh_lib \<Rightarrow> xxh_variant \<Rightarrow> 'x \<Rightarrow> u8 list \<Rightarrow> 'x" where
  "XxHash_Update L kXXH32 x data = XXH32_update L x data"
| "XxHash_Update L kXXH64 x data = XXH64_update L x data"
| "XxHash_Update L kXXH3_64 x data = XXH3_64bits_update L x data"
| "XxHash_Update L kXXH3_128 x data = XXH3_128bits_update L x data"

fun XxHash_digest :: "'x xxh_lib \<Rightarrow> xxh_variant \<Rightarrow> 'x \<Rightarrow> u8 list" where
  "XxHash_digest L kXXH32 x = digest_buffer (XxHash_DigestSizeFor kXXH32) (le_bytes 4 (XXH32_digest L x))"
| "XxHash_digest L kXXH64 x = digest_buffer (XxHash_DigestSizeFor kXXH64) (le_bytes 8 (XXH64_digest L x))"
| "XxHash_digest L kXXH3_64 x = digest_buffer (XxHash_DigestSizeFor kXXH3_64) (le_bytes 8 (XXH3_64bits_digest L x))"
| "XxHash_digest L kXXH3_128 x = digest_buffer (XxHash_DigestSizeFor kXXH3_128) (le_bytes_128 (XXH3_128bits_digest L x))"

text \<open>The objects: \<open>state_\<close> of the CRC; \<open>variant_\<close>, \<open>seed_\<close> and what \<open>state_\<close> points to.\<close>

datatype 'x checksummer = Crc32cChecksummer u32 | XxHashChecksummer xxh_variant u64 'x

definition new_Crc32cChecksummer :: "'x checksummer" where
  "new_Crc32cChecksummer = Crc32cChecksummer 0"

definition new_XxHashChecksummer :: "'x checksum_libs \<Rightarrow> xxh_variant \<Rightarrow> u64 \<Rightarrow> 'x checksummer" where
  "new_XxHashChecksummer L variant seed = XxHashChecksummer variant seed (XxHash_Reset (xxhash L) variant seed)"

fun Checksummer_digest_size :: "'x checksummer \<Rightarrow> nat" where
  "Checksummer_digest_size (Crc32cChecksummer s) = 4"
| "Checksummer_digest_size (XxHashChecksummer v seed x) = XxHash_DigestSizeFor v"

fun Compute :: "'x checksum_libs \<Rightarrow> 'x checksummer \<Rightarrow> u8 list \<Rightarrow> u8 list" where
  "Compute L (Crc32cChecksummer s) data = digest_buffer 4 (le_bytes 4 (Crc32c (crc32c L) data))"
| "Compute L (XxHashChecksummer v seed x) data = XxHash_Compute (xxhash L) v seed data"

fun Checksummer_Reset :: "'x checksum_libs \<Rightarrow> 'x checksummer \<Rightarrow> 'x checksummer" where
  "Checksummer_Reset L (Crc32cChecksummer s) = Crc32cChecksummer 0"
| "Checksummer_Reset L (XxHashChecksummer v seed x) = XxHashChecksummer v seed (XxHash_Reset (xxhash L) v seed)"

fun Checksummer_Update :: "'x checksum_libs \<Rightarrow> 'x checksummer \<Rightarrow> u8 list \<Rightarrow> 'x checksummer" where
  "Checksummer_Update L (Crc32cChecksummer s) data = Crc32cChecksummer (Extend (crc32c L) s data)"
| "Checksummer_Update L (XxHashChecksummer v seed x) data =
    XxHashChecksummer v seed (XxHash_Update (xxhash L) v x data)"

fun Checksummer_Finalize :: "'x checksum_libs \<Rightarrow> 'x checksummer \<Rightarrow> u8 list \<times> 'x checksummer" where
  "Checksummer_Finalize L (Crc32cChecksummer s) =
    (digest_buffer 4 (le_bytes 4 s), Checksummer_Reset L (Crc32cChecksummer s))"
| "Checksummer_Finalize L (XxHashChecksummer v seed x) =
    (XxHash_digest (xxhash L) v x, Checksummer_Reset L (XxHashChecksummer v seed x))"

definition ComputeHex :: "'x checksum_libs \<Rightarrow> 'x checksummer \<Rightarrow> u8 list \<Rightarrow> string" where
  "ComputeHex L c data = ToHex (Compute L c data)"

definition Checksummer_FinalizeHex :: "'x checksum_libs \<Rightarrow> 'x checksummer \<Rightarrow> string \<times> 'x checksummer" where
  "Checksummer_FinalizeHex L c = (let (digest, c') = Checksummer_Finalize L c in (ToHex digest, c'))"

fun Checksummer_name :: "'x checksummer \<Rightarrow> string" where
  "Checksummer_name (Crc32cChecksummer s) = ''CRC32C''"
| "Checksummer_name (XxHashChecksummer v seed x) = VariantName v"

text \<open>What the libraries document: the CRC of a concatenation extends the CRC of its first part; xxHash fed in pieces
  gives the hash of the whole.\<close>

definition crc32c_lawful :: "crc32c_lib \<Rightarrow> bool" where
  "crc32c_lawful L \<longleftrightarrow> (\<forall>xs. Crc32c L xs = Extend L 0 xs) \<and> (\<forall>c. Extend L c [] = c) \<and>
    (\<forall>c xs ys. Extend L (Extend L c xs) ys = Extend L c (xs @ ys))"

definition xxh_lawful :: "'x xxh_lib \<Rightarrow> bool" where
  "xxh_lawful L \<longleftrightarrow>
    (\<forall>seed chunks. XXH32_digest L (foldl (XXH32_update L) (XXH32_reset L seed) chunks) = XXH32_oneshot L (concat chunks) seed) \<and>
    (\<forall>seed chunks. XXH64_digest L (foldl (XXH64_update L) (XXH64_reset L seed) chunks) = XXH64_oneshot L (concat chunks) seed) \<and>
    (\<forall>seed chunks. XXH3_64bits_digest L (foldl (XXH3_64bits_update L) (XXH3_64bits_reset_withSeed L seed) chunks) =
      XXH3_64bits_withSeed L (concat chunks) seed) \<and>
    (\<forall>seed chunks. XXH3_128bits_digest L (foldl (XXH3_128bits_update L) (XXH3_128bits_reset_withSeed L seed) chunks) =
      XXH3_128bits_withSeed L (concat chunks) seed)"

definition checksum_lawful :: "'x checksum_libs \<Rightarrow> bool" where
  "checksum_lawful L \<longleftrightarrow> crc32c_lawful (crc32c L) \<and> xxh_lawful (xxhash L)"

section \<open>Hashes\<close>

record 'b blake3_lib =
  BLAKE3_KEY_LEN :: nat
  blake3_hasher_init :: 'b
  blake3_hasher_init_keyed :: "u8 list \<Rightarrow> 'b"
  blake3_hasher_feed :: "'b \<Rightarrow> u8 list \<Rightarrow> 'b"
  blake3_hasher_finalize :: "'b \<Rightarrow> nat \<Rightarrow> u8 list"

datatype evp_md = EVP_sha256 | EVP_sha384 | EVP_sha512 | EVP_sha3_256 | EVP_sha3_384 | EVP_sha3_512

text \<open>The EVP functions return the bytes that they write, None on failure (the code ignores the status and looks at the
  length). \<open>HMAC\<close> takes the key as a pointer, which may be null, and its size as an \<open>int\<close>. \<open>malloc\<close> tells whether a request succeeds.\<close>

record 'e openssl_lib =
  EVP_MD_size :: "evp_md \<Rightarrow> nat"
  EVP_Digest :: "u8 list \<Rightarrow> evp_md \<Rightarrow> u8 list option"
  EVP_MD_CTX_new :: 'e
  EVP_DigestInit_ex :: "'e \<Rightarrow> evp_md \<Rightarrow> 'e"
  EVP_DigestUpdate :: "'e \<Rightarrow> u8 list \<Rightarrow> 'e"
  EVP_DigestFinal_ex :: "'e \<Rightarrow> u8 list option \<times> 'e"
  HMAC :: "evp_md \<Rightarrow> u8 list option \<Rightarrow> int \<Rightarrow> u8 list \<Rightarrow> u8 list option"
  malloc :: "nat \<Rightarrow> bool"

record ('b, 'e) hash_libs =
  blake3 :: "'b blake3_lib"
  openssl :: "'e openssl_lib"

datatype sha_algorithm = kSHA256 | kSHA384 | kSHA512 | kSHA3_256 | kSHA3_384 | kSHA3_512

fun MdFor :: "sha_algorithm \<Rightarrow> evp_md" where
  "MdFor kSHA256 = EVP_sha256"
| "MdFor kSHA384 = EVP_sha384"
| "MdFor kSHA512 = EVP_sha512"
| "MdFor kSHA3_256 = EVP_sha3_256"
| "MdFor kSHA3_384 = EVP_sha3_384"
| "MdFor kSHA3_512 = EVP_sha3_512"

fun AlgoName :: "sha_algorithm \<Rightarrow> string" where
  "AlgoName kSHA256 = ''SHA-256''"
| "AlgoName kSHA384 = ''SHA-384''"
| "AlgoName kSHA512 = ''SHA-512''"
| "AlgoName kSHA3_256 = ''SHA3-256''"
| "AlgoName kSHA3_384 = ''SHA3-384''"
| "AlgoName kSHA3_512 = ''SHA3-512''"

definition Sha_DigestSizeFor :: "'e openssl_lib \<Rightarrow> sha_algorithm \<Rightarrow> nat" where
  "Sha_DigestSizeFor L a = EVP_MD_size L (MdFor a)"

text \<open>\<open>static_cast<int>\<close> of a size, and a buffer of \<open>n\<close> bytes that is cut to what was written into it.\<close>

definition int_of_size :: "nat \<Rightarrow> int" where
  "int_of_size n = sint (word_of_nat n :: 32 word)"

fun received :: "nat \<Rightarrow> u8 list option \<Rightarrow> u8 list" where
  "received n None = []"
| "received n (Some bytes) = resize (length bytes) (written bytes (replicate n 0))"

lemma received_Some [simp]: "received n (Some bytes) = bytes"
  by simp

text \<open>The objects: \<open>output_length_\<close> and \<open>state_\<close>; \<open>algo_\<close>, \<open>ctx_\<close>, \<open>keyed_mode_\<close>, \<open>hmac_key_data_\<close> and \<open>hmac_key_size_\<close>.\<close>

record 'e sha_hasher =
  algo :: sha_algorithm
  ctx :: 'e
  keyed_mode :: bool
  hmac_key_data :: "u8 list option"
  hmac_key_size :: nat

datatype ('b, 'e) hasher = Blake3Hasher nat 'b | OpensslShaHasher "'e sha_hasher"

definition new_Blake3Hasher :: "('b, 'e) hash_libs \<Rightarrow> nat \<Rightarrow> ('b, 'e) hasher" where
  "new_Blake3Hasher L output_length = Blake3Hasher output_length (blake3_hasher_init (blake3 L))"

definition new_OpensslShaHasher :: "('b, 'e) hash_libs \<Rightarrow> sha_algorithm \<Rightarrow> ('b, 'e) hasher" where
  "new_OpensslShaHasher L a = OpensslShaHasher \<lparr>algo = a,
    ctx = EVP_DigestInit_ex (openssl L) (EVP_MD_CTX_new (openssl L)) (MdFor a),
    keyed_mode = False, hmac_key_data = None, hmac_key_size = 0\<rparr>"

fun set_output_length :: "nat \<Rightarrow> ('b, 'e) hasher \<Rightarrow> ('b, 'e) hasher" where
  "set_output_length len (Blake3Hasher n b) = Blake3Hasher len b"
| "set_output_length len (OpensslShaHasher s) = OpensslShaHasher s"

fun Hasher_digest_size :: "('b, 'e) hash_libs \<Rightarrow> ('b, 'e) hasher \<Rightarrow> nat" where
  "Hasher_digest_size L (Blake3Hasher n b) = n"
| "Hasher_digest_size L (OpensslShaHasher s) = Sha_DigestSizeFor (openssl L) (algo s)"

definition Sha_Hash :: "'e openssl_lib \<Rightarrow> 'e sha_hasher \<Rightarrow> u8 list \<Rightarrow> u8 list" where
  [simp]: "Sha_Hash L s data = received (Sha_DigestSizeFor L (algo s)) (EVP_Digest L data (MdFor (algo s)))"

fun Hash :: "('b, 'e) hash_libs \<Rightarrow> ('b, 'e) hasher \<Rightarrow> u8 list \<Rightarrow> u8 list" where
  "Hash L (Blake3Hasher n b) data = digest_buffer n
    (blake3_hasher_finalize (blake3 L) (blake3_hasher_feed (blake3 L) (blake3_hasher_init (blake3 L)) data) n)"
| "Hash L (OpensslShaHasher s) data = Sha_Hash (openssl L) s data"

definition Sha_HashKeyed :: "'e openssl_lib \<Rightarrow> 'e sha_hasher \<Rightarrow> u8 list \<Rightarrow> u8 list \<Rightarrow> u8 list \<Rightarrow> bool \<times> u8 list" where
  [simp]: "Sha_HashKeyed L s key data out =
    (let out1 = resize (Sha_DigestSizeFor L (algo s)) out
     in case HMAC L (MdFor (algo s)) (Some key) (int_of_size (length key)) data of
          None \<Rightarrow> (False, out1) | Some mac \<Rightarrow> (True, resize (length mac) (written mac out1)))"

fun HashKeyed :: "('b, 'e) hash_libs \<Rightarrow> ('b, 'e) hasher \<Rightarrow> u8 list \<Rightarrow> u8 list \<Rightarrow> u8 list \<Rightarrow> bool \<times> u8 list" where
  "HashKeyed L (Blake3Hasher n b) key data out =
    (if length key \<noteq> BLAKE3_KEY_LEN (blake3 L) then (False, out)
     else (True, written (blake3_hasher_finalize (blake3 L)
       (blake3_hasher_feed (blake3 L) (blake3_hasher_init_keyed (blake3 L) key) data) n) (resize n out)))"
| "HashKeyed L (OpensslShaHasher s) key data out = Sha_HashKeyed (openssl L) s key data out"

definition Sha_Init :: "'e openssl_lib \<Rightarrow> 'e sha_hasher \<Rightarrow> 'e sha_hasher" where
  "Sha_Init L s = s\<lparr>keyed_mode := False, ctx := EVP_DigestInit_ex L (ctx s) (MdFor (algo s))\<rparr>"

text \<open>A failed \<open>malloc\<close> leaves the old key freed, its size and the mode as they were.\<close>

definition Sha_InitKeyed :: "'e openssl_lib \<Rightarrow> 'e sha_hasher \<Rightarrow> u8 list \<Rightarrow> bool \<times> 'e sha_hasher" where
  "Sha_InitKeyed L s key =
    (if \<not> malloc L (length key) then (False, s\<lparr>hmac_key_data := None\<rparr>)
     else (True, s\<lparr>hmac_key_data := Some key, hmac_key_size := length key, keyed_mode := True,
       ctx := EVP_DigestInit_ex L (ctx s) (MdFor (algo s))\<rparr>))"

definition Sha_Finalize :: "'e openssl_lib \<Rightarrow> 'e sha_hasher \<Rightarrow> u8 list \<times> 'e sha_hasher" where
  "Sha_Finalize L s =
    (let n = Sha_DigestSizeFor L (algo s); (final, ctx') = EVP_DigestFinal_ex L (ctx s); s1 = s\<lparr>ctx := ctx'\<rparr>
     in if keyed_mode s
        then (received n (HMAC L (MdFor (algo s)) (hmac_key_data s) (int_of_size (hmac_key_size s)) (received n final)),
              Sha_Init L s1)
        else (received n final, Sha_Init L s1))"

fun Hasher_Init :: "('b, 'e) hash_libs \<Rightarrow> ('b, 'e) hasher \<Rightarrow> ('b, 'e) hasher" where
  "Hasher_Init L (Blake3Hasher n b) = Blake3Hasher n (blake3_hasher_init (blake3 L))"
| "Hasher_Init L (OpensslShaHasher s) = OpensslShaHasher (Sha_Init (openssl L) s)"

fun InitKeyed :: "('b, 'e) hash_libs \<Rightarrow> ('b, 'e) hasher \<Rightarrow> u8 list \<Rightarrow> bool \<times> ('b, 'e) hasher" where
  "InitKeyed L (Blake3Hasher n b) key =
    (if length key \<noteq> BLAKE3_KEY_LEN (blake3 L) then (False, Blake3Hasher n b)
     else (True, Blake3Hasher n (blake3_hasher_init_keyed (blake3 L) key)))"
| "InitKeyed L (OpensslShaHasher s) key =
    (let (ok, s') = Sha_InitKeyed (openssl L) s key in (ok, OpensslShaHasher s'))"

fun Hasher_Update :: "('b, 'e) hash_libs \<Rightarrow> ('b, 'e) hasher \<Rightarrow> u8 list \<Rightarrow> ('b, 'e) hasher" where
  "Hasher_Update L (Blake3Hasher n b) data = Blake3Hasher n (blake3_hasher_feed (blake3 L) b data)"
| "Hasher_Update L (OpensslShaHasher s) data = OpensslShaHasher (s\<lparr>ctx := EVP_DigestUpdate (openssl L) (ctx s) data\<rparr>)"

fun Hasher_Finalize :: "('b, 'e) hash_libs \<Rightarrow> ('b, 'e) hasher \<Rightarrow> u8 list \<times> ('b, 'e) hasher" where
  "Hasher_Finalize L (Blake3Hasher n b) =
    (digest_buffer n (blake3_hasher_finalize (blake3 L) b n), Hasher_Init L (Blake3Hasher n b))"
| "Hasher_Finalize L (OpensslShaHasher s) =
    (let (digest, s') = Sha_Finalize (openssl L) s in (digest, OpensslShaHasher s'))"

definition HashHex :: "('b, 'e) hash_libs \<Rightarrow> ('b, 'e) hasher \<Rightarrow> u8 list \<Rightarrow> string" where
  "HashHex L h data = ToHex (Hash L h data)"

definition Hasher_FinalizeHex :: "('b, 'e) hash_libs \<Rightarrow> ('b, 'e) hasher \<Rightarrow> string \<times> ('b, 'e) hasher" where
  "Hasher_FinalizeHex L h = (let (digest, h') = Hasher_Finalize L h in (ToHex digest, h'))"

fun Hasher_name :: "('b, 'e) hasher \<Rightarrow> string" where
  "Hasher_name (Blake3Hasher n b) = ''BLAKE3''"
| "Hasher_name (OpensslShaHasher s) = AlgoName (algo s)"

text \<open>What the libraries document: BLAKE3 and EVP digests fed in pieces are those of the whole, an output has the length
  asked for (of the algorithm), \<open>HMAC\<close> works for every key whose size fits in an \<open>int\<close>; memory is not exhausted.\<close>

definition blake3_lawful :: "'b blake3_lib \<Rightarrow> bool" where
  "blake3_lawful L \<longleftrightarrow> (\<forall>b n. length (blake3_hasher_finalize L b n) = n) \<and>
    (\<forall>b chunks n. b = blake3_hasher_init L \<or> (\<exists>key. length key = BLAKE3_KEY_LEN L \<and> b = blake3_hasher_init_keyed L key) \<longrightarrow>
      blake3_hasher_finalize L (foldl (blake3_hasher_feed L) b chunks) n =
      blake3_hasher_finalize L (blake3_hasher_feed L b (concat chunks)) n)"

fun sha_bytes :: "evp_md \<Rightarrow> nat" where
  "sha_bytes EVP_sha256 = 32" | "sha_bytes EVP_sha384 = 48" | "sha_bytes EVP_sha512 = 64"
| "sha_bytes EVP_sha3_256 = 32" | "sha_bytes EVP_sha3_384 = 48" | "sha_bytes EVP_sha3_512 = 64"

definition openssl_lawful :: "'e openssl_lib \<Rightarrow> bool" where
  "openssl_lawful L \<longleftrightarrow> (\<forall>md. EVP_MD_size L md = sha_bytes md) \<and>
    (\<forall>xs md. \<exists>d. EVP_Digest L xs md = Some d \<and> length d = sha_bytes md) \<and>
    (\<forall>e md chunks. fst (EVP_DigestFinal_ex L (foldl (EVP_DigestUpdate L) (EVP_DigestInit_ex L e md) chunks)) =
      EVP_Digest L (concat chunks) md) \<and>
    (\<forall>md key xs. length key < 2 ^ 31 \<longrightarrow>
      (\<exists>mac. HMAC L md (Some key) (int (length key)) xs = Some mac \<and> length mac = sha_bytes md)) \<and>
    (\<forall>n. malloc L n)"

definition hash_lawful :: "('b, 'e) hash_libs \<Rightarrow> bool" where
  "hash_lawful L \<longleftrightarrow> blake3_lawful (blake3 L) \<and> openssl_lawful (openssl L)"

end
