(* ===== verification/Transform_Factory.thy ===== *)
theory Transform_Factory
  imports Transform_Digest
begin

text \<open>
  \<open>TransformerFactory\<close> (transformation/transformer_factory): objects by type or by name. What was compiled in
  (\<open>UTILS_TRANSFORMATION_HAS_...\<close>) is a parameter. \<open>nullptr\<close> is None.
\<close>

record features =
  HAS_LZ4 :: bool
  HAS_ZSTD :: bool
  HAS_SNAPPY :: bool
  HAS_XXHASH :: bool
  HAS_CRC32C :: bool
  HAS_BLAKE3 :: bool
  HAS_OPENSSL :: bool

datatype CompressorType = Compressor_kLZ4 | Compressor_kZstd | Compressor_kSnappy

datatype ChecksumType = Checksum_kXXH32 | Checksum_kXXH64 | Checksum_kXXH3_64 | Checksum_kXXH3_128 | Checksum_kCRC32C

datatype HashType = Hash_kBLAKE3 | Hash_kSHA256 | Hash_kSHA384 | Hash_kSHA512 | Hash_kSHA3_256 | Hash_kSHA3_384 | Hash_kSHA3_512

fun CreateCompressor :: "features \<Rightarrow> CompressorType \<Rightarrow> int \<Rightarrow> compressor option" where
  "CreateCompressor F Compressor_kLZ4 level = (if HAS_LZ4 F then Some (Lz4Compressor level) else None)"
| "CreateCompressor F Compressor_kZstd level =
    (if HAS_ZSTD F then Some (ZstdCompressor (if level > 0 then level else 3)) else None)"
| "CreateCompressor F Compressor_kSnappy level = (if HAS_SNAPPY F then Some SnappyCompressor else None)"

fun CreateChecksummer :: "features \<Rightarrow> 'x checksum_libs \<Rightarrow> ChecksumType \<Rightarrow> u64 \<Rightarrow> 'x checksummer option" where
  "CreateChecksummer F L Checksum_kXXH32 seed = (if HAS_XXHASH F then Some (new_XxHashChecksummer L kXXH32 seed) else None)"
| "CreateChecksummer F L Checksum_kXXH64 seed = (if HAS_XXHASH F then Some (new_XxHashChecksummer L kXXH64 seed) else None)"
| "CreateChecksummer F L Checksum_kXXH3_64 seed = (if HAS_XXHASH F then Some (new_XxHashChecksummer L kXXH3_64 seed) else None)"
| "CreateChecksummer F L Checksum_kXXH3_128 seed = (if HAS_XXHASH F then Some (new_XxHashChecksummer L kXXH3_128 seed) else None)"
| "CreateChecksummer F L Checksum_kCRC32C seed = (if HAS_CRC32C F then Some new_Crc32cChecksummer else None)"

fun CreateHasher :: "features \<Rightarrow> ('b, 'e) hash_libs \<Rightarrow> HashType \<Rightarrow> nat \<Rightarrow> ('b, 'e) hasher option" where
  "CreateHasher F L Hash_kBLAKE3 output_bytes =
    (if HAS_BLAKE3 F then Some (new_Blake3Hasher L (if output_bytes > 0 then output_bytes else 32)) else None)"
| "CreateHasher F L Hash_kSHA256 output_bytes = (if HAS_OPENSSL F then Some (new_OpensslShaHasher L kSHA256) else None)"
| "CreateHasher F L Hash_kSHA384 output_bytes = (if HAS_OPENSSL F then Some (new_OpensslShaHasher L kSHA384) else None)"
| "CreateHasher F L Hash_kSHA512 output_bytes = (if HAS_OPENSSL F then Some (new_OpensslShaHasher L kSHA512) else None)"
| "CreateHasher F L Hash_kSHA3_256 output_bytes = (if HAS_OPENSSL F then Some (new_OpensslShaHasher L kSHA3_256) else None)"
| "CreateHasher F L Hash_kSHA3_384 output_bytes = (if HAS_OPENSSL F then Some (new_OpensslShaHasher L kSHA3_384) else None)"
| "CreateHasher F L Hash_kSHA3_512 output_bytes = (if HAS_OPENSSL F then Some (new_OpensslShaHasher L kSHA3_512) else None)"

definition AvailableCompressors :: "features \<Rightarrow> CompressorType list" where
  "AvailableCompressors F = (if HAS_LZ4 F then [Compressor_kLZ4] else []) @ (if HAS_ZSTD F then [Compressor_kZstd] else []) @
    (if HAS_SNAPPY F then [Compressor_kSnappy] else [])"

definition AvailableChecksummers :: "features \<Rightarrow> ChecksumType list" where
  "AvailableChecksummers F =
    (if HAS_XXHASH F then [Checksum_kXXH32, Checksum_kXXH64, Checksum_kXXH3_64, Checksum_kXXH3_128] else []) @
    (if HAS_CRC32C F then [Checksum_kCRC32C] else [])"

definition AvailableHashers :: "features \<Rightarrow> HashType list" where
  "AvailableHashers F = (if HAS_BLAKE3 F then [Hash_kBLAKE3] else []) @
    (if HAS_OPENSSL F then [Hash_kSHA256, Hash_kSHA384, Hash_kSHA512, Hash_kSHA3_256, Hash_kSHA3_384, Hash_kSHA3_512] else [])"

text \<open>\<open>tolower\<close> in the C locale.\<close>

definition tolower :: "char \<Rightarrow> char" where
  "tolower c = (let n = of_char c :: nat in if 65 \<le> n \<and> n \<le> 90 then char_of (n + 32) else c)"

definition ToLower :: "string \<Rightarrow> string" where
  "ToLower s = map tolower s"

definition CompressorByName :: "features \<Rightarrow> string \<Rightarrow> int \<Rightarrow> compressor option" where
  "CompressorByName F name level = (let n = ToLower name in
    if n = ''lz4'' then CreateCompressor F Compressor_kLZ4 level
    else if n = ''zstd'' then CreateCompressor F Compressor_kZstd level
    else if n = ''snappy'' then CreateCompressor F Compressor_kSnappy level
    else None)"

definition ChecksummerByName :: "features \<Rightarrow> 'x checksum_libs \<Rightarrow> string \<Rightarrow> u64 \<Rightarrow> 'x checksummer option" where
  "ChecksummerByName F L name seed = (let n = ToLower name in
    if n = ''xxh32'' \<or> n = ''xxhash32'' then CreateChecksummer F L Checksum_kXXH32 seed
    else if n = ''xxh64'' \<or> n = ''xxhash64'' then CreateChecksummer F L Checksum_kXXH64 seed
    else if n = ''xxh3-64'' \<or> n = ''xxhash3-64'' then CreateChecksummer F L Checksum_kXXH3_64 seed
    else if n = ''xxh3-128'' \<or> n = ''xxhash3-128'' \<or> n = ''xxh3_128'' then CreateChecksummer F L Checksum_kXXH3_128 seed
    else if n = ''crc32c'' \<or> n = ''crc32-c'' then CreateChecksummer F L Checksum_kCRC32C seed
    else None)"

definition HasherByName :: "features \<Rightarrow> ('b, 'e) hash_libs \<Rightarrow> string \<Rightarrow> nat \<Rightarrow> ('b, 'e) hasher option" where
  "HasherByName F L name output_bytes = (let n = ToLower name in
    if n = ''blake3'' then CreateHasher F L Hash_kBLAKE3 output_bytes
    else if n = ''sha-256'' \<or> n = ''sha256'' then CreateHasher F L Hash_kSHA256 output_bytes
    else if n = ''sha-384'' \<or> n = ''sha384'' then CreateHasher F L Hash_kSHA384 output_bytes
    else if n = ''sha-512'' \<or> n = ''sha512'' then CreateHasher F L Hash_kSHA512 output_bytes
    else if n = ''sha3-256'' \<or> n = ''sha-3-256'' then CreateHasher F L Hash_kSHA3_256 output_bytes
    else if n = ''sha3-384'' \<or> n = ''sha-3-384'' then CreateHasher F L Hash_kSHA3_384 output_bytes
    else if n = ''sha3-512'' \<or> n = ''sha-3-512'' then CreateHasher F L Hash_kSHA3_512 output_bytes
    else None)"

lemma CreateHasher_cases:
  assumes "CreateHasher F L ty n = Some h"
  obtains "ty = Hash_kBLAKE3" "h = new_Blake3Hasher L (if n > 0 then n else 32)"
    | a where "ty \<noteq> Hash_kBLAKE3" "h = new_OpensslShaHasher L a"
  using assms by (cases ty) (auto split: if_splits)

lemma CreateChecksummer_cases:
  assumes "CreateChecksummer F L ty seed = Some c"
  obtains "c = new_Crc32cChecksummer" | v where "c = new_XxHashChecksummer L v seed"
  using assms by (cases ty) (auto split: if_splits)

end
