(* ===== verification/Stream_Contract.thy ===== *)
theory Stream_Contract
  imports Yacul_Prelude
begin

text \<open>
  The interface that checksums and hashes share: an object is restarted, fed in pieces and asked for its digest, which
  restarts it. A restart may be refused and then changes nothing. The contract says that the object does what an
  accumulator of bytes with a one-shot function at its end would do; a mode stands for what a restart chooses (the key).
\<close>

datatype 'op stream_call = Restart 'op | Feed "u8 list" | Finish

datatype stream_result = Accepted bool | Digest "u8 list"

fun stream_run :: "('op \<Rightarrow> 's \<Rightarrow> bool \<times> 's) \<Rightarrow> ('s \<Rightarrow> u8 list \<Rightarrow> 's) \<Rightarrow> ('s \<Rightarrow> u8 list \<times> 's) \<Rightarrow>
    'op stream_call list \<Rightarrow> 's \<Rightarrow> stream_result list" where
  "stream_run restart feed finish [] s = []"
| "stream_run restart feed finish (Restart op # cs) s =
    (let (ok, s') = restart op s in Accepted ok # stream_run restart feed finish cs s')"
| "stream_run restart feed finish (Feed xs # cs) s = stream_run restart feed finish cs (feed s xs)"
| "stream_run restart feed finish (Finish # cs) s =
    (let (d, s') = finish s in Digest d # stream_run restart feed finish cs s')"

text \<open>The accumulator: the mode that a restart leads to (None: refused), the one-shot function, the mode after a digest.\<close>

fun stream_spec :: "('op \<Rightarrow> 'm \<Rightarrow> 'm option) \<Rightarrow> ('m \<Rightarrow> u8 list \<Rightarrow> u8 list) \<Rightarrow> ('m \<Rightarrow> 'm) \<Rightarrow>
    'op stream_call list \<Rightarrow> 'm \<Rightarrow> u8 list \<Rightarrow> stream_result list" where
  "stream_spec mode_after oneshot again [] m acc = []"
| "stream_spec mode_after oneshot again (Restart op # cs) m acc =
    (case mode_after op m of None \<Rightarrow> Accepted False # stream_spec mode_after oneshot again cs m acc
     | Some m' \<Rightarrow> Accepted True # stream_spec mode_after oneshot again cs m' [])"
| "stream_spec mode_after oneshot again (Feed xs # cs) m acc = stream_spec mode_after oneshot again cs m (acc @ xs)"
| "stream_spec mode_after oneshot again (Finish # cs) m acc =
    Digest (oneshot m acc) # stream_spec mode_after oneshot again cs (again m) []"

text \<open>A library state that is reached from a start by feeding it the bytes in some pieces.\<close>

definition fed_with :: "('x \<Rightarrow> u8 list \<Rightarrow> 'x) \<Rightarrow> 'x \<Rightarrow> u8 list \<Rightarrow> 'x \<Rightarrow> bool" where
  "fed_with feed x0 xs x \<longleftrightarrow> (\<exists>chunks. concat chunks = xs \<and> x = foldl feed x0 chunks)"

lemma fed_with_start [simp]: "fed_with feed x0 [] x0"
  unfolding fed_with_def by (rule exI [of _ "[]"]) simp

lemma fed_with_feed: "fed_with feed x0 xs x \<Longrightarrow> fed_with feed x0 (xs @ ys) (feed x ys)"
  unfolding fed_with_def
proof (elim exE conjE)
  fix chunks
  assume "concat chunks = xs" "x = foldl feed x0 chunks"
  then show "\<exists>cs. concat cs = xs @ ys \<and> feed x ys = foldl feed x0 cs"
    by (intro exI [of _ "chunks @ [ys]"]) simp
qed

lemma fed_with_chunks: "fed_with feed x0 xs x \<Longrightarrow> (\<And>chunks. f (foldl feed x0 chunks) = g (concat chunks)) \<Longrightarrow> f x = g xs"
  by (auto simp: fed_with_def)

text \<open>\<open>lawful\<close> tells which libraries keep their documentation; \<open>fed L m xs s\<close>: in mode \<open>m\<close>, \<open>s\<close> has received \<open>xs\<close>.\<close>

locale incremental =
  fixes lawful :: "'lib \<Rightarrow> bool"
    and fed :: "'lib \<Rightarrow> 'm \<Rightarrow> u8 list \<Rightarrow> 's \<Rightarrow> bool"
    and mode_after :: "'lib \<Rightarrow> 'op \<Rightarrow> 'm \<Rightarrow> 'm option"
    and oneshot :: "'lib \<Rightarrow> 'm \<Rightarrow> u8 list \<Rightarrow> u8 list"
    and again :: "'lib \<Rightarrow> 'm \<Rightarrow> 'm"
    and restart :: "'lib \<Rightarrow> 'op \<Rightarrow> 's \<Rightarrow> bool \<times> 's"
    and feed :: "'lib \<Rightarrow> 's \<Rightarrow> u8 list \<Rightarrow> 's"
    and finish :: "'lib \<Rightarrow> 's \<Rightarrow> u8 list \<times> 's"
  assumes restarted: "lawful L \<Longrightarrow> fed L m xs s \<Longrightarrow> mode_after L op m = Some m' \<Longrightarrow>
      \<exists>s'. restart L op s = (True, s') \<and> fed L m' [] s'"
    and refused: "lawful L \<Longrightarrow> fed L m xs s \<Longrightarrow> mode_after L op m = None \<Longrightarrow> restart L op s = (False, s)"
    and fed_more: "lawful L \<Longrightarrow> fed L m xs s \<Longrightarrow> fed L m (xs @ ys) (feed L s ys)"
    and finished: "lawful L \<Longrightarrow> fed L m xs s \<Longrightarrow>
      \<exists>s'. finish L s = (oneshot L m xs, s') \<and> fed L (again L m) [] s'"
begin

lemma implements: "lawful L \<Longrightarrow> fed L m xs s \<Longrightarrow>
    stream_run (restart L) (feed L) (finish L) cs s = stream_spec (mode_after L) (oneshot L) (again L) cs m xs"
proof (induction cs arbitrary: m xs s)
  case Nil
  show ?case by simp
next
  case (Cons c cs)
  show ?case
  proof (cases c)
    case (Restart op)
    show ?thesis
    proof (cases "mode_after L op m")
      case None
      with refused [OF Cons.prems] Cons.IH [OF Cons.prems] Restart show ?thesis by simp
    next
      case (Some m')
      obtain s' where "restart L op s = (True, s')" "fed L m' [] s'"
        using restarted [OF Cons.prems Some] by blast
      with Cons.IH [OF Cons.prems(1)] Restart Some show ?thesis by simp
    qed
  next
    case (Feed ys)
    with Cons.IH [OF Cons.prems(1) fed_more [OF Cons.prems]] show ?thesis by simp
  next
    case Finish
    obtain s' where "finish L s = (oneshot L m xs, s')" "fed L (again L m) [] s'"
      using finished [OF Cons.prems] by blast
    with Cons.IH [OF Cons.prems(1)] Finish show ?thesis by simp
  qed
qed

lemma chunked: "lawful L \<Longrightarrow> fed L m xs s \<Longrightarrow>
    stream_run (restart L) (feed L) (finish L) (map Feed chunks @ [Finish]) s = [Digest (oneshot L m (xs @ concat chunks))]"
proof (induction chunks arbitrary: xs s)
  case Nil
  from finished [OF Nil] show ?case by auto
next
  case (Cons c chunks)
  from Cons.IH [OF Cons.prems(1) fed_more [OF Cons.prems]] show ?case by simp
qed

end

text \<open>Digests of one size: \<open>proper\<close> are the restarts whose modes have it.\<close>

locale sized_incremental = incremental +
  fixes sized :: "'a \<Rightarrow> 'b \<Rightarrow> nat \<Rightarrow> bool"
    and proper :: "'d \<Rightarrow> bool"
  assumes sized_restart: "sized L m n \<Longrightarrow> proper op \<Longrightarrow> mode_after L op m = Some m' \<Longrightarrow> sized L m' n"
    and sized_again: "sized L m n \<Longrightarrow> sized L (again L m) n"
    and sized_oneshot: "lawful L \<Longrightarrow> sized L m n \<Longrightarrow> length (oneshot L m xs) = n"
begin

lemma spec_sized: "lawful L \<Longrightarrow> sized L m n \<Longrightarrow> (\<And>op. Restart op \<in> set cs \<Longrightarrow> proper op) \<Longrightarrow>
    Digest d \<in> set (stream_spec (mode_after L) (oneshot L) (again L) cs m xs) \<Longrightarrow> length d = n"
proof (induction cs arbitrary: m xs)
  case Nil
  then show ?case by simp
next
  case (Cons c cs)
  show ?case
  proof (cases c)
    case (Restart op)
    with Cons show ?thesis by (auto split: option.splits dest: sized_restart)
  next
    case (Feed ys)
    with Cons show ?thesis by auto
  next
    case Finish
    with Cons show ?thesis by (auto simp: sized_oneshot dest: sized_again)
  qed
qed

lemma results_sized: "lawful L \<Longrightarrow> fed L m xs s \<Longrightarrow> sized L m n \<Longrightarrow> (\<And>op. Restart op \<in> set cs \<Longrightarrow> proper op) \<Longrightarrow>
    Digest d \<in> set (stream_run (restart L) (feed L) (finish L) cs s) \<Longrightarrow> length d = n"
  using implements spec_sized by metis

end

end
