(* ===== verification/Transform_Props.thy ===== *)
theory Transform_Props
  imports Transform_Factory Stream_Contract
begin

text \<open>
  Data transformation: compressors give back what they were given, streaming digests are one-shot digests of what was
  fed, digests have the announced size, the factory creates what it lists. The contracts \<open>codec\<close> and \<open>incremental\<close> are
  interpreted on the virtual functions of all adapters; libraries that keep their documentation are a hypothesis of each
  property, which the witnesses discharge for concrete libraries.
\<close>

section \<open>Compressors\<close>

text \<open>What a caller of \<open>ICompressor\<close> relies on. \<open>usable\<close> bounds the inputs of a compressor.\<close>

locale codec =
  fixes lawful :: "'lib \<Rightarrow> bool"
    and usable :: "'c \<Rightarrow> u8 list \<Rightarrow> bool"
    and compress :: "'lib \<Rightarrow> 'c \<Rightarrow> u8 list \<Rightarrow> u8 list \<Rightarrow> bool \<times> u8 list"
    and decompress :: "'lib \<Rightarrow> 'c \<Rightarrow> u8 list \<Rightarrow> u8 list \<Rightarrow> nat \<Rightarrow> bool \<times> u8 list"
  assumes packs: "lawful L \<Longrightarrow> usable c xs \<Longrightarrow> \<exists>packed. (\<forall>dst. compress L c xs dst = (True, packed)) \<and>
      (\<forall>dst n. length xs \<le> n \<longrightarrow> 0 < n \<or> xs = [] \<longrightarrow> decompress L c packed dst n = (True, xs))"
begin

lemma unpacks: "lawful L \<Longrightarrow> usable c xs \<Longrightarrow> compress L c xs dst = (ok, packed) \<Longrightarrow> length xs \<le> n \<Longrightarrow> 0 < n \<or> xs = [] \<Longrightarrow>
    ok \<and> decompress L c packed dst' n = (True, xs)"
  using packs [of L c xs] by fastforce

lemma lossless: "lawful L \<Longrightarrow> usable c xs \<Longrightarrow> usable c ys \<Longrightarrow> compress L c xs dst = (True, packed) \<Longrightarrow>
    compress L c ys dst' = (True, packed) \<Longrightarrow> xs = ys"
  using unpacks [of L c xs dst True packed "length xs + length ys + 1"]
    unpacks [of L c ys dst' True packed "length xs + length ys + 1"] by simp

end

lemma Lz4_packs:
  assumes "lz4_lawful L"
  shows "\<exists>packed. (\<forall>dst. Lz4_Compress L level xs dst = (True, packed)) \<and>
    (\<forall>dst n. Lz4_Decompress L packed dst n = (True, take (Lz4_capacity packed n) xs))"
proof -
  let ?p = "\<lparr>contentSize = length xs, compressionLevel = level\<rparr>"
  obtain out where out: "LZ4F_compressFrame L ?p (LZ4F_compressFrameBound L ?p (length xs)) xs = Some out"
    "\<forall>n. \<exists>hint. LZ4F_decompress L n out = Some (take n xs, hint) \<and> (n < length xs \<longrightarrow> 0 < hint)"
    using assms unfolding lz4_lawful_def by (meson lz4_prefs.select_convs(1))
  have "Lz4_Decompress L out dst n = (True, take (Lz4_capacity out n) xs)" for dst n
  proof -
    obtain hint where "LZ4F_decompress L (Lz4_capacity out n) out = Some (take (Lz4_capacity out n) xs, hint)"
      using out(2) by blast
    with assms show ?thesis by (simp add: Lz4_Decompress_def lz4_lawful_def Let_def del: length_take)
  qed
  with out(1) show ?thesis by (intro exI [of _ out]) (simp add: Lz4_Compress_def Let_def)
qed

lemma Zstd_packs:
  assumes "zstd_lawful L" "length xs < 2 ^ 63"
  shows "\<exists>packed. (\<forall>dst. Zstd_Compress L level xs dst = (True, packed)) \<and>
    (\<forall>dst n. Zstd_Decompress L packed dst n = (True, xs))"
proof -
  obtain out where out: "ZSTD_compressCCtx L level (ZSTD_compressBound L (length xs)) xs = Some out"
    "ZSTD_getFrameContentSize L out = length xs"
    "ZSTD_decompressDCtx L (length xs) out = Some xs"
    using assms unfolding zstd_lawful_def by (metis less_irrefl)
  have "Zstd_capacity L out n = length xs" for n
    using out(2) assms(2) by (simp add: Zstd_capacity_def ZSTD_CONTENTSIZE_UNKNOWN_def ZSTD_CONTENTSIZE_ERROR_def)
  with out show ?thesis
    by (intro exI [of _ out]) (simp add: Zstd_Compress_def Zstd_Decompress_def Let_def)
qed

lemma Snappy_packs:
  assumes "snappy_lawful L" "length xs < 2 ^ 32"
  shows "\<exists>packed. (\<forall>dst. Snappy_Compress L xs dst = (True, packed)) \<and> (\<forall>dst. Snappy_Decompress L packed dst = (True, xs))"
  using assms by (intro exI [of _ "RawCompress L xs"])
    (simp add: Snappy_Compress_def Snappy_Decompress_def snappy_lawful_def Let_def written_all)

text \<open>The inputs that the format of a compressor can hold: a Snappy stream has its length in 32 bits.\<close>

fun fits_format :: "compressor \<Rightarrow> u8 list \<Rightarrow> bool" where
  "fits_format SnappyCompressor xs \<longleftrightarrow> length xs < 2 ^ 32"
| "fits_format c xs \<longleftrightarrow> length xs < 2 ^ 63"

interpretation compressors: codec compression_lawful fits_format Compress Decompress
proof
  fix L c xs
  assume L: "compression_lawful L" and xs: "fits_format c xs"
  show "\<exists>packed. (\<forall>dst. Compress L c xs dst = (True, packed)) \<and>
      (\<forall>dst n. length xs \<le> n \<longrightarrow> 0 < n \<or> xs = [] \<longrightarrow> Decompress L c packed dst n = (True, xs))"
  proof (cases c)
    case (Lz4Compressor level)
    obtain packed where "\<forall>dst. Lz4_Compress (lz4 L) level xs dst = (True, packed)"
      "\<forall>dst n. Lz4_Decompress (lz4 L) packed dst n = (True, take (Lz4_capacity packed n) xs)"
      using Lz4_packs [of "lz4 L" level xs] L by (auto simp: compression_lawful_def)
    with Lz4Compressor show ?thesis by (intro exI [of _ packed]) (auto simp: Lz4_capacity_def)
  next
    case (ZstdCompressor level)
    with Zstd_packs [of "zstd L" xs level] L xs show ?thesis by (auto simp: compression_lawful_def)
  next
    case SnappyCompressor
    with Snappy_packs [of "snappy L" xs] L xs show ?thesis by (auto simp: compression_lawful_def)
  qed
qed

section \<open>Checksums\<close>

fun fed_checksum :: "'x checksum_libs \<Rightarrow> 'x checksummer \<Rightarrow> u8 list \<Rightarrow> 'x checksummer \<Rightarrow> bool" where
  "fed_checksum L (Crc32cChecksummer s0) xs (Crc32cChecksummer s) \<longleftrightarrow> s = Extend (crc32c L) 0 xs"
| "fed_checksum L (XxHashChecksummer v0 seed0 x0) xs (XxHashChecksummer v seed x) \<longleftrightarrow> v = v0 \<and> seed = seed0 \<and>
    fed_with (XxHash_Update (xxhash L) v) (XxHash_Reset (xxhash L) v seed) xs x"
| "fed_checksum L c0 xs c \<longleftrightarrow> False"

lemma XxHash_digest_reached:
  assumes "xxh_lawful L" "fed_with (XxHash_Update L v) (XxHash_Reset L v seed) xs x"
  shows "XxHash_digest L v x = XxHash_Compute L v seed xs"
proof (rule fed_with_chunks [OF assms(2)])
  fix chunks
  have upd: "XxHash_Update L kXXH32 = XXH32_update L" "XxHash_Update L kXXH64 = XXH64_update L"
    "XxHash_Update L kXXH3_64 = XXH3_64bits_update L" "XxHash_Update L kXXH3_128 = XXH3_128bits_update L"
    by (simp_all add: fun_eq_iff)
  show "XxHash_digest L v (foldl (XxHash_Update L v) (XxHash_Reset L v seed) chunks) = XxHash_Compute L v seed (concat chunks)"
    using assms(1) by (cases v) (simp_all add: xxh_lawful_def upd)
qed

lemma Checksummer_finished:
  assumes "checksum_lawful L" "fed_checksum L c0 xs c"
  shows "Checksummer_Finalize L c = (Compute L c0 xs, Checksummer_Reset L c)"
  using assms
  by (cases c0; cases c) (auto simp: checksum_lawful_def crc32c_lawful_def intro: XxHash_digest_reached)

lemma fed_checksum_Reset: "fed_checksum L c0 xs c \<Longrightarrow> checksum_lawful L \<Longrightarrow> fed_checksum L c0 [] (Checksummer_Reset L c)"
  by (cases c0; cases c) (auto simp: checksum_lawful_def crc32c_lawful_def)

lemma fed_checksum_Update: "checksum_lawful L \<Longrightarrow> fed_checksum L c0 xs c \<Longrightarrow> fed_checksum L c0 (xs @ ys) (Checksummer_Update L c ys)"
  by (cases c0; cases c) (auto simp: checksum_lawful_def crc32c_lawful_def intro: fed_with_feed)

lemma length_digest_buffer [simp]: "length bytes = n \<Longrightarrow> digest_buffer n bytes = bytes"
  by (simp add: digest_buffer_def written_def)

lemma length_le_bytes_128 [simp]: "length (le_bytes_128 h) = 16"
  by (cases h) simp

lemma length_XxHash_Compute: "length (XxHash_Compute L v seed xs) = XxHash_DigestSizeFor v"
  by (cases v) simp_all

lemma length_Compute: "length (Compute L c xs) = Checksummer_digest_size c"
  by (cases c) (simp_all add: length_XxHash_Compute)

interpretation checksums: sized_incremental checksum_lawful fed_checksum "\<lambda>L (op :: unit) c. Some c" Compute "\<lambda>L c. c"
    "\<lambda>L op c. (True, Checksummer_Reset L c)" Checksummer_Update Checksummer_Finalize
    "\<lambda>L c n. n = Checksummer_digest_size c" "\<lambda>op. True"
  by unfold_locales (auto simp: Checksummer_finished length_Compute intro: fed_checksum_Reset fed_checksum_Update)

lemma fed_new_checksummer: "checksum_lawful L \<Longrightarrow> CreateChecksummer F L ty seed = Some c \<Longrightarrow> fed_checksum L c [] c"
  by (erule CreateChecksummer_cases)
    (simp_all add: new_Crc32cChecksummer_def new_XxHashChecksummer_def checksum_lawful_def crc32c_lawful_def)

section \<open>Hashes\<close>

text \<open>\<open>Init\<close> is a restart without key. A mode is an object (for its parameters) and the key.\<close>

fun Hasher_restart :: "('b, 'e) hash_libs \<Rightarrow> u8 list option \<Rightarrow> ('b, 'e) hasher \<Rightarrow> bool \<times> ('b, 'e) hasher" where
  "Hasher_restart L None h = (True, Hasher_Init L h)"
| "Hasher_restart L (Some key) h = InitKeyed L h key"

fun key_accepted :: "('b, 'e) hash_libs \<Rightarrow> u8 list option \<Rightarrow> ('b, 'e) hasher \<times> u8 list option \<Rightarrow> (('b, 'e) hasher \<times> u8 list option) option" where
  "key_accepted L (Some key) (Blake3Hasher n b, k) =
    (if length key = BLAKE3_KEY_LEN (blake3 L) then Some (Blake3Hasher n b, Some key) else None)"
| "key_accepted L op (h, k) = Some (h, op)"

text \<open>The digest of a stream: the one-shot hash without a key; with a key, BLAKE3 gives the keyed hash of the data,
  the SHA adapter the HMAC of the hash of the data (none, when \<open>HMAC\<close> refuses the key).\<close>

fun Hasher_oneshot :: "('b, 'e) hash_libs \<Rightarrow> ('b, 'e) hasher \<times> u8 list option \<Rightarrow> u8 list \<Rightarrow> u8 list" where
  "Hasher_oneshot L (h, None) xs = Hash L h xs"
| "Hasher_oneshot L (Blake3Hasher n b, Some key) xs = snd (HashKeyed L (Blake3Hasher n b) key xs [])"
| "Hasher_oneshot L (OpensslShaHasher s, Some key) xs =
    (let (ok, mac) = HashKeyed L (OpensslShaHasher s) key (Hash L (OpensslShaHasher s) xs) [] in if ok then mac else [])"

definition unkeyed :: "('b, 'e) hasher \<times> u8 list option \<Rightarrow> ('b, 'e) hasher \<times> u8 list option" where
  "unkeyed m = (fst m, None)"

fun fed_hash :: "('b, 'e) hash_libs \<Rightarrow> ('b, 'e) hasher \<times> u8 list option \<Rightarrow> u8 list \<Rightarrow> ('b, 'e) hasher \<Rightarrow> bool" where
  "fed_hash L (Blake3Hasher n0 b0, k) xs (Blake3Hasher n b) \<longleftrightarrow> n = n0 \<and>
    (case k of None \<Rightarrow> fed_with (blake3_hasher_feed (blake3 L)) (blake3_hasher_init (blake3 L)) xs b
     | Some key \<Rightarrow> length key = BLAKE3_KEY_LEN (blake3 L) \<and>
         fed_with (blake3_hasher_feed (blake3 L)) (blake3_hasher_init_keyed (blake3 L) key) xs b)"
| "fed_hash L (OpensslShaHasher s0, k) xs (OpensslShaHasher s) \<longleftrightarrow> algo s = algo s0 \<and> keyed_mode s = (k \<noteq> None) \<and>
    (\<forall>key. k = Some key \<longrightarrow> hmac_key_data s = Some key \<and> hmac_key_size s = length key) \<and>
    (\<exists>e. fed_with (EVP_DigestUpdate (openssl L)) (EVP_DigestInit_ex (openssl L) e (MdFor (algo s))) xs (ctx s))"
| "fed_hash L m xs h \<longleftrightarrow> False"

lemma fed_hash_elim:
  assumes "fed_hash L m xs h"
  obtains n b0 k b where "m = (Blake3Hasher n b0, k)" "h = Blake3Hasher n b"
      "case k of None \<Rightarrow> fed_with (blake3_hasher_feed (blake3 L)) (blake3_hasher_init (blake3 L)) xs b
       | Some key \<Rightarrow> length key = BLAKE3_KEY_LEN (blake3 L) \<and>
         fed_with (blake3_hasher_feed (blake3 L)) (blake3_hasher_init_keyed (blake3 L) key) xs b"
    | s0 k s e where "m = (OpensslShaHasher s0, k)" "h = OpensslShaHasher s" "algo s = algo s0" "keyed_mode s = (k \<noteq> None)"
      "\<forall>key. k = Some key \<longrightarrow> hmac_key_data s = Some key \<and> hmac_key_size s = length key"
      "fed_with (EVP_DigestUpdate (openssl L)) (EVP_DigestInit_ex (openssl L) e (MdFor (algo s))) xs (ctx s)"
  using assms by (cases "(L, m, xs, h)" rule: fed_hash.cases) auto

lemma sha_started: "\<exists>e. fed_with f (EVP_DigestInit_ex O' e md) [] (EVP_DigestInit_ex O' c md)"
  by (rule exI [of _ c]) simp

lemma fed_hash_Init: "fed_hash L m xs h \<Longrightarrow> fed_hash L (unkeyed m) [] (Hasher_Init L h)"
  by (erule fed_hash_elim) (auto simp: Sha_Init_def unkeyed_def intro: sha_started)

lemma fed_hash_restart:
  assumes "hash_lawful L" "fed_hash L m xs h" "key_accepted L op m = Some m'"
  shows "\<exists>h'. Hasher_restart L op h = (True, h') \<and> fed_hash L m' [] h'"
proof (cases op)
  case None
  with assms(3) have "m' = unkeyed m" by (cases m) (simp add: unkeyed_def)
  with None fed_hash_Init [OF assms(2)] show ?thesis by simp
next
  case (Some key)
  have "malloc (openssl L) n" for n using assms(1) by (simp add: hash_lawful_def openssl_lawful_def)
  with assms(2,3) Some show ?thesis
    by (elim fed_hash_elim) (auto simp: Sha_InitKeyed_def split: if_splits intro: sha_started)
qed

lemma fed_hash_refused: "fed_hash L m xs h \<Longrightarrow> key_accepted L op m = None \<Longrightarrow> Hasher_restart L op h = (False, h)"
  by (erule fed_hash_elim; cases op) (auto split: if_splits)

lemma fed_hash_Update: "fed_hash L m xs h \<Longrightarrow> fed_hash L m (xs @ ys) (Hasher_Update L h ys)"
  by (erule fed_hash_elim) (auto dest: fed_with_feed split: option.splits)

lemma blake3_reached:
  assumes "blake3_lawful B" "b0 = blake3_hasher_init B \<or> (\<exists>key. length key = BLAKE3_KEY_LEN B \<and> b0 = blake3_hasher_init_keyed B key)"
    and "fed_with (blake3_hasher_feed B) b0 xs b"
  shows "blake3_hasher_finalize B b n = blake3_hasher_finalize B (blake3_hasher_feed B b0 xs) n"
  by (rule fed_with_chunks [OF assms(3), where f = "\<lambda>b. blake3_hasher_finalize B b n"])
    (use assms(1,2) in \<open>unfold blake3_lawful_def, blast\<close>)

lemma sha_reached:
  assumes "openssl_lawful O'" "fed_with (EVP_DigestUpdate O') (EVP_DigestInit_ex O' e md) xs c"
  shows "fst (EVP_DigestFinal_ex O' c) = EVP_Digest O' xs md"
  by (rule fed_with_chunks [OF assms(2), where f = "\<lambda>c. fst (EVP_DigestFinal_ex O' c)"])
    (use assms(1) in \<open>simp add: openssl_lawful_def\<close>)

text \<open>What a digest is after \<open>xs\<close>.\<close>

lemma Hasher_finished:
  assumes "hash_lawful L" "fed_hash L m xs h"
  shows "\<exists>h'. Hasher_Finalize L h = (Hasher_oneshot L m xs, h') \<and> fed_hash L (unkeyed m) [] h'"
  using assms(2)
proof (cases rule: fed_hash_elim)
  case (1 n b0 k b)
  have B: "blake3_lawful (blake3 L)" using assms(1) by (simp add: hash_lawful_def)
  then have len: "length (blake3_hasher_finalize (blake3 L) b' n) = n" for b' by (simp add: blake3_lawful_def)
  have "digest_buffer n (blake3_hasher_finalize (blake3 L) b n) = Hasher_oneshot L m xs"
  proof (cases k)
    case None
    with 1 show ?thesis by (simp add: len) (blast intro: blake3_reached [OF B])
  next
    case (Some key)
    with 1 show ?thesis by (simp add: len written_all) (blast intro: blake3_reached [OF B])
  qed
  with 1 show ?thesis by (simp add: unkeyed_def)
next
  case (2 s0 k s e)
  have S: "openssl_lawful (openssl L)" using assms(1) by (simp add: hash_lawful_def)
  obtain final ctx' where fin: "EVP_DigestFinal_ex (openssl L) (ctx s) = (final, ctx')"
    by (cases "EVP_DigestFinal_ex (openssl L) (ctx s)")
  with sha_reached [OF S 2(6)] have final: "final = EVP_Digest (openssl L) xs (MdFor (algo s0))"
    using 2(3) by simp
  have "fst (Sha_Finalize (openssl L) s) = Hasher_oneshot L m xs"
    using 2 fin final by (cases k) (simp_all add: Sha_Finalize_def Let_def split: option.split)
  moreover have "fed_hash L (unkeyed m) [] (OpensslShaHasher (snd (Sha_Finalize (openssl L) s)))"
    using 2 fin by (auto simp: Sha_Finalize_def Sha_Init_def unkeyed_def Let_def intro: sha_started)
  ultimately show ?thesis using 2(2) by (cases "Sha_Finalize (openssl L) s") simp
qed

text \<open>The adapters of hashes keep the contract; digests of \<open>n\<close> bytes need keys that \<open>HMAC\<close> accepts.\<close>

definition short_key :: "u8 list option \<Rightarrow> bool" where
  "short_key op \<longleftrightarrow> (\<forall>key. op = Some key \<longrightarrow> length key < 2 ^ 31)"

definition sized_hash :: "('b, 'e) hash_libs \<Rightarrow> ('b, 'e) hasher \<times> u8 list option \<Rightarrow> nat \<Rightarrow> bool" where
  "sized_hash L m n \<longleftrightarrow> n = Hasher_digest_size L (fst m) \<and> short_key (snd m) \<and>
    (\<forall>b key. m = (Blake3Hasher n b, Some key) \<longrightarrow> length key = BLAKE3_KEY_LEN (blake3 L))"

lemma int_of_size_small: "n < 2 ^ 31 \<Longrightarrow> int_of_size n = int n"
  by (simp add: int_of_size_def signed_of_nat) (simp add: signed_take_bit_int_eq_self)

lemma length_Hash: "hash_lawful L \<Longrightarrow> length (Hash L h xs) = Hasher_digest_size L h"
proof (cases h)
  case (OpensslShaHasher s)
  assume "hash_lawful L"
  then obtain d where "EVP_Digest (openssl L) xs (MdFor (algo s)) = Some d" "length d = sha_bytes (MdFor (algo s))"
    unfolding hash_lawful_def openssl_lawful_def by blast
  with OpensslShaHasher \<open>hash_lawful L\<close> show ?thesis
    by (simp add: Sha_DigestSizeFor_def hash_lawful_def openssl_lawful_def)
qed (simp add: hash_lawful_def blake3_lawful_def)

lemma length_Hasher_oneshot: "hash_lawful L \<Longrightarrow> sized_hash L m n \<Longrightarrow> length (Hasher_oneshot L m xs) = n"
proof (cases "(L, m, xs)" rule: Hasher_oneshot.cases)
  case (1 L' h xs')
  then show "hash_lawful L \<Longrightarrow> sized_hash L m n \<Longrightarrow> length (Hasher_oneshot L m xs) = n"
    by (simp add: length_Hash sized_hash_def)
next
  case (2 L' n' b key xs')
  then show "hash_lawful L \<Longrightarrow> sized_hash L m n \<Longrightarrow> length (Hasher_oneshot L m xs) = n"
    by (simp add: sized_hash_def hash_lawful_def blake3_lawful_def written_all)
next
  case (3 L' s key xs')
  assume L: "hash_lawful L" and m: "sized_hash L m n"
  let ?d = "Hash L (OpensslShaHasher s) xs"
  have "length key < 2 ^ 31" "n = sha_bytes (MdFor (algo s))"
    using 3 m L by (simp_all add: sized_hash_def short_key_def Sha_DigestSizeFor_def hash_lawful_def openssl_lawful_def)
  moreover obtain mac where "HMAC (openssl L) (MdFor (algo s)) (Some key) (int (length key)) ?d = Some mac"
      "length mac = sha_bytes (MdFor (algo s))"
    using L \<open>length key < 2 ^ 31\<close> unfolding hash_lawful_def openssl_lawful_def by blast
  ultimately show ?thesis using 3 by (simp add: int_of_size_small)
qed

interpretation hashes: sized_incremental hash_lawful fed_hash key_accepted Hasher_oneshot "\<lambda>L. unkeyed"
    Hasher_restart Hasher_Update Hasher_Finalize sized_hash short_key
proof (unfold_locales, goal_cases)
  case 1
  then show ?case by (rule fed_hash_restart)
next
  case 2
  then show ?case by (intro fed_hash_refused)
next
  case 3
  then show ?case by (intro fed_hash_Update)
next
  case 4
  then show ?case by (rule Hasher_finished)
next
  case (5 L m n op m')
  then show ?case
    by (cases "(L, op, m)" rule: key_accepted.cases) (auto simp: sized_hash_def short_key_def split: if_splits)
next
  case (6 L m n)
  then show ?case by (simp add: sized_hash_def unkeyed_def short_key_def)
next
  case 7
  then show ?case by (rule length_Hasher_oneshot)
qed

lemma fed_new_hasher: "CreateHasher F L ty n = Some h \<Longrightarrow> fed_hash L (h, None) [] h \<and> sized_hash L (h, None) (Hasher_digest_size L h)"
  by (erule CreateHasher_cases)
    (auto simp: new_Blake3Hasher_def new_OpensslShaHasher_def sized_hash_def short_key_def intro: sha_started)

text \<open>The sizes of the digests, by the type asked for.\<close>

fun checksum_bytes :: "ChecksumType \<Rightarrow> nat" where
  "checksum_bytes Checksum_kXXH32 = 4" | "checksum_bytes Checksum_kXXH64 = 8" | "checksum_bytes Checksum_kXXH3_64 = 8"
| "checksum_bytes Checksum_kXXH3_128 = 16" | "checksum_bytes Checksum_kCRC32C = 4"

fun hash_bytes :: "HashType \<Rightarrow> nat \<Rightarrow> nat" where
  "hash_bytes Hash_kBLAKE3 n = (if n > 0 then n else 32)"
| "hash_bytes Hash_kSHA256 n = 32" | "hash_bytes Hash_kSHA384 n = 48" | "hash_bytes Hash_kSHA512 n = 64"
| "hash_bytes Hash_kSHA3_256 n = 32" | "hash_bytes Hash_kSHA3_384 n = 48" | "hash_bytes Hash_kSHA3_512 n = 64"

lemma created_checksummer_size: "CreateChecksummer F L ty seed = Some c \<Longrightarrow> Checksummer_digest_size c = checksum_bytes ty"
  by (cases ty) (auto simp: new_Crc32cChecksummer_def new_XxHashChecksummer_def split: if_splits)

lemma created_hasher_size: "hash_lawful H \<Longrightarrow> CreateHasher F H ty n = Some h \<Longrightarrow> Hasher_digest_size H h = hash_bytes ty n"
  by (cases ty) (auto simp: new_Blake3Hasher_def new_OpensslShaHasher_def Sha_DigestSizeFor_def hash_lawful_def openssl_lawful_def split: if_splits)

text \<open>A keyed hash succeeds for every key of a SHA hash, and for those of the key length of BLAKE3.\<close>

lemma length_HashKeyed:
  assumes "hash_lawful H" "length key < 2 ^ 31" "HashKeyed H h key data out = (ok, mac)"
  shows "ok = (\<forall>n b. h = Blake3Hasher n b \<longrightarrow> length key = BLAKE3_KEY_LEN (blake3 H)) \<and> (ok \<longrightarrow> length mac = Hasher_digest_size H h)"
proof (cases h)
  case (Blake3Hasher n b)
  with assms show ?thesis by (auto simp: hash_lawful_def blake3_lawful_def written_all split: if_splits)
next
  case (OpensslShaHasher s)
  obtain m where "HMAC (openssl H) (MdFor (algo s)) (Some key) (int (length key)) data = Some m" "length m = sha_bytes (MdFor (algo s))"
    using assms(1,2) unfolding hash_lawful_def openssl_lawful_def by blast
  with OpensslShaHasher assms show ?thesis
    by (auto simp: int_of_size_small Sha_DigestSizeFor_def hash_lawful_def openssl_lawful_def)
qed

section \<open>Concrete libraries\<close>

text \<open>Instances for the examples: stored (uncompressed) formats, the bitwise CRC32C, and digests that are sums or
  truncated data.\<close>

definition stored_libs :: compression_libs where
  "stored_libs = \<lparr>
    lz4 = \<lparr>LZ4F_compressFrameBound = (\<lambda>p n. n), LZ4F_compressFrame = (\<lambda>p n xs. if length xs \<le> n then Some xs else None),
      LZ4F_createDecompressionContext = True, LZ4F_decompress = (\<lambda>n xs. Some (take n xs, length xs - n))\<rparr>,
    zstd = \<lparr>ZSTD_compressBound = (\<lambda>n. n), ZSTD_compressCCtx = (\<lambda>l n xs. if length xs \<le> n then Some xs else None),
      ZSTD_getFrameContentSize = length, ZSTD_decompressDCtx = (\<lambda>n xs. if n < length xs then None else Some xs)\<rparr>,
    snappy = \<lparr>MaxCompressedLength = Suc, RawCompress = (\<lambda>xs. 0 # xs),
      GetUncompressedLength = (\<lambda>xs. if xs = [] then None else Some (length xs - 1)),
      RawUncompress = (\<lambda>xs. if xs = [] then None else Some (tl xs))\<rparr>\<rparr>"

lemma stored_lawful: "compression_lawful stored_libs"
  by (simp add: stored_libs_def compression_lawful_def lz4_lawful_def zstd_lawful_def snappy_lawful_def)

definition crc_bit :: "u32 \<Rightarrow> u32" where
  "crc_bit c = (if bit c 0 then xor (drop_bit 1 c) 0x82F63B78 else drop_bit 1 c)"

definition crc_extend :: "u32 \<Rightarrow> u8 list \<Rightarrow> u32" where
  "crc_extend c xs = not (foldl (\<lambda>c b. (crc_bit ^^ 8) (xor c (ucast b))) (not c) xs)"

definition sum_words :: "u64 \<Rightarrow> u8 list \<Rightarrow> u64" where
  "sum_words c xs = c + sum_list (map ucast xs)"

definition sum_libs :: "u64 checksum_libs" where
  "sum_libs = \<lparr>crc32c = \<lparr>Crc32c = crc_extend 0, Extend = crc_extend\<rparr>,
    xxhash = \<lparr>
      XXH32_oneshot = (\<lambda>xs seed. ucast (sum_words (ucast seed) xs)), XXH32_reset = ucast, XXH32_update = sum_words, XXH32_digest = ucast,
      XXH64_oneshot = (\<lambda>xs seed. sum_words seed xs), XXH64_reset = id, XXH64_update = sum_words, XXH64_digest = id,
      XXH3_64bits_withSeed = (\<lambda>xs seed. sum_words seed xs), XXH3_64bits_reset_withSeed = id, XXH3_64bits_update = sum_words,
      XXH3_64bits_digest = id,
      XXH3_128bits_withSeed = (\<lambda>xs seed. (sum_words seed xs, 0)), XXH3_128bits_reset_withSeed = id,
      XXH3_128bits_update = sum_words, XXH3_128bits_digest = (\<lambda>c. (c, 0))\<rparr>\<rparr>"

lemma foldl_sum_words: "foldl sum_words c chunks = sum_words c (concat chunks)"
  by (induction chunks arbitrary: c) (simp_all add: sum_words_def)

lemma sum_lawful: "checksum_lawful sum_libs"
  by (simp add: sum_libs_def checksum_lawful_def crc32c_lawful_def xxh_lawful_def foldl_sum_words crc_extend_def id_def)

definition padded :: "nat \<Rightarrow> u8 list \<Rightarrow> u8 list" where
  "padded n xs = take n (xs @ replicate n 0)"

definition padding_libs :: "(u8 list, u8 list) hash_libs" where
  "padding_libs = \<lparr>
    blake3 = \<lparr>BLAKE3_KEY_LEN = 32, blake3_hasher_init = [], blake3_hasher_init_keyed = (\<lambda>key. key),
      blake3_hasher_feed = (@), blake3_hasher_finalize = (\<lambda>b n. padded n b)\<rparr>,
    openssl = \<lparr>EVP_MD_size = sha_bytes, EVP_Digest = (\<lambda>xs md. Some (padded (sha_bytes md) (of_nat (length xs) # xs))),
      EVP_MD_CTX_new = [], EVP_DigestInit_ex = (\<lambda>e md. [of_nat (sha_bytes md)]), EVP_DigestUpdate = (@),
      EVP_DigestFinal_ex = (\<lambda>e. (Some (padded (unat (hd e)) (of_nat (length (tl e)) # tl e)), [])),
      HMAC = (\<lambda>md key size xs. case key of None \<Rightarrow> None
        | Some k \<Rightarrow> if size < 0 then None else Some (padded (sha_bytes md) (k @ xs))),
      malloc = (\<lambda>n. True)\<rparr>\<rparr>"

lemma length_padded [simp]: "length (padded n xs) = n"
  by (simp add: padded_def)

lemma foldl_append_bytes: "foldl (@) (c :: u8 list) chunks = c @ concat chunks"
  by (induction chunks arbitrary: c) simp_all

lemma padding_lawful: "hash_lawful padding_libs"
proof -
  have size: "unat (of_nat (sha_bytes md) :: u8) = sha_bytes md" for md
    by (cases md) simp_all
  have "blake3_lawful (blake3 padding_libs)"
    by (simp add: padding_libs_def blake3_lawful_def foldl_append_bytes)
  moreover have "openssl_lawful (openssl padding_libs)"
    by (simp add: padding_libs_def openssl_lawful_def foldl_append_bytes size del: of_nat_eq_iff)
  ultimately show ?thesis by (simp add: hash_lawful_def)
qed

definition all_features :: features where
  "all_features = \<lparr>HAS_LZ4 = True, HAS_ZSTD = True, HAS_SNAPPY = True, HAS_XXHASH = True, HAS_CRC32C = True,
    HAS_BLAKE3 = True, HAS_OPENSSL = True\<rparr>"

section \<open>Properties\<close>

text \<open>
  C29. Every compressor gives back what it was given: with libraries that keep their documentation, \<open>Compress\<close> of fewer
  than $2^{63}$ bytes (for Snappy, whose streams have their length in 32 bits, $2^{32}$) succeeds whatever the destination held, and \<open>Decompress\<close> of its output, with the size of the data
  or more as the hint, succeeds and yields exactly the data, whatever its destination held.
\<close>

theorem compressor_round_trip:
  assumes "compression_lawful L" "fits_format c xs" "Compress L c xs dst = (ok, packed)"
    and "length xs \<le> n" "0 < n \<or> xs = []"
  shows "ok \<and> Decompress L c packed dst' n = (True, xs)"
  by (rule compressors.unpacks [OF assms])

theorem compressor_round_trip_witness:
  "Decompress stored_libs (Lz4Compressor 0) (snd (Compress stored_libs (Lz4Compressor 0) [1, 2, 3] [9])) [7, 7] 3 = (True, [1, 2, 3])"
  using compressor_round_trip [OF stored_lawful, of "Lz4Compressor 0" "[1, 2, 3]" "[9]" _ _ 3 "[7, 7]", OF _ prod.collapse [symmetric]]
  by simp

text \<open>
  \<open>Lz4Compressor::Decompress\<close> does not grow its buffer: when the hint is too small, or there is none and the data are
  more than four times as long as the frame, it returns true with the data cut off; so with the default hint 0 it loses
  data that compress well.
\<close>

theorem lz4_truncates_silently:
  assumes "lz4_lawful L" "Lz4_Compress L level xs dst = (ok, packed)"
    and "(if n > 0 then n else sz_mul (length packed) 4) < length xs"
  shows "\<exists>part. Lz4_Decompress L packed dst' n = (True, part) \<and> part \<noteq> xs \<and> length part < length xs \<and> part = take (length part) xs"
proof -
  obtain p where "\<forall>dst. Lz4_Compress L level xs dst = (True, p)"
    "\<forall>dst n. Lz4_Decompress L p dst n = (True, take (Lz4_capacity p n) xs)"
    using Lz4_packs [OF assms(1)] by blast
  moreover from this assms(2) have "p = packed" by simp
  ultimately show ?thesis using assms(3) by (intro exI [of _ "take (Lz4_capacity packed n) xs"]) (auto simp: Lz4_capacity_def)
qed

theorem lz4_truncates_silently_witness:
  "\<exists>part. Lz4_Decompress (lz4 stored_libs) (snd (Lz4_Compress (lz4 stored_libs) 0 [1, 2] [])) [] 1 = (True, part) \<and>
    part \<noteq> [1, 2] \<and> length part < 2 \<and> part = take (length part) [1, 2]"
proof -
  have "lz4_lawful (lz4 stored_libs)" using stored_lawful by (simp add: compression_lawful_def)
  from lz4_truncates_silently [OF this, of 0 "[1, 2]" "[]" _ _ 1 "[]", OF prod.collapse [symmetric]]
  show ?thesis by (simp add: numeral_2_eq_2)
qed

text \<open>
  The checksums of the factory as streams: whatever calls of \<open>Reset\<close>, \<open>Update\<close> and \<open>Finalize\<close> an object receives,
  each \<open>Finalize\<close> returns what \<open>Compute\<close> returns for the concatenation of the data fed since the last \<open>Reset\<close> or
  \<open>Finalize\<close>, for the CRC and all four variants of xxHash.
\<close>

theorem checksum_streams_are_one_shot:
  assumes "checksum_lawful L" "CreateChecksummer F L ty seed = Some c"
  shows "stream_run (\<lambda>op c. (True, Checksummer_Reset L c)) (Checksummer_Update L) (Checksummer_Finalize L) calls c =
    stream_spec (\<lambda>op :: unit. Some) (Compute L) (\<lambda>c. c) calls c []"
  by (rule checksums.implements [OF assms(1) fed_new_checksummer [OF assms]])

theorem checksum_streams_are_one_shot_witness:
  "stream_run (\<lambda>op c. (True, Checksummer_Reset sum_libs c)) (Checksummer_Update sum_libs) (Checksummer_Finalize sum_libs)
    [Feed [1, 2], Restart (), Feed [97], Feed [], Finish] (new_Crc32cChecksummer :: u64 checksummer) =
    [Accepted True, Digest [0x30, 0x43, 0xD0, 0xC1]]"
proof -
  have c: "CreateChecksummer all_features sum_libs Checksum_kCRC32C 0 = Some new_Crc32cChecksummer"
    by (simp add: all_features_def)
  have "Compute sum_libs new_Crc32cChecksummer [97] = [0x30, 0x43, 0xD0, 0xC1]" by code_simp
  then show ?thesis unfolding checksum_streams_are_one_shot [OF sum_lawful c] by simp
qed

text \<open>
  C28. The hashes of the factory as streams: whatever calls of \<open>Init\<close>, \<open>InitKeyed\<close>, \<open>Update\<close> and \<open>Finalize\<close> an object
  receives, each \<open>Finalize\<close> returns the one-shot hash of the data fed since the last restart (\<open>Finalize\<close> restarts without
  key); after \<open>InitKeyed\<close>, BLAKE3 returns what \<open>HashKeyed\<close> returns for the data, but the SHA adapter what \<open>HashKeyed\<close>
  returns for their hash. \<open>InitKeyed\<close> refuses exactly the BLAKE3 keys of a wrong length, and then changes nothing.
\<close>

theorem hash_streams_are_one_shot:
  assumes "hash_lawful L" "CreateHasher F L ty n = Some h"
  shows "stream_run (Hasher_restart L) (Hasher_Update L) (Hasher_Finalize L) calls h =
    stream_spec (key_accepted L) (Hasher_oneshot L) unkeyed calls (h, None) []"
  using hashes.implements [OF assms(1)] fed_new_hasher [OF assms(2)] by blast

theorem hash_streams_are_one_shot_witness:
  "stream_run (Hasher_restart padding_libs) (Hasher_Update padding_libs) (Hasher_Finalize padding_libs)
    [Restart (Some [1]), Feed [5], Restart (Some (replicate 32 7)), Feed [6], Finish, Feed [8], Finish] (new_Blake3Hasher padding_libs 33) =
    [Accepted False, Accepted True, Digest (replicate 32 7 @ [6]), Digest (8 # replicate 32 0)]"
proof -
  have h: "CreateHasher all_features padding_libs Hash_kBLAKE3 33 = Some (new_Blake3Hasher padding_libs 33)"
    by (simp add: all_features_def)
  show ?thesis unfolding hash_streams_are_one_shot [OF padding_lawful h] by code_simp
qed

text \<open>
  The keyed stream of the SHA adapter is not the keyed hash: \<open>InitKeyed(key)\<close>, \<open>Update(data)\<close>, \<open>Finalize()\<close> yields
  the \<open>HashKeyed\<close> value of \<open>Hash(data)\<close>, so it agrees with \<open>HashKeyed(key, data)\<close> only when HMAC does not tell data from
  their hash.
\<close>

theorem sha_keyed_stream_authenticates_the_hash:
  assumes "hash_lawful L" "length key < 2 ^ 31"
  shows "stream_run (Hasher_restart L) (Hasher_Update L) (Hasher_Finalize L) [Restart (Some key), Feed data, Finish] (new_OpensslShaHasher L a) =
      [Accepted True, Digest (snd (HashKeyed L (new_OpensslShaHasher L a) key (Hash L (new_OpensslShaHasher L a) data) []))] \<and>
    fst (HashKeyed L (new_OpensslShaHasher L a) key (Hash L (new_OpensslShaHasher L a) data) [])"
proof -
  let ?h = "new_OpensslShaHasher L a"
  have fed: "fed_hash L (?h, None) [] ?h" by (auto simp: new_OpensslShaHasher_def intro: sha_started)
  obtain mac where "HMAC (openssl L) (MdFor a) (Some key) (int (length key)) (Hash L ?h data) = Some mac"
    using assms unfolding hash_lawful_def openssl_lawful_def by blast
  then have "HashKeyed L ?h key (Hash L ?h data) [] = (True, mac)"
    using assms(2) by (simp add: new_OpensslShaHasher_def int_of_size_small)
  with hashes.implements [OF assms(1) fed, of "[Restart (Some key), Feed data, Finish]"]
  show ?thesis by (simp add: new_OpensslShaHasher_def)
qed

theorem sha_keyed_stream_authenticates_the_hash_witness:
  "stream_run (Hasher_restart padding_libs) (Hasher_Update padding_libs) (Hasher_Finalize padding_libs)
      [Restart (Some [1]), Feed [5], Finish] (new_OpensslShaHasher padding_libs kSHA256) \<noteq>
    [Accepted True, Digest (snd (HashKeyed padding_libs (new_OpensslShaHasher padding_libs kSHA256) [1] [5] []))]"
proof -
  have "length [1 :: u8] < 2 ^ 31" by simp
  from sha_keyed_stream_authenticates_the_hash [OF padding_lawful this, of "[5]" kSHA256, THEN conjunct1]
  show ?thesis by (rule ssubst) code_simp
qed

text \<open>
  C30. Digests have the size that the object announces, which is that of the type asked for: 4 bytes for CRC32C and XXH32, 8 for
  XXH64 and XXH3-64, 16 for XXH3-128; the size asked for (32 when none is) for BLAKE3; 32, 48 or 64 for SHA-256, SHA-384, SHA-512
  and the SHA-3 of these sizes, whatever size was asked for. That holds of the one-shot and of all streaming digests; with keys,
  of fewer than $2^{31}$ bytes, of every streaming digest and of every one-shot keyed hash that succeeds, and it succeeds
  unless a BLAKE3 key has not the key length.
\<close>

theorem digests_have_announced_size:
  assumes "checksum_lawful C" "CreateChecksummer F C ty seed = Some c"
    and "hash_lawful H" "CreateHasher F H tyh n = Some h" "\<forall>key. Restart (Some key) \<in> set hcalls \<longrightarrow> length key < 2 ^ 31"
    and "Digest d \<in> set (stream_run (\<lambda>op :: unit. \<lambda>c. (True, Checksummer_Reset C c)) (Checksummer_Update C) (Checksummer_Finalize C) calls c)"
    and "Digest e \<in> set (stream_run (Hasher_restart H) (Hasher_Update H) (Hasher_Finalize H) hcalls h)"
    and "length k < 2 ^ 31" "HashKeyed H h k data out = (ok, mac)"
  shows "Checksummer_digest_size c = checksum_bytes ty \<and> length (Compute C c data) = checksum_bytes ty \<and> length d = checksum_bytes ty \<and>
    Hasher_digest_size H h = hash_bytes tyh n \<and> length (Hash H h data) = hash_bytes tyh n \<and> length e = hash_bytes tyh n \<and>
    (ok \<longleftrightarrow> tyh \<noteq> Hash_kBLAKE3 \<or> length k = BLAKE3_KEY_LEN (blake3 H)) \<and> (ok \<longrightarrow> length mac = hash_bytes tyh n)"
proof -
  have d: "length d = Checksummer_digest_size c"
    by (rule checksums.results_sized [OF assms(1) fed_new_checksummer [OF assms(1,2)] refl _ assms(6)]) simp
  have "short_key op" if "Restart op \<in> set hcalls" for op
    using assms(5) that by (cases op) (auto simp: short_key_def)
  with hashes.results_sized [OF assms(3) _ _ _ assms(7)] fed_new_hasher [OF assms(4)]
  have e: "length e = Hasher_digest_size H h" by blast
  have "(\<exists>n b. h = Blake3Hasher n b) = (tyh = Hash_kBLAKE3)"
    using assms(4) by (rule CreateHasher_cases) (simp_all add: new_Blake3Hasher_def new_OpensslShaHasher_def)
  with length_HashKeyed [OF assms(3,8,9)]
  have "ok \<longleftrightarrow> tyh \<noteq> Hash_kBLAKE3 \<or> length k = BLAKE3_KEY_LEN (blake3 H)" "ok \<longrightarrow> length mac = Hasher_digest_size H h" by blast+
  with d e show ?thesis
    by (simp add: length_Compute length_Hash [OF assms(3)] created_checksummer_size [OF assms(2)] created_hasher_size [OF assms(3,4)])
qed

theorem digests_have_announced_size_witness:
  "length (le_bytes 4 (0 :: u32)) = 4 \<and> length (replicate 33 (0 :: u8)) = hash_bytes Hash_kBLAKE3 33 \<and>
    length (snd (HashKeyed padding_libs (new_Blake3Hasher padding_libs 33) (replicate 32 7) [6] [])) = 33"
proof -
  have c: "CreateChecksummer all_features sum_libs Checksum_kCRC32C 0 = Some new_Crc32cChecksummer"
    and h: "CreateHasher all_features padding_libs Hash_kBLAKE3 33 = Some (new_Blake3Hasher padding_libs 33)"
    by (simp_all add: all_features_def)
  have d: "Digest (le_bytes 4 (0 :: u32)) \<in> set (stream_run (\<lambda>op :: unit. \<lambda>c. (True, Checksummer_Reset sum_libs c))
      (Checksummer_Update sum_libs) (Checksummer_Finalize sum_libs) [Finish] new_Crc32cChecksummer)"
    by (simp add: new_Crc32cChecksummer_def)
  have e: "Digest (replicate 33 0) \<in> set (stream_run (Hasher_restart padding_libs) (Hasher_Update padding_libs)
      (Hasher_Finalize padding_libs) [Restart None, Finish] (new_Blake3Hasher padding_libs 33))"
    by code_simp
  have k: "\<forall>key. Restart (Some key) \<in> set [Restart None, Finish] \<longrightarrow> length key < 2 ^ 31" by simp
  have k': "length (replicate 32 (7 :: u8)) < 2 ^ 31" by simp
  have l: "BLAKE3_KEY_LEN (blake3 padding_libs) = 32" by (simp add: padding_libs_def)
  from digests_have_announced_size [OF sum_lawful c padding_lawful h k d e k' prod.collapse [symmetric], of "[6]" "[]"] show ?thesis
    by (simp add: l)
qed

text \<open>The names of created objects in lower case.\<close>

lemma tolower_letters:
  "tolower CHR ''-'' = CHR ''-''" "tolower CHR ''1'' = CHR ''1''" "tolower CHR ''2'' = CHR ''2''"
  "tolower CHR ''3'' = CHR ''3''" "tolower CHR ''4'' = CHR ''4''" "tolower CHR ''5'' = CHR ''5''"
  "tolower CHR ''6'' = CHR ''6''" "tolower CHR ''8'' = CHR ''8''" "tolower CHR ''A'' = CHR ''a''"
  "tolower CHR ''B'' = CHR ''b''" "tolower CHR ''C'' = CHR ''c''" "tolower CHR ''E'' = CHR ''e''"
  "tolower CHR ''H'' = CHR ''h''" "tolower CHR ''K'' = CHR ''k''" "tolower CHR ''L'' = CHR ''l''"
  "tolower CHR ''R'' = CHR ''r''" "tolower CHR ''S'' = CHR ''s''" "tolower CHR ''X'' = CHR ''x''"
  "tolower CHR ''Z'' = CHR ''z''" "tolower CHR ''a'' = CHR ''a''" "tolower CHR ''d'' = CHR ''d''"
  "tolower CHR ''h'' = CHR ''h''" "tolower CHR ''l'' = CHR ''l''" "tolower CHR ''n'' = CHR ''n''"
  "tolower CHR ''p'' = CHR ''p''" "tolower CHR ''s'' = CHR ''s''" "tolower CHR ''t'' = CHR ''t''"
  "tolower CHR ''x'' = CHR ''x''" "tolower CHR ''y'' = CHR ''y''" "tolower CHR ''z'' = CHR ''z''"
  by code_simp+

lemma lowered_literals:
  "ToLower ''LZ4'' = ''lz4''" "ToLower ''Zstd'' = ''zstd''" "ToLower ''Snappy'' = ''snappy''" "ToLower ''CRC32C'' = ''crc32c''"
  "ToLower ''xxHash-XXH32'' = ''xxhash-xxh32''" "ToLower ''xxHash-XXH64'' = ''xxhash-xxh64''"
  "ToLower ''xxHash-XXH3-64'' = ''xxhash-xxh3-64''" "ToLower ''xxHash-XXH3-128'' = ''xxhash-xxh3-128''"
  "ToLower ''BLAKE3'' = ''blake3''" "ToLower ''SHA-256'' = ''sha-256''" "ToLower ''SHA-384'' = ''sha-384''"
  "ToLower ''SHA-512'' = ''sha-512''" "ToLower ''SHA3-256'' = ''sha3-256''" "ToLower ''SHA3-384'' = ''sha3-384''"
  "ToLower ''SHA3-512'' = ''sha3-512''"
  by (simp_all add: ToLower_def tolower_letters)

lemma created_names:
  "Checksummer_name new_Crc32cChecksummer = ''CRC32C''" "Checksummer_name (new_XxHashChecksummer L v seed) = VariantName v"
  "Hasher_name (new_Blake3Hasher L' n) = ''BLAKE3''" "Hasher_name (new_OpensslShaHasher L' a) = AlgoName a"
  by (simp_all add: new_Crc32cChecksummer_def new_XxHashChecksummer_def new_Blake3Hasher_def new_OpensslShaHasher_def)

lemmas lowered = lowered_literals created_names

text \<open>
  The factory creates exactly the types it lists as available, and finds an object under its own name, in any case of
  letters, except the xxHash checksums, whose names it does not know.
\<close>

theorem factory_finds_by_name:
  assumes "CreateCompressor F tc level = Some c" "ToLower name = ToLower (Compressor_name c)"
    and "CreateChecksummer F C ts seed = Some s" "ToLower name' = ToLower (Checksummer_name s)"
    and "CreateHasher F H th n = Some h" "ToLower name'' = ToLower (Hasher_name h)"
  shows "CompressorByName F name level = Some c \<and> tc \<in> set (AvailableCompressors F) \<and>
    ChecksummerByName F C name' seed = (if ts = Checksum_kCRC32C then Some s else None) \<and> ts \<in> set (AvailableChecksummers F) \<and>
    HasherByName F H name'' n = Some h \<and> th \<in> set (AvailableHashers F)"
proof -
  have "CompressorByName F name level = Some c \<and> tc \<in> set (AvailableCompressors F)"
    using assms(1,2) by (cases tc) (auto simp: CompressorByName_def lowered AvailableCompressors_def split: if_splits)
  moreover have "ChecksummerByName F C name' seed = (if ts = Checksum_kCRC32C then Some s else None) \<and> ts \<in> set (AvailableChecksummers F)"
    using assms(3,4) by (cases ts) (auto simp: ChecksummerByName_def lowered AvailableChecksummers_def split: if_splits)
  moreover have "HasherByName F H name'' n = Some h \<and> th \<in> set (AvailableHashers F)"
    using assms(5,6) by (cases th) (auto simp: HasherByName_def lowered AvailableHashers_def split: if_splits)
  ultimately show ?thesis by blast
qed

theorem factory_finds_by_name_witness:
  "CompressorByName all_features ''lZ4'' 1 = Some (Lz4Compressor 1) \<and>
    ChecksummerByName all_features sum_libs ''xxHash-XXH32'' 0 = None \<and>
    HasherByName all_features padding_libs ''sHa-256'' 0 = Some (new_OpensslShaHasher padding_libs kSHA256)"
proof -
  have c: "CreateCompressor all_features Compressor_kLZ4 1 = Some (Lz4Compressor 1)"
    and s: "CreateChecksummer all_features sum_libs Checksum_kXXH32 0 = Some (new_XxHashChecksummer sum_libs kXXH32 0)"
    and h: "CreateHasher all_features padding_libs Hash_kSHA256 0 = Some (new_OpensslShaHasher padding_libs kSHA256)"
    by (simp_all add: all_features_def)
  have n: "ToLower ''lZ4'' = ToLower (Compressor_name (Lz4Compressor 1))"
    "ToLower ''xxHash-XXH32'' = ToLower (Checksummer_name (new_XxHashChecksummer sum_libs kXXH32 0))"
    "ToLower ''sHa-256'' = ToLower (Hasher_name (new_OpensslShaHasher padding_libs kSHA256))"
    by (simp_all add: lowered) (simp_all add: ToLower_def tolower_letters)
  from factory_finds_by_name [OF c n(1) s n(2) h n(3)] show ?thesis by simp
qed

end
