(* ===== verification/Monitor.thy ===== *)
theory Monitor
  imports Complex_Main Lock_Contract
begin

text \<open>
  \<open>MonitorProcess\<close> (misc/monitor_process.h, .cc): a supervisor that forks a child, waits for it, and restarts it. The
  static members are one record; with it go the children as the kernel sees them, a clock in milliseconds, and the
  arguments of the callbacks since the last \<open>Start\<close>. Monitor threads and clients move in the steps of their atomic
  accesses and system calls; what \<open>fork\<close> and the health check return comes with the step. Counters are unbounded.
\<close>

section \<open>Configuration\<close>

datatype max_restart_policy = kStopMonitoring | kResetCounter

record mon_config =
  argv :: "string list"
  max_restarts :: int
  max_restart_policy :: max_restart_policy
  backoff_initial :: int
  backoff_multiplier :: rat
  backoff_max :: int
  stable_run_threshold :: int
  health_check_interval :: int
  stop_signal :: int
  graceful_stop_timeout :: int
  health_check :: bool

definition default_config :: mon_config where
  "default_config = \<lparr>argv = [], max_restarts = 0, max_restart_policy = kStopMonitoring, backoff_initial = 500,
    backoff_multiplier = 3 / 2, backoff_max = 30000, stable_run_threshold = 5, health_check_interval = 1000,
    stop_signal = 15, graceful_stop_timeout = 5000, health_check = False\<rparr>"

text \<open>\<open>ComputeBackoff\<close>, with the \<open>double\<close> taken as exact; the conversion to \<open>long long\<close> truncates.\<close>

definition to_long_long :: "rat \<Rightarrow> int" where
  "to_long_long x = (if x \<ge> 0 then \<lfloor>x\<rfloor> else \<lceil>x\<rceil>)"

fun backoff_loop :: "mon_config \<Rightarrow> nat \<Rightarrow> rat \<Rightarrow> int" where
  "backoff_loop cfg 0 ms = to_long_long ms"
| "backoff_loop cfg (Suc n) ms = (let ms' = ms * backoff_multiplier cfg
     in if ms' \<ge> of_int (backoff_max cfg) then backoff_max cfg else backoff_loop cfg n ms')"

definition ComputeBackoff :: "mon_config \<Rightarrow> int \<Rightarrow> int" where
  "ComputeBackoff cfg consecutive = (if consecutive \<le> 0 then backoff_initial cfg
     else backoff_loop cfg (nat consecutive) (of_int (backoff_initial cfg)))"

section \<open>State\<close>

datatype monitor_state = kIdle | kRunning | kStopping | kStopped

text \<open>The places of the monitor thread, with its locals: the child, its wait status, a deadline, the rest of a back-off.\<close>

datatype monitor_pc =
    MTop | MSpawn | MSetPid nat | MSetTime nat | MWatch nat | MGrace nat int | MReap nat | MPoll nat int | MHealth nat
  | MExited nat int | MReport nat int | MAfter | MCount | MCountConsecutive | MPolicy | MBackoff int | MEnd | MEndState | MDone

record monitor_thread =
  m_pc :: monitor_pc
  m_wake :: int
  m_joined :: bool

datatype client_pc = COut | CStopTest2 | CStopTest3 | CStopFlag | CStopState | CStopLoad | CKill nat int | CJoin nat | CJoined | CSetIdle

datatype proc = Running | Zombie int

record mon =
  config :: mon_config
  state :: monitor_state
  child_pid :: nat
  restart_count :: int
  consecutive_restart_count :: int
  last_start_time :: int
  monitor_thread' :: nat
  monitor_thread_valid :: bool
  stop_requested :: bool
  monitors :: "monitor_thread list"
  clients :: "client_pc list"
  procs :: "nat \<rightharpoonup> proc"
  clock :: int
  pre_starts :: "int list"
  spawned :: "nat list"
  exits :: "(nat \<times> int) list"
  stray_kills :: "nat list"

definition mon_init :: "nat \<Rightarrow> mon" where
  "mon_init n = \<lparr>config = default_config, state = kIdle, child_pid = 0, restart_count = 0, consecutive_restart_count = 0,
    last_start_time = 0, monitor_thread' = 0, monitor_thread_valid = False, stop_requested = False, monitors = [],
    clients = replicate n COut, procs = Map.empty, clock = 0, pre_starts = [], spawned = [], exits = [], stray_kills = []\<rparr>"

text \<open>\<open>GetStats\<close>.\<close>

record mon_stats =
  current_child_pid :: nat
  stat_restart_count :: int
  stat_consecutive_restart_count :: int
  stat_state :: monitor_state
  stat_last_start_time :: int

definition GetStats :: "mon \<Rightarrow> mon_stats" where
  "GetStats s = \<lparr>current_child_pid = child_pid s, stat_restart_count = restart_count s,
    stat_consecutive_restart_count = consecutive_restart_count s, stat_state = state s, stat_last_start_time = last_start_time s\<rparr>"

definition GetState :: "mon \<Rightarrow> monitor_state" where
  "GetState s = state s"

definition GetChildPid :: "mon \<Rightarrow> nat" where
  "GetChildPid s = child_pid s"

section \<open>System calls\<close>

definition SIGKILL :: int where
  "SIGKILL = 9"

text \<open>\<open>kill\<close>: a \<open>SIGKILL\<close> ends the child, any other signal it may handle. A pid that is not that of a child (any more)
  is some other process, or none. \<open>waitpid\<close> with \<open>WNOHANG\<close>: None when the child runs, its status when it is reaped, and 0
  (which the caller stores) when there is no such child.\<close>

definition kill :: "nat \<Rightarrow> int \<Rightarrow> mon \<Rightarrow> mon" where
  "kill pid sig s = (case procs s pid of
     None \<Rightarrow> s\<lparr>stray_kills := stray_kills s @ [pid]\<rparr>
   | Some Running \<Rightarrow> if sig = SIGKILL then s\<lparr>procs := (procs s)(pid \<mapsto> Zombie SIGKILL)\<rparr> else s
   | Some (Zombie st) \<Rightarrow> s)"

definition waitpid :: "nat \<Rightarrow> mon \<Rightarrow> int option \<times> mon" where
  "waitpid pid s = (case procs s pid of
     None \<Rightarrow> (Some 0, s)
   | Some Running \<Rightarrow> (None, s)
   | Some (Zombie st) \<Rightarrow> (Some st, s\<lparr>procs := (procs s)(pid := None)\<rparr>))"

section \<open>The monitor thread\<close>

definition go :: "nat \<Rightarrow> monitor_pc \<Rightarrow> mon \<Rightarrow> mon" where
  "go i p s = s\<lparr>monitors := (monitors s)[i := (monitors s ! i)\<lparr>m_pc := p\<rparr>]\<rparr>"

definition sleep_for :: "nat \<Rightarrow> int \<Rightarrow> mon \<Rightarrow> mon" where
  "sleep_for i d s = s\<lparr>monitors := (monitors s)[i := (monitors s ! i)\<lparr>m_wake := clock s + d\<rparr>]\<rparr>"

text \<open>One round of \<open>WaitForChildWithTimeout\<close>: the child is gone (with its status), the deadline has passed, or the thread
  sleeps and stays where it is.\<close>

definition wait_round :: "nat \<Rightarrow> int \<Rightarrow> (int \<Rightarrow> monitor_pc) \<Rightarrow> (mon \<Rightarrow> mon) \<Rightarrow> mon \<Rightarrow> mon" where
  "wait_round i deadline gone timed_out s =
    (if clock s < deadline
     then case waitpid (child_pid s) s of (Some st, s') \<Rightarrow> go i (gone st) s' | (None, s') \<Rightarrow> sleep_for i 10 s'
     else timed_out s)"

definition SpawnChild :: "nat \<Rightarrow> nat option \<Rightarrow> mon \<Rightarrow> mon" where
  "SpawnChild i fork s = (case fork of
     None \<Rightarrow> sleep_for i (ComputeBackoff (config s) (consecutive_restart_count s)) (go i MTop s)
   | Some pid \<Rightarrow> go i (MSetPid pid) (s\<lparr>procs := (procs s)(pid \<mapsto> Running), spawned := spawned s @ [pid]\<rparr>))"

definition is_stable_run :: "mon \<Rightarrow> bool" where
  "is_stable_run s \<longleftrightarrow> stable_run_threshold (config s) > 0 \<and>
     (clock s - last_start_time s) div 1000 \<ge> stable_run_threshold (config s)"

definition poll_interval :: "mon_config \<Rightarrow> int" where
  "poll_interval cfg = (if health_check cfg then health_check_interval cfg else 500)"

definition apply_policy :: "nat \<Rightarrow> mon \<Rightarrow> mon" where
  "apply_policy i s = (let m = max_restarts (config s)
     in if m > 0 \<and> consecutive_restart_count s > m
        then if max_restart_policy (config s) = kStopMonitoring then go i MEnd s
          else go i (MBackoff (ComputeBackoff (config s) 0)) (s\<lparr>consecutive_restart_count := 0\<rparr>)
        else go i (MBackoff (ComputeBackoff (config s) (consecutive_restart_count s))) s)"

definition backoff_slice :: "nat \<Rightarrow> int \<Rightarrow> mon \<Rightarrow> mon" where
  "backoff_slice i remaining s =
    (if remaining > 0 \<and> \<not> stop_requested s
     then sleep_for i (min remaining 100) (go i (MBackoff (remaining - min remaining 100)) s)
     else go i MTop s)"

fun monitor_step :: "nat \<Rightarrow> nat option \<Rightarrow> bool \<Rightarrow> monitor_pc \<Rightarrow> mon \<Rightarrow> mon" where
  "monitor_step i fork healthy MTop s = (if stop_requested s then go i MEnd s
     else go i MSpawn (s\<lparr>pre_starts := pre_starts s @ [restart_count s]\<rparr>))"
| "monitor_step i fork healthy MSpawn s = SpawnChild i fork s"
| "monitor_step i fork healthy (MSetPid pid) s = go i (MSetTime pid) (s\<lparr>child_pid := pid\<rparr>)"
| "monitor_step i fork healthy (MSetTime pid) s = go i (MWatch pid) (s\<lparr>last_start_time := clock s\<rparr>)"
| "monitor_step i fork healthy (MWatch pid) s = (if stop_requested s
     then go i (MGrace pid (clock s + graceful_stop_timeout (config s))) (kill pid (stop_signal (config s)) s)
     else go i (MPoll pid (clock s + poll_interval (config s))) s)"
| "monitor_step i fork healthy (MGrace pid deadline) s =
     wait_round i deadline (MExited pid) (\<lambda>s. go i (MReap pid) (kill pid SIGKILL s)) s"
| "monitor_step i fork healthy (MReap pid) s = (case waitpid pid s of (Some st, s') \<Rightarrow> go i (MExited pid st) s' | (None, s') \<Rightarrow> s')"
| "monitor_step i fork healthy (MPoll pid deadline) s =
     wait_round i deadline (MExited pid) (go i (if health_check (config s) then MHealth pid else MWatch pid)) s"
| "monitor_step i fork healthy (MHealth pid) s = (if healthy then go i (MWatch pid) s else go i (MReap pid) (kill pid SIGKILL s))"
| "monitor_step i fork healthy (MExited pid st) s = go i (MReport pid st) (s\<lparr>child_pid := 0\<rparr>)"
| "monitor_step i fork healthy (MReport pid st) s = go i MAfter (s\<lparr>exits := exits s @ [(pid, st)]\<rparr>)"
| "monitor_step i fork healthy MAfter s = (if stop_requested s then go i MEnd s
     else go i MCount (if is_stable_run s then s\<lparr>consecutive_restart_count := 0\<rparr> else s))"
| "monitor_step i fork healthy MCount s = go i MCountConsecutive (s\<lparr>restart_count := restart_count s + 1\<rparr>)"
| "monitor_step i fork healthy MCountConsecutive s = go i MPolicy (s\<lparr>consecutive_restart_count := consecutive_restart_count s + 1\<rparr>)"
| "monitor_step i fork healthy MPolicy s = apply_policy i s"
| "monitor_step i fork healthy (MBackoff remaining) s = backoff_slice i remaining s"
| "monitor_step i fork healthy MEnd s = go i MEndState (s\<lparr>child_pid := 0\<rparr>)"
| "monitor_step i fork healthy MEndState s = go i MDone (s\<lparr>state := kStopped\<rparr>)"
| "monitor_step i fork healthy MDone s = s"

section \<open>The clients\<close>

definition set_client :: "nat \<Rightarrow> client_pc \<Rightarrow> mon \<Rightarrow> mon" where
  "set_client c p s = s\<lparr>clients := (clients s)[c := p]\<rparr>"

text \<open>\<open>Start\<close> runs under the mutex in one step; \<open>created\<close> tells whether \<open>pthread_create\<close> succeeds.\<close>

definition Start :: "mon_config \<Rightarrow> bool \<Rightarrow> mon \<Rightarrow> bool \<times> mon" where
  "Start cfg created s =
    (if argv cfg = [] then (False, s)
     else if state s = kRunning \<or> state s = kStopping then (False, s)
     else let s1 = s\<lparr>config := cfg, stop_requested := False, restart_count := 0, consecutive_restart_count := 0, child_pid := 0,
                pre_starts := [], spawned := [], exits := []\<rparr>
       in if \<not> created then (False, s1\<lparr>state := kIdle\<rparr>)
          else (True, s1\<lparr>state := kRunning, monitors := monitors s @ [\<lparr>m_pc = MTop, m_wake = clock s, m_joined = False\<rparr>],
            monitor_thread' := length (monitors s), monitor_thread_valid := True\<rparr>))"

definition RequestStop_enter :: "nat \<Rightarrow> mon \<Rightarrow> mon" where
  "RequestStop_enter c s = (if state s = kStopping then s else set_client c CStopTest2 s)"

definition WaitForStop_enter :: "nat \<Rightarrow> mon \<Rightarrow> mon" where
  "WaitForStop_enter c s = (if monitor_thread_valid s then set_client c (CJoin (monitor_thread' s)) s else set_client c CSetIdle s)"

definition SendSignalToChild_enter :: "nat \<Rightarrow> int \<Rightarrow> mon \<Rightarrow> mon" where
  "SendSignalToChild_enter c signum s = (if child_pid s \<le> 0 then s else set_client c (CKill (child_pid s) signum) s)"

text \<open>The rest of \<open>RequestStop\<close> and \<open>WaitForStop\<close>. Joining a thread twice is undefined.\<close>

fun client_step :: "nat \<Rightarrow> client_pc \<Rightarrow> mon \<Rightarrow> mon result" where
  "client_step c COut s = Inr s"
| "client_step c CStopTest2 s = Inr (set_client c (if state s = kStopped then COut else CStopTest3) s)"
| "client_step c CStopTest3 s = Inr (set_client c (if state s = kIdle then COut else CStopFlag) s)"
| "client_step c CStopFlag s = Inr (set_client c CStopState (s\<lparr>stop_requested := True\<rparr>))"
| "client_step c CStopState s = Inr (set_client c CStopLoad (s\<lparr>state := kStopping\<rparr>))"
| "client_step c CStopLoad s = Inr (set_client c (if child_pid s > 0 then CKill (child_pid s) (stop_signal (config s)) else COut) s)"
| "client_step c (CKill pid sig) s = Inr (set_client c COut (kill pid sig s))"
| "client_step c (CJoin tid) s = guard_ub (tid < length (monitors s) \<and> \<not> m_joined (monitors s ! tid))
     (Inr (set_client c CJoined (s\<lparr>monitors := (monitors s)[tid := (monitors s ! tid)\<lparr>m_joined := True\<rparr>]\<rparr>)))"
| "client_step c CJoined s = Inr (set_client c CSetIdle (s\<lparr>monitor_thread_valid := False\<rparr>))"
| "client_step c CSetIdle s = Inr (set_client c COut (s\<lparr>state := kIdle\<rparr>))"

datatype mon_call = CallStart mon_config bool | CallRequestStop | CallWaitForStop | CallSendSignal int

fun mon_call_step :: "nat \<Rightarrow> mon_call \<Rightarrow> mon \<Rightarrow> mon" where
  "mon_call_step c (CallStart cfg created) s = snd (Start cfg created s)"
| "mon_call_step c CallRequestStop s = RequestStop_enter c s"
| "mon_call_step c CallWaitForStop s = WaitForStop_enter c s"
| "mon_call_step c (CallSendSignal signum) s = SendSignalToChild_enter c signum s"

section \<open>The system\<close>

datatype mon_event = MonitorStep nat "nat option" bool | ClientCall nat mon_call | ClientStep nat | ChildDies nat int | Tick nat

fun mon_step :: "mon_event \<Rightarrow> mon \<Rightarrow> mon result" where
  "mon_step (MonitorStep i fork healthy) s = Inr (monitor_step i fork healthy (m_pc (monitors s ! i)) s)"
| "mon_step (ClientCall c call) s = Inr (mon_call_step c call s)"
| "mon_step (ClientStep c) s = client_step c (clients s ! c) s"
| "mon_step (ChildDies pid st) s = Inr (s\<lparr>procs := (procs s)(pid \<mapsto> Zombie st)\<rparr>)"
| "mon_step (Tick d) s = Inr (s\<lparr>clock := clock s + int d\<rparr>)"

text \<open>When an event can happen: a thread that sleeps waits for its time, \<open>waitpid\<close> without \<open>WNOHANG\<close> for the child,
  \<open>pthread_join\<close> for the thread; \<open>fork\<close> returns a positive pid that no child has; a client makes one call at a time.\<close>

fun mon_ready :: "mon_event \<Rightarrow> mon \<Rightarrow> bool" where
  "mon_ready (MonitorStep i fork healthy) s \<longleftrightarrow> i < length (monitors s) \<and> m_pc (monitors s ! i) \<noteq> MDone \<and>
     m_wake (monitors s ! i) \<le> clock s \<and>
     (case m_pc (monitors s ! i) of MReap pid \<Rightarrow> procs s pid \<noteq> Some Running
      | MSpawn \<Rightarrow> (case fork of None \<Rightarrow> True | Some pid \<Rightarrow> pid > 0 \<and> procs s pid = None) | _ \<Rightarrow> True)"
| "mon_ready (ClientCall c call) s \<longleftrightarrow> c < length (clients s) \<and> clients s ! c = COut"
| "mon_ready (ClientStep c) s \<longleftrightarrow> c < length (clients s) \<and> clients s ! c \<noteq> COut \<and>
     (case clients s ! c of CJoin tid \<Rightarrow> tid < length (monitors s) \<longrightarrow> m_pc (monitors s ! tid) = MDone | _ \<Rightarrow> True)"
| "mon_ready (ChildDies pid st) s \<longleftrightarrow> procs s pid = Some Running"
| "mon_ready (Tick d) s \<longleftrightarrow> True"

end
