(* ===== verification/Monitor_Inv.thy ===== *)
theory Monitor_Inv
  imports Monitor
begin

text \<open>
  Invariant of the supervisor, for the use its documentation describes: one client (number 0) makes the calls of
  \<open>Start\<close> and \<open>WaitForStop\<close>, any client those of \<open>RequestStop\<close> and \<open>SendSignalToChild\<close>. Then at most one monitor thread is
  active, and it alone has a child.
\<close>

section \<open>The active monitor thread\<close>

definition cur_pc :: "mon \<Rightarrow> monitor_pc" where
  "cur_pc s = (if monitors s = [] then MDone else m_pc (last (monitors s)))"

text \<open>The child that is not reaped yet; the child that \<open>on_exit\<close> was not called for yet; the child in \<open>child_pid_\<close>.\<close>

fun child_of :: "monitor_pc \<Rightarrow> nat option" where
  "child_of (MSetPid pid) = Some pid" | "child_of (MSetTime pid) = Some pid" | "child_of (MWatch pid) = Some pid"
| "child_of (MGrace pid d) = Some pid" | "child_of (MReap pid) = Some pid" | "child_of (MPoll pid d) = Some pid"
| "child_of (MHealth pid) = Some pid" | "child_of _ = None"

fun unreported :: "monitor_pc \<Rightarrow> nat list" where
  "unreported (MExited pid st) = [pid]" | "unreported (MReport pid st) = [pid]"
| "unreported p = (case child_of p of None \<Rightarrow> [] | Some pid \<Rightarrow> [pid])"

fun published :: "monitor_pc \<Rightarrow> nat" where
  "published (MExited pid st) = pid" | "published (MSetPid pid) = 0"
| "published p = (case child_of p of None \<Rightarrow> 0 | Some pid \<Rightarrow> pid)"

text \<open>How far the counters are behind: children that are not counted as a restart, and the consecutive counter.\<close>

fun uncounted :: "monitor_pc \<Rightarrow> nat" where
  "uncounted MAfter = 1" | "uncounted MCount = 1" | "uncounted p = length (unreported p)"

fun ended :: "monitor_pc \<Rightarrow> bool" where
  "ended MEnd = True" | "ended MEndState = True" | "ended MDone = True" | "ended p = False"

definition one_run :: "mon_config \<Rightarrow> bool" where
  "one_run cfg \<longleftrightarrow> max_restart_policy cfg = kStopMonitoring \<and> stable_run_threshold cfg \<le> 0"

definition threads_ok :: "mon \<Rightarrow> bool" where
  "threads_ok s \<longleftrightarrow>
    (\<forall>i. Suc i < length (monitors s) \<longrightarrow> m_pc (monitors s ! i) = MDone) \<and>
    (monitors s \<noteq> [] \<longrightarrow> Suc (monitor_thread' s) = length (monitors s)) \<and>
    (cur_pc s \<noteq> MDone \<longrightarrow> state s \<in> {kRunning, kStopping} \<and> monitor_thread_valid s \<and> clients s ! 0 \<notin> {CJoined, CSetIdle}) \<and>
    (monitor_thread_valid s \<and> clients s ! 0 \<noteq> CJoined \<longrightarrow> monitors s \<noteq> [] \<and> \<not> m_joined (last (monitors s))) \<and>
    (\<forall>tid. clients s ! 0 = CJoin tid \<longrightarrow> monitor_thread_valid s \<and> tid = monitor_thread' s) \<and>
    (\<forall>c < length (clients s). 0 < c \<longrightarrow> clients s ! c \<notin> {CJoined, CSetIdle} \<and> (\<forall>tid. clients s ! c \<noteq> CJoin tid))"

definition child_ok :: "mon \<Rightarrow> bool" where
  "child_ok s \<longleftrightarrow> dom (procs s) = set_option (child_of (cur_pc s)) \<and> child_pid s = published (cur_pc s) \<and>
    0 \<notin> dom (procs s) \<and> spawned s = map fst (exits s) @ unreported (cur_pc s)"

definition counts :: "monitor_pc \<Rightarrow> nat \<Rightarrow> int \<Rightarrow> int \<Rightarrow> mon_config \<Rightarrow> bool" where
  "counts p n restarts consecutive cfg \<longleftrightarrow>
    (if ended p then int n \<le> restarts + 1 else int n = restarts + int (uncounted p)) \<and>
    (let late = (if p = MCountConsecutive then 1 else 0); m = max_restarts cfg
     in 0 \<le> consecutive \<and> consecutive + late \<le> restarts \<and>
       (one_run cfg \<longrightarrow> consecutive + late = restarts) \<and>
       (m > 0 \<longrightarrow> consecutive \<le> m + (if p = MPolicy \<or> ended p then 1 else 0) \<and>
          (one_run cfg \<and> ended p \<longrightarrow> int n \<le> m + 1)))"

definition counts_ok :: "mon \<Rightarrow> bool" where
  "counts_ok s \<longleftrightarrow> counts (cur_pc s) (length (spawned s)) (restart_count s) (consecutive_restart_count s) (config s)"

definition mon_inv :: "mon \<Rightarrow> bool" where
  "mon_inv s \<longleftrightarrow> threads_ok s \<and> child_ok s \<and> counts_ok s"

text \<open>One controlling client.\<close>

fun controls :: "mon_call \<Rightarrow> bool" where
  "controls (CallStart cfg created) = True" | "controls CallWaitForStop = True" | "controls _ = False"

definition controlled :: "mon_event \<Rightarrow> mon \<Rightarrow> bool" where
  "controlled e s \<longleftrightarrow> mon_ready e s \<and> (case e of ClientCall c call \<Rightarrow> controls call \<longrightarrow> c = 0 | _ \<Rightarrow> True)"

lemma mon_inv_init: "0 < n \<Longrightarrow> mon_inv (mon_init n)"
  by (auto simp: mon_inv_def threads_ok_def child_ok_def counts_ok_def counts_def mon_init_def cur_pc_def one_run_def default_config_def)

section \<open>Steps of the monitor thread\<close>

text \<open>A step moves its own thread, and tells the clients only of the end.\<close>

definition moves :: "nat \<Rightarrow> mon \<Rightarrow> mon \<Rightarrow> bool" where
  "moves i s t \<longleftrightarrow> (\<exists>x. monitors t = (monitors s)[i := x] \<and> m_joined x = m_joined (monitors s ! i) \<and>
     (m_pc x \<noteq> MDone \<longrightarrow> state t = state s)) \<and> config t = config s \<and>
     monitor_thread' t = monitor_thread' s \<and> monitor_thread_valid t = monitor_thread_valid s \<and> clients t = clients s"

lemmas step_defs = go_def sleep_for_def kill_def waitpid_def wait_round_def SpawnChild_def apply_policy_def backoff_slice_def Let_def

lemma moves_go: "i < length (monitors s) \<Longrightarrow> p \<noteq> MDone \<Longrightarrow> moves i s (go i p s)"
  by (auto simp: moves_def go_def)

lemma monitor_step_moves:
  assumes "i < length (monitors s)"
  shows "moves i s (monitor_step i fork healthy (m_pc (monitors s ! i)) s)"
  using assms by (cases "m_pc (monitors s ! i)")
    (auto simp: moves_def step_defs split: option.split proc.split intro: exI [of _ "monitors s ! i"])

lemma cur_pc_last: "Suc i = length (monitors s) \<Longrightarrow> cur_pc s = m_pc (monitors s ! i)"
proof -
  assume "Suc i = length (monitors s)"
  then have "i = length (monitors s) - 1" "monitors s \<noteq> []" by auto
  then show ?thesis by (simp add: cur_pc_def last_conv_nth)
qed

lemma cur_pc_go [simp]: "Suc i = length (monitors s) \<Longrightarrow> cur_pc (go i p s) = p"
  by (auto simp: cur_pc_def go_def last_list_update)

lemma cur_pc_sleep_for [simp]: "Suc i = length (monitors s) \<Longrightarrow> cur_pc (sleep_for i d s) = m_pc (monitors s ! i)"
  by (auto simp: cur_pc_def sleep_for_def last_list_update)

lemma threads_ok_moves:
  assumes "threads_ok s" "moves i s t" "Suc i = length (monitors s)" "m_pc (monitors s ! i) \<noteq> MDone"
  shows "threads_ok t"
proof -
  obtain x where x: "monitors t = (monitors s)[i := x]" "m_joined x = m_joined (monitors s ! i)"
      "m_pc x \<noteq> MDone \<longrightarrow> state t = state s"
    and same: "monitor_thread' t = monitor_thread' s" "monitor_thread_valid t = monitor_thread_valid s" "clients t = clients s"
    using assms(2) unfolding moves_def by blast
  have i: "i = length (monitors s) - 1" and ne: "monitors s \<noteq> []" using assms(3) by auto
  have "cur_pc t = m_pc x" using x(1) i ne by (simp add: cur_pc_def last_list_update)
  moreover have "m_joined (last (monitors t)) = m_joined (last (monitors s))"
    using x(1,2) i ne by (simp add: last_list_update last_conv_nth)
  moreover have "cur_pc s \<noteq> MDone" using assms(3,4) by (simp add: cur_pc_last)
  ultimately show ?thesis using assms(1,3) x same unfolding threads_ok_def by (auto simp: nth_list_update)
qed

lemma active_is_last:
  assumes "threads_ok s" "i < length (monitors s)" "m_pc (monitors s ! i) \<noteq> MDone"
  shows "Suc i = length (monitors s)"
  using assms unfolding threads_ok_def by (metis Suc_lessI)

text \<open>Waiting for the child: a round keeps it, reaps it, or gives up.\<close>

lemma wait_round_child:
  assumes "Suc i = length (monitors s)" "child_ok s" "m_pc (monitors s ! i) = p" "child_of p = Some pid" "published p = pid"
    and gone: "\<And>st. gone st = MExited pid st"
    and timed_out: "child_ok (timed_out s)"
  shows "child_ok (wait_round i deadline gone timed_out s)"
proof -
  have p: "cur_pc s = p" using assms(1,3) by (simp add: cur_pc_last)
  have unreported: "unreported p = [pid]" using assms(4) by (cases p) simp_all
  from p have child: "dom (procs s) = {pid}" "child_pid s = pid" "spawned s = map fst (exits s) @ [pid]" "unreported p = [pid]"
    using assms(2,4,5) unreported by (simp_all add: child_ok_def)
  have "0 \<notin> dom (procs s)" using assms(2) unfolding child_ok_def by blast
  with child(1) have here: "pid \<noteq> 0" by simp
  have sleeping: "child_ok (sleep_for i d s)" for d
    using assms(1,3) p child here unreported by (simp add: child_ok_def assms(4,5)) (simp add: sleep_for_def assms(4,5))
  have reaped: "child_ok (go i (MExited pid st) (s\<lparr>procs := (procs s)(pid := None)\<rparr>))" for st
  proof -
    have "dom ((procs s)(pid := None)) = {}" using child(1) by (simp only: dom_fun_upd) simp
    with assms(1) child here show ?thesis by (simp add: child_ok_def del: dom_fun_upd dom_eq_empty_conv) (simp add: go_def)
  qed
  obtain pr where "procs s pid = Some pr" using child(1) by blast
  with child(2) sleeping reaped timed_out gone show ?thesis
    by (cases pr) (simp_all add: wait_round_def waitpid_def)
qed

lemma kill_same [simp]:
  "dom (procs (kill pid sig s)) = dom (procs s)" "monitors (kill pid sig s) = monitors s" "child_pid (kill pid sig s) = child_pid s"
  "spawned (kill pid sig s) = spawned s" "exits (kill pid sig s) = exits s" "config (kill pid sig s) = config s"
  "restart_count (kill pid sig s) = restart_count s" "state (kill pid sig s) = state s" "clients (kill pid sig s) = clients s"
  "consecutive_restart_count (kill pid sig s) = consecutive_restart_count s" "clock (kill pid sig s) = clock s"
  "stop_requested (kill pid sig s) = stop_requested s" "monitor_thread' (kill pid sig s) = monitor_thread' s"
  "monitor_thread_valid (kill pid sig s) = monitor_thread_valid s"
  by (auto simp: kill_def split: option.split proc.split)

lemma child_ok_go:
  assumes "Suc i = length (monitors t)" "dom (procs t) = set_option (child_of q)" "child_pid t = published q"
    "0 \<notin> set_option (child_of q)" "spawned t = map fst (exits t) @ unreported q"
  shows "child_ok (go i q t)"
proof -
  have "0 \<notin> dom (procs t)" using assms(2,4) by simp
  then show ?thesis using assms by (simp add: child_ok_def del: domIff) (simp add: go_def del: domIff)
qed

lemma child_pos: "child_ok s \<Longrightarrow> child_of (cur_pc s) = Some pid \<Longrightarrow> 0 < pid"
  unfolding child_ok_def by (metis gr0I option.set_intros)

text \<open>Going on with the child, killed or not.\<close>

lemma child_ok_keep:
  assumes "Suc i = length (monitors s)" "child_ok s" "child_of (cur_pc s) = Some pid" "published (cur_pc s) = pid"
    and "child_of q = Some pid" "published q = pid"
  shows "child_ok (go i q (kill pid' sig s))" "child_ok (go i q s)"
proof -
  have "unreported (cur_pc s) = [pid]" using assms(3) by (cases "cur_pc s") simp_all
  moreover have "unreported q = [pid]" using assms(5) by (cases q) simp_all
  ultimately show "child_ok (go i q (kill pid' sig s))" "child_ok (go i q s)"
    using assms(1,3-6) assms(2) [unfolded child_ok_def] child_pos [OF assms(2,3)]
    by (intro child_ok_go; simp del: domIff)+
qed

lemma child_ok_reaped:
  assumes "Suc i = length (monitors s)" "child_ok s" "cur_pc s = MReap pid" "procs s pid = Some (Zombie st)"
  shows "child_ok (go i (MExited pid st) (s\<lparr>procs := (procs s)(pid := None)\<rparr>))"
proof -
  have "dom ((procs s)(pid := None)) = {}" using assms(2,3) by (simp only: dom_fun_upd child_ok_def) simp
  with assms(1,3) assms(2) [unfolded child_ok_def] show ?thesis
    by (intro child_ok_go) (simp_all del: dom_fun_upd dom_eq_empty_conv)
qed

lemma child_ok_monitor_step:
  assumes "Suc i = length (monitors s)" "child_ok s" "mon_ready (MonitorStep i fork healthy) s"
  shows "child_ok (monitor_step i fork healthy (m_pc (monitors s ! i)) s)"
proof -
  have p: "cur_pc s = m_pc (monitors s ! i)" using assms(1) by (rule cur_pc_last)
  note ok = assms(2) [unfolded child_ok_def p] and pos = child_pos [OF assms(2), unfolded p]
  note keep = child_ok_keep [OF assms(1,2), unfolded p]
  show ?thesis
  proof (cases "m_pc (monitors s ! i)")
    case MSpawn
    with ok assms(1,3) show ?thesis
      by (cases fork) (auto simp: SpawnChild_def child_ok_def go_def sleep_for_def cur_pc_def last_list_update)
  next
    case (MSetPid pid)
    with ok assms(1) pos have "child_ok (go i (MSetTime pid) (s\<lparr>child_pid := pid\<rparr>))" by (intro child_ok_go) simp_all
    with MSetPid show ?thesis by simp
  next
    case (MSetTime pid)
    with ok assms(1) pos have "child_ok (go i (MWatch pid) (s\<lparr>last_start_time := clock s\<rparr>))" by (intro child_ok_go) simp_all
    with MSetTime show ?thesis by simp
  next
    case (MWatch pid)
    then show ?thesis by (simp add: keep)
  next
    case (MGrace pid d)
    then show ?thesis by simp (rule wait_round_child [OF assms(1,2) MGrace], simp_all add: keep)
  next
    case (MPoll pid d)
    then show ?thesis
      by (cases "health_check (config s)") (simp_all, (rule wait_round_child [OF assms(1,2) MPoll], simp_all add: keep)+)
  next
    case (MHealth pid)
    then show ?thesis by (simp add: keep)
  next
    case (MReap pid)
    have "dom (procs s) = {pid}" using ok MReap by simp
    then obtain pr where pr: "procs s pid = Some pr" by blast
    with MReap assms(3) obtain st where "procs s pid = Some (Zombie st)" by (cases pr) auto
    with child_ok_reaped [OF assms(1,2)] p MReap show ?thesis by (simp add: waitpid_def)
  next
    case (MBackoff r)
    with ok assms(1) show ?thesis
      by (auto simp: backoff_slice_def child_ok_def go_def sleep_for_def cur_pc_def last_list_update)
  next
    case MDone
    with assms(2) show ?thesis by simp
  qed (use ok assms(1) in \<open>auto intro!: child_ok_go simp: apply_policy_def Let_def\<close>)
qed

lemma counts_ok_go [simp]:
  "Suc i = length (monitors t) \<Longrightarrow> counts_ok (go i q t) \<longleftrightarrow>
    counts q (length (spawned t)) (restart_count t) (consecutive_restart_count t) (config t)"
  by (simp add: counts_ok_def) (simp add: go_def)

lemma counts_ok_sleep_for [simp]: "Suc i = length (monitors t) \<Longrightarrow> counts_ok (sleep_for i d t) \<longleftrightarrow> counts_ok t"
  by (simp add: counts_ok_def cur_pc_last) (simp add: sleep_for_def)

lemma length_go [simp]: "length (monitors (go i q t)) = length (monitors t)"
  by (simp add: go_def)

lemma counts_ok_wait_round:
  assumes "Suc i = length (monitors s)" "counts_ok s" "\<And>st. counts (gone st) (length (spawned s)) (restart_count s) (consecutive_restart_count s) (config s)"
    and "counts_ok (timed_out s)"
  shows "counts_ok (wait_round i deadline gone timed_out s)"
  using assms by (auto simp: wait_round_def waitpid_def split: option.split proc.split)

lemma counts_ok_monitor_step:
  assumes "Suc i = length (monitors s)" "counts_ok s"
  shows "counts_ok (monitor_step i fork healthy (m_pc (monitors s ! i)) s)"
proof -
  have p: "cur_pc s = m_pc (monitors s ! i)" using assms(1) by (rule cur_pc_last)
  note ok = assms(2) [unfolded counts_ok_def p]
  show ?thesis
  proof (cases "m_pc (monitors s ! i)")
    case (MGrace pid d)
    with ok assms(1) show ?thesis by simp (rule counts_ok_wait_round [OF assms], simp_all add: counts_def)
  next
    case (MPoll pid d)
    with ok assms(1) show ?thesis by simp (intro conjI impI counts_ok_wait_round [OF assms]; simp add: counts_def)
  next
    case (MReap pid)
    with ok assms show ?thesis by (auto simp: waitpid_def counts_def split: option.split proc.split)
  next
    case MSpawn
    with ok assms(1) show ?thesis by (cases fork) (auto simp: SpawnChild_def counts_def)
  next
    case MPolicy
    with ok assms(1) show ?thesis by (auto simp: apply_policy_def Let_def counts_def one_run_def)
  next
    case MAfter
    with ok assms(1) show ?thesis by (auto simp: counts_def one_run_def is_stable_run_def Let_def)
  next
    case (MBackoff r)
    with ok assms(1) show ?thesis by (auto simp: backoff_slice_def counts_def)
  next
    case MDone
    with assms(2) show ?thesis by simp
  qed (use ok assms(1) in \<open>auto simp: counts_def Let_def\<close>)
qed

section \<open>Steps of the clients\<close>

definition same_run :: "mon \<Rightarrow> mon \<Rightarrow> bool" where
  "same_run s t \<longleftrightarrow> cur_pc t = cur_pc s \<and> dom (procs t) = dom (procs s) \<and> child_pid t = child_pid s \<and> spawned t = spawned s \<and>
    exits t = exits s \<and> restart_count t = restart_count s \<and> consecutive_restart_count t = consecutive_restart_count s \<and>
    config t = config s"

lemma same_run_ok: "same_run s t \<Longrightarrow> child_ok s \<Longrightarrow> counts_ok s \<Longrightarrow> child_ok t \<and> counts_ok t"
  unfolding same_run_def child_ok_def counts_ok_def by metis

text \<open>Joining a thread leaves it where it is.\<close>

lemma cur_pc_joined [simp]:
  "cur_pc (s\<lparr>monitors := (monitors s)[i := (monitors s ! i)\<lparr>m_joined := True\<rparr>]\<rparr>) = cur_pc s"
proof (cases "i = length (monitors s) - 1")
  case True
  then show ?thesis by (simp add: cur_pc_def last_list_update) (simp add: last_conv_nth)
qed (simp add: cur_pc_def last_list_update)

lemma cur_pc_set_client [simp]: "cur_pc (set_client c p s) = cur_pc s"
  by (simp add: set_client_def cur_pc_def)

lemma cur_pc_updates [simp]:
  "cur_pc (s\<lparr>clients := cs\<rparr>) = cur_pc s" "cur_pc (s\<lparr>state := st\<rparr>) = cur_pc s" "cur_pc (s\<lparr>procs := ps\<rparr>) = cur_pc s"
  "cur_pc (s\<lparr>clock := t\<rparr>) = cur_pc s" "cur_pc (s\<lparr>monitor_thread_valid := v\<rparr>) = cur_pc s"
  "cur_pc (s\<lparr>stop_requested := b\<rparr>) = cur_pc s"
  by (simp_all add: cur_pc_def)

lemma cur_pc_same: "monitors t = monitors s \<Longrightarrow> cur_pc t = cur_pc s"
  by (simp add: cur_pc_def)

lemma same_run_set_client: "same_run s t \<Longrightarrow> same_run s (set_client c p t)"
  by (simp add: same_run_def) (simp add: set_client_def)

lemma same_run_client_step: "client_step c p s = Inr t \<Longrightarrow> same_run s t"
proof (cases p)
  case (CKill pid sig)
  assume "client_step c p s = Inr t"
  moreover have "same_run s (kill pid sig s)" by (simp add: same_run_def cur_pc_same [of "kill pid sig s" s])
  ultimately show ?thesis using CKill by (auto intro: same_run_set_client)
qed (auto simp: guard_ub_eq_Inr intro!: same_run_set_client, simp_all add: same_run_def)

lemma same_run_enter:
  "same_run s (RequestStop_enter c s)" "same_run s (WaitForStop_enter c s)" "same_run s (SendSignalToChild_enter c sig s)"
  by (simp_all add: RequestStop_enter_def WaitForStop_enter_def SendSignalToChild_enter_def same_run_set_client same_run_def)
    (simp_all add: set_client_def)

text \<open>The parts of \<open>threads_ok\<close>.\<close>

lemma threads_okI:
  assumes "\<And>i. Suc i < length (monitors s) \<Longrightarrow> m_pc (monitors s ! i) = MDone"
    and "monitors s \<noteq> [] \<Longrightarrow> Suc (monitor_thread' s) = length (monitors s)"
    and "cur_pc s \<noteq> MDone \<Longrightarrow> state s \<in> {kRunning, kStopping} \<and> monitor_thread_valid s \<and> clients s ! 0 \<notin> {CJoined, CSetIdle}"
    and "monitor_thread_valid s \<Longrightarrow> clients s ! 0 \<noteq> CJoined \<Longrightarrow> monitors s \<noteq> [] \<and> \<not> m_joined (last (monitors s))"
    and "\<And>tid. clients s ! 0 = CJoin tid \<Longrightarrow> monitor_thread_valid s \<and> tid = monitor_thread' s"
    and "\<And>c. c < length (clients s) \<Longrightarrow> 0 < c \<Longrightarrow> clients s ! c \<notin> {CJoined, CSetIdle} \<and> (\<forall>tid. clients s ! c \<noteq> CJoin tid)"
  shows "threads_ok s"
  unfolding threads_ok_def using assms by blast

lemma threads_okD:
  assumes "threads_ok s"
  shows "Suc i < length (monitors s) \<Longrightarrow> m_pc (monitors s ! i) = MDone"
    "monitors s \<noteq> [] \<Longrightarrow> Suc (monitor_thread' s) = length (monitors s)"
    "cur_pc s \<noteq> MDone \<Longrightarrow> state s \<in> {kRunning, kStopping} \<and> monitor_thread_valid s \<and> clients s ! 0 \<notin> {CJoined, CSetIdle}"
    "monitor_thread_valid s \<Longrightarrow> clients s ! 0 \<noteq> CJoined \<Longrightarrow> monitors s \<noteq> [] \<and> \<not> m_joined (last (monitors s))"
    "clients s ! 0 = CJoin tid \<Longrightarrow> monitor_thread_valid s \<and> tid = monitor_thread' s"
    "c < length (clients s) \<Longrightarrow> 0 < c \<Longrightarrow> clients s ! c \<notin> {CJoined, CSetIdle} \<and> (\<forall>tid. clients s ! c \<noteq> CJoin tid)"
  using assms unfolding threads_ok_def by blast+

text \<open>Calls other than \<open>WaitForStop\<close> do not touch the threads.\<close>

fun joining :: "client_pc \<Rightarrow> bool" where
  "joining (CJoin tid) = True" | "joining CJoined = True" | "joining CSetIdle = True" | "joining p = False"

lemma joining_iff: "joining p \<longleftrightarrow> p \<in> {CJoined, CSetIdle} \<or> (\<exists>tid. p = CJoin tid)"
  by (cases p) simp_all

lemma threads_ok_plain:
  assumes "threads_ok s" "\<not> joining (clients s ! c)" "\<not> joining q" "c < length (clients s)"
    and "monitors t = monitors s" "monitor_thread' t = monitor_thread' s" "monitor_thread_valid t = monitor_thread_valid s"
    and "clients t = (clients s)[c := q]" "state t = state s \<or> state t = kStopping"
  shows "threads_ok t"
proof -
  have "cur_pc t = cur_pc s" using assms(5) by (rule cur_pc_same)
  moreover have "clients t ! d = (if d = c then q else clients s ! d)" for d using assms(4,8) by simp
  ultimately show ?thesis using assms unfolding threads_ok_def by (cases "c = 0") (auto simp: joining_iff)
qed

lemma threads_ok_enter:
  assumes "threads_ok s" "c < length (clients s)" "clients s ! c = COut"
  shows "threads_ok (RequestStop_enter c s)" "threads_ok (SendSignalToChild_enter c sig s)" "c = 0 \<Longrightarrow> threads_ok (WaitForStop_enter c s)"
proof -
  have plain: "\<not> joining (clients s ! c)" using assms(3) by simp
  show "threads_ok (RequestStop_enter c s)" using assms(1)
    by (simp add: RequestStop_enter_def)
      (auto intro!: threads_ok_plain [OF assms(1) plain _ assms(2), where q = CStopTest2] simp: set_client_def)
  show "threads_ok (SendSignalToChild_enter c sig s)" using assms(1)
    by (simp add: SendSignalToChild_enter_def)
      (auto intro!: threads_ok_plain [OF assms(1) plain _ assms(2), where q = "CKill (child_pid s) sig"] simp: set_client_def)
  assume "c = 0"
  moreover have "threads_ok (set_client 0 q s)"
    if "q = CSetIdle \<and> \<not> monitor_thread_valid s \<or> q = CJoin (monitor_thread' s) \<and> monitor_thread_valid s" for q
    using that threads_okD [OF assms(1)] assms(2,3) \<open>c = 0\<close>
    by (intro threads_okI) (auto simp: set_client_def)
  ultimately show "threads_ok (WaitForStop_enter c s)" by (simp add: WaitForStop_enter_def)
qed

lemma idle_is_done: "threads_ok s \<Longrightarrow> state s \<noteq> kRunning \<Longrightarrow> state s \<noteq> kStopping \<Longrightarrow> cur_pc s = MDone"
  by (auto simp: threads_ok_def)

lemma mon_inv_Start:
  assumes "mon_inv s" "clients s ! 0 = COut"
  shows "mon_inv (snd (Start cfg created s))"
proof (cases "argv cfg = [] \<or> state s = kRunning \<or> state s = kStopping")
  case True
  with assms(1) show ?thesis by (auto simp: Start_def)
next
  case False
  have T: "threads_ok s" and C: "child_ok s" using assms(1) by (simp_all add: mon_inv_def)
  have ended: "cur_pc s = MDone" using idle_is_done [OF T] False by blast
  then have procs: "procs s = Map.empty" using C by (simp add: child_ok_def)
  have all_done: "m_pc (monitors s ! i) = MDone" if "i < length (monitors s)" for i
    using active_is_last [OF T that] ended cur_pc_last by metis
  let ?t = "snd (Start cfg created s)"
  have t: "cur_pc ?t = (if created then MTop else MDone)"
    using False ended by (auto simp: Start_def cur_pc_def Let_def)
  have "threads_ok ?t"
    using T t False assms(2) all_done by (auto simp: threads_ok_def Start_def Let_def nth_append less_Suc_eq)
  moreover have "child_ok ?t" "counts_ok ?t"
    using False procs t by (auto simp: child_ok_def counts_ok_def counts_def Start_def Let_def)
  ultimately show ?thesis by (simp add: mon_inv_def)
qed

lemma threads_ok_join:
  assumes "threads_ok s" "mon_ready (ClientStep c) s" "clients s ! c = CJoin tid" "client_step c (CJoin tid) s = Inr t"
  shows "threads_ok t"
proof -
  have n: "c < length (clients s)" using assms(2) by simp
  then have c: "c = 0" using assms(1,3) unfolding threads_ok_def by fastforce
  have tid: "tid = monitor_thread' s" using assms(1,3) c by (simp add: threads_ok_def)
  have tid': "tid < length (monitors s)" using assms(4) by (simp add: guard_ub_eq_Inr)
  then have "Suc tid = length (monitors s)" using assms(1) tid by (auto simp: threads_ok_def)
  then have done': "cur_pc s = MDone" using assms(2,3) tid' by (simp add: cur_pc_last)
  let ?s = "s\<lparr>monitors := (monitors s)[tid := (monitors s ! tid)\<lparr>m_joined := True\<rparr>]\<rparr>"
  have t: "t = set_client 0 CJoined ?s" using assms(4) c by (simp add: guard_ub_eq_Inr)
  then have "cur_pc t = MDone" using done' by simp
  moreover have "clients t ! d = (if d = 0 then CJoined else clients s ! d)" for d using t n c by (simp add: set_client_def)
  moreover have "m_pc (monitors t ! i) = m_pc (monitors s ! i)" for i
    using t tid' by (cases "i = tid") (simp_all add: set_client_def)
  moreover have "length (monitors t) = length (monitors s)" "monitor_thread' t = monitor_thread' s" "length (clients t) = length (clients s)"
    using t by (simp_all add: set_client_def)
  ultimately show ?thesis
    using threads_okD [OF assms(1)] tid \<open>Suc tid = length (monitors s)\<close>
    by (intro threads_okI) simp_all
qed

lemma threads_ok_joined:
  assumes "threads_ok s" "c < length (clients s)" "clients s ! c = CJoined \<or> clients s ! c = CSetIdle" "client_step c (clients s ! c) s = Inr t"
  shows "threads_ok t"
proof -
  have c: "c = 0" using assms(1,2,3) unfolding threads_ok_def by fastforce
  then have "cur_pc s = MDone" using assms(1,3) by (auto simp: threads_ok_def)
  moreover have "cur_pc t = cur_pc s" using assms(3,4) by (auto simp: cur_pc_def set_client_def)
  ultimately show ?thesis using assms c unfolding threads_ok_def by (auto simp: set_client_def)
qed

lemma client_step_plain:
  assumes "client_step c p s = Inr t" "\<not> joining p" "p \<noteq> COut"
  obtains q s' where "t = set_client c q s'" "\<not> joining q" "monitors s' = monitors s" "monitor_thread' s' = monitor_thread' s"
    "monitor_thread_valid s' = monitor_thread_valid s" "clients s' = clients s" "state s' = state s \<or> state s' = kStopping"
proof (cases p)
  case CStopTest2
  show thesis by (rule that [of "if state s = kStopped then COut else CStopTest3" s]) (use assms CStopTest2 in simp_all)
next
  case CStopTest3
  show thesis by (rule that [of "if state s = kIdle then COut else CStopFlag" s]) (use assms CStopTest3 in simp_all)
next
  case CStopFlag
  show thesis by (rule that [of CStopState "s\<lparr>stop_requested := True\<rparr>"]) (use assms CStopFlag in simp_all)
next
  case CStopState
  show thesis by (rule that [of CStopLoad "s\<lparr>state := kStopping\<rparr>"]) (use assms CStopState in simp_all)
next
  case CStopLoad
  show thesis
    by (rule that [of "if child_pid s > 0 then CKill (child_pid s) (stop_signal (config s)) else COut" s]) (use assms CStopLoad in simp_all)
next
  case (CKill pid sig)
  show thesis by (rule that [of COut "kill pid sig s"]) (use assms CKill in simp_all)
qed (use assms in simp_all)

lemma threads_ok_client_step:
  assumes "threads_ok s" "mon_ready (ClientStep c) s" "client_step c (clients s ! c) s = Inr t"
  shows "threads_ok t"
proof (cases "joining (clients s ! c)")
  case True
  have "c < length (clients s)" using assms(2) by simp
  with True show ?thesis using threads_ok_join [OF assms(1,2)] threads_ok_joined [OF assms(1) _ _ assms(3)] assms(3)
    by (auto simp: joining_iff)
next
  case False
  have c: "c < length (clients s)" "clients s ! c \<noteq> COut" using assms(2) by simp_all
  obtain q s' where "t = set_client c q s'" "\<not> joining q" "monitors s' = monitors s" "monitor_thread' s' = monitor_thread' s"
    "monitor_thread_valid s' = monitor_thread_valid s" "clients s' = clients s" "state s' = state s \<or> state s' = kStopping"
    by (rule client_step_plain [OF assms(3) False c(2)])
  then show ?thesis by (intro threads_ok_plain [OF assms(1) False _ c(1)]) (simp_all add: set_client_def)
qed

section \<open>The invariant\<close>

lemma threads_ok_environment [simp]: "threads_ok (s\<lparr>procs := ps\<rparr>) = threads_ok s" "threads_ok (s\<lparr>clock := n\<rparr>) = threads_ok s"
  by (simp_all add: threads_ok_def)

lemma same_run_environment: "same_run s (s\<lparr>clock := n\<rparr>)"
  by (simp add: same_run_def)

lemma same_run_death: "procs s pid = Some Running \<Longrightarrow> same_run s (s\<lparr>procs := (procs s)(pid \<mapsto> Zombie st)\<rparr>)"
  by (simp add: same_run_def) blast

lemma mon_inv_monitor_step:
  assumes "mon_inv s" "mon_ready (MonitorStep i fork healthy) s"
  shows "mon_inv (monitor_step i fork healthy (m_pc (monitors s ! i)) s)"
proof -
  have T: "threads_ok s" and i: "i < length (monitors s)" "m_pc (monitors s ! i) \<noteq> MDone"
    using assms by (simp_all add: mon_inv_def)
  note last = active_is_last [OF T i]
  show ?thesis using assms(1) threads_ok_moves [OF T monitor_step_moves [OF i(1)] last i(2)]
      child_ok_monitor_step [OF last _ assms(2)] counts_ok_monitor_step [OF last]
    by (simp add: mon_inv_def)
qed

lemma mon_inv_step:
  assumes "mon_inv s" "controlled e s" "mon_step e s = Inr t"
  shows "mon_inv t"
proof -
  have inv: "threads_ok s" "child_ok s" "counts_ok s" using assms(1) by (simp_all add: mon_inv_def)
  have ready: "mon_ready e s" using assms(2) by (simp add: controlled_def)
  show ?thesis
  proof (cases e)
    case (MonitorStep i fork healthy)
    with mon_inv_monitor_step [OF assms(1)] ready assms(3) show ?thesis by auto
  next
    case (ClientCall c call)
    then have c: "c < length (clients s)" "clients s ! c = COut" and t: "t = mon_call_step c call s"
      and ctl: "controls call \<Longrightarrow> c = 0"
      using ready assms(2,3) by (auto simp: controlled_def)
    show ?thesis
    proof (cases call)
      case (CallStart cfg created)
      with mon_inv_Start [OF assms(1)] c ctl t show ?thesis by auto
    next
      case CallRequestStop
      with threads_ok_enter(1) [OF inv(1) c] same_run_ok [OF same_run_enter(1) inv(2,3)] t show ?thesis
        by (simp add: mon_inv_def)
    next
      case CallWaitForStop
      with threads_ok_enter(3) [OF inv(1) c ctl] same_run_ok [OF same_run_enter(2) inv(2,3)] t show ?thesis
        by (simp add: mon_inv_def)
    next
      case (CallSendSignal sig)
      with threads_ok_enter(2) [OF inv(1) c] same_run_ok [OF same_run_enter(3) inv(2,3)] t show ?thesis
        by (simp add: mon_inv_def)
    qed
  next
    case (ClientStep c)
    with assms(3) have "client_step c (clients s ! c) s = Inr t" by simp
    with threads_ok_client_step [OF inv(1) _ this] same_run_ok [OF same_run_client_step [OF this] inv(2,3)] ClientStep ready
    show ?thesis by (simp add: mon_inv_def)
  next
    case (ChildDies pid st)
    with ready assms(3) have "t = s\<lparr>procs := (procs s)(pid \<mapsto> Zombie st)\<rparr>" "procs s pid = Some Running" by auto
    with inv(1) same_run_ok [OF same_run_death inv(2,3)] show ?thesis by (simp add: mon_inv_def)
  next
    case (Tick d)
    with assms(3) have t: "t = s\<lparr>clock := clock s + int d\<rparr>" by auto
    with inv(1) same_run_ok [OF same_run_environment inv(2,3)] show ?thesis by (simp add: mon_inv_def)
  qed
qed

interpretation monitor: step_invariant mon_inv mon_step controlled
  by unfold_locales (rule mon_inv_step)

text \<open>No fault: with one controlling client no thread is joined twice.\<close>

lemma mon_step_ok:
  assumes "mon_inv s" "controlled e s"
  shows "\<exists>t. mon_step e s = Inr t"
proof (cases e)
  case (ClientStep c)
  show ?thesis
  proof (cases "clients s ! c")
    case (CJoin tid)
    have T: "threads_ok s" using assms(1) by (simp add: mon_inv_def)
    have "c < length (clients s)" using assms(2) ClientStep by (simp add: controlled_def)
    then have c: "c = 0" using T CJoin unfolding threads_ok_def by fastforce
    then have "monitor_thread_valid s" "tid = monitor_thread' s" using threads_okD(5) [OF T] CJoin by blast+
    then have "Suc tid = length (monitors s)" "\<not> m_joined (last (monitors s))" "monitors s \<noteq> []"
      using threads_okD(2,4) [OF T] CJoin c by auto
    moreover from this have "last (monitors s) = monitors s ! tid" by (metis diff_Suc_1 last_conv_nth)
    ultimately show ?thesis using ClientStep CJoin by simp
  qed (use ClientStep in simp_all)
qed simp_all

end
