(* ===== verification/Monitor_Props.thy ===== *)
theory Monitor_Props
  imports Monitor_Inv
begin

text \<open>
  Properties of the supervisor: one child at a time, none left behind, each reported once; how often and after what delays
  a child is restarted; that a stop request ends the monitor; and the races that the unprotected accesses leave.
\<close>

section \<open>Safety\<close>

lemma length_unreported: "length (unreported p) \<le> 1"
  by (cases p) simp_all

lemma mon_inv_child:
  assumes "mon_inv s"
  shows "card (dom (procs s)) \<le> 1"
    and "\<exists>rest. spawned s = map fst (exits s) @ rest \<and> length rest \<le> 1 \<and> (child_pid s \<noteq> 0 \<longrightarrow> rest = [child_pid s]) \<and>
      dom (procs s) \<subseteq> set rest \<and> (state s \<in> {kIdle, kStopped} \<longrightarrow> rest = [])"
proof -
  have T: "threads_ok s" and C: "child_ok s" using assms by (simp_all add: mon_inv_def)
  have dom: "dom (procs s) = set_option (child_of (cur_pc s))" and pid: "child_pid s = published (cur_pc s)"
    and log: "spawned s = map fst (exits s) @ unreported (cur_pc s)"
    using C unfolding child_ok_def by blast+
  show "card (dom (procs s)) \<le> 1" unfolding dom by (cases "child_of (cur_pc s)") simp_all
  have "published p \<noteq> 0 \<longrightarrow> unreported p = [published p]" "set_option (child_of p) \<subseteq> set (unreported p)" for p
    by (cases p; simp)+
  moreover have "state s \<in> {kIdle, kStopped} \<longrightarrow> unreported (cur_pc s) = []"
    using threads_okD(3) [OF T] by (cases "cur_pc s = MDone") auto
  ultimately show "\<exists>rest. spawned s = map fst (exits s) @ rest \<and> length rest \<le> 1 \<and> (child_pid s \<noteq> 0 \<longrightarrow> rest = [child_pid s]) \<and>
      dom (procs s) \<subseteq> set rest \<and> (state s \<in> {kIdle, kStopped} \<longrightarrow> rest = [])"
    using dom pid log length_unreported by (intro exI [of _ "unreported (cur_pc s)"]) simp
qed

text \<open>
  C13. When one client makes the calls of \<open>Start\<close> and \<open>WaitForStop\<close>, then in every reachable state, whatever the other
  clients, the children and the clock do: there is at most one child, alive or not yet reaped; at most one monitor thread
  is active; \<open>on_exit\<close> was called for the children in the order of their forks, once for each but possibly the last;
  \<open>GetChildPid\<close> returns 0 or the child that was not reported yet; in the states idle and stopped no child is left; and no
  call is undefined (no thread is joined twice).
\<close>

theorem supervisor_has_one_child:
  assumes "steps_to mon_step controlled (mon_init (Suc n)) s"
  shows "card (dom (procs s)) \<le> 1 \<and>
    (\<forall>i < length (monitors s). m_pc (monitors s ! i) \<noteq> MDone \<longrightarrow> Suc i = length (monitors s)) \<and>
    (\<exists>rest. spawned s = map fst (exits s) @ rest \<and> length rest \<le> 1 \<and> (GetChildPid s \<noteq> 0 \<longrightarrow> rest = [GetChildPid s]) \<and>
      dom (procs s) \<subseteq> set rest \<and> (GetState s \<in> {kIdle, kStopped} \<longrightarrow> rest = [])) \<and>
    (\<forall>e. controlled e s \<longrightarrow> (\<exists>t. mon_step e s = Inr t))"
proof -
  have inv: "mon_inv s" by (rule monitor.always [OF assms mon_inv_init]) simp
  then have T: "threads_ok s" by (simp add: mon_inv_def)
  show ?thesis
    using mon_inv_child [OF inv] active_is_last [OF T] mon_step_ok [OF inv]
    unfolding GetChildPid_def GetState_def by blast
qed

definition demo_config :: mon_config where
  "demo_config = default_config\<lparr>argv := [''service''], max_restarts := 1, stable_run_threshold := 0\<rparr>"

text \<open>A run: the child 7 is started and dies, its successor 8 is running.\<close>

definition first_child :: "mon_event list" where
  "first_child = [ClientCall 0 (CallStart demo_config True), MonitorStep 0 None True, MonitorStep 0 (Some 7) True,
    MonitorStep 0 None True, MonitorStep 0 None True]"

definition second_child :: "mon_event list" where
  "second_child = first_child @ [MonitorStep 0 None True, ChildDies 7 256] @ replicate 7 (MonitorStep 0 None True) @
    concat (replicate 8 [MonitorStep 0 None True, Tick 100]) @ [MonitorStep 0 None True, MonitorStep 0 None True, MonitorStep 0 (Some 8) True]"

definition second_child_end :: mon where
  "second_child_end = the (run_events mon_step controlled second_child (mon_init (Suc 1)))"

lemma second_child_steps: "steps_to mon_step controlled (mon_init (Suc 1)) second_child_end"
proof -
  have "run_events mon_step controlled second_child (mon_init (Suc 1)) = Some second_child_end"
    unfolding second_child_end_def by (rule option.collapse [symmetric]) code_simp
  then show ?thesis by (rule run_events_steps [OF steps_refl])
qed

theorem supervisor_has_one_child_witness:
  "card (dom (procs second_child_end)) \<le> 1 \<and> spawned second_child_end = [7, 8] \<and> exits second_child_end = [(7, 256)] \<and>
    procs second_child_end 8 = Some Running"
proof -
  have "spawned second_child_end = [7, 8] \<and> exits second_child_end = [(7, 256)] \<and> procs second_child_end 8 = Some Running"
    by code_simp
  with supervisor_has_one_child [OF second_child_steps] show ?thesis by blast
qed

section \<open>Restarts\<close>

text \<open>
  The consecutive restarts are bounded: with a positive \<open>max_restarts\<close>, the counter never exceeds it by more than one
  (only when the monitor is about to stop or to reset it); and when the policy is to stop and no run counts as stable, a
  \<open>Start\<close> forks at most \<open>max_restarts + 1\<close> children.
\<close>

theorem restarts_are_bounded:
  assumes "steps_to mon_step controlled (mon_init (Suc n)) s" "max_restarts (config s) > 0"
  shows "consecutive_restart_count s \<le> max_restarts (config s) + 1 \<and> 0 \<le> consecutive_restart_count s \<and>
    int (length (spawned s)) \<le> restart_count s + 1 \<and>
    (max_restart_policy (config s) = kStopMonitoring \<and> stable_run_threshold (config s) \<le> 0 \<longrightarrow>
      int (length (spawned s)) \<le> max_restarts (config s) + 1)"
proof -
  have "mon_inv s" by (rule monitor.always [OF assms(1) mon_inv_init]) simp
  then have "counts (cur_pc s) (length (spawned s)) (restart_count s) (consecutive_restart_count s) (config s)"
    by (simp add: mon_inv_def counts_ok_def)
  moreover have "uncounted (cur_pc s) \<le> 1" by (cases "cur_pc s") simp_all
  moreover have "uncounted MPolicy = 0" "uncounted MCountConsecutive = 0" by simp_all
  ultimately show ?thesis using assms(2)
    unfolding counts_def one_run_def Let_def by (auto split: if_splits)
qed

theorem restarts_are_bounded_witness:
  "int (length (spawned second_child_end)) = 2 \<and> int (length (spawned second_child_end)) \<le> 1 + 1"
proof -
  have "max_restarts (config second_child_end) = 1" "max_restart_policy (config second_child_end) = kStopMonitoring"
    "stable_run_threshold (config second_child_end) = 0" "int (length (spawned second_child_end)) = 2"
    by code_simp+
  with restarts_are_bounded [OF second_child_steps] show ?thesis by simp
qed

text \<open>
  The back-off grows geometrically up to its cap: with a multiplier of at least 1 and an initial delay that is not negative,
  the delay after \<open>n\<close> consecutive restarts is the initial delay times the \<open>n\<close>-th power of the multiplier, rounded
  down, or the cap when that is smaller. Without a consecutive restart it is the initial delay, even above the cap.
\<close>

theorem ComputeBackoff_is_capped:
  assumes "1 \<le> backoff_multiplier cfg" "0 \<le> backoff_initial cfg"
  shows "ComputeBackoff cfg n = (if n \<le> 0 then backoff_initial cfg
    else min (backoff_max cfg) \<lfloor>of_int (backoff_initial cfg) * backoff_multiplier cfg ^ nat n\<rfloor>)"
proof -
  have loop: "backoff_loop cfg k ms = (if k > 0 \<and> of_int (backoff_max cfg) \<le> ms * backoff_multiplier cfg ^ k then backoff_max cfg
      else \<lfloor>ms * backoff_multiplier cfg ^ k\<rfloor>)" if "0 \<le> ms" for k ms
    using that
  proof (induction k arbitrary: ms)
    case 0
    then show ?case by (simp add: to_long_long_def)
  next
    case (Suc k)
    let ?m = "backoff_multiplier cfg"
    have "1 \<le> ?m ^ k" using assms(1) by (rule one_le_power)
    then have grow: "ms * ?m \<le> ms * ?m * ?m ^ k"
      using mult_left_mono [of 1 "?m ^ k" "ms * ?m"] Suc.prems assms(1) by simp
    show ?case
    proof (cases "of_int (backoff_max cfg) \<le> ms * ?m")
      case True
      with grow show ?thesis by (auto simp: mult.assoc)
    next
      case False
      with Suc.IH [of "ms * ?m"] Suc.prems assms(1) show ?thesis by (cases k) (auto simp: mult.assoc)
    qed
  qed
  show ?thesis
    using loop [of "of_int (backoff_initial cfg)" "nat n"] assms(2)
    by (auto simp: ComputeBackoff_def min_def le_floor_iff)
qed

theorem ComputeBackoff_is_capped_witness:
  "ComputeBackoff default_config 2 = 1125 \<and> ComputeBackoff default_config 100 = 30000 \<and> ComputeBackoff (default_config\<lparr>backoff_max := 100\<rparr>) 0 = 500"
  using ComputeBackoff_is_capped [of default_config 2] ComputeBackoff_is_capped [of "default_config\<lparr>backoff_max := 100\<rparr>" 0]
  by (simp add: default_config_def) code_simp

section \<open>Races\<close>

text \<open>Runs in which the unprotected accesses meet: \<open>WaitForStop\<close> found no thread to join and stores idle after another client's
  \<open>Start\<close>; a \<open>RequestStop\<close> that passed its tests stores stopping after the monitor has stopped; it has loaded a pid that
  is reaped before its \<open>kill\<close>; two clients wait for the same thread.\<close>

definition steps :: "nat \<Rightarrow> nat \<Rightarrow> mon_event list" where
  "steps i n = replicate n (MonitorStep i None True)"

definition late_idle :: "mon_event list" where
  "late_idle = ClientCall 1 CallWaitForStop # first_child @ [ClientStep 1, ClientCall 0 (CallStart demo_config True)] @
    steps 1 1 @ [MonitorStep 1 (Some 8) True] @ steps 1 2"

definition stop_tests :: "nat \<Rightarrow> mon_event list" where
  "stop_tests c = [ClientCall c CallRequestStop, ClientStep c, ClientStep c]"

definition late_stopping :: "mon_event list" where
  "late_stopping = first_child @ stop_tests 1 @ stop_tests 0 @ replicate 4 (ClientStep 0) @ steps 0 1 @ [ChildDies 7 0] @
    steps 0 6 @ replicate 3 (ClientStep 1)"

definition late_kill :: "mon_event list" where
  "late_kill = first_child @ stop_tests 1 @ replicate 3 (ClientStep 1) @ [ChildDies 7 0] @ steps 0 3 @ [ClientStep 1]"

definition two_waits :: "mon_event list" where
  "two_waits = first_child @ stop_tests 1 @ replicate 4 (ClientStep 1) @ steps 0 1 @ [ChildDies 7 0] @ steps 0 6 @
    [ClientCall 0 CallWaitForStop, ClientCall 1 CallWaitForStop, ClientStep 0]"

definition race :: "mon_event list \<Rightarrow> mon" where
  "race es = the (run_events mon_step mon_ready es (mon_init 2))"

text \<open>
  What the class does not protect against, although it promises thread safety: (1) a \<open>WaitForStop\<close> before the first
  \<open>Start\<close> that stores its idle state after it makes a second \<open>Start\<close> succeed, and two monitor threads supervise two
  children; (2) a \<open>RequestStop\<close> that loses the race with the end of the monitor leaves the state stopping for good, in
  which \<open>Start\<close> fails although nothing runs; (3) \<open>RequestStop\<close> can send its signal to a pid that was already reaped;
  (4) two clients in \<open>WaitForStop\<close> join the same thread, which is undefined.
\<close>

theorem supervisor_races:
  "(run_events mon_step mon_ready late_idle (mon_init 2) \<noteq> None \<and>
      procs (race late_idle) 7 = Some Running \<and> procs (race late_idle) 8 = Some Running \<and>
      map m_pc (monitors (race late_idle)) = [MWatch 7, MWatch 8]) \<and>
    (run_events mon_step mon_ready late_stopping (mon_init 2) \<noteq> None \<and>
      map m_pc (monitors (race late_stopping)) = [MDone] \<and> clients (race late_stopping) = [COut, COut] \<and>
      fst (Start demo_config True (race late_stopping)) = False) \<and>
    (run_events mon_step mon_ready late_kill (mon_init 2) \<noteq> None \<and> stray_kills (race late_kill) = [7]) \<and>
    (run_events mon_step mon_ready two_waits (mon_init 2) \<noteq> None \<and>
      mon_ready (ClientStep 1) (race two_waits) \<and> 
      (case mon_step (ClientStep 1) (race two_waits) of Inl e \<Rightarrow> e = UndefinedBehaviour | Inr t \<Rightarrow> False))"
  by (intro conjI) code_simp+

section \<open>Stopping\<close>

text \<open>Where the thread waits for the child without a deadline, the child has been killed.\<close>

definition reap_ok :: "mon \<Rightarrow> bool" where
  "reap_ok s \<longleftrightarrow> (\<forall>pid. cur_pc s = MReap pid \<longrightarrow> procs s pid \<noteq> Some Running)"

lemma kill_kills [simp]: "procs (kill pid SIGKILL s) pid \<noteq> Some Running"
  by (auto simp: kill_def split: option.split proc.split)

lemma kill_spares: "procs s p \<noteq> Some Running \<Longrightarrow> procs (kill pid sig s) p \<noteq> Some Running"
  by (auto simp: kill_def split: option.split proc.split)

lemma reap_ok_go: "Suc i = length (monitors t) \<Longrightarrow> (\<And>pid. q = MReap pid \<Longrightarrow> procs t pid \<noteq> Some Running) \<Longrightarrow> reap_ok (go i q t)"
  by (simp add: reap_ok_def) (simp add: go_def)

lemma reap_ok_sleep: "Suc i = length (monitors t) \<Longrightarrow> reap_ok t \<Longrightarrow> reap_ok (sleep_for i d t)"
  by (simp add: reap_ok_def cur_pc_last) (simp add: sleep_for_def)

lemma reap_ok_monitor_step:
  assumes "Suc i = length (monitors s)" "reap_ok s" "mon_ready (MonitorStep i fork healthy) s"
  shows "reap_ok (monitor_step i fork healthy (m_pc (monitors s ! i)) s)"
  using assms
  by (cases "m_pc (monitors s ! i)")
    (auto simp: wait_round_def waitpid_def SpawnChild_def apply_policy_def backoff_slice_def Let_def
      intro!: reap_ok_go reap_ok_sleep split: option.split proc.split)

lemma reap_ok_step:
  assumes "mon_inv s" "reap_ok s" "controlled e s" "mon_step e s = Inr t"
  shows "reap_ok t"
proof (cases e)
  case (MonitorStep i fork healthy)
  have T: "threads_ok s" using assms(1) by (simp add: mon_inv_def)
  have ready: "mon_ready (MonitorStep i fork healthy) s" using assms(3) MonitorStep by (simp add: controlled_def)
  then have "Suc i = length (monitors s)" by (intro active_is_last [OF T]) simp_all
  from reap_ok_monitor_step [OF this assms(2) ready] show ?thesis using assms(4) MonitorStep by simp
next
  case (ClientCall c call)
  then have t: "t = mon_call_step c call s" using assms(4) by simp
  show ?thesis
  proof (cases call)
    case (CallStart cfg created)
    then show ?thesis using t assms(2) by (auto simp: Start_def reap_ok_def cur_pc_def Let_def)
  qed (use t assms(2) in \<open>auto simp: reap_ok_def RequestStop_enter_def WaitForStop_enter_def SendSignalToChild_enter_def\<close>,
      simp_all add: set_client_def)
next
  case (ClientStep c)
  have "client_step c p s = Inr t \<Longrightarrow> reap_ok t" for p
  proof (cases p)
    case (CKill pid sig)
    assume "client_step c p s = Inr t"
    with CKill assms(2) cur_pc_same [of "kill pid sig s" s] show ?thesis
      by (auto simp: reap_ok_def) (simp add: set_client_def kill_spares)
  qed (use assms(2) in \<open>auto simp: reap_ok_def guard_ub_eq_Inr\<close>, simp_all add: set_client_def)
  then show ?thesis using assms(4) ClientStep by simp
next
  case (ChildDies pid st)
  with assms(2,4) show ?thesis by (auto simp: reap_ok_def split: if_splits)
next
  case (Tick d)
  with assms(2,4) show ?thesis by (auto simp: reap_ok_def)
qed

interpretation stopping: step_invariant "\<lambda>s. mon_inv s \<and> reap_ok s" mon_step controlled
  by unfold_locales (use mon_inv_step reap_ok_step in blast)

text \<open>How many of its steps the thread is from its end when a stop was requested, and the deadline it may wait for.\<close>

fun rank :: "monitor_pc \<Rightarrow> nat" where
  "rank MSpawn = 12" | "rank (MSetPid pid) = 11" | "rank (MSetTime pid) = 10" | "rank (MPoll pid d) = 11" | "rank (MHealth pid) = 10"
| "rank (MWatch pid) = 9" | "rank (MGrace pid d) = 8" | "rank (MReap pid) = 7" | "rank (MExited pid st) = 6" | "rank (MReport pid st) = 5"
| "rank MCount = 8" | "rank MCountConsecutive = 7" | "rank MPolicy = 6" | "rank (MBackoff r) = 5" | "rank MAfter = 4" | "rank MTop = 4"
| "rank MEnd = 3" | "rank MEndState = 2" | "rank MDone = 0"

fun deadline_of :: "monitor_pc \<Rightarrow> int \<Rightarrow> int" where
  "deadline_of (MGrace pid d) now = d" | "deadline_of (MPoll pid d) now = d" | "deadline_of p now = now"

lemma monitor_step_rank:
  assumes "i < length (monitors s)" "m_pc (monitors s ! i) = p" "p \<noteq> MDone" "stop_requested s" "deadline_of p (clock s) \<le> clock s"
    and "\<And>pid. p = MReap pid \<Longrightarrow> procs s pid \<noteq> Some Running"
  shows "rank (m_pc (monitors (monitor_step i fork healthy p s) ! i)) < rank p"
    and "stop_requested (monitor_step i fork healthy p s)"
  using assms by (cases p; auto simp: step_defs split: option.split proc.split)+

text \<open>The thread takes one step after each of some waits, and nothing else happens.\<close>

definition after_waits :: "nat \<Rightarrow> bool \<Rightarrow> nat list \<Rightarrow> mon_event list" where
  "after_waits i healthy ds = concat (map (\<lambda>d. [Tick d, MonitorStep i None healthy]) ds)"

lemma deadline_passed: "deadline_of p a \<le> b \<Longrightarrow> deadline_of p b \<le> b"
  by (cases p) simp_all

lemma stop_round:
  assumes "mon_inv s" "reap_ok s" "i < length (monitors s)" "m_pc (monitors s ! i) \<noteq> MDone" "stop_requested s"
  shows "\<exists>d t. run_events mon_step controlled [Tick d, MonitorStep i None healthy] s = Some t \<and> mon_inv t \<and> reap_ok t \<and>
    length (monitors t) = length (monitors s) \<and> stop_requested t \<and> rank (m_pc (monitors t ! i)) < rank (m_pc (monitors s ! i))"
proof -
  let ?p = "m_pc (monitors s ! i)"
  define d where "d = nat (max (m_wake (monitors s ! i)) (deadline_of ?p (clock s)) - clock s)"
  define s1 where "s1 = s\<lparr>clock := clock s + int d\<rparr>"
  define t where "t = monitor_step i None healthy ?p s1"
  have T: "threads_ok s" using assms(1) by (simp add: mon_inv_def)
  note last = active_is_last [OF T assms(3,4)]
  have late: "m_wake (monitors s ! i) \<le> clock s1" "deadline_of ?p (clock s1) \<le> clock s1"
  proof -
    have c: "clock s1 = clock s + int d" by (simp add: s1_def)
    show "m_wake (monitors s ! i) \<le> clock s1" unfolding c d_def by linarith
    have "deadline_of ?p (clock s) \<le> clock s1" unfolding c d_def by linarith
    then show "deadline_of ?p (clock s1) \<le> clock s1" by (rule deadline_passed)
  qed
  have reap: "procs s pid \<noteq> Some Running" if "?p = MReap pid" for pid
    using assms(2) that last by (simp add: reap_ok_def cur_pc_last)
  have ready: "controlled (MonitorStep i None healthy) s1"
  proof -
    have "monitors s1 = monitors s" "procs s1 = procs s" by (simp_all add: s1_def)
    with assms(3,4) late(1) reap show ?thesis unfolding controlled_def mon_ready.simps by (simp split: monitor_pc.split)
  qed
  have run: "run_events mon_step controlled [Tick d, MonitorStep i None healthy] s = Some t"
    using ready by (simp add: controlled_def s1_def t_def)
  have "mon_inv t \<and> reap_ok t" using stopping.always_after [OF run] assms(1,2) by blast
  moreover have "rank (m_pc (monitors t ! i)) < rank ?p" "stop_requested t"
    unfolding t_def using assms(3,4,5) late(2) reap by (intro monitor_step_rank; simp add: s1_def)+
  moreover have "length (monitors t) = length (monitors s)"
    using monitor_step_moves [of i s1 None healthy] assms(3) by (auto simp: moves_def t_def s1_def)
  ultimately show ?thesis using run by blast
qed

lemma stops_alone:
  assumes "mon_inv s" "reap_ok s" "i < length (monitors s)" "stop_requested s"
  shows "\<exists>ds t. length ds \<le> rank (m_pc (monitors s ! i)) \<and> run_events mon_step controlled (after_waits i healthy ds) s = Some t \<and>
    mon_inv t \<and> length (monitors t) = length (monitors s) \<and> m_pc (monitors t ! i) = MDone"
  using assms
proof (induction "rank (m_pc (monitors s ! i))" arbitrary: s rule: less_induct)
  case less
  show ?case
  proof (cases "m_pc (monitors s ! i) = MDone")
    case True
    with less.prems show ?thesis by (intro exI [of _ "[]"] exI [of _ s]) (simp add: after_waits_def)
  next
    case False
    obtain d t where t: "run_events mon_step controlled [Tick d, MonitorStep i None healthy] s = Some t" "mon_inv t" "reap_ok t"
        "length (monitors t) = length (monitors s)" "stop_requested t" "rank (m_pc (monitors t ! i)) < rank (m_pc (monitors s ! i))"
      using stop_round [OF less.prems(1-3) False less.prems(4), where healthy = healthy] by (elim exE conjE) (rule that, assumption+)
    have i': "i < length (monitors t)" using t(4) less.prems(3) by simp
    obtain ds u where u: "length ds \<le> rank (m_pc (monitors t ! i))"
        "run_events mon_step controlled (after_waits i healthy ds) t = Some u" "mon_inv u"
        "length (monitors u) = length (monitors t)" "m_pc (monitors u ! i) = MDone"
      using less.hyps [OF t(6) t(2,3) i' t(5)] by (elim exE conjE) (rule that, assumption+)
    have "after_waits i healthy (d # ds) = [Tick d, MonitorStep i None healthy] @ after_waits i healthy ds"
      by (simp add: after_waits_def)
    then have "run_events mon_step controlled (after_waits i healthy (d # ds)) s = Some u"
      by (simp only: run_events_append t(1) option.case u(2))
    moreover have "length (d # ds) \<le> rank (m_pc (monitors s ! i))" using u(1) t(6) by simp
    ultimately show ?thesis using u(3,4,5) t(4) by (metis (no_types, lifting))
  qed
qed

text \<open>
  C14. A stop request ends the monitor: from every reachable state in which \<open>stop_requested_\<close> is set and the monitor thread is
  active, at most twelve steps of that thread, each after a wait that lets its sleep or deadline pass, bring it to its end, with no step of
  the child or of any other thread in between and whatever the health check answers; the state is then stopped, no child is
  left, and every child was reported.
\<close>

theorem stop_request_ends_monitor:
  assumes "steps_to mon_step controlled (mon_init (Suc n)) s" "stop_requested s" "i < length (monitors s)" "m_pc (monitors s ! i) \<noteq> MDone"
  shows "\<exists>ds t. length ds \<le> 12 \<and> run_events mon_step controlled (after_waits i healthy ds) s = Some t \<and>
    m_pc (monitors t ! i) = MDone \<and> procs t = Map.empty \<and> spawned t = map fst (exits t)"
proof -
  have "mon_inv (mon_init (Suc n)) \<and> reap_ok (mon_init (Suc n))"
    by (simp add: mon_inv_init) (simp add: reap_ok_def cur_pc_def mon_init_def)
  from stopping.always [OF assms(1) this] have inv: "mon_inv s" "reap_ok s" by blast+
  obtain ds t where t: "length ds \<le> rank (m_pc (monitors s ! i))" "run_events mon_step controlled (after_waits i healthy ds) s = Some t"
      "mon_inv t" "length (monitors t) = length (monitors s)" "m_pc (monitors t ! i) = MDone"
    using stops_alone [OF inv assms(3,2), of healthy] by (elim exE conjE) (rule that, assumption+)
  have "rank p \<le> 12" for p by (cases p) simp_all
  from this [of "m_pc (monitors s ! i)"] t(1) have "length ds \<le> 12" by linarith
  moreover have "Suc i = length (monitors t)"
    using active_is_last [OF _ assms(3,4)] inv(1) t(4) by (simp add: mon_inv_def)
  then have "cur_pc t = MDone" using t(5) by (simp add: cur_pc_last)
  then have "procs t = Map.empty" "spawned t = map fst (exits t)" using t(3) by (simp_all add: mon_inv_def child_ok_def)
  ultimately show ?thesis using t(2,5) by blast
qed

definition stopping_state :: mon where
  "stopping_state = the (run_events mon_step controlled (first_child @ stop_tests 0 @ replicate 4 (ClientStep 0)) (mon_init (Suc 1)))"

theorem stop_request_ends_monitor_witness:
  "\<exists>ds t. length ds \<le> 12 \<and> run_events mon_step controlled (after_waits 0 False ds) stopping_state = Some t \<and>
    m_pc (monitors t ! 0) = MDone \<and> procs t = Map.empty \<and> spawned t = map fst (exits t)"
proof (rule stop_request_ends_monitor)
  have "run_events mon_step controlled (first_child @ stop_tests 0 @ replicate 4 (ClientStep 0)) (mon_init (Suc 1)) = Some stopping_state"
    unfolding stopping_state_def by (rule option.collapse [symmetric]) code_simp
  then show "steps_to mon_step controlled (mon_init (Suc 1)) stopping_state" by (rule run_events_steps [OF steps_refl])
  show "stop_requested stopping_state" "0 < length (monitors stopping_state)" "m_pc (monitors stopping_state ! 0) \<noteq> MDone"
    by code_simp+
qed

end
