(* ===== verification/Scoped_Exec.thy ===== *)
theory Scoped_Exec
  imports Lock_Contract "HOL-Library.Multiset"
begin

text \<open>
  \<open>ScopedExec\<close> (misc/scoped_exec.h): a guard that calls its functor once. Each method is a critical section on the members
  (the mutex of \<open>ThreadSafePolicy\<close>; with \<open>UnsafePolicy\<close> one thread does the same), and calls the functor it extracted
  after it: the thread keeps it as pending. Functors are numbered in the order in which they are handed over;
  None is an empty \<open>std::function\<close>. What a moved-from \<open>std::function\<close> holds is unspecified, so it is a parameter.
\<close>

type_synonym functor_id = nat

record scoped_exec =
  fn :: "functor_id option"
  armed :: bool

text \<open>The constructors; \<open>ExtractIfArmed\<close>.\<close>

definition ScopedExec_default :: scoped_exec where
  "ScopedExec_default = \<lparr>fn = None, armed = False\<rparr>"

definition ScopedExec_from :: "functor_id option \<Rightarrow> scoped_exec" where
  "ScopedExec_from f = \<lparr>fn = f, armed = (f \<noteq> None)\<rparr>"

definition ExtractIfArmed :: "(functor_id option \<Rightarrow> functor_id option) \<Rightarrow> scoped_exec \<Rightarrow> functor_id option \<times> scoped_exec" where
  "ExtractIfArmed moved x = (if \<not> armed x then (None, x) else (fn x, x\<lparr>armed := False, fn := moved (fn x)\<rparr>))"

text \<open>\<open>MoveConstruct\<close>: the new object and the source; move assignment: the functor to call, the target and the source.\<close>

definition MoveConstruct :: "(functor_id option \<Rightarrow> functor_id option) \<Rightarrow> scoped_exec \<Rightarrow> scoped_exec \<times> scoped_exec" where
  "MoveConstruct moved other = (\<lparr>fn = fn other, armed = armed other\<rparr>, other\<lparr>fn := moved (fn other), armed := False\<rparr>)"

definition MoveAssign :: "(functor_id option \<Rightarrow> functor_id option) \<Rightarrow> scoped_exec \<Rightarrow> scoped_exec \<Rightarrow>
    functor_id option \<times> scoped_exec \<times> scoped_exec" where
  "MoveAssign moved this other =
    (let old_fn = (if armed this then fn this else None)
     in (old_fn, this\<lparr>fn := fn other, armed := armed other\<rparr>, other\<lparr>fn := moved (fn other), armed := False\<rparr>))"

definition Scoped_release :: "(functor_id option \<Rightarrow> functor_id option) \<Rightarrow> scoped_exec \<Rightarrow> functor_id option \<times> scoped_exec" where
  "Scoped_release moved x = (fn x, x\<lparr>armed := False, fn := moved (fn x)\<rparr>)"

definition Scoped_reset_to :: "functor_id option \<Rightarrow> scoped_exec \<Rightarrow> functor_id option \<times> scoped_exec" where
  "Scoped_reset_to f x = (let old_fn = (if armed x then fn x else None) in (old_fn, x\<lparr>fn := f, armed := (f \<noteq> None)\<rparr>))"

definition Scoped_reset :: "scoped_exec \<Rightarrow> functor_id option \<times> scoped_exec" where
  "Scoped_reset x = (let old_fn = (if armed x then fn x else None) in (old_fn, x\<lparr>armed := False, fn := None\<rparr>))"

definition Scoped_bool :: "scoped_exec \<Rightarrow> bool" where
  "Scoped_bool x = armed x"

section \<open>Objects and threads\<close>

text \<open>The objects (None when destroyed), what each thread has extracted and not called yet, and, for the statements, how many
  functors were handed over, which were called, and which \<open>release\<close> took out of an armed object.\<close>

record exec_sys =
  objects :: "scoped_exec option list"
  to_call :: "functor_id option list"
  handed_over :: nat
  called :: "functor_id list"
  released :: "functor_id list"

definition exec_init :: "nat \<Rightarrow> exec_sys" where
  "exec_init n = \<lparr>objects = [], to_call = replicate n None, handed_over = 0, called = [], released = []\<rparr>"

definition with_object :: "nat \<Rightarrow> exec_sys \<Rightarrow> (scoped_exec \<Rightarrow> exec_sys result) \<Rightarrow> exec_sys result" where
  "with_object o' s f = (if o' < length (objects s) then (case objects s ! o' of None \<Rightarrow> Inl UndefinedBehaviour | Some x \<Rightarrow> f x)
     else Inl UndefinedBehaviour)"

definition put_object :: "nat \<Rightarrow> scoped_exec option \<Rightarrow> exec_sys \<Rightarrow> exec_sys" where
  "put_object o' x s = s\<lparr>objects := (objects s)[o' := x]\<rparr>"

definition call_later :: "nat \<Rightarrow> functor_id option \<Rightarrow> exec_sys \<Rightarrow> exec_sys" where
  "call_later t f s = s\<lparr>to_call := (to_call s)[t := f]\<rparr>"

text \<open>A functor that is handed over is new; \<open>is_null\<close> stands for an empty function.\<close>

definition new_functor :: "bool \<Rightarrow> exec_sys \<Rightarrow> functor_id option \<times> exec_sys" where
  "new_functor is_null s = (if is_null then (None, s) else (Some (handed_over s), s\<lparr>handed_over := handed_over s + 1\<rparr>))"

definition log_release :: "bool \<Rightarrow> functor_id option \<Rightarrow> exec_sys \<Rightarrow> exec_sys" where
  "log_release was_armed f s = (case f of Some g \<Rightarrow> if was_armed then s\<lparr>released := released s @ [g]\<rparr> else s | None \<Rightarrow> s)"

datatype exec_event = Construct_default | Construct bool | Construct_move nat | Assign_move nat nat nat | Release nat nat
  | Reset_to nat nat bool | Reset nat nat | Invoke nat nat | Destroy nat nat | Run_pending nat

fun exec_step :: "(functor_id option \<Rightarrow> functor_id option) \<Rightarrow> exec_event \<Rightarrow> exec_sys \<Rightarrow> exec_sys result" where
  "exec_step moved Construct_default s = Inr (s\<lparr>objects := objects s @ [Some ScopedExec_default]\<rparr>)"
| "exec_step moved (Construct is_null) s = (let (f, s1) = new_functor is_null s in Inr (s1\<lparr>objects := objects s @ [Some (ScopedExec_from f)]\<rparr>))"
| "exec_step moved (Construct_move src) s = with_object src s (\<lambda>y. let (x', y') = MoveConstruct moved y
     in Inr (s\<lparr>objects := (objects s)[src := Some y'] @ [Some x']\<rparr>))"
| "exec_step moved (Assign_move t dst src) s = with_object dst s (\<lambda>x. with_object src s (\<lambda>y.
     if dst = src then Inr s
     else let (f, x', y') = MoveAssign moved x y in Inr (call_later t f (put_object src (Some y') (put_object dst (Some x') s)))))"
| "exec_step moved (Release t o') s = with_object o' s (\<lambda>x. let (f, x') = Scoped_release moved x
     in Inr (log_release (armed x) f (put_object o' (Some x') s)))"
| "exec_step moved (Reset_to t o' is_null) s = with_object o' s (\<lambda>x. let (g, s1) = new_functor is_null s; (f, x') = Scoped_reset_to g x
     in Inr (call_later t f (put_object o' (Some x') s1)))"
| "exec_step moved (Reset t o') s = with_object o' s (\<lambda>x. let (f, x') = Scoped_reset x in Inr (call_later t f (put_object o' (Some x') s)))"
| "exec_step moved (Invoke t o') s = with_object o' s (\<lambda>x. let (f, x') = ExtractIfArmed moved x in Inr (call_later t f (put_object o' (Some x') s)))"
| "exec_step moved (Destroy t o') s = with_object o' s (\<lambda>x. let (f, x') = ExtractIfArmed moved x in Inr (call_later t f (put_object o' None s)))"
| "exec_step moved (Run_pending t) s = (case to_call s ! t of None \<Rightarrow> Inr s
     | Some f \<Rightarrow> Inr (call_later t None (s\<lparr>called := called s @ [f]\<rparr>)))"

text \<open>A thread first makes the call that its last method owes. A functor may call methods itself: it has then started.\<close>

fun exec_thread :: "exec_event \<Rightarrow> nat option" where
  "exec_thread (Assign_move t dst src) = Some t" | "exec_thread (Release t o') = Some t" | "exec_thread (Reset_to t o' is_null) = Some t"
| "exec_thread (Reset t o') = Some t" | "exec_thread (Invoke t o') = Some t" | "exec_thread (Destroy t o') = Some t"
| "exec_thread (Run_pending t) = Some t" | "exec_thread _ = None"

definition exec_ready :: "exec_event \<Rightarrow> exec_sys \<Rightarrow> bool" where
  "exec_ready e s \<longleftrightarrow> (case exec_thread e of None \<Rightarrow> True
     | Some t \<Rightarrow> t < length (to_call s) \<and> (to_call s ! t = None \<or> e = Run_pending t))"

lemma sum_list_nothing: "(\<And>x. x \<in> set xs \<Longrightarrow> g x = {#}) \<Longrightarrow> sum_list (map g xs) = {#}"
  by (induction xs) simp_all

lemma in_sum_list: "x \<in> set xs \<Longrightarrow> f \<in># g x \<Longrightarrow> f \<in># sum_list (map g xs)"
  by (induction xs) auto

lemma mset_once:
  assumes "H + mset xs = mset ys" "distinct ys"
  shows "distinct xs \<and> (\<forall>f. f \<in># H \<longrightarrow> f \<notin> set xs)"
proof -
  obtain zs where zs: "mset zs = H" using ex_mset by blast
  then have "distinct (zs @ xs)" using mset_eq_imp_distinct_iff [of "zs @ xs" ys] assms by simp
  with zs show ?thesis by auto
qed

section \<open>Every functor is in one place\<close>

definition one :: "functor_id option \<Rightarrow> functor_id multiset" where
  "one f = (case f of None \<Rightarrow> {#} | Some g \<Rightarrow> {#g#})"

definition held_by_object :: "scoped_exec option \<Rightarrow> functor_id multiset" where
  "held_by_object x = (case x of Some y \<Rightarrow> if armed y then one (fn y) else {#} | None \<Rightarrow> {#})"

definition places :: "exec_sys \<Rightarrow> functor_id multiset" where
  "places s = sum_list (map held_by_object (objects s)) + sum_list (map one (to_call s)) + mset (called s) + mset (released s)"

definition exec_inv :: "exec_sys \<Rightarrow> bool" where
  "exec_inv s \<longleftrightarrow> places s = mset [0 ..< handed_over s]"

lemma one_simps [simp]: "one None = {#}" "one (Some g) = {#g#}"
  by (simp_all add: one_def)

lemma held_simps [simp]: "held_by_object None = {#}" "held_by_object (Some y) = (if armed y then one (fn y) else {#})"
  by (simp_all add: held_by_object_def)

lemma sum_list_replace: "k < length xs \<Longrightarrow> sum_list (map f (xs[k := x])) + f (xs ! k) = sum_list (map f xs) + f x"
  for f :: "'a \<Rightarrow> 'b::comm_monoid_add"
proof (induction xs arbitrary: k)
  case (Cons y ys)
  then show ?case
  proof (cases k)
    case (Suc j)
    with Cons.IH [of j] Cons.prems show ?thesis by (simp add: add.assoc)
  qed (simp add: ac_simps)
qed simp

text \<open>Putting an object, owing a call.\<close>

lemma places_put: "o' < length (objects s) \<Longrightarrow> places (put_object o' x s) + held_by_object (objects s ! o') = places s + held_by_object x"
  using sum_list_replace [of o' "objects s" held_by_object x] by (simp add: places_def put_object_def ac_simps)

lemma places_call: "t < length (to_call s) \<Longrightarrow> places (call_later t f s) + one (to_call s ! t) = places s + one f"
  using sum_list_replace [of t "to_call s" one f] by (simp add: places_def call_later_def ac_simps)

text \<open>One object changes and a call is owed, together with the functors that are new.\<close>

lemma places_method:
  assumes "o' < length (objects s)" "t < length (to_call s)" "to_call s ! t = None" "held_by_object x + one f = held_by_object (objects s ! o') + new"
  shows "places (call_later t f (put_object o' x s)) = places s + new"
proof -
  have "places (call_later t f (put_object o' x s)) = places (put_object o' x s) + one f"
    using places_call [of t "put_object o' x s" f] assms(2,3) by (simp add: put_object_def)
  then have "places (call_later t f (put_object o' x s)) + held_by_object (objects s ! o') = places s + new + held_by_object (objects s ! o')"
    using places_put [OF assms(1), of x] assms(4) by (simp add: ac_simps)
  then show ?thesis by simp
qed

lemma with_object_Inr: "with_object o' s f = Inr t \<longleftrightarrow> (\<exists>x. o' < length (objects s) \<and> objects s ! o' = Some x \<and> f x = Inr t)"
  by (auto simp: with_object_def split: option.splits)

lemma put_same [simp]: "to_call (put_object o' x s) = to_call s" "handed_over (put_object o' x s) = handed_over s"
  "handed_over (call_later t f s) = handed_over s" "length (objects (put_object o' x s)) = length (objects s)"
  "objects (call_later t f s) = objects s"
  by (simp_all add: put_object_def call_later_def)

lemma new_functor_places: "new_functor is_null s = (g, s1) \<Longrightarrow>
    places s1 = places s \<and> objects s1 = objects s \<and> to_call s1 = to_call s \<and> mset [0 ..< handed_over s1] = mset [0 ..< handed_over s] + one g"
  by (auto simp: new_functor_def places_def atLeast0_lessThan_Suc split: if_splits)

lemma exec_inv_method:
  assumes "exec_inv s" "o' < length (objects s)" "t < length (to_call s)" "to_call s ! t = None"
    "held_by_object x + one f = held_by_object (objects s ! o')"
  shows "exec_inv (call_later t f (put_object o' x s))"
  using places_method [OF assms(2-4), of x f "{#}"] assms(1,5) by (simp add: exec_inv_def)

lemma exec_inv_assign:
  assumes "exec_inv s" "src < length (objects s)" "dst < length (objects s)" "dst \<noteq> src" "objects s ! dst = Some x" "objects s ! src = Some y"
    and "t < length (to_call s)" "to_call s ! t = None" "MoveAssign moved x y = (f, x', y')"
  shows "exec_inv (call_later t f (put_object src (Some y') (put_object dst (Some x') s)))"
proof -
  let ?s = "put_object dst (Some x') s"
  have src: "objects ?s ! src = Some y" using assms(4,6) by (simp add: put_object_def)
  have "places (call_later t f (put_object src (Some y') ?s)) + one None = places (put_object src (Some y') ?s) + one f"
    using places_call [of t "put_object src (Some y') ?s" f] assms(7,8) by simp
  then have 1: "places (call_later t f (put_object src (Some y') ?s)) = places (put_object src (Some y') ?s) + one f"
    by simp
  have held: "held_by_object (Some y') = {#}" "held_by_object (Some x') = held_by_object (Some y)" "one f = held_by_object (Some x)"
    using assms(9) by (auto simp: MoveAssign_def Let_def)
  have 2: "places (put_object src (Some y') ?s) + held_by_object (Some y) = places ?s"
    using places_put [of src ?s "Some y'"] assms(2) src held(1) by simp
  have 3: "places ?s + held_by_object (Some x) = places s + held_by_object (Some y)"
    using places_put [of dst s "Some x'"] assms(3,5) held(2) by simp
  have "places (call_later t f (put_object src (Some y') ?s)) + held_by_object (Some y) =
      places (put_object src (Some y') ?s) + held_by_object (Some y) + held_by_object (Some x)"
    unfolding 1 held(3) by (simp only: ac_simps)
  also have "\<dots> = places s + held_by_object (Some y)" unfolding 2 3 ..
  finally have "places (call_later t f (put_object src (Some y') ?s)) = places s" by (rule add_right_imp_eq)
  with assms(1) show ?thesis by (simp add: exec_inv_def)
qed

lemma exec_inv_Run_pending:
  assumes "exec_inv s" "t < length (to_call s)" "to_call s ! t = Some f"
  shows "exec_inv (call_later t None (s\<lparr>called := called s @ [f]\<rparr>))"
proof -
  have "places (call_later t None (s\<lparr>called := called s @ [f]\<rparr>)) + {#f#} = places (s\<lparr>called := called s @ [f]\<rparr>)"
    using places_call [of t "s\<lparr>called := called s @ [f]\<rparr>" None] assms(2,3) by simp
  also have "\<dots> = places s + {#f#}" by (simp add: places_def)
  finally show ?thesis using assms(1) by (simp add: exec_inv_def)
qed

lemma exec_inv_Release:
  assumes "exec_inv s" "o' < length (objects s)" "objects s ! o' = Some x" "Scoped_release moved x = (f, x')"
  shows "exec_inv (log_release (armed x) f (put_object o' (Some x') s))"
proof -
  have "places (put_object o' (Some x') s) + held_by_object (Some x) = places s"
    using places_put [of o' s "Some x'"] assms(2-4) by (auto simp: Scoped_release_def)
  moreover have "places (log_release (armed x) f (put_object o' (Some x') s)) = places (put_object o' (Some x') s) + held_by_object (Some x)"
    using assms(4) by (auto simp: Scoped_release_def log_release_def places_def split: option.split)
  moreover have "handed_over (log_release (armed x) f (put_object o' (Some x') s)) = handed_over s"
    by (simp add: log_release_def split: option.split)
  ultimately show ?thesis using assms(1) by (simp add: exec_inv_def)
qed

lemma exec_inv_Construct_move:
  assumes "exec_inv s" "src < length (objects s)" "objects s ! src = Some y" "MoveConstruct moved y = (x', y')"
  shows "exec_inv (s\<lparr>objects := (objects s)[src := Some y'] @ [Some x']\<rparr>)"
proof -
  have "places (s\<lparr>objects := (objects s)[src := Some y'] @ [Some x']\<rparr>) = places (put_object src (Some y') s) + held_by_object (Some x')"
    by (simp add: places_def put_object_def ac_simps)
  also have "\<dots> = places (put_object src (Some y') s) + held_by_object (Some y)"
    using assms(4) by (auto simp: MoveConstruct_def)
  also have "\<dots> = places s"
    using places_put [of src s "Some y'"] assms(2-4) by (auto simp: MoveConstruct_def)
  finally show ?thesis using assms(1) by (simp add: exec_inv_def)
qed

lemma exec_inv_Reset_to:
  assumes "exec_inv s" "o' < length (objects s)" "t < length (to_call s)" "to_call s ! t = None" "objects s ! o' = Some x"
    and "new_functor is_null s = (g, s1)" "Scoped_reset_to g x = (f, x')"
  shows "exec_inv (call_later t f (put_object o' (Some x') s1))"
proof -
  note new = new_functor_places [OF assms(6)]
  have "held_by_object (Some x') + one f = held_by_object (objects s1 ! o') + one g"
    using assms(5,7) new by (cases g) (auto simp: Scoped_reset_to_def Let_def)
  then have "places (call_later t f (put_object o' (Some x') s1)) = places s1 + one g"
    using assms(2-4) new by (intro places_method) simp_all
  with assms(1) new show ?thesis by (simp add: exec_inv_def)
qed

lemma extract_held: "one (fst (ExtractIfArmed moved x)) = held_by_object (Some x)" "held_by_object (Some (snd (ExtractIfArmed moved x))) = {#}"
  by (simp_all add: ExtractIfArmed_def)

lemma exec_inv_step:
  assumes "exec_inv s" "exec_ready e s" "exec_step moved e s = Inr t"
  shows "exec_inv t"
proof (cases e)
  case Construct_default
  with assms show ?thesis by (auto simp: exec_inv_def places_def ScopedExec_default_def)
next
  case (Construct is_null)
  obtain g s1 where new: "new_functor is_null s = (g, s1)" by fastforce
  with Construct assms(3) have "t = s1\<lparr>objects := objects s1 @ [Some (ScopedExec_from g)]\<rparr>"
    using new_functor_places [OF new] by auto
  then have "places t = places s1 + one g" by (cases g) (simp_all add: places_def ScopedExec_from_def)
  with new_functor_places [OF new] assms(1) \<open>t = _\<close> show ?thesis by (simp add: exec_inv_def)
next
  case (Construct_move src)
  then obtain y where y: "src < length (objects s)" "objects s ! src = Some y"
    and t: "(let (x', y') = MoveConstruct moved y in Inr (s\<lparr>objects := (objects s)[src := Some y'] @ [Some x']\<rparr>)) = (Inr t :: exec_sys result)"
    using assms(3) by (auto simp: with_object_Inr)
  obtain x' y' where m: "MoveConstruct moved y = (x', y')" by fastforce
  from exec_inv_Construct_move [OF assms(1) y m] t m show ?thesis by simp
next
  case (Assign_move th dst src)
  with assms exec_inv_assign [OF assms(1) _ _ _ _ _ _ _ surjective_pairing [THEN trans, OF arg_cong2 [where f = Pair, OF refl surjective_pairing]]]
  show ?thesis by (auto simp: with_object_Inr exec_ready_def split_beta Let_def split: if_splits)
next
  case (Release th o')
  with assms exec_inv_Release [OF assms(1) _ _ prod.collapse [symmetric]] show ?thesis by (auto simp: with_object_Inr split_beta Let_def)
next
  case (Reset_to th o' is_null)
  obtain g s1 where new: "new_functor is_null s = (g, s1)" by fastforce
  with Reset_to assms exec_inv_Reset_to [OF assms(1) _ _ _ _ new prod.collapse [symmetric]] show ?thesis
    by (auto simp: with_object_Inr exec_ready_def split_beta Let_def)
next
  case (Reset th o')
  with assms exec_inv_method [OF assms(1)] show ?thesis
    by (auto simp: with_object_Inr exec_ready_def Scoped_reset_def Let_def)
next
  case (Invoke th o')
  with assms exec_inv_method [OF assms(1)] extract_held [of moved] show ?thesis
    by (auto simp: with_object_Inr exec_ready_def split_beta Let_def)
next
  case (Destroy th o')
  with assms exec_inv_method [OF assms(1)] extract_held [of moved] show ?thesis
    by (auto simp: with_object_Inr exec_ready_def split_beta Let_def)
next
  case (Run_pending th)
  with assms exec_inv_Run_pending [OF assms(1)] show ?thesis by (auto simp: exec_ready_def split: option.splits)
qed

interpretation scoped: step_invariant exec_inv "exec_step moved" exec_ready for moved
  by unfold_locales (rule exec_inv_step)

text \<open>
  C12. A functor that a guard was given is called at most once, whatever threads race on \<open>invoke\<close>, \<open>release\<close>, \<open>reset\<close>, moves
  and destructors, and whatever a moved-from function holds: no functor is called twice, or called and released; none that
  is armed or about to be called was called or released before; and when no guard is armed and no call is owed, every
  functor handed over was called or released exactly once.
\<close>

theorem functors_are_called_once:
  assumes "steps_to (exec_step moved) exec_ready (exec_init n) s"
  shows "distinct (called s @ released s) \<and>
    (\<forall>x f. (Some x \<in> set (objects s) \<and> armed x \<and> fn x = Some f \<or> Some f \<in> set (to_call s)) \<longrightarrow> f \<notin> set (called s @ released s)) \<and>
    ((\<forall>x. Some x \<in> set (objects s) \<longrightarrow> \<not> armed x) \<and> set (to_call s) \<subseteq> {None} \<longrightarrow>
      mset (called s @ released s) = mset [0 ..< handed_over s])"
proof -
  have "exec_inv (exec_init n)" by (induction n) (auto simp: exec_inv_def places_def exec_init_def)
  then have inv: "places s = mset [0 ..< handed_over s]"
    using scoped.always [OF assms] by (simp add: exec_inv_def)
  let ?held = "sum_list (map held_by_object (objects s)) + sum_list (map one (to_call s))"
  have all: "?held + mset (called s @ released s) = mset [0 ..< handed_over s]"
    using inv by (simp add: places_def ac_simps)
  note once = mset_once [OF all distinct_upt]
  have "f \<in># ?held" if "Some x \<in> set (objects s) \<and> armed x \<and> fn x = Some f \<or> Some f \<in> set (to_call s)" for x f
    using that in_sum_list [of _ "objects s" f held_by_object] in_sum_list [of _ "to_call s" f one] by fastforce
  moreover have "?held = {#}" if "(\<forall>x. Some x \<in> set (objects s) \<longrightarrow> \<not> armed x) \<and> set (to_call s) \<subseteq> {None}"
  proof -
    have "held_by_object x = {#}" if "x \<in> set (objects s)" for x
      using \<open>(\<forall>x. Some x \<in> set (objects s) \<longrightarrow> \<not> armed x) \<and> _\<close> that by (cases x) auto
    moreover have "one f = {#}" if "f \<in> set (to_call s)" for f
      using \<open>_ \<and> set (to_call s) \<subseteq> {None}\<close> that by auto
    ultimately show ?thesis by (simp add: sum_list_nothing)
  qed
  ultimately show ?thesis using once all by (metis add_0)
qed

text \<open>A guard is armed with two functors in turn while another thread invokes and a third one releases.\<close>

definition guard_race :: "exec_event list" where
  "guard_race = [Construct False, Reset_to 0 0 False, Invoke 1 0, Run_pending 0, Release 2 0, Run_pending 1, Construct False,
    Construct_move 1, Destroy 0 1, Release 2 2, Destroy 1 2]"

theorem functors_are_called_once_witness:
  "mset (called (the (run_events (exec_step (\<lambda>f. f)) exec_ready guard_race (exec_init 3))) @
      released (the (run_events (exec_step (\<lambda>f. f)) exec_ready guard_race (exec_init 3)))) = mset [0 ..< 3]"
proof -
  let ?run = "run_events (exec_step (\<lambda>f. f)) exec_ready guard_race (exec_init 3)"
  have "?run = Some (the ?run)" by (rule option.collapse [symmetric]) code_simp
  then have steps: "steps_to (exec_step (\<lambda>f. f)) exec_ready (exec_init 3) (the ?run)" by (rule run_events_steps [OF steps_refl])
  have "list_all (\<lambda>x. case x of None \<Rightarrow> True | Some y \<Rightarrow> \<not> armed y) (objects (the ?run)) \<and>
      list_all (\<lambda>f. f = None) (to_call (the ?run)) \<and> handed_over (the ?run) = 3" by code_simp
  then have "\<forall>x. Some x \<in> set (objects (the ?run)) \<longrightarrow> \<not> armed x" "set (to_call (the ?run)) \<subseteq> {None}" "handed_over (the ?run) = 3"
    by (auto simp: list_all_iff split: option.splits)
  with functors_are_called_once [OF steps] show ?thesis by metis
qed

end
