(* ===== verification/Murmur.thy ===== *)
theory Murmur
  imports Yacul_Prelude
begin

text \<open>
  MurmurHash3 (hashing/os_murmur_hash3.cc), the hash that \<open>hash.h\<close> uses, on byte lists and words at their width. Blocks are
  read as on a little-endian machine. The length is an \<open>int\<close> in the code; a key of $2^{31}$ bytes or more is outside the model
  of the three functions and left to their callers.
\<close>

unbundle bit_operations_syntax

section \<open>Mixing\<close>

definition rotl32 :: "u32 \<Rightarrow> nat \<Rightarrow> u32" where
  "rotl32 x r = push_bit r x OR drop_bit (32 - r) x"

definition rotl64 :: "u64 \<Rightarrow> nat \<Rightarrow> u64" where
  "rotl64 x r = push_bit r x OR drop_bit (64 - r) x"

definition getblock32 :: "u8 list \<Rightarrow> nat \<Rightarrow> u32" where
  "getblock32 data i = ucast (data ! (4 * i)) OR push_bit 8 (ucast (data ! (4 * i + 1))) OR
     push_bit 16 (ucast (data ! (4 * i + 2))) OR push_bit 24 (ucast (data ! (4 * i + 3)))"

definition getblock64 :: "u8 list \<Rightarrow> nat \<Rightarrow> u64" where
  "getblock64 data i = ucast (getblock32 data (2 * i)) OR push_bit 32 (ucast (getblock32 data (2 * i + 1)))"

definition fmix32 :: "u32 \<Rightarrow> u32" where
  "fmix32 h = (let h = h XOR drop_bit 16 h; h = h * 0x85ebca6b; h = h XOR drop_bit 13 h; h = h * 0xc2b2ae35
     in h XOR drop_bit 16 h)"

definition fmix64 :: "u64 \<Rightarrow> u64" where
  "fmix64 k = (let k = k XOR drop_bit 33 k; k = k * 0xff51afd7ed558ccd; k = k XOR drop_bit 33 k; k = k * 0xc4ceb9fe1a85ec53
     in k XOR drop_bit 33 k)"

text \<open>\<open>k *= c; k = ROTL(k, r); k *= d\<close>, and \<open>h = h * 5 + e\<close>.\<close>

definition mix32 :: "u32 \<Rightarrow> nat \<Rightarrow> u32 \<Rightarrow> u32 \<Rightarrow> u32" where
  "mix32 c r d k = rotl32 (k * c) r * d"

definition mix64 :: "u64 \<Rightarrow> nat \<Rightarrow> u64 \<Rightarrow> u64 \<Rightarrow> u64" where
  "mix64 c r d k = rotl64 (k * c) r * d"

text \<open>The \<open>switch\<close> of the tails falls through: bytes \<open>from\<close> up to the last one of the tail, each at its place.\<close>

fun tail32 :: "u8 list \<Rightarrow> nat \<Rightarrow> nat \<Rightarrow> u32" where
  "tail32 tail from 0 = 0"
| "tail32 tail from (Suc n) = tail32 tail from n XOR push_bit (8 * n) (ucast (tail ! (from + n)))"

fun tail64 :: "u8 list \<Rightarrow> nat \<Rightarrow> nat \<Rightarrow> u64" where
  "tail64 tail from 0 = 0"
| "tail64 tail from (Suc n) = tail64 tail from n XOR push_bit (8 * n) (ucast (tail ! (from + n)))"

section \<open>The hash functions\<close>

definition x86_32_round :: "u8 list \<Rightarrow> nat \<Rightarrow> u32 \<Rightarrow> u32" where
  "x86_32_round data i h1 = rotl32 (h1 XOR mix32 0xcc9e2d51 15 0x1b873593 (getblock32 data i)) 13 * 5 + 0xe6546b64"

definition x86_32_tail :: "u8 list \<Rightarrow> u32 \<Rightarrow> u32" where
  "x86_32_tail tail h1 = (if tail = [] then h1
     else h1 XOR mix32 0xcc9e2d51 15 0x1b873593 (tail32 tail 0 (length tail)))"

definition MurmurHash3_x86_32 :: "u8 list \<Rightarrow> u32 \<Rightarrow> u32" where
  "MurmurHash3_x86_32 key seed =
    (let nblocks = length key div 4; h1 = fold (x86_32_round key) [0 ..< nblocks] seed;
         h1 = x86_32_tail (drop (4 * nblocks) key) h1
     in fmix32 (h1 XOR of_nat (length key)))"

type_synonym state32 = "u32 \<times> u32 \<times> u32 \<times> u32"

fun x86_128_round :: "u8 list \<Rightarrow> nat \<Rightarrow> state32 \<Rightarrow> state32" where
  "x86_128_round data i (h1, h2, h3, h4) =
    (let h1 = h1 XOR mix32 0x239b961b 15 0xab0e9789 (getblock32 data (4 * i)); h1 = rotl32 h1 19; h1 = h1 + h2; h1 = h1 * 5 + 0x561ccd1b;
         h2 = h2 XOR mix32 0xab0e9789 16 0x38b34ae5 (getblock32 data (4 * i + 1)); h2 = rotl32 h2 17; h2 = h2 + h3; h2 = h2 * 5 + 0x0bcaa747;
         h3 = h3 XOR mix32 0x38b34ae5 17 0xa1e38b93 (getblock32 data (4 * i + 2)); h3 = rotl32 h3 15; h3 = h3 + h4; h3 = h3 * 5 + 0x96cd1c35;
         h4 = h4 XOR mix32 0xa1e38b93 18 0x239b961b (getblock32 data (4 * i + 3)); h4 = rotl32 h4 13; h4 = h4 + h1; h4 = h4 * 5 + 0x32ac3b17
     in (h1, h2, h3, h4))"

fun x86_128_tail :: "u8 list \<Rightarrow> state32 \<Rightarrow> state32" where
  "x86_128_tail tail (h1, h2, h3, h4) = (let n = length tail in
    (if n \<ge> 1 then h1 XOR mix32 0x239b961b 15 0xab0e9789 (tail32 tail 0 (min n 4)) else h1,
     if n \<ge> 5 then h2 XOR mix32 0xab0e9789 16 0x38b34ae5 (tail32 tail 4 (min n 8 - 4)) else h2,
     if n \<ge> 9 then h3 XOR mix32 0x38b34ae5 17 0xa1e38b93 (tail32 tail 8 (min n 12 - 8)) else h3,
     if n \<ge> 13 then h4 XOR mix32 0xa1e38b93 18 0x239b961b (tail32 tail 12 (n - 12)) else h4))"

fun x86_128_sum :: "state32 \<Rightarrow> state32" where
  "x86_128_sum (h1, h2, h3, h4) = (let h1 = h1 + h2; h1 = h1 + h3; h1 = h1 + h4 in (h1, h2 + h1, h3 + h1, h4 + h1))"

fun x86_128_finish :: "u32 \<Rightarrow> state32 \<Rightarrow> state32" where
  "x86_128_finish len (h1, h2, h3, h4) =
    (let (h1, h2, h3, h4) = x86_128_sum (h1 XOR len, h2 XOR len, h3 XOR len, h4 XOR len)
     in x86_128_sum (fmix32 h1, fmix32 h2, fmix32 h3, fmix32 h4))"

definition MurmurHash3_x86_128 :: "u8 list \<Rightarrow> u32 \<Rightarrow> state32" where
  "MurmurHash3_x86_128 key seed =
    (let nblocks = length key div 16; h = fold (x86_128_round key) [0 ..< nblocks] (seed, seed, seed, seed)
     in x86_128_finish (of_nat (length key)) (x86_128_tail (drop (16 * nblocks) key) h))"

fun x64_128_round :: "u8 list \<Rightarrow> nat \<Rightarrow> u64 \<times> u64 \<Rightarrow> u64 \<times> u64" where
  "x64_128_round data i (h1, h2) =
    (let h1 = h1 XOR mix64 0x87c37b91114253d5 31 0x4cf5ad432745937f (getblock64 data (2 * i)); h1 = rotl64 h1 27; h1 = h1 + h2;
         h1 = h1 * 5 + 0x52dce729;
         h2 = h2 XOR mix64 0x4cf5ad432745937f 33 0x87c37b91114253d5 (getblock64 data (2 * i + 1)); h2 = rotl64 h2 31; h2 = h2 + h1;
         h2 = h2 * 5 + 0x38495ab5
     in (h1, h2))"

fun x64_128_tail :: "u8 list \<Rightarrow> u64 \<times> u64 \<Rightarrow> u64 \<times> u64" where
  "x64_128_tail tail (h1, h2) = (let n = length tail in
    (if n \<ge> 1 then h1 XOR mix64 0x87c37b91114253d5 31 0x4cf5ad432745937f (tail64 tail 0 (min n 8)) else h1,
     if n \<ge> 9 then h2 XOR mix64 0x4cf5ad432745937f 33 0x87c37b91114253d5 (tail64 tail 8 (n - 8)) else h2))"

fun x64_128_finish :: "u64 \<Rightarrow> u64 \<times> u64 \<Rightarrow> u64 \<times> u64" where
  "x64_128_finish len (h1, h2) =
    (let h1 = h1 XOR len; h2 = h2 XOR len; h1 = h1 + h2; h2 = h2 + h1; h1 = fmix64 h1; h2 = fmix64 h2; h1 = h1 + h2; h2 = h2 + h1
     in (h1, h2))"

definition MurmurHash3_x64_128 :: "u8 list \<Rightarrow> u32 \<Rightarrow> u64 \<times> u64" where
  "MurmurHash3_x64_128 key seed =
    (let nblocks = length key div 16; h = fold (x64_128_round key) [0 ..< nblocks] (ucast seed, ucast seed)
     in x64_128_finish (of_nat (length key)) (x64_128_tail (drop (16 * nblocks) key) h))"

section \<open>Hash (hash.h)\<close>

text \<open>Keys: the bytes of a string; of a C string up to its terminator; the object representation of an integer; pairs
  and tuples of integers and strings; other types. The other hashers, which ignore the seed, are parameters; their \<open>size_t\<close>
  is cut to 32 bits. A combination that does not compile is None.\<close>

datatype element = EInt "u8 list" | EString "u8 list"

datatype key = KString "u8 list" | KCString "u8 list" | KInt "u8 list" | KPair element element | KTuple "element list" | KOther nat

datatype hash_type = kStdHash | kMurmurHashx86_32 | kAbseilHash

record hashers =
  std_hash :: "key \<Rightarrow> u64"
  absl_hash :: "key \<Rightarrow> u64"

definition HashString :: "hashers \<Rightarrow> hash_type \<Rightarrow> u8 list \<Rightarrow> u32 \<Rightarrow> u32" where
  "HashString H t bytes seed = (case t of kMurmurHashx86_32 \<Rightarrow> MurmurHash3_x86_32 bytes seed
     | kAbseilHash \<Rightarrow> ucast (absl_hash H (KString bytes)) | kStdHash \<Rightarrow> ucast (std_hash H (KString bytes)))"

definition HashCString :: "hashers \<Rightarrow> hash_type \<Rightarrow> u8 list \<Rightarrow> u32 \<Rightarrow> u32" where
  "HashCString H t bytes seed = (let str = takeWhile (\<lambda>b. b \<noteq> 0) bytes
     in case t of kMurmurHashx86_32 \<Rightarrow> MurmurHash3_x86_32 str seed
     | kAbseilHash \<Rightarrow> ucast (absl_hash H (KString str)) | kStdHash \<Rightarrow> ucast (std_hash H (KString str)))"

definition HashInt :: "hashers \<Rightarrow> hash_type \<Rightarrow> u8 list \<Rightarrow> u32 \<Rightarrow> u32" where
  "HashInt H t bytes seed = (case t of kMurmurHashx86_32 \<Rightarrow> MurmurHash3_x86_32 bytes seed
     | kAbseilHash \<Rightarrow> ucast (absl_hash H (KInt bytes)) | kStdHash \<Rightarrow> ucast (std_hash H (KInt bytes)))"

fun HashElement :: "hashers \<Rightarrow> hash_type \<Rightarrow> element \<Rightarrow> u32 \<Rightarrow> u32" where
  "HashElement H t (EInt bytes) seed = HashInt H t bytes seed"
| "HashElement H t (EString bytes) seed = HashString H t bytes seed"

definition HashPair :: "hashers \<Rightarrow> hash_type \<Rightarrow> element \<Rightarrow> element \<Rightarrow> u32 \<Rightarrow> u32 option" where
  "HashPair H t a b seed = (case t of kMurmurHashx86_32 \<Rightarrow> Some (HashElement H t b (HashElement H t a seed))
     | kAbseilHash \<Rightarrow> Some (ucast (absl_hash H (KPair a b))) | kStdHash \<Rightarrow> None)"

definition HashTuple :: "hashers \<Rightarrow> hash_type \<Rightarrow> element list \<Rightarrow> u32 \<Rightarrow> u32 option" where
  "HashTuple H t es seed = (case t of kMurmurHashx86_32 \<Rightarrow> Some (fold (HashElement H t) es seed)
     | kAbseilHash \<Rightarrow> Some (ucast (absl_hash H (KTuple es))) | kStdHash \<Rightarrow> None)"

fun HashHelper :: "hashers \<Rightarrow> hash_type \<Rightarrow> key \<Rightarrow> u32 \<Rightarrow> u32 option" where
  "HashHelper H t (KString bytes) seed = Some (HashString H t bytes seed)"
| "HashHelper H t (KCString bytes) seed = Some (HashCString H t bytes seed)"
| "HashHelper H t (KInt bytes) seed = Some (HashInt H t bytes seed)"
| "HashHelper H t (KPair a b) seed = HashPair H t a b seed"
| "HashHelper H t (KTuple es) seed = HashTuple H t es seed"
| "HashHelper H t (KOther x) seed = Some (ucast (absl_hash H (KOther x)))"

end
