(* ===== verification/Murmur_Props.thy ===== *)
theory Murmur_Props
  imports Murmur
begin

text \<open>
  Properties of MurmurHash3: every step of it is a permutation of words, so the hash is injective in the seed for every key,
  keys of one block do not collide, and the hash of a pair collides only where its parts do.
\<close>

section \<open>Known answers\<close>

lemma MurmurHash3_x86_32_answers:
  "MurmurHash3_x86_32 [] 1 = 0x514E28B7"
  "MurmurHash3_x86_32 [104, 101, 108, 108, 111] 0 = 0x248BFA47"
  by code_simp+

lemma MurmurHash3_128_answers:
  "MurmurHash3_x64_128 [104, 101, 108, 108, 111] 0 = (0xCBD8A7B341BD9B02, 0x5B1E906A48AE1D19)"
  "MurmurHash3_x86_128 [104, 101, 108, 108, 111] 0 = (0x2B2444A0, 0xDB91DEF7, 0x9ADB31B6, 0x9ADB31B6)"
  "MurmurHash3_x86_128 (map of_nat [0 ..< 17]) 7 = (0xc772326, 0xce370bf6, 0xaafbef31, 0xca56ca36)"
  by code_simp+

section \<open>Permutations of words\<close>

lemma odd_multiple_injective: "c * d = 1 \<Longrightarrow> x * c = y * c \<longleftrightarrow> x = y" for c :: "'a::len word"
  by (metis mult.assoc mult.right_neutral)

lemma rotl_injective:
  assumes "0 < r" "r < LENGTH('a)" "push_bit r x OR drop_bit (LENGTH('a) - r) x = push_bit r y OR drop_bit (LENGTH('a) - r) (y :: 'a::len word)"
  shows "x = y"
proof (rule bit_word_eqI)
  fix n
  assume n: "n < LENGTH('a)"
  have bits: "bit x n = bit (push_bit r x OR drop_bit (LENGTH('a) - r) x) ((n + r) mod LENGTH('a))" for x :: "'a word"
  proof (cases "n + r < LENGTH('a)")
    case True
    have "\<not> bit x (LENGTH('a) - r + (n + r))" using assms(2) by (intro notI) (drule bit_imp_le_length, simp)
    with True show ?thesis by (simp add: bit_or_iff bit_push_bit_iff bit_drop_bit_eq)
  next
    case False
    then have "(n + r) mod LENGTH('a) = n + r - LENGTH('a)" using n assms(2) by (simp add: mod_if)
    moreover have "LENGTH('a) - r + (n + r - LENGTH('a)) = n" "n + r - LENGTH('a) < r" using False n assms(2) by linarith+
    ultimately show ?thesis by (simp add: bit_or_iff bit_push_bit_iff bit_drop_bit_eq)
  qed
  show "bit x n = bit y n" using bits [of x] bits [of y] assms(3) by simp
qed

lemma rotl32_eq [simp]: "0 < r \<Longrightarrow> r < 32 \<Longrightarrow> rotl32 x r = rotl32 y r \<longleftrightarrow> x = y"
  using rotl_injective [of r x y] by (auto simp: rotl32_def)

lemma rotl64_eq [simp]: "0 < r \<Longrightarrow> r < 64 \<Longrightarrow> rotl64 x r = rotl64 y r \<longleftrightarrow> x = y"
  using rotl_injective [of r x y] by (auto simp: rotl64_def)

text \<open>\<open>x ^= x >> k\<close> is undone by shifting again.\<close>

lemma xorshift_undo:
  assumes "LENGTH('a) \<le> 3 * k"
  shows "(x XOR drop_bit k x) XOR drop_bit k (x XOR drop_bit k x) XOR drop_bit (k + k) (x XOR drop_bit k x) = (x :: 'a::len word)"
proof -
  have "drop_bit (k + k + k) x = 0"
    using assms by (intro bit_word_eqI) (auto simp: bit_drop_bit_eq dest: bit_imp_le_length)
  then show ?thesis by (simp add: drop_bit_xor ac_simps)
qed

lemma xorshift_eq: "LENGTH('a) \<le> 3 * k \<Longrightarrow> x XOR drop_bit k x = y XOR drop_bit k y \<longleftrightarrow> x = y" for x y :: "'a::len word"
  using xorshift_undo [of k x] xorshift_undo [of k y] by metis

lemma xor_eq [simp]: "x XOR a = y XOR a \<longleftrightarrow> x = y" "a XOR x = a XOR y \<longleftrightarrow> x = y" for x y :: "'a::len word"
  by (metis xor.right_neutral xor.assoc xor_self_eq) (metis xor.left_neutral xor.assoc xor_self_eq)

lemma multipliers32:
  "(0xcc9e2d51 :: u32) * 0xdee13bb1 = 1"
  "(0x1b873593 :: u32) * 0x56ed309b = 1"
  "(0x85ebca6b :: u32) * 0xa5cb9243 = 1"
  "(0xc2b2ae35 :: u32) * 0x7ed1b41d = 1"
  "(5 :: u32) * 0xcccccccd = 1"
  "(0x239b961b :: u32) * 0x89c95413 = 1"
  "(0xab0e9789 :: u32) * 0xdf130eb9 = 1"
  "(0x38b34ae5 :: u32) * 0x747862ed = 1"
  "(0xa1e38b93 :: u32) * 0x58d64a9b = 1"
  by simp_all

lemmas multipliers32_eq [simp] = multipliers32 [THEN odd_multiple_injective]

lemma multipliers64:
  "(0x87c37b91114253d5 :: u64) * 0xa98409e882ce4d7d = 1"
  "(0x4cf5ad432745937f :: u64) * 0xa81e14edd9de2c7f = 1"
  "(0xff51afd7ed558ccd :: u64) * 0x4f74430c22a54005 = 1"
  "(0xc4ceb9fe1a85ec53 :: u64) * 0x9cb4b2f8129337db = 1"
  "(5 :: u64) * 0xcccccccccccccccd = 1"
  by simp_all

lemmas multipliers64_eq [simp] = multipliers64 [THEN odd_multiple_injective]

lemma xorshift32_eq [simp]: "x XOR drop_bit 16 x = y XOR drop_bit 16 y \<longleftrightarrow> x = y" "x XOR drop_bit 13 x = y XOR drop_bit 13 y \<longleftrightarrow> x = y"
  for x y :: u32
  by (rule xorshift_eq, simp)+

lemma xorshift64_eq [simp]: "x XOR drop_bit 33 x = y XOR drop_bit 33 y \<longleftrightarrow> x = y" for x y :: u64
  by (rule xorshift_eq) simp

lemma fmix_eq [simp]: "fmix32 x = fmix32 y \<longleftrightarrow> x = y" "fmix64 x' = fmix64 y' \<longleftrightarrow> x' = y'"
  by (simp_all add: fmix32_def fmix64_def Let_def)

section \<open>Bytes of words\<close>

lemma bit_byte_at: "bit (push_bit k (ucast (b :: u8) :: 'a::len word)) m \<longleftrightarrow> k \<le> m \<and> m < LENGTH('a) \<and> m - k < 8 \<and> bit b (m - k)"
  by (auto simp: bit_simps dest: bit_imp_le_length)

lemma place_cases:
  assumes "Suc n \<le> N"
  shows "((m < 8 * n \<and> P (m div 8) (m mod 8)) \<noteq> (8 * n \<le> m \<and> m < 8 * N \<and> m - 8 * n < 8 \<and> P n (m - 8 * n))) =
    (m < 8 * Suc n \<and> P (m div 8) (m mod 8))"
proof (cases "8 * n \<le> m \<and> m < 8 * n + 8")
  case True
  then have "m div 8 = n" by (intro div_nat_eqI) simp_all
  moreover from this have "m mod 8 = m - 8 * n" by (simp add: modulo_nat_def mult.commute)
  ultimately show ?thesis using True assms by auto
qed auto

lemma length_words: "LENGTH(32) = 8 * 4" "LENGTH(64) = 8 * 8"
  by simp_all

lemma bit_tail32: "n \<le> 4 \<Longrightarrow> bit (tail32 t f n) m \<longleftrightarrow> m < 8 * n \<and> bit (t ! (f + m div 8)) (m mod 8)"
proof (induction n)
  case (Suc n)
  have IH: "bit (tail32 t f n) m \<longleftrightarrow> m < 8 * n \<and> bit (t ! (f + m div 8)) (m mod 8)" using Suc by simp
  have step: "bit (tail32 t f (Suc n)) m \<longleftrightarrow> bit (tail32 t f n) m \<noteq> (8 * n \<le> m \<and> m < 8 * 4 \<and> m - 8 * n < 8 \<and> bit (t ! (f + n)) (m - 8 * n))"
    by (simp only: tail32.simps bit_xor_iff bit_byte_at length_words)
  show ?case unfolding step IH using Suc.prems by (rule place_cases [where P = "\<lambda>q r. bit (t ! (f + q)) r" and N = 4])
qed simp

lemma bit_tail64: "n \<le> 8 \<Longrightarrow> bit (tail64 t f n) m \<longleftrightarrow> m < 8 * n \<and> bit (t ! (f + m div 8)) (m mod 8)"
proof (induction n)
  case (Suc n)
  have IH: "bit (tail64 t f n) m \<longleftrightarrow> m < 8 * n \<and> bit (t ! (f + m div 8)) (m mod 8)" using Suc by simp
  have step: "bit (tail64 t f (Suc n)) m \<longleftrightarrow> bit (tail64 t f n) m \<noteq> (8 * n \<le> m \<and> m < 8 * 8 \<and> m - 8 * n < 8 \<and> bit (t ! (f + n)) (m - 8 * n))"
    by (simp only: tail64.simps bit_xor_iff bit_byte_at length_words)
  show ?case unfolding step IH using Suc.prems by (rule place_cases [where P = "\<lambda>q r. bit (t ! (f + q)) r" and N = 8])
qed simp

lemma bytes_by_bits:
  assumes "\<And>m. m < 8 * n \<Longrightarrow> bit (t ! (f + m div 8)) (m mod 8) = bit (u ! (f + m div 8)) (m mod 8)" "k < n"
  shows "t ! (f + k) = (u ! (f + k) :: u8)"
proof (rule bit_word_eqI)
  fix j
  assume "j < LENGTH(8)"
  then have "8 * k + j < 8 * n" "(8 * k + j) div 8 = k" "(8 * k + j) mod 8 = j" using assms(2) by auto
  with assms(1) [of "8 * k + j"] show "bit (t ! (f + k)) j = bit (u ! (f + k)) j" by simp
qed

lemma tail32_eqD: "tail32 t f n = tail32 u f n \<Longrightarrow> n \<le> 4 \<Longrightarrow> k < n \<Longrightarrow> t ! (f + k) = u ! (f + k)"
  by (rule bytes_by_bits [of n]) (metis bit_tail32)

lemma tail64_eqD: "tail64 t f n = tail64 u f n \<Longrightarrow> n \<le> 8 \<Longrightarrow> k < n \<Longrightarrow> t ! (f + k) = u ! (f + k)"
  by (rule bytes_by_bits [of n]) (metis bit_tail64)

text \<open>A block is a full tail.\<close>

lemma getblock32_tail: "getblock32 d i = tail32 d (4 * i) 4"
proof (rule bit_word_eqI)
  fix m
  assume "m < LENGTH(32)"
  then consider "m < 8" | "8 \<le> m" "m < 16" | "16 \<le> m" "m < 24" | "24 \<le> m" "m < 32" by fastforce
  then have "bit (getblock32 d i) m \<longleftrightarrow> bit (d ! (4 * i + m div 8)) (m mod 8)"
  proof cases
    case 1
    then show ?thesis using bit_byte_at [of 0 "d ! (4 * i)" m, where 'a = 32] by (simp add: getblock32_def bit_or_iff bit_byte_at del: push_bit_numeral)
  next
    case 2
    then have "m div 8 = 1" "m mod 8 = m - 8" "m - 8 < 8" by presburger+
    with 2 show ?thesis using bit_byte_at [of 0 "d ! (4 * i)" m, where 'a = 32] by (simp add: getblock32_def bit_or_iff bit_byte_at del: push_bit_numeral)
  next
    case 3
    then have "m div 8 = 2" "m mod 8 = m - 16" "m - 16 < 8" "\<not> m - 8 < 8" by presburger+
    with 3 show ?thesis using bit_byte_at [of 0 "d ! (4 * i)" m, where 'a = 32] by (simp add: getblock32_def bit_or_iff bit_byte_at del: push_bit_numeral)
  next
    case 4
    then have "m div 8 = 3" "m mod 8 = m - 24" "m - 24 < 8" "\<not> m - 8 < 8" "\<not> m - 16 < 8" by presburger+
    with 4 show ?thesis using bit_byte_at [of 0 "d ! (4 * i)" m, where 'a = 32] by (simp add: getblock32_def bit_or_iff bit_byte_at del: push_bit_numeral)
  qed
  with \<open>m < LENGTH(32)\<close> show "bit (getblock32 d i) m = bit (tail32 d (4 * i) 4) m" by (simp add: bit_tail32)
qed

lemma bit_getblock64: "bit (getblock64 d i) m \<longleftrightarrow> bit (tail64 d (8 * i) 8) m"
proof -
  have at: "bit (getblock64 d i) m \<longleftrightarrow> m < 32 \<and> bit (getblock32 d (2 * i)) m \<or> 32 \<le> m \<and> m < 64 \<and> bit (getblock32 d (2 * i + 1)) (m - 32)"
    by (auto simp: getblock64_def bit_or_iff bit_push_bit_iff bit_ucast_iff dest: bit_imp_le_length)
  have first: "bit (getblock32 d (2 * i)) m \<longleftrightarrow> m < 32 \<and> bit (d ! (8 * i + m div 8)) (m mod 8)"
    by (simp add: getblock32_tail bit_tail32)
  have second: "bit (getblock32 d (2 * i + 1)) j \<longleftrightarrow> j < 32 \<and> bit (d ! (8 * i + (32 + j) div 8)) ((32 + j) mod 8)" for j
  proof -
    have "(32 + j) div 8 = 4 + j div 8" "(32 + j) mod 8 = j mod 8" using div_mult_self2 [of 8 j 4] mod_mult_self2 [of j 8 4] by (simp_all add: add.commute)
    then show ?thesis by (simp add: getblock32_tail bit_tail32 ac_simps)
  qed
  show ?thesis
  proof (cases "m < 32")
    case True
    then show ?thesis unfolding at first by (simp add: bit_tail64)
  next
    case False
    then obtain j where m: "m = 32 + j" by (metis le_add_diff_inverse not_less)
    show ?thesis using at second [of j] unfolding m by (auto simp: bit_tail64)
  qed
qed

lemma getblock64_tail: "getblock64 d i = tail64 d (8 * i) 8"
  by (rule bit_word_eqI) (rule bit_getblock64)

lemma nth_equal_blocks: "length a = n \<Longrightarrow> length b = n \<Longrightarrow> (\<And>k. k < n \<Longrightarrow> a ! k = b ! k) \<Longrightarrow> a = b"
  by (rule nth_equalityI) simp_all

section \<open>Injectivity\<close>

lemma mix32_eq [simp]:
  "mix32 0xcc9e2d51 15 0x1b873593 x = mix32 0xcc9e2d51 15 0x1b873593 y \<longleftrightarrow> x = y"
  "mix32 0x239b961b 15 0xab0e9789 x = mix32 0x239b961b 15 0xab0e9789 y \<longleftrightarrow> x = y"
  "mix32 0xab0e9789 16 0x38b34ae5 x = mix32 0xab0e9789 16 0x38b34ae5 y \<longleftrightarrow> x = y"
  "mix32 0x38b34ae5 17 0xa1e38b93 x = mix32 0x38b34ae5 17 0xa1e38b93 y \<longleftrightarrow> x = y"
  "mix32 0xa1e38b93 18 0x239b961b x = mix32 0xa1e38b93 18 0x239b961b y \<longleftrightarrow> x = y"
  by (simp_all add: mix32_def)

lemma mix64_eq [simp]:
  "mix64 0x87c37b91114253d5 31 0x4cf5ad432745937f x = mix64 0x87c37b91114253d5 31 0x4cf5ad432745937f y \<longleftrightarrow> x = y"
  "mix64 0x4cf5ad432745937f 33 0x87c37b91114253d5 x = mix64 0x4cf5ad432745937f 33 0x87c37b91114253d5 y \<longleftrightarrow> x = y"
  by (simp_all add: mix64_def)

lemma x86_32_round_eq [simp]: "x86_32_round key i x = x86_32_round key i y \<longleftrightarrow> x = y"
  by (simp add: x86_32_round_def)

lemma x86_32_rounds_eq: "fold (x86_32_round key) is x = fold (x86_32_round key) is y \<longleftrightarrow> x = y"
  by (induction "is" arbitrary: x y) simp_all

lemma x86_32_tail_eq [simp]: "x86_32_tail tail x = x86_32_tail tail y \<longleftrightarrow> x = y"
  by (simp add: x86_32_tail_def)

lemma seeds_eq [simp]: "MurmurHash3_x86_32 key x = MurmurHash3_x86_32 key y \<longleftrightarrow> x = y"
  by (simp add: MurmurHash3_x86_32_def Let_def x86_32_rounds_eq)

lemma short_keys_eq:
  assumes "length a = n" "length b = n" "n \<le> 4"
  shows "MurmurHash3_x86_32 a seed = MurmurHash3_x86_32 b seed \<longleftrightarrow> a = b"
proof
  assume eq: "MurmurHash3_x86_32 a seed = MurmurHash3_x86_32 b seed"
  have "tail32 a 0 n = tail32 b 0 n"
  proof (cases "n = 4")
    case True
    with eq assms show ?thesis
      by (simp add: MurmurHash3_x86_32_def Let_def x86_32_tail_def x86_32_round_def getblock32_tail)
  next
    case False
    then have "n div 4 = 0" using assms(3) by simp
    with eq assms show ?thesis by (cases "n = 0") (auto simp: MurmurHash3_x86_32_def Let_def x86_32_tail_def)
  qed
  from nth_equal_blocks [OF assms(1,2)] tail32_eqD [OF this assms(3)] show "a = b" by simp
qed simp

lemma pair_sum: "a + b = a' + b' \<and> b + (a + b) = b' + (a' + b') \<longleftrightarrow> a = a' \<and> b = b'" for a :: "'a::len word"
  by (metis add_right_cancel)

lemma quadruple_sum: "a + b + c + d = a' + b' + c' + d' \<and> b + (a + b + c + d) = b' + (a' + b' + c' + d') \<and>
    c + (a + b + c + d) = c' + (a' + b' + c' + d') \<and> d + (a + b + c + d) = d' + (a' + b' + c' + d') \<longleftrightarrow>
    a = a' \<and> b = b' \<and> c = c' \<and> d = d'" for a :: "'a::len word"
  by (metis add_right_cancel)

lemma x64_128_finish_eq [simp]: "x64_128_finish len p = x64_128_finish len q \<longleftrightarrow> p = q"
  by (cases p; cases q) (simp only: x64_128_finish.simps Let_def prod.inject pair_sum fmix_eq xor_eq)

lemma x86_128_sum_eq [simp]: "x86_128_sum p = x86_128_sum q \<longleftrightarrow> p = q"
  by (cases p; cases q) (simp only: x86_128_sum.simps Let_def prod.inject quadruple_sum)

lemma x86_128_finish_eq [simp]: "x86_128_finish len p = x86_128_finish len q \<longleftrightarrow> p = q"
proof
  assume eq: "x86_128_finish len p = x86_128_finish len q"
  obtain p1 p2 p3 p4 q1 q2 q3 q4 where p: "p = (p1, p2, p3, p4)" and q: "q = (q1, q2, q3, q4)" by (metis prod.exhaust)
  obtain a1 a2 a3 a4 b1 b2 b3 b4 where a: "x86_128_sum (p1 XOR len, p2 XOR len, p3 XOR len, p4 XOR len) = (a1, a2, a3, a4)"
    and b: "x86_128_sum (q1 XOR len, q2 XOR len, q3 XOR len, q4 XOR len) = (b1, b2, b3, b4)" by (metis prod.exhaust)
  from eq have "(a1, a2, a3, a4) = (b1, b2, b3, b4)"
    unfolding p q x86_128_finish.simps a b Let_def prod.case x86_128_sum_eq by (simp only: prod.inject fmix_eq)
  then have "x86_128_sum (p1 XOR len, p2 XOR len, p3 XOR len, p4 XOR len) = x86_128_sum (q1 XOR len, q2 XOR len, q3 XOR len, q4 XOR len)"
    using a b by metis
  then show "p = q" unfolding x86_128_sum_eq using p q by simp
qed simp

lemma lanes64: "(a + h) * 5 + e = (a' + h) * 5 + e \<and> (b + ((a + h) * 5 + e)) * 5 + f = (b' + ((a' + h) * 5 + e)) * 5 + f \<longleftrightarrow>
    a = a' \<and> b = b'" for a :: u64
  by (metis add_right_cancel multipliers64_eq(5))

lemma lanes32: "(a + h2) * 5 + e1 = (a' + h2) * 5 + e1 \<and> (b + h3) * 5 + e2 = (b' + h3) * 5 + e2 \<and> (c + h4) * 5 + e3 = (c' + h4) * 5 + e3 \<and>
    (d + ((a + h2) * 5 + e1)) * 5 + e4 = (d' + ((a' + h2) * 5 + e1)) * 5 + e4 \<longleftrightarrow> a = a' \<and> b = b' \<and> c = c' \<and> d = d'" for a b c d :: u32
  by (metis add_right_cancel multipliers32_eq(5))

lemma x64_128_block_eqD:
  assumes "x64_128_round a 0 h = x64_128_round b 0 h"
  shows "getblock64 a 0 = getblock64 b 0 \<and> getblock64 a 1 = getblock64 b 1"
proof -
  obtain h1 h2 where h: "h = (h1, h2)" by fastforce
  from assms show ?thesis unfolding h x64_128_round.simps Let_def prod.inject lanes64 by simp
qed

lemma x86_128_block_eqD:
  assumes "x86_128_round a 0 h = x86_128_round b 0 h"
  shows "getblock32 a 0 = getblock32 b 0 \<and> getblock32 a 1 = getblock32 b 1 \<and> getblock32 a 2 = getblock32 b 2 \<and> getblock32 a 3 = getblock32 b 3"
proof -
  obtain h1 h2 h3 h4 where h: "h = (h1, h2, h3, h4)" by (metis prod.exhaust)
  from assms show ?thesis unfolding h x86_128_round.simps Let_def prod.inject lanes32 by (simp add: numeral_2_eq_2)
qed

lemma no_tail: "x86_128_tail [] h = h" "x64_128_tail [] h' = h'"
  by (cases h; simp) (cases h'; simp)

text \<open>The blocks of a key of 16 bytes determine it.\<close>

lemma two_blocks64:
  assumes "length c = 16" "length d = 16" "tail64 c (8 * 0) 8 = tail64 d (8 * 0) 8 \<and> tail64 c (8 * 1) 8 = tail64 d (8 * 1) 8"
  shows "c = d"
proof (rule nth_equal_blocks [OF assms(1,2)])
  fix k :: nat
  assume "k < 16"
  then show "c ! k = d ! k"
    using assms(3) tail64_eqD [of c 0 8 d k] tail64_eqD [of c 8 8 d "k - 8"] by (cases "k < 8") simp_all
qed

lemma four_blocks32:
  assumes "length c = 16" "length d = 16" "tail32 c (4 * 0) 4 = tail32 d (4 * 0) 4 \<and> tail32 c (4 * 1) 4 = tail32 d (4 * 1) 4 \<and>
    tail32 c (4 * 2) 4 = tail32 d (4 * 2) 4 \<and> tail32 c (4 * 3) 4 = tail32 d (4 * 3) 4"
  shows "c = d"
proof (rule nth_equal_blocks [OF assms(1,2)])
  fix k :: nat
  assume "k < 16"
  then consider "k < 4" | "4 \<le> k" "k < 8" | "8 \<le> k" "k < 12" | "12 \<le> k" "k < 16" by linarith
  then show "c ! k = d ! k"
    using assms(3) tail32_eqD [of c 0 4 d k] tail32_eqD [of c 4 4 d "k - 4"] tail32_eqD [of c 8 4 d "k - 8"]
      tail32_eqD [of c 12 4 d "k - 12"]
    by cases simp_all
qed

section \<open>Properties\<close>

text \<open>
  The 32-bit hash permutes the seeds, for every key; so the hash of a pair, which is the hash of its second element seeded with the
  hash of its first one, collides with that of another pair with the same second element exactly when the first elements collide, and
  likewise for tuples that differ in front of a common end; and pairs with the same first element collide exactly when the second ones
  do under that seed.
\<close>

lemma HashElement_seed: "HashElement H kMurmurHashx86_32 e x = HashElement H kMurmurHashx86_32 e y \<longleftrightarrow> x = y"
  by (cases e) (simp_all add: HashInt_def HashString_def)

lemma elements_seed: "fold (HashElement H kMurmurHashx86_32) es x = fold (HashElement H kMurmurHashx86_32) es y \<longleftrightarrow> x = y"
  by (induction es arbitrary: x y) (simp_all add: HashElement_seed)

theorem pair_hash_collides_with_its_parts:
  "bij (MurmurHash3_x86_32 key) \<and>
    (HashPair H kMurmurHashx86_32 a c seed = HashPair H kMurmurHashx86_32 b c seed) =
      (HashElement H kMurmurHashx86_32 a seed = HashElement H kMurmurHashx86_32 b seed) \<and>
    (HashPair H kMurmurHashx86_32 c a seed = HashPair H kMurmurHashx86_32 c b seed) =
      (HashElement H kMurmurHashx86_32 a (HashElement H kMurmurHashx86_32 c seed) =
       HashElement H kMurmurHashx86_32 b (HashElement H kMurmurHashx86_32 c seed)) \<and>
    (HashTuple H kMurmurHashx86_32 (xs @ es) seed = HashTuple H kMurmurHashx86_32 (ys @ es) seed) =
      (HashTuple H kMurmurHashx86_32 xs seed = HashTuple H kMurmurHashx86_32 ys seed)"
proof -
  have "inj (MurmurHash3_x86_32 key)" by (rule injI) simp
  then have "bij (MurmurHash3_x86_32 key)" using finite_UNIV_inj_surj [of "MurmurHash3_x86_32 key"] by (simp add: bij_def)
  then show ?thesis by (simp add: HashPair_def HashTuple_def HashElement_seed elements_seed)
qed

text \<open>
  Keys of one block do not collide: two keys of the same length of at most four bytes, so in particular two integers of a type of
  at most 32 bits, have the same 32-bit hash only when they are equal; and two keys of 16 bytes have the same 128-bit hash,
  of either variant, only when they are equal. The seed is arbitrary.
\<close>

lemma x64_128_blocks_eq:
  assumes "length c = 16" "length d = 16" "MurmurHash3_x64_128 c seed = MurmurHash3_x64_128 d seed"
  shows "c = d"
proof -
  have "x64_128_round c 0 (ucast seed, ucast seed) = x64_128_round d 0 (ucast seed, ucast seed)"
    using assms by (simp add: MurmurHash3_x64_128_def Let_def no_tail del: x64_128_finish.simps x64_128_round.simps x64_128_tail.simps)
  from x64_128_block_eqD [OF this] show ?thesis unfolding getblock64_tail by (rule two_blocks64 [OF assms(1,2)])
qed

lemma x86_128_blocks_eq:
  assumes "length c = 16" "length d = 16" "MurmurHash3_x86_128 c seed = MurmurHash3_x86_128 d seed"
  shows "c = d"
proof -
  have "x86_128_round c 0 (seed, seed, seed, seed) = x86_128_round d 0 (seed, seed, seed, seed)"
    using assms by (simp add: MurmurHash3_x86_128_def Let_def no_tail del: x86_128_finish.simps x86_128_round.simps x86_128_tail.simps)
  from x86_128_block_eqD [OF this] show ?thesis unfolding getblock32_tail by (rule four_blocks32 [OF assms(1,2)])
qed

theorem block_keys_do_not_collide:
  assumes "length a = n" "length b = n" "n \<le> 4" "length c = 16" "length d = 16"
  shows "(HashHelper H kMurmurHashx86_32 (KInt a) seed = HashHelper H kMurmurHashx86_32 (KInt b) seed) = (a = b) \<and>
    (MurmurHash3_x64_128 c seed = MurmurHash3_x64_128 d seed) = (c = d) \<and>
    (MurmurHash3_x86_128 c seed = MurmurHash3_x86_128 d seed) = (c = d)"
  using short_keys_eq [OF assms(1-3)] x64_128_blocks_eq [OF assms(4,5)] x86_128_blocks_eq [OF assms(4,5)]
  by (auto simp: HashInt_def)

theorem block_keys_do_not_collide_witness:
  "HashHelper \<lparr>std_hash = \<lambda>k. 0, absl_hash = \<lambda>k. 0\<rparr> kMurmurHashx86_32 (KInt [1, 2, 3, 4]) 1234 \<noteq>
    HashHelper \<lparr>std_hash = \<lambda>k. 0, absl_hash = \<lambda>k. 0\<rparr> kMurmurHashx86_32 (KInt [1, 2, 3, 5]) 1234 \<and>
   MurmurHash3_x64_128 (replicate 16 7) 1234 \<noteq> MurmurHash3_x64_128 (replicate 15 7 @ [8]) 1234"
proof -
  have "replicate 16 (7 :: u8) \<noteq> replicate 15 7 @ [8]" by code_simp
  then show ?thesis
    using block_keys_do_not_collide [of "[1, 2, 3, 4]" 4 "[1, 2, 3, 5]" "replicate 16 7" "replicate 15 7 @ [8]"
      "\<lparr>std_hash = \<lambda>k. 0, absl_hash = \<lambda>k. 0\<rparr>" 1234] by simp
qed

end
