(* ===== verification/Text_Stream.thy ===== *)
theory Text_Stream
  imports Yacul_Prelude Complex_Main
begin

text \<open>
  The part of \<open>std::string\<close>, \<open>std::istringstream\<close>, \<open>std::sto...\<close> and \<open>sscanf\<close> that system/system_info.cc uses to read
  the files of the kernel, in the C locale. A stream is its unread text and its failbit; an extraction that fails at once
  leaves its variable alone, one that finds no digits sets it to 0, one that overflows to the largest value. A \<open>double\<close> is
  a rational number: rounding, infinities and hexadecimal notation are left out.
\<close>

section \<open>Characters and strings\<close>

abbreviation newline :: char where "newline \<equiv> CHR 0x0A"
abbreviation tab :: char where "tab \<equiv> CHR 0x09"
abbreviation blank :: char where "blank \<equiv> CHR 0x20"
abbreviation nul :: char where "nul \<equiv> CHR 0x00"

definition is_space :: "char \<Rightarrow> bool" where
  "is_space c \<longleftrightarrow> c = blank \<or> c = tab \<or> c = newline \<or> c = CHR 0x0B \<or> c = CHR 0x0C \<or> c = CHR 0x0D"

definition digit_value :: "char \<Rightarrow> nat option" where
  "digit_value c = (let n = of_char c in
     if 48 \<le> n \<and> n \<le> 57 then Some (n - 48) else if 65 \<le> n \<and> n \<le> 70 then Some (n - 55)
     else if 97 \<le> n \<and> n \<le> 102 then Some (n - 87) else None)"

definition is_digit :: "nat \<Rightarrow> char \<Rightarrow> bool" where
  "is_digit b c = (case digit_value c of None \<Rightarrow> False | Some d \<Rightarrow> d < b)"

definition digits_value :: "nat \<Rightarrow> string \<Rightarrow> nat" where
  "digits_value b ds = foldl (\<lambda>v c. v * b + (case digit_value c of None \<Rightarrow> 0 | Some d \<Rightarrow> d)) 0 ds"

text \<open>\<open>find\<close> and \<open>rfind\<close> of a character, \<open>rfind(p, 0) == 0\<close>, \<open>find(pattern) != npos\<close>, \<open>substr(pos)\<close>.\<close>

definition find_char :: "char \<Rightarrow> string \<Rightarrow> nat option" where
  "find_char c s = (if c \<in> set s then Some (length (takeWhile (\<lambda>x. x \<noteq> c) s)) else None)"

definition rfind_char :: "char \<Rightarrow> string \<Rightarrow> nat option" where
  "rfind_char c s = (if c \<in> set s then Some (length s - 1 - length (takeWhile (\<lambda>x. x \<noteq> c) (rev s))) else None)"

definition starts_with :: "string \<Rightarrow> string \<Rightarrow> bool" where
  "starts_with p s \<longleftrightarrow> take (length p) s = p"

fun find_string :: "string \<Rightarrow> string \<Rightarrow> nat option" where
  "find_string p s = (if starts_with p s then Some 0 else case s of [] \<Rightarrow> None | _ # cs \<Rightarrow> map_option Suc (find_string p cs))"

declare find_string.simps [simp del]

datatype std_exception = Invalid_argument | Out_of_range

definition substr_from :: "nat \<Rightarrow> string \<Rightarrow> std_exception + string" where
  "substr_from pos s = (if length s < pos then Inl Out_of_range else Inr (drop pos s))"

text \<open>\<open>if (!s.empty() && s.back() == c) s.pop_back()\<close>, and \<open>while (getline(f, line))\<close>.\<close>

definition pop_back_if :: "char \<Rightarrow> string \<Rightarrow> string" where
  "pop_back_if c s = (if s \<noteq> [] \<and> last s = c then butlast s else s)"

fun file_lines_from :: "string \<Rightarrow> string \<Rightarrow> string list" where
  "file_lines_from cur [] = (if cur = [] then [] else [rev cur])"
| "file_lines_from cur (c # cs) = (if c = newline then rev cur # file_lines_from [] cs else file_lines_from (c # cur) cs)"

definition file_lines :: "string \<Rightarrow> string list" where
  "file_lines s = file_lines_from [] s"

section \<open>Numbers in strings\<close>

text \<open>Sign and digits at the start of a text; a prefix \<open>0x\<close> in base 16.\<close>

definition scan_sign :: "string \<Rightarrow> bool \<times> string" where
  "scan_sign s = (case s of [] \<Rightarrow> (False, s)
     | c # cs \<Rightarrow> if c = CHR ''-'' then (True, cs) else if c = CHR ''+'' then (False, cs) else (False, s))"

definition skip_0x :: "nat \<Rightarrow> string \<Rightarrow> string" where
  "skip_0x b s = (if b = 16 \<and> (starts_with ''0x'' s \<or> starts_with ''0X'' s) then drop 2 s else s)"

definition scan_number :: "nat \<Rightarrow> string \<Rightarrow> bool \<times> string \<times> string" where
  "scan_number b s = (let (neg, s1) = scan_sign s; s2 = skip_0x b s1 in (neg, takeWhile (is_digit b) s2, dropWhile (is_digit b) s2))"

text \<open>\<open>strtoull\<close> and \<open>strtol\<close>, with the exceptions that \<open>std::stoull\<close>, \<open>stoul\<close>, \<open>stol\<close> and \<open>stoi\<close> make of their errors. A minus
  sign negates an unsigned number.\<close>

definition sto_digits :: "nat \<Rightarrow> string \<Rightarrow> (bool \<times> nat) option" where
  "sto_digits b s = (let s1 = dropWhile is_space s; (neg, ds, r) = scan_number b s1 in
     if ds \<noteq> [] then Some (neg, digits_value b ds)
     else if b = 16 \<and> snd (scan_sign s1) \<noteq> [] \<and> hd (snd (scan_sign s1)) = CHR ''0'' then Some (neg, 0) else None)"

definition stoull :: "nat \<Rightarrow> string \<Rightarrow> std_exception + u64" where
  "stoull b s = (case sto_digits b s of None \<Rightarrow> Inl Invalid_argument
     | Some (neg, v) \<Rightarrow> if 2 ^ 64 \<le> v then Inl Out_of_range else Inr (if neg then - of_nat v else of_nat v))"

definition sto_signed :: "nat \<Rightarrow> string \<Rightarrow> std_exception + int" where
  "sto_signed w s = (case sto_digits 10 s of None \<Rightarrow> Inl Invalid_argument
     | Some (neg, v) \<Rightarrow> let i = (if neg then - int v else int v)
         in if i < - (2 ^ (w - 1)) \<or> 2 ^ (w - 1) \<le> i then Inl Out_of_range else Inr i)"

text \<open>Decimal notation of a \<open>double\<close>: digits with an optional point and exponent.\<close>

definition scan_exponent :: "string \<Rightarrow> int \<times> string" where
  "scan_exponent s = (case s of [] \<Rightarrow> (0, s)
     | c # cs \<Rightarrow> if c = CHR ''e'' \<or> c = CHR ''E'' then
         (let (neg, ds, r) = scan_number 10 cs in if ds = [] then (0, s) else ((if neg then - 1 else 1) * int (digits_value 10 ds), r))
       else (0, s))"

definition scan_double :: "string \<Rightarrow> (rat \<times> string) option" where
  "scan_double s = (let (neg, ip, r) = scan_number 10 (dropWhile is_space s);
     (fp, r1) = (case r of [] \<Rightarrow> ([], r) | c # cs \<Rightarrow> if c = CHR ''.'' then (takeWhile (is_digit 10) cs, dropWhile (is_digit 10) cs) else ([], r));
     m = of_nat (digits_value 10 (ip @ fp)) / 10 ^ length fp; (e, r2) = scan_exponent r1
     in if ip = [] \<and> fp = [] then None else Some ((if neg then - 1 else 1) * m * (if 0 \<le> e then 10 ^ nat e else 1 / 10 ^ nat (- e)), r2))"

definition stod :: "string \<Rightarrow> std_exception + rat" where
  "stod s = (case scan_double s of None \<Rightarrow> Inl Invalid_argument | Some (x, r) \<Rightarrow> Inr x)"

text \<open>\<open>static_cast<long long>\<close> of a double.\<close>

definition trunc :: "rat \<Rightarrow> int" where
  "trunc x = (if 0 \<le> x then \<lfloor>x\<rfloor> else \<lceil>x\<rceil>)"

section \<open>Streams\<close>

record istream =
  unread :: string
  failbit :: bool

definition istringstream :: "string \<Rightarrow> istream" where
  "istringstream s = \<lparr>unread = s, failbit = False\<rparr>"

definition fails :: "istream \<Rightarrow> istream" where
  "fails s = s\<lparr>failbit := True\<rparr>"

text \<open>What an extraction sees after the white space, None when it fails at once.\<close>

definition sentry :: "istream \<Rightarrow> string option" where
  "sentry s = (if failbit s then None else case dropWhile is_space (unread s) of [] \<Rightarrow> None | c # cs \<Rightarrow> Some (c # cs))"

definition read_string :: "istream \<Rightarrow> string \<Rightarrow> string \<times> istream" where
  "read_string s x = (case sentry s of None \<Rightarrow> (x, fails s)
     | Some cs \<Rightarrow> (takeWhile (\<lambda>c. \<not> is_space c) cs, istringstream (dropWhile (\<lambda>c. \<not> is_space c) cs)))"

definition read_char :: "istream \<Rightarrow> char \<Rightarrow> char \<times> istream" where
  "read_char s x = (case sentry s of None \<Rightarrow> (x, fails s) | Some cs \<Rightarrow> (hd cs, istringstream (tl cs)))"

definition read_word :: "nat \<Rightarrow> istream \<Rightarrow> 'a::len word \<Rightarrow> 'a word \<times> istream" where
  "read_word b s x = (case sentry s of None \<Rightarrow> (x, fails s)
     | Some cs \<Rightarrow> let (neg, ds, r) = scan_number b cs; v = digits_value b ds in
         if ds = [] then (0, fails (istringstream r)) else if 2 ^ LENGTH('a) \<le> v then (- 1, fails (istringstream r))
         else (if neg then - of_nat v else of_nat v, istringstream r))"

text \<open>A signed number of \<open>w\<close> bits.\<close>

definition read_signed :: "nat \<Rightarrow> istream \<Rightarrow> int \<Rightarrow> int \<times> istream" where
  "read_signed w s x = (case sentry s of None \<Rightarrow> (x, fails s)
     | Some cs \<Rightarrow> let (neg, ds, r) = scan_number 10 cs; i = (if neg then - int (digits_value 10 ds) else int (digits_value 10 ds)) in
         if ds = [] then (0, fails (istringstream r)) else if i < - (2 ^ (w - 1)) then (- (2 ^ (w - 1)), fails (istringstream r))
         else if 2 ^ (w - 1) \<le> i then (2 ^ (w - 1) - 1, fails (istringstream r)) else (i, istringstream r))"

text \<open>\<open>ss >> x1 >> x2 >> ...\<close> for variables of one type.\<close>

fun read_words :: "istream \<Rightarrow> 'a::len word list \<Rightarrow> 'a word list \<times> istream" where
  "read_words s [] = ([], s)"
| "read_words s (x # xs) = (let (y, s1) = read_word 10 s x; (ys, s2) = read_words s1 xs in (y # ys, s2))"

fun read_signeds :: "nat \<Rightarrow> istream \<Rightarrow> int list \<Rightarrow> int list \<times> istream" where
  "read_signeds w s [] = ([], s)"
| "read_signeds w s (x # xs) = (let (y, s1) = read_signed w s x; (ys, s2) = read_signeds w s1 xs in (y # ys, s2))"

fun read_strings :: "istream \<Rightarrow> string list \<Rightarrow> string list \<times> istream" where
  "read_strings s [] = ([], s)"
| "read_strings s (x # xs) = (let (y, s1) = read_string s x; (ys, s2) = read_strings s1 xs in (y # ys, s2))"

text \<open>\<open>getline(ss, tok, delim)\<close>: None when nothing is left.\<close>

definition get_token :: "char \<Rightarrow> istream \<Rightarrow> string option \<times> istream" where
  "get_token d s = (if failbit s \<or> unread s = [] then (None, fails s)
     else (Some (takeWhile (\<lambda>c. c \<noteq> d) (unread s)), istringstream (drop 1 (dropWhile (\<lambda>c. c \<noteq> d) (unread s)))))"

section \<open>Printing\<close>

definition digit_char :: "nat \<Rightarrow> char" where
  "digit_char d = char_of (if d < 10 then 48 + d else 87 + d)"

fun show_base :: "nat \<Rightarrow> nat \<Rightarrow> string" where
  "show_base b n = (if n < b \<or> b < 2 then [digit_char n] else show_base b (n div b) @ [digit_char (n mod b)])"

declare show_base.simps [simp del]

abbreviation show_nat :: "nat \<Rightarrow> string" where
  "show_nat \<equiv> show_base 10"

definition show_int :: "int \<Rightarrow> string" where
  "show_int i = (if i < 0 then CHR ''-'' # show_nat (nat (- i)) else show_nat (nat i))"

text \<open>\<open>fixed << setprecision(d)\<close>: rounded to the nearest, ties to even.\<close>

definition round_half_even :: "rat \<Rightarrow> int" where
  "round_half_even x = (let f = \<lfloor>x\<rfloor>; r = x - of_int f in if r < 1 / 2 \<or> r = 1 / 2 \<and> even f then f else f + 1)"

definition show_fixed :: "nat \<Rightarrow> rat \<Rightarrow> string" where
  "show_fixed d x = (let n = nat (round_half_even (\<bar>x\<bar> * 10 ^ d)); fp = show_nat (n mod 10 ^ d) in
     (if x < 0 then ''-'' else []) @ show_nat (n div 10 ^ d) @ (if d = 0 then [] else CHR ''.'' # replicate (d - length fp) (CHR ''0'') @ fp))"


section \<open>Printed numbers are read back\<close>

lemma digit_value_char: "d < 16 \<Longrightarrow> digit_value (digit_char d) = Some d"
  by (simp add: digit_value_def digit_char_def Let_def)

lemma show_base_digits: "2 \<le> b \<Longrightarrow> b \<le> 16 \<Longrightarrow> list_all (is_digit b) (show_base b n)"
proof (induction b n rule: show_base.induct)
  case (1 b n)
  have "n mod b < b" "n mod b < 16" using 1(2,3) mod_less_divisor [of b n] by linarith+
  moreover from this have "is_digit b (digit_char (n mod b))" "n < b \<Longrightarrow> is_digit b (digit_char n)"
    using 1(3) by (simp_all add: is_digit_def digit_value_char)
  ultimately show ?case using 1 by (subst show_base.simps) simp
qed

lemma show_base_not_Nil [simp]: "show_base b n \<noteq> []"
  by (subst show_base.simps) simp

lemma digits_value_append: "digits_value b (ds @ [c]) = digits_value b ds * b + (case digit_value c of None \<Rightarrow> 0 | Some d \<Rightarrow> d)"
  by (simp add: digits_value_def)

lemma digits_value_show: "2 \<le> b \<Longrightarrow> b \<le> 16 \<Longrightarrow> digits_value b (show_base b n) = n"
proof (induction b n rule: show_base.induct)
  case (1 b n)
  show ?case
  proof (cases "n < b")
    case True
    with 1 show ?thesis by (subst show_base.simps) (simp add: digits_value_def digit_value_char)
  next
    case False
    have "n mod b < 16" using 1(2,3) mod_less_divisor [of b n] by linarith
    with False 1 show ?thesis by (subst show_base.simps) (simp add: digits_value_append digit_value_char)
  qed
qed

lemma is_digit_not_space: "is_digit b c \<Longrightarrow> \<not> is_space c \<and> c \<noteq> CHR ''-'' \<and> c \<noteq> CHR ''+''"
  by (auto simp: is_digit_def digit_value_def is_space_def Let_def split: if_splits)

lemma scan_sign_digit: "s \<noteq> [] \<Longrightarrow> is_digit b (hd s) \<Longrightarrow> scan_sign s = (False, s)"
  using is_digit_not_space by (cases s) (auto simp: scan_sign_def)

lemma takeWhile_show: "2 \<le> b \<Longrightarrow> b \<le> 16 \<Longrightarrow> r = [] \<or> \<not> is_digit b (hd r) \<Longrightarrow>
    takeWhile (is_digit b) (show_base b n @ r) = show_base b n \<and> dropWhile (is_digit b) (show_base b n @ r) = r"
  using show_base_digits [of b n] by (cases r) (auto simp: list_all_iff takeWhile_append dropWhile_append)

lemma scan_number_show: "r = [] \<or> \<not> is_digit 10 (hd r) \<Longrightarrow> scan_number 10 (show_nat n @ r) = (False, show_nat n, r)"
  using takeWhile_show [of 10 r n] show_base_digits [of 10 n] scan_sign_digit [of "show_nat n @ r" 10]
  by (cases "show_nat n") (auto simp: scan_number_def skip_0x_def)

lemma dropWhile_blanks: "list_all is_space ws \<Longrightarrow> dropWhile is_space (ws @ r) = dropWhile is_space r"
  by (induction ws) auto

lemma dropWhile_show: "dropWhile is_space (show_nat n @ r) = show_nat n @ r"
  using show_base_digits [of 10 n] is_digit_not_space by (cases "show_nat n") auto

lemma sentry_show: "list_all is_space ws \<Longrightarrow> sentry (istringstream (ws @ show_nat n @ r)) = Some (show_nat n @ r)"
  by (simp add: sentry_def istringstream_def dropWhile_blanks dropWhile_show split: list.split)

lemma read_word_show:
  assumes "list_all is_space ws" "r = [] \<or> \<not> is_digit 10 (hd r)" "n < 2 ^ LENGTH('a)"
  shows "read_word 10 (istringstream (ws @ show_nat n @ r)) x = (of_nat n :: 'a::len word, istringstream r)"
  using assms by (simp add: read_word_def sentry_show scan_number_show digits_value_show)

lemma read_signed_show:
  assumes "list_all is_space ws" "r = [] \<or> \<not> is_digit 10 (hd r)" "n < 2 ^ (w - 1)"
  shows "read_signed w (istringstream (ws @ show_nat n @ r)) x = (int n, istringstream r)"
proof -
  have "int n < int (2 ^ (w - 1))" using assms(3) by (simp only: of_nat_less_iff)
  then have "int n < 2 ^ (w - 1)" by simp
  moreover from this have "\<not> int n < - (2 ^ (w - 1))" by linarith
  ultimately show ?thesis using assms(1,2) by (simp add: read_signed_def sentry_show scan_number_show digits_value_show)
qed

lemma file_lines_from_append:
  "newline \<notin> set l \<Longrightarrow> file_lines_from cur (l @ newline # r) = (rev cur @ l) # file_lines_from [] r"
  by (induction l arbitrary: cur) auto

lemma file_lines_Cons: "newline \<notin> set l \<Longrightarrow> file_lines (l @ newline # r) = l # file_lines r"
  by (simp add: file_lines_def file_lines_from_append)

lemma file_lines_concat: "(\<And>l. l \<in> set ls \<Longrightarrow> newline \<notin> set l) \<Longrightarrow> file_lines (concat (map (\<lambda>l. l @ [newline]) ls)) = ls"
  by (induction ls) (simp add: file_lines_def, simp add: file_lines_Cons)


lemma newline_not_digit: "newline \<notin> set (show_nat n)"
proof -
  have "is_space newline" by (simp add: is_space_def)
  then show ?thesis
    using show_base_digits [of 10 n] is_digit_not_space [of 10 newline] unfolding list_all_iff by fastforce
qed

end
