(* ===== verification/System_Data.thy ===== *)
theory System_Data
  imports Text_Stream
begin

text \<open>
  The data of system/system_info.h, what the program sees of the operating system, and the helpers that format and read.
  \<open>os_view\<close> is a parameter: the contents of files and directories, what the system calls return and what the wrapper for
  commands reports, at the time of a fetch. Percentages are rational numbers.
\<close>

section \<open>The operating system\<close>

record utsname =
  nodename :: string
  uts_release :: string
  uts_version :: string
  uts_machine :: string

record statvfs =
  f_frsize :: u64
  f_blocks :: u64
  f_bfree :: u64
  f_bavail :: u64
  f_files :: u64
  f_ffree :: u64
  f_favail :: u64

datatype if_address = AF_INET string | AF_INET6 string | Other_family

text \<open>An entry of \<open>getifaddrs\<close>, with the text that \<open>inet_ntop\<close> makes of its address.\<close>

record ifaddr =
  ifa_name :: string
  ifa_up :: bool
  ifa_loopback :: bool
  ifa_addr :: "if_address option"

record os_view =
  file_text :: "string \<Rightarrow> string option"
  directory :: "string \<Rightarrow> string list option"
  link_target :: "string \<Rightarrow> string option"
  owner_of :: "string \<Rightarrow> nat option"
  user_name :: "nat \<Rightarrow> string option"
  is_executable :: "string \<Rightarrow> bool"
  uname' :: "utsname option"
  statvfs' :: "string \<Rightarrow> statvfs option"
  getifaddrs :: "ifaddr list option"
  nprocs :: int
  page_size' :: int
  clk_tck :: int
  path_env :: "string option"
  environ :: "string list"
  user_processes :: "bool list"
  run_command :: "string list \<Rightarrow> bool \<times> string"
  system_now :: int

section \<open>Processor ticks\<close>

record CpuCoreStats =
  core_id :: int
  user :: u64
  nice :: u64
  system_ticks :: u64
  idle_ticks :: u64
  iowait :: u64
  irq :: u64
  softirq :: u64
  steal :: u64
  guest :: u64
  guest_nice :: u64

definition CpuCoreStats_default :: CpuCoreStats where
  "CpuCoreStats_default = \<lparr>core_id = - 1, user = 0, nice = 0, system_ticks = 0, idle_ticks = 0, iowait = 0, irq = 0, softirq = 0,
     steal = 0, guest = 0, guest_nice = 0\<rparr>"

definition Total :: "CpuCoreStats \<Rightarrow> u64" where
  "Total c = user c + nice c + system_ticks c + idle_ticks c + iowait c + irq c + softirq c + steal c + guest c + guest_nice c"

definition Busy :: "CpuCoreStats \<Rightarrow> u64" where
  "Busy c = user c + nice c + system_ticks c + irq c + softirq c + steal c"

definition UsagePercent :: "CpuCoreStats \<Rightarrow> CpuCoreStats \<Rightarrow> rat" where
  "UsagePercent this prev =
    (if Total this < Total prev then 0
     else let delta_total = Total this - Total prev in if delta_total = 0 then 0
     else let prev_busy = Busy prev; cur_busy = Busy this in if cur_busy < prev_busy then 0
     else 100 * of_nat (unat (cur_busy - prev_busy)) / of_nat (unat delta_total))"

record CpuInfo =
  model_name :: string
  vendor_id :: string
  physical_cores :: int
  logical_cores :: int
  sockets :: int
  base_freq_mhz :: rat
  max_freq_mhz :: rat
  current_freq_mhz :: rat
  cache_l1d :: string
  cache_l1i :: string
  cache_l2 :: string
  cache_l3 :: string
  flags :: "string list"
  hyper_threading :: bool
  core_stats :: "CpuCoreStats list"
  usage_percent :: rat
  per_core_usage_percent :: "rat list"

definition CpuInfo_default :: CpuInfo where
  "CpuInfo_default = \<lparr>model_name = [], vendor_id = [], physical_cores = 0, logical_cores = 0, sockets = 0, base_freq_mhz = 0,
     max_freq_mhz = 0, current_freq_mhz = 0, cache_l1d = [], cache_l1i = [], cache_l2 = [], cache_l3 = [], flags = [],
     hyper_threading = False, core_stats = [], usage_percent = 0, per_core_usage_percent = []\<rparr>"

section \<open>Memory and disks\<close>

record MemoryInfo =
  mem_total :: u64
  mem_free :: u64
  available :: u64
  buffers :: u64
  cached :: u64
  swap_cached :: u64
  active_mem :: u64
  inactive :: u64
  swap_total :: u64
  swap_free :: u64
  shmem :: u64
  slab :: u64
  page_tables :: u64
  vmalloc_total :: u64
  vmalloc_used :: u64
  huge_pages_total :: u64
  huge_pages_free :: u64
  huge_page_size :: u64

definition MemoryInfo_default :: MemoryInfo where
  "MemoryInfo_default = \<lparr>mem_total = 0, mem_free = 0, available = 0, buffers = 0, cached = 0, swap_cached = 0, active_mem = 0, inactive = 0,
     swap_total = 0, swap_free = 0, shmem = 0, slab = 0, page_tables = 0, vmalloc_total = 0, vmalloc_used = 0,
     huge_pages_total = 0, huge_pages_free = 0, huge_page_size = 0\<rparr>"

definition Used :: "MemoryInfo \<Rightarrow> u64" where
  "Used m = (if available m < mem_total m then mem_total m - available m else 0)"

definition SwapUsed :: "MemoryInfo \<Rightarrow> u64" where
  "SwapUsed m = (if swap_free m < swap_total m then swap_total m - swap_free m else 0)"

text \<open>\<open>part\<close> of \<open>whole\<close> in per cent: the body that the four helpers for memory and disks have.\<close>

definition percent_of :: "u64 \<Rightarrow> u64 \<Rightarrow> rat" where
  "percent_of part whole = (if whole = 0 then 0 else 100 * of_nat (unat part) / of_nat (unat whole))"

definition MemoryInfo_UsedPercent :: "MemoryInfo \<Rightarrow> rat" where
  "MemoryInfo_UsedPercent m = percent_of (Used m) (mem_total m)"

definition SwapUsedPercent :: "MemoryInfo \<Rightarrow> rat" where
  "SwapUsedPercent m = percent_of (SwapUsed m) (swap_total m)"

record DiskPartition =
  part_device :: string
  mount_point :: string
  fs_type :: string
  opts :: string
  disk_total :: u64
  disk_used :: u64
  disk_free :: u64
  inodes_total :: u64
  inodes_used :: u64
  inodes_free :: u64

definition DiskPartition_UsedPercent :: "DiskPartition \<Rightarrow> rat" where
  "DiskPartition_UsedPercent p = percent_of (disk_used p) (disk_total p)"

definition InodesUsedPercent :: "DiskPartition \<Rightarrow> rat" where
  "InodesUsedPercent p = percent_of (inodes_used p) (inodes_total p)"

record DiskIoStats =
  io_device :: string
  reads_completed :: u64
  reads_merged :: u64
  sectors_read :: u64
  read_time_ms :: u64
  writes_completed :: u64
  writes_merged :: u64
  sectors_written :: u64
  write_time_ms :: u64
  io_in_progress :: u64
  io_time_ms :: u64
  weighted_io_time_ms :: u64

section \<open>Network, sensors, processes\<close>

record NetworkInterface =
  if_name :: string
  mac_address :: string
  ip4_addresses :: "string list"
  ip6_addresses :: "string list"
  is_up :: bool
  is_loopback :: bool
  speed_mbps :: u64
  mtu :: u64
  rx_bytes :: u64
  rx_packets :: u64
  rx_errors :: u64
  rx_dropped :: u64
  tx_bytes :: u64
  tx_packets :: u64
  tx_errors :: u64
  tx_dropped :: u64

definition NetworkInterface_default :: NetworkInterface where
  "NetworkInterface_default = \<lparr>if_name = [], mac_address = [], ip4_addresses = [], ip6_addresses = [], is_up = False, is_loopback = False,
     speed_mbps = 0, mtu = 0, rx_bytes = 0, rx_packets = 0, rx_errors = 0, rx_dropped = 0, tx_bytes = 0, tx_packets = 0,
     tx_errors = 0, tx_dropped = 0\<rparr>"

record ThermalZone =
  zone_name :: string
  zone_type :: string
  temp_celsius :: rat

text \<open>\<open>cpu_time\<close> in seconds; \<open>start_time\<close> in nanoseconds since the epoch of the system clock.\<close>

record ProcessInfo =
  pid :: int
  ppid :: int
  proc_name :: string
  cmdline :: string
  proc_state :: string
  username :: string
  uid :: nat
  cpu_percent :: rat
  rss_bytes :: u64
  vms_bytes :: u64
  num_threads :: u64
  cpu_time :: int
  start_time :: int

record LoadAverage =
  load_one :: rat
  load_five :: rat
  load_fifteen :: rat
  running_tasks :: int
  total_tasks :: int
  last_pid :: int

definition LoadAverage_default :: LoadAverage where
  "LoadAverage_default = \<lparr>load_one = 0, load_five = 0, load_fifteen = 0, running_tasks = 0, total_tasks = 0, last_pid = 0\<rparr>"

record OsInfo =
  hostname :: string
  kernel_version :: string
  kernel_release :: string
  architecture :: string
  os_name :: string
  os_version :: string
  os_id :: string
  os_id_like :: string
  pretty_name :: string
  machine_id :: string
  uptime' :: int

definition OsInfo_default :: OsInfo where
  "OsInfo_default = \<lparr>hostname = [], kernel_version = [], kernel_release = [], architecture = [], os_name = [], os_version = [], os_id = [],
     os_id_like = [], pretty_name = [], machine_id = [], uptime' = 0\<rparr>"

text \<open>\<open>cuda_version\<close> of a GPU and the ports of a container stay empty.\<close>

record GpuInfo =
  gpu_index :: string
  gpu_name :: string
  driver_version :: string
  memory_total :: u64
  memory_used :: u64
  memory_free :: u64
  gpu_utilization :: rat
  memory_utilization :: rat
  temperature_celsius :: rat
  power_draw_watts :: rat
  power_limit_watts :: rat
  pci_bus_id :: string
  compute_mode :: string

record DockerContainer =
  container_id :: string
  container_name :: string
  image' :: string
  status :: string
  container_state :: string
  created :: string

record ListeningPort =
  port :: int
  proto :: string
  port_state :: string
  port_pid :: int
  process_name :: string

text \<open>Times in nanoseconds. What \<open>include_pseudo_filesystems\<close> and \<open>ignored_fs_types\<close> say is used by the disk query only.\<close>

record Options =
  cache_ttl :: int
  enable_background_refresh :: bool
  refresh_interval :: int
  ignored_fs_types :: "string list"
  include_pseudo_filesystems :: bool
  top_process_limit :: nat

definition Options_default :: Options where
  "Options_default = \<lparr>cache_ttl = 5000000000, enable_background_refresh = False, refresh_interval = 3000000000,
     ignored_fs_types = [''tmpfs'', ''devtmpfs'', ''squashfs'', ''overlay'', ''proc'', ''sysfs'', ''cgroup'', ''cgroup2'', ''devpts'', ''hugetlbfs'',
       ''mqueue'', ''debugfs'', ''tracefs'', ''securityfs'', ''fusectl'', ''pstore''],
     include_pseudo_filesystems = False, top_process_limit = 20\<rparr>"

section \<open>Reading and formatting\<close>

definition ReadFile :: "os_view \<Rightarrow> string \<Rightarrow> string" where
  "ReadFile v path = (case file_text v path of None \<Rightarrow> [] | Some s \<Rightarrow> s)"

definition ReadUint64File :: "os_view \<Rightarrow> string \<Rightarrow> u64 \<Rightarrow> u64" where
  "ReadUint64File v path default_value = (let content = ReadFile v path in
     if content = [] then default_value else case stoull 10 content of Inl _ \<Rightarrow> default_value | Inr x \<Rightarrow> x)"

text \<open>The directories of \<open>PATH\<close>: \<open>getline(ss, dir, ':')\<close>.\<close>

fun path_dirs :: "string \<Rightarrow> string \<Rightarrow> string list" where
  "path_dirs cur [] = (if cur = [] then [] else [rev cur])"
| "path_dirs cur (c # cs) = (if c = CHR '':'' then rev cur # path_dirs [] cs else path_dirs (c # cur) cs)"

definition ExecutableExists :: "os_view \<Rightarrow> string \<Rightarrow> bool" where
  "ExecutableExists v name' =
    (if name' \<noteq> [] \<and> hd name' = CHR ''/'' then is_executable v name'
     else case path_env v of None \<Rightarrow> False
       | Some path \<Rightarrow> list_ex (\<lambda>dir. is_executable v (dir @ ''/'' @ name')) (path_dirs [] path))"

definition RunCommand :: "os_view \<Rightarrow> string list \<Rightarrow> string" where
  "RunCommand v argv = (let (success, out) = run_command v argv in if success then out else [])"

definition FormatBytes :: "u64 \<Rightarrow> string" where
  "FormatBytes bytes = (let b = (of_nat (unat bytes) :: rat) in
     if 1024 ^ 5 \<le> b then show_fixed 2 (b / 1024 ^ 5) @ '' PiB''
     else if 1024 ^ 4 \<le> b then show_fixed 2 (b / 1024 ^ 4) @ '' TiB''
     else if 1024 ^ 3 \<le> b then show_fixed 2 (b / 1024 ^ 3) @ '' GiB''
     else if 1024 ^ 2 \<le> b then show_fixed 2 (b / 1024 ^ 2) @ '' MiB''
     else if 1024 \<le> b then show_fixed 2 (b / 1024) @ '' KiB''
     else show_nat (unat bytes) @ '' B'')"

text \<open>Division and remainder of C++ truncate.\<close>

definition cdiv :: "int \<Rightarrow> int \<Rightarrow> int" where "cdiv a b = sgn a * (\<bar>a\<bar> div b)"

definition cmod :: "int \<Rightarrow> int \<Rightarrow> int" where "cmod a b = a - cdiv a b * b"

definition FormatUptime :: "int \<Rightarrow> string" where
  "FormatUptime uptime =
    (let days = cdiv uptime 86400; s1 = cmod uptime 86400; hours = cdiv s1 3600; s2 = cmod s1 3600; mins = cdiv s2 60; s3 = cmod s2 60
     in (if 0 < days then show_int days @ ''d '' else []) @ (if 0 < hours then show_int hours @ ''h '' else [])
       @ (if 0 < mins then show_int mins @ ''m '' else []) @ show_int s3 @ ''s'')"

definition FormatPercent :: "rat \<Rightarrow> nat \<Rightarrow> string" where
  "FormatPercent pct decimals = show_fixed decimals pct @ ''%''"

end
