(* ===== verification/System_Fetch.thy ===== *)
theory System_Fetch
  imports System_Data "HOL-Library.Char_ord" "HOL-Library.List_Lexorder"
begin

text \<open>
  What system/system_info.cc reads: one definition per \<open>Fetch\<close> and \<open>Parse\<close> method and per query without a cache, on the
  view of the operating system at the time of the call. A file that a method opens twice has one content. \<open>std::set\<close> and
  \<open>std::unordered_map\<close> are lists without duplicates; \<open>std::sort\<close> is a stable sort.
\<close>

text \<open>Text before and after the first \<open>c\<close>: \<open>substr(0, pos)\<close>, \<open>substr(pos + 1)\<close>; None when \<open>c\<close> is not there.\<close>

definition split_at :: "char \<Rightarrow> string \<Rightarrow> (string \<times> string) option" where
  "split_at c s = (case find_char c s of None \<Rightarrow> None | Some i \<Rightarrow> Some (take i s, drop (i + 1) s))"

section \<open>The operating system\<close>

definition strip_quotes :: "string \<Rightarrow> string" where
  "strip_quotes s = (if 2 \<le> length s \<and> hd s = CHR 0x22 \<and> last s = CHR 0x22 then take (length s - 2) (drop 1 s) else s)"

definition os_release_line :: "string \<Rightarrow> OsInfo \<Rightarrow> OsInfo" where
  "os_release_line line info = (case split_at (CHR ''='') line of None \<Rightarrow> info
     | Some (key, v) \<Rightarrow> let val = strip_quotes v in
         if key = ''NAME'' then info\<lparr>os_name := val\<rparr> else if key = ''VERSION'' then info\<lparr>os_version := val\<rparr>
         else if key = ''ID'' then info\<lparr>os_id := val\<rparr> else if key = ''ID_LIKE'' then info\<lparr>os_id_like := val\<rparr>
         else if key = ''PRETTY_NAME'' then info\<lparr>pretty_name := val\<rparr> else info)"

definition SystemInfo_GetUptime :: "os_view \<Rightarrow> int" where
  "SystemInfo_GetUptime v = (let raw = ReadFile v ''/proc/uptime'' in if raw = [] then 0 else case stod raw of Inl _ \<Rightarrow> 0 | Inr secs \<Rightarrow> trunc secs)"

definition FetchOsInfo :: "os_view \<Rightarrow> OsInfo" where
  "FetchOsInfo v = (let
     info = (case uname' v of None \<Rightarrow> OsInfo_default | Some u \<Rightarrow> OsInfo_default\<lparr>hostname := nodename u, kernel_version := uts_version u,
       kernel_release := uts_release u, architecture := uts_machine u\<rparr>);
     os_release = (let s = ReadFile v ''/etc/os-release'' in if s = [] then ReadFile v ''/usr/lib/os-release'' else s);
     info2 = fold os_release_line (file_lines os_release) info
     in info2\<lparr>machine_id := pop_back_if newline (ReadFile v ''/etc/machine-id''), uptime' := SystemInfo_GetUptime v\<rparr>)"

section \<open>Processors\<close>

text \<open>A line of /proc/stat: the outer None ends the loop, the inner one skips the line.\<close>

definition proc_stat_line :: "string \<Rightarrow> CpuCoreStats option option" where
  "proc_stat_line line = (if \<not> starts_with ''cpu'' line then None
     else let (label, ss) = read_string (istringstream line) [];
       core = (if label = ''cpu'' then Inr (- 1) else case substr_from 3 label of Inl e \<Rightarrow> Inl e | Inr s \<Rightarrow> sto_signed 32 s)
     in Some (case core of Inl _ \<Rightarrow> None
       | Inr k \<Rightarrow> (case read_words ss (replicate 10 0) of
           ([us, ni, sy, id', io, ir, so, st, gu, gn], _) \<Rightarrow> Some \<lparr>core_id = k, user = us, nice = ni, system_ticks = sy, idle_ticks = id',
             iowait = io, irq = ir, softirq = so, steal = st, guest = gu, guest_nice = gn\<rparr>
         | _ \<Rightarrow> None)))"

fun proc_stat_lines :: "string list \<Rightarrow> CpuCoreStats list" where
  "proc_stat_lines [] = []"
| "proc_stat_lines (l # ls) = (case proc_stat_line l of None \<Rightarrow> [] | Some None \<Rightarrow> proc_stat_lines ls | Some (Some c) \<Rightarrow> c # proc_stat_lines ls)"

definition ParseProcStat :: "os_view \<Rightarrow> CpuCoreStats list" where
  "ParseProcStat v = (case file_text v ''/proc/stat'' of None \<Rightarrow> [] | Some s \<Rightarrow> proc_stat_lines (file_lines s))"

text \<open>The key and the value of a line of /proc/cpuinfo.\<close>

definition cpuinfo_entry :: "string \<Rightarrow> (string \<times> string) option" where
  "cpuinfo_entry line = (case find_char (CHR '':'') line of None \<Rightarrow> None
     | Some colon \<Rightarrow> Some (rev (dropWhile is_space (rev (take colon line))), if colon + 2 < length line then drop (colon + 2) line else []))"

fun all_words :: "nat \<Rightarrow> istream \<Rightarrow> string list" where
  "all_words 0 ss = []"
| "all_words (Suc n) ss = (let (w, ss1) = read_string ss [] in if failbit ss1 then [] else w # all_words n ss1)"

text \<open>The first pass: the state is the information, whether the first CPU is still to come, and the physical ids seen.\<close>

definition cpuinfo_line :: "string \<Rightarrow> CpuInfo \<times> bool \<times> string list \<Rightarrow> CpuInfo \<times> bool \<times> string list" where
  "cpuinfo_line line = (\<lambda>(info, first_cpu, phys_ids). case cpuinfo_entry line of None \<Rightarrow> (info, first_cpu, phys_ids)
     | Some (key, val) \<Rightarrow>
         if key = ''model name'' \<and> first_cpu then (info\<lparr>model_name := val\<rparr>, False, phys_ids)
         else if key = ''vendor_id'' \<and> vendor_id info = [] then (info\<lparr>vendor_id := val\<rparr>, first_cpu, phys_ids)
         else if key = ''cpu MHz'' \<and> current_freq_mhz info = 0
           then ((case stod val of Inl _ \<Rightarrow> info | Inr x \<Rightarrow> info\<lparr>current_freq_mhz := x\<rparr>), first_cpu, phys_ids)
         else if key = ''physical id'' then (info, first_cpu, List.insert val phys_ids)
         else if key = ''flags'' \<and> flags info = [] then (info\<lparr>flags := all_words (length val) (istringstream val)\<rparr>, first_cpu, phys_ids)
         else if key = ''cache size'' \<and> cache_l3 info = [] then (info\<lparr>cache_l3 := val\<rparr>, first_cpu, phys_ids)
         else (info, first_cpu, phys_ids))"

text \<open>The second pass counts pairs of physical id and core id.\<close>

definition core_pair_line :: "string \<Rightarrow> string \<times> (string \<times> string) list \<Rightarrow> string \<times> (string \<times> string) list" where
  "core_pair_line line = (\<lambda>(cur_phys, pairs). case cpuinfo_entry line of None \<Rightarrow> (cur_phys, pairs)
     | Some (key, val) \<Rightarrow> if key = ''physical id'' then (val, pairs) else if key = ''core id'' then (cur_phys, List.insert (cur_phys, val) pairs)
         else (cur_phys, pairs))"

definition parse_cpuinfo :: "os_view \<Rightarrow> CpuInfo \<Rightarrow> CpuInfo" where
  "parse_cpuinfo v info0 = (case file_text v ''/proc/cpuinfo'' of None \<Rightarrow> info0
     | Some s \<Rightarrow> let (info, _, phys_ids) = fold cpuinfo_line (file_lines s) (info0, True, []);
         (_, pairs) = fold core_pair_line (file_lines s) ([], [])
       in info\<lparr>sockets := (if phys_ids = [] then 1 else int (length phys_ids)), physical_cores := int (length pairs)\<rparr>)"

definition count_cores :: "os_view \<Rightarrow> CpuInfo \<Rightarrow> CpuInfo" where
  "count_cores v info = (let logical = nprocs v; physical = (if physical_cores info = 0 then logical else physical_cores info)
     in info\<lparr>logical_cores := logical, physical_cores := physical, sockets := (if sockets info = 0 then 1 else sockets info),
       hyper_threading := physical < logical \<and> 0 < physical\<rparr>)"

definition khz_file :: "os_view \<Rightarrow> string \<Rightarrow> rat" where
  "khz_file v f = of_nat (unat (ReadUint64File v (''/sys/devices/system/cpu/cpu0/cpufreq/'' @ f) 0)) / 1000"

definition read_cache :: "os_view \<Rightarrow> nat \<Rightarrow> nat \<Rightarrow> string" where
  "read_cache v cpu idx = pop_back_if newline
     (ReadFile v (''/sys/devices/system/cpu/cpu'' @ show_nat cpu @ ''/cache/index'' @ show_nat idx @ ''/size''))"

text \<open>Usage since the previous snapshot: of the aggregate and of the cores both snapshots have.\<close>

definition set_usage :: "CpuCoreStats list \<Rightarrow> CpuCoreStats list \<Rightarrow> CpuInfo \<Rightarrow> CpuInfo" where
  "set_usage after before info = (case (after, before) of (a # as, b # bs) \<Rightarrow>
       info\<lparr>usage_percent := UsagePercent a b, per_core_usage_percent := map (\<lambda>(x, y). UsagePercent x y) (zip as bs)\<rparr>
     | _ \<Rightarrow> info)"

text \<open>The information, and the snapshot that becomes the new baseline.\<close>

definition FetchCpuInfo :: "os_view \<Rightarrow> CpuCoreStats list \<Rightarrow> CpuInfo \<times> CpuCoreStats list" where
  "FetchCpuInfo v prev_cpu_stats = (let
     info1 = count_cores v (parse_cpuinfo v CpuInfo_default);
     base_freq = khz_file v ''base_frequency'';
     info2 = info1\<lparr>max_freq_mhz := khz_file v ''cpuinfo_max_freq'', base_freq_mhz := (if base_freq = 0 then khz_file v ''cpuinfo_min_freq'' else base_freq)\<rparr>;
     info3 = info2\<lparr>cache_l1d := read_cache v 0 0, cache_l1i := read_cache v 0 1, cache_l2 := read_cache v 0 2,
       cache_l3 := (if cache_l3 info2 = [] \<or> cache_l3 info2 = ''0 KB'' then read_cache v 0 3 else cache_l3 info2)\<rparr>;
     snap = ParseProcStat v
     in ((set_usage snap prev_cpu_stats info3)\<lparr>core_stats := snap\<rparr>, snap))"

section \<open>Memory and disks\<close>

definition parse_kb :: "string \<Rightarrow> u64" where
  "parse_kb s = fst (read_word 10 (istringstream s) 0) * 1024"

text \<open>Key and value of a line of /proc/meminfo, leading blanks of the value removed.\<close>

definition meminfo_entry :: "string \<Rightarrow> (string \<times> string) option" where
  "meminfo_entry line = (case split_at (CHR '':'') line of None \<Rightarrow> None
     | Some (key, val) \<Rightarrow> let t = dropWhile (\<lambda>c. c = blank \<or> c = tab) val in Some (key, if t = [] then val else t))"

definition meminfo_line :: "string \<Rightarrow> MemoryInfo \<Rightarrow> MemoryInfo" where
  "meminfo_line line m = (case meminfo_entry line of None \<Rightarrow> m
     | Some (key, val) \<Rightarrow>
         if key = ''MemTotal'' then m\<lparr>mem_total := parse_kb val\<rparr>
         else if key = ''MemFree'' then m\<lparr>mem_free := parse_kb val\<rparr>
         else if key = ''MemAvailable'' then m\<lparr>available := parse_kb val\<rparr>
         else if key = ''Buffers'' then m\<lparr>buffers := parse_kb val\<rparr>
         else if key = ''Cached'' then m\<lparr>cached := parse_kb val\<rparr>
         else if key = ''SwapCached'' then m\<lparr>swap_cached := parse_kb val\<rparr>
         else if key = ''Active'' then m\<lparr>active_mem := parse_kb val\<rparr>
         else if key = ''Inactive'' then m\<lparr>inactive := parse_kb val\<rparr>
         else if key = ''SwapTotal'' then m\<lparr>swap_total := parse_kb val\<rparr>
         else if key = ''SwapFree'' then m\<lparr>swap_free := parse_kb val\<rparr>
         else if key = ''Shmem'' then m\<lparr>shmem := parse_kb val\<rparr>
         else if key = ''Slab'' then m\<lparr>slab := parse_kb val\<rparr>
         else if key = ''PageTables'' then m\<lparr>page_tables := parse_kb val\<rparr>
         else if key = ''VmallocTotal'' then m\<lparr>vmalloc_total := parse_kb val\<rparr>
         else if key = ''VmallocUsed'' then m\<lparr>vmalloc_used := parse_kb val\<rparr>
         else if key = ''Hugepagesize'' then m\<lparr>huge_page_size := parse_kb val\<rparr>
         else if key = ''HugePages_Total'' then m\<lparr>huge_pages_total := fst (read_word 10 (istringstream val) (huge_pages_total m))\<rparr>
         else if key = ''HugePages_Free'' then m\<lparr>huge_pages_free := fst (read_word 10 (istringstream val) (huge_pages_free m))\<rparr>
         else m)"

definition FetchMemoryInfo :: "os_view \<Rightarrow> MemoryInfo" where
  "FetchMemoryInfo v = (case file_text v ''/proc/meminfo'' of None \<Rightarrow> MemoryInfo_default
     | Some s \<Rightarrow> fold meminfo_line (file_lines s) MemoryInfo_default)"

text \<open>A line of /proc/mounts; the state is the partitions and the mount points seen.\<close>

definition partition_of :: "string \<Rightarrow> string \<Rightarrow> string \<Rightarrow> string \<Rightarrow> statvfs \<Rightarrow> DiskPartition" where
  "partition_of dev mp fs op sv = \<lparr>part_device = dev, mount_point = mp, fs_type = fs, opts = op,
     disk_total = f_blocks sv * f_frsize sv, disk_used = (f_blocks sv - f_bfree sv) * f_frsize sv, disk_free = f_bavail sv * f_frsize sv,
     inodes_total = f_files sv, inodes_used = (if f_ffree sv < f_files sv then f_files sv - f_ffree sv else 0), inodes_free = f_favail sv\<rparr>"

definition mounts_line :: "os_view \<Rightarrow> Options \<Rightarrow> string \<Rightarrow> DiskPartition list \<times> string list \<Rightarrow> DiskPartition list \<times> string list" where
  "mounts_line v o' line = (\<lambda>(partitions, seen). case read_strings (istringstream line) (replicate 4 []) of
       ([dev, mp, fs, op], _) \<Rightarrow>
         if mp = [] then (partitions, seen)
         else if \<not> include_pseudo_filesystems o' \<and> fs \<in> set (ignored_fs_types o') then (partitions, seen)
         else if mp \<in> set seen then (partitions, seen)
         else (case statvfs' v mp of None \<Rightarrow> (partitions, mp # seen) | Some sv \<Rightarrow> (partitions @ [partition_of dev mp fs op sv], mp # seen))
     | _ \<Rightarrow> (partitions, seen))"

definition FetchDiskInfo :: "os_view \<Rightarrow> Options \<Rightarrow> DiskPartition list" where
  "FetchDiskInfo v o' = (case file_text v ''/proc/mounts'' of None \<Rightarrow> []
     | Some s \<Rightarrow> fst (fold (mounts_line v o') (file_lines s) ([], [])))"

definition diskstats_line :: "string \<Rightarrow> DiskIoStats option" where
  "diskstats_line line = (let (_, ss) = read_signeds 32 (istringstream line) [0, 0]; (dev, ss1) = read_string ss [] in
     case read_words ss1 (replicate 11 0) of
       ([rc, rm, sr, rt, wc, wm, sw, wt, ip, it, wi], _) \<Rightarrow> if dev = [] then None
         else Some \<lparr>io_device = dev, reads_completed = rc, reads_merged = rm, sectors_read = sr, read_time_ms = rt, writes_completed = wc,
           writes_merged = wm, sectors_written = sw, write_time_ms = wt, io_in_progress = ip, io_time_ms = it, weighted_io_time_ms = wi\<rparr>
     | _ \<Rightarrow> None)"

definition FetchDiskIoStats :: "os_view \<Rightarrow> DiskIoStats list" where
  "FetchDiskIoStats v = (case file_text v ''/proc/diskstats'' of None \<Rightarrow> [] | Some s \<Rightarrow> List.map_filter diskstats_line (file_lines s))"

section \<open>Network\<close>

text \<open>The interface of that name, appended when it is new: the list and the index.\<close>

definition index_of :: "string \<Rightarrow> NetworkInterface list \<Rightarrow> nat option" where
  "index_of n ifaces = (let hits = filter (\<lambda>i. if_name (ifaces ! i) = n) [0 ..< length ifaces] in if hits = [] then None else Some (last hits))"

definition find_or_add :: "string \<Rightarrow> NetworkInterface list \<Rightarrow> NetworkInterface list \<times> nat" where
  "find_or_add n ifaces = (case index_of n ifaces of Some i \<Rightarrow> (ifaces, i)
     | None \<Rightarrow> (ifaces @ [NetworkInterface_default\<lparr>if_name := n\<rparr>], length ifaces))"

definition set_counters :: "istream \<Rightarrow> NetworkInterface \<Rightarrow> NetworkInterface" where
  "set_counters ss ni = (case read_words ss [rx_bytes ni, rx_packets ni, rx_errors ni, rx_dropped ni] of
       ([rb, rp, re, rd], ss1) \<Rightarrow>
         let (_, ss2) = read_words ss1 (replicate 4 (0 :: u64)) in
         (case read_words ss2 [tx_bytes ni, tx_packets ni, tx_errors ni, tx_dropped ni] of
            ([tb, tp, te, td], _) \<Rightarrow> ni\<lparr>rx_bytes := rb, rx_packets := rp, rx_errors := re, rx_dropped := rd,
               tx_bytes := tb, tx_packets := tp, tx_errors := te, tx_dropped := td\<rparr>
          | _ \<Rightarrow> ni)
     | _ \<Rightarrow> ni)"

definition net_dev_line :: "string \<Rightarrow> NetworkInterface list \<Rightarrow> NetworkInterface list" where
  "net_dev_line line ifaces = (case split_at (CHR '':'') line of None \<Rightarrow> ifaces
     | Some (name', r) \<Rightarrow> let t = dropWhile (\<lambda>c. c = blank) name'; n = (if t = [] then name' else t);
         (ifaces1, i) = find_or_add n ifaces in ifaces1[i := set_counters (istringstream r) (ifaces1 ! i)])"

definition ParseProcNetDev :: "os_view \<Rightarrow> NetworkInterface list \<Rightarrow> NetworkInterface list" where
  "ParseProcNetDev v ifaces = (case file_text v ''/proc/net/dev'' of None \<Rightarrow> ifaces
     | Some s \<Rightarrow> fold net_dev_line (drop 2 (file_lines s)) ifaces)"

definition add_address :: "string \<Rightarrow> string list \<Rightarrow> string list" where
  "add_address a as = (if a \<in> set as then as else as @ [a])"

definition if_addr_entry :: "ifaddr \<Rightarrow> NetworkInterface list \<Rightarrow> NetworkInterface list" where
  "if_addr_entry ifa ifaces = (case ifa_addr ifa of None \<Rightarrow> ifaces
     | Some a \<Rightarrow> let (ifaces1, i) = find_or_add (ifa_name ifa) ifaces;
         ni = (ifaces1 ! i)\<lparr>is_up := ifa_up ifa, is_loopback := ifa_loopback ifa\<rparr>
       in ifaces1[i := (case a of AF_INET s \<Rightarrow> ni\<lparr>ip4_addresses := add_address s (ip4_addresses ni)\<rparr>
            | AF_INET6 s \<Rightarrow> ni\<lparr>ip6_addresses := add_address s (ip6_addresses ni)\<rparr> | Other_family \<Rightarrow> ni)])"

definition PopulateIfAddrs :: "os_view \<Rightarrow> NetworkInterface list \<Rightarrow> NetworkInterface list" where
  "PopulateIfAddrs v ifaces = (case getifaddrs v of None \<Rightarrow> ifaces | Some as \<Rightarrow> fold if_addr_entry as ifaces)"

definition FetchNetworkInfo :: "os_view \<Rightarrow> NetworkInterface list" where
  "FetchNetworkInfo v = map (\<lambda>ni. let base = ''/sys/class/net/'' @ if_name ni in
       ni\<lparr>mac_address := pop_back_if newline (ReadFile v (base @ ''/address'')), speed_mbps := ReadUint64File v (base @ ''/speed'') 0,
         mtu := ReadUint64File v (base @ ''/mtu'') 0\<rparr>)
     (PopulateIfAddrs v (ParseProcNetDev v []))"

section \<open>Load and sensors\<close>

text \<open>\<open>sscanf(raw, "%lf %lf %lf %31s %d", ...)\<close>: an item that does not match ends the scan. \<open>%d\<close> is taken to fit into an int.\<close>

definition scan_d :: "string \<Rightarrow> (int \<times> string) option" where
  "scan_d s = (let (neg, ds, r) = scan_number 10 (dropWhile is_space s) in
     if ds = [] then None else Some (if neg then - int (digits_value 10 ds) else int (digits_value 10 ds), r))"

definition scan_running_total :: "string \<Rightarrow> LoadAverage \<Rightarrow> LoadAverage" where
  "scan_running_total s la = (case scan_d s of None \<Rightarrow> la
     | Some (x, r) \<Rightarrow> let la1 = la\<lparr>running_tasks := x\<rparr> in
         (case r of c # cs \<Rightarrow> if c = CHR ''/'' then (case scan_d cs of None \<Rightarrow> la1 | Some (y, _) \<Rightarrow> la1\<lparr>total_tasks := y\<rparr>) else la1 | [] \<Rightarrow> la1))"

definition scan_loadavg :: "string \<Rightarrow> LoadAverage \<Rightarrow> LoadAverage \<times> string" where
  "scan_loadavg raw la = (case scan_double raw of None \<Rightarrow> (la, [])
     | Some (x1, r1) \<Rightarrow> let la1 = la\<lparr>load_one := x1\<rparr> in (case scan_double r1 of None \<Rightarrow> (la1, [])
     | Some (x2, r2) \<Rightarrow> let la2 = la1\<lparr>load_five := x2\<rparr> in (case scan_double r2 of None \<Rightarrow> (la2, [])
     | Some (x3, r3) \<Rightarrow> let la3 = la2\<lparr>load_fifteen := x3\<rparr>; t = dropWhile is_space r3;
           w = take 31 (takeWhile (\<lambda>c. \<not> is_space c) t); r4 = drop (length w) t
         in (la3\<lparr>last_pid := (case (if w = [] then None else scan_d r4) of None \<Rightarrow> 0 | Some (p, _) \<Rightarrow> p)\<rparr>, w))))"

definition FetchLoadAverage :: "os_view \<Rightarrow> LoadAverage" where
  "FetchLoadAverage v = (let raw = ReadFile v ''/proc/loadavg'' in if raw = [] then LoadAverage_default
     else let (la, running_total) = scan_loadavg raw LoadAverage_default in scan_running_total running_total la)"

definition thermal_zone :: "os_view \<Rightarrow> string \<Rightarrow> ThermalZone" where
  "thermal_zone v dname = (let base = ''/sys/class/thermal/'' @ dname in
     \<lparr>zone_name = dname, zone_type = pop_back_if newline (ReadFile v (base @ ''/type'')),
       temp_celsius = of_nat (unat (ReadUint64File v (base @ ''/temp'') 0)) / 1000\<rparr>)"

definition FetchThermalInfo :: "os_view \<Rightarrow> ThermalZone list" where
  "FetchThermalInfo v = (case directory v ''/sys/class/thermal/'' of None \<Rightarrow> []
     | Some names \<Rightarrow> sort_key zone_name (map (thermal_zone v) (filter (starts_with ''thermal_zone'') names)))"

section \<open>Commands\<close>

text \<open>The columns of nvidia-smi: the text between blanks, empty when the line has ended. When there is no last character
  (\<open>find_last_not_of\<close> is \<open>npos\<close>), \<open>e - s + 1\<close> wraps around.\<close>

definition next_tok :: "istream \<Rightarrow> string \<times> istream" where
  "next_tok ls = (case get_token (CHR '','') ls of (None, ls1) \<Rightarrow> ([], ls1)
     | (Some tok, ls1) \<Rightarrow> (let s = dropWhile (\<lambda>c. c = blank) tok;
           t = rev (dropWhile (\<lambda>c. c = blank \<or> c = CHR 0x0D \<or> c = newline) (rev s))
         in if t = [] \<and> length s < length tok then s else t, ls1))"

definition safe_mb_to_bytes :: "string \<Rightarrow> u64" where
  "safe_mb_to_bytes s = (case stoull 10 s of Inl _ \<Rightarrow> 0 | Inr x \<Rightarrow> x * 1024 * 1024)"

definition safe_dbl :: "string \<Rightarrow> rat" where
  "safe_dbl s = (case stod s of Inl _ \<Rightarrow> 0 | Inr x \<Rightarrow> x)"

fun next_toks :: "nat \<Rightarrow> istream \<Rightarrow> string list" where
  "next_toks 0 ls = []"
| "next_toks (Suc n) ls = (let (t, ls1) = next_tok ls in t # next_toks n ls1)"

definition gpu_line :: "string \<Rightarrow> GpuInfo option" where
  "gpu_line line = (if line = [] then None else case next_toks 13 (istringstream line) of
       [ix, nm, dv, mt, mu, mf, gu, me, te, pd, pl, pb, cm] \<Rightarrow> Some \<lparr>gpu_index = ix, gpu_name = nm, driver_version = dv,
         memory_total = safe_mb_to_bytes mt, memory_used = safe_mb_to_bytes mu, memory_free = safe_mb_to_bytes mf,
         gpu_utilization = safe_dbl gu, memory_utilization = safe_dbl me, temperature_celsius = safe_dbl te,
         power_draw_watts = safe_dbl pd, power_limit_watts = safe_dbl pl, pci_bus_id = pb, compute_mode = cm\<rparr>
     | _ \<Rightarrow> None)"

definition nvidia_query :: string where
  "nvidia_query = ''--query-gpu=index,name,driver_version,memory.total,memory.used,'' @ ''memory.free,utilization.gpu,utilization.memory,temperature.gpu,''
     @ ''power.draw,power.limit,pci.bus_id,compute_mode''"

definition FetchGpuInfo :: "os_view \<Rightarrow> GpuInfo list" where
  "FetchGpuInfo v = (if \<not> ExecutableExists v ''nvidia-smi'' then []
     else List.map_filter gpu_line (file_lines (RunCommand v [''nvidia-smi'', nvidia_query, ''--format=csv,noheader,nounits''])))"

fun get_fields :: "nat \<Rightarrow> istream \<Rightarrow> string list" where
  "get_fields 0 ls = []"
| "get_fields (Suc n) ls = (let (t, ls1) = get_token tab ls in (case t of None \<Rightarrow> [] | Some x \<Rightarrow> x) # get_fields n ls1)"

definition docker_line :: "string \<Rightarrow> DockerContainer option" where
  "docker_line line = (if line = [] then None else case get_fields 6 (istringstream line) of
       [i, n, im, st, se, cr] \<Rightarrow> Some \<lparr>container_id = i, container_name = n, image' = im, status = st, container_state = se, created = cr\<rparr>
     | _ \<Rightarrow> None)"

definition docker_format :: string where
  "docker_format = ''{{.ID}}'' @ [tab] @ ''{{.Names}}'' @ [tab] @ ''{{.Image}}'' @ [tab] @ ''{{.Status}}'' @ [tab] @ ''{{.State}}'' @ [tab] @ ''{{.CreatedAt}}''"

definition FetchDockerContainers :: "os_view \<Rightarrow> DockerContainer list" where
  "FetchDockerContainers v = (if \<not> ExecutableExists v ''docker'' then []
     else List.map_filter docker_line (file_lines (RunCommand v [''docker'', ''ps'', ''-a'', ''--format'', docker_format])))"

section \<open>Processes\<close>

text \<open>The numbers after the command name in /proc/<pid>/stat: of type int (5), unsigned int, unsigned long (4), long (8),
  long long, unsigned long, long.\<close>

record stat_fields =
  state_char :: char
  ppid_val :: int
  utime :: int
  stime :: int
  num_threads_val :: int
  starttime :: int
  vsize :: u64
  rss :: int

definition read_stat_fields :: "string \<Rightarrow> stat_fields" where
  "read_stat_fields s = (let (c, ss0) = read_char (istringstream s) (CHR ''U''); (ints, ss1) = read_signeds 32 ss0 (replicate 5 0);
     (_, ss2) = read_word 10 ss1 (0 :: u32); (_, ss3) = read_words ss2 (replicate 4 (0 :: u64)); (longs, ss4) = read_signeds 64 ss3 (replicate 8 0);
     (start, ss5) = read_signed 64 ss4 0; (vs, ss6) = read_word 10 ss5 0; (rs, _) = read_signed 64 ss6 0
     in \<lparr>state_char = c, ppid_val = ints ! 0, utime = longs ! 0, stime = longs ! 1, num_threads_val = longs ! 6, starttime = start, vsize = vs, rss = rs\<rparr>)"

text \<open>Nanoseconds of a number of seconds.\<close>

definition nanoseconds :: "rat \<Rightarrow> int" where
  "nanoseconds x = trunc (x * 1000000000)"

definition command_line :: "string \<Rightarrow> string" where
  "command_line raw = pop_back_if blank (map (\<lambda>c. if c = nul then blank else c) raw)"

definition process_of :: "os_view \<Rightarrow> int \<Rightarrow> string \<Rightarrow> string \<Rightarrow> stat_fields \<Rightarrow> ProcessInfo" where
  "process_of v p base name' f = (let ps = (if page_size' v \<le> 0 then 4096 else page_size' v); tps = (if clk_tck v \<le> 0 then 100 else clk_tck v);
     uptime_raw = ReadFile v ''/proc/uptime''
     in \<lparr>pid = p, ppid = ppid_val f, proc_name = name', cmdline = command_line (ReadFile v (base @ ''/cmdline'')), proc_state = [state_char f],
       username = (case owner_of v base of None \<Rightarrow> [] | Some u \<Rightarrow> (case user_name v u of None \<Rightarrow> [] | Some n \<Rightarrow> n)),
       uid = (case owner_of v base of None \<Rightarrow> 0 | Some u \<Rightarrow> u), cpu_percent = 0, rss_bytes = of_int (rss f) * of_int ps, vms_bytes = vsize f,
       num_threads = of_int (num_threads_val f), cpu_time = cdiv (utime f + stime f) tps,
       start_time = (if uptime_raw = [] then 0 else case stod uptime_raw of Inl _ \<Rightarrow> 0
         | Inr up_secs \<Rightarrow> system_now v - nanoseconds up_secs + nanoseconds (of_int (starttime f) / of_int tps))\<rparr>)"

definition ParseProcess :: "os_view \<Rightarrow> int \<Rightarrow> string \<Rightarrow> std_exception + ProcessInfo option" where
  "ParseProcess v p proc_root = (let base = proc_root @ ''/'' @ show_int p; stat_raw = ReadFile v (base @ ''/stat'') in
     if stat_raw = [] then Inr None
     else case (find_char (CHR ''('') stat_raw, rfind_char (CHR '')'') stat_raw) of
       (Some paren_open, Some paren_close) \<Rightarrow> if paren_close \<le> paren_open then Inr None
         else (case substr_from (paren_close + 2) stat_raw of Inl e \<Rightarrow> Inl e
           | Inr s \<Rightarrow> Inr (Some (process_of v p base (take (paren_close - paren_open - 1) (drop (paren_open + 1) stat_raw)) (read_stat_fields s))))
     | _ \<Rightarrow> Inr None)"

text \<open>An entry of /proc: \<open>isdigit(d[0])\<close>, \<open>static_cast<pid_t>(stol(d))\<close>.\<close>

definition pid_of :: "string \<Rightarrow> std_exception + int" where
  "pid_of d = (case sto_signed 64 d of Inl e \<Rightarrow> Inl e | Inr n \<Rightarrow> Inr (sint (word_of_int n :: u32)))"

definition is_pid_entry :: "string \<Rightarrow> bool" where
  "is_pid_entry d \<longleftrightarrow> d \<noteq> [] \<and> is_digit 10 (hd d)"

fun fetch_entries :: "os_view \<Rightarrow> string list \<Rightarrow> std_exception + ProcessInfo list" where
  "fetch_entries v [] = Inr []"
| "fetch_entries v (d # ds) = (if \<not> is_pid_entry d then fetch_entries v ds
     else case pid_of d of Inl e \<Rightarrow> Inl e
       | Inr p \<Rightarrow> (case ParseProcess v p ''/proc'' of Inl e \<Rightarrow> Inl e
         | Inr proc \<Rightarrow> (case fetch_entries v ds of Inl e \<Rightarrow> Inl e
           | Inr ps \<Rightarrow> Inr ((case proc of None \<Rightarrow> [] | Some x \<Rightarrow> [x]) @ ps))))"

definition FetchAllProcesses :: "os_view \<Rightarrow> std_exception + ProcessInfo list" where
  "FetchAllProcesses v = (case directory v ''/proc'' of None \<Rightarrow> Inr [] | Some names \<Rightarrow> fetch_entries v names)"

definition GetProcess :: "os_view \<Rightarrow> int \<Rightarrow> std_exception + ProcessInfo option" where
  "GetProcess v p = ParseProcess v p ''/proc''"

section \<open>Addresses, ports, settings\<close>

text \<open>The interface of the default route in /proc/net/route: the first line whose destination is 0.\<close>

fun default_route :: "string list \<Rightarrow> string" where
  "default_route [] = []"
| "default_route (line # ls) = (let (iface, ss1) = read_string (istringstream line) []; (dest, _) = read_word 16 ss1 (0 :: u32)
     in if dest = 0 then iface else default_route ls)"

definition primary_ipv4 :: "os_view \<Rightarrow> NetworkInterface list \<Rightarrow> string" where
  "primary_ipv4 v ifaces = (case file_text v ''/proc/net/route'' of None \<Rightarrow> []
     | Some s \<Rightarrow> let iface = default_route (drop 1 (file_lines s)) in if iface = [] then []
         else (case find (\<lambda>ni. if_name ni = iface \<and> ip4_addresses ni \<noteq> []) ifaces of None \<Rightarrow> [] | Some ni \<Rightarrow> hd (ip4_addresses ni)))"

fun primary_ipv6 :: "NetworkInterface list \<Rightarrow> string" where
  "primary_ipv6 [] = []"
| "primary_ipv6 (ni # nis) = (if is_loopback ni \<or> \<not> is_up ni then primary_ipv6 nis
     else case find (\<lambda>addr. \<not> starts_with ''fe80'' addr) (ip6_addresses ni) of Some addr \<Rightarrow> addr | None \<Rightarrow> primary_ipv6 nis)"

text \<open>The inode of a link \<open>socket:[n]\<close>; the first 255 characters of the target.\<close>

definition socket_inode :: "string \<Rightarrow> u64 option" where
  "socket_inode lv0 = (let lv = take 255 lv0 in
     if lv \<noteq> [] \<and> take 8 lv = ''socket:['' \<and> last lv = CHR '']'' then
       (case stoull 10 (take (length lv - 9) (drop 8 lv)) of Inl _ \<Rightarrow> None | Inr i \<Rightarrow> Some i) else None)"

definition scan_fds :: "os_view \<Rightarrow> string \<Rightarrow> (u64 \<rightharpoonup> int) \<Rightarrow> std_exception + (u64 \<rightharpoonup> int)" where
  "scan_fds v d m = (if \<not> is_pid_entry d then Inr m else case pid_of d of Inl e \<Rightarrow> Inl e
     | Inr p \<Rightarrow> let fd_dir = ''/proc/'' @ d @ ''/fd'' in (case directory v fd_dir of None \<Rightarrow> Inr m
       | Some fds \<Rightarrow> Inr (fold (\<lambda>f m'. case link_target v (fd_dir @ ''/'' @ f) of None \<Rightarrow> m'
             | Some lv \<Rightarrow> (case socket_inode lv of None \<Rightarrow> m' | Some i \<Rightarrow> m'(i \<mapsto> p))) fds m)))"

fun inode_map :: "os_view \<Rightarrow> string list \<Rightarrow> (u64 \<rightharpoonup> int) \<Rightarrow> std_exception + (u64 \<rightharpoonup> int)" where
  "inode_map v [] m = Inr m"
| "inode_map v (d # ds) m = (case scan_fds v d m of Inl e \<Rightarrow> Inl e | Inr m' \<Rightarrow> inode_map v ds m')"

text \<open>\<open>static_cast<int>\<close> of an unsigned long.\<close>

definition to_int :: "u64 \<Rightarrow> int" where
  "to_int x = sint (ucast x :: u32)"

definition net_file_line :: "os_view \<Rightarrow> (u64 \<rightharpoonup> int) \<Rightarrow> string \<Rightarrow> string \<Rightarrow> ListeningPort option" where
  "net_file_line v inode_to_pid pr line =
    (let (_, ss1) = read_signed 32 (istringstream line) 0; (addrs, ss2) = read_strings ss1 [[], []]; (st, ss3) = read_word 16 ss2 (0 :: u32)
     in if st \<noteq> 0x0A then None
     else let (_, ss4) = read_strings ss3 [[], [], []]; (_, ss5) = read_signeds 32 ss4 [0, 0]; (inode_val, _) = read_word 10 ss5 (0 :: u64)
       in case split_at (CHR '':'') (addrs ! 0) of None \<Rightarrow> None
       | Some (_, hex_port) \<Rightarrow> (case stoull 16 hex_port of Inl _ \<Rightarrow> None
         | Inr p \<Rightarrow> Some (case inode_to_pid inode_val of
             None \<Rightarrow> \<lparr>port = to_int p, proto = pr, port_state = ''LISTEN'', port_pid = - 1, process_name = []\<rparr>
           | Some q \<Rightarrow> \<lparr>port = to_int p, proto = pr, port_state = ''LISTEN'', port_pid = q,
               process_name = pop_back_if newline (ReadFile v (''/proc/'' @ show_int q @ ''/comm''))\<rparr>)))"

definition parse_net_file :: "os_view \<Rightarrow> (u64 \<rightharpoonup> int) \<Rightarrow> string \<Rightarrow> string \<Rightarrow> ListeningPort list" where
  "parse_net_file v m path pr = (case file_text v path of None \<Rightarrow> [] | Some s \<Rightarrow> List.map_filter (net_file_line v m pr) (drop 1 (file_lines s)))"

definition GetListeningPorts :: "os_view \<Rightarrow> std_exception + ListeningPort list" where
  "GetListeningPorts v = (case inode_map v (case directory v ''/proc'' of None \<Rightarrow> [] | Some ds \<Rightarrow> ds) Map.empty of Inl e \<Rightarrow> Inl e
     | Inr m \<Rightarrow> Inr (sort_key port (parse_net_file v m ''/proc/net/tcp'' ''tcp'' @ parse_net_file v m ''/proc/net/tcp6'' ''tcp6'')))"

definition dns_line :: "string \<Rightarrow> string option" where
  "dns_line line = (if \<not> starts_with ''nameserver '' line then None
     else case read_strings (istringstream line) [[], []] of ([kw, addr], _) \<Rightarrow> if addr = [] then None else Some addr | _ \<Rightarrow> None)"

definition GetDnsServers :: "os_view \<Rightarrow> string list" where
  "GetDnsServers v = (case file_text v ''/etc/resolv.conf'' of None \<Rightarrow> [] | Some s \<Rightarrow> List.map_filter dns_line (file_lines s))"

definition GetLogicalCoreCount :: "os_view \<Rightarrow> int" where
  "GetLogicalCoreCount v = nprocs v"

definition GetBootTime :: "os_view \<Rightarrow> int" where
  "GetBootTime v = system_now v - SystemInfo_GetUptime v * 1000000000"

definition GetTimezone :: "os_view \<Rightarrow> string" where
  "GetTimezone v = (let tz = ReadFile v ''/etc/timezone'' in if tz \<noteq> [] then pop_back_if newline tz
     else case link_target v ''/etc/localtime'' of None \<Rightarrow> ''UTC''
       | Some l \<Rightarrow> let lk = take 255 l in if lk = [] then ''UTC'' else
           (case find_string ''zoneinfo/'' lk of None \<Rightarrow> ''UTC'' | Some pos \<Rightarrow> drop (pos + 9) lk))"

definition GetLoggedInUserCount :: "os_view \<Rightarrow> nat" where
  "GetLoggedInUserCount v = length (filter (\<lambda>b. b) (user_processes v))"

definition GetEnvironment :: "os_view \<Rightarrow> string \<rightharpoonup> string" where
  "GetEnvironment v = fold (\<lambda>kv env. case split_at (CHR ''='') kv of None \<Rightarrow> env | Some (k, x) \<Rightarrow> env(k \<mapsto> x)) (environ v) Map.empty"

definition GetKernelCmdline :: "os_view \<Rightarrow> string" where
  "GetKernelCmdline v = pop_back_if newline (ReadFile v ''/proc/cmdline'')"

definition GetLoadedKernelModules :: "os_view \<Rightarrow> string list" where
  "GetLoadedKernelModules v = (case file_text v ''/proc/modules'' of None \<Rightarrow> []
     | Some s \<Rightarrow> filter (\<lambda>n. n \<noteq> []) (map (\<lambda>line. fst (read_string (istringstream line) [])) (file_lines s)))"

definition GetProcVersion :: "os_view \<Rightarrow> string" where
  "GetProcVersion v = pop_back_if newline (ReadFile v ''/proc/version'')"

definition vmstat_line :: "string \<Rightarrow> (string \<rightharpoonup> u64) \<Rightarrow> (string \<rightharpoonup> u64)" where
  "vmstat_line line vm = (let (key, ss1) = read_string (istringstream line) []; (val, ss2) = read_word 10 ss1 0
     in if failbit ss2 then vm else vm(key \<mapsto> val))"

definition GetVmStats :: "os_view \<Rightarrow> string \<rightharpoonup> u64" where
  "GetVmStats v = (case file_text v ''/proc/vmstat'' of None \<Rightarrow> Map.empty | Some s \<Rightarrow> fold vmstat_line (file_lines s) Map.empty)"

text \<open>The part of a process list that the queries select, for a comparison function of \<open>std::sort\<close>.\<close>

fun insert_by :: "('a \<Rightarrow> 'a \<Rightarrow> bool) \<Rightarrow> 'a \<Rightarrow> 'a list \<Rightarrow> 'a list" where
  "insert_by before x [] = [x]"
| "insert_by before x (y # ys) = (if before y x then y # insert_by before x ys else x # y # ys)"

definition sort_by :: "('a \<Rightarrow> 'a \<Rightarrow> bool) \<Rightarrow> 'a list \<Rightarrow> 'a list" where
  "sort_by before xs = foldr (insert_by before) xs []"

definition cpu_before :: "ProcessInfo \<Rightarrow> ProcessInfo \<Rightarrow> bool" where
  "cpu_before a b = (if cpu_percent a \<noteq> cpu_percent b then cpu_percent b < cpu_percent a else cpu_time b < cpu_time a)"

definition memory_before :: "ProcessInfo \<Rightarrow> ProcessInfo \<Rightarrow> bool" where
  "memory_before a b \<longleftrightarrow> rss_bytes b < rss_bytes a"

definition top_processes :: "(ProcessInfo \<Rightarrow> ProcessInfo \<Rightarrow> bool) \<Rightarrow> Options \<Rightarrow> nat \<Rightarrow> ProcessInfo list \<Rightarrow> ProcessInfo list" where
  "top_processes before o' n procs = take (if n = 0 then top_process_limit o' else n) (sort_by before procs)"

definition matching_processes :: "string \<Rightarrow> ProcessInfo list \<Rightarrow> ProcessInfo list" where
  "matching_processes pattern procs =
    filter (\<lambda>p. find_string pattern (proc_name p) \<noteq> None \<or> find_string pattern (cmdline p) \<noteq> None) procs"

end
