(* ===== verification/System_Props.thy ===== *)
theory System_Props
  imports System_Fetch
begin

text \<open>
  What the readers of system/system_info.cc make of the files that the kernel writes. \<open>demo_view\<close> is a view of an operating
  system with the given files and nothing else.
\<close>

definition demo_view :: "(string \<Rightarrow> string option) \<Rightarrow> os_view" where
  "demo_view files = \<lparr>file_text = files, directory = (\<lambda>_. None), link_target = (\<lambda>_. None), owner_of = (\<lambda>_. None), user_name = (\<lambda>_. None),
     is_executable = (\<lambda>_. False), uname' = None, statvfs' = (\<lambda>_. None), getifaddrs = None, nprocs = 1, page_size' = 4096, clk_tck = 100,
     path_env = None, environ = [], user_processes = [], run_command = (\<lambda>_. (False, [])), system_now = 0\<rparr>"

section \<open>Memory\<close>
text \<open>Lines of /proc/meminfo.\<close>

type_synonym meminfo_entry' = "string \<times> string \<times> nat \<times> string"

fun meminfo_text :: "meminfo_entry' \<Rightarrow> string" where
  "meminfo_text (key, pad, n, unit) = key @ CHR '':'' # pad @ show_nat n @ unit"

fun meminfo_entry_ok :: "meminfo_entry' \<Rightarrow> bool" where
  "meminfo_entry_ok (key, pad, n, unit) \<longleftrightarrow> CHR '':'' \<notin> set key \<and> newline \<notin> set key \<and> list_all (\<lambda>c. c = blank \<or> c = tab) pad \<and>
     n < 2 ^ 54 \<and> (unit = [] \<or> unit = '' kB'')"

definition meminfo_value :: "meminfo_entry' list \<Rightarrow> string \<Rightarrow> u64" where
  "meminfo_value es key = (case map_of (rev es) key of None \<Rightarrow> 0 | Some (_, n, _) \<Rightarrow> of_nat n)"

lemma split_at_text: "c \<notin> set k \<Longrightarrow> split_at c (k @ c # r) = Some (k, r)"
  by (simp add: split_at_def find_char_def takeWhile_append)

lemma meminfo_entry_text:
  assumes "meminfo_entry_ok (key, pad, n, unit)"
  shows "meminfo_entry (meminfo_text (key, pad, n, unit)) = Some (key, show_nat n @ unit)"
proof -
  have pad: "list_all (\<lambda>c. c = blank \<or> c = tab) pad" using assms by simp
  have "dropWhile (\<lambda>c. c = blank \<or> c = tab) (pad @ show_nat n @ unit) = dropWhile (\<lambda>c. c = blank \<or> c = tab) (show_nat n @ unit)"
    using pad by (induction pad) auto
  also have "\<dots> = show_nat n @ unit"
    using show_base_digits [of 10 n] is_digit_not_space [of 10] by (cases "show_nat n") (auto simp: is_space_def)
  finally have "dropWhile (\<lambda>c. c = blank \<or> c = tab) (pad @ show_nat n @ unit) = show_nat n @ unit" .
  then show ?thesis using assms by (simp add: meminfo_entry_def split_at_text del: dropWhile_eq_Nil_conv)
qed

lemma unit_no_digit: "unit = [] \<or> unit = '' kB'' \<Longrightarrow> unit = [] \<or> \<not> is_digit 10 (hd unit)"
  by (auto simp: is_digit_def digit_value_def)

lemma read_value:
  assumes "meminfo_entry_ok (key, pad, n, unit)"
  shows "fst (read_word 10 (istringstream (show_nat n @ unit)) x) = (of_nat n :: u64)"
  using read_word_show [of "[]" unit n x, OF _ unit_no_digit] assms by simp

lemma parse_kb_value: "meminfo_entry_ok (key, pad, n, unit) \<Longrightarrow> parse_kb (show_nat n @ unit) = of_nat n * 1024"
  unfolding parse_kb_def by (subst read_value [of key pad n unit]) simp_all

lemma meminfo_value_snoc: "meminfo_value (es @ [(key, pad, n, unit)]) k = (if key = k then of_nat n else meminfo_value es k)"
  by (auto simp: meminfo_value_def)

lemma meminfo_value_Nil: "meminfo_value [] k = 0"
  by (simp add: meminfo_value_def)

definition meminfo_read :: "meminfo_entry' list \<Rightarrow> MemoryInfo" where
  "meminfo_read es = (let kb = (\<lambda>k. meminfo_value es k * 1024) in
     \<lparr>mem_total = kb ''MemTotal'', mem_free = kb ''MemFree'', available = kb ''MemAvailable'', buffers = kb ''Buffers'', cached = kb ''Cached'',
       swap_cached = kb ''SwapCached'', active_mem = kb ''Active'', inactive = kb ''Inactive'', swap_total = kb ''SwapTotal'', swap_free = kb ''SwapFree'',
       shmem = kb ''Shmem'', slab = kb ''Slab'', page_tables = kb ''PageTables'', vmalloc_total = kb ''VmallocTotal'', vmalloc_used = kb ''VmallocUsed'',
       huge_pages_total = meminfo_value es ''HugePages_Total'', huge_pages_free = meminfo_value es ''HugePages_Free'', huge_page_size = kb ''Hugepagesize''\<rparr>)"

definition meminfo_keys :: "string list" where
  "meminfo_keys = [''MemTotal'', ''MemFree'', ''MemAvailable'', ''Buffers'', ''Cached'', ''SwapCached'', ''Active'', ''Inactive'', ''SwapTotal'', ''SwapFree'',
     ''Shmem'', ''Slab'', ''PageTables'', ''VmallocTotal'', ''VmallocUsed'', ''HugePages_Total'', ''HugePages_Free'', ''Hugepagesize'']"

lemma meminfo_line_text:
  assumes "meminfo_entry_ok e"
  shows "meminfo_line (meminfo_text e) (meminfo_read es) = meminfo_read (es @ [e])"
proof -
  obtain key pad n unit where e: "e = (key, pad, n, unit)" by (cases e)
  note ok = assms [unfolded e]
  note line = meminfo_line_def meminfo_entry_text [OF ok] option.case prod.case parse_kb_value [OF ok] read_value [OF ok]
  show ?thesis
  proof (cases "key \<in> set meminfo_keys")
    case True
    then show ?thesis unfolding e line unfolding meminfo_keys_def list.set insert_iff empty_iff
      by (elim disjE; simp; simp add: meminfo_read_def meminfo_value_snoc Let_def)
  next
    case False
    then show ?thesis unfolding e line unfolding meminfo_keys_def list.set insert_iff empty_iff
      by (simp add: meminfo_read_def meminfo_value_snoc Let_def)
  qed
qed

lemma fold_meminfo: "list_all meminfo_entry_ok es \<Longrightarrow> fold meminfo_line (map meminfo_text es) MemoryInfo_default = meminfo_read es"
proof (induction es rule: rev_induct)
  case Nil
  show ?case by (simp add: meminfo_read_def meminfo_value_Nil MemoryInfo_default_def)
next
  case (snoc e es)
  then show ?case by (simp add: meminfo_line_text)
qed

definition meminfo_file :: "meminfo_entry' list \<Rightarrow> string" where
  "meminfo_file es = concat (map (\<lambda>e. meminfo_text e @ [newline]) es)"

lemma newline_meminfo: "meminfo_entry_ok e \<Longrightarrow> newline \<notin> set (meminfo_text e)"
proof -
  assume ok: "meminfo_entry_ok e"
  obtain key pad n unit where e: "e = (key, pad, n, unit)" by (cases e)
  have "newline \<notin> set (show_nat n)" by (rule newline_not_digit)
  moreover have "newline \<notin> set pad" using ok unfolding e meminfo_entry_ok.simps list_all_iff by fastforce
  ultimately show ?thesis using ok unfolding e by auto
qed

text \<open>
  C31. Reading back /proc/meminfo: from a file of lines \<open>key: number\<close> or \<open>key: number kB\<close>, in any order, with any padding and
  any further keys, every field of \<open>MemoryInfo\<close> gets the number of its key (of the last such line) in bytes, huge pages as
  they are; fields without a line are 0.
\<close>

theorem FetchMemoryInfo_reads_meminfo:
  assumes "list_all meminfo_entry_ok es" "file_text v ''/proc/meminfo'' = Some (meminfo_file es)"
  shows "FetchMemoryInfo v = meminfo_read es"
proof -
  have "file_lines (meminfo_file es) = map meminfo_text es"
    unfolding meminfo_file_def using file_lines_concat [of "map meminfo_text es"] newline_meminfo assms(1)
    by (simp only: list_all_iff set_map map_map comp_def) blast
  then show ?thesis using assms fold_meminfo by (simp add: FetchMemoryInfo_def)
qed


definition demo_meminfo :: "meminfo_entry' list" where
  "demo_meminfo = [(''MemTotal'', ''       '', 16384, '' kB''), (''HugePages_Total'', ''   '', 5, []), (''Other'', [tab], 1, '' kB'')]"

theorem FetchMemoryInfo_reads_meminfo_witness:
  "mem_total (FetchMemoryInfo (demo_view [''/proc/meminfo'' \<mapsto> meminfo_file demo_meminfo])) = 16777216 \<and>
   huge_pages_total (FetchMemoryInfo (demo_view [''/proc/meminfo'' \<mapsto> meminfo_file demo_meminfo])) = 5"
proof -
  have "list_all meminfo_entry_ok demo_meminfo" by (simp add: demo_meminfo_def)
  from FetchMemoryInfo_reads_meminfo [OF this, of "demo_view [''/proc/meminfo'' \<mapsto> meminfo_file demo_meminfo]"] show ?thesis
    by (simp add: demo_view_def meminfo_read_def meminfo_value_def demo_meminfo_def)
qed

section \<open>Listening ports\<close>

definition tcp_line :: "nat \<Rightarrow> nat \<Rightarrow> string \<Rightarrow> string" where
  "tcp_line k sl columns = replicate k blank @ show_nat sl @ CHR '':'' # blank # columns"

lemma tcp_line_not_reported: "sl < 2 ^ 31 \<Longrightarrow> net_file_line v m pr (tcp_line k sl columns) = None"
proof -
  assume sl: "sl < 2 ^ 31"
  have "list_all is_space (replicate k blank)" by (induction k) (simp_all add: is_space_def)
  then have r: "read_signed 32 (istringstream (tcp_line k sl columns)) 0 = (int sl, istringstream (CHR '':'' # blank # columns))"
    unfolding tcp_line_def using sl by (intro read_signed_show) (simp_all add: is_digit_def digit_value_def)
  have "fst (read_strings (istringstream (CHR '':'' # blank # columns)) [[], []]) ! 0 = '':''"
    by (simp add: sentry_def istringstream_def read_string_def is_space_def Let_def split_beta)
  moreover have "split_at (CHR '':'') '':'' = Some ([], [])" by (simp add: split_at_def find_char_def)
  moreover have "stoull 16 [] = Inl Invalid_argument" by (simp add: stoull_def sto_digits_def scan_number_def scan_sign_def skip_0x_def starts_with_def)
  ultimately show ?thesis unfolding net_file_line_def r by (simp add: Let_def split_beta)
qed

definition tcp_table :: "string \<Rightarrow> (nat \<times> nat \<times> string) list \<Rightarrow> string" where
  "tcp_table header rows = concat (map (\<lambda>l. l @ [newline]) (header # map (\<lambda>(k, sl, columns). tcp_line k sl columns) rows))"

definition tcp_rows_ok :: "(nat \<times> nat \<times> string) list \<Rightarrow> bool" where
  "tcp_rows_ok rows \<longleftrightarrow> list_all (\<lambda>(k, sl, columns). sl < 2 ^ 31 \<and> newline \<notin> set columns) rows"

lemma parse_tcp_table:
  assumes "newline \<notin> set header" "tcp_rows_ok rows" "file_text v path = Some (tcp_table header rows)"
  shows "parse_net_file v m path pr = []"
proof -
  let ?ls = "map (\<lambda>(k, sl, columns). tcp_line k sl columns) rows"
  have "newline \<notin> set l" if "l \<in> set ?ls" for l
    using that assms(2) newline_not_digit by (fastforce simp: tcp_line_def tcp_rows_ok_def list_all_iff)
  then have "file_lines (tcp_table header rows) = header # ?ls"
    unfolding tcp_table_def using assms(1) by (intro file_lines_concat) (simp only: list.set insert_iff, blast)
  moreover have "List.map_filter (net_file_line v m pr) ?ls = []"
    using assms(2) by (induction rows) (auto simp: List.map_filter_simps tcp_line_not_reported tcp_rows_ok_def)
  ultimately show ?thesis using assms(3) by (simp add: parse_net_file_def)
qed

text \<open>
  C34. \<open>GetListeningPorts\<close> never reports a port: for tables in the format of the kernel (\<open>  0: 0100007F:0277 00000000:0000 0A ...\<close>)
  the number before the colon is extracted, then the colon alone as the local address, so that every later column is read
  one column early and no port is found in the text of the address.
\<close>

theorem listening_ports_are_never_reported:
  assumes "newline \<notin> set header" "tcp_rows_ok rows" "file_text v ''/proc/net/tcp'' = Some (tcp_table header rows)"
    and "newline \<notin> set header6" "tcp_rows_ok rows6" "file_text v ''/proc/net/tcp6'' = Some (tcp_table header6 rows6)"
    and "GetListeningPorts v = Inr ports"
  shows "ports = []"
  using assms(7) parse_tcp_table [OF assms(1-3)] parse_tcp_table [OF assms(4-6)]
  by (auto simp: GetListeningPorts_def split: sum.splits)

definition demo_header :: string where
  "demo_header = ''  sl  local_address rem_address   st''"

definition demo_rows :: "(nat \<times> nat \<times> string) list" where
  "demo_rows = [(3, 0, ''0100007F:0277 00000000:0000 0A 00000000:00000000 00:00000000 00000000     0        0 21371 1'')]"

theorem listening_ports_are_never_reported_witness:
  "GetListeningPorts (demo_view (\<lambda>p. if p = ''/proc/net/tcp'' \<or> p = ''/proc/net/tcp6'' then Some (tcp_table demo_header demo_rows) else None)) = Inr []"
proof -
  let ?v = "demo_view (\<lambda>p. if p = ''/proc/net/tcp'' \<or> p = ''/proc/net/tcp6'' then Some (tcp_table demo_header demo_rows) else None)"
  obtain ports where ports: "GetListeningPorts ?v = Inr ports" by (simp add: GetListeningPorts_def demo_view_def)
  have ok: "newline \<notin> set demo_header" "tcp_rows_ok demo_rows" by (simp_all add: demo_header_def demo_rows_def tcp_rows_ok_def)
  have "ports = []"
    by (rule listening_ports_are_never_reported [OF ok _ ok _ ports]) (simp_all add: demo_view_def)
  with ports show ?thesis by simp
qed

section \<open>Negative numbers\<close>

lemma stoull_negative: "n < 2 ^ 64 \<Longrightarrow> stoull 10 (CHR ''-'' # show_nat n @ [newline]) = Inr (- of_nat n)"
proof -
  assume n: "n < 2 ^ 64"
  have r: "takeWhile (is_digit 10) (show_nat n @ [newline]) = show_nat n"
    using takeWhile_show [of 10 "[newline]" n] by (simp add: is_digit_def digit_value_def)
  show ?thesis using n by (simp add: stoull_def sto_digits_def scan_number_def scan_sign_def skip_0x_def is_space_def r digits_value_show Let_def)
qed

lemma ReadUint64File_negative:
  "file_text v path = Some (CHR ''-'' # show_nat n @ [newline]) \<Longrightarrow> n < 2 ^ 64 \<Longrightarrow> ReadUint64File v path d = - of_nat n"
  by (simp add: ReadUint64File_def ReadFile_def stoull_negative)

lemma unat_minus_of_nat: "0 < n \<Longrightarrow> n < 2 ^ 64 \<Longrightarrow> unat (- of_nat n :: u64) = 2 ^ 64 - n"
proof -
  assume n: "0 < n" "n < 2 ^ 64"
  have "of_nat n + of_nat (2 ^ 64 - n) = (0 :: u64)" using n by (simp flip: of_nat_add)
  then have "- of_nat n = (of_nat (2 ^ 64 - n) :: u64)" by (rule minus_unique)
  moreover have "unat (of_nat (2 ^ 64 - n) :: u64) = 2 ^ 64 - n" using n unat_of_nat [of "2 ^ 64 - n", where 'a = 64] by (simp del: of_nat_diff)
  ultimately show ?thesis by simp
qed

text \<open>
  Negative numbers in sysfs become huge: \<open>stoull\<close> accepts a minus sign and wraps around, so that a temperature below zero is
  reported as more than 9 * 10^15 degrees, and the speed -1 of an interface without a link as 2^64 - 1 instead of 0
  (unknown).
\<close>

theorem negative_readings_become_huge:
  assumes "0 < n" "n < 2 ^ 63"
  shows "(\<forall>z \<in> set (FetchThermalInfo v). file_text v (''/sys/class/thermal/'' @ zone_name z @ ''/temp'') = Some (CHR ''-'' # show_nat n @ [newline]) \<longrightarrow>
      temp_celsius z = of_nat (2 ^ 64 - n) / 1000) \<and>
    (\<forall>ni \<in> set (FetchNetworkInfo v). file_text v (''/sys/class/net/'' @ if_name ni @ ''/speed'') = Some (CHR ''-'' # show_nat n @ [newline]) \<longrightarrow>
      unat (speed_mbps ni) = 2 ^ 64 - n)"
proof -
  have "n < 2 ^ 64" using assms(2) by simp
  note r = ReadUint64File_negative [OF _ this] unat_minus_of_nat [OF assms(1) this]
  have "temp_celsius (thermal_zone v zone) = of_nat (2 ^ 64 - n) / 1000"
    if "file_text v (''/sys/class/thermal/'' @ zone @ ''/temp'') = Some (CHR ''-'' # show_nat n @ [newline])" for zone
    using that by (simp add: thermal_zone_def Let_def r del: of_nat_unat)
  moreover have "zone_name (thermal_zone v zone) = zone" for zone by (simp add: thermal_zone_def Let_def)
  ultimately show ?thesis
    by (auto simp: FetchThermalInfo_def FetchNetworkInfo_def Let_def r simp del: of_nat_unat of_nat_diff split: option.splits)
qed

theorem negative_readings_become_huge_witness:
  "map temp_celsius (FetchThermalInfo ((demo_view (\<lambda>p. if p = ''/sys/class/thermal/thermal_zone0/temp'' then Some (CHR ''-'' # show_nat 5000 @ [newline]) else None))
     \<lparr>directory := (\<lambda>_. Some [''thermal_zone0''])\<rparr>)) = [of_nat (2 ^ 64 - 5000) / 1000]"
proof -
  let ?v = "(demo_view (\<lambda>p. if p = ''/sys/class/thermal/thermal_zone0/temp'' then Some (CHR ''-'' # show_nat 5000 @ [newline]) else None))
     \<lparr>directory := (\<lambda>_. Some [''thermal_zone0''])\<rparr>"
  have z: "FetchThermalInfo ?v = [thermal_zone ?v ''thermal_zone0'']" by (simp add: FetchThermalInfo_def starts_with_def)
  have "temp_celsius (thermal_zone ?v ''thermal_zone0'') = of_nat (2 ^ 64 - 5000) / 1000"
    using conjunct1 [OF negative_readings_become_huge [of 5000 ?v]] z by (simp add: thermal_zone_def demo_view_def Let_def)
  with z show ?thesis by simp
qed

section \<open>Usage\<close>

definition ticks_le :: "CpuCoreStats \<Rightarrow> CpuCoreStats \<Rightarrow> bool" where
  "ticks_le a b \<longleftrightarrow> user a \<le> user b \<and> nice a \<le> nice b \<and> system_ticks a \<le> system_ticks b \<and> idle_ticks a \<le> idle_ticks b \<and> iowait a \<le> iowait b \<and>
     irq a \<le> irq b \<and> softirq a \<le> softirq b \<and> steal a \<le> steal b \<and> guest a \<le> guest b \<and> guest_nice a \<le> guest_nice b"

definition total_ticks :: "CpuCoreStats \<Rightarrow> nat" where
  "total_ticks c = unat (user c) + unat (nice c) + unat (system_ticks c) + unat (idle_ticks c) + unat (iowait c) + unat (irq c) + unat (softirq c) +
     unat (steal c) + unat (guest c) + unat (guest_nice c)"

definition busy_ticks :: "CpuCoreStats \<Rightarrow> nat" where
  "busy_ticks c = unat (user c) + unat (nice c) + unat (system_ticks c) + unat (irq c) + unat (softirq c) + unat (steal c)"

lemma unat_Total: "total_ticks c < 2 ^ 64 \<Longrightarrow> unat (Total c) = total_ticks c"
  unfolding Total_def total_ticks_def unat_word_ariths mod_add_left_eq by simp

lemma unat_Busy: "total_ticks c < 2 ^ 64 \<Longrightarrow> unat (Busy c) = busy_ticks c"
  unfolding Busy_def busy_ticks_def total_ticks_def unat_word_ariths mod_add_left_eq by simp

text \<open>
  The usage between two snapshots is the share of the busy ticks in the total ticks, and lies between 0 and 100, when no
  counter has decreased and the counters do not overflow together. (The total counts guest ticks that the kernel has
  already included in the user ticks.)
\<close>

theorem usage_is_a_percentage:
  assumes "ticks_le prev this" "total_ticks this < 2 ^ 64"
  shows "0 \<le> UsagePercent this prev \<and> UsagePercent this prev \<le> 100 \<and>
    UsagePercent this prev * (of_nat (total_ticks this) - of_nat (total_ticks prev)) = 100 * (of_nat (busy_ticks this) - of_nat (busy_ticks prev))"
proof -
  have le: "busy_ticks prev \<le> busy_ticks this" "total_ticks prev \<le> total_ticks this"
      "busy_ticks this - busy_ticks prev \<le> total_ticks this - total_ticks prev"
    using assms(1) by (auto simp: ticks_le_def busy_ticks_def total_ticks_def word_le_nat_alt)
  then have "total_ticks prev < 2 ^ 64" using assms(2) by linarith
  note u = unat_Total [OF assms(2)] unat_Total [OF this] unat_Busy [OF assms(2)] unat_Busy [OF this]
  have le': "Total prev \<le> Total this" "Busy prev \<le> Busy this" using le u by (simp_all add: word_le_nat_alt)
  have d: "unat (Total this - Total prev) = total_ticks this - total_ticks prev" "unat (Busy this - Busy prev) = busy_ticks this - busy_ticks prev"
    using le' u by (simp_all add: unat_sub)
  show ?thesis
  proof (cases "Total this = Total prev")
    case True
    then have "total_ticks this = total_ticks prev" using u by simp
    then show ?thesis using True le by (simp add: UsagePercent_def)
  next
    case False
    then have t: "total_ticks prev < total_ticks this" using le(2) u by (metis le_neq_implies_less word_unat_eq_iff)
    have e: "UsagePercent this prev = 100 * of_nat (busy_ticks this - busy_ticks prev) / of_nat (total_ticks this - total_ticks prev)"
      using False le' d by (simp add: UsagePercent_def Let_def not_less)
    have "(of_nat (busy_ticks this - busy_ticks prev) :: rat) \<le> of_nat (total_ticks this - total_ticks prev)" using le(3) by (simp only: of_nat_le_iff)
    then show ?thesis unfolding e using t le by (simp add: divide_le_eq of_nat_diff)
  qed
qed

theorem usage_is_a_percentage_witness:
  "UsagePercent (CpuCoreStats_default\<lparr>user := 130, idle_ticks := 270\<rparr>) (CpuCoreStats_default\<lparr>user := 100, idle_ticks := 200\<rparr>) * 100 = 3000"
proof -
  let ?a = "CpuCoreStats_default\<lparr>user := 130, idle_ticks := 270\<rparr>" and ?b = "CpuCoreStats_default\<lparr>user := 100, idle_ticks := 200\<rparr>"
  have "ticks_le ?b ?a" "total_ticks ?a = 400" "total_ticks ?b = 300" "busy_ticks ?a = 130" "busy_ticks ?b = 100"
    by (simp_all add: ticks_le_def total_ticks_def busy_ticks_def CpuCoreStats_default_def)
  with usage_is_a_percentage [of ?b ?a] show ?thesis by simp
qed

text \<open>When a counter does decrease (the kernel documents this for iowait), the result may exceed 100.\<close>

theorem usage_may_exceed_100:
  "UsagePercent (CpuCoreStats_default\<lparr>user := 300, iowait := 50\<rparr>) (CpuCoreStats_default\<lparr>user := 100, iowait := 150\<rparr>) = 200"
  by (simp add: UsagePercent_def Total_def Busy_def CpuCoreStats_default_def)

end
