(* ===== verification/System_Info.thy ===== *)
theory System_Info
  imports System_Fetch
begin

text \<open>
  \<open>SystemInfo\<close> (system/system_info.h, .cc): the caches with their time to live and the queries that go through them. A
  query is one critical section of the mutex of its domain; it gets the view of the operating system at its fetch, the
  clock at its test (\<open>t0\<close>) and the clock at the end of its fetch (\<open>t1\<close>), in nanoseconds. A query that makes several such
  calls gets one such moment for each of them.
\<close>

section \<open>A cache entry\<close>

record 'a cache_entry =
  cached_value :: 'a
  fetched_at :: int
  valid :: bool

definition IsStale :: "int \<Rightarrow> int \<Rightarrow> 'a cache_entry \<Rightarrow> bool" where
  "IsStale ttl now c \<longleftrightarrow> (if \<not> valid c \<or> ttl = 0 then True else ttl < now - fetched_at c)"

definition Cache_Set :: "int \<Rightarrow> 'a \<Rightarrow> 'a cache_entry \<Rightarrow> 'a cache_entry" where
  "Cache_Set now v c = c\<lparr>cached_value := v, fetched_at := now, valid := True\<rparr>"

definition empty_entry :: "'a \<Rightarrow> 'a cache_entry" where
  "empty_entry x = \<lparr>cached_value = x, fetched_at = 0, valid = False\<rparr>"

text \<open>The body that the queries share: return the cached value, or fetch, set and return.\<close>

definition cached_get :: "int \<Rightarrow> int \<Rightarrow> int \<Rightarrow> 'a \<Rightarrow> 'a cache_entry \<Rightarrow> 'a \<times> 'a cache_entry" where
  "cached_get ttl t0 t1 fetched c = (if \<not> IsStale ttl t0 c then (cached_value c, c)
     else let c' = Cache_Set t1 fetched c in (cached_value c', c'))"

record Impl =
  opts' :: Options
  os_cache :: "OsInfo cache_entry"
  cpu_cache :: "CpuInfo cache_entry"
  mem_cache :: "MemoryInfo cache_entry"
  disk_cache :: "DiskPartition list cache_entry"
  disk_io_cache :: "DiskIoStats list cache_entry"
  net_cache :: "NetworkInterface list cache_entry"
  load_cache :: "LoadAverage cache_entry"
  thermal_cache :: "ThermalZone list cache_entry"
  gpu_cache :: "GpuInfo list cache_entry"
  docker_cache :: "DockerContainer list cache_entry"
  proc_cache :: "ProcessInfo list cache_entry"
  prev_cpu_stats :: "CpuCoreStats list"

definition SystemInfo_new :: "Options \<Rightarrow> os_view \<Rightarrow> Impl" where
  "SystemInfo_new o' v = \<lparr>opts' = o', os_cache = empty_entry OsInfo_default, cpu_cache = empty_entry CpuInfo_default,
     mem_cache = empty_entry MemoryInfo_default, disk_cache = empty_entry [], disk_io_cache = empty_entry [], net_cache = empty_entry [],
     load_cache = empty_entry LoadAverage_default, thermal_cache = empty_entry [], gpu_cache = empty_entry [], docker_cache = empty_entry [],
     proc_cache = empty_entry [], prev_cpu_stats = ParseProcStat v\<rparr>"

abbreviation ttl_of :: "Impl \<Rightarrow> int" where "ttl_of s \<equiv> cache_ttl (opts' s)"

section \<open>Queries\<close>

definition GetOsInfo :: "os_view \<Rightarrow> int \<Rightarrow> int \<Rightarrow> Impl \<Rightarrow> OsInfo \<times> Impl" where
  "GetOsInfo v t0 t1 s = (let (x, c) = cached_get (ttl_of s) t0 t1 (FetchOsInfo v) (os_cache s) in (x, s\<lparr>os_cache := c\<rparr>))"

definition GetMemoryInfo :: "os_view \<Rightarrow> int \<Rightarrow> int \<Rightarrow> Impl \<Rightarrow> MemoryInfo \<times> Impl" where
  "GetMemoryInfo v t0 t1 s = (let (x, c) = cached_get (ttl_of s) t0 t1 (FetchMemoryInfo v) (mem_cache s) in (x, s\<lparr>mem_cache := c\<rparr>))"

definition GetDiskInfo :: "os_view \<Rightarrow> int \<Rightarrow> int \<Rightarrow> Impl \<Rightarrow> DiskPartition list \<times> Impl" where
  "GetDiskInfo v t0 t1 s = (let (x, c) = cached_get (ttl_of s) t0 t1 (FetchDiskInfo v (opts' s)) (disk_cache s) in (x, s\<lparr>disk_cache := c\<rparr>))"

definition GetDiskIoStats :: "os_view \<Rightarrow> int \<Rightarrow> int \<Rightarrow> Impl \<Rightarrow> DiskIoStats list \<times> Impl" where
  "GetDiskIoStats v t0 t1 s = (let (x, c) = cached_get (ttl_of s) t0 t1 (FetchDiskIoStats v) (disk_io_cache s) in (x, s\<lparr>disk_io_cache := c\<rparr>))"

definition GetNetworkInfo :: "os_view \<Rightarrow> int \<Rightarrow> int \<Rightarrow> Impl \<Rightarrow> NetworkInterface list \<times> Impl" where
  "GetNetworkInfo v t0 t1 s = (let (x, c) = cached_get (ttl_of s) t0 t1 (FetchNetworkInfo v) (net_cache s) in (x, s\<lparr>net_cache := c\<rparr>))"

definition GetLoadAverage :: "os_view \<Rightarrow> int \<Rightarrow> int \<Rightarrow> Impl \<Rightarrow> LoadAverage \<times> Impl" where
  "GetLoadAverage v t0 t1 s = (let (x, c) = cached_get (ttl_of s) t0 t1 (FetchLoadAverage v) (load_cache s) in (x, s\<lparr>load_cache := c\<rparr>))"

definition GetThermalInfo :: "os_view \<Rightarrow> int \<Rightarrow> int \<Rightarrow> Impl \<Rightarrow> ThermalZone list \<times> Impl" where
  "GetThermalInfo v t0 t1 s = (let (x, c) = cached_get (ttl_of s) t0 t1 (FetchThermalInfo v) (thermal_cache s) in (x, s\<lparr>thermal_cache := c\<rparr>))"

definition GetGpuInfo :: "os_view \<Rightarrow> int \<Rightarrow> int \<Rightarrow> Impl \<Rightarrow> GpuInfo list \<times> Impl" where
  "GetGpuInfo v t0 t1 s = (let (x, c) = cached_get (ttl_of s) t0 t1 (FetchGpuInfo v) (gpu_cache s) in (x, s\<lparr>gpu_cache := c\<rparr>))"

definition GetDockerContainers :: "os_view \<Rightarrow> int \<Rightarrow> int \<Rightarrow> Impl \<Rightarrow> DockerContainer list \<times> Impl" where
  "GetDockerContainers v t0 t1 s = (let (x, c) = cached_get (ttl_of s) t0 t1 (FetchDockerContainers v) (docker_cache s) in (x, s\<lparr>docker_cache := c\<rparr>))"

text \<open>A CPU fetch moves the baseline of the usage; the process fetch may throw, then nothing changes.\<close>

definition GetCpuInfo :: "os_view \<Rightarrow> int \<Rightarrow> int \<Rightarrow> Impl \<Rightarrow> CpuInfo \<times> Impl" where
  "GetCpuInfo v t0 t1 s = (if \<not> IsStale (ttl_of s) t0 (cpu_cache s) then (cached_value (cpu_cache s), s)
     else let (info, snap) = FetchCpuInfo v (prev_cpu_stats s) in (info, s\<lparr>cpu_cache := Cache_Set t1 info (cpu_cache s), prev_cpu_stats := snap\<rparr>))"

definition GetCpuUsage :: "os_view \<Rightarrow> os_view \<Rightarrow> os_view \<Rightarrow> int \<Rightarrow> Impl \<Rightarrow> CpuInfo \<times> Impl" where
  "GetCpuUsage v_before v_after v t1 s = (let before = ParseProcStat v_before; after = ParseProcStat v_after;
     (info0, s1) = (if valid (cpu_cache s) then (cached_value (cpu_cache s), s)
       else let (i, snap) = FetchCpuInfo v (prev_cpu_stats s) in (i, s\<lparr>prev_cpu_stats := snap\<rparr>));
     info = (set_usage after before info0)\<lparr>core_stats := after\<rparr>
     in (info, s1\<lparr>cpu_cache := Cache_Set t1 info (cpu_cache s1)\<rparr>))"

definition GetAllProcesses :: "os_view \<Rightarrow> int \<Rightarrow> int \<Rightarrow> Impl \<Rightarrow> (std_exception + ProcessInfo list) \<times> Impl" where
  "GetAllProcesses v t0 t1 s = (if \<not> IsStale (ttl_of s) t0 (proc_cache s) then (Inr (cached_value (proc_cache s)), s)
     else case FetchAllProcesses v of Inl e \<Rightarrow> (Inl e, s) | Inr ps \<Rightarrow> (Inr ps, s\<lparr>proc_cache := Cache_Set t1 ps (proc_cache s)\<rparr>))"

definition GetTopProcessesByCpu :: "nat \<Rightarrow> os_view \<Rightarrow> int \<Rightarrow> int \<Rightarrow> Impl \<Rightarrow> (std_exception + ProcessInfo list) \<times> Impl" where
  "GetTopProcessesByCpu n v t0 t1 s = apfst (map_sum id (top_processes cpu_before (opts' s) n)) (GetAllProcesses v t0 t1 s)"

definition GetTopProcessesByMemory :: "nat \<Rightarrow> os_view \<Rightarrow> int \<Rightarrow> int \<Rightarrow> Impl \<Rightarrow> (std_exception + ProcessInfo list) \<times> Impl" where
  "GetTopProcessesByMemory n v t0 t1 s = apfst (map_sum id (top_processes memory_before (opts' s) n)) (GetAllProcesses v t0 t1 s)"

definition FindProcesses :: "string \<Rightarrow> os_view \<Rightarrow> int \<Rightarrow> int \<Rightarrow> Impl \<Rightarrow> (std_exception + ProcessInfo list) \<times> Impl" where
  "FindProcesses pattern v t0 t1 s = apfst (map_sum id (matching_processes pattern)) (GetAllProcesses v t0 t1 s)"

definition GetPrimaryIpv4 :: "os_view \<Rightarrow> int \<Rightarrow> int \<Rightarrow> Impl \<Rightarrow> string \<times> Impl" where
  "GetPrimaryIpv4 v t0 t1 s = (case file_text v ''/proc/net/route'' of None \<Rightarrow> ([], s)
     | Some r \<Rightarrow> if default_route (drop 1 (file_lines r)) = [] then ([], s) else apfst (primary_ipv4 v) (GetNetworkInfo v t0 t1 s))"

definition GetPrimaryIpv6 :: "os_view \<Rightarrow> int \<Rightarrow> int \<Rightarrow> Impl \<Rightarrow> string \<times> Impl" where
  "GetPrimaryIpv6 v t0 t1 s = apfst primary_ipv6 (GetNetworkInfo v t0 t1 s)"

definition GetTotalMemoryBytes :: "os_view \<Rightarrow> int \<Rightarrow> int \<Rightarrow> Impl \<Rightarrow> u64 \<times> Impl" where
  "GetTotalMemoryBytes v t0 t1 s = apfst mem_total (GetMemoryInfo v t0 t1 s)"

definition GetAvailableMemoryBytes :: "os_view \<Rightarrow> int \<Rightarrow> int \<Rightarrow> Impl \<Rightarrow> u64 \<times> Impl" where
  "GetAvailableMemoryBytes v t0 t1 s = apfst available (GetMemoryInfo v t0 t1 s)"

text \<open>Moments of the calls that a query makes one after the other.\<close>

type_synonym moment = "os_view \<times> int \<times> int"

record SystemStats =
  st_os :: OsInfo
  st_cpu :: CpuInfo
  st_memory :: MemoryInfo
  st_load :: LoadAverage
  st_partitions :: "DiskPartition list"
  st_interfaces :: "NetworkInterface list"
  st_thermal_zones :: "ThermalZone list"
  snapshot_time :: int

definition at_moment :: "(os_view \<Rightarrow> int \<Rightarrow> int \<Rightarrow> Impl \<Rightarrow> 'a \<times> Impl) \<Rightarrow> moment \<Rightarrow> Impl \<Rightarrow> 'a \<times> Impl" where
  "at_moment get m = (let (v, t0, t1) = m in get v t0 t1)"

definition GetSystemStats :: "(nat \<Rightarrow> moment) \<Rightarrow> int \<Rightarrow> Impl \<Rightarrow> SystemStats \<times> Impl" where
  "GetSystemStats m now s =
    (let (os, s1) = at_moment GetOsInfo (m 0) s; (cpu, s2) = at_moment GetCpuInfo (m 1) s1; (mem, s3) = at_moment GetMemoryInfo (m 2) s2;
       (la, s4) = at_moment GetLoadAverage (m 3) s3; (ps, s5) = at_moment GetDiskInfo (m 4) s4; (is, s6) = at_moment GetNetworkInfo (m 5) s5;
       (zs, s7) = at_moment GetThermalInfo (m 6) s6
     in (\<lparr>st_os = os, st_cpu = cpu, st_memory = mem, st_load = la, st_partitions = ps, st_interfaces = is, st_thermal_zones = zs,
          snapshot_time = now\<rparr>, s7))"

definition summary_line :: "MemoryInfo \<Rightarrow> LoadAverage \<Rightarrow> CpuInfo \<Rightarrow> int \<Rightarrow> string" where
  "summary_line mem la cpu up = ''CPU: '' @ show_fixed 1 (usage_percent cpu) @ ''% | Mem: '' @ FormatBytes (Used mem) @ ''/'' @ FormatBytes (mem_total mem)
     @ '' ('' @ FormatPercent (MemoryInfo_UsedPercent mem) 1 @ '') | Load: '' @ show_fixed 1 (load_one la) @ ''/'' @ show_fixed 1 (load_five la)
     @ ''/'' @ show_fixed 1 (load_fifteen la) @ '' | Up: '' @ FormatUptime up"

definition GetSummaryLine :: "(nat \<Rightarrow> moment) \<Rightarrow> Impl \<Rightarrow> string \<times> Impl" where
  "GetSummaryLine m s = (let (mem, s1) = at_moment GetMemoryInfo (m 0) s; (la, s2) = at_moment GetLoadAverage (m 1) s1;
     (cpu, s3) = at_moment GetCpuInfo (m 2) s2 in (summary_line mem la cpu (SystemInfo_GetUptime (fst (m 3))), s3))"

section \<open>Invalidation and refresh\<close>

definition invalid :: "'a cache_entry \<Rightarrow> 'a cache_entry" where
  "invalid c = c\<lparr>valid := False\<rparr>"

definition InvalidateDomain :: "string \<Rightarrow> Impl \<Rightarrow> Impl" where
  "InvalidateDomain domain s =
    (if domain = ''os'' then s\<lparr>os_cache := invalid (os_cache s)\<rparr>
     else if domain = ''cpu'' then s\<lparr>cpu_cache := invalid (cpu_cache s)\<rparr>
     else if domain = ''memory'' then s\<lparr>mem_cache := invalid (mem_cache s)\<rparr>
     else if domain = ''disk'' then s\<lparr>disk_cache := invalid (disk_cache s)\<rparr>
     else if domain = ''disk_io'' then s\<lparr>disk_io_cache := invalid (disk_io_cache s)\<rparr>
     else if domain = ''network'' then s\<lparr>net_cache := invalid (net_cache s)\<rparr>
     else if domain = ''thermal'' then s\<lparr>thermal_cache := invalid (thermal_cache s)\<rparr>
     else if domain = ''gpu'' then s\<lparr>gpu_cache := invalid (gpu_cache s)\<rparr>
     else if domain = ''processes'' then s\<lparr>proc_cache := invalid (proc_cache s)\<rparr>
     else if domain = ''load'' then s\<lparr>load_cache := invalid (load_cache s)\<rparr>
     else if domain = ''docker'' then s\<lparr>docker_cache := invalid (docker_cache s)\<rparr>
     else s)"

definition InvalidateCache :: "Impl \<Rightarrow> Impl" where
  "InvalidateCache s = fold InvalidateDomain
     [''os'', ''cpu'', ''memory'', ''disk'', ''disk_io'', ''network'', ''thermal'', ''gpu'', ''processes'', ''load'', ''docker''] s"

text \<open>The four critical sections of a round of \<open>RefreshLoop\<close>.\<close>

definition refresh_cpu :: "os_view \<Rightarrow> int \<Rightarrow> Impl \<Rightarrow> Impl" where
  "refresh_cpu v t1 s = (let (info, snap) = FetchCpuInfo v (prev_cpu_stats s) in s\<lparr>cpu_cache := Cache_Set t1 info (cpu_cache s), prev_cpu_stats := snap\<rparr>)"

definition refresh_mem :: "os_view \<Rightarrow> int \<Rightarrow> Impl \<Rightarrow> Impl" where
  "refresh_mem v t1 s = s\<lparr>mem_cache := Cache_Set t1 (FetchMemoryInfo v) (mem_cache s)\<rparr>"

definition refresh_net :: "os_view \<Rightarrow> int \<Rightarrow> Impl \<Rightarrow> Impl" where
  "refresh_net v t1 s = s\<lparr>net_cache := Cache_Set t1 (FetchNetworkInfo v) (net_cache s)\<rparr>"

definition refresh_load :: "os_view \<Rightarrow> int \<Rightarrow> Impl \<Rightarrow> Impl" where
  "refresh_load v t1 s = s\<lparr>load_cache := Cache_Set t1 (FetchLoadAverage v) (load_cache s)\<rparr>"

section \<open>Interleavings\<close>

datatype domain = Os | Cpu | Memory | Disk | Disk_io | Network | Load | Thermal | Gpu | Docker | Processes

text \<open>One critical section of a mutex: a query, a part of a refresh, an invalidation, the end of \<open>GetCpuUsage\<close>.\<close>

datatype info_event = Query domain os_view int int | Refresh domain os_view int | Invalidate domain | Cpu_usage os_view os_view os_view int

fun domain_key :: "domain \<Rightarrow> string" where
  "domain_key Os = ''os''" | "domain_key Cpu = ''cpu''" | "domain_key Memory = ''memory''" | "domain_key Disk = ''disk''"
| "domain_key Disk_io = ''disk_io''" | "domain_key Network = ''network''" | "domain_key Load = ''load''" | "domain_key Thermal = ''thermal''"
| "domain_key Gpu = ''gpu''" | "domain_key Docker = ''docker''" | "domain_key Processes = ''processes''"

fun info_query :: "domain \<Rightarrow> os_view \<Rightarrow> int \<Rightarrow> int \<Rightarrow> Impl \<Rightarrow> Impl" where
  "info_query Os v t0 t1 s = snd (GetOsInfo v t0 t1 s)"
| "info_query Cpu v t0 t1 s = snd (GetCpuInfo v t0 t1 s)"
| "info_query Memory v t0 t1 s = snd (GetMemoryInfo v t0 t1 s)"
| "info_query Disk v t0 t1 s = snd (GetDiskInfo v t0 t1 s)"
| "info_query Disk_io v t0 t1 s = snd (GetDiskIoStats v t0 t1 s)"
| "info_query Network v t0 t1 s = snd (GetNetworkInfo v t0 t1 s)"
| "info_query Load v t0 t1 s = snd (GetLoadAverage v t0 t1 s)"
| "info_query Thermal v t0 t1 s = snd (GetThermalInfo v t0 t1 s)"
| "info_query Gpu v t0 t1 s = snd (GetGpuInfo v t0 t1 s)"
| "info_query Docker v t0 t1 s = snd (GetDockerContainers v t0 t1 s)"
| "info_query Processes v t0 t1 s = snd (GetAllProcesses v t0 t1 s)"

fun info_step :: "info_event \<Rightarrow> Impl \<Rightarrow> Impl" where
  "info_step (Query d v t0 t1) s = info_query d v t0 t1 s"
| "info_step (Refresh d v t1) s = (case d of Cpu \<Rightarrow> refresh_cpu v t1 s | Memory \<Rightarrow> refresh_mem v t1 s
     | Network \<Rightarrow> refresh_net v t1 s | Load \<Rightarrow> refresh_load v t1 s | _ \<Rightarrow> s)"
| "info_step (Invalidate d) s = InvalidateDomain (domain_key d) s"
| "info_step (Cpu_usage v_before v_after v t1) s = snd (GetCpuUsage v_before v_after v t1 s)"

end
