(* ===== verification/System_Cache.thy ===== *)
theory System_Cache
  imports System_Info
begin

text \<open>
  What the caches of \<open>SystemInfo\<close> promise, for every sequence of critical sections of clients and of the refresh thread. The
  locale \<open>cached_domain\<close> states how the events of a domain move its cache, and each of the eleven domains is an instance
  (a fetch of the CPU domain also depends on the previous snapshot, one of the process domain may throw).
\<close>

section \<open>Cached answers\<close>

lemma opts_step [simp]: "opts' (info_step e s) = opts' s"
proof (cases e)
  case (Query d v t0 t1)
  then show ?thesis by (cases d) (simp_all add: GetOsInfo_def GetCpuInfo_def GetMemoryInfo_def GetDiskInfo_def GetDiskIoStats_def GetNetworkInfo_def
    GetLoadAverage_def GetThermalInfo_def GetGpuInfo_def GetDockerContainers_def GetAllProcesses_def split_beta Let_def split: sum.split)
next
  case (Refresh d v t1)
  then show ?thesis by (cases d) (simp_all add: refresh_cpu_def refresh_mem_def refresh_net_def refresh_load_def split_beta Let_def)
next
  case (Invalidate d)
  then show ?thesis by (cases d) (simp_all add: InvalidateDomain_def)
next
  case (Cpu_usage v1 v2 v t1)
  then show ?thesis by (simp add: GetCpuUsage_def split_beta Let_def)
qed

lemma opts_run [simp]: "opts' (fold info_step es s) = opts' s"
  by (induction es arbitrary: s) simp_all

declare info_step.simps [simp del]

text \<open>
  The fetch that an event makes for a domain in a state, with its result and its time: a query fetches when the cache is stale,
  the refresh thread always does, for four domains, and \<open>GetCpuUsage\<close> stores its measurement in the CPU cache. A fetch that
  throws stores nothing.
\<close>

definition refreshed :: "domain \<Rightarrow> bool" where
  "refreshed d \<longleftrightarrow> d \<in> {Cpu, Memory, Network, Load}"

fun sets_to :: "int \<Rightarrow> std_exception + 'a \<Rightarrow> ('a \<times> int) option" where
  "sets_to t (Inr x) = Some (x, t)"
| "sets_to t (Inl e) = None"

fun fetches :: "domain \<Rightarrow> (Impl \<Rightarrow> 'a cache_entry) \<Rightarrow> (os_view \<Rightarrow> Impl \<Rightarrow> std_exception + 'a) \<Rightarrow>
    (os_view \<Rightarrow> os_view \<Rightarrow> os_view \<Rightarrow> int \<Rightarrow> Impl \<Rightarrow> 'a option) \<Rightarrow> info_event \<Rightarrow> Impl \<Rightarrow> ('a \<times> int) option" where
  "fetches d cache fetch measured_of (Query f v t0 t1) s = (if f = d \<and> IsStale (ttl_of s) t0 (cache s) then sets_to t1 (fetch v s) else None)"
| "fetches d cache fetch measured_of (Refresh f v t1) s = (if f = d \<and> refreshed d then sets_to t1 (fetch v s) else None)"
| "fetches d cache fetch measured_of (Invalidate f) s = None"
| "fetches d cache fetch measured_of (Cpu_usage v1 v2 v t1) s = map_option (\<lambda>x. (x, t1)) (measured_of v1 v2 v t1 s)"

text \<open>Events that may happen while the fetch of time \<open>t\<close> stays the answer: everything but an invalidation of the domain, a fetch
  of the refresh thread or a measurement for it, and a query of it that starts after the time to live.\<close>

fun lets_live :: "domain \<Rightarrow> int \<Rightarrow> int \<Rightarrow> info_event \<Rightarrow> bool" where
  "lets_live d ttl t (Query f v t0 t1) \<longleftrightarrow> (f = d \<longrightarrow> t0 - t \<le> ttl)"
| "lets_live d ttl t (Refresh f v t1) \<longleftrightarrow> f \<noteq> d \<or> \<not> refreshed d"
| "lets_live d ttl t (Invalidate f) \<longleftrightarrow> f \<noteq> d"
| "lets_live d ttl t (Cpu_usage v1 v2 v t1) \<longleftrightarrow> d \<noteq> Cpu"

text \<open>What a query promises after every sequence of events: its answer is the fetch of this call, or that of an earlier event
  that is not older than the time to live and after the last invalidation; and a fetch is the answer of every query that
  starts within its time to live, whatever events happened in between, as long as they let it live.\<close>

definition answers_from_cache :: "domain \<Rightarrow> (Impl \<Rightarrow> 'a cache_entry) \<Rightarrow> (os_view \<Rightarrow> Impl \<Rightarrow> std_exception + 'a) \<Rightarrow>
    (os_view \<Rightarrow> os_view \<Rightarrow> os_view \<Rightarrow> int \<Rightarrow> Impl \<Rightarrow> 'a option) \<Rightarrow>
    (os_view \<Rightarrow> int \<Rightarrow> int \<Rightarrow> Impl \<Rightarrow> (std_exception + 'a) \<times> Impl) \<Rightarrow> Impl \<Rightarrow> bool" where
  "answers_from_cache d cache fetch measured_of get s \<longleftrightarrow>
    (\<forall>es v t0 t1. let s' = fold info_step es s; x = fst (get v t0 t1 s') in
       x = fetch v s' \<or>
       (\<exists>es1 e es2 y t. es = es1 @ e # es2 \<and> x = Inr y \<and> fetches d cache fetch measured_of e (fold info_step es1 s) = Some (y, t) \<and>
          Invalidate d \<notin> set es2 \<and> t0 - t \<le> ttl_of s \<and> ttl_of s \<noteq> 0)) \<and>
    (\<forall>es1 e es2 y t v t0 t1.
       fetches d cache fetch measured_of e (fold info_step es1 s) = Some (y, t) \<and> list_all (lets_live d (ttl_of s) t) es2 \<and>
       t0 - t \<le> ttl_of s \<and> ttl_of s \<noteq> 0 \<longrightarrow>
       fst (get v t0 t1 (fold info_step (es1 @ e # es2) s)) = Inr y)"

text \<open>A domain whose events move its cache as the code of the query says: the query answers from the cache, and only its own
  fetches and its invalidation touch it.\<close>

locale cached_domain =
  fixes d :: domain
    and cache :: "Impl \<Rightarrow> 'a cache_entry"
    and fetch :: "os_view \<Rightarrow> Impl \<Rightarrow> std_exception + 'a"
    and measured_of :: "os_view \<Rightarrow> os_view \<Rightarrow> os_view \<Rightarrow> int \<Rightarrow> Impl \<Rightarrow> 'a option"
    and get :: "os_view \<Rightarrow> int \<Rightarrow> int \<Rightarrow> Impl \<Rightarrow> (std_exception + 'a) \<times> Impl"
  assumes answer: "fst (get v t0 t1 s) = (if IsStale (ttl_of s) t0 (cache s) then fetch v s else Inr (cached_value (cache s)))"
    and moves: "cache (info_step e s) = (if e = Invalidate d then invalid (cache s)
      else case fetches d cache fetch measured_of e s of None \<Rightarrow> cache s | Some (x, t) \<Rightarrow> Cache_Set t x (cache s))"
    and unmeasured_unless_cpu: "d \<noteq> Cpu \<Longrightarrow> measured_of v1 v2 v t1 s = None"
begin

definition origin :: "Impl \<Rightarrow> info_event list \<Rightarrow> bool" where
  "origin s es \<longleftrightarrow> (let c = cache (fold info_step es s) in valid c \<longrightarrow> (\<exists>es1 e es2. es = es1 @ e # es2 \<and>
     fetches d cache fetch measured_of e (fold info_step es1 s) = Some (cached_value c, fetched_at c) \<and> Invalidate d \<notin> set es2))"

lemma origin_step:
  assumes "origin s es"
  shows "origin s (es @ [e])"
proof -
  let ?s = "fold info_step es s" and ?c = "cache (fold info_step (es @ [e]) s)"
  have c: "?c = cache (info_step e ?s)" by simp
  show ?thesis
  proof (cases "fetches d cache fetch measured_of e ?s")
    case None
    show ?thesis
    proof (cases "e = Invalidate d")
      case True
      then show ?thesis by (simp add: origin_def Let_def moves invalid_def)
    next
      case False
      then have keep: "?c = cache ?s" by (simp add: moves None)
      show ?thesis unfolding origin_def Let_def keep
      proof
        assume "valid (cache ?s)"
        then obtain es1 e' es2 where o': "es = es1 @ e' # es2"
            "fetches d cache fetch measured_of e' (fold info_step es1 s) = Some (cached_value (cache ?s), fetched_at (cache ?s))" "Invalidate d \<notin> set es2"
          using assms by (auto simp: origin_def Let_def)
        then have "es @ [e] = es1 @ e' # (es2 @ [e])" "Invalidate d \<notin> set (es2 @ [e])" using False by simp_all
        with o'(2) show "\<exists>es1 e' es2. es @ [e] = es1 @ e' # es2 \<and>
            fetches d cache fetch measured_of e' (fold info_step es1 s) = Some (cached_value (cache ?s), fetched_at (cache ?s)) \<and> Invalidate d \<notin> set es2" by blast
      qed
    qed
  next
    case (Some xt)
    obtain x t where xt: "xt = (x, t)" by force
    have "e \<noteq> Invalidate d" using Some by auto
    then have "?c = Cache_Set t x (cache ?s)" by (simp add: moves Some xt)
    then have "fetches d cache fetch measured_of e ?s = Some (cached_value ?c, fetched_at ?c)" using Some xt by (simp add: Cache_Set_def)
    moreover have "es @ [e] = es @ e # []" "Invalidate d \<notin> set []" by simp_all
    ultimately show ?thesis unfolding origin_def Let_def by blast
  qed
qed

lemma origin_run: "\<not> valid (cache s) \<Longrightarrow> origin s es"
proof (induction es rule: rev_induct)
  case (snoc e es)
  then show ?case using origin_step by blast
qed (simp add: origin_def)

lemma answer_fresh:
  assumes "\<not> valid (cache s)" "fst (get v t0 t1 (fold info_step es s)) \<noteq> fetch v (fold info_step es s)"
  shows "\<exists>es1 e es2 y t. es = es1 @ e # es2 \<and> fst (get v t0 t1 (fold info_step es s)) = Inr y \<and>
    fetches d cache fetch measured_of e (fold info_step es1 s) = Some (y, t) \<and> Invalidate d \<notin> set es2 \<and> t0 - t \<le> ttl_of s \<and> ttl_of s \<noteq> 0"
proof -
  let ?c = "cache (fold info_step es s)"
  from assms(2) have f: "\<not> IsStale (ttl_of s) t0 ?c" "fst (get v t0 t1 (fold info_step es s)) = Inr (cached_value ?c)"
    by (auto simp: answer split: if_splits)
  from f(1) have v: "valid ?c" "ttl_of s \<noteq> 0" "t0 - fetched_at ?c \<le> ttl_of s" by (auto simp: IsStale_def split: if_splits)
  from origin_run [OF assms(1), of es] v(1) obtain es1 e es2 where "es = es1 @ e # es2"
      "fetches d cache fetch measured_of e (fold info_step es1 s) = Some (cached_value ?c, fetched_at ?c)" "Invalidate d \<notin> set es2"
    unfolding origin_def Let_def by blast
  with f(2) v(2,3) show ?thesis by blast
qed

lemma fresh_entry: "valid c \<Longrightarrow> ttl \<noteq> 0 \<Longrightarrow> t0 - fetched_at c \<le> ttl \<Longrightarrow> \<not> IsStale ttl t0 c"
  by (simp add: IsStale_def)

lemma kept_step:
  assumes "lets_live d (ttl_of s) (fetched_at (cache s)) e" "valid (cache s)" "ttl_of s \<noteq> 0"
  shows "cache (info_step e s) = cache s"
proof (cases e)
  case (Query f v t0 t1)
  then show ?thesis using assms fresh_entry [OF assms(2,3), of t0] by (auto simp: moves)
next
  case (Cpu_usage v1 v2 v t1)
  then show ?thesis using assms(1) unmeasured_unless_cpu by (simp add: moves)
qed (use assms in \<open>auto simp: moves\<close>)

lemma kept:
  "list_all (lets_live d (ttl_of s) (fetched_at (cache s))) es \<Longrightarrow> valid (cache s) \<Longrightarrow> ttl_of s \<noteq> 0 \<Longrightarrow> cache (fold info_step es s) = cache s"
proof (induction es arbitrary: s)
  case (Cons e es)
  then have "cache (info_step e s) = cache s" by (simp add: kept_step)
  with Cons show ?case by simp
qed simp

lemma answer_again:
  assumes "fetches d cache fetch measured_of e s = Some (y, t)" "list_all (lets_live d (ttl_of s) t) es" "t0 - t \<le> ttl_of s" "ttl_of s \<noteq> 0"
  shows "fst (get v t0 t1 (fold info_step es (info_step e s))) = Inr y"
proof -
  have "e \<noteq> Invalidate d" using assms(1) by auto
  then have c: "cache (info_step e s) = Cache_Set t y (cache s)" by (simp add: moves assms(1))
  have "cache (fold info_step es (info_step e s)) = Cache_Set t y (cache s)"
    using kept [of "info_step e s" es] assms(2,4) by (simp add: c Cache_Set_def)
  then show ?thesis using assms(3,4) by (simp add: answer IsStale_def Cache_Set_def)
qed

lemma answers:
  assumes "\<not> valid (cache s)"
  shows "answers_from_cache d cache fetch measured_of get s"
  unfolding answers_from_cache_def Let_def
proof (intro conjI allI impI)
  fix es v t0 t1
  show "fst (get v t0 t1 (fold info_step es s)) = fetch v (fold info_step es s) \<or>
    (\<exists>es1 e es2 y t. es = es1 @ e # es2 \<and> fst (get v t0 t1 (fold info_step es s)) = Inr y \<and>
      fetches d cache fetch measured_of e (fold info_step es1 s) = Some (y, t) \<and> Invalidate d \<notin> set es2 \<and> t0 - t \<le> ttl_of s \<and> ttl_of s \<noteq> 0)"
    using answer_fresh [OF assms] by blast
next
  fix es1 e es2 y t v t0 t1
  assume "fetches d cache fetch measured_of e (fold info_step es1 s) = Some (y, t) \<and> list_all (lets_live d (ttl_of s) t) es2 \<and>
    t0 - t \<le> ttl_of s \<and> ttl_of s \<noteq> 0"
  then show "fst (get v t0 t1 (fold info_step (es1 @ e # es2) s)) = Inr y"
    using answer_again [of e "fold info_step es1 s" y t es2 t0 v t1] by simp
qed

end

lemmas query_defs = GetOsInfo_def GetMemoryInfo_def GetDiskInfo_def GetDiskIoStats_def GetNetworkInfo_def GetLoadAverage_def GetThermalInfo_def
  GetGpuInfo_def GetDockerContainers_def GetCpuInfo_def GetAllProcesses_def

lemmas refresh_defs = refresh_cpu_def refresh_mem_def refresh_net_def refresh_load_def

text \<open>What belongs to other domains leaves a cache alone.\<close>

lemma query_keeps:
  "e \<noteq> Os \<Longrightarrow> os_cache (info_query e v t0 t1 s) = os_cache s"
  "e \<noteq> Memory \<Longrightarrow> mem_cache (info_query e v t0 t1 s) = mem_cache s"
  "e \<noteq> Disk \<Longrightarrow> disk_cache (info_query e v t0 t1 s) = disk_cache s"
  "e \<noteq> Disk_io \<Longrightarrow> disk_io_cache (info_query e v t0 t1 s) = disk_io_cache s"
  "e \<noteq> Network \<Longrightarrow> net_cache (info_query e v t0 t1 s) = net_cache s"
  "e \<noteq> Load \<Longrightarrow> load_cache (info_query e v t0 t1 s) = load_cache s"
  "e \<noteq> Thermal \<Longrightarrow> thermal_cache (info_query e v t0 t1 s) = thermal_cache s"
  "e \<noteq> Gpu \<Longrightarrow> gpu_cache (info_query e v t0 t1 s) = gpu_cache s"
  "e \<noteq> Docker \<Longrightarrow> docker_cache (info_query e v t0 t1 s) = docker_cache s"
  by (cases e; simp add: query_defs split_beta Let_def split: sum.split)+

lemma refresh_keeps:
  "e \<noteq> Os \<Longrightarrow> os_cache (info_step (Refresh e v t1) s) = os_cache s"
  "e \<noteq> Memory \<Longrightarrow> mem_cache (info_step (Refresh e v t1) s) = mem_cache s"
  "e \<noteq> Disk \<Longrightarrow> disk_cache (info_step (Refresh e v t1) s) = disk_cache s"
  "e \<noteq> Disk_io \<Longrightarrow> disk_io_cache (info_step (Refresh e v t1) s) = disk_io_cache s"
  "e \<noteq> Network \<Longrightarrow> net_cache (info_step (Refresh e v t1) s) = net_cache s"
  "e \<noteq> Load \<Longrightarrow> load_cache (info_step (Refresh e v t1) s) = load_cache s"
  "e \<noteq> Thermal \<Longrightarrow> thermal_cache (info_step (Refresh e v t1) s) = thermal_cache s"
  "e \<noteq> Gpu \<Longrightarrow> gpu_cache (info_step (Refresh e v t1) s) = gpu_cache s"
  "e \<noteq> Docker \<Longrightarrow> docker_cache (info_step (Refresh e v t1) s) = docker_cache s"
  by (cases e; simp add: info_step.simps refresh_defs split_beta Let_def)+

text \<open>Nothing but its own events touches the process cache.\<close>

lemma processes_keep:
  "e \<noteq> Processes \<Longrightarrow> proc_cache (info_query e v t0 t1 s) = proc_cache s"
  "proc_cache (info_step (Refresh e v t1) s) = proc_cache s"
  "e \<noteq> Processes \<Longrightarrow> proc_cache (InvalidateDomain (domain_key e) s) = proc_cache s"
  "proc_cache (snd (GetCpuUsage v1 v2 v t1 s)) = proc_cache s"
  "proc_cache (InvalidateDomain ''processes'' s) = invalid (proc_cache s)"
  by (cases e; simp add: query_defs info_step.simps refresh_defs InvalidateDomain_def GetCpuUsage_def split_beta Let_def)+

text \<open>Nor the CPU cache, which \<open>GetCpuUsage\<close> sets to what it answers.\<close>

lemma cpu_keep:
  "e \<noteq> Cpu \<Longrightarrow> cpu_cache (info_query e v t0 t1 s) = cpu_cache s"
  "e \<noteq> Cpu \<Longrightarrow> cpu_cache (info_step (Refresh e v t1) s) = cpu_cache s"
  "e \<noteq> Cpu \<Longrightarrow> cpu_cache (InvalidateDomain (domain_key e) s) = cpu_cache s"
  "cpu_cache (snd (GetCpuUsage v1 v2 v t1 s)) = Cache_Set t1 (fst (GetCpuUsage v1 v2 v t1 s)) (cpu_cache s)"
  "cpu_cache (InvalidateDomain ''cpu'' s) = invalid (cpu_cache s)"
  by (cases e; simp add: query_defs info_step.simps refresh_defs InvalidateDomain_def GetCpuUsage_def split_beta Let_def split: sum.split)+

lemma invalidate_keeps:
  "e \<noteq> Os \<Longrightarrow> os_cache (InvalidateDomain (domain_key e) s) = os_cache s"
  "e \<noteq> Memory \<Longrightarrow> mem_cache (InvalidateDomain (domain_key e) s) = mem_cache s"
  "e \<noteq> Disk \<Longrightarrow> disk_cache (InvalidateDomain (domain_key e) s) = disk_cache s"
  "e \<noteq> Disk_io \<Longrightarrow> disk_io_cache (InvalidateDomain (domain_key e) s) = disk_io_cache s"
  "e \<noteq> Network \<Longrightarrow> net_cache (InvalidateDomain (domain_key e) s) = net_cache s"
  "e \<noteq> Load \<Longrightarrow> load_cache (InvalidateDomain (domain_key e) s) = load_cache s"
  "e \<noteq> Thermal \<Longrightarrow> thermal_cache (InvalidateDomain (domain_key e) s) = thermal_cache s"
  "e \<noteq> Gpu \<Longrightarrow> gpu_cache (InvalidateDomain (domain_key e) s) = gpu_cache s"
  "e \<noteq> Docker \<Longrightarrow> docker_cache (InvalidateDomain (domain_key e) s) = docker_cache s"
  by (cases e; simp add: InvalidateDomain_def)+

lemma usage_keeps:
  "os_cache (snd (GetCpuUsage v1 v2 v t1 s)) = os_cache s"
  "mem_cache (snd (GetCpuUsage v1 v2 v t1 s)) = mem_cache s"
  "disk_cache (snd (GetCpuUsage v1 v2 v t1 s)) = disk_cache s"
  "disk_io_cache (snd (GetCpuUsage v1 v2 v t1 s)) = disk_io_cache s"
  "net_cache (snd (GetCpuUsage v1 v2 v t1 s)) = net_cache s"
  "load_cache (snd (GetCpuUsage v1 v2 v t1 s)) = load_cache s"
  "thermal_cache (snd (GetCpuUsage v1 v2 v t1 s)) = thermal_cache s"
  "gpu_cache (snd (GetCpuUsage v1 v2 v t1 s)) = gpu_cache s"
  "docker_cache (snd (GetCpuUsage v1 v2 v t1 s)) = docker_cache s"
  by (simp_all add: GetCpuUsage_def split_beta Let_def)

lemma invalidate_own:
  "os_cache (InvalidateDomain ''os'' s) = invalid (os_cache s)"
  "mem_cache (InvalidateDomain ''memory'' s) = invalid (mem_cache s)"
  "disk_cache (InvalidateDomain ''disk'' s) = invalid (disk_cache s)"
  "disk_io_cache (InvalidateDomain ''disk_io'' s) = invalid (disk_io_cache s)"
  "net_cache (InvalidateDomain ''network'' s) = invalid (net_cache s)"
  "load_cache (InvalidateDomain ''load'' s) = invalid (load_cache s)"
  "thermal_cache (InvalidateDomain ''thermal'' s) = invalid (thermal_cache s)"
  "gpu_cache (InvalidateDomain ''gpu'' s) = invalid (gpu_cache s)"
  "docker_cache (InvalidateDomain ''docker'' s) = invalid (docker_cache s)"
  by (simp_all add: InvalidateDomain_def)

lemmas keeps = invalidate_own query_keeps refresh_keeps invalidate_keeps usage_keeps processes_keep cpu_keep

text \<open>A query that cannot throw, and a domain without measurements.\<close>

definition sure :: "(os_view \<Rightarrow> int \<Rightarrow> int \<Rightarrow> Impl \<Rightarrow> 'a \<times> Impl) \<Rightarrow> os_view \<Rightarrow> int \<Rightarrow> int \<Rightarrow> Impl \<Rightarrow> (std_exception + 'a) \<times> Impl" where
  "sure get v t0 t1 s = apfst Inr (get v t0 t1 s)"

definition unmeasured :: "os_view \<Rightarrow> os_view \<Rightarrow> os_view \<Rightarrow> int \<Rightarrow> Impl \<Rightarrow> 'a option" where
  "unmeasured v1 v2 v t1 s = None"

text \<open>The events of a domain, and those of others.\<close>

lemma domain_event_cases:
  fixes d :: domain
  obtains (query) v t0 t1 where "e = Query d v t0 t1" | (refresh) v t1 where "e = Refresh d v t1" | (invalidate) "e = Invalidate d"
    | (other_query) f v t0 t1 where "e = Query f v t0 t1" "f \<noteq> d" | (other_refresh) f v t1 where "e = Refresh f v t1" "f \<noteq> d"
    | (other_invalidate) f where "e = Invalidate f" "f \<noteq> d" | (usage) v1 v2 v t1 where "e = Cpu_usage v1 v2 v t1"
  by (cases e) metis+

lemmas domain_laws = keeps [unfolded info_step.simps] info_step.simps query_defs refresh_defs sure_def unmeasured_def cached_get_def refreshed_def
  split_beta Let_def Cache_Set_def

interpretation os_domain: cached_domain Os os_cache "\<lambda>v s. Inr (FetchOsInfo v)" unmeasured "sure GetOsInfo"
proof
  show "os_cache (info_step e s) = (if e = Invalidate Os then invalid (os_cache s)
      else case fetches Os os_cache (\<lambda>v s. Inr (FetchOsInfo v)) unmeasured
        e s of None \<Rightarrow> os_cache s | Some (x, t) \<Rightarrow> Cache_Set t x (os_cache s))" for e s
    by (cases e rule: domain_event_cases [where d = Os]) (simp_all add: domain_laws)
qed (simp_all add: domain_laws)

interpretation memory_domain: cached_domain Memory mem_cache "\<lambda>v s. Inr (FetchMemoryInfo v)" unmeasured "sure GetMemoryInfo"
proof
  show "mem_cache (info_step e s) = (if e = Invalidate Memory then invalid (mem_cache s)
      else case fetches Memory mem_cache (\<lambda>v s. Inr (FetchMemoryInfo v)) unmeasured
        e s of None \<Rightarrow> mem_cache s | Some (x, t) \<Rightarrow> Cache_Set t x (mem_cache s))" for e s
    by (cases e rule: domain_event_cases [where d = Memory]) (simp_all add: domain_laws)
qed (simp_all add: domain_laws)

interpretation disk_domain: cached_domain Disk disk_cache "\<lambda>v s. Inr (FetchDiskInfo v (opts' s))" unmeasured "sure GetDiskInfo"
proof
  show "disk_cache (info_step e s) = (if e = Invalidate Disk then invalid (disk_cache s)
      else case fetches Disk disk_cache (\<lambda>v s. Inr (FetchDiskInfo v (opts' s))) unmeasured
        e s of None \<Rightarrow> disk_cache s | Some (x, t) \<Rightarrow> Cache_Set t x (disk_cache s))" for e s
    by (cases e rule: domain_event_cases [where d = Disk]) (simp_all add: domain_laws)
qed (simp_all add: domain_laws)

interpretation disk_io_domain: cached_domain Disk_io disk_io_cache "\<lambda>v s. Inr (FetchDiskIoStats v)" unmeasured "sure GetDiskIoStats"
proof
  show "disk_io_cache (info_step e s) = (if e = Invalidate Disk_io then invalid (disk_io_cache s)
      else case fetches Disk_io disk_io_cache (\<lambda>v s. Inr (FetchDiskIoStats v)) unmeasured
        e s of None \<Rightarrow> disk_io_cache s | Some (x, t) \<Rightarrow> Cache_Set t x (disk_io_cache s))" for e s
    by (cases e rule: domain_event_cases [where d = Disk_io]) (simp_all add: domain_laws)
qed (simp_all add: domain_laws)

interpretation network_domain: cached_domain Network net_cache "\<lambda>v s. Inr (FetchNetworkInfo v)" unmeasured "sure GetNetworkInfo"
proof
  show "net_cache (info_step e s) = (if e = Invalidate Network then invalid (net_cache s)
      else case fetches Network net_cache (\<lambda>v s. Inr (FetchNetworkInfo v)) unmeasured
        e s of None \<Rightarrow> net_cache s | Some (x, t) \<Rightarrow> Cache_Set t x (net_cache s))" for e s
    by (cases e rule: domain_event_cases [where d = Network]) (simp_all add: domain_laws)
qed (simp_all add: domain_laws)

interpretation load_domain: cached_domain Load load_cache "\<lambda>v s. Inr (FetchLoadAverage v)" unmeasured "sure GetLoadAverage"
proof
  show "load_cache (info_step e s) = (if e = Invalidate Load then invalid (load_cache s)
      else case fetches Load load_cache (\<lambda>v s. Inr (FetchLoadAverage v)) unmeasured
        e s of None \<Rightarrow> load_cache s | Some (x, t) \<Rightarrow> Cache_Set t x (load_cache s))" for e s
    by (cases e rule: domain_event_cases [where d = Load]) (simp_all add: domain_laws)
qed (simp_all add: domain_laws)

interpretation thermal_domain: cached_domain Thermal thermal_cache "\<lambda>v s. Inr (FetchThermalInfo v)" unmeasured "sure GetThermalInfo"
proof
  show "thermal_cache (info_step e s) = (if e = Invalidate Thermal then invalid (thermal_cache s)
      else case fetches Thermal thermal_cache (\<lambda>v s. Inr (FetchThermalInfo v)) unmeasured
        e s of None \<Rightarrow> thermal_cache s | Some (x, t) \<Rightarrow> Cache_Set t x (thermal_cache s))" for e s
    by (cases e rule: domain_event_cases [where d = Thermal]) (simp_all add: domain_laws)
qed (simp_all add: domain_laws)

interpretation gpu_domain: cached_domain Gpu gpu_cache "\<lambda>v s. Inr (FetchGpuInfo v)" unmeasured "sure GetGpuInfo"
proof
  show "gpu_cache (info_step e s) = (if e = Invalidate Gpu then invalid (gpu_cache s)
      else case fetches Gpu gpu_cache (\<lambda>v s. Inr (FetchGpuInfo v)) unmeasured
        e s of None \<Rightarrow> gpu_cache s | Some (x, t) \<Rightarrow> Cache_Set t x (gpu_cache s))" for e s
    by (cases e rule: domain_event_cases [where d = Gpu]) (simp_all add: domain_laws)
qed (simp_all add: domain_laws)

interpretation docker_domain: cached_domain Docker docker_cache "\<lambda>v s. Inr (FetchDockerContainers v)" unmeasured "sure GetDockerContainers"
proof
  show "docker_cache (info_step e s) = (if e = Invalidate Docker then invalid (docker_cache s)
      else case fetches Docker docker_cache (\<lambda>v s. Inr (FetchDockerContainers v)) unmeasured
        e s of None \<Rightarrow> docker_cache s | Some (x, t) \<Rightarrow> Cache_Set t x (docker_cache s))" for e s
    by (cases e rule: domain_event_cases [where d = Docker]) (simp_all add: domain_laws)
qed (simp_all add: domain_laws)


interpretation cpu_domain: cached_domain Cpu cpu_cache
    "\<lambda>v s. Inr (fst (FetchCpuInfo v (prev_cpu_stats s)))" "\<lambda>v1 v2 v t1 s. Some (fst (GetCpuUsage v1 v2 v t1 s))" "sure GetCpuInfo"
proof
  show "cpu_cache (info_step e s) = (if e = Invalidate Cpu then invalid (cpu_cache s)
      else case fetches Cpu cpu_cache (\<lambda>v s. Inr (fst (FetchCpuInfo v (prev_cpu_stats s)))) (\<lambda>v1 v2 v t1 s. Some (fst (GetCpuUsage v1 v2 v t1 s)))
        e s of None \<Rightarrow> cpu_cache s | Some (x, t) \<Rightarrow> Cache_Set t x (cpu_cache s))" for e s
    by (cases e rule: domain_event_cases [where d = Cpu]) (simp_all add: domain_laws split: sum.split)
qed (simp_all add: domain_laws split: sum.split)

interpretation processes_domain: cached_domain Processes proc_cache "\<lambda>v s. FetchAllProcesses v" unmeasured GetAllProcesses
proof
  show "proc_cache (info_step e s) = (if e = Invalidate Processes then invalid (proc_cache s)
      else case fetches Processes proc_cache (\<lambda>v s. FetchAllProcesses v) unmeasured
        e s of None \<Rightarrow> proc_cache s | Some (x, t) \<Rightarrow> Cache_Set t x (proc_cache s))" for e s
    by (cases e rule: domain_event_cases [where d = Processes]) (simp_all add: domain_laws split: sum.split)
qed (simp_all add: domain_laws split: sum.split)

text \<open>
  C18. For each of the eleven cached queries, after every sequence of critical sections of clients and of the refresh thread:
  the answer is the fetch of this call, or what one earlier event of the domain stored (a query that found its cache stale, the
  refresh thread, for the CPU \<open>GetCpuUsage\<close>), neither older than the time to live nor from before the last
  invalidation; and what an event stored is the answer of every query that starts within the time to live, whatever happened
  in between, as long as the domain was not invalidated, refreshed or measured and its queries started within the time to live.
\<close>

theorem cached_answers_are_fresh:
  "let s = SystemInfo_new o' v0 in
   answers_from_cache Os os_cache (\<lambda>v s. Inr (FetchOsInfo v)) unmeasured (sure GetOsInfo) s \<and>
   answers_from_cache Cpu cpu_cache (\<lambda>v s. Inr (fst (FetchCpuInfo v (prev_cpu_stats s))))
     (\<lambda>v1 v2 v t1 s. Some (fst (GetCpuUsage v1 v2 v t1 s))) (sure GetCpuInfo) s \<and>
   answers_from_cache Memory mem_cache (\<lambda>v s. Inr (FetchMemoryInfo v)) unmeasured (sure GetMemoryInfo) s \<and>
   answers_from_cache Disk disk_cache (\<lambda>v s. Inr (FetchDiskInfo v (opts' s))) unmeasured (sure GetDiskInfo) s \<and>
   answers_from_cache Disk_io disk_io_cache (\<lambda>v s. Inr (FetchDiskIoStats v)) unmeasured (sure GetDiskIoStats) s \<and>
   answers_from_cache Network net_cache (\<lambda>v s. Inr (FetchNetworkInfo v)) unmeasured (sure GetNetworkInfo) s \<and>
   answers_from_cache Load load_cache (\<lambda>v s. Inr (FetchLoadAverage v)) unmeasured (sure GetLoadAverage) s \<and>
   answers_from_cache Thermal thermal_cache (\<lambda>v s. Inr (FetchThermalInfo v)) unmeasured (sure GetThermalInfo) s \<and>
   answers_from_cache Gpu gpu_cache (\<lambda>v s. Inr (FetchGpuInfo v)) unmeasured (sure GetGpuInfo) s \<and>
   answers_from_cache Docker docker_cache (\<lambda>v s. Inr (FetchDockerContainers v)) unmeasured (sure GetDockerContainers) s \<and>
   answers_from_cache Processes proc_cache (\<lambda>v s. FetchAllProcesses v) unmeasured GetAllProcesses s"
proof -
  let ?s = "SystemInfo_new o' v0"
  have "\<not> valid (os_cache ?s)" "\<not> valid (cpu_cache ?s)" "\<not> valid (mem_cache ?s)" "\<not> valid (disk_cache ?s)"
    "\<not> valid (disk_io_cache ?s)" "\<not> valid (net_cache ?s)" "\<not> valid (load_cache ?s)" "\<not> valid (thermal_cache ?s)"
    "\<not> valid (gpu_cache ?s)" "\<not> valid (docker_cache ?s)" "\<not> valid (proc_cache ?s)"
    by (simp_all add: SystemInfo_new_def empty_entry_def)
  then show ?thesis unfolding Let_def
    by (intro conjI os_domain.answers cpu_domain.answers memory_domain.answers disk_domain.answers disk_io_domain.answers
      network_domain.answers load_domain.answers thermal_domain.answers gpu_domain.answers docker_domain.answers
      processes_domain.answers)
qed

end
