(* ===== verification/System_Refresh.thy ===== *)
theory System_Refresh
  imports Lock_Contract
begin

text \<open>
  The background thread of \<open>SystemInfo\<close> (system/system_info.cc): starting, stopping, the refresh loop. Atomic steps are the
  accesses of the flag and of the member \<open>refresh_thread\<close>; the fetches of a round are the events \<open>Refresh\<close> of
  \<open>System_Info\<close>. The \<open>unique_ptr\<close> to the implementation is taken to be set: a moved-from object has none.
\<close>

section \<open>The refresh thread\<close>

text \<open>Life of the background refresh: the atomic flag, the member \<open>refresh_thread\<close> (the number of the thread it stands for,
  None when it is not joinable), the threads that were started, and where each calling client is.\<close>

datatype loop_pc = Testing | Sleeping | Retesting | Fetching | Loop_exited

datatype caller_pc = Idle | Spawning | Testing_joinable | Joining nat

record refresh_sys =
  refresh_running :: bool
  refresh_thread :: "nat option"
  loops :: "loop_pc list"
  callers :: "caller_pc list"

definition refresh_init :: "nat \<Rightarrow> refresh_sys" where
  "refresh_init n = \<lparr>refresh_running = False, refresh_thread = None, loops = [], callers = replicate n Idle\<rparr>"

datatype refresh_event = StartBackgroundRefresh nat | StopBackgroundRefresh nat | Caller_step nat | Loop_step nat

definition set_caller :: "nat \<Rightarrow> caller_pc \<Rightarrow> refresh_sys \<Rightarrow> refresh_sys" where
  "set_caller c pc s = s\<lparr>callers := (callers s)[c := pc]\<rparr>"

text \<open>\<open>RefreshLoop\<close>: \<open>while\<close> test, sleep, second test, the four fetches.\<close>

definition loop_next :: "bool \<Rightarrow> loop_pc \<Rightarrow> loop_pc" where
  "loop_next running pc = (case pc of Testing \<Rightarrow> if running then Sleeping else Loop_exited | Sleeping \<Rightarrow> Retesting
     | Retesting \<Rightarrow> if running then Fetching else Loop_exited | Fetching \<Rightarrow> Testing | Loop_exited \<Rightarrow> Loop_exited)"

text \<open>Assigning to a joinable \<open>std::thread\<close> calls \<open>std::terminate\<close>; joining a thread that another caller has joined is undefined.\<close>

fun refresh_step :: "refresh_event \<Rightarrow> refresh_sys \<Rightarrow> refresh_sys result" where
  "refresh_step (StartBackgroundRefresh c) s = Inr (if refresh_running s then s else set_caller c Spawning (s\<lparr>refresh_running := True\<rparr>))"
| "refresh_step (StopBackgroundRefresh c) s = Inr (set_caller c Testing_joinable (s\<lparr>refresh_running := False\<rparr>))"
| "refresh_step (Caller_step c) s = (case callers s ! c of
     Spawning \<Rightarrow> if refresh_thread s \<noteq> None then Inl Terminated
       else Inr (set_caller c Idle (s\<lparr>refresh_thread := Some (length (loops s)), loops := loops s @ [Testing]\<rparr>))
   | Testing_joinable \<Rightarrow> Inr (set_caller c (case refresh_thread s of None \<Rightarrow> Idle | Some t \<Rightarrow> Joining t) s)
   | Joining t \<Rightarrow> if refresh_thread s = None then Inl UndefinedBehaviour else Inr (set_caller c Idle (s\<lparr>refresh_thread := None\<rparr>))
   | _ \<Rightarrow> Inr s)"
| "refresh_step (Loop_step t) s = Inr (s\<lparr>loops := (loops s)[t := loop_next (refresh_running s) (loops s ! t)]\<rparr>)"


definition refresh_ready :: "refresh_event \<Rightarrow> refresh_sys \<Rightarrow> bool" where
  "refresh_ready e s \<longleftrightarrow> (case e of
     StartBackgroundRefresh c \<Rightarrow> c < length (callers s) \<and> callers s ! c = Idle
   | StopBackgroundRefresh c \<Rightarrow> c < length (callers s) \<and> callers s ! c = Idle
   | Caller_step c \<Rightarrow> c < length (callers s) \<and> callers s ! c \<noteq> Idle \<and>
       (case callers s ! c of Joining t \<Rightarrow> t < length (loops s) \<and> loops s ! t = Loop_exited | _ \<Rightarrow> True)
   | Loop_step t \<Rightarrow> t < length (loops s) \<and> loops s ! t \<noteq> Loop_exited)"

text \<open>One management call at a time: a call starts when no other is under way.\<close>

definition serial_ready :: "refresh_event \<Rightarrow> refresh_sys \<Rightarrow> bool" where
  "serial_ready e s \<longleftrightarrow> refresh_ready e s \<and> (case e of
     StartBackgroundRefresh _ \<Rightarrow> list_all (\<lambda>pc. pc = Idle) (callers s) | StopBackgroundRefresh _ \<Rightarrow> list_all (\<lambda>pc. pc = Idle) (callers s) | _ \<Rightarrow> True)"

definition IsBackgroundRefreshRunning :: "refresh_sys \<Rightarrow> bool" where
  "IsBackgroundRefreshRunning s = refresh_running s"

text \<open>Where the one busy caller is decides about the flag and the member; every thread but the member's has left the loop.\<close>

definition caller_ok :: "caller_pc \<Rightarrow> refresh_sys \<Rightarrow> bool" where
  "caller_ok pc s \<longleftrightarrow> (case pc of Idle \<Rightarrow> refresh_running s \<longleftrightarrow> refresh_thread s \<noteq> None
     | Spawning \<Rightarrow> refresh_running s \<and> refresh_thread s = None
     | Testing_joinable \<Rightarrow> \<not> refresh_running s
     | Joining t \<Rightarrow> \<not> refresh_running s \<and> refresh_thread s = Some t)"

definition busy_caller :: "refresh_sys \<Rightarrow> nat option \<Rightarrow> bool" where
  "busy_caller s b \<longleftrightarrow> (case b of None \<Rightarrow> True | Some c \<Rightarrow> c < length (callers s) \<and> callers s ! c \<noteq> Idle) \<and>
     (\<forall>c < length (callers s). b \<noteq> Some c \<longrightarrow> callers s ! c = Idle)"

definition refresh_inv :: "refresh_sys \<Rightarrow> bool" where
  "refresh_inv s \<longleftrightarrow> (\<exists>b. busy_caller s b \<and> caller_ok (case b of None \<Rightarrow> Idle | Some c \<Rightarrow> callers s ! c) s) \<and>
     (\<forall>t. refresh_thread s = Some t \<longrightarrow> t < length (loops s)) \<and>
     (\<forall>t < length (loops s). refresh_thread s \<noteq> Some t \<longrightarrow> loops s ! t = Loop_exited) \<and>
     (\<forall>t. refresh_thread s = Some t \<and> refresh_running s \<longrightarrow> loops s ! t \<noteq> Loop_exited)"

lemma busy_caller_set: "busy_caller s b \<Longrightarrow> (b = None \<or> b = Some c) \<Longrightarrow> c < length (callers s) \<Longrightarrow>
    callers t = (callers s)[c := pc] \<Longrightarrow> busy_caller t (if pc = Idle then None else Some c)"
  by (auto simp: busy_caller_def nth_list_update)

lemma busy_caller_same: "callers t = callers s \<Longrightarrow> busy_caller t b = busy_caller s b"
  by (simp add: busy_caller_def split: option.split)

lemma busy_caller_idle: "busy_caller s b \<Longrightarrow> list_all (\<lambda>pc. pc = Idle) (callers s) \<Longrightarrow> b = None"
  by (cases b) (auto simp: busy_caller_def list_all_length)

lemma busy_caller_this: "busy_caller s b \<Longrightarrow> c < length (callers s) \<Longrightarrow> callers s ! c \<noteq> Idle \<Longrightarrow> b = Some c"
  by (auto simp: busy_caller_def)

lemma refresh_invI:
  assumes "busy_caller s b" "caller_ok (case b of None \<Rightarrow> Idle | Some c \<Rightarrow> callers s ! c) s"
    and "\<And>t. refresh_thread s = Some t \<Longrightarrow> t < length (loops s)"
    and "\<And>t. t < length (loops s) \<Longrightarrow> refresh_thread s \<noteq> Some t \<Longrightarrow> loops s ! t = Loop_exited"
    and "\<And>t. refresh_thread s = Some t \<Longrightarrow> refresh_running s \<Longrightarrow> loops s ! t \<noteq> Loop_exited"
  shows "refresh_inv s"
  using assms unfolding refresh_inv_def by blast

lemma refresh_inv_init: "refresh_inv (refresh_init n)"
  by (rule refresh_invI [of _ None]) (auto simp: refresh_init_def busy_caller_def caller_ok_def)

lemma refresh_start:
  assumes "refresh_inv s" "serial_ready (StartBackgroundRefresh c) s"
  shows "refresh_step (StartBackgroundRefresh c) s \<noteq> Inl f \<and> (refresh_step (StartBackgroundRefresh c) s = Inr t \<longrightarrow> refresh_inv t)"
proof -
  obtain b where b: "busy_caller s b" "caller_ok (case b of None \<Rightarrow> Idle | Some c \<Rightarrow> callers s ! c) s"
    using assms(1) by (auto simp: refresh_inv_def)
  have n: "b = None" "c < length (callers s)" using assms(2) b busy_caller_idle by (auto simp: serial_ready_def refresh_ready_def)
  have i: "refresh_inv (set_caller c Spawning (s\<lparr>refresh_running := True\<rparr>))" if "\<not> refresh_running s"
    using assms(1) b n that busy_caller_set [OF b(1), of c _ Spawning]
    by (intro refresh_invI [of _ "Some c"]) (auto simp: set_caller_def caller_ok_def refresh_inv_def)
  with assms(1) show ?thesis by auto
qed

lemma refresh_stop:
  assumes "refresh_inv s" "serial_ready (StopBackgroundRefresh c) s"
  shows "refresh_step (StopBackgroundRefresh c) s \<noteq> Inl f \<and> (refresh_step (StopBackgroundRefresh c) s = Inr t \<longrightarrow> refresh_inv t)"
proof -
  obtain b where b: "busy_caller s b" "caller_ok (case b of None \<Rightarrow> Idle | Some c \<Rightarrow> callers s ! c) s"
    using assms(1) by (auto simp: refresh_inv_def)
  have n: "b = None" "c < length (callers s)" using assms(2) b busy_caller_idle by (auto simp: serial_ready_def refresh_ready_def)
  have "refresh_inv (set_caller c Testing_joinable (s\<lparr>refresh_running := False\<rparr>))"
    using assms(1) b n busy_caller_set [OF b(1), of c _ Testing_joinable]
    by (intro refresh_invI [of _ "Some c"]) (auto simp: set_caller_def caller_ok_def refresh_inv_def)
  then show ?thesis by auto
qed

lemma refresh_caller:
  assumes "refresh_inv s" "serial_ready (Caller_step c) s"
  shows "refresh_step (Caller_step c) s \<noteq> Inl f \<and> (refresh_step (Caller_step c) s = Inr t \<longrightarrow> refresh_inv t)"
proof -
  obtain b where b: "busy_caller s b" "caller_ok (case b of None \<Rightarrow> Idle | Some c \<Rightarrow> callers s ! c) s"
    using assms(1) by (auto simp: refresh_inv_def)
  have c: "c < length (callers s)" "callers s ! c \<noteq> Idle" using assms(2) by (auto simp: serial_ready_def refresh_ready_def)
  note this' = busy_caller_this [OF b(1) c]
  have ok: "caller_ok (callers s ! c) s" using b(2) this' by simp
  note set = busy_caller_set [OF b(1), of c, OF _ c(1)]
  show ?thesis
  proof (cases "callers s ! c")
    case Spawning
    have "refresh_inv (set_caller c Idle (s\<lparr>refresh_thread := Some (length (loops s)), loops := loops s @ [Testing]\<rparr>))"
      using assms(1) ok Spawning this' set [of _ Idle]
      by (intro refresh_invI [of _ None]) (auto simp: set_caller_def caller_ok_def refresh_inv_def nth_append)
    with Spawning ok show ?thesis by (auto simp: caller_ok_def)
  next
    case Testing_joinable
    have "refresh_inv (set_caller c (case refresh_thread s of None \<Rightarrow> Idle | Some t \<Rightarrow> Joining t) s)"
    proof (cases "refresh_thread s")
      case None
      then show ?thesis using assms(1) ok Testing_joinable this' set [of _ Idle]
        by (intro refresh_invI [of _ None]) (auto simp: set_caller_def caller_ok_def refresh_inv_def)
    next
      case (Some th)
      then show ?thesis using assms(1) ok Testing_joinable this' c set [of _ "Joining th"]
        by (intro refresh_invI [of _ "Some c"]) (auto simp: set_caller_def caller_ok_def refresh_inv_def)
    qed
    with Testing_joinable show ?thesis by auto
  next
    case (Joining th)
    have "loops s ! th = Loop_exited" using Joining assms(2) by (auto simp: serial_ready_def refresh_ready_def)
    then have "refresh_inv (set_caller c Idle (s\<lparr>refresh_thread := None\<rparr>))"
      using assms(1) ok Joining this' set [of _ Idle]
      by (intro refresh_invI [of _ None]) (auto simp: set_caller_def caller_ok_def refresh_inv_def)
    with Joining ok show ?thesis by (auto simp: caller_ok_def)
  qed (use c in simp)
qed

lemma refresh_loop:
  assumes "refresh_inv s" "serial_ready (Loop_step i) s"
  shows "refresh_step (Loop_step i) s \<noteq> Inl f \<and> (refresh_step (Loop_step i) s = Inr t \<longrightarrow> refresh_inv t)"
proof -
  let ?t = "s\<lparr>loops := (loops s)[i := loop_next (refresh_running s) (loops s ! i)]\<rparr>"
  obtain b where b: "busy_caller s b" "caller_ok (case b of None \<Rightarrow> Idle | Some c \<Rightarrow> callers s ! c) s"
    using assms(1) by (auto simp: refresh_inv_def)
  have i: "i < length (loops s)" "loops s ! i \<noteq> Loop_exited" using assms(2) by (auto simp: serial_ready_def refresh_ready_def)
  then have th: "refresh_thread s = Some i" using assms(1) by (auto simp: refresh_inv_def)
  have "refresh_running s \<Longrightarrow> loop_next (refresh_running s) (loops s ! i) \<noteq> Loop_exited"
    using i by (cases "loops s ! i") (auto simp: loop_next_def)
  moreover have "caller_ok pc ?t = caller_ok pc s" for pc by (simp add: caller_ok_def split: caller_pc.split)
  ultimately have "refresh_inv ?t"
    using assms(1) b i th by (intro refresh_invI [of _ b]) (auto simp: refresh_inv_def busy_caller_def nth_list_update split: option.splits)
  then show ?thesis by auto
qed

lemma refresh_inv_step: "refresh_inv s \<Longrightarrow> serial_ready e s \<Longrightarrow> refresh_step e s = Inr t \<Longrightarrow> refresh_inv t"
  using refresh_start refresh_stop refresh_caller refresh_loop by (cases e) blast+

interpretation background_refresh: step_invariant refresh_inv refresh_step serial_ready
  by unfold_locales (rule refresh_inv_step)

section \<open>Objects\<close>

text \<open>What a completed \<open>StopBackgroundRefresh\<close> leaves, and the members that rest on it. An object is the pointer to its
  implementation, of which only the refresh part counts here; a moved-from object has none.\<close>

definition stop_refresh :: "refresh_sys \<Rightarrow> refresh_sys" where
  "stop_refresh s = s\<lparr>refresh_running := False, refresh_thread := None, loops := map (\<lambda>_. Loop_exited) (loops s)\<rparr>"

type_synonym sys_object = "refresh_sys option"

definition SystemInfo_move :: "sys_object \<Rightarrow> sys_object \<times> sys_object" where
  "SystemInfo_move other = (map_option stop_refresh other, None)"

definition SystemInfo_move_assign :: "bool \<Rightarrow> sys_object \<Rightarrow> sys_object \<Rightarrow> sys_object \<times> sys_object" where
  "SystemInfo_move_assign same_object this other = (if same_object then (this, other) else (map_option stop_refresh other, None))"

definition SystemInfo_destroy :: "sys_object \<Rightarrow> refresh_sys option" where
  "SystemInfo_destroy this = map_option stop_refresh this"

definition object_running :: "sys_object \<Rightarrow> bool result" where
  "object_running this = (case this of None \<Rightarrow> Inl UndefinedBehaviour | Some s \<Rightarrow> Inr (IsBackgroundRefreshRunning s))"

lemma loops_stopped:
  assumes "\<And>i. i < length ls \<Longrightarrow> i \<noteq> t \<Longrightarrow> ls ! i = Loop_exited"
  shows "ls[t := Loop_exited] = map (\<lambda>_. Loop_exited) ls"
proof (rule nth_equalityI)
  fix i
  assume "i < length (ls[t := Loop_exited])"
  then show "ls[t := Loop_exited] ! i = map (\<lambda>_. Loop_exited) ls ! i" using assms by (cases "i = t") simp_all
qed simp

lemma stop_with_thread:
  assumes c: "c < length (callers s)" and idle: "list_all (\<lambda>pc. pc = Idle) (callers s)" and t: "refresh_thread s = Some t" "t < length (loops s)"
    and l: "\<And>i. i < length (loops s) \<Longrightarrow> i \<noteq> t \<Longrightarrow> loops s ! i = Loop_exited"
  shows "\<exists>es. run_events refresh_step serial_ready es s = Some (stop_refresh s)"
proof -
  have ci: "callers s ! c = Idle" using idle c by (simp add: list_all_length)
  note [simp] = serial_ready_def refresh_ready_def set_caller_def loop_next_def stop_refresh_def
  have cs: "(callers s)[c := Idle] = callers s" using ci by (metis list_update_id)
  show ?thesis
  proof (cases "loops s ! t")
    case Testing
    then show ?thesis using c ci t l idle cs loops_stopped [of "loops s" t]
      by (intro exI [of _ "[StopBackgroundRefresh c, Caller_step c, Loop_step t, Caller_step c]"]) simp
  next
    case Sleeping
    then show ?thesis using c ci t l idle cs loops_stopped [of "loops s" t]
      by (intro exI [of _ "[StopBackgroundRefresh c, Caller_step c, Loop_step t, Loop_step t, Caller_step c]"]) simp
  next
    case Retesting
    then show ?thesis using c ci t l idle cs loops_stopped [of "loops s" t]
      by (intro exI [of _ "[StopBackgroundRefresh c, Caller_step c, Loop_step t, Caller_step c]"]) simp
  next
    case Fetching
    then show ?thesis using c ci t l idle cs loops_stopped [of "loops s" t]
      by (intro exI [of _ "[StopBackgroundRefresh c, Caller_step c, Loop_step t, Loop_step t, Caller_step c]"]) simp
  next
    case Loop_exited
    have "map (\<lambda>_. Loop_exited) (loops s) = loops s" using l Loop_exited by (intro nth_equalityI) (simp_all, metis)
    with Loop_exited show ?thesis using c ci t cs idle
      by (intro exI [of _ "[StopBackgroundRefresh c, Caller_step c, Caller_step c]"]) simp
  qed
qed

lemma stop_refresh_returns:
  assumes "refresh_inv s" "c < length (callers s)" "list_all (\<lambda>pc. pc = Idle) (callers s)"
  shows "\<exists>es. run_events refresh_step serial_ready es s = Some (stop_refresh s)"
proof (cases "refresh_thread s")
  case None
  have ci: "callers s ! c = Idle" using assms by (simp add: list_all_length)
  have "map (\<lambda>_. Loop_exited) (loops s) = loops s" using assms(1) None by (intro nth_equalityI) (auto simp: refresh_inv_def)
  moreover have "(callers s)[c := Idle] = callers s" using ci by (metis list_update_id)
  ultimately show ?thesis using assms None ci
    by (intro exI [of _ "[StopBackgroundRefresh c, Caller_step c]"])
      (simp add: serial_ready_def refresh_ready_def set_caller_def stop_refresh_def)
next
  case (Some t)
  with stop_with_thread [OF assms(2,3) Some] assms(1) show ?thesis by (auto simp: refresh_inv_def)
qed

section \<open>Properties\<close>

lemma loop_stops: "(loop_next False ^^ 2) pc = Loop_exited"
  by (cases pc) (simp_all add: loop_next_def eval_nat_numeral)

text \<open>
  C19. As long as starts and stops do not overlap, the management of the refresh thread is safe under all interleavings with the
  loop: no call terminates the process, at most one thread is in the loop, a stop waits for at most two more of its steps
  and can then return with every thread ended, and between the calls \<open>IsBackgroundRefreshRunning\<close> is true exactly when such a thread exists.
\<close>

theorem refresh_thread_is_managed:
  assumes "steps_to refresh_step serial_ready (refresh_init n) s"
  shows "(\<forall>e. serial_ready e s \<longrightarrow> (\<exists>t. refresh_step e s = Inr t)) \<and>
    (\<forall>i < length (loops s). \<forall>j < length (loops s). loops s ! i \<noteq> Loop_exited \<and> loops s ! j \<noteq> Loop_exited \<longrightarrow> i = j) \<and>
    (\<forall>c < length (callers s). \<forall>t. callers s ! c = Joining t \<longrightarrow> (loop_next (refresh_running s) ^^ 2) (loops s ! t) = Loop_exited) \<and>
    (list_all (\<lambda>pc. pc = Idle) (callers s) \<longrightarrow> (IsBackgroundRefreshRunning s \<longleftrightarrow> refresh_thread s \<noteq> None) \<and>
      (IsBackgroundRefreshRunning s \<longleftrightarrow> (\<exists>i < length (loops s). loops s ! i \<noteq> Loop_exited)) \<and>
      (callers s \<noteq> [] \<longrightarrow> (\<exists>es. run_events refresh_step serial_ready es s = Some (stop_refresh s))))"
proof -
  have inv: "refresh_inv s" using background_refresh.always [OF assms refresh_inv_init] .
  then obtain b where b: "busy_caller s b" "caller_ok (case b of None \<Rightarrow> Idle | Some c \<Rightarrow> callers s ! c) s"
    by (auto simp: refresh_inv_def)
  have "\<exists>t. refresh_step e s = Inr t" if "serial_ready e s" for e
    using refresh_start [OF inv] refresh_stop [OF inv] refresh_caller [OF inv] refresh_loop [OF inv] that
    by (cases "refresh_step e s"; cases e) blast+
  moreover have "\<not> refresh_running s" if "c < length (callers s)" "callers s ! c = Joining t" for c t
    using busy_caller_this [OF b(1), of c] b(2) that by (auto simp: caller_ok_def)
  moreover have "refresh_running s \<longleftrightarrow> refresh_thread s \<noteq> None" if "list_all (\<lambda>pc. pc = Idle) (callers s)"
    using busy_caller_idle [OF b(1) that] b(2) by (simp add: caller_ok_def)
  moreover have live: "loops s ! i \<noteq> Loop_exited \<Longrightarrow> i < length (loops s) \<Longrightarrow> refresh_thread s = Some i" for i
    using inv by (auto simp: refresh_inv_def)
  moreover have "\<exists>i < length (loops s). loops s ! i \<noteq> Loop_exited" if "refresh_thread s \<noteq> None" "refresh_running s"
    using inv that by (auto simp: refresh_inv_def)
  moreover have "\<exists>es. run_events refresh_step serial_ready es s = Some (stop_refresh s)"
    if "list_all (\<lambda>pc. pc = Idle) (callers s)" "callers s \<noteq> []"
    using stop_refresh_returns [OF inv _ that(1), of 0] that(2) by simp
  ultimately show ?thesis using loop_stops unfolding IsBackgroundRefreshRunning_def by (simp, metis option.inject option.simps(3))
qed

definition refresh_twice :: "refresh_event list" where
  "refresh_twice = [StartBackgroundRefresh 0, Caller_step 0, Loop_step 0, StopBackgroundRefresh 1, Loop_step 0, Loop_step 0, Caller_step 1, Caller_step 1,
     StartBackgroundRefresh 1, Caller_step 1]"

theorem refresh_thread_is_managed_witness:
  "IsBackgroundRefreshRunning (the (run_events refresh_step serial_ready refresh_twice (refresh_init 2))) \<and>
   loops (the (run_events refresh_step serial_ready refresh_twice (refresh_init 2))) = [Loop_exited, Testing]"
proof -
  let ?run = "run_events refresh_step serial_ready refresh_twice (refresh_init 2)"
  have "?run = Some (the ?run)" by (rule option.collapse [symmetric]) code_simp
  from refresh_thread_is_managed [OF run_events_steps [OF steps_refl this]]
  have "list_all (\<lambda>pc. pc = Idle) (callers (the ?run)) \<longrightarrow> (IsBackgroundRefreshRunning (the ?run) \<longleftrightarrow> refresh_thread (the ?run) \<noteq> None)" by blast
  moreover have "list_all (\<lambda>pc. pc = Idle) (callers (the ?run)) \<and> refresh_thread (the ?run) = Some 1 \<and> loops (the ?run) = [Loop_exited, Testing]"
    by code_simp
  ultimately show ?thesis by simp
qed

definition start_during_stop :: "refresh_event list" where
  "start_during_stop = [StartBackgroundRefresh 0, Caller_step 0, StopBackgroundRefresh 1, StartBackgroundRefresh 0]"

definition two_stops :: "refresh_event list" where
  "two_stops = [StartBackgroundRefresh 0, Caller_step 0, StopBackgroundRefresh 0, StopBackgroundRefresh 1, Caller_step 0, Caller_step 1, Loop_step 0, Caller_step 0]"

text \<open>
  Although all public methods are documented as safe to call concurrently, overlapping starts and stops are not: a start
  during a stop assigns to a joinable thread, which terminates the process, and two stops join the same thread.
\<close>

theorem concurrent_management_crashes:
  "(\<exists>s. run_events refresh_step refresh_ready start_during_stop (refresh_init 2) = Some s \<and> refresh_ready (Caller_step 0) s \<and>
     refresh_step (Caller_step 0) s = Inl Terminated) \<and>
   (\<exists>s. run_events refresh_step refresh_ready two_stops (refresh_init 2) = Some s \<and> refresh_ready (Caller_step 1) s \<and>
     refresh_step (Caller_step 1) s = Inl UndefinedBehaviour)"
  by (simp add: start_during_stop_def two_stops_def refresh_init_def refresh_ready_def set_caller_def loop_next_def)

end
