(* ===== verification/Popen.thy ===== *)
theory Popen
  imports Text_Stream
begin

text \<open>
  \<open>PopenWrapper\<close> (system/popen_wrapper.h, .cc): a child process with its streams, a timeout and its exit status. The first
  part is what is computed without system calls: the shell command, the arguments, the environment, and how the bytes of a
  stream are captured. \<open>Popen_Sys\<close> has the wrapper with its timer thread, the child and the pipes between them.
\<close>

datatype popen_mode = kReadOnly | kWriteOnly | kReadWrite

text \<open>Times in milliseconds. A callback is the function of the chunk that says whether to go on.\<close>

record popen_options =
  command :: "string list"
  executable_path :: string
  shell :: bool
  mode' :: popen_mode
  capture_stderr :: bool
  merge_stderr_into_stdout :: bool
  working_directory :: string
  extra_env :: "string list"
  replace_env :: bool
  timeout :: int
  kill_grace_period :: int
  max_output_bytes :: nat
  stdout_callback :: "(string \<Rightarrow> bool) option"
  stderr_callback :: "(string \<Rightarrow> bool) option"
  read_buffer_size :: nat
  stdin_data :: string

section \<open>Shell commands\<close>

abbreviation apostrophe :: char where "apostrophe \<equiv> CHR 0x27"
abbreviation quote_mark :: char where "quote_mark \<equiv> CHR 0x22"

definition escape_char :: "char \<Rightarrow> string" where
  "escape_char c = (if c = apostrophe then [apostrophe, quote_mark, apostrophe, quote_mark, apostrophe] else [c])"

definition ShellEscape :: "string \<Rightarrow> string" where
  "ShellEscape token = [apostrophe] @ concat (map escape_char token) @ [apostrophe]"

fun join_blank :: "string list \<Rightarrow> string" where
  "join_blank [] = []"
| "join_blank [x] = x"
| "join_blank (x # y # xs) = x @ blank # join_blank (y # xs)"

definition BuildShellCommand :: "string list \<Rightarrow> string" where
  "BuildShellCommand argv = join_blank (map ShellEscape argv)"

definition BuildArgv :: "popen_options \<Rightarrow> string list" where
  "BuildArgv o' = (if shell o' then [''/bin/sh'', ''-c'', join_blank (command o')] else command o')"

text \<open>\<open>argv[0]\<close> of an empty vector is the null pointer that ends it.\<close>

definition exec_path :: "popen_options \<Rightarrow> string option" where
  "exec_path o' = (if executable_path o' \<noteq> [] then Some (executable_path o') else case BuildArgv o' of [] \<Rightarrow> None | x # xs \<Rightarrow> Some x)"

section \<open>The environment\<close>

text \<open>The first entry that starts with \<open>key\<close> is replaced.\<close>

fun replace_first :: "string \<Rightarrow> string \<Rightarrow> string list \<Rightarrow> string list option" where
  "replace_first key kv [] = None"
| "replace_first key kv (s # ss) = (if starts_with key s then Some (kv # ss) else map_option (Cons s) (replace_first key kv ss))"

definition add_env :: "string \<Rightarrow> string list \<Rightarrow> string list" where
  "add_env kv env = (case find_char (CHR ''='') kv of None \<Rightarrow> env @ [kv]
     | Some eq \<Rightarrow> (case replace_first (take (eq + 1) kv) kv env of Some env' \<Rightarrow> env' | None \<Rightarrow> env @ [kv]))"

definition BuildEnvp :: "popen_options \<Rightarrow> string list \<Rightarrow> string list" where
  "BuildEnvp o' environ' = (if extra_env o' = [] \<and> \<not> replace_env o' then []
     else fold add_env (extra_env o') (if replace_env o' then [] else environ'))"

text \<open>What the child gets: \<open>execvpe\<close> with the strings built, or \<open>execvp\<close> with the environment of the parent.\<close>

definition child_env :: "popen_options \<Rightarrow> string list \<Rightarrow> string list" where
  "child_env o' environ' = (if replace_env o' \<or> extra_env o' \<noteq> [] then BuildEnvp o' environ' else environ')"

text \<open>The child before it runs the program: \<open>None\<close> is the exit with 127 when its directory cannot be entered.\<close>

definition child_exec :: "popen_options \<Rightarrow> (string \<Rightarrow> bool) \<Rightarrow> string list \<Rightarrow> (string option \<times> string list \<times> string list) option" where
  "child_exec o' chdir_ok environ' = (if working_directory o' \<noteq> [] \<and> \<not> chdir_ok (working_directory o') then None
     else Some (exec_path o', BuildArgv o', child_env o' environ'))"

section \<open>Capturing a stream\<close>

text \<open>\<open>DrainFd\<close> on the bytes that are in the pipe: whether to go on, the buffer, the truncation flag and the bytes left.\<close>

definition store_chunk :: "popen_options \<Rightarrow> (string \<Rightarrow> bool) option \<Rightarrow> string \<Rightarrow> string \<Rightarrow> bool \<Rightarrow> bool \<times> string \<times> bool" where
  "store_chunk o' cb chunk buf truncated = (case cb of Some f \<Rightarrow> (f chunk, buf, truncated)
     | None \<Rightarrow> if max_output_bytes o' = 0 then (\<not> truncated, buf @ chunk, truncated)
         else let space = sz_sub (max_output_bytes o') (length buf) in
           if space = 0 then (False, buf, True)
           else if space < length chunk then (False, buf @ take space chunk, True)
           else (\<not> truncated, buf @ chunk, truncated))"

function DrainFd :: "popen_options \<Rightarrow> (string \<Rightarrow> bool) option \<Rightarrow> string \<Rightarrow> bool \<Rightarrow> string \<Rightarrow> bool \<times> string \<times> bool \<times> string" where
  "DrainFd o' cb buf truncated data = (let n = read_buffer_size o'; chunk = take n data; left = drop n data in
     if chunk = [] then (True, buf, truncated, data)
     else let (ok, buf1, trunc1) = store_chunk o' cb chunk buf truncated in
       if \<not> ok then (False, buf1, trunc1, left)
       else if length chunk < n then (True, buf1, trunc1, left)
       else DrainFd o' cb buf1 trunc1 left)"
  by pat_completeness auto
termination
  by (relation "measure (\<lambda>(o', cb, buf, truncated, data). length data)") auto

declare DrainFd.simps [simp del]

end
