(* ===== verification/Popen_Props.thy ===== *)
theory Popen_Props
  imports Popen
begin

text \<open>
  What \<open>Popen\<close> computes is what the other side understands: a POSIX shell reads the words of \<open>BuildShellCommand\<close> back, \<open>getenv\<close>
  in the child finds the last setting of a name, and a capture keeps the stream up to its limit.
\<close>


section \<open>A shell reads the command back\<close>

text \<open>Word splitting and quote removal of a POSIX shell: blanks separate words, between apostrophes everything is literal,
  between quotation marks everything but the four special characters; any other special character ends the reading.\<close>

datatype sh_state = Between | Word string | Single string | Double string

definition sh_special :: "char \<Rightarrow> bool" where
  "sh_special c \<longleftrightarrow> c \<in> set ''|&;<>()$`*?[#~=%!{}'' \<or> c = newline \<or> c = CHR 0x5C"

definition double_special :: "char \<Rightarrow> bool" where
  "double_special c \<longleftrightarrow> c \<in> set ''$`!'' \<or> c = CHR 0x5C"

fun sh_words :: "sh_state \<Rightarrow> string \<Rightarrow> string list option" where
  "sh_words Between [] = Some []"
| "sh_words (Word w) [] = Some [w]"
| "sh_words (Single w) [] = None"
| "sh_words (Double w) [] = None"
| "sh_words Between (c # cs) = (if c = blank \<or> c = tab then sh_words Between cs else if c = apostrophe then sh_words (Single []) cs
     else if c = quote_mark then sh_words (Double []) cs else if sh_special c then None else sh_words (Word [c]) cs)"
| "sh_words (Word w) (c # cs) = (if c = blank \<or> c = tab then map_option (Cons w) (sh_words Between cs) else if c = apostrophe then sh_words (Single w) cs
     else if c = quote_mark then sh_words (Double w) cs else if sh_special c then None else sh_words (Word (w @ [c])) cs)"
| "sh_words (Single w) (c # cs) = (if c = apostrophe then sh_words (Word w) cs else sh_words (Single (w @ [c])) cs)"
| "sh_words (Double w) (c # cs) = (if c = quote_mark then sh_words (Word w) cs else if double_special c then None else sh_words (Double (w @ [c])) cs)"

lemma sh_words_escaped: "sh_words (Single w) (concat (map escape_char t) @ r) = sh_words (Single (w @ t)) r"
  by (induction t arbitrary: w) (simp_all add: escape_char_def double_special_def)

lemma sh_words_token: "sh_words Between (ShellEscape t @ r) = sh_words (Word t) r"
  by (simp add: ShellEscape_def sh_words_escaped)

text \<open>
  C32. A POSIX shell that reads the string \<open>BuildShellCommand\<close> makes of a list of words gets exactly these words back, whatever characters they
  contain.
\<close>

theorem shell_reads_back_the_words: "sh_words Between (BuildShellCommand argv) = Some argv"
  unfolding BuildShellCommand_def
proof (induction argv rule: join_blank.induct)
  case (2 x)
  then show ?case using sh_words_token [of x "[]"] by simp
next
  case (3 x y xs)
  then show ?case by (simp add: sh_words_token)
qed simp

section \<open>The environment\<close>

text \<open>What \<open>getenv\<close> finds: the first entry that starts with the name and an equals sign.\<close>

fun lookup_env :: "string \<Rightarrow> string list \<Rightarrow> string option" where
  "lookup_env k [] = None"
| "lookup_env k (s # ss) = (if starts_with (k @ ''='') s then Some (drop (length k + 1) s) else lookup_env k ss)"

fun env_entry :: "string \<times> string \<Rightarrow> string" where
  "env_entry (k, v) = k @ CHR ''='' # v"

definition is_name :: "string \<Rightarrow> bool" where
  "is_name k \<longleftrightarrow> CHR ''='' \<notin> set k"

lemma starts_with_entry: "is_name k \<Longrightarrow> is_name k' \<Longrightarrow> starts_with (k @ ''='') (k' @ CHR ''='' # v) \<longleftrightarrow> k = k'"
proof -
  assume names: "is_name k" "is_name k'"
  show ?thesis
  proof
    assume "starts_with (k @ ''='') (k' @ CHR ''='' # v)"
    then obtain r where r: "k' @ CHR ''='' # v = k @ CHR ''='' # r"
      unfolding starts_with_def by (metis append.assoc append_Cons append_Nil append_take_drop_id)
    have "takeWhile (\<lambda>c. c \<noteq> CHR ''='') (k' @ CHR ''='' # v) = k'" "takeWhile (\<lambda>c. c \<noteq> CHR ''='') (k @ CHR ''='' # r) = k"
      using names by (simp_all add: is_name_def takeWhile_append)
    with r show "k = k'" by simp
  qed (simp add: starts_with_def)
qed

lemma lookup_append: "lookup_env k (env @ [s]) = (case lookup_env k env of None \<Rightarrow> lookup_env k [s] | Some x \<Rightarrow> Some x)"
  by (induction env) auto

lemma replace_first_None: "replace_first (k @ ''='') kv env = None \<longleftrightarrow> lookup_env k env = None"
  by (induction env) auto

lemma starts_with_trans: "starts_with (k @ ''='') s \<Longrightarrow> is_name k \<Longrightarrow> is_name k' \<Longrightarrow> starts_with (k' @ ''='') s \<Longrightarrow> k = k'"
proof -
  assume s: "starts_with (k @ ''='') s" "starts_with (k' @ ''='') s" and names: "is_name k" "is_name k'"
  from s(1) obtain v where "s = k @ CHR ''='' # v"
    unfolding starts_with_def by (metis append.assoc append_Cons append_Nil append_take_drop_id)
  with s(2) starts_with_entry [OF names(2,1)] show ?thesis by simp
qed

lemma lookup_replaced:
  assumes "is_name k" "is_name k'" "replace_first (k' @ ''='') (env_entry (k', v)) env = Some env'"
  shows "lookup_env k env' = (if k = k' then Some v else lookup_env k env)"
  using assms
proof (induction env arbitrary: env')
  case (Cons s ss)
  show ?case
  proof (cases "starts_with (k' @ ''='') s")
    case True
    then have env': "env' = env_entry (k', v) # ss" using Cons.prems(3) by simp
    have s: "starts_with (k @ ''='') s \<longleftrightarrow> k = k'" using True starts_with_trans [OF True Cons.prems(2,1)] by auto
    show ?thesis using s starts_with_entry [OF Cons.prems(1,2), of v] unfolding env' by simp
  next
    case False
    then obtain e where e: "replace_first (k' @ ''='') (env_entry (k', v)) ss = Some e" "env' = s # e" using Cons.prems(3) by auto
    show ?thesis using Cons.IH [OF Cons.prems(1,2) e(1)] False unfolding e(2) by (cases "k = k'") simp_all
  qed
qed simp

lemma lookup_added:
  assumes "is_name k" "is_name k'"
  shows "lookup_env k (add_env (env_entry (k', v)) env) = (if k = k' then Some v else lookup_env k env)"
proof -
  have f: "find_char (CHR ''='') (env_entry (k', v)) = Some (length k')" "take (length k' + 1) (env_entry (k', v)) = k' @ ''=''"
    using assms(2) by (simp_all add: find_char_def is_name_def takeWhile_append)
  show ?thesis
  proof (cases "replace_first (k' @ ''='') (env_entry (k', v)) env")
    case None
    then show ?thesis using f starts_with_entry [OF assms, of v] replace_first_None [of k' _ env]
      by (auto simp: add_env_def lookup_append starts_with_def split: option.split)
  next
    case (Some env')
    then show ?thesis using f lookup_replaced [OF assms Some] by (simp add: add_env_def)
  qed
qed

text \<open>
  The environment of the child: of the entries of \<open>extra_env\<close> the last one for a name counts, before the inherited one, which counts only
  without \<open>replace_env\<close>.
\<close>

theorem child_environment_is_overridden:
  assumes "\<forall>(k, v) \<in> set vars. is_name k" "is_name k" "extra_env o' = map env_entry vars"
  shows "lookup_env k (child_env o' environ') =
    ((if replace_env o' then Map.empty else (\<lambda>k. lookup_env k environ')) ++ map_of (rev vars)) k"
proof -
  have "lookup_env k (fold add_env (map env_entry vars) env) = ((\<lambda>k. lookup_env k env) ++ map_of (rev vars)) k" for env
    using assms(1) by (induction vars arbitrary: env) (auto simp: lookup_added [OF assms(2), unfolded env_entry.simps] map_add_def split: option.split)
  then show ?thesis using assms(3) by (auto simp: child_env_def BuildEnvp_def)
qed

theorem child_environment_is_overridden_witness:
  "lookup_env ''A'' (child_env \<lparr>command = [], executable_path = [], shell = False, mode' = kReadOnly, capture_stderr = False, merge_stderr_into_stdout = False, working_directory = [],
     extra_env = [''A=1'', ''B=2'', ''A=3''], replace_env = False, timeout = 0, kill_grace_period = 0, max_output_bytes = 0, stdout_callback = None,
     stderr_callback = None, read_buffer_size = 1, stdin_data = []\<rparr> [''A=0'', ''C=4'']) = Some ''3''"
  by (subst child_environment_is_overridden [where vars = "[(''A'', ''1''), (''B'', ''2''), (''A'', ''3'')]"]) (simp_all add: is_name_def)

section \<open>Captured streams\<close>

text \<open>The bytes of a stream in the portions in which they were in the pipe when the loop drained it.\<close>

fun drain_all :: "popen_options \<Rightarrow> string list \<Rightarrow> string \<times> bool \<times> bool \<Rightarrow> string \<times> bool \<times> bool" where
  "drain_all o' [] s = s"
| "drain_all o' (p # ps) (buf, truncated, stopped) = (if stopped then (buf, truncated, stopped)
     else let (ok, buf', trunc', left) = DrainFd o' None buf truncated p in drain_all o' ps (buf', trunc', \<not> ok))"

lemma DrainFd_unlimited:
  assumes "max_output_bytes o' = 0" "0 < read_buffer_size o'"
  shows "DrainFd o' None buf False data = (True, buf @ data, False, [])"
proof (induction data arbitrary: buf rule: length_induct)
  case (1 data)
  let ?n = "read_buffer_size o'"
  show ?case
  proof (cases "data = []")
    case True
    then show ?thesis by (subst DrainFd.simps) simp
  next
    case False
    have "length (drop ?n data) < length data" using False assms(2) by simp
    then have IH: "DrainFd o' None (buf @ take ?n data) False (drop ?n data) = (True, (buf @ take ?n data) @ drop ?n data, False, [])"
      using 1 by blast
    show ?thesis using False assms IH
      by (subst DrainFd.simps) (simp add: store_chunk_def Let_def min_def)
  qed
qed

lemma DrainFd_limited:
  assumes "0 < max_output_bytes o'" "max_output_bytes o' < 2 ^ 64" "0 < read_buffer_size o'"
  shows "length buf \<le> max_output_bytes o' \<Longrightarrow> \<exists>left. DrainFd o' None buf False data =
    (if length buf + length data \<le> max_output_bytes o' then (True, buf @ data, False, []) else (False, take (max_output_bytes o') (buf @ data), True, left))"
proof (induction data arbitrary: buf rule: length_induct)
  case (1 data)
  let ?n = "read_buffer_size o'" and ?m = "max_output_bytes o'"
  have space: "sz_sub ?m (length buf) = ?m - length buf" using 1(2) assms(2) by (simp add: sz_sub_eq)
  show ?case
  proof (cases "data = []")
    case True
    then show ?thesis using 1(2) by (subst DrainFd.simps) simp
  next
    case False
    let ?c = "take ?n data"
    have c: "?c \<noteq> []" "0 < length ?c" using False assms(3) by simp_all
    show ?thesis
    proof (cases "length buf + length ?c \<le> ?m")
      case fits: True
      have "length (drop ?n data) < length data" "length (buf @ ?c) \<le> ?m" using False assms(3) fits by simp_all
      with 1(1) obtain left where IH: "DrainFd o' None (buf @ ?c) False (drop ?n data) =
          (if length (buf @ ?c) + length (drop ?n data) \<le> ?m then (True, (buf @ ?c) @ drop ?n data, False, [])
           else (False, take ?m ((buf @ ?c) @ drop ?n data), True, left))" by blast
      have len: "length (buf @ ?c) + length (drop ?n data) = length buf + length data" by simp
      have all: "(buf @ ?c) @ drop ?n data = buf @ data" by simp
      have store: "store_chunk o' None ?c buf False = (True, buf @ ?c, False)"
      proof -
        have "\<not> ?m - length buf < length ?c" "?m - length buf \<noteq> 0" using fits c(2) by linarith+
        then show ?thesis using assms(1) by (simp only: store_chunk_def space Let_def option.case if_False if_True simp_thms) simp
      qed
      show ?thesis
      proof (cases "length ?c < ?n")
        case True
        then have d: "?c = data" "drop ?n data = []" by simp_all
        then show ?thesis using fits c store True by (intro exI [of _ "[]"], subst DrainFd.simps) (simp add: Let_def)
      next
        case False
        then show ?thesis using c store IH unfolding len all
          by (intro exI [of _ left], subst DrainFd.simps) (simp add: Let_def)
      qed
    next
      case False
      have over: "\<not> length buf + length data \<le> ?m" using False by simp
      have "take ?m (buf @ data) = buf @ take (?m - length buf) ?c"
      proof -
        have "?m - length buf < length ?c" using False 1(2) by linarith
        then have "min ?n (?m - length buf) = ?m - length buf" by (simp only: length_take)
        then have "take (?m - length buf) ?c = take (?m - length buf) data" by (simp add: min.commute)
        then show ?thesis using 1(2) by (simp only: take_append take_all)
      qed
      then have "store_chunk o' None ?c buf False = (False, take ?m (buf @ data), True)"
        using False 1(2) assms(1) by (auto simp: store_chunk_def space Let_def)
      then show ?thesis using c over by (intro exI [of _ "drop ?n data"], subst DrainFd.simps) (simp add: Let_def)
    qed
  qed
qed

lemma drain_all_stopped: "drain_all o' ps (buf, t, True) = (buf, t, True)"
  by (cases ps) simp_all

text \<open>
  C33. However a stream arrives in portions, what is captured is the whole stream when it fits into \<open>max_output_bytes\<close> (or there is no limit), and
  otherwise exactly its first \<open>max_output_bytes\<close> bytes with the truncation reported and the reading stopped.
\<close>

theorem capture_keeps_the_prefix:
  assumes "0 < read_buffer_size o'" "max_output_bytes o' < 2 ^ 64"
  shows "drain_all o' portions ([], False, False) =
    (if max_output_bytes o' = 0 \<or> length (concat portions) \<le> max_output_bytes o' then (concat portions, False, False)
     else (take (max_output_bytes o') (concat portions), True, True))"
proof (cases "max_output_bytes o' = 0")
  case True
  have "drain_all o' portions (buf, False, False) = (buf @ concat portions, False, False)" for buf
    by (induction portions arbitrary: buf) (simp_all add: DrainFd_unlimited [OF True assms(1)])
  with True show ?thesis by simp
next
  case False
  let ?m = "max_output_bytes o'"
  have "length buf \<le> ?m \<Longrightarrow> drain_all o' portions (buf, False, False) =
      (if length buf + length (concat portions) \<le> ?m then (buf @ concat portions, False, False) else (take ?m (buf @ concat portions), True, True))" for buf
  proof (induction portions arbitrary: buf)
    case (Cons p ps)
    obtain left where d: "DrainFd o' None buf False p = (if length buf + length p \<le> ?m then (True, buf @ p, False, []) else (False, take ?m (buf @ p), True, left))"
      using DrainFd_limited [OF _ assms(2,1) Cons.prems, of p] False by blast
    show ?case
    proof (cases "length buf + length p \<le> ?m")
      case True
      then show ?thesis using Cons.IH [of "buf @ p"] by (simp add: d add.assoc)
    next
      case over: False
      then have "take ?m (buf @ p @ concat ps) = take ?m (buf @ p)" by simp
      with over show ?thesis by (simp add: d drain_all_stopped)
    qed
  qed simp
  from this [of "[]"] False show ?thesis by simp
qed

theorem capture_keeps_the_prefix_witness:
  "drain_all \<lparr>command = [], executable_path = [], shell = False, mode' = kReadOnly, capture_stderr = False, merge_stderr_into_stdout = False, working_directory = [],
     extra_env = [], replace_env = False, timeout = 0, kill_grace_period = 0, max_output_bytes = 5, stdout_callback = None,
     stderr_callback = None, read_buffer_size = 2, stdin_data = []\<rparr> [''abc'', ''defg'', ''h''] ([], False, False) = (''abcde'', True, True)"
  by (subst capture_keeps_the_prefix) simp_all

end
