(* ===== verification/Popen_Sys.thy ===== *)
theory Popen_Sys
  imports Popen Lock_Contract
begin

text \<open>
  A run of \<open>PopenWrapper\<close> (system/popen_wrapper.cc): the calling thread in \<open>Run\<close>, the timer thread, the child, the pipes
  between them and a clock in milliseconds. A descriptor of the wrapper is whether it is open; a pipe holds at most \<open>cap\<close>
  bytes; the child does what it likes with its ends. One round of the \<open>poll\<close> loop is one step, except that a write to the
  child blocks as long as the pipe is full. \<open>sigpipe_ignored\<close> says whether the program ignores \<open>SIGPIPE\<close>; where it does not, a
  write to a pipe without a reader ends the program. A child that ended may be waited for by somebody else (the kernel when
  the program ignores \<open>SIGCHLD\<close>): it is \<open>Lost\<close> then.
\<close>

datatype exit_status = Exited int | Signaled int

datatype child_state = No_child | Child_running | Zombie exit_status | Reaped exit_status | Lost exit_status

datatype timer_pc = No_timer | Timer_waiting int | Timer_grace int | Timer_signalling | Timer_done

datatype main_pc = Not_started | Start_failed | Feeding | Feed_writing nat | Driving | Writing bool nat | Draining | Reaping nat | Blocking | Cancelling | Joining_timer | Returned

record popen_result =
  stdout_data :: string
  stderr_data :: string
  raw_exit_status :: "exit_status option"
  exited_normally :: bool
  exit_code :: int
  killed_by_signal :: bool
  signal_number :: int
  timed_out :: bool
  output_truncated :: bool
  elapsed_ms :: int

definition Result_default :: popen_result where
  "Result_default = \<lparr>stdout_data = [], stderr_data = [], raw_exit_status = None, exited_normally = False, exit_code = - 1,
     killed_by_signal = False, signal_number = - 1, timed_out = False, output_truncated = False, elapsed_ms = 0\<rparr>"

definition Result_Success :: "popen_result \<Rightarrow> bool" where
  "Result_Success r \<longleftrightarrow> exited_normally r \<and> exit_code r = 0"

record popen_sys =
  child_pid :: bool
  parent_stdin_write :: bool
  parent_stdout_read :: bool
  parent_stderr_read :: bool
  timer_read :: bool
  timer_write :: bool
  timed_out' :: bool
  started :: bool
  waited :: bool
  start_ms :: int
  stdin_offset :: nat
  result' :: popen_result
  main :: main_pc
  timer :: timer_pc
  child :: child_state
  in_data :: string
  in_reader :: bool
  out_data :: string
  out_writer :: bool
  err_data :: string
  err_writer :: bool
  timer_bytes :: nat
  now_ms :: int
  term_sent :: bool
  stray_kill :: bool

definition popen_init :: "int \<Rightarrow> popen_sys" where
  "popen_init now = \<lparr>child_pid = False, parent_stdin_write = False, parent_stdout_read = False, parent_stderr_read = False, timer_read = False,
     timer_write = False, timed_out' = False, started = False, waited = False, start_ms = 0, stdin_offset = 0, result' = Result_default,
     main = Not_started, timer = No_timer, child = No_child, in_data = [], in_reader = False, out_data = [], out_writer = False, err_data = [],
     err_writer = False, timer_bytes = 0, now_ms = now, term_sent = False, stray_kill = False\<rparr>"

section \<open>Start\<close>

definition need_stdin :: "popen_options \<Rightarrow> bool" where
  "need_stdin o' \<longleftrightarrow> mode' o' = kWriteOnly \<or> mode' o' = kReadWrite"

definition need_stdout :: "popen_options \<Rightarrow> bool" where
  "need_stdout o' \<longleftrightarrow> mode' o' = kReadOnly \<or> mode' o' = kReadWrite"

definition need_stderr :: "popen_options \<Rightarrow> bool" where
  "need_stderr o' \<longleftrightarrow> capture_stderr o' \<and> \<not> merge_stderr_into_stdout o'"

definition int_max :: int where "int_max = 2 ^ 31 - 1"

text \<open>\<open>ForkExec\<close> and the start of the timer; a fork that fails closes all pipes and throws.\<close>

definition ForkExec :: "popen_options \<Rightarrow> bool \<Rightarrow> popen_sys \<Rightarrow> popen_sys" where
  "ForkExec o' fork_ok s = (if \<not> fork_ok then s\<lparr>main := Start_failed\<rparr>
     else s\<lparr>start_ms := now_ms s, child_pid := True, child := Child_running, parent_stdin_write := need_stdin o', in_reader := need_stdin o',
       parent_stdout_read := need_stdout o', out_writer := need_stdout o', parent_stderr_read := need_stderr o', err_writer := need_stderr o',
       timer_read := 0 < timeout o', timer_write := 0 < timeout o', main := Feeding\<rparr>)"

definition Popen_Start :: "popen_options \<Rightarrow> bool \<Rightarrow> popen_sys \<Rightarrow> popen_sys" where
  "Popen_Start o' fork_ok s = (let s1 = ForkExec o' fork_ok (s\<lparr>started := True\<rparr>) in
     if fork_ok \<and> 0 < timeout o' then s1\<lparr>timer := Timer_waiting (now_ms s + min (timeout o') int_max)\<rparr> else s1)"

section \<open>Run and the loop\<close>

definition CloseStdin :: "popen_sys \<Rightarrow> popen_sys" where
  "CloseStdin s = s\<lparr>parent_stdin_write := False\<rparr>"

text \<open>A \<open>write\<close> on the blocking pipe, in portions: \<open>k\<close> bytes of the data are written so far. The call ends when all is
  written (\<open>Some True\<close>) or the reader is gone (\<open>Some False\<close>, and \<open>SIGPIPE\<close>).\<close>

definition write_portion :: "nat \<Rightarrow> string \<Rightarrow> nat \<Rightarrow> popen_sys \<Rightarrow> popen_sys \<times> nat \<times> bool option" where
  "write_portion cap data k s = (if \<not> in_reader s then (s, k, Some False)
     else let now = take (cap - length (in_data s)) (drop k data); k' = k + length now
       in (s\<lparr>in_data := in_data s @ now\<rparr>, k', if k' = length data then Some True else None))"

text \<open>\<open>Run\<close> after \<open>Start\<close>: a write-only run writes everything with one call and closes the pipe.\<close>

definition enter_wait :: "popen_sys \<Rightarrow> popen_sys" where
  "enter_wait s = s\<lparr>waited := True, main := Driving\<rparr>"

definition feed_stdin :: "popen_options \<Rightarrow> popen_sys \<Rightarrow> popen_sys" where
  "feed_stdin o' s = (if \<not> need_stdin o' then enter_wait s
     else if stdin_data o' = [] then enter_wait (CloseStdin s)
     else if mode' o' = kWriteOnly then s\<lparr>main := Feed_writing 0\<rparr>
     else enter_wait s)"

definition feed_write :: "nat \<Rightarrow> popen_options \<Rightarrow> bool \<Rightarrow> nat \<Rightarrow> popen_sys \<Rightarrow> popen_sys result" where
  "feed_write cap o' sigpipe_ignored k s = (case write_portion cap (stdin_data o') k s of (t, k', done) \<Rightarrow>
     (case done of None \<Rightarrow> Inr (t\<lparr>main := Feed_writing k'\<rparr>)
      | Some ok \<Rightarrow> if ok \<or> sigpipe_ignored then Inr (enter_wait (CloseStdin t)) else Inl Terminated))"

text \<open>What \<open>poll\<close> reports: data or the end of the stream, a reader with room or none, a byte in the timer pipe.\<close>

definition out_ready :: "popen_sys \<Rightarrow> bool" where
  "out_ready s \<longleftrightarrow> parent_stdout_read s \<and> (out_data s \<noteq> [] \<or> \<not> out_writer s)"

definition err_ready :: "popen_sys \<Rightarrow> bool" where
  "err_ready s \<longleftrightarrow> parent_stderr_read s \<and> (err_data s \<noteq> [] \<or> \<not> err_writer s)"

definition stdin_polled :: "popen_options \<Rightarrow> popen_sys \<Rightarrow> bool" where
  "stdin_polled o' s \<longleftrightarrow> parent_stdin_write s \<and> stdin_offset s < length (stdin_data o')"

definition stdin_ready :: "nat \<Rightarrow> popen_options \<Rightarrow> popen_sys \<Rightarrow> bool" where
  "stdin_ready cap o' s \<longleftrightarrow> stdin_polled o' s \<and> (length (in_data s) < cap \<or> \<not> in_reader s)"

definition timer_ready :: "popen_sys \<Rightarrow> bool" where
  "timer_ready s \<longleftrightarrow> timer_read s \<and> 0 < timer_bytes s"

definition polls_nothing :: "popen_options \<Rightarrow> popen_sys \<Rightarrow> bool" where
  "polls_nothing o' s \<longleftrightarrow> \<not> parent_stdout_read s \<and> \<not> parent_stderr_read s \<and> \<not> stdin_polled o' s \<and> \<not> timer_read s"

text \<open>Draining one output; the second component asks for an abort.\<close>

definition drain_stdout :: "popen_options \<Rightarrow> popen_sys \<Rightarrow> popen_sys \<times> bool" where
  "drain_stdout o' s = (if \<not> out_ready s then (s, False)
     else let r = result' s; (ok, buf, tr, left) = DrainFd o' (stdout_callback o') (stdout_data r) (output_truncated r) (out_data s)
       in (s\<lparr>out_data := left, result' := r\<lparr>stdout_data := buf, output_truncated := tr\<rparr>, parent_stdout_read := ok \<and> out_writer s\<rparr>, \<not> ok))"

definition drain_stderr :: "popen_options \<Rightarrow> popen_sys \<Rightarrow> popen_sys \<times> bool" where
  "drain_stderr o' s = (if \<not> err_ready s then (s, False)
     else let r = result' s; (ok, buf, tr, left) = DrainFd o' (stderr_callback o') (stderr_data r) (output_truncated r) (err_data s)
       in (s\<lparr>err_data := left, result' := r\<lparr>stderr_data := buf, output_truncated := tr\<rparr>, parent_stderr_read := ok \<and> err_writer s\<rparr>, \<not> ok))"

text \<open>A signal to a child that was waited for goes to whatever process has its number now.\<close>

definition send_term :: "popen_sys \<Rightarrow> popen_sys" where
  "send_term s = (case child s of Reaped _ \<Rightarrow> s\<lparr>stray_kill := True\<rparr> | Lost _ \<Rightarrow> s\<lparr>stray_kill := True\<rparr> | _ \<Rightarrow> s\<lparr>term_sent := True\<rparr>)"

definition send_kill :: "popen_sys \<Rightarrow> popen_sys" where
  "send_kill s = (case child s of Child_running \<Rightarrow> s\<lparr>child := Zombie (Signaled 9), in_reader := False, out_writer := False, err_writer := False\<rparr>
     | Reaped _ \<Rightarrow> s\<lparr>stray_kill := True\<rparr> | Lost _ \<Rightarrow> s\<lparr>stray_kill := True\<rparr> | _ \<Rightarrow> s)"

text \<open>The end of a round: an abort signals the child unless the timer did; a round that leaves nothing open is the last.\<close>

definition end_of_round :: "bool \<Rightarrow> popen_sys \<Rightarrow> popen_sys" where
  "end_of_round abort s = (if abort then (if \<not> timed_out' s \<and> child_pid s then send_term s else s)\<lparr>main := Draining\<rparr>
     else if \<not> parent_stdout_read s \<and> \<not> parent_stderr_read s \<and> \<not> parent_stdin_write s then s\<lparr>main := Draining\<rparr>
     else s\<lparr>main := Driving\<rparr>)"

text \<open>A round. A write goes on in \<open>Writing\<close>, with the abort that the round has found so far; a full pipe without a reader is
  closed without a write.\<close>

definition drive_round :: "nat \<Rightarrow> popen_options \<Rightarrow> popen_sys \<Rightarrow> popen_sys" where
  "drive_round cap o' s = (if polls_nothing o' s then s\<lparr>main := Draining\<rparr>
     else let write = stdin_ready cap o' s; fired = timer_ready s; room = length (in_data s) < cap;
         (s1, a1) = drain_stdout o' s; (s2, a2) = drain_stderr o' s1; abort = a1 \<or> a2 \<or> fired
       in if write then (if room then s2\<lparr>main := Writing abort 0\<rparr> else end_of_round abort (CloseStdin s2))
          else end_of_round abort s2)"

text \<open>What a write has written counts; a write that found no reader at once closes the pipe.\<close>

definition write_some :: "nat \<Rightarrow> popen_options \<Rightarrow> bool \<Rightarrow> bool \<Rightarrow> nat \<Rightarrow> popen_sys \<Rightarrow> popen_sys result" where
  "write_some cap o' sigpipe_ignored abort k s = (case write_portion cap (drop (stdin_offset s) (stdin_data o')) k s of (t, k', done) \<Rightarrow>
     (case done of None \<Rightarrow> Inr (t\<lparr>main := Writing abort k'\<rparr>)
      | Some ok \<Rightarrow> if ok \<or> sigpipe_ignored
          then let t1 = t\<lparr>stdin_offset := stdin_offset t + k'\<rparr>
            in Inr (end_of_round abort (if length (stdin_data o') \<le> stdin_offset t1 \<or> k' = 0 then CloseStdin t1 else t1))
          else Inl Terminated))"

text \<open>After the loop: what is left in the pipes, and all ends of the parent are closed.\<close>

definition drain_rest :: "popen_options \<Rightarrow> popen_sys \<Rightarrow> popen_sys" where
  "drain_rest o' s = (let r = result' s;
     (ok1, buf1, tr1, left1) = (if parent_stdout_read s then DrainFd o' (stdout_callback o') (stdout_data r) (output_truncated r) (out_data s)
       else (True, stdout_data r, output_truncated r, out_data s));
     (ok2, buf2, tr2, left2) = (if parent_stderr_read s then DrainFd o' (stderr_callback o') (stderr_data r) tr1 (err_data s)
       else (True, stderr_data r, tr1, err_data s))
     in CloseStdin (s\<lparr>out_data := left1, err_data := left2, parent_stdout_read := False, parent_stderr_read := False,
          result' := r\<lparr>stdout_data := buf1, stderr_data := buf2, output_truncated := tr2\<rparr>, main := Reaping 0\<rparr>))"

section \<open>Waiting for the child\<close>

definition max_iterations :: "popen_options \<Rightarrow> int" where
  "max_iterations o' = (if 0 < timeout o' then sint (word_of_int ((timeout o' + kill_grace_period o' + 1000) div 10) :: 32 word) else int_max)"

definition set_status :: "exit_status \<Rightarrow> popen_result \<Rightarrow> popen_result" where
  "set_status st r = (case st of Exited c \<Rightarrow> r\<lparr>raw_exit_status := Some st, exited_normally := True, exit_code := c\<rparr>
     | Signaled n \<Rightarrow> r\<lparr>raw_exit_status := Some st, killed_by_signal := True, signal_number := n\<rparr>)"

text \<open>A failed \<open>waitpid\<close> leaves the status word 0.\<close>

definition reap :: "popen_sys \<Rightarrow> popen_sys" where
  "reap s = (case child s of Zombie st \<Rightarrow> s\<lparr>child := Reaped st, child_pid := False, result' := set_status st (result' s), main := Cancelling\<rparr>
     | Lost _ \<Rightarrow> s\<lparr>child_pid := False, result' := set_status (Exited 0) (result' s), main := Cancelling\<rparr> | _ \<Rightarrow> s)"

definition waitpid_round :: "popen_options \<Rightarrow> nat \<Rightarrow> popen_sys \<Rightarrow> popen_sys" where
  "waitpid_round o' i s = (if \<not> child_pid s then s\<lparr>main := Cancelling\<rparr>
     else if max_iterations o' \<le> int i then s\<lparr>main := Blocking\<rparr>
     else case child s of Child_running \<Rightarrow> s\<lparr>main := Reaping (i + 1)\<rparr> | _ \<Rightarrow> reap s)"

text \<open>The end of \<open>Wait\<close>: the results, then the timer is cancelled and joined.\<close>

definition cancel_timer :: "popen_sys \<Rightarrow> popen_sys" where
  "cancel_timer s = (let s1 = s\<lparr>result' := (result' s)\<lparr>elapsed_ms := now_ms s - start_ms s, timed_out := timed_out' s\<rparr>\<rparr> in
     if timer s = No_timer then s1\<lparr>timer_read := False, main := Returned\<rparr>
     else if timer_write s then s1\<lparr>timer_bytes := timer_bytes s + 1, timer_write := False, main := Joining_timer\<rparr>
     else s1\<lparr>main := Joining_timer\<rparr>)"

definition join_timer :: "popen_sys \<Rightarrow> popen_sys" where
  "join_timer s = s\<lparr>timer := No_timer, timer_read := False, main := Returned\<rparr>"

section \<open>Timer thread and child\<close>

text \<open>\<open>RunTimer\<close>, cut at its two waits and before its last write. A negative grace period has no end.\<close>

definition RunTimer :: "popen_options \<Rightarrow> popen_sys \<Rightarrow> popen_sys" where
  "RunTimer o' s = (case timer s of
     Timer_waiting d \<Rightarrow> if 0 < timer_bytes s then s\<lparr>timer := Timer_done\<rparr>
       else if d \<le> now_ms s then send_term (s\<lparr>timed_out' := True, timer := Timer_grace (now_ms s + min (kill_grace_period o') int_max)\<rparr>) else s
   | Timer_grace d \<Rightarrow> if 0 < timer_bytes s then s\<lparr>timer := Timer_signalling\<rparr>
       else if 0 \<le> kill_grace_period o' \<and> d \<le> now_ms s then send_kill (s\<lparr>timer := Timer_signalling\<rparr>) else s
   | Timer_signalling \<Rightarrow> s\<lparr>timer_bytes := timer_bytes s + (if timer_write s then 1 else 0), timer := Timer_done\<rparr>
   | _ \<Rightarrow> s)"

datatype child_action = Child_reads nat | Child_prints string | Child_complains string | Child_closes_in | Child_closes_out | Child_ends exit_status | Child_lost

definition child_act :: "nat \<Rightarrow> child_action \<Rightarrow> popen_sys \<Rightarrow> popen_sys" where
  "child_act cap a s = (case a of Child_reads n \<Rightarrow> s\<lparr>in_data := drop n (in_data s)\<rparr>
     | Child_prints t \<Rightarrow> s\<lparr>out_data := out_data s @ t\<rparr> | Child_complains t \<Rightarrow> s\<lparr>err_data := err_data s @ t\<rparr>
     | Child_closes_in \<Rightarrow> s\<lparr>in_reader := False\<rparr> | Child_closes_out \<Rightarrow> s\<lparr>out_writer := False\<rparr>
     | Child_ends st \<Rightarrow> s\<lparr>child := Zombie st, in_reader := False, out_writer := False, err_writer := False\<rparr>
     | Child_lost \<Rightarrow> (case child s of Zombie st \<Rightarrow> s\<lparr>child := Lost st\<rparr> | _ \<Rightarrow> s))"

definition child_can :: "nat \<Rightarrow> child_action \<Rightarrow> popen_sys \<Rightarrow> bool" where
  "child_can cap a s = (case a of Child_lost \<Rightarrow> (case child s of Zombie _ \<Rightarrow> True | _ \<Rightarrow> False)
     | _ \<Rightarrow> child s = Child_running \<and> (case a of Child_reads n \<Rightarrow> in_reader s \<and> 0 < n \<and> n \<le> length (in_data s)
       | Child_prints t \<Rightarrow> out_writer s \<and> t \<noteq> [] \<and> length (out_data s) + length t \<le> cap
       | Child_complains t \<Rightarrow> err_writer s \<and> t \<noteq> [] \<and> length (err_data s) + length t \<le> cap | _ \<Rightarrow> True))"

section \<open>Steps\<close>

datatype popen_event = Main_step bool | Timer_step | Child_step child_action | Clock_tick nat

definition main_step :: "nat \<Rightarrow> popen_options \<Rightarrow> bool \<Rightarrow> bool \<Rightarrow> popen_sys \<Rightarrow> popen_sys result" where
  "main_step cap o' sigpipe_ignored fork_ok s = (case main s of
     Not_started \<Rightarrow> Inr (Popen_Start o' fork_ok s)
   | Feeding \<Rightarrow> Inr (feed_stdin o' s)
   | Feed_writing k \<Rightarrow> feed_write cap o' sigpipe_ignored k s
   | Driving \<Rightarrow> Inr (drive_round cap o' s)
   | Writing abort k \<Rightarrow> write_some cap o' sigpipe_ignored abort k s
   | Draining \<Rightarrow> Inr (drain_rest o' s)
   | Reaping i \<Rightarrow> Inr (waitpid_round o' i s)
   | Blocking \<Rightarrow> Inr (reap s)
   | Cancelling \<Rightarrow> Inr (cancel_timer s)
   | Joining_timer \<Rightarrow> Inr (join_timer s)
   | _ \<Rightarrow> Inr s)"

text \<open>Where the calling thread does not have to wait.\<close>

definition main_can :: "nat \<Rightarrow> popen_options \<Rightarrow> popen_sys \<Rightarrow> bool" where
  "main_can cap o' s \<longleftrightarrow> (case main s of Start_failed \<Rightarrow> False | Returned \<Rightarrow> False
     | Driving \<Rightarrow> polls_nothing o' s \<or> out_ready s \<or> err_ready s \<or> stdin_ready cap o' s \<or> timer_ready s
     | Feed_writing _ \<Rightarrow> length (in_data s) < cap \<or> \<not> in_reader s
     | Writing _ _ \<Rightarrow> length (in_data s) < cap \<or> \<not> in_reader s
     | Blocking \<Rightarrow> child s \<noteq> Child_running
     | Joining_timer \<Rightarrow> timer s = Timer_done | _ \<Rightarrow> True)"

fun popen_step :: "nat \<Rightarrow> popen_options \<Rightarrow> bool \<Rightarrow> popen_event \<Rightarrow> popen_sys \<Rightarrow> popen_sys result" where
  "popen_step cap o' sigpipe_ignored (Main_step fork_ok) s = main_step cap o' sigpipe_ignored fork_ok s"
| "popen_step cap o' sigpipe_ignored Timer_step s = Inr (RunTimer o' s)"
| "popen_step cap o' sigpipe_ignored (Child_step a) s = Inr (child_act cap a s)"
| "popen_step cap o' sigpipe_ignored (Clock_tick d) s = Inr (s\<lparr>now_ms := now_ms s + int d\<rparr>)"

definition popen_ready :: "nat \<Rightarrow> popen_options \<Rightarrow> popen_event \<Rightarrow> popen_sys \<Rightarrow> bool" where
  "popen_ready cap o' e s \<longleftrightarrow> (case e of Main_step _ \<Rightarrow> main_can cap o' s | Child_step a \<Rightarrow> child_can cap a s | _ \<Rightarrow> True)"

section \<open>The other calls\<close>

text \<open>\<open>Start\<close> and \<open>Wait\<close> throw \<open>logic_error\<close> when called twice or in the wrong order; \<open>Terminate\<close>, \<open>Kill\<close>, \<open>IsRunning\<close>, \<open>GetPid\<close>
  look at the process number. A zombie counts as running.\<close>

definition Start_throws :: "popen_sys \<Rightarrow> bool" where "Start_throws s = started s"

definition Wait_throws :: "popen_sys \<Rightarrow> bool" where "Wait_throws s \<longleftrightarrow> \<not> started s \<or> waited s"

definition Popen_Terminate :: "popen_sys \<Rightarrow> popen_sys" where
  "Popen_Terminate s = (if child_pid s then send_term s else s)"

definition Popen_Kill :: "popen_sys \<Rightarrow> popen_sys" where
  "Popen_Kill s = (if child_pid s then send_kill s else s)"

definition Popen_IsRunning :: "popen_sys \<Rightarrow> bool" where
  "Popen_IsRunning s \<longleftrightarrow> child_pid s \<and> (case child s of Child_running \<Rightarrow> True | Zombie _ \<Rightarrow> True | _ \<Rightarrow> False)"

text \<open>One chunk of an output for callers that drive the streams themselves: \<open>None\<close> waits, \<open>Some None\<close> is the end of the stream.\<close>

definition ReadChunkBlocking :: "nat \<Rightarrow> bool \<Rightarrow> bool \<Rightarrow> string \<Rightarrow> (string option \<times> string) option" where
  "ReadChunkBlocking n is_open writer data = (if \<not> is_open then Some (None, data)
     else if data = [] \<and> writer then None
     else if take n data = [] then Some (None, data) else Some (Some (take n data), drop n data))"

definition ReadStdoutChunk :: "popen_options \<Rightarrow> popen_sys \<Rightarrow> (string option \<times> popen_sys) option" where
  "ReadStdoutChunk o' s = map_option (\<lambda>(r, d). (r, s\<lparr>out_data := d\<rparr>)) (ReadChunkBlocking (read_buffer_size o') (parent_stdout_read s) (out_writer s) (out_data s))"

definition ReadStderrChunk :: "popen_options \<Rightarrow> popen_sys \<Rightarrow> (string option \<times> popen_sys) option" where
  "ReadStderrChunk o' s = map_option (\<lambda>(r, d). (r, s\<lparr>err_data := d\<rparr>)) (ReadChunkBlocking (read_buffer_size o') (parent_stderr_read s) (err_writer s) (err_data s))"

text \<open>The destructor, up to the join of the timer thread (which its byte ends) and the closing of the descriptors.\<close>

definition Popen_destroy :: "popen_sys \<Rightarrow> popen_sys" where
  "Popen_destroy s = (let s1 = (if child_pid s \<and> \<not> waited s then
       (let t = send_kill s in case child t of Zombie st \<Rightarrow> t\<lparr>child := Reaped st\<rparr> | _ \<Rightarrow> t) else s)
     in s1\<lparr>timer := No_timer, timer_read := False, timer_write := False, parent_stdin_write := False, parent_stdout_read := False, parent_stderr_read := False\<rparr>)"

lemma destroyed_child_is_gone: "child_pid s \<Longrightarrow> \<not> waited s \<Longrightarrow> child (Popen_destroy s) \<noteq> Child_running \<and> (\<forall>st. child (Popen_destroy s) \<noteq> Zombie st)"
  by (cases "child s") (simp_all add: Popen_destroy_def send_kill_def Let_def)

text \<open>A move hands everything over and leaves an object that was not started, but the timer thread keeps its reference to the flag of
  the old object: after a move it sets that one (\<open>RunTimer_moved\<close>), and the new object never reports the timeout.\<close>

definition Popen_move :: "popen_sys \<Rightarrow> popen_sys \<times> popen_sys" where
  "Popen_move s = (s, s\<lparr>child_pid := False, parent_stdin_write := False, parent_stdout_read := False, parent_stderr_read := False,
     timer_read := False, timer_write := False, timer := No_timer, started := False, waited := False\<rparr>)"

definition Popen_move_assign :: "popen_sys \<Rightarrow> popen_sys \<Rightarrow> popen_sys \<times> popen_sys \<times> popen_sys" where
  "Popen_move_assign this other = (Popen_destroy this, Popen_move other)"

definition RunTimer_moved :: "popen_options \<Rightarrow> popen_sys \<times> popen_sys \<Rightarrow> popen_sys \<times> popen_sys" where
  "RunTimer_moved o' objs = (case objs of (new, old) \<Rightarrow>
     let t = RunTimer o' (new\<lparr>timed_out' := timed_out' old\<rparr>) in (t\<lparr>timed_out' := timed_out' new\<rparr>, old\<lparr>timed_out' := timed_out' t\<rparr>))"

text \<open>Whatever the timer does after a move, \<open>Wait\<close> of the new object reads the flag as it was at the move.\<close>

lemma moved_timeouts_are_lost:
  "timed_out (result' (cancel_timer (fst ((RunTimer_moved o' ^^ n) (Popen_move s))))) = timed_out' s"
proof -
  have "timed_out' (fst ((RunTimer_moved o' ^^ n) (Popen_move s))) = timed_out' s"
    by (induction n) (simp_all add: Popen_move_def RunTimer_moved_def Let_def split_beta)
  then show ?thesis by (simp add: cancel_timer_def Let_def)
qed

end
