(* ===== verification/Popen_Inv.thy ===== *)
theory Popen_Inv
  imports Popen_Sys
begin

text \<open>
  Invariants of a run of \<open>PopenWrapper\<close>: what every place of the calling thread says of descriptors, child and timer
  (\<open>clean_inv\<close>), that an ended child holds no end of a pipe and that a run without a timeout has no timer (\<open>ended_inv\<close>, with the
  number of steps that are left), and that a run that only writes cannot get past its loop before the timer
  (\<open>write_only_inv\<close>).
\<close>

section \<open>What the calling thread leaves alone\<close>

definition in_loop :: "main_pc \<Rightarrow> bool" where
  "in_loop pc \<longleftrightarrow> (case pc of Feeding \<Rightarrow> True | Feed_writing _ \<Rightarrow> True | Driving \<Rightarrow> True | Writing _ _ \<Rightarrow> True | Draining \<Rightarrow> True | _ \<Rightarrow> False)"

lemma in_loop_simps [simp]: "in_loop Feeding" "in_loop (Feed_writing k)" "in_loop Driving" "in_loop (Writing a k)" "in_loop Draining"
  "\<not> in_loop Not_started" "\<not> in_loop Start_failed" "\<not> in_loop (Reaping i)" "\<not> in_loop Blocking" "\<not> in_loop Cancelling" "\<not> in_loop Joining_timer" "\<not> in_loop Returned"
  by (simp_all add: in_loop_def)

text \<open>The fields that the loop does not write.\<close>

definition io_frame where
  "io_frame s = (child_pid s, child s, (raw_exit_status (result' s), exited_normally (result' s), exit_code (result' s), killed_by_signal (result' s)),
     (timer s, timer_read s, timer_write s, timer_bytes s), timed_out' s, now_ms s, start_ms s, (in_reader s, out_writer s, err_writer s))"

lemma frame_updates [simp]:
  "io_frame (s\<lparr>main := pc\<rparr>) = io_frame s" "io_frame (s\<lparr>waited := b\<rparr>) = io_frame s" "io_frame (s\<lparr>parent_stdin_write := b\<rparr>) = io_frame s"
  "io_frame (s\<lparr>in_data := d\<rparr>) = io_frame s" "io_frame (s\<lparr>stdin_offset := k\<rparr>) = io_frame s" "io_frame (s\<lparr>stray_kill := b\<rparr>) = io_frame s" "io_frame (s\<lparr>term_sent := b\<rparr>) = io_frame s"
  "io_frame (s\<lparr>out_data := d, result' := (result' s)\<lparr>stdout_data := x, output_truncated := y\<rparr>, parent_stdout_read := b\<rparr>) = io_frame s"
  "io_frame (s\<lparr>err_data := d, result' := (result' s)\<lparr>stderr_data := x, output_truncated := y\<rparr>, parent_stderr_read := b\<rparr>) = io_frame s"
  by (simp_all add: io_frame_def)

lemma frame_term [simp]: "io_frame (send_term s) = io_frame s"
  by (cases "child s") (simp_all add: send_term_def)

lemma frame_end [simp]: "io_frame (end_of_round a s) = io_frame s" "in_loop (main (end_of_round a s))"
  by (simp_all add: end_of_round_def)

lemma frame_drain [simp]: "io_frame (fst (drain_stdout o' s)) = io_frame s" "io_frame (fst (drain_stderr o' s)) = io_frame s"
  by (simp_all add: drain_stdout_def drain_stderr_def split_beta Let_def)

lemma frame_close [simp]: "io_frame (CloseStdin s) = io_frame s" "main (CloseStdin s) = main s"
  by (simp_all add: CloseStdin_def)

lemma frame_enter [simp]: "io_frame (enter_wait s) = io_frame s" "main (enter_wait s) = Driving"
  by (simp_all add: enter_wait_def)

lemma frame_write: "io_frame (fst (write_portion cap data k s)) = io_frame s"
  by (simp add: write_portion_def Let_def)

lemma feed_stdin_frame: "io_frame (feed_stdin o' s) = io_frame s" "in_loop (main (feed_stdin o' s))"
  by (simp_all add: feed_stdin_def)

lemma drive_round_frame: "io_frame (drive_round cap o' s) = io_frame s" "in_loop (main (drive_round cap o' s))"
  by (simp_all add: drive_round_def split_beta Let_def)

lemma feed_write_frame: "feed_write cap o' ign k s = Inr t \<Longrightarrow> io_frame t = io_frame s \<and> in_loop (main t)"
  using frame_write [of cap "stdin_data o'" k s]
  by (auto simp: feed_write_def split: prod.splits option.splits if_splits)

lemma write_some_frame: "write_some cap o' ign a k s = Inr t \<Longrightarrow> io_frame t = io_frame s \<and> in_loop (main t)"
  using frame_write [of cap "drop (stdin_offset s) (stdin_data o')" k s]
  by (auto simp: write_some_def Let_def split: prod.splits option.splits if_splits)


section \<open>Nothing is left behind\<close>

definition not_reaped :: "child_state \<Rightarrow> bool" where
  "not_reaped c \<longleftrightarrow> (case c of Child_running \<Rightarrow> True | Zombie _ \<Rightarrow> True | Lost _ \<Rightarrow> True | _ \<Rightarrow> False)"

definition child_pending :: "popen_sys \<Rightarrow> bool" where
  "child_pending s \<longleftrightarrow> child_pid s \<and> not_reaped (child s) \<and>
     raw_exit_status (result' s) = None \<and> \<not> exited_normally (result' s) \<and> \<not> killed_by_signal (result' s)"

text \<open>The status of the result is that of the child; for a child that somebody else waited for it is an exit with 0.\<close>

definition reports :: "exit_status \<Rightarrow> popen_result \<Rightarrow> bool" where
  "reports st r \<longleftrightarrow> raw_exit_status r = Some st \<and> (case st of Exited c \<Rightarrow> exited_normally r \<and> exit_code r = c \<and> \<not> killed_by_signal r
     | Signaled n \<Rightarrow> killed_by_signal r \<and> signal_number r = n \<and> \<not> exited_normally r)"

definition child_settled :: "popen_sys \<Rightarrow> bool" where
  "child_settled s \<longleftrightarrow> \<not> child_pid s \<and> (case child s of Reaped st \<Rightarrow> reports st (result' s) | Lost st \<Rightarrow> reports (Exited 0) (result' s) | _ \<Rightarrow> False)"

definition ends_closed :: "popen_sys \<Rightarrow> bool" where
  "ends_closed s \<longleftrightarrow> \<not> parent_stdin_write s \<and> \<not> parent_stdout_read s \<and> \<not> parent_stderr_read s"

definition no_timer :: "popen_sys \<Rightarrow> bool" where
  "no_timer s \<longleftrightarrow> timer s = No_timer \<and> \<not> timer_read s \<and> \<not> timer_write s"

definition timer_kept :: "popen_sys \<Rightarrow> bool" where
  "timer_kept s \<longleftrightarrow> (timer s = No_timer \<longrightarrow> \<not> timer_write s)"

definition clean_inv :: "popen_sys \<Rightarrow> bool" where
  "clean_inv s \<longleftrightarrow> (case main s of
     Not_started \<Rightarrow> ends_closed s \<and> no_timer s \<and> \<not> child_pid s \<and> child s = No_child \<and>
       raw_exit_status (result' s) = None \<and> \<not> exited_normally (result' s) \<and> \<not> killed_by_signal (result' s)
   | Start_failed \<Rightarrow> ends_closed s \<and> no_timer s \<and> \<not> child_pid s \<and> child s = No_child
   | Reaping _ \<Rightarrow> child_pending s \<and> timer_kept s \<and> ends_closed s
   | Blocking \<Rightarrow> child_pending s \<and> timer_kept s \<and> ends_closed s
   | Cancelling \<Rightarrow> child_settled s \<and> timer_kept s \<and> ends_closed s
   | Joining_timer \<Rightarrow> child_settled s \<and> \<not> timer_write s \<and> ends_closed s
   | Returned \<Rightarrow> child_settled s \<and> no_timer s \<and> ends_closed s
   | _ \<Rightarrow> child_pending s \<and> timer_kept s)"

lemma clean_inv_loop: "in_loop (main s) \<Longrightarrow> clean_inv s \<longleftrightarrow> child_pending s \<and> timer_kept s"
  by (cases "main s") (simp_all add: clean_inv_def)

lemma frame_child_pending: "io_frame t = io_frame s \<Longrightarrow> child_pending t = child_pending s" "io_frame t = io_frame s \<Longrightarrow> timer_kept t = timer_kept s"
  by (simp_all add: io_frame_def child_pending_def timer_kept_def)

lemma clean_frame: "clean_inv s \<Longrightarrow> in_loop (main s) \<Longrightarrow> io_frame t = io_frame s \<Longrightarrow> in_loop (main t) \<Longrightarrow> clean_inv t"
  using frame_child_pending [of t s] clean_inv_loop [of s] clean_inv_loop [of t] by blast

lemma clean_inv_pcs:
  "main s = Start_failed \<Longrightarrow> clean_inv s = (ends_closed s \<and> no_timer s \<and> \<not> child_pid s \<and> child s = No_child)"
  "main s = Reaping i \<Longrightarrow> clean_inv s = (child_pending s \<and> timer_kept s \<and> ends_closed s)"
  "main s = Blocking \<Longrightarrow> clean_inv s = (child_pending s \<and> timer_kept s \<and> ends_closed s)"
  "main s = Cancelling \<Longrightarrow> clean_inv s = (child_settled s \<and> timer_kept s \<and> ends_closed s)"
  by (simp_all add: clean_inv_def)

lemma clean_Start:
  assumes "clean_inv s" "main s = Not_started"
  shows "clean_inv (Popen_Start o' fork_ok s)"
proof (cases fork_ok)
  case False
  then have "main (Popen_Start o' fork_ok s) = Start_failed" "ends_closed (Popen_Start o' fork_ok s) = ends_closed s"
    "no_timer (Popen_Start o' fork_ok s) = no_timer s" "child_pid (Popen_Start o' fork_ok s) = child_pid s" "child (Popen_Start o' fork_ok s) = child s"
    by (simp_all add: Popen_Start_def ForkExec_def ends_closed_def no_timer_def)
  with assms show ?thesis by (simp add: clean_inv_def)
next
  case True
  let ?t = "ForkExec o' True (s\<lparr>started := True\<rparr>)"
  have t: "child_pid ?t" "child ?t = Child_running" "result' ?t = result' s" "main ?t = Feeding" "timer ?t = timer s" "timer_write ?t = (0 < timeout o')"
    by (simp_all add: ForkExec_def)
  have "child_pending ?t" using assms t by (simp add: child_pending_def not_reaped_def clean_inv_def)
  moreover have "child_pending (?t\<lparr>timer := x\<rparr>) = child_pending ?t" for x by (simp add: child_pending_def)
  ultimately show ?thesis using True t
    by (cases "0 < timeout o'") (simp_all add: Popen_Start_def Let_def clean_inv_loop timer_kept_def)
qed

lemma frame_rest: "child_pending (drain_rest o' s) = child_pending s" "timer_kept (drain_rest o' s) = timer_kept s" "ends_closed (drain_rest o' s)"
  "main (drain_rest o' s) = Reaping 0"
  by (simp_all add: drain_rest_def CloseStdin_def Let_def split_beta child_pending_def timer_kept_def ends_closed_def)

lemma clean_rest: "clean_inv s \<Longrightarrow> main s = Draining \<Longrightarrow> clean_inv (drain_rest o' s)"
  by (simp add: clean_inv_def frame_rest)

lemma clean_reap:
  assumes "child_pending s" "timer_kept s" "ends_closed s" "child s \<noteq> Child_running"
  shows "clean_inv (reap s)"
proof -
  have "child_settled (reap s) \<and> timer_kept (reap s) \<and> ends_closed (reap s) \<and> main (reap s) = Cancelling"
    using assms by (cases "child s")
      (auto simp: reap_def child_pending_def not_reaped_def child_settled_def reports_def set_status_def timer_kept_def ends_closed_def split: exit_status.split)
  then show ?thesis by (simp add: clean_inv_def)
qed

lemma clean_waitpid:
  assumes s: "child_pending s" "timer_kept s" "ends_closed s"
  shows "clean_inv (waitpid_round o' i s)"
proof -
  have pc: "child_pending (s\<lparr>main := x\<rparr>)" "timer_kept (s\<lparr>main := x\<rparr>)" "ends_closed (s\<lparr>main := x\<rparr>)" for x
    using s by (simp_all add: child_pending_def timer_kept_def ends_closed_def)
  have "clean_inv (s\<lparr>main := Blocking\<rparr>)" "clean_inv (s\<lparr>main := Reaping (i + 1)\<rparr>)" using pc by (simp_all add: clean_inv_def)
  moreover have "child_pid s" using s by (simp add: child_pending_def)
  ultimately show ?thesis using clean_reap [OF s] by (cases "child s") (simp_all add: waitpid_round_def)
qed

lemma reports_time: "reports st (r\<lparr>elapsed_ms := x, timed_out := y\<rparr>) = reports st r"
  by (cases st) (simp_all add: reports_def)

lemma clean_cancel:
  assumes s: "child_settled s" "timer_kept s" "ends_closed s"
  shows "clean_inv (cancel_timer s)"
proof -
  have "child_settled (cancel_timer s)" "ends_closed (cancel_timer s)"
    using s by (cases "child s"; simp add: cancel_timer_def Let_def child_settled_def reports_time ends_closed_def)+
  moreover have "main (cancel_timer s) = Returned \<and> no_timer (cancel_timer s) \<or> main (cancel_timer s) = Joining_timer \<and> \<not> timer_write (cancel_timer s)"
    using s(2) by (auto simp: cancel_timer_def Let_def timer_kept_def no_timer_def)
  ultimately show ?thesis by (auto simp: clean_inv_def)
qed

lemma clean_join: "child_settled s \<Longrightarrow> \<not> timer_write s \<Longrightarrow> ends_closed s \<Longrightarrow> clean_inv (join_timer s)"
  by (cases "child s") (simp_all add: join_timer_def clean_inv_def child_settled_def no_timer_def ends_closed_def)

text \<open>The other participants only move the child and the timer.\<close>

definition child_moves :: "child_state \<Rightarrow> child_state \<Rightarrow> bool" where
  "child_moves c d \<longleftrightarrow> d = c \<or> (c = Child_running \<or> (\<exists>st. c = Zombie st)) \<and> not_reaped d"

lemma clean_other:
  assumes s: "clean_inv s" and same: "main t = main s" "child_pid t = child_pid s" "result' t = result' s" "ends_closed t = ends_closed s"
    "timer_read t = timer_read s" "timer_write t = timer_write s" "timer t = No_timer \<longleftrightarrow> timer s = No_timer" and moves: "child_moves (child s) (child t)"
  shows "clean_inv t"
proof -
  have 1: "child_pending s \<Longrightarrow> child_pending t" using same moves by (auto simp: child_pending_def child_moves_def)
  have 2: "child_settled s \<Longrightarrow> child_settled t" using same moves by (auto simp: child_settled_def child_moves_def split: child_state.splits)
  have 3: "timer_kept t = timer_kept s" "no_timer t = no_timer s" using same by (simp_all add: timer_kept_def no_timer_def)
  have 4: "child s = No_child \<Longrightarrow> child t = No_child" using moves by (simp add: child_moves_def)
  show ?thesis using s 1 2 3 4 same by (cases "main s") (simp_all add: clean_inv_def)
qed

lemma clean_timer: "clean_inv s \<Longrightarrow> clean_inv (RunTimer o' s)"
proof (erule clean_other)
  let ?t = "RunTimer o' s"
  have kill: "main (send_kill u) = main u \<and> child_pid (send_kill u) = child_pid u \<and> result' (send_kill u) = result' u \<and> ends_closed (send_kill u) = ends_closed u \<and>
      timer_read (send_kill u) = timer_read u \<and> timer_write (send_kill u) = timer_write u \<and> timer (send_kill u) = timer u \<and> child_moves (child u) (child (send_kill u))" for u
    by (cases "child u") (simp_all add: send_kill_def ends_closed_def child_moves_def not_reaped_def)
  have sig: "main (send_term u) = main u \<and> child_pid (send_term u) = child_pid u \<and> result' (send_term u) = result' u \<and> ends_closed (send_term u) = ends_closed u \<and>
      timer_read (send_term u) = timer_read u \<and> timer_write (send_term u) = timer_write u \<and> timer (send_term u) = timer u \<and> child (send_term u) = child u" for u
    by (cases "child u") (simp_all add: send_term_def ends_closed_def)
  have same: "ends_closed (s\<lparr>timer := x\<rparr>) = ends_closed s" "ends_closed (s\<lparr>timed_out' := b, timer := x\<rparr>) = ends_closed s"
    "ends_closed (s\<lparr>timer_bytes := n, timer := x\<rparr>) = ends_closed s" for b x n by (simp_all add: ends_closed_def)
  have refl: "child_moves c c" for c by (simp add: child_moves_def)
  have k: "child_moves (child s) (child (send_kill (s\<lparr>timer := x\<rparr>)))" for x using kill [of "s\<lparr>timer := x\<rparr>"] by simp
  show "main ?t = main s" "child_pid ?t = child_pid s" "result' ?t = result' s" "ends_closed ?t = ends_closed s" "timer_read ?t = timer_read s"
    "timer_write ?t = timer_write s" "timer ?t = No_timer \<longleftrightarrow> timer s = No_timer" "child_moves (child s) (child ?t)"
    by (cases "timer s"; simp add: RunTimer_def kill sig same refl k)+
qed

lemma child_act_same:
  "main (child_act cap a s) = main s" "child_pid (child_act cap a s) = child_pid s" "result' (child_act cap a s) = result' s"
  "timer (child_act cap a s) = timer s" "timer_read (child_act cap a s) = timer_read s" "timer_write (child_act cap a s) = timer_write s"
  "timer_bytes (child_act cap a s) = timer_bytes s" "timed_out' (child_act cap a s) = timed_out' s" "now_ms (child_act cap a s) = now_ms s"
  "start_ms (child_act cap a s) = start_ms s" "parent_stdin_write (child_act cap a s) = parent_stdin_write s"
  "parent_stdout_read (child_act cap a s) = parent_stdout_read s" "parent_stderr_read (child_act cap a s) = parent_stderr_read s"
  by (cases a; cases "child s"; simp add: child_act_def)+

lemma reap_same:
  "in_reader (reap s) = in_reader s" "out_writer (reap s) = out_writer s" "err_writer (reap s) = err_writer s" "timer (reap s) = timer s"
  "timer_read (reap s) = timer_read s" "timer_write (reap s) = timer_write s" "timer_bytes (reap s) = timer_bytes s" "timed_out' (reap s) = timed_out' s"
  "now_ms (reap s) = now_ms s" "start_ms (reap s) = start_ms s" "child (reap s) = Child_running \<longleftrightarrow> child s = Child_running" "child (reap s) = No_child \<longleftrightarrow> child s = No_child"
  by (cases "child s"; simp add: reap_def)+

text \<open>A round of \<open>waitpid\<close> ends the waiting, blocks, reaps or goes on.\<close>

lemma waitpid_cases:
  obtains "waitpid_round o' i s = s\<lparr>main := Cancelling\<rparr>" | "waitpid_round o' i s = s\<lparr>main := Blocking\<rparr>"
    | "waitpid_round o' i s = s\<lparr>main := Reaping (i + 1)\<rparr>" | "waitpid_round o' i s = reap s" "child s \<noteq> Child_running" "child_pid s"
proof (cases "child_pid s \<and> \<not> max_iterations o' \<le> int i \<and> child s \<noteq> Child_running")
  case True
  then have "waitpid_round o' i s = reap s" by (cases "child s") (simp_all add: waitpid_round_def)
  then show ?thesis using True that(4) by blast
next
  case False
  then consider "\<not> child_pid s" | "child_pid s" "max_iterations o' \<le> int i" | "child_pid s" "\<not> max_iterations o' \<le> int i" "child s = Child_running"
    by blast
  then show ?thesis
  proof cases
    case 1
    then have "waitpid_round o' i s = s\<lparr>main := Cancelling\<rparr>" by (simp add: waitpid_round_def)
    then show ?thesis by (rule that(1))
  next
    case 2
    then have "waitpid_round o' i s = s\<lparr>main := Blocking\<rparr>" by (simp add: waitpid_round_def)
    then show ?thesis by (rule that(2))
  next
    case 3
    then have "waitpid_round o' i s = s\<lparr>main := Reaping (i + 1)\<rparr>" by (simp add: waitpid_round_def)
    then show ?thesis by (rule that(3))
  qed
qed

lemma cancel_same:
  "child (cancel_timer s) = child s" "in_reader (cancel_timer s) = in_reader s" "out_writer (cancel_timer s) = out_writer s" "err_writer (cancel_timer s) = err_writer s"
  "timer (cancel_timer s) = timer s" "main (cancel_timer s) = (if timer s = No_timer then Returned else Joining_timer)"
  "timer_read (cancel_timer s) \<Longrightarrow> timer_read s" "timer_write (cancel_timer s) \<Longrightarrow> timer_write s"
  "timed_out (result' (cancel_timer s)) = timed_out' s" "elapsed_ms (result' (cancel_timer s)) = now_ms s - start_ms s"
  by (simp_all add: cancel_timer_def Let_def split: if_splits)

lemma clean_child: "clean_inv s \<Longrightarrow> child_can cap a s \<Longrightarrow> clean_inv (child_act cap a s)"
  by (erule clean_other; cases a; cases "child s"; simp add: child_act_def child_can_def child_moves_def not_reaped_def ends_closed_def)

lemma clean_main:
  assumes "clean_inv s" "main_can cap o' s" "main_step cap o' ign ok s = Inr t"
  shows "clean_inv t"
proof (cases "main s")
  case Not_started
  with assms clean_Start show ?thesis by (auto simp: main_step_def)
next
  case Feeding
  with assms clean_frame [OF assms(1), of t] feed_stdin_frame [of o' s] show ?thesis by (simp add: main_step_def)
next
  case (Feed_writing k)
  with assms clean_frame [OF assms(1), of t] feed_write_frame [of cap o' ign k s t] show ?thesis by (simp add: main_step_def)
next
  case Driving
  with assms clean_frame [OF assms(1), of t] drive_round_frame [of cap o' s] show ?thesis by (simp add: main_step_def)
next
  case (Writing a k)
  with assms clean_frame [OF assms(1), of t] write_some_frame [of cap o' ign a k s t] show ?thesis by (simp add: main_step_def)
next
  case Draining
  with assms clean_rest show ?thesis by (auto simp: main_step_def)
next
  case (Reaping i)
  with assms clean_waitpid show ?thesis by (auto simp: main_step_def clean_inv_def)
next
  case Blocking
  with assms clean_reap show ?thesis by (auto simp: main_step_def main_can_def clean_inv_def)
next
  case Cancelling
  with assms clean_cancel show ?thesis by (auto simp: main_step_def clean_inv_def)
next
  case Joining_timer
  with assms clean_join show ?thesis by (auto simp: main_step_def clean_inv_def)
qed (use assms in \<open>simp_all add: main_can_def\<close>)

lemma clean_step:
  assumes "clean_inv s" "popen_ready cap o' e s" "popen_step cap o' ign e s = Inr t"
  shows "clean_inv t"
proof (cases e)
  case (Main_step fork_ok)
  with assms clean_main show ?thesis by (simp add: popen_ready_def)
next
  case (Clock_tick d)
  with assms show ?thesis by (intro clean_other [OF assms(1)]) (auto simp: child_moves_def ends_closed_def)
next
  case Timer_step
  with assms clean_timer show ?thesis by auto
next
  case (Child_step a)
  with assms clean_child show ?thesis by (auto simp: popen_ready_def)
qed

interpretation popen: step_invariant clean_inv "popen_step cap o' ign" "popen_ready cap o'" for cap o' ign
  by unfold_locales (rule clean_step)

lemma clean_init: "clean_inv (popen_init now)"
  by (simp add: popen_init_def clean_inv_def ends_closed_def no_timer_def Result_default_def)

section \<open>Once the child has ended\<close>

definition ended_inv :: "popen_options \<Rightarrow> popen_sys \<Rightarrow> bool" where
  "ended_inv o' s \<longleftrightarrow> (child s = Child_running \<or> \<not> in_reader s \<and> \<not> out_writer s \<and> \<not> err_writer s) \<and> (0 < timeout o' \<or> no_timer s \<and> main s \<noteq> Joining_timer)"

lemma ended_frame: "ended_inv o' s \<Longrightarrow> io_frame t = io_frame s \<Longrightarrow> in_loop (main t) \<Longrightarrow> ended_inv o' t"
  by (cases "main t") (auto simp: ended_inv_def io_frame_def no_timer_def)

lemma ended_reap: "ended_inv o' s \<Longrightarrow> main s \<noteq> Joining_timer \<Longrightarrow> ended_inv o' (reap s)"
  by (cases "child s") (simp_all add: ended_inv_def no_timer_def reap_def)

lemma ended_main:
  assumes "ended_inv o' s" "main_can cap o' s" "main_step cap o' ign ok s = Inr t"
  shows "ended_inv o' t"
proof (cases "main s")
  case Not_started
  then have t: "t = Popen_Start o' ok s" using assms(3) by (simp add: main_step_def)
  show ?thesis using assms(1) unfolding t
    by (cases ok; cases "0 < timeout o'"; simp add: Popen_Start_def ForkExec_def ended_inv_def no_timer_def)
next
  case Feeding
  with assms ended_frame [OF assms(1), of t] feed_stdin_frame [of o' s] show ?thesis by (simp add: main_step_def)
next
  case (Feed_writing k)
  with assms ended_frame [OF assms(1), of t] feed_write_frame [of cap o' ign k s t] show ?thesis by (simp add: main_step_def)
next
  case Driving
  with assms ended_frame [OF assms(1), of t] drive_round_frame [of cap o' s] show ?thesis by (simp add: main_step_def)
next
  case (Writing a k)
  with assms ended_frame [OF assms(1), of t] write_some_frame [of cap o' ign a k s t] show ?thesis by (simp add: main_step_def)
next
  case Draining
  with assms show ?thesis by (auto simp: main_step_def drain_rest_def Let_def split_beta CloseStdin_def ended_inv_def no_timer_def)
next
  case (Reaping i)
  then have t: "t = waitpid_round o' i s" using assms(3) by (simp add: main_step_def)
  show ?thesis using assms(1) ended_reap [OF assms(1)] Reaping unfolding t by (rule_tac waitpid_cases [of o' i s]) (auto simp: ended_inv_def no_timer_def)
next
  case Blocking
  with assms ended_reap [OF assms(1)] show ?thesis by (auto simp: main_step_def main_can_def)
next
  case Cancelling
  then have t: "t = cancel_timer s" using assms(3) by (simp add: main_step_def)
  show ?thesis using assms(1) cancel_same(7,8) [of s] unfolding t by (auto simp: ended_inv_def no_timer_def cancel_same(1-6))
next
  case Joining_timer
  with assms show ?thesis by (auto simp: main_step_def join_timer_def ended_inv_def no_timer_def)
qed (use assms in \<open>simp_all add: main_can_def\<close>)

lemma ended_timer: "ended_inv o' s \<Longrightarrow> ended_inv o' (RunTimer o' s)"
  by (cases "timer s"; cases "child s"; simp add: RunTimer_def send_kill_def send_term_def ended_inv_def no_timer_def)

lemma ended_step:
  assumes "ended_inv o' s" "popen_ready cap o' e s" "popen_step cap o' ign e s = Inr t"
  shows "ended_inv o' t"
proof (cases e)
  case (Main_step fork_ok)
  with assms ended_main show ?thesis by (simp add: popen_ready_def)
next
  case (Clock_tick d)
  with assms show ?thesis by (auto simp: ended_inv_def no_timer_def)
next
  case Timer_step
  with assms ended_timer show ?thesis by auto
next
  case (Child_step a)
  have t: "t = child_act cap a s" and can: "child_can cap a s" using assms(2,3) Child_step by (simp_all add: popen_ready_def)
  show ?thesis using assms(1) can unfolding t by (cases a; cases "child s"; simp add: child_act_def child_can_def ended_inv_def no_timer_def)
qed

interpretation ended: step_invariant "ended_inv o'" "popen_step cap o' ign" "popen_ready cap o'" for cap o' ign
  by unfold_locales (rule ended_step)

text \<open>How many steps of the calling thread are left, at most.\<close>

definition steps_left :: "popen_sys \<Rightarrow> nat" where
  "steps_left s = (case main s of Feeding \<Rightarrow> 17 | Feed_writing _ \<Rightarrow> 16 | Writing _ k \<Rightarrow> if k = 0 then 12 else 15
     | Driving \<Rightarrow> (if parent_stdin_write s then 13 else 10) + (if parent_stdout_read s \<or> parent_stderr_read s then 1 else 0)
     | Draining \<Rightarrow> 9 | Reaping _ \<Rightarrow> 8 | Blocking \<Rightarrow> 7 | Cancelling \<Rightarrow> 6 | _ \<Rightarrow> 0)"

definition child_ended :: "popen_sys \<Rightarrow> bool" where
  "child_ended s \<longleftrightarrow> child s \<noteq> Child_running \<and> child s \<noteq> No_child"

lemma end_of_round_left:
  "steps_left (end_of_round a s) \<le> (if parent_stdin_write s then 13 else 10) + (if parent_stdout_read s \<or> parent_stderr_read s then 1 else 0)"
  by (simp add: end_of_round_def steps_left_def)

lemma drains_close: "\<not> out_writer s \<Longrightarrow> \<not> parent_stdout_read (fst (drain_stdout o' s))" "\<not> err_writer s \<Longrightarrow> \<not> parent_stderr_read (fst (drain_stderr o' s))"
  "parent_stdout_read (fst (drain_stderr o' s)) = parent_stdout_read s" "err_writer (fst (drain_stdout o' s)) = err_writer s"
  "parent_stdin_write (fst (drain_stdout o' s)) = parent_stdin_write s" "parent_stdin_write (fst (drain_stderr o' s)) = parent_stdin_write s"
  by (simp_all add: drain_stdout_def drain_stderr_def out_ready_def err_ready_def split_beta Let_def)

lemma round_left:
  assumes s: "main s = Driving" "\<not> in_reader s" "\<not> out_writer s" "\<not> err_writer s" "\<not> timer_read s"
  shows "main_can cap o' s \<and> steps_left (drive_round cap o' s) < steps_left s"
proof (cases "polls_nothing o' s")
  case True
  then show ?thesis using s by (simp add: main_can_def drive_round_def steps_left_def)
next
  case False
  let ?t = "fst (drain_stderr o' (fst (drain_stdout o' s)))"
  have t: "\<not> parent_stdout_read ?t" "\<not> parent_stderr_read ?t" "parent_stdin_write ?t = parent_stdin_write s"
    using s(3,4) by (simp_all add: drains_close)
  obtain a where r: "drive_round cap o' s = (if stdin_ready cap o' s then (if length (in_data s) < cap then ?t\<lparr>main := Writing a 0\<rparr>
      else end_of_round a (CloseStdin ?t)) else end_of_round a ?t)"
    using False by (auto simp: drive_round_def Let_def split_beta)
  have ready: "stdin_ready cap o' s \<longleftrightarrow> stdin_polled o' s" using s(2) by (simp add: stdin_ready_def)
  have can: "main_can cap o' s" using s False by (auto simp: main_can_def ready out_ready_def err_ready_def polls_nothing_def)
  show ?thesis
  proof (cases "stdin_polled o' s")
    case True
    have "steps_left s \<ge> 13" using True s(1) by (simp add: steps_left_def stdin_polled_def)
    moreover have "steps_left (end_of_round a (CloseStdin ?t)) \<le> 10"
      using end_of_round_left [of a "CloseStdin ?t"] t by (simp add: CloseStdin_def)
    moreover have "steps_left (?t\<lparr>main := Writing a 0\<rparr>) = 12" by (simp add: steps_left_def)
    ultimately show ?thesis using True can unfolding r ready by (cases "length (in_data s) < cap") (simp_all del: One_nat_def)
  next
    case polled: False
    then have "parent_stdout_read s \<or> parent_stderr_read s" using False s(5) by (simp add: polls_nothing_def)
    then have "steps_left s = (if parent_stdin_write s then 13 else 10) + 1" using s(1) by (simp add: steps_left_def)
    moreover have "steps_left (end_of_round a ?t) \<le> (if parent_stdin_write s then 13 else 10)"
      using end_of_round_left [of a ?t] t by simp
    ultimately show ?thesis using polled can unfolding r ready by simp
  qed
qed

text \<open>Every step of the calling thread is possible then, and brings it nearer to the end, or is a write to a pipe without a reader
  under the default action of \<open>SIGPIPE\<close>.\<close>

definition broken_pipe :: "nat \<Rightarrow> popen_options \<Rightarrow> bool \<Rightarrow> popen_sys \<Rightarrow> bool" where
  "broken_pipe cap o' ign s \<longleftrightarrow> \<not> ign \<and> \<not> in_reader s \<and> (\<exists>k. main s = Feed_writing k \<or> (\<exists>a. main s = Writing a k)) \<and>
     (\<forall>ok. popen_step cap o' ign (Main_step ok) s = Inl Terminated)"

lemma main_left:
  assumes clean: "clean_inv s" and ended: "ended_inv o' s" and s: "child_ended s" "main s \<noteq> Returned" and o': "timeout o' \<le> 0"
  shows "main_can cap o' s \<and> ((\<exists>t. main_step cap o' ign ok s = Inr t \<and> steps_left t < steps_left s) \<or> broken_pipe cap o' ign s)"
proof -
  have gone: "\<not> in_reader s" "\<not> out_writer s" "\<not> err_writer s" "timer s = No_timer" "\<not> timer_read s" "child s \<noteq> Child_running"
    using ended s o' by (auto simp: ended_inv_def no_timer_def child_ended_def)
  show ?thesis
  proof (cases "main s")
    case Driving
    then show ?thesis using round_left [OF Driving gone(1-3,5), of cap o'] by (simp add: main_step_def)
  next
    case Feeding
    then show ?thesis by (simp add: main_can_def main_step_def feed_stdin_def enter_wait_def steps_left_def CloseStdin_def)
  next
    case (Feed_writing k)
    then show ?thesis using gone(1)
      by (cases ign) (simp_all add: broken_pipe_def main_can_def main_step_def feed_write_def write_portion_def enter_wait_def steps_left_def CloseStdin_def)
  next
    case (Writing a k)
    show ?thesis
    proof (cases ign)
      case False
      then show ?thesis using Writing gone(1)
        by (simp add: broken_pipe_def main_can_def main_step_def write_some_def write_portion_def Let_def)
    next
      case ign: True
      define u where "u = (if length (stdin_data o') \<le> stdin_offset s + k \<or> k = 0 then CloseStdin (s\<lparr>stdin_offset := stdin_offset s + k\<rparr>)
        else s\<lparr>stdin_offset := stdin_offset s + k\<rparr>)"
      have step: "main_step cap o' ign ok s = Inr (end_of_round a u)"
        using Writing gone(1) ign by (simp add: main_step_def write_some_def write_portion_def Let_def u_def)
      have "steps_left (end_of_round a u) \<le> (if parent_stdin_write u then 14 else 11)"
        using end_of_round_left [of a u] by (auto split: if_splits)
      moreover have "\<not> parent_stdin_write u" if "k = 0" using that by (simp add: u_def CloseStdin_def)
      ultimately have "steps_left (end_of_round a u) < (if k = 0 then 12 else 15)" by (auto split: if_splits)
      also have "\<dots> = steps_left s" using Writing by (simp add: steps_left_def)
      finally show ?thesis using Writing step gone(1) by (simp add: main_can_def)
    qed
  next
    case Draining
    then show ?thesis by (simp add: main_can_def main_step_def drain_rest_def Let_def split_beta CloseStdin_def steps_left_def)
  next
    case (Reaping i)
    then have "child_pending s" using clean by (simp add: clean_inv_def)
    then show ?thesis using Reaping gone(6)
      by (cases "child s") (simp_all add: main_can_def main_step_def waitpid_round_def reap_def steps_left_def child_pending_def not_reaped_def)
  next
    case Blocking
    then have "child_pending s" using clean by (simp add: clean_inv_def)
    then show ?thesis using Blocking gone(6)
      by (cases "child s") (simp_all add: main_can_def main_step_def reap_def steps_left_def child_pending_def not_reaped_def)
  next
    case Cancelling
    then show ?thesis using gone(4) by (simp add: main_can_def main_step_def cancel_timer_def Let_def steps_left_def)
  next
    case Joining_timer
    then show ?thesis using ended o' by (simp add: ended_inv_def)
  qed (use clean s in \<open>simp_all add: clean_inv_def child_ended_def\<close>)
qed

lemma main_keeps_ended:
  assumes s: "child_ended s" "main s \<noteq> Not_started" "main_step cap o' ign ok s = Inr t" "main_can cap o' s"
  shows "child_ended t"
proof -
  have f: "io_frame t = io_frame s \<Longrightarrow> child_ended t" using s(1) by (simp add: io_frame_def child_ended_def)
  have u: "child t = child s \<Longrightarrow> child_ended t" using s(1) by (simp add: child_ended_def)
  have r: "child_ended (reap s)" using s(1) by (simp add: child_ended_def reap_same)
  show ?thesis
  proof (cases "main s")
    case (Reaping i)
    with s have t: "t = waitpid_round o' i s" by (simp add: main_step_def)
    show ?thesis using u r unfolding t by (rule_tac waitpid_cases [of o' i s]) auto
  qed (use s f u r feed_stdin_frame [of o' s] feed_write_frame [of cap o' ign _ s t] drive_round_frame [of cap o' s] write_some_frame [of cap o' ign _ _ s t]
    in \<open>auto simp: main_step_def main_can_def drain_rest_def CloseStdin_def Let_def split_beta cancel_timer_def join_timer_def\<close>)
qed

section \<open>A run that only writes\<close>

definition waited_for :: "popen_options \<Rightarrow> int" where
  "waited_for o' = min (timeout o') int_max"

definition fired :: "popen_options \<Rightarrow> popen_sys \<Rightarrow> bool" where
  "fired o' s \<longleftrightarrow> timed_out' s \<and> start_ms s + waited_for o' \<le> now_ms s"

definition timer_honest :: "popen_options \<Rightarrow> popen_sys \<Rightarrow> bool" where
  "timer_honest o' s \<longleftrightarrow> timer_read s \<and> (0 < timer_bytes s \<longrightarrow> fired o' s) \<and>
     (case timer s of No_timer \<Rightarrow> False | Timer_waiting d \<Rightarrow> d = start_ms s + waited_for o' | _ \<Rightarrow> fired o' s)"

definition only_stdin :: "popen_sys \<Rightarrow> bool" where
  "only_stdin s \<longleftrightarrow> \<not> parent_stdout_read s \<and> \<not> parent_stderr_read s"

definition write_only_inv :: "popen_options \<Rightarrow> popen_sys \<Rightarrow> bool" where
  "write_only_inv o' s \<longleftrightarrow> (case main s of
     Not_started \<Rightarrow> timer s = No_timer \<and> timer_bytes s = 0
   | Start_failed \<Rightarrow> timer s = No_timer
   | Feeding \<Rightarrow> timer_honest o' s \<and> only_stdin s
   | Feed_writing _ \<Rightarrow> timer_honest o' s \<and> only_stdin s
   | Driving \<Rightarrow> timer_honest o' s \<and> only_stdin s \<and> \<not> parent_stdin_write s
   | Writing _ _ \<Rightarrow> False
   | Joining_timer \<Rightarrow> timed_out (result' s) \<and> waited_for o' \<le> elapsed_ms (result' s)
   | Returned \<Rightarrow> timed_out (result' s) \<and> waited_for o' \<le> elapsed_ms (result' s)
   | _ \<Rightarrow> fired o' s)"

lemma honest_same: "timer t = timer s \<Longrightarrow> timer_read t = timer_read s \<Longrightarrow> timer_bytes t = timer_bytes s \<Longrightarrow> timed_out' t = timed_out' s \<Longrightarrow>
    now_ms t = now_ms s \<Longrightarrow> start_ms t = start_ms s \<Longrightarrow> timer_honest o' t = timer_honest o' s"
  by (cases "timer s") (simp_all add: timer_honest_def fired_def)

lemma honest_frame: "io_frame t = io_frame s \<Longrightarrow> timer_honest o' t \<longleftrightarrow> timer_honest o' s"
  by (rule honest_same) (simp_all add: io_frame_def)

lemma fired_frame: "io_frame t = io_frame s \<Longrightarrow> fired o' t \<longleftrightarrow> fired o' s"
  by (simp add: io_frame_def fired_def)

lemma write_only_reap: "fired o' s \<Longrightarrow> main s = Blocking \<or> (\<exists>i. main s = Reaping i) \<Longrightarrow> write_only_inv o' (reap s)"
  by (cases "child s") (auto simp: reap_def write_only_inv_def fired_def)

lemma write_only_main:
  assumes o': "mode' o' = kWriteOnly" "0 < timeout o'" "\<not> need_stderr o'"
    and inv: "write_only_inv o' s" and can: "main_can cap o' s" and step: "main_step cap o' ign ok s = Inr t"
  shows "write_only_inv o' t"
proof (cases "main s")
  case Not_started
  then have t: "t = Popen_Start o' ok s" using step by (simp add: main_step_def)
  show ?thesis using o' Not_started inv unfolding t
    by (cases ok) (simp_all add: Popen_Start_def ForkExec_def Let_def write_only_inv_def timer_honest_def only_stdin_def waited_for_def need_stdout_def)
next
  case Feeding
  then have t: "t = feed_stdin o' s" and s: "timer_honest o' s" "only_stdin s" using step inv by (simp_all add: main_step_def write_only_inv_def)
  have "timer_honest o' t" using s honest_frame [OF feed_stdin_frame(1)] unfolding t by blast
  moreover have "only_stdin t" using s(2) unfolding t by (simp add: feed_stdin_def enter_wait_def CloseStdin_def only_stdin_def)
  moreover have "main t = Driving \<and> \<not> parent_stdin_write t \<or> (\<exists>k. main t = Feed_writing k)"
    using o' unfolding t by (simp add: feed_stdin_def enter_wait_def CloseStdin_def need_stdin_def)
  ultimately show ?thesis by (auto simp: write_only_inv_def)
next
  case (Feed_writing k)
  then have t: "feed_write cap o' ign k s = Inr t" and s: "timer_honest o' s" "only_stdin s" using step inv by (simp_all add: main_step_def write_only_inv_def)
  have "timer_honest o' t" using s honest_frame feed_write_frame [OF t] by blast
  moreover have "only_stdin t \<and> (main t = Driving \<and> \<not> parent_stdin_write t \<or> (\<exists>k. main t = Feed_writing k))"
    using t s(2) by (auto simp: feed_write_def write_portion_def Let_def enter_wait_def CloseStdin_def only_stdin_def split: if_splits)
  ultimately show ?thesis by (auto simp: write_only_inv_def)
next
  case Driving
  then have s: "timer_honest o' s" "\<not> parent_stdout_read s" "\<not> parent_stderr_read s" "\<not> parent_stdin_write s"
    using inv by (simp_all add: write_only_inv_def only_stdin_def)
  have p: "\<not> polls_nothing o' s" using s(1) by (simp add: polls_nothing_def timer_honest_def)
  then have ready: "timer_ready s" using can Driving s by (simp add: main_can_def out_ready_def err_ready_def stdin_ready_def stdin_polled_def)
  have t: "t = end_of_round True s" using p s ready step Driving
    by (simp add: main_step_def drive_round_def stdin_ready_def stdin_polled_def drain_stdout_def drain_stderr_def out_ready_def err_ready_def)
  have "fired o' s" using s(1) ready by (simp add: timer_honest_def timer_ready_def)
  then have "fired o' t" unfolding t by (simp add: fired_frame [OF frame_end(1)])
  moreover have "main t = Draining" unfolding t by (simp add: end_of_round_def)
  ultimately show ?thesis by (simp add: write_only_inv_def)
next
  case Draining
  with step inv show ?thesis by (auto simp: main_step_def drain_rest_def Let_def split_beta CloseStdin_def write_only_inv_def fired_def)
next
  case (Reaping i)
  then have t: "t = waitpid_round o' i s" and f: "fired o' s" using step inv by (simp_all add: main_step_def write_only_inv_def)
  show ?thesis unfolding t
  proof (rule waitpid_cases [of o' i s])
    assume r: "waitpid_round o' i s = reap s" "child s \<noteq> Child_running"
    then show "write_only_inv o' (waitpid_round o' i s)" using write_only_reap [OF f] Reaping by simp
  qed (use f in \<open>simp_all add: write_only_inv_def fired_def\<close>)
next
  case Blocking
  then have t: "t = reap s" and f: "fired o' s" using step inv by (simp_all add: main_step_def write_only_inv_def)
  then show ?thesis using write_only_reap [OF f] Blocking unfolding t by simp
next
  case Cancelling
  then have t: "t = cancel_timer s" and "fired o' s" using step inv by (simp_all add: main_step_def write_only_inv_def)
  then show ?thesis unfolding t by (auto simp: write_only_inv_def fired_def cancel_same)
next
  case Joining_timer
  with step inv show ?thesis by (auto simp: main_step_def join_timer_def write_only_inv_def)
qed (use assms in \<open>simp_all add: main_can_def write_only_inv_def\<close>)

lemma write_only_other:
  assumes "write_only_inv o' s" "main t = main s" "only_stdin t = only_stdin s" "parent_stdin_write t = parent_stdin_write s" "result' t = result' s"
    "fired o' s \<Longrightarrow> fired o' t" "timer_honest o' s \<Longrightarrow> timer_honest o' t" "timer s = No_timer \<Longrightarrow> timer t = No_timer \<and> timer_bytes t = timer_bytes s"
  shows "write_only_inv o' t"
  using assms by (cases "main s") (simp_all add: write_only_inv_def)

lemma write_only_timer: "write_only_inv o' s \<Longrightarrow> write_only_inv o' (RunTimer o' s)"
proof (erule write_only_other)
  let ?t = "RunTimer o' s"
  show "main ?t = main s" "only_stdin ?t = only_stdin s" "parent_stdin_write ?t = parent_stdin_write s" "result' ?t = result' s"
    "fired o' s \<Longrightarrow> fired o' ?t" "timer s = No_timer \<Longrightarrow> timer ?t = No_timer \<and> timer_bytes ?t = timer_bytes s"
    by (cases "timer s"; cases "child s"; simp add: RunTimer_def send_kill_def send_term_def only_stdin_def fired_def)+
  show "timer_honest o' ?t" if "timer_honest o' s"
    using that by (cases "timer s"; cases "child s"; simp add: RunTimer_def send_kill_def send_term_def timer_honest_def fired_def)
qed

lemma write_only_step:
  assumes o': "mode' o' = kWriteOnly" "0 < timeout o'" "\<not> need_stderr o'"
    and inv: "write_only_inv o' s" and can: "popen_ready cap o' e s" and step: "popen_step cap o' ign e s = Inr t"
  shows "write_only_inv o' t"
proof (cases e)
  case (Main_step ok)
  with write_only_main [OF o' inv] can step show ?thesis by (simp add: popen_ready_def)
next
  case (Clock_tick d)
  then have t: "t = s\<lparr>now_ms := now_ms s + int d\<rparr>" using step by simp
  have f: "fired o' s \<Longrightarrow> fired o' t" unfolding t by (simp add: fired_def)
  moreover have "timer_honest o' s \<Longrightarrow> timer_honest o' t" using f unfolding t by (cases "timer s") (auto simp: timer_honest_def)
  moreover have "only_stdin t = only_stdin s" unfolding t by (simp add: only_stdin_def)
  ultimately show ?thesis using write_only_other [OF inv, of t] unfolding t by simp
next
  case Timer_step
  with inv step write_only_timer show ?thesis by auto
next
  case (Child_step a)
  then have t: "t = child_act cap a s" using step by simp
  show ?thesis unfolding t using inv
    by (rule write_only_other) (simp_all add: child_act_same only_stdin_def fired_def honest_same [of "child_act cap a s" s])
qed

end
