(* ===== verification/Popen_Run.thy ===== *)
theory Popen_Run
  imports Popen_Inv
begin

text \<open>
  What a run of \<open>PopenWrapper\<close> guarantees, and runs to compute with: what it leaves behind, when it returns, and what its timeout
  does.
\<close>

section \<open>Runs\<close>

definition some_options :: "popen_mode \<Rightarrow> int \<Rightarrow> string \<Rightarrow> popen_options" where
  "some_options m ms input = \<lparr>command = [''cat''], executable_path = [], shell = False, mode' = m, capture_stderr = False, merge_stderr_into_stdout = False, working_directory = [],
     extra_env = [], replace_env = False, timeout = ms, kill_grace_period = 3000, max_output_bytes = 0, stdout_callback = None, stderr_callback = None,
     read_buffer_size = 4, stdin_data = input\<rparr>"

definition popen_after :: "nat \<Rightarrow> popen_options \<Rightarrow> bool \<Rightarrow> popen_event list \<Rightarrow> popen_sys option" where
  "popen_after cap o' ign es = run_events (popen_step cap o' ign) (popen_ready cap o') es (popen_init 0)"

text \<open>A child that prints and ends.\<close>

definition print_run :: "popen_event list" where
  "print_run = [Main_step True, Main_step True, Child_step (Child_prints ''hi''), Main_step True, Child_step (Child_ends (Exited 3)),
     Main_step True, Main_step True, Main_step True, Main_step True]"

lemma print_run_result: "map_option (\<lambda>s. (main s, stdout_data (result' s), exit_code (result' s), child s)) (popen_after 9 (some_options kReadOnly 0 []) True print_run) =
  Some (Returned, ''hi'', 3, Reaped (Exited 3))" by code_simp

text \<open>The child has taken its input and ended at once; the wrapper waits for the timer, and the timer signals nobody.\<close>

definition write_run :: "popen_event list" where
  "write_run = [Main_step True, Main_step True, Main_step True, Child_step (Child_reads 2), Child_step (Child_ends (Exited 0)),
     Clock_tick 5000, Timer_step, Clock_tick 3000, Timer_step, Timer_step] @ replicate 5 (Main_step True)"

lemma write_run_result: "map_option (\<lambda>s. (main s, Result_Success (result' s), timed_out (result' s), elapsed_ms (result' s)))
  (popen_after 9 (some_options kWriteOnly 5000 ''ab'') True write_run) = Some (Returned, True, True, 8000)" by code_simp

text \<open>The child does not read. The timer ends it while the caller is in its write, which ends the caller as well.\<close>

definition blocked_run :: "popen_event list" where
  "blocked_run = [Main_step True, Main_step True, Main_step True, Clock_tick 5000, Timer_step, Clock_tick 3000, Timer_step]"

theorem timeout_of_a_blocked_write_ends_the_program:
  "\<exists>s. popen_after 1 (some_options kWriteOnly 5000 ''ab'') False blocked_run = Some s \<and> main s = Feed_writing 1 \<and> child s = Zombie (Signaled 9) \<and>
     popen_step 1 (some_options kWriteOnly 5000 ''ab'') False (Main_step True) s = Inl Terminated"
proof -
  have "(case popen_after 1 (some_options kWriteOnly 5000 ''ab'') False blocked_run of None \<Rightarrow> False | Some s \<Rightarrow> main s = Feed_writing 1 \<and> child s = Zombie (Signaled 9) \<and>
     (case popen_step 1 (some_options kWriteOnly 5000 ''ab'') False (Main_step True) s of Inl f \<Rightarrow> f = Terminated | Inr _ \<Rightarrow> False))" by code_simp
  then show ?thesis by (auto split: option.splits sum.splits)
qed

text \<open>A child that ends in time, is waited for, and then the timer fires before it is told to stop.\<close>

definition late_run :: "popen_event list" where
  "late_run = [Main_step True, Main_step True, Child_step (Child_ends (Exited 0)), Main_step True, Main_step True, Main_step True, Clock_tick 5000, Timer_step]"

lemma timer_signals_a_stranger: "map_option (\<lambda>s. (child s, stray_kill s)) (popen_after 9 (some_options kReadOnly 5000 []) True late_run) = Some (Reaped (Exited 0), True)"
  by code_simp

text \<open>A child that fails is reported as a success when somebody else waited for it.\<close>

definition lost_run :: "popen_event list" where
  "lost_run = [Main_step True, Main_step True, Child_step (Child_ends (Exited 3)), Child_step Child_lost] @ replicate 4 (Main_step True)"

lemma lost_child_succeeds: "map_option (\<lambda>s. (main s, child s, Result_Success (result' s))) (popen_after 9 (some_options kReadOnly 0 []) True lost_run) =
  Some (Returned, Lost (Exited 3), True)" by code_simp

section \<open>Properties\<close>

lemma ended_init: "ended_inv o' (popen_init now)"
  by (simp add: ended_inv_def popen_init_def no_timer_def)

lemma write_only_init: "write_only_inv o' (popen_init now)"
  by (simp add: write_only_inv_def popen_init_def)

text \<open>
  C20. When \<open>Run\<close> returns, under every interleaving with the child, the timer and the clock, all descriptors are closed, the timer thread is joined,
  and either the child has been waited for here and its status is in the result, or it was waited for elsewhere and is reported as an exit with 0.
\<close>

theorem run_leaves_nothing_open:
  assumes "steps_to (popen_step cap o' sigpipe_ignored) (popen_ready cap o') (popen_init now) s" "main s = Returned"
  shows "\<not> parent_stdin_write s \<and> \<not> parent_stdout_read s \<and> \<not> parent_stderr_read s \<and> \<not> timer_read s \<and> \<not> timer_write s \<and> timer s = No_timer \<and>
    \<not> child_pid s \<and> (case child s of Reaped st \<Rightarrow> reports st (result' s) | Lost _ \<Rightarrow> reports (Exited 0) (result' s) | _ \<Rightarrow> False)"
  using popen.always [OF assms(1) clean_init] assms(2) by (simp add: clean_inv_def child_settled_def no_timer_def ends_closed_def)

theorem run_leaves_nothing_open_witness:
  "\<exists>s. popen_after 9 (some_options kReadOnly 0 []) True print_run = Some s \<and> main s = Returned \<and> timer s = No_timer \<and> exit_code (result' s) = 3"
proof -
  obtain s where s: "popen_after 9 (some_options kReadOnly 0 []) True print_run = Some s" "main s = Returned" "exit_code (result' s) = 3"
    using print_run_result by auto
  from s(1) have "steps_to (popen_step 9 (some_options kReadOnly 0 []) True) (popen_ready 9 (some_options kReadOnly 0 [])) (popen_init 0) s"
    unfolding popen_after_def by (rule run_events_steps [OF steps_refl])
  from run_leaves_nothing_open [OF this s(2)] s show ?thesis by blast
qed


lemma main_steps_return:
  assumes "clean_inv s" "ended_inv o' s" "child_ended s" "timeout o' \<le> 0"
  shows "\<exists>n \<le> steps_left s. \<exists>t. run_events (popen_step cap o' ign) (popen_ready cap o') (replicate n (Main_step ok)) s = Some t \<and>
    (main t = Returned \<or> broken_pipe cap o' ign t)"
  using assms
proof (induction "steps_left s" arbitrary: s rule: less_induct)
  case less
  show ?case
  proof (cases "main s = Returned \<or> broken_pipe cap o' ign s")
    case True
    then show ?thesis by (intro exI [of _ 0]) simp
  next
    case False
    obtain t where t: "main_can cap o' s" "main_step cap o' ign ok s = Inr t" "steps_left t < steps_left s"
      using main_left [OF less.prems(1-3) _ less.prems(4), of cap ign ok] False by blast
    have "main s \<noteq> Not_started" using less.prems(1,3) by (auto simp: clean_inv_def child_ended_def)
    then have "child_ended t" by (rule main_keeps_ended [OF less.prems(3) _ t(2,1)])
    moreover have "clean_inv t" "ended_inv o' t" using clean_main [OF less.prems(1) t(1,2)] ended_main [OF less.prems(2) t(1,2)] .
    ultimately obtain n u where n: "n \<le> steps_left t" "run_events (popen_step cap o' ign) (popen_ready cap o') (replicate n (Main_step ok)) t = Some u"
      "main u = Returned \<or> broken_pipe cap o' ign u" using less.hyps [OF t(3)] less.prems(4) by blast
    then show ?thesis using t by (intro exI [of _ "Suc n"]) (simp add: popen_ready_def)
  qed
qed

text \<open>
  C21. Without a timeout, once the child has ended, no step of the calling thread has to wait any more, and at most 17 of them bring
  \<open>Run\<close> to its return; unless the program leaves \<open>SIGPIPE\<close> at its default action and still has input to write, then at most 17
  bring it to a write to the child's closed pipe, which ends the program.
\<close>

theorem run_returns_once_the_child_ended:
  assumes "steps_to (popen_step cap o' sigpipe_ignored) (popen_ready cap o') (popen_init now) s" "timeout o' \<le> 0" "child_ended s"
  shows "\<exists>n \<le> 17. \<exists>t. run_events (popen_step cap o' sigpipe_ignored) (popen_ready cap o') (replicate n (Main_step ok)) s = Some t \<and>
    (main t = Returned \<or> broken_pipe cap o' sigpipe_ignored t)"
proof -
  have "steps_left s \<le> 17" by (simp add: steps_left_def split: main_pc.split)
  moreover have "clean_inv s" "ended_inv o' s" using popen.always [OF assms(1) clean_init] ended.always [OF assms(1) ended_init] .
  ultimately show ?thesis using main_steps_return [of s o'] assms(2,3) by (meson order_trans)
qed

text \<open>
  C35. A run in mode \<open>kWriteOnly\<close> with a timeout and without capture of the standard error never returns before the timeout (cut to the largest \<open>int\<close>,
  which \<open>poll\<close> takes), and reports that it timed out, even when the child has taken its input and ended with 0 at once.
\<close>

theorem write_only_runs_time_out:
  assumes "steps_to (popen_step cap o' sigpipe_ignored) (popen_ready cap o') (popen_init now) s" "main s = Returned"
    "mode' o' = kWriteOnly" "0 < timeout o'" "\<not> need_stderr o'"
  shows "timed_out (result' s) \<and> min (timeout o') int_max \<le> elapsed_ms (result' s)"
proof -
  have "write_only_inv o' s" using assms(1)
    by (induction "popen_init now" s rule: steps_to.induct) (blast intro: write_only_init write_only_step [OF assms(3-5)])+
  with assms(2) show ?thesis by (simp add: write_only_inv_def waited_for_def)
qed

theorem run_returns_once_the_child_ended_witness:
  "\<exists>s. popen_after 9 (some_options kReadOnly 0 []) True (take 5 print_run) = Some s \<and> (\<exists>n \<le> 17. \<exists>t. run_events (popen_step 9 (some_options kReadOnly 0 []) True)
     (popen_ready 9 (some_options kReadOnly 0 [])) (replicate n (Main_step True)) s = Some t \<and> main t = Returned)"
proof -
  have "map_option child (popen_after 9 (some_options kReadOnly 0 []) True (take 5 print_run)) = Some (Zombie (Exited 3))" by code_simp
  then obtain s where s: "popen_after 9 (some_options kReadOnly 0 []) True (take 5 print_run) = Some s" "child s = Zombie (Exited 3)" by auto
  from s(1) have "steps_to (popen_step 9 (some_options kReadOnly 0 []) True) (popen_ready 9 (some_options kReadOnly 0 [])) (popen_init 0) s"
    unfolding popen_after_def by (rule run_events_steps [OF steps_refl])
  from run_returns_once_the_child_ended [OF this, of True] s show ?thesis by (auto simp: some_options_def child_ended_def broken_pipe_def)
qed

theorem write_only_runs_time_out_witness:
  "\<exists>s. popen_after 9 (some_options kWriteOnly 5000 ''ab'') True write_run = Some s \<and> Result_Success (result' s) \<and> timed_out (result' s) \<and> 5000 \<le> elapsed_ms (result' s)"
proof -
  obtain s where s: "popen_after 9 (some_options kWriteOnly 5000 ''ab'') True write_run = Some s" "main s = Returned" "Result_Success (result' s)"
    using write_run_result by auto
  from s(1) have "steps_to (popen_step 9 (some_options kWriteOnly 5000 ''ab'') True) (popen_ready 9 (some_options kWriteOnly 5000 ''ab'')) (popen_init 0) s"
    unfolding popen_after_def by (rule run_events_steps [OF steps_refl])
  from write_only_runs_time_out [OF this s(2)] s show ?thesis by (auto simp: some_options_def need_stderr_def int_max_def)
qed

end
