(* ===== verification/Logger.thy ===== *)
theory Logger
  imports Lock_Contract
begin

text \<open>
  \<open>Logger\<close> and \<open>CustomLogSink\<close> (logging/logger.h, .cc): the static state of the logger, its sink with the log file, and what they set
  in the process: the sink that the logging library sends to and the signal handlers. Of the library the code relies on this:
  before \<open>InitializeLog\<close> entries go to the standard error only; to call it twice is an error, which ends the program; an entry logged by a
  sink is not sent to sinks; and the text of an entry is a function of its message here (\<open>entry_text\<close>). \<open>opens\<close> says which files can be
  opened.
\<close>

record log_env =
  opens :: "string \<Rightarrow> bool"
  entry_text :: "string \<Rightarrow> string"
  trace_text :: "int \<Rightarrow> string"
  pid_text :: string

record log_sink =
  skip_log_to_file :: bool
  log_dir :: string
  app_name :: string
  log_file :: "string option"

record logger =
  initialized :: bool
  signal_handler_initialized :: bool
  installed_signals :: "int list"
  custom_sink :: "log_sink option"
  absl_initialized :: bool
  sink_registered :: bool
  handled :: "int list"
  files :: "string \<Rightarrow> string option"
  stamp :: string

definition logger_start :: "(string \<Rightarrow> string option) \<Rightarrow> string \<Rightarrow> logger" where
  "logger_start fs now = \<lparr>initialized = False, signal_handler_initialized = False, installed_signals = [], custom_sink = None, absl_initialized = False,
     sink_registered = False, handled = [], files = fs, stamp = now\<rparr>"

section \<open>The sink\<close>

definition GetLogFileName :: "log_env \<Rightarrow> string \<Rightarrow> log_sink \<Rightarrow> string" where
  "GetLogFileName e now k = app_name k @ ''_'' @ now @ ''_'' @ pid_text e @ ''.log''"

definition log_path :: "log_env \<Rightarrow> string \<Rightarrow> log_sink \<Rightarrow> string" where
  "log_path e now k = log_dir k @ ''/'' @ GetLogFileName e now k"

text \<open>The file is opened for appending: it is made when it is not there.\<close>

definition OpenLogFile :: "log_env \<Rightarrow> log_sink \<Rightarrow> logger \<Rightarrow> log_sink \<times> logger" where
  "OpenLogFile e k s = (let path = log_path e (stamp s) k in
     if opens e path then (k\<lparr>log_file := Some path\<rparr>, s\<lparr>files := (files s)(path \<mapsto> (case files s path of Some t \<Rightarrow> t | None \<Rightarrow> []))\<rparr>)
     else (k, s))"

definition append_file :: "string \<Rightarrow> string \<Rightarrow> logger \<Rightarrow> logger" where
  "append_file path t s = s\<lparr>files := (files s)(path \<mapsto> (case files s path of Some u \<Rightarrow> u | None \<Rightarrow> []) @ t)\<rparr>"

definition CustomLogSink_new :: "log_env \<Rightarrow> string \<Rightarrow> string \<Rightarrow> logger \<Rightarrow> log_sink \<times> logger" where
  "CustomLogSink_new e dir app s = (let k = \<lparr>skip_log_to_file = (dir = []), log_dir = dir, app_name = app, log_file = None\<rparr> in
     if dir = [] then (k, s) else OpenLogFile e k s)"

definition Send :: "log_env \<Rightarrow> string \<Rightarrow> log_sink \<Rightarrow> logger \<Rightarrow> log_sink \<times> logger" where
  "Send e t k s = (if skip_log_to_file k then (k, s)
     else let (k1, s1) = (if log_file k = None then OpenLogFile e k s else (k, s))
       in case log_file k1 of Some path \<Rightarrow> (k1, append_file path t s1) | None \<Rightarrow> (k1, s1))"

definition BackwardPrinter :: "log_env \<Rightarrow> int \<Rightarrow> log_sink \<Rightarrow> logger \<Rightarrow> logger" where
  "BackwardPrinter e sig k s = (if skip_log_to_file k then s else case log_file k of Some path \<Rightarrow> append_file path (trace_text e sig) s | None \<Rightarrow> s)"

text \<open>A log statement of the program: the library sends it to the sink when it is registered.\<close>

definition log_message :: "log_env \<Rightarrow> string \<Rightarrow> logger \<Rightarrow> logger" where
  "log_message e msg s = (case custom_sink s of
     Some k \<Rightarrow> if absl_initialized s \<and> sink_registered s then (case Send e (entry_text e msg) k s of (k1, s1) \<Rightarrow> s1\<lparr>custom_sink := Some k1\<rparr>) else s
   | None \<Rightarrow> s)"

section \<open>The logger\<close>

text \<open>\<open>argv[0]\<close> after its last slash.\<close>

definition base_name :: "string \<Rightarrow> string" where
  "base_name path = rev (takeWhile (\<lambda>c. c \<noteq> CHR ''/'') (rev path))"

text \<open>\<open>Init\<close> with the program name and the two flags. The directory is made if it can be, which \<open>opens\<close> already knows.\<close>

definition Logger_Init :: "log_env \<Rightarrow> string \<Rightarrow> string \<Rightarrow> bool \<Rightarrow> logger \<Rightarrow> logger result" where
  "Logger_Init e argv0 dir enable_sink s = (if initialized s then Inr (log_message e ''Logger already initialized'' s)
     else if absl_initialized s then Inl Terminated
     else let s1 = s\<lparr>absl_initialized := True\<rparr>;
         s2 = (if enable_sink then (case CustomLogSink_new e dir (base_name argv0) s1 of (k, t) \<Rightarrow> t\<lparr>custom_sink := Some k, sink_registered := True\<rparr>) else s1)
       in Inr (log_message e ''Logger initialized successfully'' (s2\<lparr>initialized := True\<rparr>)))"

text \<open>\<open>SIGSEGV, SIGABRT, SIGFPE, SIGILL, SIGBUS, SIGTERM, SIGINT, SIGQUIT, SIGSYS, SIGPIPE\<close> by their numbers on Linux.\<close>

definition tracked_signals :: "int list" where
  "tracked_signals = [11, 6, 8, 4, 7, 15, 2, 3, 31, 13]"

definition EnableSignalHandlers :: "log_env \<Rightarrow> bool \<Rightarrow> logger \<Rightarrow> logger" where
  "EnableSignalHandlers e stack_ok s = (if signal_handler_initialized s then log_message e ''Signal handlers already enabled'' s
     else if \<not> stack_ok then log_message e ''Failed to set up alternate signal stack'' s
     else log_message e ''Signal handlers enabled with backward-cpp''
       (s\<lparr>installed_signals := tracked_signals, handled := tracked_signals @ handled s, signal_handler_initialized := True\<rparr>))"

definition DisableSignalHandlers :: "log_env \<Rightarrow> logger \<Rightarrow> logger" where
  "DisableSignalHandlers e s = (if \<not> signal_handler_initialized s then log_message e ''Signal handlers not enabled'' s
     else log_message e ''Signal handlers disabled and restored to default''
       (s\<lparr>handled := filter (\<lambda>x. x \<notin> set (installed_signals s)) (handled s), installed_signals := [], signal_handler_initialized := False\<rparr>))"

definition Logger_Shutdown :: "log_env \<Rightarrow> logger \<Rightarrow> logger" where
  "Logger_Shutdown e s = (if \<not> initialized s then s
     else let s1 = log_message e ''Shutting down logger'' s;
         s2 = (if custom_sink s1 = None then s1 else s1\<lparr>sink_registered := False, custom_sink := None\<rparr>)
       in (DisableSignalHandlers e s2)\<lparr>initialized := False\<rparr>)"

text \<open>A signal: the handler writes the trace and lets the default action happen. Without a sink its \<open>CHECK\<close> fails.\<close>

datatype crash = Default_action | Traced | Check_died

definition crash_signal :: "log_env \<Rightarrow> int \<Rightarrow> logger \<Rightarrow> crash \<times> logger" where
  "crash_signal e sig s = (if sig \<notin> set (handled s) then (Default_action, s)
     else case custom_sink s of None \<Rightarrow> (Check_died, s) | Some k \<Rightarrow> (Traced, BackwardPrinter e sig k s))"

section \<open>Runs\<close>

datatype log_event = Do_init string string bool | Do_shutdown | Do_enable bool | Do_disable | Do_log string | Next_second string

fun log_step :: "log_env \<Rightarrow> log_event \<Rightarrow> logger \<Rightarrow> logger result" where
  "log_step e (Do_init argv0 dir sink) s = Logger_Init e argv0 dir sink s"
| "log_step e Do_shutdown s = Inr (Logger_Shutdown e s)"
| "log_step e (Do_enable ok) s = Inr (EnableSignalHandlers e ok s)"
| "log_step e Do_disable s = Inr (DisableSignalHandlers e s)"
| "log_step e (Do_log msg) s = Inr (log_message e msg s)"
| "log_step e (Next_second now) s = Inr (s\<lparr>stamp := now\<rparr>)"

definition always_ready :: "log_event \<Rightarrow> logger \<Rightarrow> bool" where
  "always_ready ev s = True"

text \<open>The sink is there exactly while it is registered, which it is only between \<open>Init\<close> and \<open>Shutdown\<close>; the handled signals are the
  tracked ones or none.\<close>

definition has_sink :: "logger \<Rightarrow> bool" where
  "has_sink s = (custom_sink s \<noteq> None)"

definition logger_inv :: "logger \<Rightarrow> bool" where
  "logger_inv s \<longleftrightarrow> (sink_registered s \<longleftrightarrow> has_sink s) \<and> (sink_registered s \<longrightarrow> initialized s) \<and> (initialized s \<longrightarrow> absl_initialized s) \<and>
     handled s = installed_signals s \<and> installed_signals s = (if signal_handler_initialized s then tracked_signals else [])"

lemma sink_same: "custom_sink (snd (Send e t k s)) = custom_sink s" "initialized (snd (Send e t k s)) = initialized s"
  "signal_handler_initialized (snd (Send e t k s)) = signal_handler_initialized s" "installed_signals (snd (Send e t k s)) = installed_signals s"
  "absl_initialized (snd (Send e t k s)) = absl_initialized s" "sink_registered (snd (Send e t k s)) = sink_registered s" "handled (snd (Send e t k s)) = handled s"
  by (simp_all add: Send_def OpenLogFile_def append_file_def Let_def split: option.split)

lemma open_same: "initialized (snd (CustomLogSink_new e d a s)) = initialized s"
  "signal_handler_initialized (snd (CustomLogSink_new e d a s)) = signal_handler_initialized s"
  "installed_signals (snd (CustomLogSink_new e d a s)) = installed_signals s" "absl_initialized (snd (CustomLogSink_new e d a s)) = absl_initialized s"
  "handled (snd (CustomLogSink_new e d a s)) = handled s"
  by (simp_all add: CustomLogSink_new_def OpenLogFile_def Let_def)

lemma log_same [simp]: "initialized (log_message e m s) = initialized s" "signal_handler_initialized (log_message e m s) = signal_handler_initialized s"
  "installed_signals (log_message e m s) = installed_signals s" "absl_initialized (log_message e m s) = absl_initialized s"
  "sink_registered (log_message e m s) = sink_registered s" "handled (log_message e m s) = handled s" "has_sink (log_message e m s) = has_sink s"
  by (simp_all add: log_message_def has_sink_def sink_same split_beta split: option.split)

lemma log_inv: "logger_inv (log_message e m s) = logger_inv s"
  by (simp add: logger_inv_def)

lemma inv_updates [simp]: "has_sink (s\<lparr>custom_sink := Some k\<rparr>)" "\<not> has_sink (s\<lparr>custom_sink := None\<rparr>)" "has_sink (s\<lparr>sink_registered := b\<rparr>) = has_sink s"
  "has_sink (s\<lparr>initialized := b\<rparr>) = has_sink s" "has_sink (s\<lparr>absl_initialized := b\<rparr>) = has_sink s" "has_sink (s\<lparr>stamp := n\<rparr>) = has_sink s"
  "has_sink (s\<lparr>installed_signals := x, handled := y, signal_handler_initialized := b\<rparr>) = has_sink s"
  "has_sink (s\<lparr>handled := y, installed_signals := x, signal_handler_initialized := b\<rparr>) = has_sink s"
  by (simp_all add: has_sink_def)

lemma disable_inv: "logger_inv s \<Longrightarrow> logger_inv (DisableSignalHandlers e s)"
  by (simp add: DisableSignalHandlers_def log_inv) (simp add: logger_inv_def)

lemma enable_inv: "logger_inv s \<Longrightarrow> logger_inv (EnableSignalHandlers e ok s)"
  by (cases "signal_handler_initialized s"; cases ok; simp add: EnableSignalHandlers_def log_inv; simp add: logger_inv_def)

lemma disable_same: "has_sink (DisableSignalHandlers e s) = has_sink s" "initialized (DisableSignalHandlers e s) = initialized s"
  "sink_registered (DisableSignalHandlers e s) = sink_registered s" "\<not> signal_handler_initialized (DisableSignalHandlers e s)"
  by (simp_all add: DisableSignalHandlers_def)

lemma init_inv:
  assumes "logger_inv s" "Logger_Init e argv0 dir sink s = Inr t"
  shows "logger_inv t"
proof (cases "initialized s")
  case True
  then have "t = log_message e ''Logger already initialized'' s" using assms(2) by (simp add: Logger_Init_def)
  then show ?thesis using assms(1) by (simp add: log_inv)
next
  case False
  let ?p = "CustomLogSink_new e dir (base_name argv0) (s\<lparr>absl_initialized := True\<rparr>)"
  let ?u = "(if sink then snd ?p\<lparr>custom_sink := Some (fst ?p), sink_registered := True\<rparr> else s\<lparr>absl_initialized := True\<rparr>)\<lparr>initialized := True\<rparr>"
  have t: "t = log_message e ''Logger initialized successfully'' ?u" using False assms(2) by (simp add: Logger_Init_def Let_def split_beta split: if_splits)
  have "logger_inv ?u" using False assms(1) by (cases sink) (simp_all add: logger_inv_def open_same)
  then show ?thesis unfolding t log_inv .
qed

lemma shutdown_inv:
  assumes "logger_inv s"
  shows "logger_inv (Logger_Shutdown e s) \<and> (initialized s \<longrightarrow> \<not> has_sink (Logger_Shutdown e s) \<and> handled (Logger_Shutdown e s) = [])"
proof (cases "initialized s")
  case True
  define s1 where "s1 = log_message e ''Shutting down logger'' s"
  define s2 where "s2 = (if custom_sink s1 = None then s1 else s1\<lparr>sink_registered := False, custom_sink := None\<rparr>)"
  have s1: "logger_inv s1" using assms by (simp add: s1_def log_inv)
  then have s2: "logger_inv s2" "\<not> has_sink s2" by (auto simp: s2_def logger_inv_def has_sink_def)
  have t: "Logger_Shutdown e s = (DisableSignalHandlers e s2)\<lparr>initialized := False\<rparr>" using True by (simp add: Logger_Shutdown_def s1_def s2_def Let_def)
  have d: "logger_inv (DisableSignalHandlers e s2)" by (rule disable_inv [OF s2(1)])
  then show ?thesis using s2(2) disable_same [of e s2] unfolding t by (simp add: logger_inv_def)
qed (use assms in \<open>simp add: Logger_Shutdown_def\<close>)

lemma log_step_inv: "logger_inv s \<Longrightarrow> always_ready ev s \<Longrightarrow> log_step e ev s = Inr t \<Longrightarrow> logger_inv t"
proof (cases ev)
  case (Next_second now)
  assume "logger_inv s" "log_step e ev s = Inr t"
  then show ?thesis using Next_second by (auto simp: logger_inv_def)
qed (auto simp: init_inv shutdown_inv disable_inv enable_inv log_inv)

interpretation logging: step_invariant logger_inv "log_step e" always_ready for e
  by unfold_locales (rule log_step_inv)

lemma logger_start_inv: "logger_inv (logger_start fs now)"
  by (simp add: logger_inv_def logger_start_def has_sink_def)

section \<open>Properties\<close>

text \<open>
  After any sequence of calls, a \<open>Shutdown\<close> of an initialised logger leaves neither a sink nor a signal handler of the logger behind, and at
  every moment the sink that the library knows exists, so that no entry is sent to a deleted one.
\<close>

theorem Shutdown_takes_everything_back:
  assumes "steps_to (log_step e) always_ready (logger_start fs now) s"
  shows "(sink_registered s \<longleftrightarrow> custom_sink s \<noteq> None) \<and> (initialized s \<longrightarrow> (case Logger_Shutdown e s of t \<Rightarrow>
    \<not> initialized t \<and> custom_sink t = None \<and> \<not> sink_registered t \<and> handled t = []))"
proof -
  have inv: "logger_inv s" using logging.always [OF assms logger_start_inv] .
  have "\<not> initialized (Logger_Shutdown e s)" if "initialized s" using that by (simp add: Logger_Shutdown_def Let_def)
  then show ?thesis using inv shutdown_inv [OF inv, of e] by (auto simp: logger_inv_def has_sink_def)
qed

theorem Shutdown_takes_everything_back_witness:
  "\<exists>s. run_events (log_step \<lparr>opens = \<lambda>_. True, entry_text = id, trace_text = \<lambda>_. [], pid_text = ''1''\<rparr>) always_ready
     [Do_init ''a/b'' ''d'' True, Do_enable True, Do_log ''x''] (logger_start (\<lambda>_. None) ''t'') = Some s \<and> custom_sink s \<noteq> None \<and> handled s = tracked_signals \<and>
     handled (Logger_Shutdown \<lparr>opens = \<lambda>_. True, entry_text = id, trace_text = \<lambda>_. [], pid_text = ''1''\<rparr> s) = []"
proof -
  let ?e = "\<lparr>opens = \<lambda>_. True, entry_text = id, trace_text = \<lambda>_. [], pid_text = ''1''\<rparr>"
  let ?es = "[Do_init ''a/b'' ''d'' True, Do_enable True, Do_log ''x'']"
  have "map_option (\<lambda>s. (initialized s, case custom_sink s of None \<Rightarrow> False | Some _ \<Rightarrow> True, handled s)) (run_events (log_step ?e) always_ready ?es (logger_start (\<lambda>_. None) ''t''))
    = Some (True, True, tracked_signals)" by code_simp
  then obtain s where s: "run_events (log_step ?e) always_ready ?es (logger_start (\<lambda>_. None) ''t'') = Some s" "initialized s" "custom_sink s \<noteq> None"
    "handled s = tracked_signals" by (auto split: option.splits)
  from Shutdown_takes_everything_back [OF run_events_steps [OF steps_refl s(1)]] s show ?thesis by auto
qed

text \<open>What is sent to a sink whose file can be opened is in the file, in the order of the calls, behind what was there.\<close>

lemma log_file_has_every_entry:
  assumes "custom_sink s = Some k" "absl_initialized s" "sink_registered s" "\<not> skip_log_to_file k" "log_file k = Some path" "files s path = Some t"
  shows "files (fold (log_message e) msgs s) path = Some (t @ concat (map (entry_text e) msgs))"
  using assms
proof (induction msgs arbitrary: s t)
  case (Cons m msgs)
  have "log_message e m s = (append_file path (entry_text e m) s)\<lparr>custom_sink := Some k\<rparr>" using Cons.prems by (simp add: log_message_def Send_def)
  then show ?case using Cons.prems Cons.IH [of "log_message e m s" "t @ entry_text e m"] by (simp add: append_file_def)
qed simp

text \<open>\<open>Init\<close> after \<open>Shutdown\<close> ends the program; a signal with handlers but without a sink leaves no trace.\<close>

lemma second_Init_dies: "Logger_Init e a d b s = Inr t \<Longrightarrow> \<not> initialized s \<Longrightarrow> Logger_Init e' a' d' b' (Logger_Shutdown e t) = Inl Terminated"
proof -
  assume "Logger_Init e a d b s = Inr t" "\<not> initialized s"
  then have t: "initialized t" "absl_initialized t" by (auto simp: Logger_Init_def Let_def open_same split_beta split: if_splits)
  have "absl_initialized (DisableSignalHandlers e u) = absl_initialized u" for u by (simp add: DisableSignalHandlers_def)
  then show ?thesis using t by (simp add: Logger_Init_def Logger_Shutdown_def Let_def)
qed

lemma crash_without_sink: "sig \<in> set tracked_signals \<Longrightarrow> fst (crash_signal e sig (EnableSignalHandlers e True (logger_start fs now))) = Check_died"
  by (simp add: crash_signal_def EnableSignalHandlers_def log_message_def logger_start_def)

end
