(* ===== verification/Spec2Isabelle.thy ===== *)
theory Spec2Isabelle
  imports Basic_Math Buffer_Chain_Props Arena_Props Lock_Range_Props Lock_Id_Props Spinlock Thread_Pool_Props Parallel Qos_Props
    Transform_Props Monitor_Props Scoped_Exec Murmur_Props System_Props System_Cache System_Refresh Popen_Props Popen_Run Logger
begin

text \<open>
  Verification of yacul (Yet Another C++ Utility Library), the code under \<^verbatim>\<open>src/yacul\<close>.

  \<^bold>\<open>The program and its parts.\<close> yacul is a collection of utilities for servers: memory (reference counted buffers in chains, arenas), concurrency
  (locks on ranges and on identifiers, a spin lock, a thread pool), a QOS scheduler with rate limits, data transformation (adapters of compressors,
  checksums and hashes), process supervision, guards, hashing, system information, child processes and logging. The parts meet in few places:
  the parallel loops submit to the thread pool, the QOS scheduler asks its token buckets, the queries of \<open>SystemInfo\<close> and its refresh thread share caches,
  the arena is behind an STL allocator, and everything uses the arithmetic and the checks of \<^verbatim>\<open>basic/basic.h\<close>.

  \<^bold>\<open>How the code is modelled.\<close> A class is a record of its members, or a heap of nodes where the code shares objects by pointers (buffers). A method is a
  function on the state with the branches of the code; machine integers are words at their width where they can wrap (\<open>u8\<close> to \<open>u64\<close>, \<open>sz_add\<close>, \<open>sz_sub\<close>).
  What ends the program or is undefined is a value of the type \<open>fault\<close>: a failed \<open>CHECK\<close>, \<open>LOG(FATAL)\<close>, undefined behaviour, an end of
  the process by \<open>std::terminate\<close>, by a signal or by a library. Where threads interleave, a thread is at a place of its code (\<open>..._pc\<close>),
  what a lock makes atomic is one step, and a \<open>..._step\<close> function with a \<open>..._ready\<close> predicate (where a thread does not have to wait) spans all runs through
  \<open>steps_to\<close>; \<open>run_events\<close> computes single runs, which the witnesses and the counterexamples do.
  Waiting on a condition variable allows spurious wake-ups. The memory order is taken as sequentially consistent.

  \<^bold>\<open>Shared theories.\<close>
  \<^item> \<open>Yacul_Prelude\<close>: faults, sequencing (\<open>rbind\<close>, \<open>check\<close>), \<open>size_t\<close> arithmetic, lemmas on lists and words. \<open>Std_Map\<close>: \<open>std::map\<close> as a sorted list of pairs.
  \<open>Text_Stream\<close>: the part of strings, string streams, number parsing and \<open>sscanf\<close> that the system classes use, with round trips of printing and reading.
  \<^item> \<open>Safe_Ops\<close>: locale \<open>safe_ops\<close>, the contract of a heap (operations return, do not fault, keep the invariant and touch only what they name).
  Interpreted for the buffers.
  \<^item> \<open>Lock_Contract\<close>: locale \<open>step_invariant\<close> (an invariant of the steps holds in every reachable state), and \<open>lock_contract\<close>, a sublocale
  of it (the steps of an implementation are steps of the abstract lock, the multiset of the claims held; from it mutual exclusion is
  proved once). Interpreted for \<open>LockRange\<close> (twice, also for patient users), \<open>LockId\<close> and \<open>Spinlock\<close>;
  \<open>step_invariant\<close> for the thread pool, the parallel loops, the supervisor, the guards, the refresh thread, child processes and the logger.
  \<^item> \<open>Stream_Contract\<close>: locales \<open>incremental\<close> and \<open>sized_incremental\<close> (a streaming object computes the one-shot function of what it was fed), interpreted for all
  checksums and all hashes. \<open>codec\<close> in \<open>Transform_Props\<close>: interpreted for all compressors. \<open>cached_domain\<close> in \<open>System_Cache\<close>: interpreted for the
  eleven domains of \<open>SystemInfo\<close> that have a cache.

  \<^bold>\<open>Components, theories, sources.\<close>
  \<^item> \<open>Basic_Math\<close>: \<^verbatim>\<open>basic/basic.h\<close>. Alignment and powers of two are the least such numbers, with the arguments for which they wrap.
  \<^item> \<open>Buffer_Heap\<close> (store, \<open>PhysicalBuffer\<close>), \<open>Buffer_Node\<close>, \<open>Buffer_Lifecycle\<close>, \<open>Buffer_Ops\<close>, \<open>Buffer_Write\<close> (single nodes), \<open>Buffer_Chain\<close>, \<open>Buffer_Ring\<close>,
  \<open>Buffer_Walk\<close> (rings as lists and the loops over them), \<open>Buffer_Cursor\<close>, \<open>Buffer_System\<close> (all calls as one system):
  \<^verbatim>\<open>memory/buffer.h\<close>, \<^verbatim>\<open>buffer.cc\<close>. \<open>Buffer_Invariant\<close> and \<open>Buffer_Links\<close> hold the heap
  invariant. \<open>Buffer_Props\<close> and \<open>Buffer_Chain_Props\<close>: no call faults or loops, reference counts are the numbers of views, the last view frees, the
  splices and walks are those of lists, cursors read and write the concatenation. The loops over a ring do not end on a broken
  ring: they are \<open>partial_function (option)\<close>, and on a well-formed heap they are shown to return.
  \<^item> \<open>Arena\<close>, \<open>Arena_Props\<close>: \<^verbatim>\<open>memory/arena.h\<close>, \<^verbatim>\<open>arena.cc\<close>, \<^verbatim>\<open>allocator.h\<close>. Allocations are aligned, inside their blocks and disjoint; a
  mark restores the blocks. What \<open>malloc\<close> returns is a parameter with the hypothesis that it fits (\<open>malloc_fits\<close>).
  \<^item> \<open>Lock_Range\<close>, \<open>Lock_Range_Inv\<close>, \<open>Lock_Range_Sys\<close>, \<open>Lock_Range_Props\<close>: \<^verbatim>\<open>concurrency/lock_range.h\<close>, \<^verbatim>\<open>lock_range.cc\<close>. Overlapping locks exclude each
  other, the implementation refines the abstract lock, no wake-up is lost by patient users.
  \<^item> \<open>Lock_Id\<close>, \<open>Lock_Id_Inv\<close>, \<open>Lock_Id_Props\<close>: \<^verbatim>\<open>concurrency/lock_id.h\<close>, \<^verbatim>\<open>lock_id.cc\<close>. \<open>Spinlock\<close>: \<^verbatim>\<open>concurrency/spinlock.h\<close>, \<^verbatim>\<open>spinlock.cc\<close>.
  \<^item> \<open>Thread_Pool\<close> (state and operations), \<open>Thread_Pool_Sys\<close> (threads), \<open>Thread_Pool_Inv\<close> (ledger of the tasks), \<open>Thread_Pool_Counters\<close> (gauges),
  \<open>Thread_Pool_Props\<close>, and \<open>Parallel\<close> (\<open>GlobalThreadPool\<close>, \<open>ParallelFor\<close>, \<open>ParallelTransform\<close>): \<^verbatim>\<open>concurrency/threadpool.h\<close>, \<^verbatim>\<open>threadpool.cc\<close>. A task runs at most once, the
  gauges are exact, every run of a worker alone drains the queue within 13 steps for each task and 12 more; a parallel transformation is a map.
  \<^item> \<open>Token_Bucket\<close>, \<open>Qos\<close>, \<open>Qos_Props\<close>: \<^verbatim>\<open>qos/\<close>. Rates and depths stay within their limits, items leave in the order of level and
  arrival, the drain ends and, when nothing expires, executes everything
  (its fuel is the number of queued items and one more round, which is enough because every round but the last takes an item out; each round has
  its own clock reading). A call of the scheduler runs by itself: that several producers can pass the test of a depth before any of them
  pushes is outside of the model.
  \<^item> \<open>Transform\<close>, \<open>Transform_Digest\<close>, \<open>Transform_Factory\<close>, \<open>Transform_Props\<close>: \<^verbatim>\<open>transformation/\<close>. The libraries (LZ4, Zstd, Snappy, crc32c, xxHash, BLAKE3,
  OpenSSL) are records of functions; \<open>compression_lawful\<close>, \<open>checksum_lawful\<close> and \<open>hash_lawful\<close> state what they document, and witnesses give concrete
  functions that obey them. Inputs are bounded by the formats ($2^{63}$ bytes, for Snappy $2^{32}$), keys by the \<open>int\<close> that \<open>HMAC\<close> takes.
  \<^item> \<open>Monitor\<close>, \<open>Monitor_Inv\<close>, \<open>Monitor_Props\<close>: \<^verbatim>\<open>misc/monitor_process.h\<close>, \<^verbatim>\<open>monitor_process.cc\<close>. One child at a time, none left behind; a stop request ends the
  monitor within twelve of its steps. \<open>Scoped_Exec\<close>: \<^verbatim>\<open>misc/scoped_exec.h\<close>. A functor is called at most once.
  \<^item> \<open>Murmur\<close>, \<open>Murmur_Props\<close>: \<^verbatim>\<open>hashing/os_murmur_hash3.cc\<close>, \<^verbatim>\<open>hash.h\<close>.
  \<^item> \<open>System_Data\<close>, \<open>System_Fetch\<close> (readers and parsers), \<open>System_Info\<close> (caches and queries), \<open>System_Refresh\<close> (background thread), \<open>System_Props\<close>,
  \<open>System_Cache\<close>: \<^verbatim>\<open>system/system_info.h\<close>, \<^verbatim>\<open>system_info.cc\<close>. The operating system is a parameter (\<open>os_view\<close>: files, directories, results
  of system calls and commands). Cached answers are fetches within their time to live and after the last invalidation; readers return the numbers of
  the files that the kernel writes. A line has at most as many words as characters, the fuel of \<open>all_words\<close>.
  \<^item> \<open>Popen\<close> (commands, environment, capture), \<open>Popen_Sys\<close> (a run: caller, timer thread, child, pipes, clock), \<open>Popen_Props\<close>, \<open>Popen_Inv\<close>, \<open>Popen_Run\<close>:
  \<^verbatim>\<open>system/popen_wrapper.h\<close>, \<^verbatim>\<open>popen_wrapper.cc\<close>. The capacity of a pipe is a parameter, the child does what it likes. A run leaves nothing
  open, returns within 17 steps of its thread once the child has ended (or the program ends in a write to the closed pipe, where \<open>SIGPIPE\<close> is not
  ignored), and a write-only run always uses up its timeout.
  \<^item> \<open>Logger\<close>: \<^verbatim>\<open>logging/logger.h\<close>, \<^verbatim>\<open>logger.cc\<close>. Sink, file and signal handlers; the logging library by what it documents.

  \<^bold>\<open>Simplifications.\<close> \<open>double\<close> values are rational or real numbers without rounding; clock readings are unbounded integers (that do not go back, except where they are arguments: token bucket, scheduler, caches), counters
  that only count are unbounded where a wrap would need more than $2^{63}$ steps; \<open>std::sort\<close> is a stable sort; calls that a signal interrupts are
  repeated at once; memory allocation does not fail except where the code tests it (arena, buffers).

  \<^bold>\<open>Not modelled.\<close> \<^verbatim>\<open>concurrency/os_lockless_queue.h\<close> (third-party \<open>moodycamel::ConcurrentQueue\<close>; the QOS scheduler has a FIFO list in its place);
  \<open>GetCurrentTimeString\<close> of \<open>SystemInfo\<close> (\<open>strftime\<close>); failing \<open>poll\<close> calls of \<open>PopenWrapper\<close>; the contents of stack
  traces; log messages outside the logger; \<^verbatim>\<open>hashing/bloom_filter\<close> and \<^verbatim>\<open>snippet\<close> (classes without operations); the empty files of
  \<^verbatim>\<open>misc/cache.h\<close>, \<^verbatim>\<open>misc/ranges.h\<close>, \<^verbatim>\<open>network\<close>, \<^verbatim>\<open>system/io_uring.h\<close> and \<^verbatim>\<open>wal\<close>.
\<close>

end
